(* ===== verification/Prelude.thy ===== *)
theory Prelude
  imports Main "HOL-Library.Word" "HOL-Library.List_Lexorder" "HOL-Library.Char_ord"
begin

text \<open>
  Shared vocabulary of the development: the Rust types the components use (fixed-width
  integers, UTF-8 strings, durations), the standard-library operations they call
  (\<open>Result\<close> combinators, \<open>str::trim\<close>, \<open>BTreeMap\<close>, \<open>BTreeSet\<close>, decimal formatting) and the
  generic lemmas and simplification collections the component theories share.

  A Rust \<open>String\<close> is its UTF-8 byte sequence, a list of 8-bit characters: \<open>length\<close> is then
  \<open>str::len\<close>, the lexicographic order of \<open>HOL-Library.List_Lexorder\<close> is \<open>Ord for String\<close>, and
  \<open>starts_with\<close> is a prefix test on bytes.
\<close>

named_theorems result_simps \<open>unfolding of the Result combinators\<close>
named_theorems btree_simps \<open>lookup and key sets after ordered-map updates\<close>

section \<open>Integers and durations\<close>

type_synonym u32 = "32 word"
type_synonym u64 = "64 word"
type_synonym usize = "64 word"
type_synonym i32 = "32 word"

text \<open>The successor of a counter that is not at its end.\<close>

lemma u64_succ_unat:
  fixes n :: u64
  assumes "n \<noteq> - 1"
  shows "unat (n + 1) = Suc (unat n)"
proof -
  have "1 + n \<noteq> 0" using assms max_word_wrap [of n] by (auto simp: add.commute)
  then show ?thesis using unatSuc [of n] by (simp add: add.commute)
qed

lemma u64_succ_less: "n \<noteq> - 1 \<Longrightarrow> n < n + (1 :: u64)"
  by (simp add: word_less_nat_alt u64_succ_unat)

text \<open>An \<open>f64\<close> is its IEEE 754 bit pattern: the source only stores it, copies it and classifies it.\<close>

type_synonym f64 = "64 word"

definition f64_is_finite :: "f64 \<Rightarrow> bool" where
  "f64_is_finite x \<longleftrightarrow> unat (drop_bit 52 x) mod 2048 \<noteq> 2047"

definition f64_sign :: "f64 \<Rightarrow> bool" where
  "f64_sign x \<longleftrightarrow> bit x 63"

definition f64_is_zero :: "f64 \<Rightarrow> bool" where
  "f64_is_zero x \<longleftrightarrow> unat x mod 2 ^ 63 = 0"

text \<open>\<open>x <= 0.0\<close> for a value that is not a NaN: both zeros, and everything with the sign bit.\<close>

definition f64_le_zero :: "f64 \<Rightarrow> bool" where
  "f64_le_zero x \<longleftrightarrow> f64_is_zero x \<or> f64_sign x"

text \<open>A \<open>Duration\<close> is its number of nanoseconds; an \<open>Instant\<close> is nanoseconds on the host's monotonic clock.\<close>

type_synonym duration = nat
type_synonym instant = nat

definition duration_from_secs :: "nat \<Rightarrow> duration" where
  "duration_from_secs s = s * 1000000000"

definition duration_from_millis :: "nat \<Rightarrow> duration" where
  "duration_from_millis ms = ms * 1000000"

definition duration_as_millis :: "duration \<Rightarrow> nat" where
  "duration_as_millis d = d div 1000000"

section \<open>Results\<close>

text \<open>\<open>Result<T, E>\<close> is \<open>E + T\<close>; \<open>and_then\<close> is the \<open>?\<close> operator, \<open>collect_results\<close> is \<open>collect::<Result<Vec<_>, _>>()\<close>.\<close>

definition and_then :: "'e + 'a \<Rightarrow> ('a \<Rightarrow> 'e + 'b) \<Rightarrow> 'e + 'b" where
  "and_then r f = (case r of Inl e \<Rightarrow> Inl e | Inr a \<Rightarrow> f a)"

definition map_err :: "('e \<Rightarrow> 'f) \<Rightarrow> 'e + 'a \<Rightarrow> 'f + 'a" where
  "map_err f r = (case r of Inl e \<Rightarrow> Inl (f e) | Inr a \<Rightarrow> Inr a)"

definition ok_or :: "'e \<Rightarrow> 'a option \<Rightarrow> 'e + 'a" where
  "ok_or e x = (case x of None \<Rightarrow> Inl e | Some a \<Rightarrow> Inr a)"

fun collect_results :: "('a \<Rightarrow> 'e + 'b) \<Rightarrow> 'a list \<Rightarrow> 'e + 'b list" where
  "collect_results f [] = Inr []"
| "collect_results f (x # xs) =
     and_then (f x) (\<lambda>y. and_then (collect_results f xs) (\<lambda>ys. Inr (y # ys)))"

definition is_ok :: "'e + 'a \<Rightarrow> bool" where
  "is_ok r = (case r of Inl _ \<Rightarrow> False | Inr _ \<Rightarrow> True)"

text \<open>\<open>Option::or\<close>, and the "set when the other side binds it" rule of the layered records.\<close>

definition option_or :: "'a option \<Rightarrow> 'a option \<Rightarrow> 'a option" where
  "option_or a b = (case a of None \<Rightarrow> b | Some x \<Rightarrow> Some x)"

definition unwrap_or :: "'a option \<Rightarrow> 'a \<Rightarrow> 'a" where
  "unwrap_or a d = (case a of None \<Rightarrow> d | Some x \<Rightarrow> x)"

definition is_some :: "'a option \<Rightarrow> bool" where
  "is_some a = (case a of None \<Rightarrow> False | Some _ \<Rightarrow> True)"

lemma and_then_simps [simp, result_simps]:
  "and_then (Inl e) f = Inl e"
  "and_then (Inr a) f = f a"
  by (simp_all add: and_then_def)

lemma and_then_eq_Inr: "and_then r f = Inr b \<longleftrightarrow> (\<exists>a. r = Inr a \<and> f a = Inr b)"
  by (cases r) auto

lemma and_then_eq_Inl: "and_then r f = Inl e \<longleftrightarrow> r = Inl e \<or> (\<exists>a. r = Inr a \<and> f a = Inl e)"
  by (cases r) auto

lemma map_err_simps [simp, result_simps]:
  "map_err f (Inl e) = Inl (f e)"
  "map_err f (Inr a) = Inr a"
  by (simp_all add: map_err_def)

lemma ok_or_simps [simp, result_simps]:
  "ok_or e None = Inl e"
  "ok_or e (Some a) = Inr a"
  by (simp_all add: ok_or_def)

lemma is_ok_simps [simp, result_simps]: "is_ok (Inr a)" "\<not> is_ok (Inl e)"
  by (simp_all add: is_ok_def)

lemma option_or_simps [simp]:
  "option_or None b = b"
  "option_or (Some x) b = Some x"
  "option_or a None = a"
  by (simp_all add: option_or_def split: option.splits)

lemma option_or_assoc: "option_or (option_or a b) c = option_or a (option_or b c)"
  by (cases a) simp_all

lemma option_or_idem [simp]: "option_or a a = a"
  by (cases a) simp_all

lemma unwrap_or_simps [simp]: "unwrap_or None d = d" "unwrap_or (Some x) d = x"
  by (simp_all add: unwrap_or_def)

lemma is_some_simps [simp]: "\<not> is_some None" "is_some (Some x)"
  by (simp_all add: is_some_def)

lemma is_some_iff: "is_some a \<longleftrightarrow> a \<noteq> None"
  by (cases a) simp_all

lemma is_ok_and_then: "is_ok (and_then r f) \<longleftrightarrow> (\<exists>a. r = Inr a \<and> is_ok (f a))"
  by (cases r) auto

lemma is_ok_iff: "is_ok r \<longleftrightarrow> (\<exists>a. r = Inr a)"
  by (cases r) auto

lemma collect_results_Inr:
  "collect_results f xs = Inr ys \<Longrightarrow> length ys = length xs \<and> (\<forall>i < length xs. f (xs ! i) = Inr (ys ! i))"
proof (induction xs arbitrary: ys)
  case Nil
  then show ?case by simp
next
  case (Cons x xs)
  then show ?case by (auto simp: and_then_eq_Inr nth_Cons split: nat.splits)
qed

lemma collect_results_Inl: "collect_results f xs = Inl e \<Longrightarrow> \<exists>x \<in> set xs. f x = Inl e"
  by (induction xs) (auto simp: and_then_eq_Inl)

lemma collect_results_is_ok: "is_ok (collect_results f xs) \<longleftrightarrow> (\<forall>x \<in> set xs. is_ok (f x))"
proof (induction xs)
  case Nil
  then show ?case by simp
next
  case (Cons x xs)
  then show ?case by (cases "f x"; cases "collect_results f xs") auto
qed

section \<open>Strings\<close>

text \<open>
  \<open>str::trim\<close> removes the longest prefix and suffix of characters with the Unicode property
  \<open>White_Space\<close>. On UTF-8 these are the encodings below; UTF-8 is self-synchronising, so on a
  valid string a byte prefix (suffix) equal to one of them is that character.
\<close>

definition whitespace_encodings :: "string list" where
  "whitespace_encodings =
     [[CHR 0x09], [CHR 0x0A], [CHR 0x0B], [CHR 0x0C], [CHR 0x0D], [CHR 0x20],
      [CHR 0xC2, CHR 0x85], [CHR 0xC2, CHR 0xA0], [CHR 0xE1, CHR 0x9A, CHR 0x80],
      [CHR 0xE2, CHR 0x80, CHR 0x80], [CHR 0xE2, CHR 0x80, CHR 0x81], [CHR 0xE2, CHR 0x80, CHR 0x82],
      [CHR 0xE2, CHR 0x80, CHR 0x83], [CHR 0xE2, CHR 0x80, CHR 0x84], [CHR 0xE2, CHR 0x80, CHR 0x85],
      [CHR 0xE2, CHR 0x80, CHR 0x86], [CHR 0xE2, CHR 0x80, CHR 0x87], [CHR 0xE2, CHR 0x80, CHR 0x88],
      [CHR 0xE2, CHR 0x80, CHR 0x89], [CHR 0xE2, CHR 0x80, CHR 0x8A], [CHR 0xE2, CHR 0x80, CHR 0xA8],
      [CHR 0xE2, CHR 0x80, CHR 0xA9], [CHR 0xE2, CHR 0x80, CHR 0xAF], [CHR 0xE2, CHR 0x81, CHR 0x9F],
      [CHR 0xE3, CHR 0x80, CHR 0x80]]"

fun starts_with :: "string \<Rightarrow> string \<Rightarrow> bool" where
  "starts_with [] s = True"
| "starts_with (c # cs) [] = False"
| "starts_with (c # cs) (d # ds) = (c = d \<and> starts_with cs ds)"

definition leading_whitespace :: "string list \<Rightarrow> string \<Rightarrow> string option" where
  "leading_whitespace ws s = find (\<lambda>w. w \<noteq> [] \<and> starts_with w s) ws"

function strip_front :: "string list \<Rightarrow> string \<Rightarrow> string" where
  "strip_front ws s =
     (case leading_whitespace ws s of None \<Rightarrow> s | Some w \<Rightarrow> strip_front ws (drop (length w) s))"
  by pat_completeness auto
termination
proof (relation "measure (\<lambda>(ws, s). length s)", goal_cases)
  case 1
  show ?case by simp
next
  case (2 ws s w)
  then have "w \<noteq> []" and "starts_with w s"
    by (auto simp: leading_whitespace_def find_Some_iff)
  then show ?case by (cases s; cases w) auto
qed

declare strip_front.simps [simp del]

definition trim_start :: "string \<Rightarrow> string" where
  "trim_start s = strip_front whitespace_encodings s"

definition trim_end :: "string \<Rightarrow> string" where
  "trim_end s = rev (strip_front (map rev whitespace_encodings) (rev s))"

definition trim :: "string \<Rightarrow> string" where
  "trim s = trim_end (trim_start s)"

text \<open>\<open>s.trim().is_empty()\<close>, the blankness test used by every validation.\<close>

definition is_blank :: "string \<Rightarrow> bool" where
  "is_blank s \<longleftrightarrow> trim s = []"

definition hyphen :: string where
  "hyphen = ''-''"

lemma starts_with_iff: "starts_with p s \<longleftrightarrow> (\<exists>t. s = p @ t)"
  by (induction p s rule: starts_with.induct) auto

lemma strip_front_Nil [simp]: "strip_front ws [] = []"
proof -
  have "leading_whitespace ws [] = None"
    by (auto simp: leading_whitespace_def find_None_iff starts_with_iff)
  then show ?thesis by (simp add: strip_front.simps)
qed

lemma leading_whitespace_strip_front: "leading_whitespace ws (strip_front ws s) = None"
proof (induction ws s rule: strip_front.induct)
  case (1 ws s)
  then show ?case
    by (cases "leading_whitespace ws s") (simp_all add: strip_front.simps [of ws s])
qed

lemma strip_front_suffix: "\<exists>p. s = p @ strip_front ws s"
proof (induction ws s rule: strip_front.induct)
  case (1 ws s)
  show ?case
  proof (cases "leading_whitespace ws s")
    case None
    then show ?thesis by (simp add: strip_front.simps)
  next
    case (Some w)
    with "1" obtain p where "drop (length w) s = p @ strip_front ws (drop (length w) s)" by blast
    with Some have "s = (take (length w) s @ p) @ strip_front ws s"
      by (metis append.assoc append_take_drop_id option.simps(5) strip_front.simps)
    then show ?thesis by blast
  qed
qed

lemma strip_front_fixed: "leading_whitespace ws s = None \<Longrightarrow> strip_front ws s = s"
  by (simp add: strip_front.simps)

lemma trim_Nil [simp]: "trim [] = []"
  by (simp add: trim_def trim_start_def trim_end_def)

lemma is_blank_Nil [simp]: "is_blank []"
  by (simp add: is_blank_def)

lemma leading_whitespace_prefix:
  "leading_whitespace ws (s @ t) = None \<Longrightarrow> leading_whitespace ws s = None"
  by (fastforce simp: leading_whitespace_def find_None_iff starts_with_iff)

lemma strip_front_all: "strip_front ws s = [] \<Longrightarrow> s \<noteq> [] \<Longrightarrow> \<exists>w p. w \<in> set ws \<and> w \<noteq> [] \<and> s = p @ w"
proof (induction ws s rule: strip_front.induct)
  case (1 ws s)
  show ?case
  proof (cases "leading_whitespace ws s")
    case None
    with "1.prems" show ?thesis by (simp add: strip_front_fixed)
  next
    case (Some w)
    then have w: "w \<in> set ws" "w \<noteq> []" and s: "s = w @ drop (length w) s"
      by (auto simp: leading_whitespace_def find_Some_iff starts_with_iff)
    have rest: "strip_front ws (drop (length w) s) = []"
      using "1.prems"(1) Some by (simp add: strip_front.simps [of ws s])
    show ?thesis
    proof (cases "drop (length w) s = []")
      case True
      then show ?thesis using w s by (intro exI [of _ w] exI [of _ "[]"]) simp
    next
      case False
      then obtain v p where "v \<in> set ws" "v \<noteq> []" "drop (length w) s = p @ v"
        using "1.IH" [OF Some rest] by blast
      then show ?thesis using s by (intro exI [of _ v] exI [of _ "w @ p"]) auto
    qed
  qed
qed

text \<open>A string that starts with no white space is blank only when it is empty.\<close>

lemma not_blank: "leading_whitespace whitespace_encodings s = None \<Longrightarrow> s \<noteq> [] \<Longrightarrow> \<not> is_blank s"
proof
  assume none: "leading_whitespace whitespace_encodings s = None" and "s \<noteq> []" and "is_blank s"
  then have "strip_front (map rev whitespace_encodings) (rev s) = []"
    by (simp add: is_blank_def trim_def trim_end_def trim_start_def strip_front_fixed)
  then obtain w p where "w \<in> set whitespace_encodings" "w \<noteq> []" "rev s = p @ rev w"
    using strip_front_all [of "map rev whitespace_encodings" "rev s"] \<open>s \<noteq> []\<close> by auto
  then have "w \<in> set whitespace_encodings" "w \<noteq> []" "s = w @ rev p"
    by (simp_all add: rev_swap)
  then show False using none by (auto simp: leading_whitespace_def find_None_iff starts_with_iff)
qed

text \<open>Trimming is idempotent, so an identifier that equals its own trimming stays accepted.\<close>

lemma trim_idem [simp]: "trim (trim s) = trim s"
proof -
  let ?a = "trim_start s"
  obtain p where p: "rev ?a = p @ strip_front (map rev whitespace_encodings) (rev ?a)"
    using strip_front_suffix by blast
  have "rev (rev ?a) = rev (p @ strip_front (map rev whitespace_encodings) (rev ?a))"
    using p by (rule arg_cong)
  then have a: "?a = trim_end ?a @ rev p"
    by (simp add: trim_end_def)
  have "leading_whitespace whitespace_encodings ?a = None"
    by (simp add: trim_start_def leading_whitespace_strip_front)
  with a have "leading_whitespace whitespace_encodings (trim_end ?a @ rev p) = None"
    by simp
  then have "leading_whitespace whitespace_encodings (trim_end ?a) = None"
    by (rule leading_whitespace_prefix)
  then have "trim_start (trim_end ?a) = trim_end ?a"
    unfolding trim_start_def by (rule strip_front_fixed)
  moreover have "trim_end (trim_end ?a) = trim_end ?a"
    by (simp add: trim_end_def strip_front_fixed leading_whitespace_strip_front)
  ultimately show ?thesis
    unfolding trim_def by simp
qed

subsection \<open>UTF-8\<close>

text \<open>
  A path of a Unix host is any byte sequence; \<open>Path::to_str\<close> and \<open>OsStr::to_str\<close> succeed on
  well-formed UTF-8 (Table 3-7 of the Unicode standard, \<open>core::str::from_utf8\<close>).
\<close>

definition byte_in :: "nat \<Rightarrow> nat \<Rightarrow> char \<Rightarrow> bool" where
  "byte_in lo hi c \<longleftrightarrow> lo \<le> of_char c \<and> of_char c \<le> (hi :: nat)"

fun utf8_valid :: "string \<Rightarrow> bool" where
  "utf8_valid [] = True"
| "utf8_valid (a # s) =
     (if byte_in 0x00 0x7F a then utf8_valid s
      else case s of
        [] \<Rightarrow> False
      | b # s1 \<Rightarrow>
          if byte_in 0xC2 0xDF a then byte_in 0x80 0xBF b \<and> utf8_valid s1
          else case s1 of
            [] \<Rightarrow> False
          | c # s2 \<Rightarrow>
              if byte_in 0xE0 0xEF a
              then byte_in (if of_char a = (0xE0 :: nat) then 0xA0 else 0x80) (if of_char a = (0xED :: nat) then 0x9F else 0xBF) b
                   \<and> byte_in 0x80 0xBF c \<and> utf8_valid s2
              else case s2 of
                [] \<Rightarrow> False
              | d # s3 \<Rightarrow>
                  byte_in 0xF0 0xF4 a
                  \<and> byte_in (if of_char a = (0xF0 :: nat) then 0x90 else 0x80) (if of_char a = (0xF4 :: nat) then 0x8F else 0xBF) b
                  \<and> byte_in 0x80 0xBF c \<and> byte_in 0x80 0xBF d \<and> utf8_valid s3)"

definition path_to_str :: "string \<Rightarrow> string option" where
  "path_to_str p = (if utf8_valid p then Some p else None)"

subsection \<open>Decimal rendering\<close>

text \<open>\<open>{}\<close> of an unsigned and of a signed integer.\<close>

definition digit_char :: "nat \<Rightarrow> char" where
  "digit_char d = char_of (48 + d)"

fun show_nat :: "nat \<Rightarrow> string" where
  "show_nat n = (if n < 10 then [digit_char n] else show_nat (n div 10) @ [digit_char (n mod 10)])"

declare show_nat.simps [simp del]

definition show_int :: "int \<Rightarrow> string" where
  "show_int i = (if i < 0 then ''-'' @ show_nat (nat (- i)) else show_nat (nat i))"

section \<open>Ordered maps and sets\<close>

text \<open>
  A \<open>BTreeMap\<close> is its entry list in key order, a \<open>BTreeSet\<close> its element list in order
  (\<open>insort_insert\<close> inserts, \<open>hd\<close>/\<open>tl\<close> is \<open>pop_first\<close>). \<open>get\<close> is \<open>map_of\<close>.
\<close>

type_synonym ('k, 'v) btree_map = "('k \<times> 'v) list"

fun bt_insert :: "'k::linorder \<Rightarrow> 'v \<Rightarrow> ('k, 'v) btree_map \<Rightarrow> ('k, 'v) btree_map" where
  "bt_insert k v [] = [(k, v)]"
| "bt_insert k v ((k', v') # xs) =
     (if k < k' then (k, v) # (k', v') # xs
      else if k = k' then (k, v) # xs
      else (k', v') # bt_insert k v xs)"

text \<open>Assignment through \<open>get_mut\<close>: the entry of an existing key is overwritten in place.\<close>

fun bt_set :: "'k \<Rightarrow> 'v \<Rightarrow> ('k, 'v) btree_map \<Rightarrow> ('k, 'v) btree_map" where
  "bt_set k v [] = []"
| "bt_set k v ((k', v') # xs) = (if k = k' then (k, v) # xs else (k', v') # bt_set k v xs)"

definition bt_keys :: "('k, 'v) btree_map \<Rightarrow> 'k list" where
  "bt_keys m = map fst m"

definition bt_values :: "('k, 'v) btree_map \<Rightarrow> 'v list" where
  "bt_values m = map snd m"

definition bt_wf :: "('k::linorder, 'v) btree_map \<Rightarrow> bool" where
  "bt_wf m \<longleftrightarrow> sorted_wrt (<) (map fst m)"

lemma bt_wf_Nil [simp]: "bt_wf []"
  by (simp add: bt_wf_def)

lemma bt_keys_simps [simp]: "bt_keys [] = []" "bt_keys ((k, v) # m) = k # bt_keys m"
  by (simp_all add: bt_keys_def)

lemma set_bt_insert_keys [btree_simps]: "set (bt_keys (bt_insert k v m)) = insert k (set (bt_keys m))"
  by (induction k v m rule: bt_insert.induct) auto

lemma bt_wf_insert: "bt_wf m \<Longrightarrow> bt_wf (bt_insert k v m)"
proof (induction k v m rule: bt_insert.induct)
  case (1 k v)
  then show ?case by (simp add: bt_wf_def)
next
  case (2 k v k' v' xs)
  have keys: "fst ` set (bt_insert k v xs) = insert k (fst ` set xs)"
    using set_bt_insert_keys [of k v xs] by (simp add: bt_keys_def)
  from "2" show ?case by (auto simp: bt_wf_def keys)
qed

lemma map_of_bt_insert [btree_simps]: "bt_wf m \<Longrightarrow> map_of (bt_insert k v m) = (map_of m)(k \<mapsto> v)"
proof (induction k v m rule: bt_insert.induct)
  case (1 k v)
  then show ?case by simp
next
  case (2 k v k' v' xs)
  then have "bt_wf xs" and less: "\<forall>x \<in> fst ` set xs. k' < x"
    by (auto simp: bt_wf_def)
  with "2" show ?case by (auto simp: fun_eq_iff)
qed

lemma bt_wf_distinct: "bt_wf m \<Longrightarrow> distinct (map fst m)"
  by (simp add: bt_wf_def strict_sorted_iff)

lemma bt_wf_sorted: "bt_wf m \<Longrightarrow> sorted (map fst m)"
  by (simp add: bt_wf_def strict_sorted_iff)

lemma bt_keys_eq_dom [btree_simps]: "set (bt_keys m) = dom (map_of m)"
  by (simp add: bt_keys_def dom_map_of_conv_image_fst)

lemma alist_of_keys: "distinct (map fst m) \<Longrightarrow> m = map (\<lambda>k. (k, the (map_of m k))) (map fst m)"
  by (rule map_idI [symmetric, where f = "\<lambda>p. (fst p, the (map_of m (fst p)))", THEN trans])
    (auto simp: comp_def)

text \<open>An ordered map is determined by its lookup function.\<close>

lemma bt_eqI:
  assumes "bt_wf m" and "bt_wf m'" and eq: "map_of m = map_of m'"
  shows "m = m'"
proof -
  have dom: "fst ` set m = fst ` set m'"
    using eq by (metis dom_map_of_conv_image_fst)
  have "map fst m = map fst m'"
    using assms(1,2) dom by (intro sorted_distinct_set_unique) (auto simp: bt_wf_distinct bt_wf_sorted)
  then show ?thesis
    using assms by (metis alist_of_keys bt_wf_distinct)
qed

lemma bt_set_keys [simp]: "map fst (bt_set k v m) = map fst m"
  by (induction k v m rule: bt_set.induct) auto

lemma bt_set_wf: "bt_wf m \<Longrightarrow> bt_wf (bt_set k v m)"
  by (simp add: bt_wf_def)

lemma map_of_bt_set [btree_simps]:
  "map_of (bt_set k v m) = (if k \<in> fst ` set m then (map_of m)(k \<mapsto> v) else map_of m)"
  by (induction k v m rule: bt_set.induct) (auto simp: fun_eq_iff)

lemma sum_bt_set: "map_of m k = Some c \<Longrightarrow> sum_list (map snd (bt_set k v m)) + c = sum_list (map snd m) + (v::nat)"
  by (induction k v m rule: bt_set.induct) (auto split: if_splits)

lemma length_bt_set [simp]: "length (bt_set k v m) = length m"
  by (induction k v m rule: bt_set.induct) auto

text \<open>How many entries satisfy a test, after an update.\<close>

lemma length_filter_bt_set:
  "map_of m k = Some v \<Longrightarrow> length (filter Q (bt_set k w m)) + of_bool (Q (k, v)) = length (filter Q m) + of_bool (Q (k, w))"
  by (induction k w m rule: bt_set.induct) (auto split: if_splits)

lemma length_filter_bt_insert:
  "map_of m k = None \<Longrightarrow> length (filter Q (bt_insert k w m)) = length (filter Q m) + of_bool (Q (k, w))"
  by (induction k w m rule: bt_insert.induct) (auto split: if_splits)

lemma pop_first_min: "sorted (x # xs) \<Longrightarrow> \<forall>y \<in> set xs. x \<le> y"
  by simp

end
