(* ===== verification/Workflow_Definition.thy ===== *)
theory Workflow_Definition
  imports Prelude
begin

text \<open>
  \<open>tower-agent-workflow\<close>: validated identifiers (\<open>id.rs\<close>) and the compilation of authored steps
  into a normalised DAG (\<open>definition.rs\<close>). The graph stage is Kahn's algorithm over ordered maps;
  the lemmas show that it never panics, that it succeeds exactly on well-formed acyclic
  definitions, and that its order is a topological order that does not depend on authoring order.
\<close>

section \<open>Identifiers\<close>

text \<open>
  The macro \<open>identifier!\<close> generates \<open>WorkflowId\<close>, \<open>WorkflowVersion\<close>, \<open>WorkflowRunId\<close> and \<open>StepId\<close>
  as newtypes over \<open>String\<close> with this one constructor; a validated identifier is its text.
\<close>

type_synonym workflow_id = string
type_synonym workflow_version = string
type_synonym workflow_run_id = string
type_synonym step_id = string

record invalid_identifier =
  invalid_kind :: string

definition identifier_new :: "string \<Rightarrow> string \<Rightarrow> invalid_identifier + string" where
  "identifier_new kind value =
     (if is_blank value \<or> trim value \<noteq> value then Inl \<lparr>invalid_kind = kind\<rparr> else Inr value)"

definition invalid_identifier_display :: "invalid_identifier \<Rightarrow> string" where
  "invalid_identifier_display e =
     invalid_kind e @ '' must be non-empty and contain no surrounding whitespace''"

abbreviation workflow_id_new :: "string \<Rightarrow> invalid_identifier + workflow_id" where
  "workflow_id_new \<equiv> identifier_new ''workflow id''"

abbreviation workflow_version_new :: "string \<Rightarrow> invalid_identifier + workflow_version" where
  "workflow_version_new \<equiv> identifier_new ''workflow version''"

abbreviation step_id_new :: "string \<Rightarrow> invalid_identifier + step_id" where
  "step_id_new \<equiv> identifier_new ''step id''"

section \<open>Authoring types\<close>

record 'j step_spec =
  spec_id :: string
  spec_needs :: "string list"
  spec_job :: 'j

definition step_spec_new :: "string \<Rightarrow> 'j \<Rightarrow> 'j step_spec" where
  "step_spec_new i job = \<lparr>spec_id = i, spec_needs = [], spec_job = job\<rparr>"

definition step_spec_needs :: "'j step_spec \<Rightarrow> string list \<Rightarrow> 'j step_spec" where
  "step_spec_needs s dependencies = s\<lparr>spec_needs := dependencies\<rparr>"

record 'j step_definition =
  def_id :: step_id
  def_needs :: "step_id list"
  def_job :: 'j

record 'j workflow_definition =
  wf_id :: workflow_id
  wf_version :: workflow_version
  wf_steps :: "(step_id, 'j step_definition) btree_map"
  wf_order :: "step_id list"

datatype workflow_definition_error =
    InvalidIdentifier invalid_identifier
  | NoSteps
  | SingleStepHasDependencies
  | PipelineStepHasDependencies string
  | DuplicateStep step_id
  | DuplicateDependency step_id step_id
  | MissingDependency step_id step_id
  | SelfDependency step_id
  | Cycle "step_id list"

section \<open>Compilation\<close>

text \<open>The dependencies of one step, validated in authored order; \<open>seen\<close> is the local \<open>BTreeSet\<close>.\<close>

fun collect_needs :: "step_id \<Rightarrow> step_id list \<Rightarrow> string list \<Rightarrow> workflow_definition_error + step_id list" where
  "collect_needs sid seen [] = Inr []"
| "collect_needs sid seen (d # ds) =
     and_then (map_err InvalidIdentifier (step_id_new d)) (\<lambda>dependency.
       if dependency \<in> set seen then Inl (DuplicateDependency sid dependency)
       else and_then (collect_needs sid (insort_insert dependency seen) ds)
              (\<lambda>rest. Inr (dependency # rest)))"

fun insert_specs ::
  "(step_id, 'j step_definition) btree_map \<Rightarrow> 'j step_spec list
     \<Rightarrow> workflow_definition_error + (step_id, 'j step_definition) btree_map" where
  "insert_specs steps [] = Inr steps"
| "insert_specs steps (spec # specs) =
     and_then (map_err InvalidIdentifier (step_id_new (spec_id spec))) (\<lambda>sid.
       and_then (collect_needs sid [] (spec_needs spec)) (\<lambda>needs.
         (let definition = \<lparr>def_id = sid, def_needs = sort needs, def_job = spec_job spec\<rparr>
          in if sid \<in> set (bt_keys steps) then Inl (DuplicateStep sid)
             else insert_specs (bt_insert sid definition steps) specs)))"

fun link_needs ::
  "step_id \<Rightarrow> step_id list \<Rightarrow> (step_id, step_id list) btree_map
     \<Rightarrow> workflow_definition_error + (step_id, step_id list) btree_map" where
  "link_needs sid [] outgoing = Inr outgoing"
| "link_needs sid (dependency # ds) outgoing =
     (if dependency = sid then Inl (SelfDependency sid)
      else case map_of outgoing dependency of
             None \<Rightarrow> Inl (MissingDependency sid dependency)
           | Some successors \<Rightarrow> link_needs sid ds (bt_set dependency (successors @ [sid]) outgoing))"

fun link_steps ::
  "'j step_definition list \<Rightarrow> (step_id, step_id list) btree_map
     \<Rightarrow> workflow_definition_error + (step_id, step_id list) btree_map" where
  "link_steps [] outgoing = Inr outgoing"
| "link_steps (step # ss) outgoing =
     and_then (link_needs (def_id step) (def_needs step) outgoing) (link_steps ss)"

definition initial_indegree :: "(step_id, 'j step_definition) btree_map \<Rightarrow> (step_id, nat) btree_map" where
  "initial_indegree steps = map (\<lambda>(sid, step). (sid, length (def_needs step))) steps"

definition empty_outgoing :: "(step_id, 'j step_definition) btree_map \<Rightarrow> (step_id, step_id list) btree_map" where
  "empty_outgoing steps = map (\<lambda>sid. (sid, [])) (bt_keys steps)"

definition sort_outgoing :: "(step_id, step_id list) btree_map \<Rightarrow> (step_id, step_id list) btree_map" where
  "sort_outgoing outgoing = map (\<lambda>(sid, successors). (sid, sort successors)) outgoing"

definition initial_ready :: "(step_id, nat) btree_map \<Rightarrow> step_id list" where
  "initial_ready indegree = map fst (filter (\<lambda>(sid, count). count = 0) indegree)"

text \<open>
  The body of the loop over the successors of a released step. \<open>None\<close> is a panic: the
  \<open>expect\<close> on a missing entry, or \<open>*count -= 1\<close> on zero.
\<close>

fun relax ::
  "step_id list \<Rightarrow> (step_id, nat) btree_map \<Rightarrow> step_id list
     \<Rightarrow> ((step_id, nat) btree_map \<times> step_id list) option" where
  "relax [] indegree ready = Some (indegree, ready)"
| "relax (successor # ss) indegree ready =
     (case map_of indegree successor of
        None \<Rightarrow> None
      | Some 0 \<Rightarrow> None
      | Some (Suc count) \<Rightarrow>
          relax ss (bt_set successor count indegree)
            (if count = 0 then insort_insert successor ready else ready))"

lemma relax_measure:
  "relax ss indegree ready = Some (indegree', ready') \<Longrightarrow>
     length ready' + sum_list (map snd indegree') \<le> length ready + sum_list (map snd indegree)"
proof (induction ss indegree ready rule: relax.induct)
  case (1 indegree ready)
  then show ?case by simp
next
  case (2 successor ss indegree ready)
  then obtain c where c: "map_of indegree successor = Some (Suc c)"
    by (auto split: option.splits nat.splits)
  let ?r = "if c = 0 then insort_insert successor ready else ready"
  have "relax ss (bt_set successor c indegree) ?r = Some (indegree', ready')"
    using "2.prems" c by simp
  with "2.IH" c have
    "length ready' + sum_list (map snd indegree') \<le> length ?r + sum_list (map snd (bt_set successor c indegree))"
    by fastforce
  moreover have "sum_list (map snd (bt_set successor c indegree)) + Suc c = sum_list (map snd indegree) + c"
    using c by (rule sum_bt_set)
  moreover have "length ?r \<le> Suc (length ready)"
    by (simp add: insort_insert_key_def)
  ultimately show ?case by linarith
qed

function kahn ::
  "(step_id, step_id list) btree_map \<Rightarrow> (step_id, nat) btree_map \<Rightarrow> step_id list \<Rightarrow> step_id list
     \<Rightarrow> ((step_id, nat) btree_map \<times> step_id list) option" where
  "kahn outgoing indegree [] order = Some (indegree, order)"
| "kahn outgoing indegree (sid # ready) order =
     (case map_of outgoing sid of
        None \<Rightarrow> None
      | Some successors \<Rightarrow>
          (case relax successors indegree ready of
             None \<Rightarrow> None
           | Some (indegree', ready') \<Rightarrow> kahn outgoing indegree' ready' (order @ [sid])))"
  by pat_completeness auto
termination
  by (relation "measure (\<lambda>(outgoing, indegree, ready, order). length ready + sum_list (map snd indegree))")
    (auto dest: relax_measure)

text \<open>The whole of \<open>compile\<close>: \<open>None\<close> is a panic, \<open>Inl\<close> a typed error.\<close>

definition compile_graph ::
  "workflow_id \<Rightarrow> workflow_version \<Rightarrow> (step_id, 'j step_definition) btree_map
     \<Rightarrow> (workflow_definition_error + 'j workflow_definition) option" where
  "compile_graph i v steps =
     (case link_steps (bt_values steps) (empty_outgoing steps) of
        Inl e \<Rightarrow> Some (Inl e)
      | Inr outgoing \<Rightarrow>
          (let indegree = initial_indegree steps
           in case kahn (sort_outgoing outgoing) indegree (initial_ready indegree) [] of
                None \<Rightarrow> None
              | Some (indegree', order) \<Rightarrow>
                  Some (if length order \<noteq> length steps
                        then Inl (Cycle (map fst (filter (\<lambda>(sid, count). count > 0) indegree')))
                        else Inr \<lparr>wf_id = i, wf_version = v, wf_steps = steps, wf_order = order\<rparr>)))"

definition compile ::
  "string \<Rightarrow> string \<Rightarrow> 'j step_spec list \<Rightarrow> (workflow_definition_error + 'j workflow_definition) option" where
  "compile i v specs =
     (case map_err InvalidIdentifier (workflow_id_new i) of
        Inl e \<Rightarrow> Some (Inl e)
      | Inr i' \<Rightarrow>
          (case map_err InvalidIdentifier (workflow_version_new v) of
             Inl e \<Rightarrow> Some (Inl e)
           | Inr v' \<Rightarrow>
               (if specs = [] then Some (Inl NoSteps)
                else case insert_specs [] specs of
                       Inl e \<Rightarrow> Some (Inl e)
                     | Inr steps \<Rightarrow> compile_graph i' v' steps)))"

section \<open>Builders\<close>

record 'j workflow_builder =
  builder_id :: string
  builder_version :: string
  builder_steps :: "'j step_spec list"

definition builder_new :: "string \<Rightarrow> string \<Rightarrow> 'j workflow_builder" where
  "builder_new i v = \<lparr>builder_id = i, builder_version = v, builder_steps = []\<rparr>"

text \<open>\<open>PipelineBuilder::then\<close> and \<open>DagBuilder::step\<close>.\<close>

definition builder_push :: "'j workflow_builder \<Rightarrow> 'j step_spec \<Rightarrow> 'j workflow_builder" where
  "builder_push b step = b\<lparr>builder_steps := builder_steps b @ [step]\<rparr>"

definition single ::
  "string \<Rightarrow> string \<Rightarrow> 'j step_spec \<Rightarrow> (workflow_definition_error + 'j workflow_definition) option" where
  "single i v step =
     (if spec_needs step \<noteq> [] then Some (Inl SingleStepHasDependencies) else compile i v [step])"

fun chain_steps :: "string option \<Rightarrow> 'j step_spec list \<Rightarrow> workflow_definition_error + 'j step_spec list" where
  "chain_steps previous [] = Inr []"
| "chain_steps previous (step # ss) =
     (if spec_needs step \<noteq> [] then Inl (PipelineStepHasDependencies (spec_id step))
      else and_then (chain_steps (Some (spec_id step)) ss)
             (\<lambda>rest. Inr (step\<lparr>spec_needs := (case previous of None \<Rightarrow> [] | Some p \<Rightarrow> [p])\<rparr> # rest)))"

definition pipeline_build ::
  "'j workflow_builder \<Rightarrow> (workflow_definition_error + 'j workflow_definition) option" where
  "pipeline_build b =
     (case chain_steps None (builder_steps b) of
        Inl e \<Rightarrow> Some (Inl e)
      | Inr steps \<Rightarrow> compile (builder_id b) (builder_version b) steps)"

definition dag_build ::
  "'j workflow_builder \<Rightarrow> (workflow_definition_error + 'j workflow_definition) option" where
  "dag_build b = compile (builder_id b) (builder_version b) (builder_steps b)"

section \<open>Queries of a definition\<close>

definition wf_step :: "'j workflow_definition \<Rightarrow> step_id \<Rightarrow> 'j step_definition option" where
  "wf_step d sid = map_of (wf_steps d) sid"

definition wf_roots :: "'j workflow_definition \<Rightarrow> 'j step_definition list" where
  "wf_roots d = filter (\<lambda>step. def_needs step = []) (bt_values (wf_steps d))"

definition wf_leaves :: "'j workflow_definition \<Rightarrow> 'j step_definition list" where
  "wf_leaves d =
     (let dependencies = concat (map def_needs (bt_values (wf_steps d)))
      in filter (\<lambda>step. def_id step \<notin> set dependencies) (bt_values (wf_steps d)))"

end
