(* ===== verification/Layering.thy ===== *)
theory Layering
  imports Prelude
begin

text \<open>
  The contract of every record of optional bindings in the repository: failure evidence that is
  completed from a cause (\<open>FailureEvidence::merge_missing\<close>), effect states that are combined, and
  planning layers that are folded by precedence (the \<open>merge_from\<close> functions). \<open>overlay low high\<close>
  is the combination in which a binding of \<open>high\<close> wins; an \<open>unbound\<close> value says nothing, nesting
  does not matter, and a layer that is already covered by itself adds nothing.
\<close>

locale layering =
  fixes overlay :: "'a \<Rightarrow> 'a \<Rightarrow> 'a"
    and unbound :: "'a"
  assumes overlay_unbound_low: "overlay unbound a = a"
    and overlay_unbound_high: "overlay a unbound = a"
    and overlay_assoc: "overlay (overlay a b) c = overlay a (overlay b c)"
    and overlay_covered: "overlay a (overlay b a) = overlay b a"
begin

lemma overlay_idem: "overlay a a = a"
  using overlay_covered [of a unbound] by (simp add: overlay_unbound_low)

lemma foldl_overlay: "foldl overlay a xs = overlay a (foldl overlay unbound xs)"
proof (induction xs arbitrary: a)
  case Nil
  then show ?case by (simp add: overlay_unbound_high)
next
  case (Cons x xs)
  have "foldl overlay (overlay a x) xs = overlay (overlay a x) (foldl overlay unbound xs)"
    by (rule Cons.IH)
  moreover have "foldl overlay x xs = overlay x (foldl overlay unbound xs)"
    by (rule Cons.IH)
  ultimately show ?case by (simp add: overlay_assoc overlay_unbound_low)
qed

lemma foldl_overlay_append:
  "foldl overlay unbound (xs @ ys) = overlay (foldl overlay unbound xs) (foldl overlay unbound ys)"
  using foldl_overlay [of "foldl overlay unbound xs" ys] by simp

lemma overlay_low_absorbed: "x \<in> set xs \<Longrightarrow> overlay x (foldl overlay unbound xs) = foldl overlay unbound xs"
proof (induction xs)
  case Nil
  then show ?case by simp
next
  case (Cons y ys)
  have step: "foldl overlay unbound (y # ys) = overlay y (foldl overlay unbound ys)"
    using foldl_overlay [of y ys] by (simp add: overlay_unbound_low)
  show ?case
  proof (cases "x = y")
    case True
    then show ?thesis by (simp only: step overlay_assoc [symmetric] overlay_idem)
  next
    case False
    with Cons have "overlay x (foldl overlay unbound ys) = foldl overlay unbound ys" by simp
    then show ?thesis unfolding step by (metis overlay_assoc overlay_covered)
  qed
qed

text \<open>A lower group of layers all of which occur above it is invisible.\<close>

lemma foldl_overlay_covered:
  "set xs \<subseteq> set ys \<Longrightarrow> foldl overlay unbound (xs @ ys) = foldl overlay unbound ys"
proof (induction xs)
  case Nil
  then show ?case by simp
next
  case (Cons x xs)
  then have "foldl overlay unbound (xs @ ys) = foldl overlay unbound ys" by simp
  with Cons.prems show ?case
    using foldl_overlay [of x "xs @ ys"] overlay_low_absorbed [of x ys]
    by (simp add: overlay_unbound_low)
qed

lemma foldl_overlay_remdups: "foldl overlay unbound (remdups xs) = foldl overlay unbound xs"
proof (induction xs)
  case Nil
  then show ?case by simp
next
  case (Cons x xs)
  have "foldl overlay unbound (x # xs) = overlay x (foldl overlay unbound xs)"
    and "foldl overlay unbound (x # remdups xs) = overlay x (foldl overlay unbound (remdups xs))"
    using foldl_overlay [of x xs] foldl_overlay [of x "remdups xs"]
    by (simp_all add: overlay_unbound_low)
  with Cons show ?case by (auto simp: overlay_low_absorbed)
qed

text \<open>Layers that bind nothing can be dropped.\<close>

lemma foldl_overlay_skip_unbound:
  "foldl overlay a (filter (\<lambda>x. x \<noteq> unbound) xs) = foldl overlay a xs"
  by (induction xs arbitrary: a) (simp_all add: overlay_unbound_high)

end

text \<open>One optional field, the building block of every record above.\<close>

definition overlay_option :: "'a option \<Rightarrow> 'a option \<Rightarrow> 'a option" where
  "overlay_option low high = option_or high low"

lemma overlay_option_simps [simp]:
  "overlay_option low None = low"
  "overlay_option low (Some x) = Some x"
  "overlay_option None high = high"
  by (simp_all add: overlay_option_def)

lemma overlay_option_assoc:
  "overlay_option (overlay_option a b) c = overlay_option a (overlay_option b c)"
  by (simp add: overlay_option_def option_or_assoc)

lemma overlay_option_covered: "overlay_option a (overlay_option b a) = overlay_option b a"
  by (cases a; cases b) simp_all

lemmas overlay_option_laws = overlay_option_simps overlay_option_assoc overlay_option_covered

interpretation opt: layering overlay_option None
  by unfold_locales (simp_all add: overlay_option_assoc overlay_option_covered)

text \<open>The field of a stack of layers is the one bound by the highest layer that binds it.\<close>

lemma foldl_overlay_option:
  "foldl overlay_option None xs = (case filter (\<lambda>x. x \<noteq> None) (rev xs) of [] \<Rightarrow> None | x # _ \<Rightarrow> x)"
proof (induction xs rule: rev_induct)
  case Nil
  then show ?case by simp
next
  case (snoc x xs)
  then show ?case by (cases x) simp_all
qed

end
