(* ===== verification/Response.thy ===== *)
theory Response
  imports Layering
begin

text \<open>
  Terminal facts of one turn: \<open>session.rs\<close> (provider-tagged handles whose value \<open>Debug\<close> redacts)
  and \<open>response.rs\<close> (token buckets, cost, the successful outcome, and the evidence a failure
  retains). Missing evidence is \<open>None\<close> and is never turned into zero.
\<close>

section \<open>Session handles\<close>

record session_handle =
  handle_provider :: string
  handle_value :: string

definition session_handle_new :: "string \<Rightarrow> string \<Rightarrow> session_handle" where
  "session_handle_new provider value = \<lparr>handle_provider = provider, handle_value = value\<rparr>"

text \<open>A \<open>debug_struct\<close> rendering: the type name and the rendered fields in order.\<close>

type_synonym debug_struct = "string \<times> (string \<times> string) list"

definition session_handle_debug :: "session_handle \<Rightarrow> debug_struct" where
  "session_handle_debug h =
     (''SessionHandle'', [(''provider'', handle_provider h), (''value'', ''[redacted]'')])"

section \<open>Usage and cost\<close>

record token_usage =
  usage_input :: "u64 option"
  usage_cached_input :: "u64 option"
  usage_cache_write_input :: "u64 option"
  usage_output :: "u64 option"
  usage_reasoning_output :: "u64 option"
  usage_provider_total :: "u64 option"

definition token_usage_default :: token_usage where
  "token_usage_default =
     \<lparr>usage_input = None, usage_cached_input = None, usage_cache_write_input = None,
      usage_output = None, usage_reasoning_output = None, usage_provider_total = None\<rparr>"

definition usage_buckets :: "token_usage \<Rightarrow> u64 option list" where
  "usage_buckets u =
     [usage_input u, usage_cached_input u, usage_cache_write_input u, usage_output u,
      usage_reasoning_output u]"

text \<open>
  \<open>into_iter().flatten().sum()\<close> over \<open>u64\<close>: the addition of the release profile wraps (the debug
  profile panics instead); \<open>usage_total_exact\<close> below says when it is the mathematical sum.
\<close>

definition usage_total :: "token_usage \<Rightarrow> u64 option" where
  "usage_total u =
     option_or (usage_provider_total u)
       (if list_ex is_some (usage_buckets u)
        then Some (sum_list (List.map_filter id (usage_buckets u))) else None)"

definition usage_is_empty :: "token_usage \<Rightarrow> bool" where
  "usage_is_empty u \<longleftrightarrow>
     usage_input u = None \<and> usage_cached_input u = None \<and> usage_cache_write_input u = None
     \<and> usage_output u = None \<and> usage_reasoning_output u = None \<and> usage_provider_total u = None"

record cost =
  cost_amount :: f64
  cost_currency :: string

definition cost_usd :: "f64 \<Rightarrow> cost" where
  "cost_usd amount = \<lparr>cost_amount = amount, cost_currency = ''USD''\<rparr>"

section \<open>Outcome and evidence\<close>

text \<open>\<open>'v\<close> is \<open>serde_json::Value\<close>, which is not defined in this repository.\<close>

record 'v turn_outcome =
  out_output :: string
  out_structured :: "'v option"
  out_session :: "session_handle option"
  out_usage :: "token_usage option"
  out_cost :: "cost option"
  out_duration :: "duration option"
  out_provider_turns :: "u32 option"

definition turn_outcome_new :: "string \<Rightarrow> 'v turn_outcome" where
  "turn_outcome_new output =
     \<lparr>out_output = output, out_structured = None, out_session = None, out_usage = None,
      out_cost = None, out_duration = None, out_provider_turns = None\<rparr>"

record failure_evidence =
  ev_session :: "session_handle option"
  ev_usage :: "token_usage option"
  ev_cost :: "cost option"
  ev_duration :: "duration option"
  ev_provider_turns :: "u32 option"

definition failure_evidence_default :: failure_evidence where
  "failure_evidence_default =
     \<lparr>ev_session = None, ev_usage = None, ev_cost = None, ev_duration = None, ev_provider_turns = None\<rparr>"

definition merge_missing :: "failure_evidence \<Rightarrow> failure_evidence \<Rightarrow> failure_evidence" where
  "merge_missing self other =
     (let e1 = (if ev_session self = None then self\<lparr>ev_session := ev_session other\<rparr> else self);
          e2 = (if ev_usage e1 = None then e1\<lparr>ev_usage := ev_usage other\<rparr> else e1);
          e3 = (if ev_cost e2 = None then e2\<lparr>ev_cost := ev_cost other\<rparr> else e2);
          e4 = (if ev_duration e3 = None then e3\<lparr>ev_duration := ev_duration other\<rparr> else e3)
      in if ev_provider_turns e4 = None then e4\<lparr>ev_provider_turns := ev_provider_turns other\<rparr> else e4)"

definition terminal_evidence :: "'v turn_outcome \<Rightarrow> failure_evidence" where
  "terminal_evidence r =
     \<lparr>ev_session = out_session r, ev_usage = out_usage r, ev_cost = out_cost r,
      ev_duration = out_duration r, ev_provider_turns = out_provider_turns r\<rparr>"

section \<open>Lemmas\<close>

lemma usage_total_None_iff: "usage_total u = None \<longleftrightarrow> usage_is_empty u"
  by (auto simp: usage_total_def usage_is_empty_def usage_buckets_def option_or_def is_some_iff
      split: option.splits)

lemma usage_total_reported: "usage_provider_total u = Some t \<Longrightarrow> usage_total u = Some t"
  by (simp add: usage_total_def)

lemma unat_sum_list_exact:
  "sum_list (map unat xs) < 2 ^ 64 \<Longrightarrow> unat (sum_list (xs :: u64 list)) = sum_list (map unat xs)"
proof (induction xs)
  case Nil
  then show ?case by simp
next
  case (Cons x xs)
  then have IH: "unat (sum_list xs) = sum_list (map unat xs)" by simp
  with Cons.prems have "unat x + unat (sum_list xs) < 2 ^ 64" by simp
  then have "unat (x + sum_list xs) = unat x + unat (sum_list xs)"
    by (simp add: unat_word_ariths)
  with IH show ?case by simp
qed

text \<open>\<open>merge_missing\<close> field by field: a present fact of \<open>self\<close> stays, an absent one is taken from \<open>other\<close>.\<close>

lemma merge_missing_eq:
  "merge_missing self other =
     \<lparr>ev_session = overlay_option (ev_session other) (ev_session self),
      ev_usage = overlay_option (ev_usage other) (ev_usage self),
      ev_cost = overlay_option (ev_cost other) (ev_cost self),
      ev_duration = overlay_option (ev_duration other) (ev_duration self),
      ev_provider_turns = overlay_option (ev_provider_turns other) (ev_provider_turns self)\<rparr>"
  by (cases self)
    (auto simp: merge_missing_def Let_def overlay_option_def option_or_def split: option.splits)

lemma merge_missing_sel [simp]:
  "ev_session (merge_missing a b) = overlay_option (ev_session b) (ev_session a)"
  "ev_usage (merge_missing a b) = overlay_option (ev_usage b) (ev_usage a)"
  "ev_cost (merge_missing a b) = overlay_option (ev_cost b) (ev_cost a)"
  "ev_duration (merge_missing a b) = overlay_option (ev_duration b) (ev_duration a)"
  "ev_provider_turns (merge_missing a b) = overlay_option (ev_provider_turns b) (ev_provider_turns a)"
  by (simp_all add: merge_missing_eq)

text \<open>Evidence merging is a layering: the outer error is the high layer.\<close>

interpretation evidence: layering "\<lambda>low high. merge_missing high low" failure_evidence_default
  by unfold_locales
    (simp_all add: merge_missing_eq failure_evidence_default_def overlay_option_laws)

end
