(* ===== verification/Request.thy ===== *)
theory Request
  imports Response "HOL-Library.Sublist"
begin

text \<open>
  \<open>request.rs\<close> and the observation types of \<open>event.rs\<close>: the host-local context of a call
  (operation id, deadline, cancellation token, event observer, preassigned session), the envelope
  around an operation body, and the portable turn.
\<close>

section \<open>Operation identities\<close>

text \<open>\<open>NEXT_OPERATION_ID.fetch_add(1)\<close>: the old counter value is the identity, the counter wraps.\<close>

type_synonym operation_id = u64

definition operation_id_next :: "u64 \<Rightarrow> operation_id \<times> u64" where
  "operation_id_next counter = (counter, counter + 1)"

definition operation_id_display :: "operation_id \<Rightarrow> string" where
  "operation_id_display i = show_nat (unat i)"

section \<open>Cancellation tokens\<close>

text \<open>
  \<open>CancellationToken\<close> belongs to \<open>tokio_util\<close>: tokens form a tree and cancelling a token cancels
  every token below it. A token is its path from a root; the state of all tokens is the list of
  tokens on which \<open>cancel\<close> has been called.
\<close>

type_synonym token = "nat list"

definition child_token :: "token \<Rightarrow> nat \<Rightarrow> token" where
  "child_token t n = t @ [n]"

definition is_cancelled :: "token list \<Rightarrow> token \<Rightarrow> bool" where
  "is_cancelled cancelled t = list_ex (\<lambda>c. prefix c t) cancelled"

lemma is_cancelled_Cons: "is_cancelled (c # cs) t \<longleftrightarrow> prefix c t \<or> is_cancelled cs t"
  by (simp add: is_cancelled_def)

lemma is_cancelled_self [simp]: "is_cancelled (t # cs) t"
  by (simp add: is_cancelled_Cons)

lemma is_cancelled_child: "is_cancelled cs t \<Longrightarrow> is_cancelled cs (child_token t n)"
  by (auto simp: is_cancelled_def list_ex_iff child_token_def)

lemma is_cancelled_child_iff:
  "is_cancelled cs (child_token t n) \<longleftrightarrow> is_cancelled cs t \<or> child_token t n \<in> set cs"
  by (auto simp: is_cancelled_def list_ex_iff child_token_def)

section \<open>Events\<close>

datatype agent_event =
    EvStarted
  | EvOutputDelta string
  | EvThinkingDelta string
  | EvToolStarted string
  | EvTurnStarted u32
  | EvStatus string
  | EvUsage token_usage
  | EvWarning string

fun payload_bytes :: "agent_event \<Rightarrow> nat" where
  "payload_bytes (EvOutputDelta text) = length text"
| "payload_bytes (EvThinkingDelta text) = length text"
| "payload_bytes (EvToolStarted name) = length name"
| "payload_bytes (EvStatus message) = length message"
| "payload_bytes (EvWarning message) = length message"
| "payload_bytes _ = 0"

datatype event_send_error = EventFull | EventClosed

fun event_send_error_display :: "event_send_error \<Rightarrow> string" where
  "event_send_error_display EventFull = ''event observer is full''"
| "event_send_error_display EventClosed = ''event observer is closed''"

text \<open>
  \<open>EventObserver(Arc<dyn EventSink>)\<close>: the no-op sink, or a reference to a sink the host supplied.
\<close>

datatype event_observer = NoopObserver | Observer nat

section \<open>Context, envelope, turn\<close>

record call_context =
  ctx_operation_id :: operation_id
  ctx_deadline :: "instant option"
  ctx_cancellation :: token
  ctx_events :: event_observer
  ctx_preassigned_session :: "session_handle option"

text \<open>\<open>CallContext::default\<close>, given the next operation id and a fresh token.\<close>

definition call_context_default :: "operation_id \<Rightarrow> token \<Rightarrow> call_context" where
  "call_context_default i t =
     \<lparr>ctx_operation_id = i, ctx_deadline = None, ctx_cancellation = t, ctx_events = NoopObserver,
      ctx_preassigned_session = None\<rparr>"

definition with_operation_id :: "call_context \<Rightarrow> operation_id \<Rightarrow> call_context" where
  "with_operation_id c i = c\<lparr>ctx_operation_id := i\<rparr>"

definition with_deadline :: "call_context \<Rightarrow> instant \<Rightarrow> call_context" where
  "with_deadline c deadline = c\<lparr>ctx_deadline := Some deadline\<rparr>"

definition with_cancellation :: "call_context \<Rightarrow> token \<Rightarrow> call_context" where
  "with_cancellation c t = c\<lparr>ctx_cancellation := t\<rparr>"

definition with_events :: "call_context \<Rightarrow> event_observer \<Rightarrow> call_context" where
  "with_events c events = c\<lparr>ctx_events := events\<rparr>"

definition with_preassigned_session :: "call_context \<Rightarrow> session_handle \<Rightarrow> call_context" where
  "with_preassigned_session c session = c\<lparr>ctx_preassigned_session := Some session\<rparr>"

record 't agent_request =
  req_context :: call_context
  req_body :: 't

definition agent_request_with_context :: "'t \<Rightarrow> call_context \<Rightarrow> 't agent_request" where
  "agent_request_with_context body context = \<lparr>req_context = context, req_body = body\<rparr>"

definition map_body :: "('t \<Rightarrow> 'u) \<Rightarrow> 't agent_request \<Rightarrow> 'u agent_request" where
  "map_body f request = \<lparr>req_context = req_context request, req_body = f (req_body request)\<rparr>"

type_synonym path = string

record 'o turn =
  turn_prompt :: string
  turn_working_directory :: "path option"
  turn_session :: "session_handle option"
  turn_options :: 'o

definition turn_new :: "string \<Rightarrow> unit turn" where
  "turn_new prompt =
     \<lparr>turn_prompt = prompt, turn_working_directory = None, turn_session = None, turn_options = ()\<rparr>"

definition turn_with_options :: "unit turn \<Rightarrow> 'o \<Rightarrow> 'o turn" where
  "turn_with_options t options =
     \<lparr>turn_prompt = turn_prompt t, turn_working_directory = turn_working_directory t,
      turn_session = turn_session t, turn_options = options\<rparr>"

definition turn_in_directory :: "'o turn \<Rightarrow> path \<Rightarrow> 'o turn" where
  "turn_in_directory t p = t\<lparr>turn_working_directory := Some p\<rparr>"

definition turn_resume :: "'o turn \<Rightarrow> session_handle \<Rightarrow> 'o turn" where
  "turn_resume t session = t\<lparr>turn_session := Some session\<rparr>"

end
