(* ===== verification/Workflow_Execution.thy ===== *)
theory Workflow_Execution
  imports Workflow_Definition Request
begin

text \<open>
  \<open>execution.rs\<close>: the in-memory runner of a compiled workflow. The scheduler is one task; it
  alternates between filling the set of in-flight steps and waiting for one of them. Everything
  that can happen beside it (the caller cancels, the clock advances, the deadline timer fires, the
  dispatcher becomes ready or settles a call) is a choice of the environment, so a run is a
  sequence of such choices and \<open>exec_step\<close> computes the effect of each. \<open>None\<close> is a choice that is
  not possible; a panic of the code is the program point \<open>Panicked\<close>.
\<close>

section \<open>Requests and calls\<close>

type_synonym run_id = workflow_run_id

record workflow_context =
  wctx_run_id :: run_id
  wctx_cancellation :: token
  wctx_deadline :: "instant option"

definition workflow_context_new :: "run_id \<Rightarrow> token \<Rightarrow> workflow_context" where
  "workflow_context_new i fresh = \<lparr>wctx_run_id = i, wctx_cancellation = fresh, wctx_deadline = None\<rparr>"

definition wctx_with_cancellation :: "workflow_context \<Rightarrow> token \<Rightarrow> workflow_context" where
  "wctx_with_cancellation c t = c\<lparr>wctx_cancellation := t\<rparr>"

definition wctx_with_deadline :: "workflow_context \<Rightarrow> instant \<Rightarrow> workflow_context" where
  "wctx_with_deadline c deadline = c\<lparr>wctx_deadline := Some deadline\<rparr>"

record ('i, 'j) workflow_request =
  wreq_context :: workflow_context
  wreq_definition :: "'j workflow_definition"
  wreq_input :: 'i

definition workflow_request_new ::
  "workflow_context \<Rightarrow> 'j workflow_definition \<Rightarrow> 'i \<Rightarrow> ('i, 'j) workflow_request" where
  "workflow_request_new c d input = \<lparr>wreq_context = c, wreq_definition = d, wreq_input = input\<rparr>"

record ('i, 'j, 'o) step_call =
  call_run_id :: run_id
  call_workflow_id :: workflow_id
  call_workflow_version :: workflow_version
  call_step_id :: step_id
  call_input :: 'i
  call_job :: 'j
  call_dependencies :: "(step_id, 'o) btree_map"
  call_cancellation :: token
  call_deadline :: "instant option"

text \<open>\<open>StepCall::agent_context\<close>, given the fresh operation id and token of \<open>CallContext::new\<close>.\<close>

definition agent_context :: "operation_id \<Rightarrow> token \<Rightarrow> ('i, 'j, 'o) step_call \<Rightarrow> call_context" where
  "agent_context op fresh call =
     (let context = with_cancellation (call_context_default op fresh) (call_cancellation call)
      in case call_deadline call of
           Some deadline \<Rightarrow> with_deadline context deadline
         | None \<Rightarrow> context)"

section \<open>Outcomes and failures\<close>

record 'o workflow_outcome =
  wo_run_id :: run_id
  wo_workflow_id :: workflow_id
  wo_workflow_version :: workflow_version
  wo_outputs :: "(step_id, 'o) btree_map"
  wo_leaf_outputs :: "(step_id, 'o) btree_map"

record 'e step_failure =
  sf_step_id :: step_id
  sf_error :: 'e

datatype ('e, 'o) workflow_failure =
    WfCancelled run_id workflow_id workflow_version "(step_id, 'o) btree_map" "'e step_failure list"
  | WfDeadlineExceeded run_id workflow_id workflow_version "(step_id, 'o) btree_map" "'e step_failure list"
  | WfStepsFailed run_id workflow_id workflow_version "(step_id, 'o) btree_map" "'e step_failure list"
  | WfIncomplete run_id workflow_id workflow_version "(step_id, 'o) btree_map" "step_id list"

fun wf_failure_run_id :: "('e, 'o) workflow_failure \<Rightarrow> run_id" where
  "wf_failure_run_id (WfCancelled r w v c fs) = r"
| "wf_failure_run_id (WfDeadlineExceeded r w v c fs) = r"
| "wf_failure_run_id (WfStepsFailed r w v c fs) = r"
| "wf_failure_run_id (WfIncomplete r w v c ps) = r"

fun wf_failure_completed :: "('e, 'o) workflow_failure \<Rightarrow> (step_id, 'o) btree_map" where
  "wf_failure_completed (WfCancelled r w v c fs) = c"
| "wf_failure_completed (WfDeadlineExceeded r w v c fs) = c"
| "wf_failure_completed (WfStepsFailed r w v c fs) = c"
| "wf_failure_completed (WfIncomplete r w v c ps) = c"

fun wf_failure_workflow_id :: "('e, 'o) workflow_failure \<Rightarrow> workflow_id" where
  "wf_failure_workflow_id (WfCancelled r w v c fs) = w"
| "wf_failure_workflow_id (WfDeadlineExceeded r w v c fs) = w"
| "wf_failure_workflow_id (WfStepsFailed r w v c fs) = w"
| "wf_failure_workflow_id (WfIncomplete r w v c ps) = w"

fun wf_failure_workflow_version :: "('e, 'o) workflow_failure \<Rightarrow> workflow_version" where
  "wf_failure_workflow_version (WfCancelled r w v c fs) = v"
| "wf_failure_workflow_version (WfDeadlineExceeded r w v c fs) = v"
| "wf_failure_workflow_version (WfStepsFailed r w v c fs) = v"
| "wf_failure_workflow_version (WfIncomplete r w v c ps) = v"

definition backtick :: string where
  "backtick = [CHR 0x60]"

definition wf_failure_prefix :: "run_id \<Rightarrow> workflow_id \<Rightarrow> workflow_version \<Rightarrow> string" where
  "wf_failure_prefix r w v =
     ''workflow '' @ backtick @ w @ backtick @ '' version '' @ backtick @ v @ backtick
     @ '' run '' @ backtick @ r @ backtick"

fun wf_failure_display :: "('e, 'o) workflow_failure \<Rightarrow> string" where
  "wf_failure_display (WfCancelled r w v c fs) = wf_failure_prefix r w v @ '' was cancelled''"
| "wf_failure_display (WfDeadlineExceeded r w v c fs) = wf_failure_prefix r w v @ '' exceeded its deadline''"
| "wf_failure_display (WfStepsFailed r w v c fs) =
     wf_failure_prefix r w v @ '' failed in '' @ show_nat (length fs) @ '' step(s)''"
| "wf_failure_display (WfIncomplete r w v c ps) =
     wf_failure_prefix r w v @ '' stopped with '' @ show_nat (length ps) @ '' pending step(s)''"

section \<open>Scheduler state\<close>

text \<open>\<open>max_concurrency\<close> is a \<open>NonZeroUsize\<close>; \<open>new\<close> starts with \<open>NonZeroUsize::MIN\<close>.\<close>

record workflow_service =
  svc_max_concurrency :: nat

definition workflow_service_new :: workflow_service where
  "workflow_service_new = \<lparr>svc_max_concurrency = 1\<rparr>"

definition with_max_concurrency :: "workflow_service \<Rightarrow> nat \<Rightarrow> workflow_service" where
  "with_max_concurrency s n = s\<lparr>svc_max_concurrency := n\<rparr>"

datatype ('o, 'e) step_settlement = NotCalled | Settled "'e + 'o"

datatype stop_reason = ExternalCancellation | Deadline | StepFailure

text \<open>
  Where an in-flight \<open>dispatch_step\<close> future is: waiting for the dispatcher's readiness, between a
  positive readiness and the cancellation check, past \<open>call\<close>, or completed but not yet taken.
\<close>

datatype ('o, 'e) flight_state = Readying | Admitted | Called | Completed "('o, 'e) step_settlement"

record ('i, 'j, 'o, 'e) flight =
  fl_step :: step_id
  fl_call :: "('i, 'j, 'o) step_call"
  fl_state :: "('o, 'e) flight_state"

record ('i, 'j, 'o, 'e) run_state =
  rs_cancelled :: "token list"
  rs_next_child :: nat
  rs_remaining :: "(step_id, nat) btree_map"
  rs_ready :: "step_id list"
  rs_in_flight :: "('i, 'j, 'o, 'e) flight list"
  rs_outputs :: "(step_id, 'o) btree_map"
  rs_failures :: "'e step_failure list"
  rs_stop :: "stop_reason option"

definition caller_token :: "('i, 'j) workflow_request \<Rightarrow> token" where
  "caller_token req = wctx_cancellation (wreq_context req)"

definition run_token :: "('i, 'j) workflow_request \<Rightarrow> token" where
  "run_token req = child_token (caller_token req) 0"

definition deadline_passed :: "('i, 'j) workflow_request \<Rightarrow> instant \<Rightarrow> bool" where
  "deadline_passed req now =
     (case wctx_deadline (wreq_context req) of None \<Rightarrow> False | Some deadline \<Rightarrow> deadline \<le> now)"

definition stop_run ::
  "('i, 'j) workflow_request \<Rightarrow> stop_reason \<Rightarrow> ('i, 'j, 'o, 'e) run_state \<Rightarrow> ('i, 'j, 'o, 'e) run_state" where
  "stop_run req reason st = st\<lparr>rs_stop := Some reason, rs_cancelled := run_token req # rs_cancelled st\<rparr>"

text \<open>The adjacency loop of \<open>execute\<close>: \<open>None\<close> is the \<open>expect\<close> on a missing dependency.\<close>

fun push_successors ::
  "step_id \<Rightarrow> step_id list \<Rightarrow> (step_id, step_id list) btree_map \<Rightarrow> (step_id, step_id list) btree_map option" where
  "push_successors sid [] outgoing = Some outgoing"
| "push_successors sid (dependency # ds) outgoing =
     (case map_of outgoing dependency of
        None \<Rightarrow> None
      | Some successors \<Rightarrow> push_successors sid ds (bt_set dependency (successors @ [sid]) outgoing))"

fun build_outgoing ::
  "'j step_definition list \<Rightarrow> (step_id, step_id list) btree_map \<Rightarrow> (step_id, step_id list) btree_map option" where
  "build_outgoing [] outgoing = Some outgoing"
| "build_outgoing (step # ss) outgoing =
     (case push_successors (def_id step) (def_needs step) outgoing of
        None \<Rightarrow> None
      | Some outgoing' \<Rightarrow> build_outgoing ss outgoing')"

definition execute_outgoing :: "'j workflow_definition \<Rightarrow> (step_id, step_id list) btree_map option" where
  "execute_outgoing d =
     map_option sort_outgoing (build_outgoing (bt_values (wf_steps d)) (empty_outgoing (wf_steps d)))"

definition execute_start ::
  "('i, 'j) workflow_request \<Rightarrow> token list \<Rightarrow> instant \<Rightarrow> ('i, 'j, 'o, 'e) run_state" where
  "execute_start req cancelled now =
     (let remaining = initial_indegree (wf_steps (wreq_definition req));
          st = \<lparr>rs_cancelled = cancelled, rs_next_child = 0, rs_remaining = remaining,
                rs_ready = initial_ready remaining, rs_in_flight = [], rs_outputs = [],
                rs_failures = [], rs_stop = None\<rparr>
      in if is_cancelled cancelled (caller_token req) then stop_run req ExternalCancellation st
         else if deadline_passed req now then stop_run req Deadline st
         else st)"

section \<open>Filling\<close>

text \<open>Cloning the outputs of the direct dependencies; \<open>None\<close> is the \<open>expect\<close> on a missing output.\<close>

fun gather_dependencies ::
  "(step_id, 'o) btree_map \<Rightarrow> step_id list \<Rightarrow> (step_id, 'o) btree_map option" where
  "gather_dependencies outputs [] = Some []"
| "gather_dependencies outputs (dependency # ds) =
     (case map_of outputs dependency of
        None \<Rightarrow> None
      | Some output \<Rightarrow>
          (case gather_dependencies outputs ds of
             None \<Rightarrow> None
           | Some rest \<Rightarrow> Some (bt_insert dependency output rest)))"

definition make_call ::
  "('i, 'j) workflow_request \<Rightarrow> step_id \<Rightarrow> 'j \<Rightarrow> (step_id, 'o) btree_map \<Rightarrow> token \<Rightarrow> ('i, 'j, 'o) step_call" where
  "make_call req sid job dependencies t =
     \<lparr>call_run_id = wctx_run_id (wreq_context req),
      call_workflow_id = wf_id (wreq_definition req),
      call_workflow_version = wf_version (wreq_definition req),
      call_step_id = sid, call_input = wreq_input req, call_job = job,
      call_dependencies = dependencies, call_cancellation = t,
      call_deadline = wctx_deadline (wreq_context req)\<rparr>"

datatype 's fill = FillBreak 's | FillContinue 's step_id | FillPanic

definition fill_iteration ::
  "('i, 'j) workflow_request \<Rightarrow> nat \<Rightarrow> instant \<Rightarrow> ('i, 'j, 'o, 'e) run_state \<Rightarrow> ('i, 'j, 'o, 'e) run_state fill" where
  "fill_iteration req max_concurrency now st =
     (if rs_stop st \<noteq> None \<or> max_concurrency \<le> length (rs_in_flight st) then FillBreak st
      else if is_cancelled (rs_cancelled st) (caller_token req)
      then FillBreak (stop_run req ExternalCancellation st)
      else if deadline_passed req now then FillBreak (stop_run req Deadline st)
      else case rs_ready st of
             [] \<Rightarrow> FillBreak st
           | sid # ready \<Rightarrow>
               (case wf_step (wreq_definition req) sid of
                  None \<Rightarrow> FillPanic
                | Some step \<Rightarrow>
                    (case gather_dependencies (rs_outputs st) (def_needs step) of
                       None \<Rightarrow> FillPanic
                     | Some dependencies \<Rightarrow>
                         (let t = child_token (run_token req) (rs_next_child st)
                          in FillContinue
                              (st\<lparr>rs_ready := ready, rs_next_child := Suc (rs_next_child st),
                                  rs_in_flight := rs_in_flight st
                                    @ [\<lparr>fl_step = sid,
                                        fl_call = make_call req sid (def_job step) dependencies t,
                                        fl_state = Readying\<rparr>]\<rparr>) sid))))"

section \<open>Dispatching one step\<close>

datatype 'e readiness = ReadyPending | ReadyOk | ReadyErr 'e

text \<open>One poll of \<open>dispatch_step\<close>, given the tokens cancelled and what the dispatcher answers.\<close>

definition poll_ready_arm ::
  "token list \<Rightarrow> token \<Rightarrow> 'e readiness \<Rightarrow> ('o, 'e) flight_state" where
  "poll_ready_arm cancelled t r =
     (if is_cancelled cancelled t then Completed NotCalled
      else case r of
             ReadyPending \<Rightarrow> Readying
           | ReadyOk \<Rightarrow> Admitted
           | ReadyErr error \<Rightarrow> Completed (Settled (Inl error)))"

definition cross_call_boundary :: "token list \<Rightarrow> token \<Rightarrow> ('o, 'e) flight_state" where
  "cross_call_boundary cancelled t = (if is_cancelled cancelled t then Completed NotCalled else Called)"

section \<open>Settling\<close>

fun release_successors ::
  "step_id list \<Rightarrow> (step_id, nat) btree_map \<Rightarrow> step_id list \<Rightarrow> ((step_id, nat) btree_map \<times> step_id list) option" where
  "release_successors [] remaining ready = Some (remaining, ready)"
| "release_successors (successor # ss) remaining ready =
     (case map_of remaining successor of
        None \<Rightarrow> None
      | Some 0 \<Rightarrow> None
      | Some (Suc n) \<Rightarrow>
          release_successors ss (bt_set successor n remaining)
            (if n = 0 then insort_insert successor ready else ready))"

definition settle ::
  "('i, 'j) workflow_request \<Rightarrow> (step_id, step_id list) btree_map \<Rightarrow> ('i, 'j, 'o, 'e) run_state
     \<Rightarrow> step_id \<Rightarrow> ('o, 'e) step_settlement \<Rightarrow> ('i, 'j, 'o, 'e) run_state option" where
  "settle req outgoing st sid settlement =
     (case settlement of
        NotCalled \<Rightarrow> Some st
      | Settled (Inr output) \<Rightarrow>
          (let st' = st\<lparr>rs_outputs := bt_insert sid output (rs_outputs st)\<rparr>
           in if rs_stop st = None
              then (case map_of outgoing sid of
                      None \<Rightarrow> None
                    | Some successors \<Rightarrow>
                        map_option (\<lambda>(remaining, ready). st'\<lparr>rs_remaining := remaining, rs_ready := ready\<rparr>)
                          (release_successors successors (rs_remaining st) (rs_ready st)))
              else Some st')
      | Settled (Inl error) \<Rightarrow>
          (let st' = st\<lparr>rs_failures := rs_failures st @ [\<lparr>sf_step_id = sid, sf_error = error\<rparr>]\<rparr>
           in Some (if rs_stop st = None then stop_run req StepFailure st' else st')))"

section \<open>Returning\<close>

definition sorted_failures :: "'e step_failure list \<Rightarrow> 'e step_failure list" where
  "sorted_failures fs = sort_key sf_step_id fs"

text \<open>\<open>None\<close> is the \<open>expect\<close> on a leaf without output.\<close>

definition execute_finish ::
  "('i, 'j) workflow_request \<Rightarrow> ('i, 'j, 'o, 'e) run_state
     \<Rightarrow> (('e, 'o) workflow_failure + 'o workflow_outcome) option" where
  "execute_finish req st =
     (let d = wreq_definition req; r = wctx_run_id (wreq_context req);
          failures = sorted_failures (rs_failures st)
      in case rs_stop st of
           Some ExternalCancellation \<Rightarrow>
             Some (Inl (WfCancelled r (wf_id d) (wf_version d) (rs_outputs st) failures))
         | Some Deadline \<Rightarrow>
             Some (Inl (WfDeadlineExceeded r (wf_id d) (wf_version d) (rs_outputs st) failures))
         | Some StepFailure \<Rightarrow>
             Some (Inl (WfStepsFailed r (wf_id d) (wf_version d) (rs_outputs st) failures))
         | None \<Rightarrow>
             (if length (rs_outputs st) \<noteq> length (wf_steps d)
              then Some (Inl (WfIncomplete r (wf_id d) (wf_version d) (rs_outputs st)
                     (map def_id (filter (\<lambda>step. map_of (rs_outputs st) (def_id step) = None)
                                    (bt_values (wf_steps d))))))
              else map_option
                     (\<lambda>leaf_outputs. Inr
                        \<lparr>wo_run_id = r, wo_workflow_id = wf_id d, wo_workflow_version = wf_version d,
                         wo_outputs = rs_outputs st, wo_leaf_outputs = leaf_outputs\<rparr>)
                     (gather_dependencies (rs_outputs st) (map def_id (wf_leaves d)))))"

section \<open>The transition system\<close>

text \<open>
  \<open>Filling\<close> is the inner \<open>while\<close>; \<open>Waiting\<close> is the entry of the wait, where the biased \<open>select!\<close>
  reads the cancellation token and the timer before it polls the in-flight set; \<open>Polling\<close> is that
  poll, the only place where the dispatch futures advance.
\<close>

datatype 'r program_point = Filling | Waiting | Polling | Returned 'r | Panicked

datatype ('o, 'e) choice =
    CallerCancels token
  | TimePasses nat
  | SchedulerStep
  | TimerFires
  | DispatcherReady step_id "'e readiness"
  | CrossBoundary step_id
  | CallSettles step_id "'e + 'o"
  | TakeCompleted step_id
  | NothingCompleted

text \<open>What a step does that an observer of the dispatcher sees.\<close>

datatype ('i, 'j, 'o, 'e) action =
    Launched step_id
  | Call "('i, 'j, 'o) step_call"
  | Taken step_id "('o, 'e) step_settlement"
  | Stopped stop_reason

type_synonym ('i, 'j, 'o, 'e) config =
  "(('e, 'o) workflow_failure + 'o workflow_outcome) program_point \<times> instant \<times> ('i, 'j, 'o, 'e) run_state"

definition find_flight ::
  "('i, 'j, 'o, 'e) run_state \<Rightarrow> step_id \<Rightarrow> ('i, 'j, 'o, 'e) flight option" where
  "find_flight st sid = find (\<lambda>fl. fl_step fl = sid) (rs_in_flight st)"

definition set_flight ::
  "('i, 'j, 'o, 'e) run_state \<Rightarrow> step_id \<Rightarrow> ('o, 'e) flight_state \<Rightarrow> ('i, 'j, 'o, 'e) run_state" where
  "set_flight st sid s =
     st\<lparr>rs_in_flight := map (\<lambda>fl. if fl_step fl = sid then fl\<lparr>fl_state := s\<rparr> else fl) (rs_in_flight st)\<rparr>"

definition drop_flight :: "('i, 'j, 'o, 'e) run_state \<Rightarrow> step_id \<Rightarrow> ('i, 'j, 'o, 'e) run_state" where
  "drop_flight st sid = st\<lparr>rs_in_flight := filter (\<lambda>fl. fl_step fl \<noteq> sid) (rs_in_flight st)\<rparr>"

definition stop_actions ::
  "('i, 'j, 'o, 'e) run_state \<Rightarrow> ('i, 'j, 'o, 'e) run_state \<Rightarrow> ('i, 'j, 'o, 'e) action list" where
  "stop_actions st st' =
     (case rs_stop st' of Some r \<Rightarrow> (if rs_stop st = None then [Stopped r] else []) | None \<Rightarrow> [])"

definition after_fill ::
  "('i, 'j) workflow_request \<Rightarrow> ('i, 'j, 'o, 'e) run_state
     \<Rightarrow> (('e, 'o) workflow_failure + 'o workflow_outcome) program_point" where
  "after_fill req st =
     (if rs_in_flight st = []
      then (case execute_finish req st of None \<Rightarrow> Panicked | Some r \<Rightarrow> Returned r)
      else Waiting)"

definition scheduler_step ::
  "('i, 'j) workflow_request \<Rightarrow> nat \<Rightarrow> ('i, 'j, 'o, 'e) config
     \<Rightarrow> (('i, 'j, 'o, 'e) config \<times> ('i, 'j, 'o, 'e) action list) option" where
  "scheduler_step req max_concurrency c =
     (case c of (pc, now, st) \<Rightarrow>
       (case pc of
          Filling \<Rightarrow>
            (case fill_iteration req max_concurrency now st of
               FillPanic \<Rightarrow> Some ((Panicked, now, st), [])
             | FillContinue st' sid \<Rightarrow> Some ((Filling, now, st'), [Launched sid])
             | FillBreak st' \<Rightarrow> Some ((after_fill req st', now, st'), stop_actions st st'))
        | Waiting \<Rightarrow>
            (if rs_stop st = None \<and> is_cancelled (rs_cancelled st) (caller_token req)
             then Some ((Filling, now, stop_run req ExternalCancellation st), [Stopped ExternalCancellation])
             else Some ((Polling, now, st), []))
        | _ \<Rightarrow> None))"

definition poll_flight ::
  "('i, 'j, 'o, 'e) run_state \<Rightarrow> step_id \<Rightarrow> (('i, 'j, 'o) step_call \<Rightarrow> ('o, 'e) flight_state \<Rightarrow> ('o, 'e) flight_state option)
     \<Rightarrow> ('i, 'j, 'o, 'e) run_state option" where
  "poll_flight st sid f =
     (case find_flight st sid of
        None \<Rightarrow> None
      | Some fl \<Rightarrow> map_option (set_flight st sid) (f (fl_call fl) (fl_state fl)))"

definition take_completed ::
  "('i, 'j) workflow_request \<Rightarrow> (step_id, step_id list) btree_map \<Rightarrow> instant \<Rightarrow> ('i, 'j, 'o, 'e) run_state \<Rightarrow> step_id
     \<Rightarrow> (('i, 'j, 'o, 'e) config \<times> ('i, 'j, 'o, 'e) action list) option" where
  "take_completed req outgoing now st sid =
     (case map_option fl_state (find_flight st sid) of
        Some (Completed settlement) \<Rightarrow>
          Some (case settle req outgoing (drop_flight st sid) sid settlement of
                  None \<Rightarrow> ((Panicked, now, st), [])
                | Some st' \<Rightarrow> ((Filling, now, st'), Taken sid settlement # stop_actions st st'))
      | _ \<Rightarrow> None)"

fun exec_step ::
  "('i, 'j) workflow_request \<Rightarrow> nat \<Rightarrow> (step_id, step_id list) btree_map \<Rightarrow> ('i, 'j, 'o, 'e) config
     \<Rightarrow> ('o, 'e) choice \<Rightarrow> (('i, 'j, 'o, 'e) config \<times> ('i, 'j, 'o, 'e) action list) option" where
  "exec_step req m outgoing (pc, now, st) (CallerCancels t) =
     (if prefix t (caller_token req)
      then Some ((pc, now, st\<lparr>rs_cancelled := t # rs_cancelled st\<rparr>), []) else None)"
| "exec_step req m outgoing (pc, now, st) (TimePasses n) = Some ((pc, now + n, st), [])"
| "exec_step req m outgoing c SchedulerStep = scheduler_step req m c"
| "exec_step req m outgoing (pc, now, st) TimerFires =
     (if pc = Waiting \<and> rs_stop st = None \<and> \<not> is_cancelled (rs_cancelled st) (caller_token req)
         \<and> deadline_passed req now
      then Some ((Filling, now, stop_run req Deadline st), [Stopped Deadline]) else None)"
| "exec_step req m outgoing (pc, now, st) (DispatcherReady sid r) =
     (if pc = Polling
      then map_option (\<lambda>st'. ((Polling, now, st'), []))
        (poll_flight st sid (\<lambda>call s. if s = Readying
           then Some (poll_ready_arm (rs_cancelled st) (call_cancellation call) r) else None))
      else None)"
| "exec_step req m outgoing (pc, now, st) (CrossBoundary sid) =
     (if pc = Polling
      then (case find_flight st sid of
              None \<Rightarrow> None
            | Some fl \<Rightarrow>
                (if fl_state fl = Admitted
                 then (let s = cross_call_boundary (rs_cancelled st) (call_cancellation (fl_call fl))
                       in Some ((Polling, now, set_flight st sid s),
                                if s = Called then [Call (fl_call fl)] else []))
                 else None))
      else None)"
| "exec_step req m outgoing (pc, now, st) (CallSettles sid r) =
     (if pc = Polling
      then map_option (\<lambda>st'. ((Polling, now, st'), []))
        (poll_flight st sid (\<lambda>call s. if s = Called then Some (Completed (Settled r)) else None))
      else None)"
| "exec_step req m outgoing (pc, now, st) (TakeCompleted sid) =
     (if pc = Polling then take_completed req outgoing now st sid else None)"
| "exec_step req m outgoing (pc, now, st) NothingCompleted =
     (if pc = Polling \<and> \<not> list_ex (\<lambda>fl. case fl_state fl of Completed _ \<Rightarrow> True | _ \<Rightarrow> False) (rs_in_flight st)
      then Some ((Waiting, now, st), []) else None)"

text \<open>A run of choices, with everything it makes visible.\<close>

fun exec_run ::
  "('i, 'j) workflow_request \<Rightarrow> nat \<Rightarrow> (step_id, step_id list) btree_map \<Rightarrow> ('o, 'e) choice list
     \<Rightarrow> ('i, 'j, 'o, 'e) config \<Rightarrow> (('i, 'j, 'o, 'e) config \<times> ('i, 'j, 'o, 'e) action list) option" where
  "exec_run req m outgoing [] c = Some (c, [])"
| "exec_run req m outgoing (x # xs) c =
     (case exec_step req m outgoing c x of
        None \<Rightarrow> None
      | Some (c', acts) \<Rightarrow> map_option (\<lambda>(c'', acts'). (c'', acts @ acts')) (exec_run req m outgoing xs c'))"

text \<open>
  The configurations of \<open>execute\<close> on a request: the start (tokens already cancelled and the clock
  are the environment's, but the children of the caller's token are fresh), then any sequence of
  choices. The action list is the history so far.
\<close>

inductive execution ::
  "('i, 'j) workflow_request \<Rightarrow> nat \<Rightarrow> ('i, 'j, 'o, 'e) config \<Rightarrow> ('i, 'j, 'o, 'e) action list \<Rightarrow> bool"
  for req :: "('i, 'j) workflow_request" and m :: nat where
  start: "execute_outgoing (wreq_definition req) \<noteq> None \<Longrightarrow>
    list_all (\<lambda>t. \<not> strict_prefix (caller_token req) t) cancelled \<Longrightarrow>
    execution req m (Filling, now, execute_start req cancelled now)
      (stop_actions ((execute_start req cancelled now)\<lparr>rs_stop := None\<rparr>) (execute_start req cancelled now))"
| start_panic: "execute_outgoing (wreq_definition req) = None \<Longrightarrow>
    execution req m (Panicked, now, execute_start req cancelled now) []"
| step: "execution req m c acts \<Longrightarrow> execute_outgoing (wreq_definition req) = Some outgoing \<Longrightarrow>
    exec_step req m outgoing c x = Some (c', acts') \<Longrightarrow> execution req m c' (acts @ acts')"

end
