(* ===== verification/Workflow_Compile.thy ===== *)
theory Workflow_Compile
  imports Workflow_Definition "HOL-Library.Multiset"
begin

text \<open>
  Correctness of \<open>compile\<close>: the authoring stage (identifiers, duplicate steps and dependencies),
  the edge stage (missing and self dependencies) and Kahn's loop are characterised one after the
  other, then composed into success, failure, totality and order-independence of the compilation.
\<close>

section \<open>The dependency graph of a step map\<close>

definition needs_of :: "(step_id, 'j step_definition) btree_map \<Rightarrow> step_id \<Rightarrow> step_id list" where
  "needs_of steps sid = (case map_of steps sid of None \<Rightarrow> [] | Some step \<Rightarrow> def_needs step)"

text \<open>Every element of the list has all its dependencies among \<open>before\<close> and the elements in front of it.\<close>

fun topological :: "(step_id \<Rightarrow> step_id list) \<Rightarrow> step_id list \<Rightarrow> step_id list \<Rightarrow> bool" where
  "topological needs before [] = True"
| "topological needs before (x # xs) =
     (set (needs x) \<subseteq> set before \<and> topological needs (x # before) xs)"

definition topological_order :: "(step_id, 'j step_definition) btree_map \<Rightarrow> step_id list \<Rightarrow> bool" where
  "topological_order steps order \<longleftrightarrow>
     distinct order \<and> set order = set (bt_keys steps) \<and> topological (needs_of steps) [] order"

definition steps_wf :: "(step_id, 'j step_definition) btree_map \<Rightarrow> bool" where
  "steps_wf steps \<longleftrightarrow>
     bt_wf steps \<and>
     (\<forall>(sid, step) \<in> set steps. def_id step = sid \<and> distinct (def_needs step) \<and> sorted (def_needs step))"

text \<open>No step needs itself, and every dependency is a step.\<close>

definition edges_ok :: "(step_id, 'j step_definition) btree_map \<Rightarrow> bool" where
  "edges_ok steps \<longleftrightarrow>
     (\<forall>(sid, step) \<in> set steps. sid \<notin> set (def_needs step) \<and> set (def_needs step) \<subseteq> set (bt_keys steps))"

lemma topological_cong:
  "set before = set before' \<Longrightarrow> topological needs before xs = topological needs before' xs"
  by (induction xs arbitrary: before before') (auto, (metis list.simps(15))+)

lemma topological_append:
  "topological needs before (xs @ ys) \<longleftrightarrow>
     topological needs before xs \<and> topological needs (rev xs @ before) ys"
  by (induction xs arbitrary: before) auto

lemma topological_snoc:
  "topological needs before (xs @ [x]) \<longleftrightarrow>
     topological needs before xs \<and> set (needs x) \<subseteq> set before \<union> set xs"
  by (auto simp: topological_append)

lemma topological_nth:
  "topological needs [] xs \<Longrightarrow> i < length xs \<Longrightarrow> set (needs (xs ! i)) \<subseteq> set (take i xs)"
proof (induction xs arbitrary: i rule: rev_induct)
  case Nil
  then show ?case by simp
next
  case (snoc x xs)
  then show ?case
    by (cases "i < length xs") (auto simp: topological_snoc nth_append less_Suc_eq)
qed

text \<open>A set of steps each of which needs a member of the set has no topological order.\<close>

lemma topological_no_blocked:
  assumes "topological needs before xs" and "B \<subseteq> set xs" and "B \<noteq> {}"
    and "\<forall>x \<in> B. \<exists>y \<in> B. y \<in> set (needs x)" and "B \<inter> set before = {}"
  shows False
  using assms
proof (induction xs arbitrary: before)
  case Nil
  then show ?case by simp
next
  case (Cons x xs)
  have "x \<notin> B" using Cons.prems by auto
  then have "B \<subseteq> set xs" and "B \<inter> set (x # before) = {}" using Cons.prems by auto
  with Cons.prems Cons.IH [of "x # before"] show ?case by simp
qed

lemma needs_of_in: "bt_wf steps \<Longrightarrow> (sid, step) \<in> set steps \<Longrightarrow> needs_of steps sid = def_needs step"
  by (simp add: needs_of_def bt_wf_distinct)

lemma needs_of_outside: "sid \<notin> set (bt_keys steps) \<Longrightarrow> needs_of steps sid = []"
  by (auto simp: needs_of_def bt_keys_eq_dom split: option.splits)

lemma needs_of_wf: "steps_wf steps \<Longrightarrow> distinct (needs_of steps sid)"
  by (auto simp: needs_of_def steps_wf_def split: option.splits dest!: map_of_SomeD)

lemma needs_of_edges:
  assumes "edges_ok steps"
  shows "set (needs_of steps sid) \<subseteq> set (bt_keys steps)"
proof (cases "map_of steps sid")
  case None
  then show ?thesis by (simp add: needs_of_def)
next
  case (Some step)
  with assms show ?thesis by (fastforce simp: needs_of_def edges_ok_def dest: map_of_SomeD)
qed

section \<open>The authoring stage\<close>

definition valid_id :: "string \<Rightarrow> bool" where
  "valid_id s \<longleftrightarrow> \<not> is_blank s \<and> trim s = s"

lemma identifier_new_eq:
  "identifier_new kind s = (if valid_id s then Inr s else Inl \<lparr>invalid_kind = kind\<rparr>)"
  by (auto simp: identifier_new_def valid_id_def)

lemma collect_needs_Inr_iff:
  "collect_needs sid seen ds = Inr ns \<longleftrightarrow>
     ns = ds \<and> list_all valid_id ds \<and> distinct ds \<and> set ds \<inter> set seen = {}"
  by (induction sid seen ds arbitrary: ns rule: collect_needs.induct)
    (auto simp: identifier_new_eq and_then_eq_Inr set_insort_insert)

definition spec_definition :: "'j step_spec \<Rightarrow> 'j step_definition" where
  "spec_definition s = \<lparr>def_id = spec_id s, def_needs = sort (spec_needs s), def_job = spec_job s\<rparr>"

definition spec_ok :: "'j step_spec \<Rightarrow> bool" where
  "spec_ok s \<longleftrightarrow> valid_id (spec_id s) \<and> list_all valid_id (spec_needs s) \<and> distinct (spec_needs s)"

definition spec_entry :: "'j step_spec \<Rightarrow> step_id \<times> 'j step_definition" where
  "spec_entry s = (spec_id s, spec_definition s)"

fun insert_all ::
  "(step_id, 'j step_definition) btree_map \<Rightarrow> 'j step_spec list \<Rightarrow> (step_id, 'j step_definition) btree_map" where
  "insert_all steps [] = steps"
| "insert_all steps (s # ss) = insert_all (bt_insert (spec_id s) (spec_definition s) steps) ss"

lemma insert_specs_Inr_iff:
  "insert_specs steps specs = Inr steps' \<longleftrightarrow>
     steps' = insert_all steps specs \<and> list_all spec_ok specs \<and> distinct (map spec_id specs)
     \<and> spec_id ` set specs \<inter> set (bt_keys steps) = {}"
proof (induction specs arbitrary: steps)
  case Nil
  then show ?case by auto
next
  case (Cons spec specs)
  show ?case
  proof (cases "spec_ok spec \<and> spec_id spec \<notin> set (bt_keys steps)")
    case True
    then have collected: "collect_needs (spec_id spec) [] (spec_needs spec) = Inr (spec_needs spec)"
      by (simp add: spec_ok_def collect_needs_Inr_iff)
    with True have "insert_specs steps (spec # specs) =
        insert_specs (bt_insert (spec_id spec) (spec_definition spec) steps) specs"
      by (simp add: identifier_new_eq spec_ok_def spec_definition_def Let_def)
    with True show ?thesis by (auto simp: Cons.IH set_bt_insert_keys)
  next
    case False
    then show ?thesis
      by (auto simp: identifier_new_eq spec_ok_def and_then_eq_Inr collect_needs_Inr_iff Let_def
          split: if_splits)
  qed
qed

lemma insert_all_wf: "bt_wf steps \<Longrightarrow> bt_wf (insert_all steps specs)"
  by (induction steps specs rule: insert_all.induct) (simp_all add: bt_wf_insert)

lemma map_of_insert_all:
  "bt_wf steps \<Longrightarrow> distinct (map spec_id specs) \<Longrightarrow> spec_id ` set specs \<inter> set (bt_keys steps) = {} \<Longrightarrow>
     map_of (insert_all steps specs) = map_of steps ++ map_of (map spec_entry specs)"
proof (induction steps specs rule: insert_all.induct)
  case (1 steps)
  then show ?case by simp
next
  case (2 steps s ss)
  have "map_of (insert_all (bt_insert (spec_id s) (spec_definition s) steps) ss)
      = map_of (bt_insert (spec_id s) (spec_definition s) steps) ++ map_of (map spec_entry ss)"
    using "2.prems" by (intro "2.IH") (auto simp: bt_wf_insert set_bt_insert_keys)
  also have "\<dots> = (map_of steps)(spec_id s \<mapsto> spec_definition s) ++ map_of (map spec_entry ss)"
    using "2.prems" by (simp only: map_of_bt_insert)
  also have "\<dots> = (map_of steps ++ map_of (map spec_entry ss))(spec_id s \<mapsto> spec_definition s)"
    using "2.prems" by (intro map_add_upd_left) (auto simp: dom_map_of_conv_image_fst spec_entry_def image_iff)
  also have "\<dots> = map_of steps ++ map_of (map spec_entry (s # ss))"
    by (simp add: spec_entry_def)
  finally show ?case by (simp only: insert_all.simps)
qed

lemma insert_all_Nil:
  "distinct (map spec_id specs) \<Longrightarrow>
     bt_wf (insert_all [] specs) \<and> map_of (insert_all [] specs) = map_of (map spec_entry specs)"
  by (simp add: insert_all_wf map_of_insert_all)

lemma insert_all_set:
  assumes "distinct (map spec_id specs)"
  shows "set (insert_all [] specs) = spec_entry ` set specs"
proof -
  have d: "distinct (map fst (map spec_entry specs))"
    using assms by (simp add: comp_def spec_entry_def)
  have "set (insert_all [] specs) = {(k, v). map_of (insert_all [] specs) k = Some v}"
    using insert_all_Nil [OF assms] map_of_eq_Some_iff [OF bt_wf_distinct] by fast
  also have "\<dots> = {(k, v). map_of (map spec_entry specs) k = Some v}"
    using insert_all_Nil [OF assms] by simp
  also have "\<dots> = set (map spec_entry specs)"
    using map_of_eq_Some_iff [OF d] by fast
  finally show ?thesis by simp
qed

lemma insert_all_steps_wf:
  assumes "distinct (map spec_id specs)" and "list_all spec_ok specs"
  shows "steps_wf (insert_all [] specs)"
  using assms insert_all_Nil [OF assms(1)] insert_all_set [OF assms(1)]
  by (auto simp: steps_wf_def spec_entry_def spec_definition_def spec_ok_def list_all_iff)

lemma insert_all_nonempty: "specs \<noteq> [] \<Longrightarrow> distinct (map spec_id specs) \<Longrightarrow> insert_all [] specs \<noteq> []"
  using insert_all_set [of specs] by (metis image_is_empty set_empty)

text \<open>Permuting the authored steps, or the dependencies inside a step, gives the same step map.\<close>

lemma insert_all_perm:
  assumes "distinct (map spec_id specs)" and "distinct (map spec_id specs')"
    and "spec_entry ` set specs = spec_entry ` set specs'"
  shows "insert_all [] specs = insert_all [] specs'"
proof (rule bt_eqI)
  show "bt_wf (insert_all [] specs)" "bt_wf (insert_all [] specs')"
    using insert_all_Nil assms(1,2) by blast+
  have "distinct (map fst (map spec_entry xs)) \<longleftrightarrow> distinct (map spec_id xs)" for xs :: "'a step_spec list"
    by (simp add: comp_def spec_entry_def)
  then have "map_of (map spec_entry specs) = map_of (map spec_entry specs')"
    using assms by (intro map_of_inject_set [THEN iffD2]) auto
  then show "map_of (insert_all [] specs) = map_of (insert_all [] specs')"
    using insert_all_Nil assms(1,2) by metis
qed

section \<open>The edge stage\<close>

definition successors_of :: "'j step_definition list \<Rightarrow> step_id \<Rightarrow> step_id list" where
  "successors_of ss k = map def_id (filter (\<lambda>s. k \<in> set (def_needs s)) ss)"

lemma link_needs_Inr:
  "link_needs sid ds out = Inr out' \<Longrightarrow> distinct ds \<Longrightarrow>
     sid \<notin> set ds \<and> set ds \<subseteq> set (bt_keys out) \<and> map fst out' = map fst out
     \<and> (\<forall>k. map_of out' k = map_option (\<lambda>vs. if k \<in> set ds then vs @ [sid] else vs) (map_of out k))"
proof (induction sid ds out rule: link_needs.induct)
  case (1 sid out)
  then show ?case by (simp add: option.map_ident)
next
  case (2 sid d ds out)
  then obtain vs where d: "d \<noteq> sid" and vs: "map_of out d = Some vs"
    and rest: "link_needs sid ds (bt_set d (vs @ [sid]) out) = Inr out'"
    by (auto split: if_splits option.splits)
  then have IH: "sid \<notin> set ds \<and> set ds \<subseteq> set (bt_keys (bt_set d (vs @ [sid]) out))
      \<and> map fst out' = map fst (bt_set d (vs @ [sid]) out)
      \<and> (\<forall>k. map_of out' k = map_option (\<lambda>vs. if k \<in> set ds then vs @ [sid] else vs)
               (map_of (bt_set d (vs @ [sid]) out) k))"
    using "2.IH" "2.prems" by simp
  have d_key: "d \<in> fst ` set out"
    using vs by (metis domI dom_map_of_conv_image_fst)
  have "map_of out' k = map_option (\<lambda>vs. if k \<in> set (d # ds) then vs @ [sid] else vs) (map_of out k)" for k
    using IH d_key vs "2.prems"(2) by (cases "k = d") (simp_all add: map_of_bt_set)
  then show ?case
    using IH d d_key by (auto simp: bt_keys_def)
qed

lemma link_needs_ok:
  "sid \<notin> set ds \<Longrightarrow> set ds \<subseteq> set (bt_keys out) \<Longrightarrow> is_ok (link_needs sid ds out)"
proof (induction sid ds out rule: link_needs.induct)
  case (1 sid out)
  then show ?case by simp
next
  case (2 sid d ds out)
  then obtain vs where vs: "map_of out d = Some vs"
    by (auto simp: bt_keys_eq_dom)
  with "2" show ?case by (auto simp: bt_keys_def)
qed

lemma link_steps_Inr:
  "link_steps ss out = Inr out' \<Longrightarrow> \<forall>s \<in> set ss. distinct (def_needs s) \<Longrightarrow>
     (\<forall>s \<in> set ss. def_id s \<notin> set (def_needs s) \<and> set (def_needs s) \<subseteq> set (bt_keys out))
     \<and> map fst out' = map fst out
     \<and> (\<forall>k. map_of out' k = map_option (\<lambda>vs. vs @ successors_of ss k) (map_of out k))"
proof (induction ss arbitrary: out)
  case Nil
  then show ?case by (simp add: successors_of_def option.map_ident)
next
  case (Cons s ss)
  then obtain out1 where out1: "link_needs (def_id s) (def_needs s) out = Inr out1"
    and rest: "link_steps ss out1 = Inr out'"
    by (auto simp: and_then_eq_Inr)
  have first: "def_id s \<notin> set (def_needs s) \<and> set (def_needs s) \<subseteq> set (bt_keys out)
     \<and> map fst out1 = map fst out
     \<and> (\<forall>k. map_of out1 k =
          map_option (\<lambda>vs. if k \<in> set (def_needs s) then vs @ [def_id s] else vs) (map_of out k))"
    using link_needs_Inr [OF out1] Cons.prems(2) by simp
  have later: "(\<forall>t \<in> set ss. def_id t \<notin> set (def_needs t) \<and> set (def_needs t) \<subseteq> set (bt_keys out1))
     \<and> map fst out' = map fst out1
     \<and> (\<forall>k. map_of out' k = map_option (\<lambda>vs. vs @ successors_of ss k) (map_of out1 k))"
    using Cons.IH [OF rest] Cons.prems(2) by simp
  from first later show ?case
    by (auto simp: successors_of_def option.map_comp comp_def bt_keys_def)
qed

lemma link_steps_ok:
  "\<forall>s \<in> set ss. def_id s \<notin> set (def_needs s) \<and> set (def_needs s) \<subseteq> set (bt_keys out) \<and> distinct (def_needs s) \<Longrightarrow>
     is_ok (link_steps ss out)"
proof (induction ss arbitrary: out)
  case Nil
  then show ?case by simp
next
  case (Cons s ss)
  then have "is_ok (link_needs (def_id s) (def_needs s) out)"
    by (intro link_needs_ok) auto
  then obtain out1 where out1: "link_needs (def_id s) (def_needs s) out = Inr out1"
    by (cases "link_needs (def_id s) (def_needs s) out") auto
  then have "map fst out1 = map fst out"
    using link_needs_Inr Cons.prems by fastforce
  then have "bt_keys out1 = bt_keys out" by (simp add: bt_keys_def)
  with Cons out1 show ?case by simp
qed

lemma map_of_empty_outgoing:
  "map_of (empty_outgoing steps) k = (if k \<in> set (bt_keys steps) then Some [] else None)"
  by (simp add: empty_outgoing_def map_of_map_restrict restrict_map_def)

lemma steps_wf_values:
  assumes "steps_wf steps"
  shows "step \<in> set (bt_values steps) \<longleftrightarrow> (def_id step, step) \<in> set steps"
  using assms by (force simp: bt_values_def steps_wf_def)

lemma steps_wf_entry:
  "steps_wf steps \<Longrightarrow> (sid, step) \<in> set steps \<Longrightarrow> def_id step = sid \<and> distinct (def_needs step)"
  by (auto simp: steps_wf_def)

lemma edge_stage:
  assumes wf: "steps_wf steps"
  shows "edges_ok steps \<longleftrightarrow> is_ok (link_steps (bt_values steps) (empty_outgoing steps))"
proof
  have keys: "bt_keys (empty_outgoing steps) = bt_keys steps"
    by (simp add: empty_outgoing_def bt_keys_def)
  have ids: "\<forall>s \<in> set (bt_values steps). \<exists>sid. (sid, s) \<in> set steps \<and> def_id s = sid \<and> distinct (def_needs s)"
    using wf by (fastforce simp: bt_values_def steps_wf_def)
  {
    assume "edges_ok steps"
    then show "is_ok (link_steps (bt_values steps) (empty_outgoing steps))"
      using ids by (intro link_steps_ok) (fastforce simp: keys edges_ok_def)
  next
    assume "is_ok (link_steps (bt_values steps) (empty_outgoing steps))"
    then obtain out where "link_steps (bt_values steps) (empty_outgoing steps) = Inr out"
      by (cases "link_steps (bt_values steps) (empty_outgoing steps)") auto
    then have "\<forall>s \<in> set (bt_values steps). def_id s \<notin> set (def_needs s) \<and> set (def_needs s) \<subseteq> set (bt_keys steps)"
      using link_steps_Inr [of "bt_values steps" "empty_outgoing steps" out] ids keys by auto
    then show "edges_ok steps"
      using wf by (fastforce simp: edges_ok_def steps_wf_def bt_values_def)
  }
qed

lemma successors_of_values:
  assumes "steps_wf steps"
  shows "set (successors_of (bt_values steps) k) = {s \<in> set (bt_keys steps). k \<in> set (needs_of steps s)}"
    and "distinct (successors_of (bt_values steps) k)"
proof -
  have ids: "map def_id (bt_values steps) = bt_keys steps"
    using assms by (auto simp: bt_values_def bt_keys_def steps_wf_def)
  have bt: "bt_wf steps" using assms by (simp add: steps_wf_def)
  have entry: "needs_of steps s = def_needs d \<and> s \<in> set (bt_keys steps)" if "(s, d) \<in> set steps" for s d
    using that needs_of_in [OF bt that] by (auto simp: bt_keys_def intro: rev_image_eqI)
  have key: "\<exists>d. (s, d) \<in> set steps" if "s \<in> set (bt_keys steps)" for s
    using that by (auto simp: bt_keys_def)
  have "s \<in> set (successors_of (bt_values steps) k) \<longleftrightarrow> (\<exists>d. (s, d) \<in> set steps \<and> k \<in> set (def_needs d))" for s
    using steps_wf_values [OF assms] steps_wf_entry [OF assms]
    unfolding successors_of_def by auto
  then show "set (successors_of (bt_values steps) k) = {s \<in> set (bt_keys steps). k \<in> set (needs_of steps s)}"
    using entry key by fastforce
  have "distinct (map def_id (bt_values steps))"
    using bt by (simp add: ids bt_keys_def bt_wf_distinct)
  then show "distinct (successors_of (bt_values steps) k)"
    by (auto simp: successors_of_def distinct_map intro: inj_on_subset)
qed

text \<open>What the finished adjacency map holds for every step.\<close>

definition adjacency_ok ::
  "(step_id, 'j step_definition) btree_map \<Rightarrow> (step_id, step_id list) btree_map \<Rightarrow> bool" where
  "adjacency_ok steps outgoing \<longleftrightarrow>
     (\<forall>k \<in> set (bt_keys steps). \<exists>vs. map_of outgoing k = Some vs \<and> distinct vs
        \<and> set vs = {s \<in> set (bt_keys steps). k \<in> set (needs_of steps s)})"

lemma edge_stage_adjacency:
  assumes wf: "steps_wf steps" and out: "link_steps (bt_values steps) (empty_outgoing steps) = Inr out"
  shows "adjacency_ok steps (sort_outgoing out)"
proof -
  have "\<forall>s \<in> set (bt_values steps). distinct (def_needs s)"
    using wf by (auto simp: bt_values_def steps_wf_def)
  then have "map_of out k = map_option (\<lambda>vs. vs @ successors_of (bt_values steps) k) (map_of (empty_outgoing steps) k)" for k
    using link_steps_Inr [OF out] by blast
  then have "map_of (sort_outgoing out) k = Some (sort (successors_of (bt_values steps) k))"
    if "k \<in> set (bt_keys steps)" for k
    using that by (simp add: sort_outgoing_def map_of_map map_of_empty_outgoing)
  then show ?thesis
    using successors_of_values [OF wf] by (simp add: adjacency_ok_def)
qed

section \<open>Kahn's loop\<close>

lemma relax_spec:
  "distinct ss \<Longrightarrow> \<forall>s \<in> set ss. \<exists>c. map_of indegree s = Some (Suc c) \<Longrightarrow>
     \<exists>indegree' ready'. relax ss indegree ready = Some (indegree', ready')
       \<and> map fst indegree' = map fst indegree
       \<and> (\<forall>k. map_of indegree' k = map_option (\<lambda>c. if k \<in> set ss then c - 1 else c) (map_of indegree k))
       \<and> set ready' = set ready \<union> {k \<in> set ss. map_of indegree k = Some 1}
       \<and> (sorted ready \<longrightarrow> sorted ready') \<and> (distinct ready \<longrightarrow> distinct ready')"
proof (induction ss arbitrary: indegree ready)
  case Nil
  then show ?case by (simp add: option.map_ident)
next
  case (Cons s ss)
  then obtain c where c: "map_of indegree s = Some (Suc c)" by auto
  let ?i = "bt_set s c indegree" and ?r = "if c = 0 then insort_insert s ready else ready"
  have s_key: "s \<in> fst ` set indegree"
    using c by (metis domI dom_map_of_conv_image_fst)
  have at: "map_of ?i k = (if k = s then Some c else map_of indegree k)" for k
    using s_key by (simp add: map_of_bt_set)
  have "\<forall>t \<in> set ss. \<exists>c. map_of ?i t = Some (Suc c)"
    using Cons.prems by (auto simp: at)
  moreover have "distinct ss" using Cons.prems(1) by simp
  ultimately obtain indegree' ready' where run: "relax ss ?i ?r = Some (indegree', ready')"
    and keys: "map fst indegree' = map fst indegree"
    and vals: "\<forall>k. map_of indegree' k = map_option (\<lambda>c. if k \<in> set ss then c - 1 else c) (map_of ?i k)"
    and rset: "set ready' = set ?r \<union> {k \<in> set ss. map_of ?i k = Some 1}"
    and ord: "sorted ?r \<longrightarrow> sorted ready'" "distinct ?r \<longrightarrow> distinct ready'"
    using Cons.IH [of ?i ?r] unfolding bt_set_keys by blast
  have "map_of indegree' k = map_option (\<lambda>c. if k \<in> set (s # ss) then c - 1 else c) (map_of indegree k)" for k
    using vals c Cons.prems(1) by (simp add: at)
  moreover have "set ready' = set ready \<union> {k \<in> set (s # ss). map_of indegree k = Some 1}"
  proof -
    have "{k \<in> set ss. map_of ?i k = Some 1} = {k \<in> set ss. map_of indegree k = Some 1}"
      using Cons.prems(1) by (auto simp: at)
    moreover have "set ?r = set ready \<union> (if c = 0 then {s} else {})"
      by (simp add: set_insort_insert)
    ultimately show ?thesis using rset c by auto
  qed
  moreover have "sorted ready \<longrightarrow> sorted ready'" "distinct ready \<longrightarrow> distinct ready'"
    using ord by (simp_all add: sorted_insort_insert distinct_insort_insert)
  ultimately show ?case using run keys c by simp
qed

text \<open>
  The loop invariant: \<open>order\<close> is a topological prefix in which every step is the least available
  one (\<open>least_first\<close>), \<open>ready\<close> is exactly the unordered steps whose
  dependencies are all ordered, and \<open>indegree\<close> counts the dependencies still missing.
\<close>

definition missing :: "(step_id, 'j step_definition) btree_map \<Rightarrow> step_id list \<Rightarrow> step_id \<Rightarrow> nat" where
  "missing steps order sid = length (filter (\<lambda>d. d \<notin> set order) (needs_of steps sid))"

definition least_first :: "(step_id, 'j step_definition) btree_map \<Rightarrow> step_id list \<Rightarrow> bool" where
  "least_first steps order \<longleftrightarrow>
     (\<forall>i < length order. \<forall>k \<in> set (bt_keys steps).
        k \<notin> set (take i order) \<longrightarrow> set (needs_of steps k) \<subseteq> set (take i order) \<longrightarrow> order ! i \<le> k)"

lemma least_first_Nil [simp]: "least_first steps []"
  by (simp add: least_first_def)

lemma least_first_snoc:
  "least_first steps (order @ [sid]) \<longleftrightarrow>
     least_first steps order
     \<and> (\<forall>k \<in> set (bt_keys steps). k \<notin> set order \<longrightarrow> set (needs_of steps k) \<subseteq> set order \<longrightarrow> sid \<le> k)"
  by (auto simp: least_first_def nth_append less_Suc_eq)

definition kahn_inv ::
  "(step_id, 'j step_definition) btree_map \<Rightarrow> (step_id, nat) btree_map \<Rightarrow> step_id list \<Rightarrow> step_id list \<Rightarrow> bool" where
  "kahn_inv steps indegree ready order \<longleftrightarrow>
     distinct order \<and> set order \<subseteq> set (bt_keys steps) \<and> topological (needs_of steps) [] order
     \<and> least_first steps order \<and> sorted ready \<and> distinct ready
     \<and> set ready = {k \<in> set (bt_keys steps). k \<notin> set order \<and> missing steps order k = 0}
     \<and> map fst indegree = bt_keys steps
     \<and> (\<forall>k \<in> set (bt_keys steps). map_of indegree k = Some (missing steps order k))"

lemma missing_0_iff: "missing steps order k = 0 \<longleftrightarrow> set (needs_of steps k) \<subseteq> set order"
  by (auto simp: missing_def filter_empty_conv)

lemma missing_snoc:
  assumes "distinct (needs_of steps k)" and "sid \<notin> set order"
  shows "missing steps (order @ [sid]) k =
    (if sid \<in> set (needs_of steps k) then missing steps order k - 1 else missing steps order k)"
    and "sid \<in> set (needs_of steps k) \<Longrightarrow> 0 < missing steps order k"
proof -
  let ?A = "{d \<in> set (needs_of steps k). d \<notin> set order}"
  have card: "missing steps ord k = card {d \<in> set (needs_of steps k). d \<notin> set ord}" for ord
    using assms(1) by (simp add: missing_def distinct_card [symmetric] set_filter [symmetric] del: set_filter)
  have "{d \<in> set (needs_of steps k). d \<notin> set (order @ [sid])} = ?A - {sid}" by auto
  then show "missing steps (order @ [sid]) k =
    (if sid \<in> set (needs_of steps k) then missing steps order k - 1 else missing steps order k)"
    using assms(2) by (simp add: card)
  show "sid \<in> set (needs_of steps k) \<Longrightarrow> 0 < missing steps order k"
    using assms(2) by (auto simp: missing_def filter_empty_conv)
qed

lemma kahn_inv_initial:
  assumes wf: "steps_wf steps"
  shows "kahn_inv steps (initial_indegree steps) (initial_ready (initial_indegree steps)) []"
proof -
  have bt: "bt_wf steps" using wf by (simp add: steps_wf_def)
  have keys: "map fst (initial_indegree steps) = bt_keys steps"
    by (simp add: initial_indegree_def bt_keys_def case_prod_unfold comp_def)
  have entry: "(k, n) \<in> set (initial_indegree steps) \<longleftrightarrow> k \<in> set (bt_keys steps) \<and> n = missing steps [] k" for k n
    using needs_of_in [OF bt]
    by (force simp: initial_indegree_def bt_keys_def missing_def image_iff)
  have dist: "distinct (map fst (initial_indegree steps))"
    using bt by (simp add: keys bt_keys_def bt_wf_distinct)
  have "sorted (map fst (initial_indegree steps))"
    using bt by (simp add: keys bt_keys_def bt_wf_sorted)
  then have ready: "sorted (initial_ready (initial_indegree steps))" "distinct (initial_ready (initial_indegree steps))"
    using dist by (simp_all add: initial_ready_def sorted_filter distinct_map_filter)
  have "set (initial_ready (initial_indegree steps)) = {k \<in> set (bt_keys steps). missing steps [] k = 0}"
  proof -
    have "set (initial_ready (initial_indegree steps)) = {k. (k, 0) \<in> set (initial_indegree steps)}"
      by (force simp: initial_ready_def)
    also have "\<dots> = {k \<in> set (bt_keys steps). missing steps [] k = 0}"
      by (auto simp: entry)
    finally show ?thesis .
  qed
  moreover have "map_of (initial_indegree steps) k = Some (missing steps [] k)" if "k \<in> set (bt_keys steps)" for k
    using entry that by (intro map_of_is_SomeI [OF dist]) blast
  ultimately show ?thesis using ready keys by (simp add: kahn_inv_def)
qed

lemma kahn_step:
  assumes wf: "steps_wf steps" and edges: "edges_ok steps" and adj: "adjacency_ok steps outgoing"
    and inv: "kahn_inv steps indegree (sid # ready) order"
  shows "\<exists>vs indegree' ready'. map_of outgoing sid = Some vs \<and> relax vs indegree ready = Some (indegree', ready')
     \<and> kahn_inv steps indegree' ready' (order @ [sid])"
proof -
  have sid: "sid \<in> set (bt_keys steps)" "sid \<notin> set order" "missing steps order sid = 0" "sid \<notin> set ready"
    using inv by (auto simp: kahn_inv_def)
  then obtain vs where vs: "map_of outgoing sid = Some vs" "distinct vs"
    "set vs = {s \<in> set (bt_keys steps). sid \<in> set (needs_of steps s)}"
    using adj unfolding adjacency_ok_def by blast
  have miss: "missing steps (order @ [sid]) k = (if sid \<in> set (needs_of steps k) then missing steps order k - 1 else missing steps order k)"
    and pos: "sid \<in> set (needs_of steps k) \<Longrightarrow> 0 < missing steps order k" for k
    using missing_snoc [OF needs_of_wf [OF wf] sid(2)] by blast+
  have ind: "map_of indegree k = Some (missing steps order k)" if "k \<in> set (bt_keys steps)" for k
    using inv that by (simp add: kahn_inv_def)
  have "\<forall>s \<in> set vs. \<exists>c. map_of indegree s = Some (Suc c)"
    using vs(3) ind pos by (metis (no_types, lifting) gr0_implies_Suc mem_Collect_eq)
  then obtain indegree' ready' where run: "relax vs indegree ready = Some (indegree', ready')"
    and keys: "map fst indegree' = map fst indegree"
    and vals: "\<forall>k. map_of indegree' k = map_option (\<lambda>c. if k \<in> set vs then c - 1 else c) (map_of indegree k)"
    and rset: "set ready' = set ready \<union> {k \<in> set vs. map_of indegree k = Some 1}"
    and ord: "sorted ready \<longrightarrow> sorted ready'" "distinct ready \<longrightarrow> distinct ready'"
    using relax_spec [OF vs(2)] by blast
  have "set (needs_of steps sid) \<subseteq> set order"
    using sid(3) by (simp add: missing_0_iff)
  then have topo: "topological (needs_of steps) [] (order @ [sid])"
    using inv by (auto simp: kahn_inv_def topological_snoc)
  have "least_first steps (order @ [sid])"
    using inv by (auto simp: kahn_inv_def least_first_snoc missing_0_iff)
  moreover have counts: "map_of indegree' k = Some (missing steps (order @ [sid]) k)" if "k \<in> set (bt_keys steps)" for k
    using vals ind [OF that] vs(3) that by (simp add: miss)
  moreover have old: "set ready = {k \<in> set (bt_keys steps). k \<notin> set order \<and> k \<noteq> sid \<and> missing steps order k = 0}"
    using inv sid by (auto simp: kahn_inv_def)
  moreover have "set ready' = {k \<in> set (bt_keys steps). k \<notin> set (order @ [sid]) \<and> missing steps (order @ [sid]) k = 0}"
  proof (intro set_eqI iffI)
    fix k
    assume "k \<in> set ready'"
    then consider "k \<in> set ready" | "k \<in> set vs" "map_of indegree k = Some 1" using rset by auto
    then show "k \<in> {k \<in> set (bt_keys steps). k \<notin> set (order @ [sid]) \<and> missing steps (order @ [sid]) k = 0}"
    proof cases
      case 1
      then show ?thesis using old by (auto simp: miss)
    next
      case 2
      then have k: "k \<in> set (bt_keys steps)" "sid \<in> set (needs_of steps k)" "missing steps order k = 1"
        using vs(3) ind by auto
      moreover have "k \<notin> set order"
      proof
        assume "k \<in> set order"
        then have "set (needs_of steps k) \<subseteq> set order"
          using inv by (auto simp: kahn_inv_def in_set_conv_nth dest: topological_nth set_take_subset [THEN subsetD])
        with k(2) sid(2) show False by blast
      qed
      moreover have "k \<noteq> sid" using k(3) sid(3) by auto
      ultimately show ?thesis by (simp add: miss)
    qed
  next
    fix k
    assume "k \<in> {k \<in> set (bt_keys steps). k \<notin> set (order @ [sid]) \<and> missing steps (order @ [sid]) k = 0}"
    then show "k \<in> set ready'"
      using rset old vs(3) ind pos [of k] by (cases "sid \<in> set (needs_of steps k)") (auto simp: miss)
  qed
  ultimately have "kahn_inv steps indegree' ready' (order @ [sid])"
    using inv sid topo keys ord by (auto simp: kahn_inv_def)
  with vs(1) run show ?thesis by blast
qed

lemma kahn_run:
  "steps_wf steps \<Longrightarrow> edges_ok steps \<Longrightarrow> adjacency_ok steps outgoing \<Longrightarrow> kahn_inv steps indegree ready order \<Longrightarrow>
    \<exists>indegree' order'. kahn outgoing indegree ready order = Some (indegree', order') \<and> kahn_inv steps indegree' [] order'"
proof (induction outgoing indegree ready order rule: kahn.induct)
  case (1 outgoing indegree order)
  then show ?case by simp
next
  case (2 outgoing indegree sid ready order)
  from kahn_step [OF "2.prems"] obtain vs indegree' ready' where
    vs: "map_of outgoing sid = Some vs" and run: "relax vs indegree ready = Some (indegree', ready')"
    and inv: "kahn_inv steps indegree' ready' (order @ [sid])" by blast
  from "2.IH" [OF vs run _ "2.prems"(1-3) inv] vs run show ?case by simp
qed

section \<open>The whole compilation\<close>

definition acyclic_steps :: "(step_id, 'j step_definition) btree_map \<Rightarrow> bool" where
  "acyclic_steps steps \<longleftrightarrow> (\<exists>order. topological_order steps order)"

lemma kahn_inv_blocked:
  "kahn_inv steps indegree [] order \<Longrightarrow> k \<in> set (bt_keys steps) \<Longrightarrow> k \<notin> set order \<Longrightarrow>
     \<exists>d \<in> set (needs_of steps k). d \<notin> set order"
  by (auto simp: kahn_inv_def missing_0_iff)

lemma kahn_inv_complete:
  assumes wf: "steps_wf steps" and edges: "edges_ok steps" and inv: "kahn_inv steps indegree [] order"
  shows "length order = length steps \<longleftrightarrow> set order = set (bt_keys steps)"
    and "set order = set (bt_keys steps) \<longleftrightarrow> acyclic_steps steps"
proof -
  have dist: "distinct order" and sub: "set order \<subseteq> set (bt_keys steps)"
    using inv by (simp_all add: kahn_inv_def)
  have len: "length steps = card (set (bt_keys steps))"
  proof -
    have "distinct (map fst steps)" using wf by (simp add: steps_wf_def bt_wf_distinct)
    then have "card (set (map fst steps)) = length (map fst steps)" by (rule distinct_card)
    then show ?thesis by (simp add: bt_keys_def)
  qed
  show "length order = length steps \<longleftrightarrow> set order = set (bt_keys steps)"
    using dist sub by (metis List.finite_set card_subset_eq distinct_card len)
  show "set order = set (bt_keys steps) \<longleftrightarrow> acyclic_steps steps"
  proof
    assume "set order = set (bt_keys steps)"
    then show "acyclic_steps steps"
      using inv by (auto simp: acyclic_steps_def topological_order_def kahn_inv_def)
  next
    assume "acyclic_steps steps"
    then obtain ord where ord: "set ord = set (bt_keys steps)" "topological (needs_of steps) [] ord"
      by (auto simp: acyclic_steps_def topological_order_def)
    show "set order = set (bt_keys steps)"
    proof (rule ccontr)
      assume "set order \<noteq> set (bt_keys steps)"
      then have "set (bt_keys steps) - set order \<noteq> {}" using sub by blast
      moreover have "\<forall>x \<in> set (bt_keys steps) - set order.
          \<exists>y \<in> set (bt_keys steps) - set order. y \<in> set (needs_of steps x)"
        using kahn_inv_blocked [OF inv] needs_of_edges [OF edges] by blast
      ultimately show False
        using topological_no_blocked [OF ord(2), of "set (bt_keys steps) - set order"] ord(1) by auto
    qed
  qed
qed

text \<open>The graph stage, on a step map that passed the authoring stage.\<close>

definition kahn_order :: "(step_id, 'j step_definition) btree_map \<Rightarrow> step_id list" where
  "kahn_order steps =
     (case link_steps (bt_values steps) (empty_outgoing steps) of
        Inl _ \<Rightarrow> []
      | Inr outgoing \<Rightarrow>
          (case kahn (sort_outgoing outgoing) (initial_indegree steps) (initial_ready (initial_indegree steps)) [] of
             None \<Rightarrow> [] | Some (_, order) \<Rightarrow> order))"

lemma compile_graph_edges:
  assumes wf: "steps_wf steps" and edges: "edges_ok steps"
  shows "\<exists>indegree. kahn_inv steps indegree [] (kahn_order steps)"
    and "compile_graph i v steps = Some
      (if acyclic_steps steps
       then Inr \<lparr>wf_id = i, wf_version = v, wf_steps = steps, wf_order = kahn_order steps\<rparr>
       else Inl (Cycle (filter (\<lambda>k. k \<notin> set (kahn_order steps)) (bt_keys steps))))"
proof -
  obtain outgoing where out: "link_steps (bt_values steps) (empty_outgoing steps) = Inr outgoing"
    using edge_stage [OF wf] edges by (cases "link_steps (bt_values steps) (empty_outgoing steps)") auto
  obtain indegree order where run:
    "kahn (sort_outgoing outgoing) (initial_indegree steps) (initial_ready (initial_indegree steps)) [] = Some (indegree, order)"
    and inv: "kahn_inv steps indegree [] order"
    using kahn_run [OF wf edges edge_stage_adjacency [OF wf out] kahn_inv_initial [OF wf]] by blast
  have ord: "kahn_order steps = order"
    by (simp add: kahn_order_def out run)
  with inv show "\<exists>indegree. kahn_inv steps indegree [] (kahn_order steps)" by blast
  have keys: "map fst indegree = bt_keys steps" and dist: "distinct (map fst indegree)"
    using inv wf by (simp_all add: kahn_inv_def steps_wf_def bt_keys_def bt_wf_distinct)
  have ind: "c = missing steps order k \<and> k \<in> set (bt_keys steps)" if "(k, c) \<in> set indegree" for k c
  proof -
    have k: "k \<in> set (bt_keys steps)"
      using imageI [OF that, of fst] keys by (metis fst_conv set_map)
    then have "map_of indegree k = Some (missing steps order k)"
      using inv unfolding kahn_inv_def by blast
    moreover have "map_of indegree k = Some c" using dist that by (rule map_of_is_SomeI)
    ultimately show ?thesis using k by simp
  qed
  have pos: "0 < missing steps order k \<longleftrightarrow> k \<notin> set order" if k: "k \<in> set (bt_keys steps)" for k
  proof (cases "k \<in> set order")
    case True
    then obtain n where n: "n < length order" "k = order ! n" by (auto simp: in_set_conv_nth)
    have "topological (needs_of steps) [] order" using inv unfolding kahn_inv_def by blast
    then have "set (needs_of steps k) \<subseteq> set (take n order)" using n by (auto dest: topological_nth)
    then have "missing steps order k = 0"
      using set_take_subset [of n order] by (simp add: missing_0_iff)
    with True show ?thesis by simp
  next
    case False
    have "set ([]::step_id list) = {k \<in> set (bt_keys steps). k \<notin> set order \<and> missing steps order k = 0}"
      using inv unfolding kahn_inv_def by blast
    then show ?thesis using False k by auto
  qed
  have "map fst (filter (\<lambda>(sid, n). 0 < n) indegree) = map fst (filter (\<lambda>p. fst p \<notin> set order) indegree)"
  proof (intro arg_cong [where f = "map fst"] filter_cong refl)
    fix p
    assume "p \<in> set indegree"
    then have "snd p = missing steps order (fst p) \<and> fst p \<in> set (bt_keys steps)"
      using ind [of "fst p" "snd p"] by simp
    then show "(case p of (sid, n) \<Rightarrow> 0 < n) = (fst p \<notin> set order)"
      using pos [of "fst p"] by (simp add: case_prod_unfold)
  qed
  also have "\<dots> = filter (\<lambda>k. k \<notin> set order) (bt_keys steps)"
    by (simp add: keys [symmetric] filter_map comp_def)
  finally show "compile_graph i v steps = Some
      (if acyclic_steps steps
       then Inr \<lparr>wf_id = i, wf_version = v, wf_steps = steps, wf_order = kahn_order steps\<rparr>
       else Inl (Cycle (filter (\<lambda>k. k \<notin> set (kahn_order steps)) (bt_keys steps))))"
    using kahn_inv_complete [OF wf edges inv] by (simp add: compile_graph_def out run ord)
qed

lemma compile_graph_no_edges:
  assumes wf: "steps_wf steps" and edges: "\<not> edges_ok steps"
  shows "\<exists>e. compile_graph i v steps = Some (Inl e) \<and> (\<forall>ks. e \<noteq> Cycle ks)"
proof -
  have needs: "link_needs sid ds out = Inl e \<Longrightarrow> \<forall>ks. e \<noteq> Cycle ks" for sid ds out e
    by (induction sid ds out rule: link_needs.induct) (auto split: if_splits option.splits)
  have "link_steps ss out = Inl e \<Longrightarrow> \<forall>ks. e \<noteq> Cycle ks" for ss :: "'a step_definition list" and out e
    by (induction ss arbitrary: out) (auto simp: and_then_eq_Inl dest: needs)
  then show ?thesis
    using edge_stage [OF wf] edges
    by (cases "link_steps (bt_values steps) (empty_outgoing steps)") (auto simp: compile_graph_def)
qed

lemma compile_eq:
  "compile i v specs =
     (if \<not> valid_id i then Some (Inl (InvalidIdentifier \<lparr>invalid_kind = ''workflow id''\<rparr>))
      else if \<not> valid_id v then Some (Inl (InvalidIdentifier \<lparr>invalid_kind = ''workflow version''\<rparr>))
      else if specs = [] then Some (Inl NoSteps)
      else case insert_specs [] specs of Inl e \<Rightarrow> Some (Inl e) | Inr steps \<Rightarrow> compile_graph i v steps)"
  by (simp add: compile_def identifier_new_eq)

lemma insert_specs_Inr:
  "insert_specs [] specs = Inr steps \<longleftrightarrow>
     steps = insert_all [] specs \<and> list_all spec_ok specs \<and> distinct (map spec_id specs)"
  by (auto simp: insert_specs_Inr_iff)

lemma compile_Inr_iff:
  "compile i v specs = Some (Inr d) \<longleftrightarrow>
     valid_id i \<and> valid_id v \<and> specs \<noteq> [] \<and> list_all spec_ok specs \<and> distinct (map spec_id specs)
     \<and> edges_ok (insert_all [] specs) \<and> acyclic_steps (insert_all [] specs)
     \<and> d = \<lparr>wf_id = i, wf_version = v, wf_steps = insert_all [] specs,
            wf_order = kahn_order (insert_all [] specs)\<rparr>"
proof (cases "list_all spec_ok specs \<and> distinct (map spec_id specs)")
  case True
  then have ins: "insert_specs [] specs = Inr (insert_all [] specs)" by (simp add: insert_specs_Inr)
  have wf: "steps_wf (insert_all [] specs)" using True by (simp add: insert_all_steps_wf)
  show ?thesis
  proof (cases "edges_ok (insert_all [] specs)")
    case edges: True
    show ?thesis using True edges compile_graph_edges(2) [OF wf edges] by (auto simp: compile_eq ins)
  next
    case False
    with compile_graph_no_edges [OF wf False, of i v] show ?thesis by (auto simp: compile_eq ins)
  qed
next
  case False
  then have "\<not> is_ok (insert_specs [] specs)"
    by (cases "insert_specs [] specs") (auto simp: insert_specs_Inr)
  then obtain e where "insert_specs [] specs = Inl e" by (cases "insert_specs [] specs") auto
  with False show ?thesis by (auto simp: compile_eq)
qed

lemma compile_total_lemma: "\<exists>r. compile i v specs = Some r"
proof (cases "insert_specs [] specs")
  case (Inl e)
  then show ?thesis by (simp add: compile_eq)
next
  case (Inr steps)
  then have wf: "steps_wf steps" by (auto simp: insert_specs_Inr insert_all_steps_wf)
  have "\<exists>r. compile_graph i v steps = Some r"
    using compile_graph_edges(2) [OF wf] compile_graph_no_edges [OF wf, of i v]
    by (cases "edges_ok steps") blast+
  with Inr show ?thesis by (simp add: compile_eq)
qed

end
