(* ===== verification/Dependency_Graph.thy ===== *)
theory Dependency_Graph
  imports Prelude
begin

text \<open>
  The interface between the workflow compiler and the workflow runner. A valid definition is a
  finite graph with an order in which every node follows its needs; that is all the runner relies
  on. The lemmas are what a scheduler needs: needs are nodes, nothing needs itself, and a set of
  finished nodes that is not everything leaves some unfinished node with all its needs finished.
\<close>

locale dependency_graph =
  fixes valid :: "'d \<Rightarrow> bool"
    and nodes :: "'d \<Rightarrow> 'k list"
    and needs :: "'d \<Rightarrow> 'k \<Rightarrow> 'k list"
    and order :: "'d \<Rightarrow> 'k list"
  assumes nodes_distinct: "valid d \<Longrightarrow> distinct (nodes d)"
    and needs_distinct: "valid d \<Longrightarrow> distinct (needs d k)"
    and order_nodes: "valid d \<Longrightarrow> set (order d) = set (nodes d)"
    and order_distinct: "valid d \<Longrightarrow> distinct (order d)"
    and order_needs: "valid d \<Longrightarrow> i < length (order d) \<Longrightarrow> set (needs d (order d ! i)) \<subseteq> set (take i (order d))"
begin

lemma needs_are_nodes:
  assumes "valid d" and "k \<in> set (nodes d)"
  shows "set (needs d k) \<subseteq> set (nodes d)"
proof -
  obtain i where "i < length (order d)" "order d ! i = k"
    using assms order_nodes [OF assms(1)] by (metis in_set_conv_nth)
  then show ?thesis
    using order_needs [OF assms(1), of i] order_nodes [OF assms(1)] set_take_subset [of i "order d"] by auto
qed

lemma no_self_need:
  assumes "valid d" and "k \<in> set (nodes d)"
  shows "k \<notin> set (needs d k)"
proof -
  obtain i where i: "i < length (order d)" "order d ! i = k"
    using assms order_nodes [OF assms(1)] by (metis in_set_conv_nth)
  have "k \<notin> set (take i (order d))"
    using i order_distinct [OF assms(1)] by (auto simp: in_set_conv_nth nth_eq_iff_index_eq)
  then show ?thesis using order_needs [OF assms(1) i(1)] i(2) by auto
qed

text \<open>Progress: finished nodes closed under "all needs finished" are all nodes.\<close>

lemma closed_is_everything:
  assumes valid: "valid d"
    and closed: "\<And>k. k \<in> set (nodes d) \<Longrightarrow> set (needs d k) \<subseteq> finished \<Longrightarrow> k \<in> finished"
  shows "set (nodes d) \<subseteq> finished"
proof -
  have "i \<le> length (order d) \<Longrightarrow> set (take i (order d)) \<subseteq> finished" for i
  proof (induction i)
    case 0
    then show ?case by simp
  next
    case (Suc i)
    then have IH: "set (take i (order d)) \<subseteq> finished" and i: "i < length (order d)" by simp_all
    have "order d ! i \<in> finished"
      using closed [of "order d ! i"] order_needs [OF valid i] IH i order_nodes [OF valid] nth_mem by blast
    with IH i show ?case by (simp add: take_Suc_conv_app_nth)
  qed
  from this [of "length (order d)"] show ?thesis using order_nodes [OF valid] by simp
qed

lemma blocked_or_available:
  assumes "valid d" and "\<not> set (nodes d) \<subseteq> finished"
  shows "\<exists>k \<in> set (nodes d). k \<notin> finished \<and> set (needs d k) \<subseteq> finished"
  using closed_is_everything [OF assms(1), of finished] assms(2) by blast

end

end
