(* ===== verification/Workflow_Authored.thy ===== *)
theory Workflow_Authored
  imports Workflow_Compile Dependency_Graph
begin

text \<open>
  Compilation related to what the author wrote: the specification \<open>well_formed\<close> is stated on the
  authored steps alone, and the properties of \<open>compile\<close> and \<open>PipelineBuilder::build\<close> are proved
  against it from the stage lemmas of \<open>Workflow_Compile\<close>.
\<close>

section \<open>Compilation against the authored steps\<close>

text \<open>
  The specification speaks about the authored list only: an order of the authored step names in
  which every step comes after what it needs.
\<close>

definition authored_order :: "'j step_spec list \<Rightarrow> string list \<Rightarrow> bool" where
  "authored_order specs order \<longleftrightarrow>
     distinct order \<and> set order = spec_id ` set specs
     \<and> (\<forall>s \<in> set specs. \<forall>i < length order. order ! i = spec_id s \<longrightarrow> set (spec_needs s) \<subseteq> set (take i order))"

definition well_formed :: "string \<Rightarrow> string \<Rightarrow> 'j step_spec list \<Rightarrow> bool" where
  "well_formed i v specs \<longleftrightarrow>
     valid_id i \<and> valid_id v \<and> specs \<noteq> [] \<and> list_all spec_ok specs \<and> distinct (map spec_id specs)
     \<and> (\<exists>order. authored_order specs order)"

lemma topological_iff_nth:
  "topological needs before xs \<longleftrightarrow> (\<forall>i < length xs. set (needs (xs ! i)) \<subseteq> set before \<union> set (take i xs))"
proof (induction xs arbitrary: before)
  case Nil
  then show ?case by simp
next
  case (Cons x xs)
  show ?case
    by (auto simp: Cons.IH less_Suc_eq_0_disj nth_Cons split: nat.splits)
qed

lemma needs_of_insert_all:
  assumes "distinct (map spec_id specs)" and "s \<in> set specs"
  shows "needs_of (insert_all [] specs) (spec_id s) = sort (spec_needs s)"
    and "map_of (insert_all [] specs) (spec_id s) = Some (spec_definition s)"
proof -
  have "(spec_id s, spec_definition s) \<in> set (insert_all [] specs)"
    using insert_all_set [OF assms(1)] assms(2) by (auto simp: spec_entry_def)
  moreover have "distinct (map fst (insert_all [] specs))"
    using insert_all_Nil [OF assms(1)] by (simp add: bt_wf_distinct)
  ultimately show m: "map_of (insert_all [] specs) (spec_id s) = Some (spec_definition s)"
    by (intro map_of_is_SomeI)
  then show "needs_of (insert_all [] specs) (spec_id s) = sort (spec_needs s)"
    by (simp add: needs_of_def spec_definition_def)
qed

lemma insert_all_bt_keys: "distinct (map spec_id specs) \<Longrightarrow> set (bt_keys (insert_all [] specs)) = spec_id ` set specs"
  using insert_all_set [of specs] by (simp add: bt_keys_def image_image spec_entry_def)

lemma authored_order_topological:
  assumes d: "distinct (map spec_id specs)"
  shows "topological_order (insert_all [] specs) order \<longleftrightarrow> authored_order specs order"
proof -
  have keys: "set (bt_keys (insert_all [] specs)) = spec_id ` set specs"
    by (rule insert_all_bt_keys [OF d])
  show ?thesis
  proof (cases "set order = spec_id ` set specs")
    case True
    have "topological (needs_of (insert_all [] specs)) [] order \<longleftrightarrow>
      (\<forall>s \<in> set specs. \<forall>i < length order. order ! i = spec_id s \<longrightarrow> set (spec_needs s) \<subseteq> set (take i order))"
      (is "?T = ?A")
    proof
      assume ?T
      show ?A
      proof (intro ballI allI impI)
        fix s i
        assume s: "s \<in> set specs" and i: "i < length order" and eq: "order ! i = spec_id s"
        show "set (spec_needs s) \<subseteq> set (take i order)"
        proof -
          have "set (needs_of (insert_all [] specs) (order ! i)) \<subseteq> set (take i order)"
            using \<open>?T\<close> i by (simp add: topological_iff_nth)
          then show ?thesis using needs_of_insert_all(1) [OF d s] by (simp add: eq)
        qed
      qed
    next
      assume ?A
      show ?T
        unfolding topological_iff_nth
      proof (intro allI impI)
        fix i
        assume i: "i < length order"
        then obtain s where s: "s \<in> set specs" and eq: "order ! i = spec_id s"
          using True nth_mem by blast
        show "set (needs_of (insert_all [] specs) (order ! i)) \<subseteq> set [] \<union> set (take i order)"
          using \<open>?A\<close> i s needs_of_insert_all(1) [OF d s] by (simp add: eq)
      qed
    qed
    then show ?thesis
      by (simp add: topological_order_def authored_order_def keys)
  next
    case False
    then show ?thesis by (simp add: topological_order_def authored_order_def keys)
  qed
qed

lemma topological_order_edges_ok:
  assumes wf: "steps_wf steps" and ord: "topological_order steps order"
  shows "edges_ok steps"
proof -
  have bt: "bt_wf steps" using wf by (simp add: steps_wf_def)
  have "sid \<notin> set (def_needs step) \<and> set (def_needs step) \<subseteq> set (bt_keys steps)" if mem: "(sid, step) \<in> set steps" for sid step
  proof -
    have "sid \<in> set order" using ord mem by (force simp: topological_order_def bt_keys_def)
    then obtain i where i: "i < length order" "order ! i = sid" by (auto simp: in_set_conv_nth)
    then have sub: "set (def_needs step) \<subseteq> set (take i order)"
      using ord topological_nth needs_of_in [OF bt mem] by (fastforce simp: topological_order_def)
    have "sid \<notin> set (take i order)"
      using ord i by (auto simp: topological_order_def in_set_conv_nth nth_eq_iff_index_eq)
    moreover have "set (take i order) \<subseteq> set (bt_keys steps)"
      using ord set_take_subset [of i order] by (auto simp: topological_order_def)
    ultimately show ?thesis using sub by blast
  qed
  then show ?thesis by (auto simp: edges_ok_def)
qed

lemma well_formed_iff:
  "well_formed i v specs \<longleftrightarrow>
     valid_id i \<and> valid_id v \<and> specs \<noteq> [] \<and> list_all spec_ok specs \<and> distinct (map spec_id specs)
     \<and> edges_ok (insert_all [] specs) \<and> acyclic_steps (insert_all [] specs)"
proof (cases "list_all spec_ok specs \<and> distinct (map spec_id specs)")
  case True
  have "(\<exists>order. authored_order specs order) \<longleftrightarrow> acyclic_steps (insert_all [] specs)"
    using True by (simp add: acyclic_steps_def authored_order_topological)
  moreover have "edges_ok (insert_all [] specs)" if "acyclic_steps (insert_all [] specs)"
    using that True topological_order_edges_ok insert_all_steps_wf unfolding acyclic_steps_def by blast
  ultimately show ?thesis using True by (auto simp: well_formed_def)
next
  case False
  then show ?thesis by (auto simp: well_formed_def)
qed

lemma compile_Inr:
  "compile i v specs = Some (Inr d) \<longleftrightarrow>
     well_formed i v specs
     \<and> d = \<lparr>wf_id = i, wf_version = v, wf_steps = insert_all [] specs,
            wf_order = kahn_order (insert_all [] specs)\<rparr>"
  by (simp add: compile_Inr_iff well_formed_iff)

lemma compiled_entry:
  assumes "compile i v specs = Some (Inr d)" and "s \<in> set specs"
  shows "wf_step d (spec_id s) = Some (spec_definition s)"
  using assms needs_of_insert_all(2) [of specs s] by (auto simp: compile_Inr well_formed_def wf_step_def)

lemma well_formed_order:
  assumes "well_formed i v specs"
  shows "topological_order (insert_all [] specs) (kahn_order (insert_all [] specs))"
    and "least_first (insert_all [] specs) (kahn_order (insert_all [] specs))"
proof -
  have wf: "steps_wf (insert_all [] specs)" and edges: "edges_ok (insert_all [] specs)"
    and ac: "acyclic_steps (insert_all [] specs)"
    using assms by (simp_all add: well_formed_iff insert_all_steps_wf)
  obtain indegree where inv: "kahn_inv (insert_all [] specs) indegree [] (kahn_order (insert_all [] specs))"
    using compile_graph_edges(1) [OF wf edges] by blast
  then have "set (kahn_order (insert_all [] specs)) = set (bt_keys (insert_all [] specs))"
    using kahn_inv_complete(2) [OF wf edges inv] ac by blast
  then show "topological_order (insert_all [] specs) (kahn_order (insert_all [] specs))"
    and "least_first (insert_all [] specs) (kahn_order (insert_all [] specs))"
    using inv by (simp_all add: topological_order_def kahn_inv_def)
qed

lemma collect_needs_no_cycle: "collect_needs sid seen ds = Inl e \<Longrightarrow> e \<noteq> Cycle ks"
  by (induction sid seen ds rule: collect_needs.induct)
    (auto simp: and_then_eq_Inl identifier_new_eq split: if_splits)

lemma insert_specs_no_cycle: "insert_specs steps specs = Inl e \<Longrightarrow> e \<noteq> Cycle ks"
  by (induction steps specs rule: insert_specs.induct)
    (auto simp: and_then_eq_Inl identifier_new_eq Let_def dest: collect_needs_no_cycle split: if_splits)

lemma compile_Cycle:
  assumes "compile i v specs = Some (Inl (Cycle ks))"
  shows "list_all spec_ok specs" and "distinct (map spec_id specs)" and "edges_ok (insert_all [] specs)"
    and "\<not> acyclic_steps (insert_all [] specs)"
    and "ks = filter (\<lambda>k. k \<notin> set (kahn_order (insert_all [] specs))) (bt_keys (insert_all [] specs))"
proof -
  have not_id: "valid_id i" "valid_id v" "specs \<noteq> []"
    using assms by (auto simp: compile_eq split: if_splits)
  have ins: "insert_specs [] specs = Inr (insert_all [] specs)"
    using assms not_id insert_specs_no_cycle [of "[]" specs _ ks]
    by (cases "insert_specs [] specs") (auto simp: compile_eq insert_specs_Inr)
  then show *: "list_all spec_ok specs" "distinct (map spec_id specs)"
    by (simp_all add: insert_specs_Inr)
  have wf: "steps_wf (insert_all [] specs)" using * by (simp add: insert_all_steps_wf)
  have graph: "compile_graph i v (insert_all [] specs) = Some (Inl (Cycle ks))"
    using assms not_id ins by (simp add: compile_eq)
  then show edges: "edges_ok (insert_all [] specs)"
    using compile_graph_no_edges [OF wf, of i v] by auto
  show "\<not> acyclic_steps (insert_all [] specs)"
    "ks = filter (\<lambda>k. k \<notin> set (kahn_order (insert_all [] specs))) (bt_keys (insert_all [] specs))"
    using graph compile_graph_edges(2) [OF wf edges, of i v] by (auto split: if_splits)
qed

lemma cycle_blocked:
  assumes "compile i v specs = Some (Inl (Cycle ks))"
  shows "ks \<noteq> [] \<and> (\<forall>k \<in> set ks. \<exists>d \<in> set ks. d \<in> set (needs_of (insert_all [] specs) k))"
proof -
  let ?steps = "insert_all [] specs"
  note c = compile_Cycle [OF assms]
  have wf: "steps_wf ?steps" using c by (simp add: insert_all_steps_wf)
  obtain indegree where inv: "kahn_inv ?steps indegree [] (kahn_order ?steps)"
    using compile_graph_edges(1) [OF wf c(3)] by blast
  have "set (kahn_order ?steps) \<noteq> set (bt_keys ?steps)"
    using kahn_inv_complete(2) [OF wf c(3) inv] c(4) by blast
  moreover have "set (kahn_order ?steps) \<subseteq> set (bt_keys ?steps)"
    using inv by (simp add: kahn_inv_def)
  ultimately have "ks \<noteq> []" by (auto simp: c(5) filter_empty_conv)
  moreover have "\<exists>d \<in> set ks. d \<in> set (needs_of ?steps k)" if "k \<in> set ks" for k
    using that kahn_inv_blocked [OF inv, of k] needs_of_edges [OF c(3), of k] by (auto simp: c(5))
  ultimately show ?thesis by blast
qed

section \<open>What a compiled definition promises\<close>

definition compiled :: "'j workflow_definition \<Rightarrow> bool" where
  "compiled d \<longleftrightarrow> (\<exists>specs. compile (wf_id d) (wf_version d) specs = Some (Inr d))"

definition graph_nodes :: "'j workflow_definition \<Rightarrow> step_id list" where
  "graph_nodes d = bt_keys (wf_steps d)"

definition graph_needs :: "'j workflow_definition \<Rightarrow> step_id \<Rightarrow> step_id list" where
  "graph_needs d = needs_of (wf_steps d)"

lemma compile_compiled: "compile i v specs = Some (Inr d) \<Longrightarrow> compiled d"
  by (auto simp: compiled_def compile_Inr)

lemma compiled_facts:
  assumes "compiled d"
  shows "steps_wf (wf_steps d)" and "edges_ok (wf_steps d)" and "topological_order (wf_steps d) (wf_order d)"
    and "wf_steps d \<noteq> []"
proof -
  obtain specs where wf: "well_formed (wf_id d) (wf_version d) specs"
    and eq: "d = \<lparr>wf_id = wf_id d, wf_version = wf_version d,
      wf_steps = insert_all [] specs, wf_order = kahn_order (insert_all [] specs)\<rparr>"
    using assms unfolding compiled_def compile_Inr by blast
  have d: "wf_steps d = insert_all [] specs" "wf_order d = kahn_order (insert_all [] specs)"
    using arg_cong [OF eq, of wf_steps] arg_cong [OF eq, of wf_order] by simp_all
  show "steps_wf (wf_steps d)" "edges_ok (wf_steps d)" "wf_steps d \<noteq> []"
    using wf unfolding d by (simp_all add: well_formed_iff insert_all_steps_wf insert_all_nonempty)
  show "topological_order (wf_steps d) (wf_order d)"
    using well_formed_order(1) [OF wf] unfolding d .
qed

interpretation graph: dependency_graph compiled graph_nodes graph_needs wf_order
proof
  fix d :: "'a workflow_definition" and k i
  assume d: "compiled d"
  note facts = compiled_facts [OF d]
  show "distinct (graph_nodes d)"
    using facts(1) by (simp add: graph_nodes_def bt_keys_def steps_wf_def bt_wf_distinct)
  show "distinct (graph_needs d k)"
    using facts(1) by (simp add: graph_needs_def needs_of_wf)
  show "set (wf_order d) = set (graph_nodes d)" "distinct (wf_order d)"
    using facts(3) by (simp_all add: topological_order_def graph_nodes_def)
  show "set (graph_needs d (wf_order d ! i)) \<subseteq> set (take i (wf_order d))" if "i < length (wf_order d)"
    using facts(3) that by (auto simp: topological_order_def graph_needs_def dest: topological_nth)
qed

section \<open>Properties\<close>

text \<open>C1: compilation never panics, and it succeeds exactly on the well-formed authored lists:
  valid identifiers, at least one step, no duplicate step or dependency, and an order of the
  authored steps in which every step follows everything it needs.\<close>

theorem compile_decides_well_formed:
  "compile i v specs \<noteq> None \<and> ((\<exists>d. compile i v specs = Some (Inr d)) \<longleftrightarrow> well_formed i v specs)"
  using compile_total_lemma [of i v specs] by (auto simp: compile_Inr)

text \<open>C2: a compiled definition holds every authored step under its name with its dependencies
  sorted, its order lists every step once after all it needs, and at each position it is the least
  name whose dependencies are already listed.\<close>

theorem compile_topological_order:
  assumes "compile i v specs = Some (Inr d)"
  shows "wf_id d = i \<and> wf_version d = v
    \<and> (\<forall>s \<in> set specs. wf_step d (spec_id s) = Some (spec_definition s))
    \<and> authored_order specs (wf_order d)
    \<and> (\<forall>n < length (wf_order d). \<forall>s \<in> set specs.
         spec_id s \<notin> set (take n (wf_order d)) \<and> set (spec_needs s) \<subseteq> set (take n (wf_order d))
         \<longrightarrow> wf_order d ! n \<le> spec_id s)"
proof -
  have wf: "well_formed i v specs" and d: "distinct (map spec_id specs)"
    and eq: "d = \<lparr>wf_id = i, wf_version = v, wf_steps = insert_all [] specs, wf_order = kahn_order (insert_all [] specs)\<rparr>"
    using assms by (auto simp: compile_Inr well_formed_def)
  have "authored_order specs (wf_order d)"
    using well_formed_order(1) [OF wf] by (simp add: eq authored_order_topological [OF d])
  moreover have "wf_order d ! n \<le> spec_id s"
    if "n < length (wf_order d)" "s \<in> set specs" "spec_id s \<notin> set (take n (wf_order d))"
      "set (spec_needs s) \<subseteq> set (take n (wf_order d))" for n s
    using well_formed_order(2) [OF wf] that needs_of_insert_all(1) [OF d that(2)] insert_all_bt_keys [OF d]
    by (auto simp: least_first_def eq)
  moreover have "\<forall>s \<in> set specs. wf_step d (spec_id s) = Some (spec_definition s)"
    using needs_of_insert_all(2) [OF d] by (simp add: wf_step_def eq)
  ultimately show ?thesis by (auto simp: eq)
qed

definition diamond :: "nat step_spec list" where
  "diamond =
     [\<lparr>spec_id = ''d'', spec_needs = [''c'', ''b''], spec_job = 4\<rparr>,
      \<lparr>spec_id = ''b'', spec_needs = [''a''], spec_job = 2\<rparr>,
      \<lparr>spec_id = ''c'', spec_needs = [''a''], spec_job = 3\<rparr>,
      \<lparr>spec_id = ''a'', spec_needs = [], spec_job = 1\<rparr>]"

theorem compile_topological_order_witness:
  "\<exists>d. compile ''w'' ''1'' diamond = Some (Inr d) \<and> wf_order d = [''a'', ''b'', ''c'', ''d'']
     \<and> authored_order diamond (wf_order d)"
proof -
  have run: "compile ''w'' ''1'' diamond = Some (Inr
      \<lparr>wf_id = ''w'', wf_version = ''1'', wf_steps = insert_all [] diamond, wf_order = [''a'', ''b'', ''c'', ''d'']\<rparr>)"
    by code_simp
  from compile_topological_order [OF run] run show ?thesis by auto
qed

text \<open>When compilation reports a cycle, no order of the authored steps satisfies the
  dependencies, and the reported names are exactly such an obstruction: a non-empty set of authored
  steps each of which needs another member of the set.\<close>

theorem compile_cycle_real:
  assumes "compile i v specs = Some (Inl (Cycle ks))"
  shows "ks \<noteq> []
    \<and> (\<forall>k \<in> set ks. \<exists>s \<in> set specs. spec_id s = k \<and> set (spec_needs s) \<inter> set ks \<noteq> {})
    \<and> \<not> (\<exists>order. authored_order specs order)"
proof -
  note c = compile_Cycle [OF assms]
  have "\<exists>s \<in> set specs. spec_id s = k \<and> set (spec_needs s) \<inter> set ks \<noteq> {}" if k: "k \<in> set ks" for k
  proof -
    have "k \<in> spec_id ` set specs"
      using k insert_all_bt_keys [OF c(2)] by (auto simp: c(5))
    then obtain s where s: "s \<in> set specs" "spec_id s = k" by blast
    obtain d where "d \<in> set ks" "d \<in> set (needs_of (insert_all [] specs) k)"
      using cycle_blocked [OF assms] k by blast
    with s needs_of_insert_all(1) [OF c(2) s(1)] show ?thesis by auto
  qed
  moreover have "\<not> (\<exists>order. authored_order specs order)"
    using c(4) by (simp add: acyclic_steps_def authored_order_topological [OF c(2)])
  ultimately show ?thesis using cycle_blocked [OF assms] by blast
qed

definition knot :: "nat step_spec list" where
  "knot =
     [\<lparr>spec_id = ''a'', spec_needs = [''c''], spec_job = 1\<rparr>,
      \<lparr>spec_id = ''b'', spec_needs = [''a''], spec_job = 2\<rparr>,
      \<lparr>spec_id = ''c'', spec_needs = [''b'', ''root''], spec_job = 3\<rparr>,
      \<lparr>spec_id = ''root'', spec_needs = [], spec_job = 0\<rparr>]"

theorem compile_cycle_real_witness:
  "compile ''w'' ''1'' knot = Some (Inl (Cycle [''a'', ''b'', ''c'']))
   \<and> \<not> (\<exists>order. authored_order knot order)"
proof -
  have run: "compile ''w'' ''1'' knot = Some (Inl (Cycle [''a'', ''b'', ''c'']))"
    by code_simp
  from compile_cycle_real [OF run] run show ?thesis by simp
qed

text \<open>What of a step does not depend on the order in which its dependencies are written.\<close>

definition spec_key :: "'j step_spec \<Rightarrow> string \<times> string multiset \<times> 'j" where
  "spec_key s = (spec_id s, mset (spec_needs s), spec_job s)"

lemma spec_key_entry: "spec_key s = spec_key t \<Longrightarrow> spec_entry s = spec_entry t"
  by (auto simp: spec_key_def spec_entry_def spec_definition_def simp flip: sorted_list_of_multiset_mset)

lemma spec_key_ok: "spec_key s = spec_key t \<Longrightarrow> spec_ok s = spec_ok t"
  by (auto simp: spec_key_def spec_ok_def list_all_iff dest: mset_eq_setD mset_eq_imp_distinct_iff)

lemma compile_permuted:
  assumes keys: "mset (map spec_key ss) = mset (map spec_key ss')"
    and run: "compile i v ss = Some (Inr d)"
  shows "compile i v ss' = Some (Inr d)"
proof -
  have wf: "well_formed i v ss" using run by (simp add: compile_Inr)
  have set_key: "spec_key ` set ss = spec_key ` set ss'" using mset_eq_setD [OF keys] by simp
  have "mset (map spec_id xs) = image_mset fst (mset (map spec_key xs))" for xs :: "'a step_spec list"
    by (induction xs) (simp_all add: spec_key_def)
  then have ids: "mset (map spec_id ss) = mset (map spec_id ss')" using keys by simp
  then have dist: "distinct (map spec_id ss')"
    using wf mset_eq_imp_distinct_iff [OF ids] by (simp add: well_formed_def)
  have "spec_entry ` set ss = spec_entry ` set ss'"
    using set_key spec_key_entry by (smt (verit, best) image_cong image_iff set_eqI)
  then have same: "insert_all [] ss = insert_all [] ss'"
    using wf dist by (intro insert_all_perm) (simp_all add: well_formed_def)
  have "\<forall>s' \<in> set ss'. \<exists>s \<in> set ss. spec_key s' = spec_key s"
    using set_key by (metis image_iff)
  then have "list_all spec_ok ss'"
    using wf spec_key_ok unfolding well_formed_def list_all_iff by metis
  then have "well_formed i v ss'"
    using wf dist same ids by (auto simp: well_formed_iff)
  with run same show ?thesis by (simp add: compile_Inr)
qed

text \<open>C9: neither the order in which steps are authored nor the order of the dependencies inside a
  step matters: lists that agree up to both compile to the same definition.\<close>

theorem compile_order_independent:
  assumes "mset (map spec_key specs) = mset (map spec_key specs')"
  shows "compile i v specs = Some (Inr d) \<longleftrightarrow> compile i v specs' = Some (Inr d)"
  using compile_permuted [OF assms] compile_permuted [OF assms [symmetric]] by blast

theorem compile_order_independent_witness:
  "compile ''w'' ''1'' (rev diamond) = Some (Inr
     \<lparr>wf_id = ''w'', wf_version = ''1'', wf_steps = insert_all [] diamond, wf_order = [''a'', ''b'', ''c'', ''d'']\<rparr>)"
proof -
  have "mset (map spec_key diamond) = mset (map spec_key (rev diamond))" by (simp add: rev_map)
  from compile_order_independent [OF this, of "''w''" "''1''"
      "\<lparr>wf_id = ''w'', wf_version = ''1'', wf_steps = insert_all [] diamond, wf_order = [''a'', ''b'', ''c'', ''d'']\<rparr>"]
  show ?thesis by code_simp
qed

section \<open>Pipelines\<close>

lemma chain_steps_Inr_iff:
  "chain_steps prev ss = Inr ts \<longleftrightarrow>
     (\<forall>s \<in> set ss. spec_needs s = []) \<and> length ts = length ss
     \<and> (\<forall>n < length ss. ts ! n = (ss ! n)\<lparr>spec_needs :=
          (if n = 0 then (case prev of None \<Rightarrow> [] | Some p \<Rightarrow> [p]) else [spec_id (ss ! (n - 1))])\<rparr>)"
  (is "?L prev ss ts \<longleftrightarrow> ?R prev ss ts")
proof (induction ss arbitrary: prev ts)
  case Nil
  then show ?case by auto
next
  case (Cons s ss)
  show ?case
  proof (cases ts)
    case Nil
    then show ?thesis by (auto simp: and_then_eq_Inr)
  next
    case ts: (Cons t ts')
    have "?L prev (s # ss) ts \<longleftrightarrow> spec_needs s = [] \<and> ?L (Some (spec_id s)) ss ts'
        \<and> t = s\<lparr>spec_needs := (case prev of None \<Rightarrow> [] | Some p \<Rightarrow> [p])\<rparr>"
      by (auto simp: ts and_then_eq_Inr)
    also have "\<dots> \<longleftrightarrow> ?R prev (s # ss) ts"
      unfolding Cons.IH
      by (auto simp: ts All_less_Suc2 nth_Cons' split: if_splits)
    finally show ?thesis .
  qed
qed

text \<open>The dependencies \<open>PipelineBuilder::build\<close> writes: each step needs the one before it.\<close>

definition chained :: "'j step_spec list \<Rightarrow> bool" where
  "chained ts \<longleftrightarrow> (\<forall>n < length ts. spec_needs (ts ! n) = (if n = 0 then [] else [spec_id (ts ! (n - 1))]))"

lemma chained_authored_order:
  assumes ch: "chained ts" and dist: "distinct (map spec_id ts)"
  shows "authored_order ts order \<longleftrightarrow> order = map spec_id ts"
proof
  assume ord: "order = map spec_id ts"
  have "set (spec_needs s) \<subseteq> set (take i order)"
    if s: "s \<in> set ts" and i: "i < length order" "order ! i = spec_id s" for s i
  proof -
    obtain n where n: "n < length ts" "ts ! n = s" using s by (auto simp: in_set_conv_nth)
    have "i = n" using dist i n ord by (auto simp: distinct_conv_nth)
    then have "set (spec_needs s) = (if i = 0 then {} else {spec_id (ts ! (i - 1))})"
      using ch n by (auto simp: chained_def)
    moreover have "spec_id (ts ! (i - 1)) \<in> set (take i order)" if "i \<noteq> 0"
    proof -
      have "i - 1 < length (take i order)" and "take i order ! (i - 1) = spec_id (ts ! (i - 1))"
        using that n \<open>i = n\<close> ord by auto
      then show ?thesis by (metis nth_mem)
    qed
    ultimately show ?thesis by auto
  qed
  then show "authored_order ts order" using dist ord by (simp add: authored_order_def)
next
  assume ao: "authored_order ts order"
  have "distinct order" and set_eq: "set order = set (map spec_id ts)"
    using ao by (simp_all add: authored_order_def)
  then have len: "length order = length ts"
    using dist by (metis distinct_card length_map)
  have "n \<le> length ts \<Longrightarrow> take n order = take n (map spec_id ts)" for n
  proof (induction n)
    case 0
    then show ?case by simp
  next
    case (Suc n)
    then have IH: "take n order = take n (map spec_id ts)" and n: "n < length ts" by simp_all
    obtain m where m: "m < length ts" "order ! n = spec_id (ts ! m)"
    proof -
      have "order ! n \<in> set (map spec_id ts)" using n len nth_mem [of n order] unfolding set_eq by simp
      then show thesis using that by (auto simp: in_set_conv_nth)
    qed
    have fresh: "order ! n \<notin> set (take n order)"
      using \<open>distinct order\<close> n len by (auto simp: in_set_conv_nth nth_eq_iff_index_eq)
    have in_take: "k < n" if k: "spec_id (ts ! k) \<in> set (take n order)" "k < length ts" for k
    proof -
      obtain j where "j < n" "spec_id (ts ! k) = spec_id (ts ! j)"
        using k n by (auto simp: IH in_set_conv_nth)
      then have "k = j" using nth_eq_iff_index_eq [OF dist, of k j] n k(2) by simp
      with \<open>j < n\<close> show ?thesis by simp
    qed
    have "n \<le> m"
    proof (rule ccontr)
      assume "\<not> n \<le> m"
      then have "order ! n \<in> set (take n order)"
        using m n by (auto simp: IH in_set_conv_nth intro!: exI [of _ m])
      with fresh show False by blast
    qed
    moreover have "m \<le> n"
    proof (cases "m = 0")
      case False
      have "set (spec_needs (ts ! m)) \<subseteq> set (take n order)"
        using ao m n len by (auto simp: authored_order_def)
      then have "spec_id (ts ! (m - 1)) \<in> set (take n order)"
        using ch m(1) False by (simp add: chained_def)
      then have "m - 1 < n" using m(1) by (intro in_take) simp_all
      then show ?thesis by linarith
    qed simp
    ultimately have "order ! n = map spec_id ts ! n" using m by simp
    then show ?case using IH n len by (simp add: take_Suc_conv_app_nth)
  qed
  from this [of "length ts"] show "order = map spec_id ts" using len by simp
qed

lemma chain_steps_chained:
  assumes "chain_steps None ss = Inr ts"
  shows "chained ts" and "map spec_id ts = map spec_id ss" and "map spec_job ts = map spec_job ss"
    and "ts = [] \<longleftrightarrow> ss = []" and "\<forall>s \<in> set ss. spec_needs s = []"
proof -
  have needs: "\<forall>s \<in> set ss. spec_needs s = []" and len: "length ts = length ss"
    and nth: "\<And>n. n < length ss \<Longrightarrow>
      ts ! n = (ss ! n)\<lparr>spec_needs := (if n = 0 then [] else [spec_id (ss ! (n - 1))])\<rparr>"
    using assms unfolding chain_steps_Inr_iff by simp_all
  show "\<forall>s \<in> set ss. spec_needs s = []" by (rule needs)
  show ids: "map spec_id ts = map spec_id ss" and "map spec_job ts = map spec_job ss"
    using len nth by (simp_all add: list_eq_iff_nth_eq)
  show "ts = [] \<longleftrightarrow> ss = []" using len by (metis length_0_conv)
  show "chained ts" using len nth by (simp add: chained_def)
qed

lemma chain_steps_total: "(\<forall>s \<in> set ss. spec_needs s = []) \<Longrightarrow> is_ok (chain_steps prev ss)"
proof (induction ss arbitrary: prev)
  case (Cons s ss)
  have "is_ok (chain_steps (Some (spec_id s)) ss)" using Cons.prems by (intro Cons.IH) simp
  with Cons.prems show ?case by (cases "chain_steps (Some (spec_id s)) ss") simp_all
qed simp

lemma chained_ok:
  assumes "chained ts"
  shows "list_all spec_ok ts \<longleftrightarrow> (\<forall>s \<in> set ts. valid_id (spec_id s))"
proof
  assume "list_all spec_ok ts"
  then show "\<forall>s \<in> set ts. valid_id (spec_id s)" by (auto simp: list_all_iff spec_ok_def)
next
  assume valid: "\<forall>s \<in> set ts. valid_id (spec_id s)"
  have "spec_ok (ts ! n)" if "n < length ts" for n
    using assms valid that by (cases n) (auto simp: chained_def spec_ok_def)
  then show "list_all spec_ok ts" by (simp add: list_all_length)
qed

definition pipeline_ok :: "'j workflow_builder \<Rightarrow> bool" where
  "pipeline_ok b \<longleftrightarrow>
     valid_id (builder_id b) \<and> valid_id (builder_version b) \<and> builder_steps b \<noteq> []
     \<and> (\<forall>s \<in> set (builder_steps b). spec_needs s = [] \<and> valid_id (spec_id s))
     \<and> distinct (map spec_id (builder_steps b))"

lemma pipeline_ok_chained:
  assumes "chain_steps None (builder_steps b) = Inr ts"
  shows "well_formed (builder_id b) (builder_version b) ts \<longleftrightarrow> pipeline_ok b"
proof -
  note ts = chain_steps_chained [OF assms]
  have "(\<forall>s \<in> set ts. valid_id (spec_id s)) \<longleftrightarrow> (\<forall>k \<in> set (map spec_id ts). valid_id k)" by simp
  also have "\<dots> \<longleftrightarrow> (\<forall>s \<in> set (builder_steps b). valid_id (spec_id s))" unfolding ts(2) by simp
  finally have "list_all spec_ok ts \<longleftrightarrow> (\<forall>s \<in> set (builder_steps b). valid_id (spec_id s))"
    unfolding chained_ok [OF ts(1)] .
  then show ?thesis
    using ts chained_authored_order [OF ts(1)] unfolding well_formed_def pipeline_ok_def by metis
qed

text \<open>A pipeline compiles exactly when its identifiers are valid, it has a step, no step carries
  dependencies of its own and no step name repeats; the steps then run in the order they were
  added.\<close>

theorem pipeline_build_order:
  "case pipeline_build b of
     None \<Rightarrow> False
   | Some (Inl _) \<Rightarrow> \<not> pipeline_ok b
   | Some (Inr d) \<Rightarrow> pipeline_ok b \<and> wf_order d = map spec_id (builder_steps b)"
proof (cases "chain_steps None (builder_steps b)")
  case (Inl e)
  then have "\<not> pipeline_ok b"
    using chain_steps_total [of "builder_steps b" None] by (auto simp: pipeline_ok_def)
  with Inl show ?thesis by (simp add: pipeline_build_def)
next
  case (Inr ts)
  note ts = chain_steps_chained [OF Inr]
  have order: "kahn_order (insert_all [] ts) = map spec_id (builder_steps b)"
    if "well_formed (builder_id b) (builder_version b) ts"
    using well_formed_order(1) [OF that] that ts chained_authored_order [OF ts(1)]
    by (simp add: well_formed_def authored_order_topological)
  obtain r where r: "compile (builder_id b) (builder_version b) ts = Some r"
    using compile_total_lemma by blast
  show ?thesis
  proof (cases r)
    case (Inl e)
    then show ?thesis
      using r Inr pipeline_ok_chained [OF Inr] compile_Inr [of "builder_id b" "builder_version b" ts]
      by (auto simp: pipeline_build_def)
  next
    case d: (Inr d)
    then show ?thesis
      using r Inr pipeline_ok_chained [OF Inr] order compile_Inr [of "builder_id b" "builder_version b" ts d]
      by (simp add: pipeline_build_def)
  qed
qed

text \<open>Identifiers are accepted unchanged exactly when they are not blank and carry no surrounding
  whitespace; an accepted identifier is accepted again, and trimming any non-blank text gives one
  that is.\<close>

theorem identifier_new_accepts:
  "(identifier_new kind s = Inr t \<longleftrightarrow> t = s \<and> trim s = s \<and> s \<noteq> [])
   \<and> (is_blank s \<or> identifier_new kind (trim s) = Inr (trim s))"
  by (auto simp: identifier_new_def is_blank_def)

end
