(* ===== verification/Workflow_Scheduling.thy ===== *)
theory Workflow_Scheduling
  imports Workflow_Execution Workflow_Authored
begin

text \<open>
  Correctness of the workflow runner of \<open>Workflow_Execution\<close>, for definitions that \<open>compile\<close>
  produced. The invariant \<open>run_ok\<close> relates the scheduler's collections to each other, to the
  dependency graph (through the interface \<open>dependency_graph\<close>) and to the history of launches,
  calls, settlements and stops; every choice of the environment preserves it.
\<close>

section \<open>The adjacency of a compiled definition\<close>

lemma link_needs_push:
  "link_needs sid ds out = Inr out' \<Longrightarrow> push_successors sid ds out = Some out'"
  by (induction sid ds out rule: link_needs.induct) (auto split: if_splits option.splits)

lemma link_steps_build: "link_steps ss out = Inr out' \<Longrightarrow> build_outgoing ss out = Some out'"
  by (induction ss arbitrary: out) (auto simp: and_then_eq_Inr link_needs_push)

lemma release_successors_eq: "release_successors ss remaining ready = relax ss remaining ready"
  by (induction ss remaining ready rule: relax.induct) (auto split: option.splits nat.splits)

lemma execute_outgoing_compiled:
  assumes "compiled d"
  obtains outgoing where "execute_outgoing d = Some outgoing" and "adjacency_ok (wf_steps d) outgoing"
proof -
  have wf: "steps_wf (wf_steps d)" and edges: "edges_ok (wf_steps d)"
    using compiled_facts [OF assms] by blast+
  obtain out where out: "link_steps (bt_values (wf_steps d)) (empty_outgoing (wf_steps d)) = Inr out"
    using edge_stage [OF wf] edges
    by (cases "link_steps (bt_values (wf_steps d)) (empty_outgoing (wf_steps d))") auto
  show thesis
    using that [of "sort_outgoing out"] link_steps_build [OF out] edge_stage_adjacency [OF wf out]
    by (simp add: execute_outgoing_def)
qed

section \<open>The invariant of the scheduler\<close>

definition flying :: "('i, 'j, 'o, 'e) run_state \<Rightarrow> step_id list" where
  "flying st = map fl_step (rs_in_flight st)"

definition finished :: "('i, 'j, 'o, 'e) run_state \<Rightarrow> step_id set" where
  "finished st = set (bt_keys (rs_outputs st))"

definition failed :: "('i, 'j, 'o, 'e) run_state \<Rightarrow> step_id list" where
  "failed st = map sf_step_id (rs_failures st)"

text \<open>Every step is in at most one of the scheduler's collections; \<open>lost\<close> are the steps whose
  dispatch observed cancellation before the call.\<close>

definition partition_ok :: "'j workflow_definition \<Rightarrow> nat \<Rightarrow> step_id set \<Rightarrow> ('i, 'j, 'o, 'e) run_state \<Rightarrow> bool" where
  "partition_ok d m lost st \<longleftrightarrow>
     bt_wf (rs_outputs st) \<and> distinct (flying st) \<and> distinct (failed st)
     \<and> sorted (rs_ready st) \<and> distinct (rs_ready st) \<and> length (flying st) \<le> m
     \<and> finished st \<union> set (flying st) \<union> set (rs_ready st) \<union> set (failed st) \<union> lost \<subseteq> set (graph_nodes d)
     \<and> finished st \<inter> set (flying st) = {} \<and> finished st \<inter> set (rs_ready st) = {}
     \<and> finished st \<inter> set (failed st) = {} \<and> finished st \<inter> lost = {}
     \<and> set (flying st) \<inter> set (rs_ready st) = {} \<and> set (flying st) \<inter> set (failed st) = {}
     \<and> set (flying st) \<inter> lost = {} \<and> set (rs_ready st) \<inter> set (failed st) = {}
     \<and> set (rs_ready st) \<inter> lost = {}
     \<and> (\<forall>k \<in> finished st \<union> set (flying st) \<union> set (rs_ready st) \<union> set (failed st) \<union> lost.
          set (graph_needs d k) \<subseteq> finished st)"

text \<open>An in-flight call is the call of its step, with the outputs its step needs.\<close>

definition call_of_step ::
  "('i, 'j) workflow_request \<Rightarrow> ('i, 'j, 'o, 'e) run_state \<Rightarrow> step_id \<Rightarrow> ('i, 'j, 'o) step_call \<Rightarrow> bool" where
  "call_of_step req st sid call \<longleftrightarrow>
     (\<exists>step deps n. wf_step (wreq_definition req) sid = Some step
        \<and> gather_dependencies (rs_outputs st) (def_needs step) = Some deps
        \<and> call = make_call req sid (def_job step) deps (child_token (run_token req) n))"

definition calls_ok :: "('i, 'j) workflow_request \<Rightarrow> ('i, 'j, 'o, 'e) run_state \<Rightarrow> bool" where
  "calls_ok req st \<longleftrightarrow> (\<forall>fl \<in> set (rs_in_flight st). call_of_step req st (fl_step fl) (fl_call fl))"

text \<open>While the run is not stopped, the counters and the ready set are those of Kahn's loop.\<close>

definition counts_ok :: "'j workflow_definition \<Rightarrow> step_id set \<Rightarrow> ('i, 'j, 'o, 'e) run_state \<Rightarrow> bool" where
  "counts_ok d lost st \<longleftrightarrow>
     (rs_stop st = None \<longrightarrow>
        rs_failures st = []
        \<and> (\<forall>k \<in> set (graph_nodes d). map_of (rs_remaining st) k = Some (missing (wf_steps d) (bt_keys (rs_outputs st)) k))
        \<and> (\<forall>k \<in> set (graph_nodes d). set (graph_needs d k) \<subseteq> finished st \<longrightarrow>
              k \<in> finished st \<union> set (flying st) \<union> set (rs_ready st) \<union> lost))"

text \<open>The tokens that are cancelled, and why.\<close>

definition tokens_ok :: "('i, 'j) workflow_request \<Rightarrow> instant \<Rightarrow> ('i, 'j, 'o, 'e) run_state \<Rightarrow> bool" where
  "tokens_ok req now st \<longleftrightarrow>
     (\<forall>t \<in> set (rs_cancelled st). \<not> strict_prefix (caller_token req) t \<or> t = run_token req)
     \<and> (run_token req \<in> set (rs_cancelled st) \<longleftrightarrow> rs_stop st \<noteq> None)
     \<and> (\<forall>fl \<in> set (rs_in_flight st). fl_state fl = Completed NotCalled \<longrightarrow>
          rs_stop st \<noteq> None \<or> is_cancelled (rs_cancelled st) (caller_token req))
     \<and> (rs_stop st = Some ExternalCancellation \<longrightarrow> is_cancelled (rs_cancelled st) (caller_token req))
     \<and> (rs_stop st = Some Deadline \<longrightarrow> deadline_passed req now)
     \<and> (rs_stop st = Some StepFailure \<longrightarrow> rs_failures st \<noteq> [])"

definition pc_ok ::
  "('i, 'j) workflow_request \<Rightarrow> nat \<Rightarrow> step_id set
     \<Rightarrow> (('e, 'o) workflow_failure + 'o workflow_outcome) program_point \<Rightarrow> ('i, 'j, 'o, 'e) run_state \<Rightarrow> bool" where
  "pc_ok req m lost pc st \<longleftrightarrow>
     (case pc of
        Filling \<Rightarrow>
          (rs_stop st = None \<and> lost \<noteq> {} \<longrightarrow>
             is_cancelled (rs_cancelled st) (caller_token req) \<and> length (flying st) < m)
      | Waiting \<Rightarrow> flying st \<noteq> [] \<and> (rs_stop st = None \<longrightarrow> lost = {})
      | Polling \<Rightarrow> flying st \<noteq> [] \<and> (rs_stop st = None \<longrightarrow> lost = {})
      | Returned r \<Rightarrow>
          flying st = [] \<and> execute_finish req st = Some r
          \<and> (rs_stop st = None \<longrightarrow> lost = {} \<and> rs_ready st = [])
      | Panicked \<Rightarrow> False)"

definition sched_ok ::
  "('i, 'j) workflow_request \<Rightarrow> nat \<Rightarrow> ('i, 'j, 'o, 'e) config \<Rightarrow> step_id set \<Rightarrow> bool" where
  "sched_ok req m c lost \<longleftrightarrow>
     (case c of (pc, now, st) \<Rightarrow>
        partition_ok (wreq_definition req) m lost st \<and> calls_ok req st
        \<and> counts_ok (wreq_definition req) lost st \<and> tokens_ok req now st \<and> pc_ok req m lost pc st)"

section \<open>Views after each state change\<close>

lemma flying_set_flight [simp]: "flying (set_flight st sid s) = flying st"
  by (simp add: flying_def set_flight_def comp_def if_distrib cong: if_cong)

lemma flying_drop_flight [simp]: "flying (drop_flight st sid) = filter (\<lambda>k. k \<noteq> sid) (flying st)"
  by (simp add: flying_def drop_flight_def filter_map comp_def)

lemma set_flight_sel [simp]:
  "rs_cancelled (set_flight st sid s) = rs_cancelled st"
  "rs_remaining (set_flight st sid s) = rs_remaining st"
  "rs_ready (set_flight st sid s) = rs_ready st"
  "rs_outputs (set_flight st sid s) = rs_outputs st"
  "rs_failures (set_flight st sid s) = rs_failures st"
  "rs_stop (set_flight st sid s) = rs_stop st"
  "finished (set_flight st sid s) = finished st"
  "failed (set_flight st sid s) = failed st"
  by (simp_all add: set_flight_def finished_def failed_def)

lemma drop_flight_sel [simp]:
  "rs_cancelled (drop_flight st sid) = rs_cancelled st"
  "rs_remaining (drop_flight st sid) = rs_remaining st"
  "rs_ready (drop_flight st sid) = rs_ready st"
  "rs_outputs (drop_flight st sid) = rs_outputs st"
  "rs_failures (drop_flight st sid) = rs_failures st"
  "rs_stop (drop_flight st sid) = rs_stop st"
  "finished (drop_flight st sid) = finished st"
  "failed (drop_flight st sid) = failed st"
  by (simp_all add: drop_flight_def finished_def failed_def)

lemma stop_run_sel [simp]:
  "rs_cancelled (stop_run req r st) = run_token req # rs_cancelled st"
  "rs_remaining (stop_run req r st) = rs_remaining st"
  "rs_ready (stop_run req r st) = rs_ready st"
  "rs_outputs (stop_run req r st) = rs_outputs st"
  "rs_failures (stop_run req r st) = rs_failures st"
  "rs_in_flight (stop_run req r st) = rs_in_flight st"
  "rs_stop (stop_run req r st) = Some r"
  "finished (stop_run req r st) = finished st"
  "failed (stop_run req r st) = failed st"
  "flying (stop_run req r st) = flying st"
  by (simp_all add: stop_run_def finished_def failed_def flying_def)

lemma in_flight_set_flight:
  "fl \<in> set (rs_in_flight (set_flight st sid s)) \<longleftrightarrow>
     (\<exists>fl' \<in> set (rs_in_flight st). fl = (if fl_step fl' = sid then fl'\<lparr>fl_state := s\<rparr> else fl'))"
proof -
  have "rs_in_flight (set_flight st sid s) =
      map (\<lambda>fl. if fl_step fl = sid then fl\<lparr>fl_state := s\<rparr> else fl) (rs_in_flight st)"
    by (simp add: set_flight_def)
  then show ?thesis by (simp only: set_map image_iff)
qed

lemma in_flight_drop_flight:
  "fl \<in> set (rs_in_flight (drop_flight st sid)) \<longleftrightarrow> fl \<in> set (rs_in_flight st) \<and> fl_step fl \<noteq> sid"
  by (auto simp: drop_flight_def)

lemma find_flight_Some:
  "find_flight st sid = Some fl \<Longrightarrow> fl \<in> set (rs_in_flight st) \<and> fl_step fl = sid"
  by (auto simp: find_flight_def find_Some_iff)

lemma find_flight_flying: "find_flight st sid = Some fl \<Longrightarrow> sid \<in> set (flying st)"
  by (force dest: find_flight_Some simp: flying_def)

section \<open>Tokens\<close>

lemma not_prefix_run [simp]: "\<not> prefix (run_token req) (caller_token req)"
  by (simp add: run_token_def child_token_def prefix_def)

lemma strict_prefix_run: "strict_prefix (caller_token req) (run_token req)"
  by (simp add: run_token_def child_token_def strict_prefix_def)

lemma is_cancelled_caller_stop [simp]:
  "is_cancelled (run_token req # cs) (caller_token req) = is_cancelled cs (caller_token req)"
  by (simp add: is_cancelled_Cons)

text \<open>A step's token is cancelled exactly when the caller cancelled or the run is stopped.\<close>

lemma step_token_cancelled:
  assumes "tokens_ok req now st"
  shows "is_cancelled (rs_cancelled st) (child_token (run_token req) n) \<longleftrightarrow>
    rs_stop st \<noteq> None \<or> is_cancelled (rs_cancelled st) (caller_token req)"
proof
  assume "is_cancelled (rs_cancelled st) (child_token (run_token req) n)"
  then obtain t where t: "t \<in> set (rs_cancelled st)" "prefix t (caller_token req @ [0, n])"
    by (auto simp: is_cancelled_def list_ex_iff run_token_def child_token_def)
  then have "\<not> strict_prefix (caller_token req) t \<or> t = run_token req"
    using assms by (simp add: tokens_ok_def)
  then consider "prefix t (caller_token req)" | "t = run_token req"
    using t(2) by (auto simp: prefix_append strict_prefix_def)
  then show "rs_stop st \<noteq> None \<or> is_cancelled (rs_cancelled st) (caller_token req)"
    using t(1) assms by cases (auto simp: tokens_ok_def is_cancelled_def list_ex_iff)
next
  assume "rs_stop st \<noteq> None \<or> is_cancelled (rs_cancelled st) (caller_token req)"
  then have "is_cancelled (rs_cancelled st) (run_token req)"
  proof
    assume "rs_stop st \<noteq> None"
    then have "run_token req \<in> set (rs_cancelled st)" using assms by (simp add: tokens_ok_def)
    then show ?thesis by (auto simp: is_cancelled_def list_ex_iff)
  next
    assume "is_cancelled (rs_cancelled st) (caller_token req)"
    then show ?thesis unfolding run_token_def by (rule is_cancelled_child)
  qed
  then show "is_cancelled (rs_cancelled st) (child_token (run_token req) n)" by (rule is_cancelled_child)
qed

section \<open>Preservation\<close>

lemma gather_cong:
  "(\<And>k. k \<in> set ds \<Longrightarrow> map_of o1 k = map_of o2 k) \<Longrightarrow> gather_dependencies o1 ds = gather_dependencies o2 ds"
  by (induction ds) (auto split: option.splits)

lemma gather_Some:
  "gather_dependencies outputs ds = Some deps \<Longrightarrow>
     bt_wf deps \<and> (\<forall>k. map_of deps k = (if k \<in> set ds then map_of outputs k else None))"
proof (induction ds arbitrary: deps)
  case Nil
  then show ?case by simp
next
  case (Cons d ds)
  then obtain v rest where v: "map_of outputs d = Some v" and rest: "gather_dependencies outputs ds = Some rest"
    and deps: "deps = bt_insert d v rest"
    by (auto split: option.splits)
  with Cons.IH [OF rest] show ?case by (auto simp: bt_wf_insert map_of_bt_insert)
qed

lemma gather_total: "(\<forall>k \<in> set ds. map_of outputs k \<noteq> None) \<Longrightarrow> \<exists>deps. gather_dependencies outputs ds = Some deps"
  by (induction ds) (auto split: option.splits)

lemma missing_cong: "set xs = set ys \<Longrightarrow> missing steps xs k = missing steps ys k"
  by (simp add: missing_def)

text \<open>Steps that only touch tokens and the clock.\<close>

lemma sched_ok_cancel:
  assumes "sched_ok req m (pc, now, st) lost" and "prefix t (caller_token req)"
  shows "sched_ok req m (pc, now + n, st\<lparr>rs_cancelled := t # rs_cancelled st\<rparr>) lost"
    and "sched_ok req m (pc, now + n, st) lost"
proof -
  let ?st = "st\<lparr>rs_cancelled := t # rs_cancelled st\<rparr>"
  have views: "flying ?st = flying st" "finished ?st = finished st" "failed ?st = failed st"
    by (simp_all add: flying_def finished_def failed_def)
  have fin: "execute_finish req ?st = execute_finish req st" 
    by (simp add: execute_finish_def Let_def split: option.splits stop_reason.splits)
  have mono: "is_cancelled (t # rs_cancelled st) u" if "is_cancelled (rs_cancelled st) u" for u
    using that by (simp add: is_cancelled_Cons)
  have later: "deadline_passed req now \<Longrightarrow> deadline_passed req (now + n)"
    by (auto simp: deadline_passed_def split: option.splits)
  have "t \<noteq> run_token req" using assms(2) not_prefix_run by auto
  moreover have "\<not> strict_prefix (caller_token req) t" using assms(2) by (meson prefix_order.leD)
  ultimately have "tokens_ok req (now + n) ?st"
    using assms(1) mono later by (auto simp: sched_ok_def tokens_ok_def split: option.splits stop_reason.splits)
  moreover have "pc_ok req m lost pc ?st"
    using assms(1) mono by (auto simp: sched_ok_def pc_ok_def views fin split: program_point.splits)
  ultimately show "sched_ok req m (pc, now + n, ?st) lost"
    using assms(1) by (simp add: sched_ok_def partition_ok_def calls_ok_def counts_ok_def call_of_step_def views)
  have "tokens_ok req (now + n) st"
    using assms(1) later by (auto simp: sched_ok_def tokens_ok_def split: option.splits stop_reason.splits)
  then show "sched_ok req m (pc, now + n, st) lost"
    using assms(1) by (simp add: sched_ok_def)
qed

text \<open>Latching a stop reason.\<close>

lemma stop_run_ok:
  assumes "partition_ok d m lost st" and "calls_ok req st" and "tokens_ok req now st" and "rs_stop st = None"
    and "case r of ExternalCancellation \<Rightarrow> is_cancelled (rs_cancelled st) (caller_token req)
         | Deadline \<Rightarrow> deadline_passed req now | StepFailure \<Rightarrow> rs_failures st \<noteq> []"
  shows "partition_ok d m lost (stop_run req r st)" and "calls_ok req (stop_run req r st)"
    and "counts_ok d lost (stop_run req r st)" and "tokens_ok req now (stop_run req r st)"
  using assms
  by (auto simp: partition_ok_def calls_ok_def call_of_step_def counts_ok_def tokens_ok_def
      split: stop_reason.splits)

text \<open>A dispatch future advances.\<close>

lemma set_flight_ok:
  assumes ok: "sched_ok req m (Polling, now, st) lost"
    and "s = Completed NotCalled \<Longrightarrow> rs_stop st \<noteq> None \<or> is_cancelled (rs_cancelled st) (caller_token req)"
  shows "sched_ok req m (Polling, now, set_flight st sid s) lost"
proof -
  have parts: "partition_ok (wreq_definition req) m lost st" "calls_ok req st"
    "counts_ok (wreq_definition req) lost st" "tokens_ok req now st" "pc_ok req m lost Polling st"
    using ok by (simp_all add: sched_ok_def)
  have "calls_ok req (set_flight st sid s)"
    using parts(2) by (auto simp: calls_ok_def in_flight_set_flight call_of_step_def)
  moreover have "tokens_ok req now (set_flight st sid s)"
    using parts(4) assms(2) unfolding tokens_ok_def by (auto simp: in_flight_set_flight split: if_splits)
  ultimately show ?thesis
    using parts by (simp add: sched_ok_def partition_ok_def counts_ok_def pc_ok_def)
qed

text \<open>A step is launched.\<close>

lemma wf_step_graph:
  assumes "compiled d" and "wf_step d sid = Some step"
  shows "def_id step = sid" and "set (def_needs step) = set (graph_needs d sid)" and "sid \<in> set (graph_nodes d)"
  using assms compiled_facts(1) [OF assms(1)]
  by (auto simp: wf_step_def steps_wf_def graph_needs_def needs_of_def graph_nodes_def bt_keys_eq_dom dest: map_of_SomeD)

lemma wf_step_node: "sid \<in> set (graph_nodes d) \<Longrightarrow> \<exists>step. wf_step d sid = Some step"
  by (auto simp: wf_step_def graph_nodes_def bt_keys_eq_dom)

lemma fill_iteration_ok:
  assumes d: "compiled (wreq_definition req)" and ok: "sched_ok req m (Filling, now, st) lost" and m: "0 < m"
  shows "case fill_iteration req m now st of
      FillPanic \<Rightarrow> False
    | FillContinue st' sid \<Rightarrow>
        sched_ok req m (Filling, now, st') lost \<and> sid \<in> set (rs_ready st) \<and> flying st' = flying st @ [sid]
        \<and> rs_stop st' = None \<and> lost = {}
    | FillBreak st' \<Rightarrow>
        partition_ok (wreq_definition req) m lost st' \<and> calls_ok req st' \<and> counts_ok (wreq_definition req) lost st'
        \<and> tokens_ok req now st' \<and> flying st' = flying st
        \<and> (rs_stop st' = None \<longrightarrow> lost = {} \<and> (flying st' = [] \<longrightarrow> rs_ready st' = []))"
proof -
  let ?d = "wreq_definition req"
  have parts: "partition_ok ?d m lost st" "calls_ok req st" "counts_ok ?d lost st" "tokens_ok req now st"
    "pc_ok req m lost Filling st"
    using ok by (simp_all add: sched_ok_def)
  have len: "length (rs_in_flight st) = length (flying st)" by (simp add: flying_def)
  consider (stopped) "rs_stop st \<noteq> None \<or> m \<le> length (rs_in_flight st)"
    | (cancelled) "rs_stop st = None" "length (rs_in_flight st) < m" "is_cancelled (rs_cancelled st) (caller_token req)"
    | (late) "rs_stop st = None" "length (rs_in_flight st) < m" "\<not> is_cancelled (rs_cancelled st) (caller_token req)"
        "deadline_passed req now"
    | (idle) "rs_stop st = None" "length (rs_in_flight st) < m" "\<not> is_cancelled (rs_cancelled st) (caller_token req)"
        "\<not> deadline_passed req now" "rs_ready st = []"
    | (launch) sid ready where "rs_stop st = None" "length (rs_in_flight st) < m"
        "\<not> is_cancelled (rs_cancelled st) (caller_token req)" "\<not> deadline_passed req now" "rs_ready st = sid # ready"
    by (cases "rs_ready st") fastforce+
  then show ?thesis
  proof cases
    case stopped
    then have "rs_stop st = None \<Longrightarrow> lost = {} \<and> flying st \<noteq> []"
      using parts(5) m by (auto simp: pc_ok_def len)
    with stopped parts show ?thesis by (auto simp: fill_iteration_def)
  next
    case cancelled
    then show ?thesis
      using stop_run_ok [OF parts(1,2,4), of ExternalCancellation] by (simp add: fill_iteration_def)
  next
    case late
    then show ?thesis
      using stop_run_ok [OF parts(1,2,4), of Deadline] by (simp add: fill_iteration_def)
  next
    case idle
    then have "lost = {}" using parts(5) by (auto simp: pc_ok_def)
    with idle parts show ?thesis by (simp add: fill_iteration_def)
  next
    case launch
    have lost: "lost = {}" using launch parts(5) by (auto simp: pc_ok_def)
    have sid: "sid \<in> set (graph_nodes ?d)" "set (graph_needs ?d sid) \<subseteq> finished st"
      using launch parts(1) by (auto simp: partition_ok_def)
    obtain step where step: "wf_step ?d sid = Some step" using wf_step_node [OF sid(1)] by blast
    have "\<forall>k \<in> set (def_needs step). map_of (rs_outputs st) k \<noteq> None"
      using sid(2) wf_step_graph(2) [OF d step] by (auto simp: finished_def bt_keys_eq_dom)
    then obtain deps where deps: "gather_dependencies (rs_outputs st) (def_needs step) = Some deps"
      using gather_total by blast
    let ?fl = "\<lparr>fl_step = sid, fl_call = make_call req sid (def_job step) deps (child_token (run_token req) (rs_next_child st)),
        fl_state = Readying\<rparr>"
    let ?st = "st\<lparr>rs_ready := ready, rs_next_child := Suc (rs_next_child st), rs_in_flight := rs_in_flight st @ [?fl]\<rparr>"
    have run: "fill_iteration req m now st = FillContinue ?st sid"
      using launch step deps by (simp add: fill_iteration_def Let_def)
    have views: "flying ?st = flying st @ [sid]" "finished ?st = finished st" "failed ?st = failed st"
      by (simp_all add: flying_def finished_def failed_def)
    have "partition_ok ?d m lost ?st"
      using parts(1) launch(2,5) by (auto simp: partition_ok_def views len)
    moreover have "calls_ok req ?st"
      using parts(2) step deps by (auto simp: calls_ok_def call_of_step_def)
    moreover have "counts_ok ?d lost ?st"
      using parts(3) launch(5) by (auto simp: counts_ok_def views)
    moreover have "tokens_ok req now ?st"
      using parts(4) by (auto simp: tokens_ok_def)
    ultimately have "sched_ok req m (Filling, now, ?st) lost"
      using lost by (simp add: sched_ok_def pc_ok_def)
    then show ?thesis using launch lost by (simp add: run views)
  qed
qed

lemma bt_keys_bt_insert_length: "bt_wf m \<Longrightarrow> k \<notin> set (bt_keys m) \<Longrightarrow> length (bt_insert k v m) = Suc (length m)"
proof -
  assume "bt_wf m" and "k \<notin> set (bt_keys m)"
  moreover have "length xs = card (set (bt_keys xs))" if "bt_wf xs" for xs :: "('a \<times> 'b) list"
    using bt_wf_distinct [OF that] distinct_card [of "map fst xs"] by (simp add: bt_keys_def)
  ultimately show ?thesis by (simp add: bt_wf_insert set_bt_insert_keys)
qed

lemma length_drop_flight:
  assumes "distinct (flying st)" and "sid \<in> set (flying st)"
  shows "Suc (length (filter (\<lambda>k. k \<noteq> sid) (flying st))) = length (flying st)"
proof -
  have "filter (\<lambda>k. k \<noteq> sid) (flying st) = remove1 sid (flying st)"
    using assms(1) by (simp add: distinct_remove1_removeAll removeAll_filter_not_eq) (metis)
  moreover have "length (flying st) > 0" using assms(2) by (cases "flying st") auto
  ultimately show ?thesis using assms(2) by (simp add: length_remove1)
qed

lemma gather_present: "k \<in> set ds \<Longrightarrow> gather_dependencies outputs ds = Some deps \<Longrightarrow> map_of outputs k \<noteq> None"
  by (induction ds arbitrary: deps) (auto split: option.splits)

lemma call_of_step_insert:
  assumes "call_of_step req st sid call" and fresh: "k \<notin> finished st"
    and "rs_outputs st' = bt_insert k v (rs_outputs st)" and "bt_wf (rs_outputs st)"
  shows "call_of_step req st' sid call"
proof -
  obtain step deps n where step: "wf_step (wreq_definition req) sid = Some step"
    and deps: "gather_dependencies (rs_outputs st) (def_needs step) = Some deps"
    and call: "call = make_call req sid (def_job step) deps (child_token (run_token req) n)"
    using assms(1) by (auto simp: call_of_step_def)
  have "k \<notin> set (def_needs step)"
  proof
    assume "k \<in> set (def_needs step)"
    then have "map_of (rs_outputs st) k \<noteq> None"
      using deps by (rule gather_present)
    with fresh show False by (auto simp: finished_def bt_keys_eq_dom)
  qed
  then have "gather_dependencies (rs_outputs st') (def_needs step) = gather_dependencies (rs_outputs st) (def_needs step)"
    using assms(3,4) by (intro gather_cong) (auto simp: map_of_bt_insert)
  with step deps call show ?thesis by (auto simp: call_of_step_def)
qed

lemma partition_needs:
  "partition_ok d m lost st \<Longrightarrow>
     k \<in> finished st \<union> set (flying st) \<union> set (rs_ready st) \<union> set (failed st) \<union> lost \<Longrightarrow>
     set (graph_needs d k) \<subseteq> finished st"
  by (simp add: partition_ok_def)

text \<open>What taking the flight of \<open>sid\<close> out of the set leaves.\<close>

lemma drop_flight_parts:
  assumes "sched_ok req m (Polling, now, st) lost" and fl: "find_flight st sid = Some fl"
  shows "partition_ok (wreq_definition req) m lost (drop_flight st sid)"
    and "calls_ok req (drop_flight st sid)" and "tokens_ok req now (drop_flight st sid)"
    and "sid \<in> set (graph_nodes (wreq_definition req))" and "sid \<notin> finished st" and "sid \<notin> set (rs_ready st)"
    and "sid \<notin> set (failed st)" and "sid \<notin> lost" and "sid \<in> set (flying st)"
    and "length (flying (drop_flight st sid)) < m"
    and "set (graph_needs (wreq_definition req) sid) \<subseteq> finished st"
proof -
  have parts: "partition_ok (wreq_definition req) m lost st" "calls_ok req st" "tokens_ok req now st"
    using assms(1) by (simp_all add: sched_ok_def)
  show fly: "sid \<in> set (flying st)" using fl by (rule find_flight_flying)
  have dist: "distinct (flying st)" using parts(1) by (simp add: partition_ok_def)
  show len: "length (flying (drop_flight st sid)) < m"
    using length_drop_flight [OF dist fly] parts(1) by (simp add: partition_ok_def)
  show "partition_ok (wreq_definition req) m lost (drop_flight st sid)"
    using parts(1) len by (auto simp: partition_ok_def)
  show "calls_ok req (drop_flight st sid)"
    using parts(2) by (auto simp: calls_ok_def call_of_step_def in_flight_drop_flight)
  show "tokens_ok req now (drop_flight st sid)"
    using parts(3) by (auto simp: tokens_ok_def in_flight_drop_flight)
  show "sid \<in> set (graph_nodes (wreq_definition req))" "sid \<notin> finished st" "sid \<notin> set (rs_ready st)"
    "sid \<notin> set (failed st)" "sid \<notin> lost"
    using parts(1) fly by (auto simp: partition_ok_def)
  show "set (graph_needs (wreq_definition req) sid) \<subseteq> finished st"
    using partition_needs [OF parts(1), of sid] fly by simp
qed

lemma settle_not_called_ok:
  assumes ok: "sched_ok req m (Polling, now, st) lost" and fl: "find_flight st sid = Some fl"
    and state: "fl_state fl = Completed NotCalled"
  shows "sched_ok req m (Filling, now, drop_flight st sid) (insert sid lost)"
proof -
  note drop = drop_flight_parts [OF ok fl]
  have tok: "tokens_ok req now st" and counts: "counts_ok (wreq_definition req) lost st"
    using ok by (simp_all add: sched_ok_def)
  have "partition_ok (wreq_definition req) m (insert sid lost) (drop_flight st sid)"
    using drop by (auto simp: partition_ok_def)
  moreover have "counts_ok (wreq_definition req) (insert sid lost) (drop_flight st sid)"
    using counts by (auto simp: counts_ok_def)
  moreover have "rs_stop st \<noteq> None \<or> is_cancelled (rs_cancelled st) (caller_token req)"
    using tok find_flight_Some [OF fl] state unfolding tokens_ok_def by blast
  ultimately show ?thesis
    using drop by (auto simp: sched_ok_def pc_ok_def)
qed

lemma settle_error_ok:
  assumes ok: "sched_ok req m (Polling, now, st) lost" and fl: "find_flight st sid = Some fl"
  shows "\<exists>st'. settle req outgoing (drop_flight st sid) sid (Settled (Inl e)) = Some st'
    \<and> sched_ok req m (Filling, now, st') lost"
proof -
  note drop = drop_flight_parts [OF ok fl]
  let ?st = "(drop_flight st sid)\<lparr>rs_failures := rs_failures st @ [\<lparr>sf_step_id = sid, sf_error = e\<rparr>]\<rparr>"
  have views: "flying ?st = flying (drop_flight st sid)" "finished ?st = finished st" "failed ?st = failed st @ [sid]"
    by (simp_all add: flying_def finished_def failed_def drop_flight_def)
  have part: "partition_ok (wreq_definition req) m lost ?st"
    using drop by (auto simp: partition_ok_def views)
  have calls: "calls_ok req ?st"
    using drop(2) by (auto simp: calls_ok_def call_of_step_def)
  have tok: "tokens_ok req now ?st"
    using drop(3) by (auto simp: tokens_ok_def)
  show ?thesis
  proof (cases "rs_stop st")
    case None
    then show ?thesis
      using stop_run_ok [OF part calls tok, of StepFailure]
      by (simp add: settle_def Let_def sched_ok_def pc_ok_def)
  next
    case (Some r)
    then show ?thesis
      using part calls tok by (simp add: settle_def Let_def sched_ok_def pc_ok_def counts_ok_def)
  qed
qed

lemma settle_output_ok:
  assumes d: "compiled (wreq_definition req)" and ok: "sched_ok req m (Polling, now, st) lost"
    and fl: "find_flight st sid = Some fl" and adj: "adjacency_ok (wf_steps (wreq_definition req)) outgoing"
  shows "\<exists>st'. settle req outgoing (drop_flight st sid) sid (Settled (Inr v)) = Some st'
    \<and> sched_ok req m (Filling, now, st') lost"
proof -
  let ?d = "wreq_definition req"
  let ?steps = "wf_steps ?d"
  note drop = drop_flight_parts [OF ok fl]
  let ?st0 = "drop_flight st sid"
  let ?st1 = "?st0\<lparr>rs_outputs := bt_insert sid v (rs_outputs st)\<rparr>"
  have bt: "bt_wf (rs_outputs st)" using drop(1) by (simp add: partition_ok_def)
  have views: "flying ?st1 = flying ?st0" "finished ?st1 = insert sid (finished st)" "failed ?st1 = failed st"
    by (simp_all add: flying_def finished_def failed_def set_bt_insert_keys drop_flight_def)
  have calls: "calls_ok req ?st1"
    unfolding calls_ok_def
  proof
    fix g
    assume "g \<in> set (rs_in_flight ?st1)"
    then have "call_of_step req ?st0 (fl_step g) (fl_call g)" using drop(2) by (simp add: calls_ok_def)
    then show "call_of_step req ?st1 (fl_step g) (fl_call g)"
      by (rule call_of_step_insert [where k = sid and v = v]) (use drop bt in simp_all)
  qed
  have tok: "tokens_ok req now ?st1" using drop(3) by (auto simp: tokens_ok_def)
  have part: "partition_ok ?d m lost ?st1"
  proof -
    have "\<forall>k \<in> insert sid (finished st) \<union> set (flying ?st0) \<union> set (rs_ready st) \<union> set (failed st) \<union> lost.
        set (graph_needs ?d k) \<subseteq> insert sid (finished st)"
      using partition_needs [OF drop(1)] drop(11) by (auto simp del: flying_drop_flight)
    moreover have "sid \<notin> set (flying ?st0)" by simp
    ultimately show ?thesis
      using drop(1,4,6,7,8) bt unfolding partition_ok_def views
      by (simp add: bt_wf_insert Int_insert_left del: flying_drop_flight)
  qed
  show ?thesis
  proof (cases "rs_stop st")
    case (Some r)
    then show ?thesis
      using part calls tok by (simp add: settle_def Let_def sched_ok_def pc_ok_def counts_ok_def)
  next
    case None
    have counts: "counts_ok ?d lost st" and pc: "pc_ok req m lost Polling st"
      using ok by (simp_all add: sched_ok_def)
    have lost: "lost = {}" using pc None by (simp add: pc_ok_def)
    have wf: "steps_wf ?steps" by (rule compiled_facts(1) [OF d])
    obtain ss where ss: "map_of outgoing sid = Some ss" "distinct ss"
      "set ss = {s \<in> set (graph_nodes ?d). sid \<in> set (graph_needs ?d s)}"
      using adj drop(4) unfolding adjacency_ok_def graph_nodes_def graph_needs_def by blast
    let ?ord = "bt_keys (rs_outputs st)"
    have rem: "map_of (rs_remaining st) k = Some (missing ?steps ?ord k)" if "k \<in> set (graph_nodes ?d)" for k
      using counts None that by (simp add: counts_ok_def)
    have fresh: "sid \<notin> set ?ord" using drop(5) by (simp add: finished_def)
    have miss: "missing ?steps (bt_keys (bt_insert sid v (rs_outputs st))) k
        = (if sid \<in> set (graph_needs ?d k) then missing ?steps ?ord k - 1 else missing ?steps ?ord k)"
      and pos: "sid \<in> set (graph_needs ?d k) \<Longrightarrow> 0 < missing ?steps ?ord k" for k
    proof -
      have "missing ?steps (bt_keys (bt_insert sid v (rs_outputs st))) k = missing ?steps (?ord @ [sid]) k"
        by (rule missing_cong) (simp add: set_bt_insert_keys)
      then show "missing ?steps (bt_keys (bt_insert sid v (rs_outputs st))) k
        = (if sid \<in> set (graph_needs ?d k) then missing ?steps ?ord k - 1 else missing ?steps ?ord k)"
        using missing_snoc(1) [OF needs_of_wf [OF wf] fresh] by (simp add: graph_needs_def)
      show "sid \<in> set (graph_needs ?d k) \<Longrightarrow> 0 < missing ?steps ?ord k"
        using missing_snoc(2) [OF needs_of_wf [OF wf] fresh] by (simp add: graph_needs_def)
    qed
    have "\<forall>s \<in> set ss. \<exists>c. map_of (rs_remaining st) s = Some (Suc c)"
      using ss(3) rem pos by (metis (no_types, lifting) gr0_implies_Suc mem_Collect_eq)
    then obtain remaining ready where run: "relax ss (rs_remaining st) (rs_ready st) = Some (remaining, ready)"
      and vals: "\<forall>k. map_of remaining k = map_option (\<lambda>c. if k \<in> set ss then c - 1 else c) (map_of (rs_remaining st) k)"
      and rset: "set ready = set (rs_ready st) \<union> {k \<in> set ss. map_of (rs_remaining st) k = Some 1}"
      and ord: "sorted (rs_ready st) \<longrightarrow> sorted ready" "distinct (rs_ready st) \<longrightarrow> distinct ready"
      using relax_spec [OF ss(2)] by blast
    let ?st2 = "?st1\<lparr>rs_remaining := remaining, rs_ready := ready\<rparr>"
    have run2: "settle req outgoing ?st0 sid (Settled (Inr v)) = Some ?st2"
      using None ss(1) run by (simp add: settle_def Let_def release_successors_eq)
    have views2: "flying ?st2 = flying ?st0" "finished ?st2 = insert sid (finished st)" "failed ?st2 = failed st"
      using views by (simp_all add: flying_def finished_def failed_def)
    have needs0: "missing ?steps ?ord k = 0 \<longleftrightarrow> set (graph_needs ?d k) \<subseteq> finished st" for k
      by (simp add: missing_0_iff graph_needs_def finished_def)
    have new: "k \<in> set (graph_nodes ?d) \<and> sid \<in> set (graph_needs ?d k) \<and> missing ?steps ?ord k = 1
        \<and> set (graph_needs ?d k) \<subseteq> insert sid (finished st) \<and> \<not> set (graph_needs ?d k) \<subseteq> finished st"
      if k: "k \<in> set ss" "map_of (rs_remaining st) k = Some 1" for k
    proof -
      have k': "k \<in> set (graph_nodes ?d)" "sid \<in> set (graph_needs ?d k)" "missing ?steps ?ord k = 1"
        using k ss(3) rem by auto
      then have "missing ?steps (bt_keys (bt_insert sid v (rs_outputs st))) k = 0" by (simp add: miss)
      then have "set (graph_needs ?d k) \<subseteq> insert sid (finished st)"
        by (simp add: missing_0_iff graph_needs_def set_bt_insert_keys finished_def)
      with k' needs0 [of k] show ?thesis by auto
    qed
    have old: "k \<notin> set ss \<or> map_of (rs_remaining st) k \<noteq> Some 1"
      if "k \<in> insert sid (finished st \<union> set (flying st) \<union> set (rs_ready st) \<union> set (failed st) \<union> lost)" for k
      using that new [of k] drop(1,9) partition_needs [of ?d m lost st k] ok by (auto simp: sched_ok_def)
    have part2: "partition_ok ?d m lost ?st2"
    proof -
      have ready: "k \<in> set (rs_ready st) \<or> k \<in> set ss \<and> map_of (rs_remaining st) k = Some 1" if "k \<in> set ready" for k
        using rset that by blast
      have apart: "set (rs_ready st) \<subseteq> set (graph_nodes ?d)" "finished st \<inter> set (rs_ready st) = {}"
        "set (flying ?st0) \<inter> set (rs_ready st) = {}" "set (rs_ready st) \<inter> set (failed st) = {}"
        using drop(1) unfolding partition_ok_def drop_flight_sel by simp_all
      have nodes: "set ready \<subseteq> set (graph_nodes ?d)"
        using ready new apart(1) by blast
      have "k \<notin> insert sid (finished st) \<union> set (flying ?st0) \<union> set (failed st)" if "k \<in> set ready" for k
        using ready [OF that] old [of k] apart(2-4) drop(6) by auto
      then have disj: "insert sid (finished st) \<inter> set ready = {}" "set (flying ?st0) \<inter> set ready = {}"
        "set ready \<inter> set (failed st) = {}" by blast+
      have needs: "set (graph_needs ?d k) \<subseteq> insert sid (finished st)" if "k \<in> set ready" for k
        using ready [OF that] new [of k] partition_needs [OF drop(1), of k] by auto
      have sorted: "sorted ready" "distinct ready"
        using ord drop(1) by (simp_all add: partition_ok_def)
      have "partition_ok ?d m lost (?st1\<lparr>rs_ready := ready\<rparr>)"
      proof -
        have "flying (?st1\<lparr>rs_ready := ready\<rparr>) = flying ?st1" "finished (?st1\<lparr>rs_ready := ready\<rparr>) = finished ?st1"
          "failed (?st1\<lparr>rs_ready := ready\<rparr>) = failed ?st1"
          by (simp_all add: flying_def finished_def failed_def)
        with part nodes disj needs sorted show ?thesis
          unfolding partition_ok_def views by (simp add: lost ball_Un del: flying_drop_flight)
      qed
      then show ?thesis
        by (simp add: partition_ok_def flying_def finished_def failed_def)
    qed
    have "map_of remaining k = Some (missing ?steps (bt_keys (bt_insert sid v (rs_outputs st))) k)"
      if "k \<in> set (graph_nodes ?d)" for k
      using vals rem [OF that] ss(3) that by (simp add: miss)
    moreover have "k \<in> insert sid (finished st) \<union> set (flying ?st0) \<union> set ready"
      if k: "k \<in> set (graph_nodes ?d)" "set (graph_needs ?d k) \<subseteq> insert sid (finished st)" for k
    proof (cases "set (graph_needs ?d k) \<subseteq> finished st")
      case True
      then have "k \<in> finished st \<union> set (flying st) \<union> set (rs_ready st)"
        using counts None k(1) lost unfolding counts_ok_def by blast
      then show ?thesis using rset by auto
    next
      case False
      then have sid: "sid \<in> set (graph_needs ?d k)" using k(2) by blast
      have "missing ?steps (bt_keys (bt_insert sid v (rs_outputs st))) k = 0"
        using k(2) by (simp add: missing_0_iff graph_needs_def set_bt_insert_keys finished_def)
      then have "missing ?steps ?ord k = 1" using pos [OF sid] sid by (simp add: miss)
      then have "k \<in> set ready" using rset ss(3) sid k(1) rem [OF k(1)] by simp
      then show ?thesis by simp
    qed
    moreover have "rs_failures st = []" using counts None by (simp add: counts_ok_def)
    ultimately have "counts_ok ?d lost ?st2"
      by (simp add: counts_ok_def views2 views) blast
    moreover have "calls_ok req ?st2" using calls by (simp add: calls_ok_def call_of_step_def)
    moreover have "tokens_ok req now ?st2" using tok by (simp add: tokens_ok_def)
    ultimately have "sched_ok req m (Filling, now, ?st2) lost"
      using part2 lost by (simp add: sched_ok_def pc_ok_def)
    with run2 show ?thesis by blast
  qed
qed

section \<open>The history of a run\<close>

fun launches :: "('i, 'j, 'o, 'e) action list \<Rightarrow> step_id list" where
  "launches [] = []"
| "launches (Launched sid # acts) = sid # launches acts"
| "launches (_ # acts) = launches acts"

fun calls :: "('i, 'j, 'o, 'e) action list \<Rightarrow> ('i, 'j, 'o) step_call list" where
  "calls [] = []"
| "calls (Call call # acts) = call # calls acts"
| "calls (_ # acts) = calls acts"

fun takes :: "('i, 'j, 'o, 'e) action list \<Rightarrow> (step_id \<times> ('o, 'e) step_settlement) list" where
  "takes [] = []"
| "takes (Taken sid s # acts) = (sid, s) # takes acts"
| "takes (_ # acts) = takes acts"

fun stops :: "('i, 'j, 'o, 'e) action list \<Rightarrow> stop_reason list" where
  "stops [] = []"
| "stops (Stopped r # acts) = r # stops acts"
| "stops (_ # acts) = stops acts"

lemma history_append [simp]:
  "launches (xs @ ys) = launches xs @ launches ys"
  "calls (xs @ ys) = calls xs @ calls ys"
  "takes (xs @ ys) = takes xs @ takes ys"
  "stops (xs @ ys) = stops xs @ stops ys"
proof -
  show "launches (xs @ ys) = launches xs @ launches ys" by (induction xs rule: launches.induct) auto
  show "calls (xs @ ys) = calls xs @ calls ys" by (induction xs rule: calls.induct) auto
  show "takes (xs @ ys) = takes xs @ takes ys" by (induction xs rule: takes.induct) auto
  show "stops (xs @ ys) = stops xs @ stops ys" by (induction xs rule: stops.induct) auto
qed

definition lost_of :: "('i, 'j, 'o, 'e) action list \<Rightarrow> step_id set" where
  "lost_of acts = {sid. (sid, NotCalled) \<in> set (takes acts)}"

text \<open>Nothing is launched or called after a stop.\<close>

fun quiet_after_stop :: "('i, 'j, 'o, 'e) action list \<Rightarrow> bool" where
  "quiet_after_stop [] = True"
| "quiet_after_stop (a # acts) =
     (quiet_after_stop acts \<and> (case a of Stopped r \<Rightarrow> launches acts = [] \<and> calls acts = [] \<and> stops acts = [] | _ \<Rightarrow> True))"

lemma quiet_after_stop_append:
  "quiet_after_stop (xs @ ys) \<longleftrightarrow>
     quiet_after_stop xs \<and> quiet_after_stop ys
     \<and> (stops xs = [] \<or> launches ys = [] \<and> calls ys = [] \<and> stops ys = [])"
  by (induction xs) (auto split: action.splits)

definition flows_ok :: "('i, 'j, 'o, 'e) run_state \<Rightarrow> ('i, 'j, 'o, 'e) action list \<Rightarrow> bool" where
  "flows_ok st acts \<longleftrightarrow>
     distinct (launches acts) \<and> distinct (map fst (takes acts))
     \<and> set (launches acts) = set (flying st) \<union> fst ` set (takes acts)
     \<and> fst ` set (takes acts) = finished st \<union> set (failed st) \<union> lost_of acts
     \<and> (\<forall>sid v. (sid, Settled (Inr v)) \<in> set (takes acts) \<longleftrightarrow> map_of (rs_outputs st) sid = Some v)
     \<and> (\<forall>sid e. (sid, Settled (Inl e)) \<in> set (takes acts) \<longleftrightarrow> \<lparr>sf_step_id = sid, sf_error = e\<rparr> \<in> set (rs_failures st))"

definition past_call :: "('o, 'e) flight_state \<Rightarrow> bool" where
  "past_call s \<longleftrightarrow> (case s of Called \<Rightarrow> True | Completed (Settled _) \<Rightarrow> True | _ \<Rightarrow> False)"

definition crossings_ok ::
  "('i, 'j) workflow_request \<Rightarrow> ('i, 'j, 'o, 'e) run_state \<Rightarrow> ('i, 'j, 'o, 'e) action list \<Rightarrow> bool" where
  "crossings_ok req st acts \<longleftrightarrow>
     distinct (map call_step_id (calls acts))
     \<and> (\<forall>call \<in> set (calls acts). call_of_step req st (call_step_id call) call
          \<and> ((\<exists>fl \<in> set (rs_in_flight st). fl_step fl = call_step_id call \<and> past_call (fl_state fl))
             \<or> (\<exists>r. (call_step_id call, Settled r) \<in> set (takes acts))))"

definition stops_ok :: "('i, 'j, 'o, 'e) run_state \<Rightarrow> ('i, 'j, 'o, 'e) action list \<Rightarrow> bool" where
  "stops_ok st acts \<longleftrightarrow>
     quiet_after_stop acts \<and> stops acts = (case rs_stop st of None \<Rightarrow> [] | Some r \<Rightarrow> [r])"

definition history_ok ::
  "('i, 'j) workflow_request \<Rightarrow> ('i, 'j, 'o, 'e) run_state \<Rightarrow> ('i, 'j, 'o, 'e) action list \<Rightarrow> bool" where
  "history_ok req st acts \<longleftrightarrow> flows_ok st acts \<and> crossings_ok req st acts \<and> stops_ok st acts"

definition run_ok ::
  "('i, 'j) workflow_request \<Rightarrow> nat \<Rightarrow> ('i, 'j, 'o, 'e) config \<Rightarrow> ('i, 'j, 'o, 'e) action list \<Rightarrow> bool" where
  "run_ok req m c acts \<longleftrightarrow> sched_ok req m c (lost_of acts) \<and> history_ok req (snd (snd c)) acts"

lemma lost_of_append [simp]: "lost_of (xs @ ys) = lost_of xs \<union> lost_of ys"
  by (auto simp: lost_of_def)

lemma lost_of_simps [simp]:
  "lost_of [] = {}" "lost_of (Launched sid # acts) = lost_of acts" "lost_of (Call call # acts) = lost_of acts"
  "lost_of (Stopped r # acts) = lost_of acts"
  "lost_of (Taken sid s # acts) = (if s = NotCalled then insert sid (lost_of acts) else lost_of acts)"
  by (auto simp: lost_of_def)

text \<open>Histories that no action extends, under changes of the state they do not mention.\<close>

lemma history_ok_same:
  assumes "history_ok req st acts" and "rs_outputs st' = rs_outputs st" and "rs_failures st' = rs_failures st"
    and "rs_in_flight st' = rs_in_flight st" and "rs_stop st' = rs_stop st"
  shows "history_ok req st' acts"
  using assms
  by (simp add: history_ok_def flows_ok_def crossings_ok_def stops_ok_def call_of_step_def flying_def finished_def failed_def)

lemma history_ok_stop:
  assumes "history_ok req st acts" and "rs_stop st = None"
  shows "history_ok req (stop_run req r st) (acts @ [Stopped r])"
  using assms
  by (simp add: history_ok_def flows_ok_def crossings_ok_def stops_ok_def call_of_step_def quiet_after_stop_append)

lemma history_ok_launch:
  assumes h: "history_ok req st acts" and stop: "rs_stop st = None" "rs_stop st' = None"
    and part: "partition_ok d m (lost_of acts) st" and sid: "sid \<in> set (rs_ready st)"
    and st': "rs_in_flight st' = rs_in_flight st @ [fl]" "fl_step fl = sid" "fl_state fl = Readying"
      "rs_outputs st' = rs_outputs st" "rs_failures st' = rs_failures st"
  shows "history_ok req st' (acts @ [Launched sid])"
proof -
  have views: "flying st' = flying st @ [sid]" "finished st' = finished st" "failed st' = failed st"
    using st' by (simp_all add: flying_def finished_def failed_def)
  have "sid \<notin> finished st \<union> set (flying st) \<union> set (failed st) \<union> lost_of acts"
    using part sid by (auto simp: partition_ok_def)
  then have "flows_ok st' (acts @ [Launched sid])"
    using h by (auto simp: history_ok_def flows_ok_def views st')
  moreover have "crossings_ok req st' (acts @ [Launched sid])"
    using h by (auto simp: history_ok_def crossings_ok_def call_of_step_def st')
  moreover have "stops_ok st' (acts @ [Launched sid])"
    using h stop by (simp add: history_ok_def stops_ok_def quiet_after_stop_append)
  ultimately show ?thesis by (simp add: history_ok_def)
qed

lemma flying_unique:
  "distinct (flying st) \<Longrightarrow> fl \<in> set (rs_in_flight st) \<Longrightarrow> fl' \<in> set (rs_in_flight st) \<Longrightarrow> fl_step fl = fl_step fl' \<Longrightarrow> fl = fl'"
  unfolding flying_def by (auto simp: distinct_map dest: inj_onD)

text \<open>A dispatch future that does not cross the call boundary.\<close>

lemma history_ok_advance:
  assumes h: "history_ok req st acts" and dist: "distinct (flying st)" and fl: "find_flight st sid = Some fl"
    and past: "past_call (fl_state fl) \<Longrightarrow> past_call s"
  shows "history_ok req (set_flight st sid s) acts"
proof -
  have mem: "fl \<in> set (rs_in_flight st)" "fl_step fl = sid" using find_flight_Some [OF fl] by auto
  have "\<exists>g \<in> set (rs_in_flight (set_flight st sid s)). fl_step g = k \<and> past_call (fl_state g)"
    if "g \<in> set (rs_in_flight st)" "fl_step g = k" "past_call (fl_state g)" for g k
  proof (cases "k = sid")
    case True
    then have "g = fl" using flying_unique [OF dist] that(1,2) mem by simp
    then have "fl\<lparr>fl_state := s\<rparr> \<in> set (rs_in_flight (set_flight st sid s))"
      using mem by (auto simp: in_flight_set_flight)
    then show ?thesis using True mem past that \<open>g = fl\<close> by (intro bexI) auto
  next
    case False
    then have "g \<in> set (rs_in_flight (set_flight st sid s))"
      using that by (auto simp: in_flight_set_flight)
    then show ?thesis using that by blast
  qed
  then have "crossings_ok req (set_flight st sid s) acts"
    using h unfolding history_ok_def crossings_ok_def call_of_step_def set_flight_sel by blast
  then show ?thesis
    using h by (simp add: history_ok_def flows_ok_def stops_ok_def)
qed

lemma history_ok_call:
  assumes h: "history_ok req st acts" and ok: "sched_ok req m (pc, now, st) (lost_of acts)" and fl: "find_flight st sid = Some fl"
    and state: "fl_state fl = Admitted" and stop: "rs_stop st = None"
  shows "history_ok req (set_flight st sid Called) (acts @ [Call (fl_call fl)])"
proof -
  have mem: "fl \<in> set (rs_in_flight st)" "fl_step fl = sid" using find_flight_Some [OF fl] by auto
  have dist: "distinct (flying st)" using ok by (simp add: sched_ok_def partition_ok_def)
  have call: "call_of_step req st sid (fl_call fl)"
    using ok mem by (auto simp: sched_ok_def calls_ok_def)
  then have cid: "call_step_id (fl_call fl) = sid" by (auto simp: call_of_step_def make_call_def)
  have adv: "history_ok req (set_flight st sid Called) acts"
    using history_ok_advance [OF h dist fl] by (simp add: past_call_def)
  have not_taken: "sid \<notin> fst ` set (takes acts)"
    using h ok find_flight_flying [OF fl] by (auto simp: history_ok_def flows_ok_def sched_ok_def partition_ok_def)
  have fresh: "sid \<notin> set (map call_step_id (calls acts))"
  proof
    assume "sid \<in> set (map call_step_id (calls acts))"
    then obtain c where c: "c \<in> set (calls acts)" "call_step_id c = sid" by auto
    then consider g where "g \<in> set (rs_in_flight st)" "fl_step g = sid" "past_call (fl_state g)"
      | r where "(sid, Settled r) \<in> set (takes acts)"
      using h by (fastforce simp: history_ok_def crossings_ok_def)
    then show False
    proof cases
      case 1
      then have "g = fl" using flying_unique [OF dist] mem by simp
      with 1 state show False by (simp add: past_call_def)
    next
      case 2
      with not_taken show False by force
    qed
  qed
  have "fl\<lparr>fl_state := Called\<rparr> \<in> set (rs_in_flight (set_flight st sid Called))"
    using mem by (auto simp: in_flight_set_flight)
  then have "\<exists>g \<in> set (rs_in_flight (set_flight st sid Called)). fl_step g = sid \<and> past_call (fl_state g)"
    using mem by (intro bexI) (auto simp: past_call_def)
  then have "crossings_ok req (set_flight st sid Called) (acts @ [Call (fl_call fl)])"
    using adv fresh call by (auto simp: history_ok_def crossings_ok_def cid call_of_step_def)
  moreover have "flows_ok (set_flight st sid Called) (acts @ [Call (fl_call fl)])"
    using adv by (simp add: history_ok_def flows_ok_def)
  moreover have "stops_ok (set_flight st sid Called) (acts @ [Call (fl_call fl)])"
    using adv stop by (simp add: history_ok_def stops_ok_def quiet_after_stop_append)
  ultimately show ?thesis by (simp add: history_ok_def)
qed

lemma settle_shape:
  assumes "settle req outgoing st0 sid s = Some st'"
  shows "rs_in_flight st' = rs_in_flight st0"
    and "rs_outputs st' = (case s of Settled (Inr v) \<Rightarrow> bt_insert sid v (rs_outputs st0) | _ \<Rightarrow> rs_outputs st0)"
    and "rs_failures st' = (case s of Settled (Inl e) \<Rightarrow> rs_failures st0 @ [\<lparr>sf_step_id = sid, sf_error = e\<rparr>] | _ \<Rightarrow> rs_failures st0)"
    and "rs_stop st' = (case s of Settled (Inl e) \<Rightarrow> (if rs_stop st0 = None then Some StepFailure else rs_stop st0) | _ \<Rightarrow> rs_stop st0)"
  using assms
  by (auto simp: settle_def Let_def split: step_settlement.splits sum.splits option.splits if_splits)

lemma history_ok_take:
  assumes h: "history_ok req st acts" and ok: "sched_ok req m (Polling, now, st) (lost_of acts)"
    and fl: "find_flight st sid = Some fl" and state: "fl_state fl = Completed s"
    and run: "settle req outgoing (drop_flight st sid) sid s = Some st'"
  shows "history_ok req st' (acts @ Taken sid s # stop_actions st st')"
proof -
  note shape = settle_shape [OF run]
  have mem: "fl \<in> set (rs_in_flight st)" "fl_step fl = sid" using find_flight_Some [OF fl] by auto
  note drop = drop_flight_parts [OF ok fl]
  have bt: "bt_wf (rs_outputs st)" and dist: "distinct (flying st)"
    using ok by (simp_all add: sched_ok_def partition_ok_def)
  have extra: "launches (stop_actions st st') = []" "calls (stop_actions st st') = []" "takes (stop_actions st st') = []"
    "lost_of (stop_actions st st') = {}"
    by (auto simp: stop_actions_def split: option.splits)
  have fly: "flying st' = filter (\<lambda>k. k \<noteq> sid) (flying st)"
    using shape(1) flying_drop_flight [of st sid] by (simp add: flying_def)
  have fin: "finished st' = (case s of Settled (Inr v) \<Rightarrow> insert sid (finished st) | _ \<Rightarrow> finished st)"
    by (simp add: finished_def shape(2) set_bt_insert_keys split: step_settlement.splits sum.splits)
  have fai: "set (failed st') = (case s of Settled (Inl e) \<Rightarrow> insert sid (set (failed st)) | _ \<Rightarrow> set (failed st))"
    by (simp add: failed_def shape(3) split: step_settlement.splits sum.splits)
  have fresh: "sid \<notin> fst ` set (takes acts)"
    using h drop by (auto simp: history_ok_def flows_ok_def)
  have flows: "flows_ok st acts" and cross: "crossings_ok req st acts" and stp: "stops_ok st acts"
    using h by (simp_all add: history_ok_def)
  let ?acts = "acts @ Taken sid s # stop_actions st st'"
  have t: "takes ?acts = takes acts @ [(sid, s)]" "launches ?acts = launches acts" "calls ?acts = calls acts"
    by (simp_all add: extra)
  have lost: "lost_of ?acts = lost_of acts \<union> (if s = NotCalled then {sid} else {})"
    by (auto simp: lost_of_def extra)
  have flows': "flows_ok st' ?acts"
    unfolding flows_ok_def
  proof (intro conjI allI)
    show "distinct (launches ?acts)" using flows by (simp add: t extra flows_ok_def)
    show "distinct (map fst (takes ?acts))" using flows fresh by (simp add: t extra flows_ok_def)
    show "set (launches ?acts) = set (flying st') \<union> fst ` set (takes ?acts)"
      using flows drop(9) by (auto simp: t extra flows_ok_def fly)
    show "fst ` set (takes ?acts) = finished st' \<union> set (failed st') \<union> lost_of ?acts"
      using flows by (auto simp: t extra flows_ok_def fin fai lost split: step_settlement.splits sum.splits)
    show "((k, Settled (Inr v)) \<in> set (takes ?acts)) = (map_of (rs_outputs st') k = Some v)" for k v
      using flows fresh drop(5) bt
      by (cases "k = sid") (auto simp: t extra flows_ok_def shape(2) map_of_bt_insert finished_def bt_keys_eq_dom
          split: step_settlement.splits sum.splits)
    show "((k, Settled (Inl e)) \<in> set (takes ?acts)) = (\<lparr>sf_step_id = k, sf_error = e\<rparr> \<in> set (rs_failures st'))" for k e
      using flows fresh by (auto simp: t extra flows_ok_def shape(3) split: step_settlement.splits sum.splits)
  qed
  have "call_of_step req st' k c" if "call_of_step req st k c" for k c
  proof (cases s)
    case (Settled r)
    show ?thesis
    proof (cases r)
      case (Inl e)
      with Settled that show ?thesis by (simp add: call_of_step_def shape(2))
    next
      case (Inr v)
      with Settled that drop(5) bt show ?thesis
        by (intro call_of_step_insert [of req st k c sid st' v]) (simp_all add: shape(2))
    qed
  qed (use that in \<open>simp add: call_of_step_def shape(2)\<close>)
  moreover have "(\<exists>g \<in> set (rs_in_flight st'). fl_step g = k \<and> past_call (fl_state g)) \<or> (\<exists>r. (k, Settled r) \<in> set (takes ?acts))"
    if g: "g \<in> set (rs_in_flight st)" "fl_step g = k" "past_call (fl_state g)" for g k
  proof (cases "k = sid")
    case True
    then have "g = fl" using flying_unique [OF dist] g mem by simp
    with g(3) state have "s \<noteq> NotCalled" by (auto simp: past_call_def)
    then show ?thesis using True by (cases s) (auto simp: t extra)
  next
    case False
    then have "g \<in> set (rs_in_flight st')" using g by (simp add: shape(1) in_flight_drop_flight)
    then show ?thesis using g by blast
  qed
  ultimately have "crossings_ok req st' ?acts"
    using cross unfolding crossings_ok_def t by fastforce
  moreover have "stops_ok st' ?acts"
    using stp extra unfolding stops_ok_def
    by (auto simp: quiet_after_stop_append stop_actions_def shape(4) split: step_settlement.splits sum.splits option.splits)
  ultimately show ?thesis using flows' by (simp add: history_ok_def)
qed

section \<open>Every step preserves the invariant\<close>

lemma after_fill_ok:
  assumes d: "compiled (wreq_definition req)"
    and part: "partition_ok (wreq_definition req) m lost st" and calls: "calls_ok req st"
    and counts: "counts_ok (wreq_definition req) lost st" and tok: "tokens_ok req now st"
    and idle: "rs_stop st = None \<Longrightarrow> lost = {} \<and> (flying st = [] \<longrightarrow> rs_ready st = [])"
  shows "sched_ok req m (after_fill req st, now, st) lost"
proof (cases "flying st = []")
  case False
  then have "after_fill req st = Waiting" by (simp add: after_fill_def flying_def)
  then show ?thesis using assms False by (simp add: sched_ok_def pc_ok_def)
next
  case True
  have "\<exists>r. execute_finish req st = Some r"
  proof (cases "rs_stop st")
    case (Some r)
    then show ?thesis by (cases r) (simp_all add: execute_finish_def Let_def)
  next
    case None
    have "set (graph_nodes (wreq_definition req)) \<subseteq> finished st"
    proof (rule graph.closed_is_everything [OF d])
      fix k
      assume "k \<in> set (graph_nodes (wreq_definition req))" "set (graph_needs (wreq_definition req) k) \<subseteq> finished st"
      then show "k \<in> finished st"
        using counts None True idle by (auto simp: counts_ok_def)
    qed
    moreover have "def_id step \<in> set (graph_nodes (wreq_definition req))" if "step \<in> set (wf_leaves (wreq_definition req))" for step
      using that compiled_facts(1) [OF d]
      by (force simp: wf_leaves_def Let_def bt_values_def graph_nodes_def bt_keys_def steps_wf_def)
    ultimately have "\<forall>k \<in> set (map def_id (wf_leaves (wreq_definition req))). map_of (rs_outputs st) k \<noteq> None"
      by (auto simp: finished_def bt_keys_eq_dom)
    from gather_total [OF this] obtain leaves where
      "gather_dependencies (rs_outputs st) (map def_id (wf_leaves (wreq_definition req))) = Some leaves" by blast
    then show ?thesis using None by (simp add: execute_finish_def Let_def)
  qed
  then obtain r where r: "execute_finish req st = Some r" by blast
  then have "after_fill req st = Returned r" using True by (simp add: after_fill_def flying_def)
  then show ?thesis using assms True r by (simp add: sched_ok_def pc_ok_def)
qed

lemma execute_start_ok:
  fixes req :: "('i, 'j) workflow_request"
  assumes d: "compiled (wreq_definition req)" and fresh: "list_all (\<lambda>t. \<not> strict_prefix (caller_token req) t) cancelled"
  shows "run_ok req m (Filling, now, execute_start req cancelled now)
    (stop_actions ((execute_start req cancelled now)\<lparr>rs_stop := None\<rparr>)
      (execute_start req cancelled now :: ('i, 'j, 'o, 'e) run_state))"
proof -
  let ?d = "wreq_definition req"
  define st0 :: "('i, 'j, 'o, 'e) run_state" where "st0 =
    \<lparr>rs_cancelled = cancelled, rs_next_child = 0, rs_remaining = initial_indegree (wf_steps ?d),
     rs_ready = initial_ready (initial_indegree (wf_steps ?d)), rs_in_flight = [], rs_outputs = [],
     rs_failures = [], rs_stop = None\<rparr>"
  have inv: "kahn_inv (wf_steps ?d) (rs_remaining st0) (rs_ready st0) []"
    using kahn_inv_initial [OF compiled_facts(1) [OF d]] by (simp add: st0_def)
  have views: "flying st0 = []" "finished st0 = {}" "failed st0 = []" "rs_outputs st0 = []" "rs_stop st0 = None"
    "rs_failures st0 = []" "rs_in_flight st0 = []" "rs_cancelled st0 = cancelled"
    by (simp_all add: st0_def flying_def finished_def failed_def)
  have part: "partition_ok ?d m {} st0"
    using inv by (auto simp: partition_ok_def views kahn_inv_def graph_nodes_def graph_needs_def missing_0_iff)
  have calls: "calls_ok req st0" by (simp add: calls_ok_def views)
  have counts: "counts_ok ?d {} st0"
    using inv by (auto simp: counts_ok_def views kahn_inv_def graph_nodes_def graph_needs_def missing_0_iff)
  have tok: "tokens_ok req now st0"
    using fresh strict_prefix_run [of req] by (auto simp: tokens_ok_def views list_all_iff)
  have hist: "history_ok req st0 []"
    by (simp add: history_ok_def flows_ok_def crossings_ok_def stops_ok_def views)
  show ?thesis
  proof (cases "is_cancelled cancelled (caller_token req) \<or> deadline_passed req now")
    case False
    then have "execute_start req cancelled now = st0"
      by (simp add: execute_start_def Let_def st0_def)
    moreover have "stop_actions (st0\<lparr>rs_stop := None\<rparr>) st0 = []" by (simp add: stop_actions_def views)
    ultimately show ?thesis using part calls counts tok hist by (simp add: run_ok_def sched_ok_def pc_ok_def)
  next
    case True
    define r where "r = (if is_cancelled cancelled (caller_token req) then ExternalCancellation else Deadline)"
    have start: "execute_start req cancelled now = stop_run req r st0"
      using True by (auto simp: execute_start_def Let_def st0_def r_def)
    have "stop_actions ((stop_run req r st0)\<lparr>rs_stop := None\<rparr>) (stop_run req r st0) = [Stopped r]"
      by (simp add: stop_actions_def)
    moreover have "history_ok req (stop_run req r st0) [Stopped r]"
      using history_ok_stop [OF hist views(5), of r] by simp
    moreover have "sched_ok req m (Filling, now, stop_run req r st0) {}"
    proof -
      have "case r of ExternalCancellation \<Rightarrow> is_cancelled (rs_cancelled st0) (caller_token req)
         | Deadline \<Rightarrow> deadline_passed req now | StepFailure \<Rightarrow> rs_failures st0 \<noteq> []"
        using True by (auto simp: r_def views)
      from stop_run_ok [OF part calls tok views(5) this] show ?thesis by (simp add: sched_ok_def pc_ok_def)
    qed
    ultimately show ?thesis by (simp add: run_ok_def start)
  qed
qed

lemma stop_waiting_ok:
  assumes ok: "run_ok req m (Waiting, now, st) acts" and stop: "rs_stop st = None"
    and why: "case r of ExternalCancellation \<Rightarrow> is_cancelled (rs_cancelled st) (caller_token req)
         | Deadline \<Rightarrow> deadline_passed req now | StepFailure \<Rightarrow> False"
  shows "run_ok req m (Filling, now, stop_run req r st) (acts @ [Stopped r])"
proof -
  have parts: "partition_ok (wreq_definition req) m (lost_of acts) st" "calls_ok req st" "tokens_ok req now st"
    and hist: "history_ok req st acts"
    using ok by (simp_all add: run_ok_def sched_ok_def)
  have "case r of ExternalCancellation \<Rightarrow> is_cancelled (rs_cancelled st) (caller_token req)
         | Deadline \<Rightarrow> deadline_passed req now | StepFailure \<Rightarrow> rs_failures st \<noteq> []"
    using why by (cases r) simp_all
  from stop_run_ok [OF parts stop this] history_ok_stop [OF hist stop, of r]
  show ?thesis by (simp add: run_ok_def sched_ok_def pc_ok_def)
qed

lemma fill_step_ok:
  assumes d: "compiled (wreq_definition req)" and m: "0 < m" and ok: "run_ok req m (Filling, now, st) acts"
    and step: "scheduler_step req m (Filling, now, st) = Some (c', acts')"
  shows "run_ok req m c' (acts @ acts')"
proof -
  have sched: "sched_ok req m (Filling, now, st) (lost_of acts)" and hist: "history_ok req st acts"
    using ok by (simp_all add: run_ok_def)
  have part: "partition_ok (wreq_definition req) m (lost_of acts) st" using sched by (simp add: sched_ok_def)
  note iter = fill_iteration_ok [OF d sched m]
  show ?thesis
  proof (cases "fill_iteration req m now st")
    case FillPanic
    with iter show ?thesis by simp
  next
    case (FillContinue st' sid)
    then have c': "c' = (Filling, now, st')" "acts' = [Launched sid]"
      using step by (simp_all add: scheduler_step_def)
    have shape: "\<exists>fl. rs_in_flight st' = rs_in_flight st @ [fl] \<and> fl_step fl = sid \<and> fl_state fl = Readying
        \<and> rs_outputs st' = rs_outputs st \<and> rs_failures st' = rs_failures st \<and> rs_stop st = None"
      using FillContinue by (auto simp: fill_iteration_def Let_def split: if_splits list.splits option.splits)
    then have "history_ok req st' (acts @ [Launched sid])"
      using iter FillContinue history_ok_launch [OF hist _ _ part] by fastforce
    moreover have "sched_ok req m (Filling, now, st') (lost_of acts)"
      using iter unfolding FillContinue fill.case by blast
    ultimately show ?thesis by (simp only: c' run_ok_def snd_conv lost_of_append lost_of_simps Un_empty_right simp_thms)
  next
    case (FillBreak st')
    then have c': "c' = (after_fill req st', now, st')" "acts' = stop_actions st st'"
      using step by (simp_all add: scheduler_step_def)
    have "sched_ok req m (after_fill req st', now, st') (lost_of acts)"
      using iter FillBreak after_fill_ok [OF d, of m "lost_of acts" st' now] by simp
    moreover have "st' = st \<and> stop_actions st st' = []
        \<or> (\<exists>r. st' = stop_run req r st \<and> rs_stop st = None \<and> stop_actions st st' = [Stopped r])"
      using FillBreak
      by (auto simp: fill_iteration_def Let_def stop_actions_def split: if_splits list.splits option.splits)
    then have "history_ok req st' (acts @ stop_actions st st')"
      using hist history_ok_stop by force
    moreover have "lost_of (stop_actions st st') = {}"
      by (auto simp: stop_actions_def split: option.splits)
    ultimately show ?thesis by (simp add: c' run_ok_def)
  qed
qed

lemma take_step_ok:
  assumes d: "compiled (wreq_definition req)" and adj: "adjacency_ok (wf_steps (wreq_definition req)) outgoing"
    and ok: "run_ok req m (Polling, now, st) acts" and step: "take_completed req outgoing now st sid = Some (c', acts')"
  shows "run_ok req m c' (acts @ acts')"
proof -
  have sched: "sched_ok req m (Polling, now, st) (lost_of acts)" and hist: "history_ok req st acts"
    using ok by (simp_all add: run_ok_def)
  obtain fl s where fl: "find_flight st sid = Some fl" and s: "fl_state fl = Completed s"
    using step by (auto simp: take_completed_def split: option.splits flight_state.splits)
  have "\<exists>st'. settle req outgoing (drop_flight st sid) sid s = Some st'
    \<and> sched_ok req m (Filling, now, st') (if s = NotCalled then insert sid (lost_of acts) else lost_of acts)"
  proof (cases s)
    case NotCalled
    then show ?thesis using settle_not_called_ok [OF sched fl] s by (simp add: settle_def)
  next
    case (Settled r)
    then show ?thesis
      using settle_error_ok [OF sched fl] settle_output_ok [OF d sched fl adj] by (cases r) auto
  qed
  then obtain st' where run: "settle req outgoing (drop_flight st sid) sid s = Some st'"
    and ok': "sched_ok req m (Filling, now, st') (if s = NotCalled then insert sid (lost_of acts) else lost_of acts)"
    by blast
  have c': "c' = (Filling, now, st')" "acts' = Taken sid s # stop_actions st st'"
    using step fl s run by (simp_all add: take_completed_def)
  have "lost_of (stop_actions st st') = {}"
    by (auto simp: stop_actions_def split: option.splits)
  then have "lost_of (acts @ acts') = (if s = NotCalled then insert sid (lost_of acts) else lost_of acts)"
    by (auto simp: c')
  then show ?thesis using ok' history_ok_take [OF hist sched fl s run] by (simp add: c' run_ok_def)
qed

lemma exec_step_ok:
  fixes c :: "('i, 'j, 'o, 'e) config"
  assumes d: "compiled (wreq_definition req)" and m: "0 < m"
    and adj: "adjacency_ok (wf_steps (wreq_definition req)) outgoing"
    and ok: "run_ok req m c acts" and step: "exec_step req m outgoing c x = Some (c', acts')"
  shows "run_ok req m c' (acts @ acts')"
proof -
  obtain pc now st where c: "c = (pc, now, st)" by (cases c)
  have sched: "sched_ok req m (pc, now, st) (lost_of acts)" and hist: "history_ok req st acts"
    using ok by (simp_all add: run_ok_def c)
  have tok: "tokens_ok req now st" and dist: "distinct (flying st)"
    using sched by (simp_all add: sched_ok_def partition_ok_def)
  have call_tok: "is_cancelled (rs_cancelled st) (call_cancellation (fl_call fl)) \<longleftrightarrow>
      rs_stop st \<noteq> None \<or> is_cancelled (rs_cancelled st) (caller_token req)"
    if "find_flight st k = Some fl" for k fl
    using find_flight_Some [OF that] sched step_token_cancelled [OF tok]
    by (auto simp: sched_ok_def calls_ok_def call_of_step_def make_call_def)
  show ?thesis
  proof (cases x)
    case (CallerCancels t)
    then show ?thesis
      using step sched_ok_cancel(1) [OF sched, of t 0] history_ok_same [OF hist]
      by (auto simp: c run_ok_def split: if_splits)
  next
    case (TimePasses n)
    then show ?thesis
      using step sched_ok_cancel(2) [OF sched prefix_order.refl, of n] hist by (auto simp: c run_ok_def)
  next
    case SchedulerStep
    show ?thesis
    proof (cases pc)
      case Filling
      then show ?thesis using fill_step_ok [OF d m] ok step SchedulerStep c by simp
    next
      case Waiting
      show ?thesis
      proof (cases "rs_stop st = None \<and> is_cancelled (rs_cancelled st) (caller_token req)")
        case True
        then show ?thesis
          using stop_waiting_ok [of req m now st acts ExternalCancellation] ok step SchedulerStep c Waiting
          by (simp add: scheduler_step_def)
      next
        case False
        then have "c' = (Polling, now, st)" "acts' = []"
          using step SchedulerStep c Waiting by (auto simp: scheduler_step_def split: if_splits)
        then show ?thesis using ok c Waiting by (simp add: run_ok_def sched_ok_def pc_ok_def)
      qed
    qed (use step SchedulerStep c in \<open>simp_all add: scheduler_step_def\<close>)
  next
    case TimerFires
    then show ?thesis
      using stop_waiting_ok [of req m now st acts Deadline] ok step c by (auto split: if_splits)
  next
    case (DispatcherReady sid r)
    then obtain fl where pc: "pc = Polling" and fl: "find_flight st sid = Some fl" "fl_state fl = Readying"
      and c': "c' = (Polling, now, set_flight st sid (poll_ready_arm (rs_cancelled st) (call_cancellation (fl_call fl)) r))" "acts' = []"
      using step c by (auto simp: poll_flight_def split: if_splits option.splits)
    let ?s = "poll_ready_arm (rs_cancelled st) (call_cancellation (fl_call fl)) r"
    have "?s = Completed NotCalled \<Longrightarrow> rs_stop st \<noteq> None \<or> is_cancelled (rs_cancelled st) (caller_token req)"
      using call_tok [OF fl(1)] by (auto simp: poll_ready_arm_def split: readiness.splits if_splits)
    then have "sched_ok req m (Polling, now, set_flight st sid ?s) (lost_of acts)"
      using sched pc set_flight_ok by blast
    then show ?thesis
      using history_ok_advance [OF hist dist fl(1), of ?s] fl(2) by (simp add: c' run_ok_def past_call_def)
  next
    case (CrossBoundary sid)
    then obtain fl where pc: "pc = Polling" and fl: "find_flight st sid = Some fl" "fl_state fl = Admitted"
      and c': "c' = (Polling, now, set_flight st sid (cross_call_boundary (rs_cancelled st) (call_cancellation (fl_call fl))))"
        "acts' = (if cross_call_boundary (rs_cancelled st) (call_cancellation (fl_call fl)) = (Called :: ('o, 'e) flight_state)
                  then [Call (fl_call fl)] else [])"
      using step c by (auto simp: Let_def split: if_splits option.splits)
    show ?thesis
    proof (cases "is_cancelled (rs_cancelled st) (call_cancellation (fl_call fl))")
      case True
      then have c'': "c' = (Polling, now, set_flight st sid (Completed NotCalled))" "acts' = []"
        using c' by (simp_all add: cross_call_boundary_def)
      show ?thesis
        using set_flight_ok [of req m now st "lost_of acts" "Completed NotCalled" sid] sched pc
          history_ok_advance [OF hist dist fl(1), of "Completed NotCalled"] fl(2) True call_tok [OF fl(1)]
        by (simp add: c'' run_ok_def past_call_def)
    next
      case False
      then have c'': "c' = (Polling, now, set_flight st sid Called)" "acts' = [Call (fl_call fl)]"
        using c' by (simp_all add: cross_call_boundary_def)
      have "rs_stop st = None" using False call_tok [OF fl(1)] by simp
      then show ?thesis
        using set_flight_ok [of req m now st "lost_of acts" Called sid] sched pc history_ok_call [OF hist sched fl]
        by (simp add: c'' run_ok_def)
    qed
  next
    case (CallSettles sid r)
    then obtain fl where pc: "pc = Polling" and fl: "find_flight st sid = Some fl" "fl_state fl = Called"
      and c': "c' = (Polling, now, set_flight st sid (Completed (Settled r)))" "acts' = []"
      using step c by (auto simp: poll_flight_def split: if_splits option.splits)
    then show ?thesis
      using set_flight_ok [of req m now st "lost_of acts" "Completed (Settled r)" sid] sched
        history_ok_advance [OF hist dist fl(1), of "Completed (Settled r)"]
      by (simp add: run_ok_def past_call_def)
  next
    case (TakeCompleted sid)
    then have "pc = Polling" "take_completed req outgoing now st sid = Some (c', acts')"
      using step c by (auto split: if_splits)
    then show ?thesis using take_step_ok [OF d adj] ok c by blast
  next
    case NothingCompleted
    then show ?thesis
      using ok step c by (auto simp: run_ok_def sched_ok_def pc_ok_def split: if_splits)
  qed
qed

theorem execution_ok:
  assumes d: "compiled (wreq_definition req)" and m: "0 < m" and "execution req m c acts"
  shows "run_ok req m c acts"
  using assms(3)
proof (induction rule: execution.induct)
  case (start cancelled now)
  then show ?case using execute_start_ok [OF d] by blast
next
  case (start_panic cancelled now)
  then show ?case using execute_outgoing_compiled [OF d] by (metis option.distinct(1))
next
  case (step c acts outgoing x c' acts')
  obtain outgoing' where "execute_outgoing (wreq_definition req) = Some outgoing'"
    "adjacency_ok (wf_steps (wreq_definition req)) outgoing'"
    using execute_outgoing_compiled [OF d] by blast
  with step.hyps(2) have "adjacency_ok (wf_steps (wreq_definition req)) outgoing" by simp
  from exec_step_ok [OF d m this step.IH step.hyps(3)] show ?case .
qed

end
