(* ===== verification/Workflow_Runs.thy ===== *)
theory Workflow_Runs
  imports Workflow_Scheduling
begin

text \<open>
  What the invariant of \<open>Workflow_Scheduling\<close> says of whole runs: termination (a measure that no
  choice of the environment increases, and a cooperative dispatcher can always bring a run to its
  return), then the properties of \<open>execute\<close> as its caller and its dispatcher see it, each with a
  concrete run of a diamond-shaped workflow as its witness.
\<close>

section \<open>Returning\<close>

lemma execution_parts:
  assumes "compiled (wreq_definition req)" and "0 < m" and "execution req m (pc, now, st) acts"
  shows "partition_ok (wreq_definition req) m (lost_of acts) st" and "calls_ok req st"
    and "counts_ok (wreq_definition req) (lost_of acts) st" and "tokens_ok req now st"
    and "pc_ok req m (lost_of acts) pc st"
    and "flows_ok st acts" and "crossings_ok req st acts" and "stops_ok st acts"
  using execution_ok [OF assms] by (simp_all add: run_ok_def sched_ok_def history_ok_def)

lemma bt_keys_eq_iff: "bt_wf a \<Longrightarrow> bt_wf b \<Longrightarrow> bt_keys a = bt_keys b \<longleftrightarrow> set (bt_keys a) = set (bt_keys b)"
  unfolding bt_keys_def by (metis bt_wf_distinct bt_wf_sorted sorted_distinct_set_unique)

lemma nodes_length:
  assumes "compiled d" and "bt_wf outputs" and "set (bt_keys outputs) \<subseteq> set (graph_nodes d)"
  shows "length outputs = length (wf_steps d) \<longleftrightarrow> bt_keys outputs = graph_nodes d"
proof -
  have wf: "bt_wf (wf_steps d)" using compiled_facts(1) [OF assms(1)] by (simp add: steps_wf_def)
  have card: "length xs = card (set (bt_keys xs))" if "bt_wf xs" for xs :: "(step_id, 'x) btree_map"
    using bt_wf_distinct [OF that] distinct_card [of "map fst xs"] by (simp add: bt_keys_def)
  have "length outputs = length (wf_steps d) \<longleftrightarrow> set (bt_keys outputs) = set (graph_nodes d)"
    using card [OF assms(2)] card [OF wf] assms(3) card_subset_eq [OF _ assms(3)]
    by (auto simp: graph_nodes_def)
  also have "\<dots> \<longleftrightarrow> bt_keys outputs = graph_nodes d"
    unfolding graph_nodes_def using bt_keys_eq_iff [OF assms(2) wf] by simp
  finally show ?thesis .
qed

text \<open>A run that was not stopped has finished every step when it returns.\<close>

lemma returned_unstopped:
  assumes d: "compiled (wreq_definition req)" and m: "0 < m" and e: "execution req m (Returned r, now, st) acts"
    and stop: "rs_stop st = None"
  shows "bt_keys (rs_outputs st) = graph_nodes (wreq_definition req)"
proof -
  note parts = execution_parts [OF d m e]
  have "set (graph_nodes (wreq_definition req)) \<subseteq> finished st"
  proof (rule graph.closed_is_everything [OF d])
    fix k
    assume "k \<in> set (graph_nodes (wreq_definition req))" "set (graph_needs (wreq_definition req) k) \<subseteq> finished st"
    then show "k \<in> finished st"
      using parts(3,5) stop by (auto simp: counts_ok_def pc_ok_def)
  qed
  moreover have "finished st \<subseteq> set (graph_nodes (wreq_definition req))" and bt: "bt_wf (rs_outputs st)"
    using parts(1) by (simp_all add: partition_ok_def)
  ultimately have "set (bt_keys (rs_outputs st)) = set (graph_nodes (wreq_definition req))"
    by (auto simp: finished_def)
  then show ?thesis
    using bt_keys_eq_iff [OF bt, of "wf_steps (wreq_definition req)"] compiled_facts(1) [OF d]
    by (simp add: graph_nodes_def steps_wf_def)
qed

text \<open>A successful return reports the state's outputs, all of them, and the run was never stopped.\<close>

lemma returned_outcome:
  assumes "compiled (wreq_definition req)" and "0 < m" and e: "execution req m (Returned (Inr out), now, st) acts"
  shows "rs_stop st = None" and "bt_keys (rs_outputs st) = graph_nodes (wreq_definition req)"
    and "wo_outputs out = rs_outputs st"
    and "gather_dependencies (rs_outputs st) (map def_id (wf_leaves (wreq_definition req))) = Some (wo_leaf_outputs out)"
proof -
  have fin: "execute_finish req st = Some (Inr out)"
    using execution_parts(5) [OF assms] by (simp add: pc_ok_def)
  then show stop: "rs_stop st = None"
    by (cases "rs_stop st") (auto simp: execute_finish_def Let_def split: stop_reason.splits)
  show keys: "bt_keys (rs_outputs st) = graph_nodes (wreq_definition req)"
    by (rule returned_unstopped [OF assms stop])
  then have "length (rs_outputs st) = length (wf_steps (wreq_definition req))"
    by (metis bt_keys_def graph_nodes_def length_map)
  with fin stop show "wo_outputs out = rs_outputs st"
    and "gather_dependencies (rs_outputs st) (map def_id (wf_leaves (wreq_definition req))) = Some (wo_leaf_outputs out)"
    by (auto simp: execute_finish_def Let_def split: option.splits)
qed

section \<open>Progress\<close>

fun flight_weight :: "('o, 'e) flight_state \<Rightarrow> nat" where
  "flight_weight Readying = 5"
| "flight_weight Admitted = 4"
| "flight_weight Called = 3"
| "flight_weight (Completed _) = 2"

definition pc_weight :: "'r program_point \<Rightarrow> nat" where
  "pc_weight pc = (case pc of Filling \<Rightarrow> 1 | _ \<Rightarrow> 0)"

text \<open>What is left of a run: steps not yet launched, the stages of each flight, the latch, the fill loop.\<close>

definition work_left ::
  "('i, 'j) workflow_request \<Rightarrow> ('i, 'j, 'o, 'e) config \<Rightarrow> ('i, 'j, 'o, 'e) action list \<Rightarrow> nat" where
  "work_left req c acts =
     (case c of (pc, now, st) \<Rightarrow>
        6 * (length (wf_steps (wreq_definition req)) - length (launches acts))
        + sum_list (map (\<lambda>fl. flight_weight (fl_state fl)) (rs_in_flight st))
        + pc_weight pc + (if rs_stop st = None then 2 else 0))"

lemma launches_bound:
  assumes "run_ok req m (pc, now, st) acts" and d: "compiled (wreq_definition req)"
  shows "set (launches acts) \<subseteq> set (graph_nodes (wreq_definition req))"
    and "length (launches acts) = card (set (launches acts))"
    and "length (wf_steps (wreq_definition req)) = card (set (graph_nodes (wreq_definition req)))"
proof -
  have parts: "partition_ok (wreq_definition req) m (lost_of acts) st" "flows_ok st acts"
    using assms(1) by (simp_all add: run_ok_def sched_ok_def history_ok_def)
  have "set (launches acts) = set (flying st) \<union> (finished st \<union> set (failed st) \<union> lost_of acts)"
    using parts(2) unfolding flows_ok_def by metis
  moreover have "finished st \<union> set (flying st) \<union> set (rs_ready st) \<union> set (failed st) \<union> lost_of acts
      \<subseteq> set (graph_nodes (wreq_definition req))"
    using parts(1) unfolding partition_ok_def by metis
  ultimately show "set (launches acts) \<subseteq> set (graph_nodes (wreq_definition req))" by auto
  show "length (launches acts) = card (set (launches acts))"
    using parts(2) distinct_card unfolding flows_ok_def by metis
  show "length (wf_steps (wreq_definition req)) = card (set (graph_nodes (wreq_definition req)))"
    using distinct_card [OF graph.nodes_distinct [OF d], symmetric] by (simp add: graph_nodes_def bt_keys_def)
qed

lemma find_flight_split:
  assumes "find_flight st sid = Some fl" and "distinct (flying st)"
  shows "\<exists>xs ys. rs_in_flight st = xs @ fl # ys \<and> (\<forall>g \<in> set xs \<union> set ys. fl_step g \<noteq> sid) \<and> fl_step fl = sid"
proof -
  have mem: "fl \<in> set (rs_in_flight st)" "fl_step fl = sid" using find_flight_Some [OF assms(1)] by auto
  then obtain xs ys where split: "rs_in_flight st = xs @ fl # ys" by (meson split_list)
  then have "sid \<notin> fl_step ` (set xs \<union> set ys)" using assms(2) mem(2) by (simp add: flying_def image_Un)
  then have "\<forall>g \<in> set xs \<union> set ys. fl_step g \<noteq> sid" by blast
  with split mem(2) show ?thesis by blast
qed

definition weights :: "('i, 'j, 'o, 'e) run_state \<Rightarrow> nat" where
  "weights st = sum_list (map (\<lambda>fl. flight_weight (fl_state fl)) (rs_in_flight st))"

lemma weights_set_flight:
  assumes "find_flight st sid = Some fl" and "distinct (flying st)"
  shows "weights (set_flight st sid s) + flight_weight (fl_state fl) = weights st + flight_weight s"
proof -
  obtain xs ys where split: "rs_in_flight st = xs @ fl # ys" "\<forall>g \<in> set xs \<union> set ys. fl_step g \<noteq> sid" "fl_step fl = sid"
    using find_flight_split [OF assms] by blast
  let ?upd = "\<lambda>g. if fl_step g = sid then g\<lparr>fl_state := s\<rparr> else g"
  have same: "map ?upd zs = zs" if "\<forall>g \<in> set zs. fl_step g \<noteq> sid" for zs :: "('a, 'b, 'c, 'd) flight list"
    using that by (simp add: map_idI)
  have "rs_in_flight (set_flight st sid s) = map ?upd xs @ ?upd fl # map ?upd ys"
    by (simp add: set_flight_def split(1))
  also have "\<dots> = xs @ fl\<lparr>fl_state := s\<rparr> # ys"
    using split(2,3) same by simp
  finally show ?thesis by (simp add: weights_def split(1))
qed

lemma weights_drop_flight:
  assumes "find_flight st sid = Some fl" and "distinct (flying st)"
  shows "weights (drop_flight st sid) + flight_weight (fl_state fl) = weights st"
proof -
  obtain xs ys where split: "rs_in_flight st = xs @ fl # ys" "\<forall>g \<in> set xs \<union> set ys. fl_step g \<noteq> sid" "fl_step fl = sid"
    using find_flight_split [OF assms] by blast
  have "filter (\<lambda>g. fl_step g \<noteq> sid) zs = zs" if "\<forall>g \<in> set zs. fl_step g \<noteq> sid" for zs
    using that by simp
  then show ?thesis using split by (simp add: weights_def drop_flight_def)
qed

text \<open>The choices that consume work: everything but waiting, the clock, the caller, and a dispatcher
  that is still pending.\<close>

definition consumes :: "('i, 'j, 'o, 'e) config \<Rightarrow> ('o, 'e) choice \<Rightarrow> ('i, 'j, 'o, 'e) config \<Rightarrow> bool" where
  "consumes c x c' \<longleftrightarrow>
     (case x of
        CallerCancels _ \<Rightarrow> False
      | TimePasses _ \<Rightarrow> False
      | NothingCompleted \<Rightarrow> False
      | SchedulerStep \<Rightarrow> \<not> (fst c = Waiting \<and> fst c' = Polling)
      | DispatcherReady sid r \<Rightarrow> snd (snd c') \<noteq> snd (snd c)
      | _ \<Rightarrow> True)"

lemma work_left_eq:
  "work_left req (pc, now, st) acts =
     6 * (length (wf_steps (wreq_definition req)) - length (launches acts)) + weights st + pc_weight pc
     + (if rs_stop st = None then 2 else 0)"
  by (simp add: work_left_def weights_def)

lemma work_flight:
  assumes "find_flight st sid = Some fl" and "distinct (flying st)" and "flight_weight s < flight_weight (fl_state fl)"
  shows "work_left req (Polling, now, set_flight st sid s) acts < work_left req (Polling, now, st) acts"
  using weights_set_flight [OF assms(1,2), of s] assms(3) by (simp add: work_left_eq)

lemma exec_step_work:
  fixes c :: "('i, 'j, 'o, 'e) config"
  assumes d: "compiled (wreq_definition req)" and m: "0 < m"
    and adj: "adjacency_ok (wf_steps (wreq_definition req)) outgoing"
    and ok: "run_ok req m c acts" and step: "exec_step req m outgoing c x = Some (c', acts')"
  shows "work_left req c' (acts @ acts') \<le> work_left req c acts"
    and "consumes c x c' \<Longrightarrow> work_left req c' (acts @ acts') < work_left req c acts"
proof -
  obtain pc now st where c: "c = (pc, now, st)" by (cases c)
  have sched: "sched_ok req m (pc, now, st) (lost_of acts)"
    using ok by (simp add: run_ok_def c)
  have dist: "distinct (flying st)" and part: "partition_ok (wreq_definition req) m (lost_of acts) st"
    using sched by (simp_all add: sched_ok_def partition_ok_def)
  have flows: "flows_ok st acts" using ok by (simp add: run_ok_def c history_ok_def)
  have no_launch: "launches (stop_actions a b) = []" for a b :: "('i, 'j, 'o, 'e) run_state"
    by (auto simp: stop_actions_def split: option.splits)
  have "work_left req c' (acts @ acts') < work_left req c acts
      \<or> (\<not> consumes c x c' \<and> work_left req c' (acts @ acts') \<le> work_left req c acts)"
  proof (cases x)
    case (CallerCancels t)
    then show ?thesis using step by (auto simp: c consumes_def work_left_eq weights_def split: if_splits)
  next
    case (TimePasses n)
    then show ?thesis using step by (auto simp: c consumes_def work_left_eq)
  next
    case SchedulerStep
    show ?thesis
    proof (cases pc)
      case Filling
      have fill_run: "run_ok req m (Filling, now, st) acts" using ok c Filling by simp
      then have iter: "sched_ok req m (Filling, now, st) (lost_of acts)" by (simp add: run_ok_def)
      note iter = fill_iteration_ok [OF d iter m]
      show ?thesis
      proof (cases "fill_iteration req m now st")
        case FillPanic
        with iter show ?thesis by simp
      next
        case (FillContinue st' sid)
        then have c': "c' = (Filling, now, st')" "acts' = [Launched sid]"
          using step SchedulerStep by (simp_all add: scheduler_step_def c Filling)
        have ready: "sid \<in> set (rs_ready st)" "rs_stop st' = None" using iter FillContinue by simp_all
        have w: "weights st' = weights st + 5" and stop: "rs_stop st = None"
          using FillContinue
          by (auto simp: fill_iteration_def Let_def weights_def split: if_splits list.splits option.splits)
        have "run_ok req m c' (acts @ acts')" by (rule exec_step_ok [OF d m adj ok step])
        then have "length (launches (acts @ [Launched sid])) \<le> length (wf_steps (wreq_definition req))"
          using launches_bound [OF _ d, of m Filling now st' "acts @ [Launched sid]"] card_mono
          by (metis List.finite_set c')
        then have "6 * (length (wf_steps (wreq_definition req)) - length (launches acts))
            = 6 + 6 * (length (wf_steps (wreq_definition req)) - Suc (length (launches acts)))" by simp
        then show ?thesis using w stop ready by (simp add: c c' Filling work_left_eq)
      next
        case (FillBreak st')
        then have c': "c' = (after_fill req st', now, st')" "acts' = stop_actions st st'"
          using step SchedulerStep by (simp_all add: scheduler_step_def c Filling)
        have "weights st' = weights st" and stop: "rs_stop st' = None \<Longrightarrow> rs_stop st = None"
          using FillBreak
          by (auto simp: fill_iteration_def Let_def weights_def split: if_splits list.splits option.splits)
        moreover have "pc_weight (after_fill req st') = 0"
          by (auto simp: pc_weight_def after_fill_def split: option.splits)
        ultimately show ?thesis
          by (auto simp: c c' Filling work_left_eq no_launch pc_weight_def)
      qed
    next
      case Waiting
      then show ?thesis
        using step SchedulerStep
        by (auto simp: c scheduler_step_def consumes_def work_left_eq weights_def pc_weight_def split: if_splits)
    qed (use step SchedulerStep in \<open>simp_all add: c scheduler_step_def\<close>)
  next
    case TimerFires
    then show ?thesis using step by (auto simp: c work_left_eq weights_def pc_weight_def split: if_splits)
  next
    case (DispatcherReady sid r)
    then obtain fl where pc: "pc = Polling" and fl: "find_flight st sid = Some fl" "fl_state fl = Readying"
      and c': "c' = (Polling, now, set_flight st sid (poll_ready_arm (rs_cancelled st) (call_cancellation (fl_call fl)) r))" "acts' = []"
      using step c by (auto simp: poll_flight_def split: if_splits option.splits)
    let ?s = "poll_ready_arm (rs_cancelled st) (call_cancellation (fl_call fl)) r :: ('o, 'e) flight_state"
    show ?thesis
    proof (cases "?s = Readying")
      case True
      obtain xs ys where split: "rs_in_flight st = xs @ fl # ys" "\<forall>g \<in> set xs \<union> set ys. fl_step g \<noteq> sid" "fl_step fl = sid"
        using find_flight_split [OF fl(1) dist] by blast
      have "map (\<lambda>g. if fl_step g = sid then g\<lparr>fl_state := Readying\<rparr> else g) (rs_in_flight st) = rs_in_flight st"
        using split fl(2) by (auto simp: map_idI)
      then have "set_flight st sid ?s = st" by (simp add: True set_flight_def)
      then show ?thesis by (simp add: c c' pc DispatcherReady consumes_def)
    next
      case False
      then have "flight_weight ?s < flight_weight (fl_state fl)"
        using fl(2) by (cases ?s) simp_all
      then show ?thesis using work_flight [OF fl(1) dist] by (simp add: c c' pc)
    qed
  next
    case (CrossBoundary sid)
    then obtain fl where pc: "pc = Polling" and fl: "find_flight st sid = Some fl" "fl_state fl = Admitted"
      and c': "c' = (Polling, now, set_flight st sid (cross_call_boundary (rs_cancelled st) (call_cancellation (fl_call fl))))"
        "launches acts' = []"
      using step c by (auto simp: Let_def split: if_splits option.splits)
    have "flight_weight (cross_call_boundary (rs_cancelled st) (call_cancellation (fl_call fl)) :: ('o, 'e) flight_state)
        < flight_weight (fl_state fl)"
      using fl(2) by (simp add: cross_call_boundary_def)
    then have "weights (set_flight st sid (cross_call_boundary (rs_cancelled st) (call_cancellation (fl_call fl)))) < weights st"
      using weights_set_flight [OF fl(1) dist, of "cross_call_boundary (rs_cancelled st) (call_cancellation (fl_call fl))"]
      by linarith
    then show ?thesis by (simp add: c c' pc work_left_eq)
  next
    case (CallSettles sid r)
    then obtain fl where pc: "pc = Polling" and fl: "find_flight st sid = Some fl" "fl_state fl = Called"
      and c': "c' = (Polling, now, set_flight st sid (Completed (Settled r)))" "acts' = []"
      using step c by (auto simp: poll_flight_def split: if_splits option.splits)
    then show ?thesis using work_flight [OF fl(1) dist] by (simp add: c)
  next
    case (TakeCompleted sid)
    then have pc: "pc = Polling" and take: "take_completed req outgoing now st sid = Some (c', acts')"
      using step c by (auto split: if_splits)
    then obtain fl s where fl: "find_flight st sid = Some fl" and s: "fl_state fl = Completed s"
      by (auto simp: take_completed_def split: option.splits flight_state.splits)
    have w: "weights (drop_flight st sid) + 2 = weights st"
      using weights_drop_flight [OF fl dist] s by simp
    have "run_ok req m c' (acts @ acts')" by (rule exec_step_ok [OF d m adj ok step])
    then have "fst c' \<noteq> Panicked" by (cases c') (auto simp: run_ok_def sched_ok_def pc_ok_def)
    then obtain st' where st': "settle req outgoing (drop_flight st sid) sid s = Some st'"
      and c': "c' = (Filling, now, st')" "acts' = Taken sid s # stop_actions st st'"
      using take fl s by (auto simp: take_completed_def split: option.splits)
    have "weights st' = weights (drop_flight st sid)" and "rs_stop st' = None \<Longrightarrow> rs_stop st = None"
      using settle_shape [OF st'] by (auto simp: weights_def split: step_settlement.splits sum.splits if_splits)
    then show ?thesis using w by (auto simp: c c' pc work_left_eq no_launch pc_weight_def)
  next
    case NothingCompleted
    then show ?thesis using step by (auto simp: c consumes_def work_left_eq pc_weight_def split: if_splits)
  qed
  then show "work_left req c' (acts @ acts') \<le> work_left req c acts"
    and "consumes c x c' \<Longrightarrow> work_left req c' (acts @ acts') < work_left req c acts" by auto
qed

text \<open>A dispatcher that becomes ready and answers, and a scheduler that is polled; nobody cancels.\<close>

definition cooperative :: "(step_id \<Rightarrow> 'e + 'o) \<Rightarrow> ('o, 'e) choice \<Rightarrow> bool" where
  "cooperative answer x \<longleftrightarrow>
     (case x of
        SchedulerStep \<Rightarrow> True
      | DispatcherReady sid r \<Rightarrow> (case r of ReadyOk \<Rightarrow> True | _ \<Rightarrow> False)
      | CrossBoundary sid \<Rightarrow> True
      | CallSettles sid r \<Rightarrow> r = answer sid
      | TakeCompleted sid \<Rightarrow> True
      | _ \<Rightarrow> False)"

lemma polling_can_move:
  fixes st :: "('i, 'j, 'o, 'e) run_state"
  assumes ok: "run_ok req m (Polling, now, st) acts"
  shows "\<exists>x c' acts'. cooperative answer x \<and> exec_step req m outgoing (Polling, now, st) x = Some (c', acts')
    \<and> consumes (Polling, now, st) x c'"
proof -
  have dist: "distinct (flying st)" and "flying st \<noteq> []"
    using ok by (simp_all add: run_ok_def sched_ok_def partition_ok_def pc_ok_def)
  then obtain fl fls where "rs_in_flight st = fl # fls" by (cases "rs_in_flight st") (simp_all add: flying_def)
  then have fl: "find_flight st (fl_step fl) = Some fl" by (simp add: find_flight_def)
  have changed: "set_flight st (fl_step fl) s \<noteq> st" if "s \<noteq> fl_state fl" for s
  proof
    assume "set_flight st (fl_step fl) s = st"
    then have "weights (set_flight st (fl_step fl) s) = weights st \<and>
        rs_in_flight (set_flight st (fl_step fl) s) = rs_in_flight st" by simp
    moreover have "fl\<lparr>fl_state := s\<rparr> \<in> set (rs_in_flight (set_flight st (fl_step fl) s))"
      using find_flight_Some [OF fl] by (auto simp: in_flight_set_flight)
    ultimately have "fl\<lparr>fl_state := s\<rparr> = fl"
      using flying_unique [OF dist, of "fl\<lparr>fl_state := s\<rparr>" fl] find_flight_Some [OF fl] by simp
    then have "s = fl_state fl" by (metis flight.select_convs(3) flight.surjective flight.update_convs(3))
    with that show False by blast
  qed
  show ?thesis
  proof (cases "fl_state fl")
    case Readying
    have "poll_ready_arm (rs_cancelled st) (call_cancellation (fl_call fl)) ReadyOk \<noteq> (Readying :: ('o, 'e) flight_state)"
      by (simp add: poll_ready_arm_def)
    then show ?thesis
      using fl Readying changed
      by (intro exI [of _ "DispatcherReady (fl_step fl) ReadyOk"]) (simp add: cooperative_def poll_flight_def consumes_def)
  next
    case Admitted
    then show ?thesis
      using fl by (intro exI [of _ "CrossBoundary (fl_step fl)"]) (simp add: cooperative_def Let_def consumes_def)
  next
    case Called
    then show ?thesis
      using fl by (intro exI [of _ "CallSettles (fl_step fl) (answer (fl_step fl))"])
        (simp add: cooperative_def poll_flight_def consumes_def)
  next
    case (Completed s)
    then show ?thesis
      using fl by (intro exI [of _ "TakeCompleted (fl_step fl)"])
        (auto simp: cooperative_def take_completed_def consumes_def split: option.splits)
  qed
qed

lemma run_can_return:
  fixes c :: "('i, 'j, 'o, 'e) config"
  assumes d: "compiled (wreq_definition req)" and m: "0 < m"
    and adj: "adjacency_ok (wf_steps (wreq_definition req)) outgoing" and ok: "run_ok req m c acts"
  shows "\<exists>xs r now st acts'. list_all (cooperative answer) xs
    \<and> exec_run req m outgoing xs c = Some ((Returned r, now, st), acts')"
  using ok
proof (induction "work_left req c acts" arbitrary: c acts rule: less_induct)
  case less
  obtain pc now st where c: "c = (pc, now, st)" by (cases c)
  have go: "\<exists>xs r now st acts'. list_all (cooperative answer) xs
      \<and> exec_run req m outgoing xs c = Some ((Returned r, now, st), acts')"
    if coop: "cooperative answer x" and step: "exec_step req m outgoing c x = Some (c', acts')"
      and rest: "\<exists>xs r now st acts''. list_all (cooperative answer) xs
        \<and> exec_run req m outgoing xs c' = Some ((Returned r, now, st), acts'')" for x c' acts'
  proof -
    obtain xs r now' st' acts'' where "list_all (cooperative answer) xs"
      "exec_run req m outgoing xs c' = Some ((Returned r, now', st'), acts'')"
      using rest by blast
    with coop step show ?thesis by (intro exI [of _ "x # xs"]) simp
  qed
  have next_step: "\<exists>xs r now st acts''. list_all (cooperative answer) xs
      \<and> exec_run req m outgoing xs c' = Some ((Returned r, now, st), acts'')"
    if step: "exec_step req m outgoing c x = Some (c', acts')" and "consumes c x c'" for x c' acts'
    using less.hyps [OF exec_step_work(2) [OF d m adj less.prems step that(2)] exec_step_ok [OF d m adj less.prems step]] .
  show ?case
  proof (cases pc)
    case Filling
    obtain c' acts' where step: "exec_step req m outgoing c SchedulerStep = Some (c', acts')"
      by (cases "fill_iteration req m now st") (simp_all add: c Filling scheduler_step_def)
    then show ?thesis
      using go [OF _ step next_step [OF step]] by (simp add: cooperative_def consumes_def c Filling)
  next
    case Waiting
    obtain c' acts' where step: "exec_step req m outgoing c SchedulerStep = Some (c', acts')"
      by (cases "rs_stop st = None \<and> is_cancelled (rs_cancelled st) (caller_token req)")
        (auto simp: c Waiting scheduler_step_def)
    have ok': "run_ok req m c' (acts @ acts')" by (rule exec_step_ok [OF d m adj less.prems step])
    have coop: "cooperative answer SchedulerStep" by (simp add: cooperative_def)
    show ?thesis
    proof (cases "consumes c SchedulerStep c'")
      case True
      then show ?thesis using go [OF coop step next_step [OF step]] by blast
    next
      case False
      then have pc': "fst c' = Polling" by (simp add: consumes_def)
      then obtain now' st' where c': "c' = (Polling, now', st')" by (cases c') simp
      obtain x c'' acts'' where x: "cooperative answer x" "exec_step req m outgoing c' x = Some (c'', acts'')" "consumes c' x c''"
        using polling_can_move ok' unfolding c' by blast
      have "work_left req c'' ((acts @ acts') @ acts'') < work_left req c acts"
        using exec_step_work(2) [OF d m adj ok' x(2,3)] exec_step_work(1) [OF d m adj less.prems step] by linarith
      from less.hyps [OF this exec_step_ok [OF d m adj ok' x(2)]]
      obtain xs r now'' st'' a where "list_all (cooperative answer) xs"
        "exec_run req m outgoing xs c'' = Some ((Returned r, now'', st''), a)" by blast
      with x step coop show ?thesis by (intro exI [of _ "SchedulerStep # x # xs"]) simp
    qed
  next
    case Polling
    then obtain x c' acts' where x: "cooperative answer x" "exec_step req m outgoing c x = Some (c', acts')" "consumes c x c'"
      using polling_can_move less.prems c by blast
    show ?thesis by (rule go [OF x(1,2) next_step [OF x(2,3)]])
  next
    case (Returned r)
    then show ?thesis by (intro exI [of _ "[]"]) (auto simp: c)
  next
    case Panicked
    then show ?thesis using less.prems by (simp add: c run_ok_def sched_ok_def pc_ok_def)
  qed
qed

lemma execution_exec_run:
  "execution req m c acts \<Longrightarrow> execute_outgoing (wreq_definition req) = Some outgoing \<Longrightarrow>
     exec_run req m outgoing xs c = Some (c', acts') \<Longrightarrow> execution req m c' (acts @ acts')"
proof (induction xs arbitrary: c acts acts')
  case Nil
  then show ?case by simp
next
  case (Cons x xs)
  then obtain c1 a1 a2 where s: "exec_step req m outgoing c x = Some (c1, a1)"
    and r: "exec_run req m outgoing xs c1 = Some (c', a2)" and a: "acts' = a1 @ a2"
    by (auto split: option.splits prod.splits)
  have "execution req m c1 (acts @ a1)" by (rule execution.step [OF Cons.prems(1,2) s])
  from Cons.IH [OF this Cons.prems(2) r] show ?case by (simp add: a)
qed

text \<open>What an execution has settled, read off its history.\<close>

lemma gathered_keys:
  assumes "compiled d" and "wf_step d k = Some step" and deps: "gather_dependencies outputs (def_needs step) = Some deps"
  shows "bt_keys deps = def_needs step"
proof -
  have gather: "bt_wf deps" "\<And>k. map_of deps k = (if k \<in> set (def_needs step) then map_of outputs k else None)"
    using gather_Some [OF deps] by auto
  have "sorted (def_needs step) \<and> distinct (def_needs step)"
    using assms(2) compiled_facts(1) [OF assms(1)] by (auto simp: wf_step_def steps_wf_def dest: map_of_SomeD)
  moreover have "set (bt_keys deps) = set (def_needs step)"
    using gather gather_present [OF _ deps] by (auto simp: bt_keys_eq_dom dom_def split: if_splits)
  ultimately show ?thesis
    using gather(1) by (intro sorted_distinct_set_unique) (simp_all add: bt_keys_def bt_wf_sorted bt_wf_distinct)
qed

lemma taken_outputs:
  "flows_ok st acts \<Longrightarrow> (k, Settled (Inr v)) \<in> set (takes acts) \<longleftrightarrow> map_of (rs_outputs st) k = Some v"
  by (simp add: flows_ok_def)

lemma taken_failures:
  "flows_ok st acts \<Longrightarrow> (k, Settled (Inl e)) \<in> set (takes acts) \<longleftrightarrow> \<lparr>sf_step_id = k, sf_error = e\<rparr> \<in> set (rs_failures st)"
  by (simp add: flows_ok_def)

section \<open>A concrete run\<close>

definition diamond_definition :: "nat workflow_definition" where
  "diamond_definition =
     \<lparr>wf_id = ''w'', wf_version = ''1'', wf_steps = insert_all [] diamond, wf_order = [''a'', ''b'', ''c'', ''d'']\<rparr>"

definition diamond_request :: "(nat, nat) workflow_request" where
  "diamond_request = \<lparr>wreq_context = workflow_context_new ''r'' [7], wreq_definition = diamond_definition, wreq_input = 9\<rparr>"

lemma diamond_compiled: "compiled (wreq_definition diamond_request)"
proof -
  have "compile ''w'' ''1'' diamond = Some (Inr diamond_definition)" by code_simp
  then show ?thesis by (simp add: diamond_request_def compile_compiled)
qed

definition diamond_outgoing :: "(step_id, step_id list) btree_map" where
  "diamond_outgoing = [(''a'', [''b'', ''c'']), (''b'', [''d'']), (''c'', [''d'']), (''d'', [])]"

lemma diamond_outgoing: "execute_outgoing (wreq_definition diamond_request) = Some diamond_outgoing"
  by code_simp

definition run_step :: "step_id \<Rightarrow> string + nat \<Rightarrow> (nat, string) choice list" where
  "run_step sid r = [DispatcherReady sid ReadyOk, CrossBoundary sid, CallSettles sid r, TakeCompleted sid]"

text \<open>Two steps at a time: \<open>a\<close> alone, then \<open>b\<close> and \<open>c\<close> in flight together; \<open>c\<close> answers with \<open>r\<close>.\<close>

definition diamond_schedule :: "string + nat \<Rightarrow> (nat, string) choice list" where
  "diamond_schedule r =
     [SchedulerStep, SchedulerStep, SchedulerStep] @ run_step ''a'' (Inr 10)
     @ [SchedulerStep, SchedulerStep, SchedulerStep, SchedulerStep,
        DispatcherReady ''b'' ReadyOk, DispatcherReady ''c'' ReadyOk, CrossBoundary ''b'', CrossBoundary ''c'',
        CallSettles ''c'' r, TakeCompleted ''c'', SchedulerStep, SchedulerStep,
        CallSettles ''b'' (Inr 20), TakeCompleted ''b'']"

type_synonym diamond_state = "(nat, nat, nat, string) run_state"

definition diamond_start :: "(nat, nat, nat, string) config" where
  "diamond_start = (Filling, 0, execute_start diamond_request [] 0)"

lemma diamond_execution:
  assumes "exec_run diamond_request 2 diamond_outgoing xs diamond_start = Some (c, acts)"
  shows "execution diamond_request 2 c acts"
proof -
  have "execution diamond_request 2 diamond_start
      (stop_actions ((execute_start diamond_request [] 0)\<lparr>rs_stop := None\<rparr>) (execute_start diamond_request [] 0))"
    unfolding diamond_start_def by (rule execution.start) (simp_all add: diamond_outgoing)
  moreover have "stop_actions ((execute_start diamond_request [] 0)\<lparr>rs_stop := None\<rparr>)
      (execute_start diamond_request [] 0 :: (nat, nat, nat, string) run_state) = []"
    by code_simp
  ultimately show ?thesis
    using execution_exec_run [OF _ diamond_outgoing assms] by fastforce
qed

definition diamond_success :: "(nat, string) choice list" where
  "diamond_success =
     diamond_schedule (Inr 30) @ [SchedulerStep, SchedulerStep, SchedulerStep] @ run_step ''d'' (Inr 40) @ [SchedulerStep]"

definition diamond_outcome :: "nat workflow_outcome" where
  "diamond_outcome =
     \<lparr>wo_run_id = ''r'', wo_workflow_id = ''w'', wo_workflow_version = ''1'',
      wo_outputs = [(''a'', 10), (''b'', 20), (''c'', 30), (''d'', 40)], wo_leaf_outputs = [(''d'', 40)]\<rparr>"

lemma diamond_run:
  assumes "map_option (\<lambda>((pc, now, st), acts). (pc, now, rs_in_flight st, view acts))
      (exec_run diamond_request 2 diamond_outgoing xs diamond_start) = Some (pc, now, fls, v)"
  shows "\<exists>st acts. execution diamond_request 2 (pc, now, st) acts \<and> rs_in_flight st = fls \<and> view acts = v"
  using assms diamond_execution [of xs] by (auto split: prod.splits) blast

lemma diamond_success:
  "\<exists>(st :: diamond_state) acts. execution diamond_request 2 (Returned (Inr diamond_outcome), 0, st) acts \<and> rs_in_flight st = []
     \<and> map (\<lambda>c. (call_step_id c, call_dependencies c)) (calls acts)
       = [(''a'', []), (''b'', [(''a'', 10)]), (''c'', [(''a'', 10)]), (''d'', [(''b'', 20), (''c'', 30)])]"
  by (rule diamond_run [of _ diamond_success]) code_simp

text \<open>The same run with \<open>c\<close> failing while \<open>b\<close> is in flight: \<open>b\<close> is drained, \<open>d\<close> is never launched.\<close>

definition diamond_failed :: "(string, nat) workflow_failure" where
  "diamond_failed =
     WfStepsFailed ''r'' ''w'' ''1'' [(''a'', 10), (''b'', 20)] [\<lparr>sf_step_id = ''c'', sf_error = ''boom''\<rparr>]"

lemma diamond_failure:
  "\<exists>st acts. execution diamond_request 2 (Returned (Inl diamond_failed), 0, st) acts \<and> rs_in_flight st = []
     \<and> (launches acts, stops acts) = ([''a'', ''b'', ''c''], [StepFailure])"
  by (rule diamond_run [of _ "diamond_schedule (Inl ''boom'') @ [SchedulerStep]"]) code_simp

lemma stops_split: "stops acts = [r] \<Longrightarrow> \<exists>pre post. acts = pre @ Stopped r # post"
proof (induction acts)
  case Nil
  then show ?case by simp
next
  case (Cons a acts)
  show ?case
  proof (cases "\<exists>r'. a = Stopped r'")
    case True
    with Cons.prems have "a # acts = [] @ Stopped r # acts" by auto
    then show ?thesis by blast
  next
    case False
    then have "stops acts = [r]" using Cons.prems by (cases a) auto
    then obtain pre post where "acts = pre @ Stopped r # post" using Cons.IH by blast
    then have "a # acts = (a # pre) @ Stopped r # post" by simp
    then show ?thesis by blast
  qed
qed

section \<open>Properties\<close>

text \<open>C5: the scheduler never panics, never has more steps in flight than \<open>max_concurrency\<close>, and
  launches and calls every step at most once.\<close>

theorem scheduler_bounded:
  assumes "compiled (wreq_definition req)" and "0 < m" and "execution req m (pc, now, st) acts"
  shows "pc \<noteq> Panicked \<and> length (rs_in_flight st) \<le> m \<and> distinct (launches acts)
    \<and> distinct (map call_step_id (calls acts))"
  using execution_parts [OF assms]
  by (auto simp: partition_ok_def flows_ok_def crossings_ok_def pc_ok_def flying_def)

theorem scheduler_bounded_witness:
  "\<exists>(st :: diamond_state) acts. execution diamond_request 2 (Returned (Inr diamond_outcome), 0, st) acts
     \<and> distinct (launches acts)"
proof -
  obtain st :: diamond_state and acts where e: "execution diamond_request 2 (Returned (Inr diamond_outcome), 0, st) acts"
    using diamond_success by blast
  from scheduler_bounded [OF diamond_compiled zero_less_numeral e] e show ?thesis by auto
qed

text \<open>C6: every call the dispatcher sees is the call of a step of the definition: it carries the run's
  identities, input and deadline, the step's job, and as dependencies exactly the outputs that the
  step's direct needs settled with.\<close>

theorem call_carries_dependencies:
  assumes "compiled (wreq_definition req)" and "0 < m" and "execution req m (pc, now, st) acts"
    and "call \<in> set (calls acts)"
  shows "\<exists>step. wf_step (wreq_definition req) (call_step_id call) = Some step
    \<and> call_job call = def_job step \<and> call_input call = wreq_input req
    \<and> call_run_id call = wctx_run_id (wreq_context req)
    \<and> call_workflow_id call = wf_id (wreq_definition req) \<and> call_workflow_version call = wf_version (wreq_definition req)
    \<and> call_deadline call = wctx_deadline (wreq_context req)
    \<and> bt_keys (call_dependencies call) = def_needs step
    \<and> (\<forall>k v. map_of (call_dependencies call) k = Some v \<longleftrightarrow>
         k \<in> set (def_needs step) \<and> (k, Settled (Inr v)) \<in> set (takes acts))"
proof -
  note parts = execution_parts [OF assms(1-3)]
  have "call_of_step req st (call_step_id call) call"
    using parts(7) assms(4) unfolding crossings_ok_def by blast
  then obtain step deps n where step: "wf_step (wreq_definition req) (call_step_id call) = Some step"
    and deps: "gather_dependencies (rs_outputs st) (def_needs step) = Some deps"
    and call: "call = make_call req (call_step_id call) (def_job step) deps (child_token (run_token req) n)"
    unfolding call_of_step_def by blast
  have cd: "call_dependencies call = deps" using arg_cong [OF call, of call_dependencies] by (simp add: make_call_def)
  have gather: "bt_wf deps" "\<And>k. map_of deps k = (if k \<in> set (def_needs step) then map_of (rs_outputs st) k else None)"
    using gather_Some [OF deps] by auto
  have "bt_keys deps = def_needs step" by (rule gathered_keys [OF assms(1) step deps])
  moreover have "map_of deps k = Some v \<longleftrightarrow> k \<in> set (def_needs step) \<and> (k, Settled (Inr v)) \<in> set (takes acts)" for k v
    using gather(2) taken_outputs [OF parts(6)] by auto
  ultimately show ?thesis
    using step arg_cong [OF call, of call_job] arg_cong [OF call, of call_input] arg_cong [OF call, of call_run_id]
      arg_cong [OF call, of call_workflow_id] arg_cong [OF call, of call_workflow_version] arg_cong [OF call, of call_deadline]
    by (intro exI [of _ step]) (simp add: make_call_def cd)
qed

theorem call_carries_dependencies_witness:
  "\<exists>(st :: diamond_state) acts call. execution diamond_request 2 (Returned (Inr diamond_outcome), 0, st) acts
     \<and> call \<in> set (calls acts) \<and> call_step_id call = ''d'' \<and> call_job call = 4
     \<and> call_dependencies call = [(''b'', 20), (''c'', 30)]"
proof -
  obtain st :: diamond_state and acts where e: "execution diamond_request 2 (Returned (Inr diamond_outcome), 0, st) acts"
    and calls: "map (\<lambda>c. (call_step_id c, call_dependencies c)) (calls acts)
       = [(''a'', []), (''b'', [(''a'', 10)]), (''c'', [(''a'', 10)]), (''d'', [(''b'', 20), (''c'', 30)])]"
    using diamond_success by (elim exE conjE) (rule that)
  have "(''d'', [(''b'', 20), (''c'', 30)]) \<in> set (map (\<lambda>c. (call_step_id c, call_dependencies c)) (calls acts))"
    unfolding calls by simp
  then obtain call where call: "call \<in> set (calls acts)" "call_step_id call = ''d''"
    "call_dependencies call = [(''b'', 20), (''c'', 30)]"
    by auto
  have "wf_step (wreq_definition diamond_request) ''d'' = Some \<lparr>def_id = ''d'', def_needs = [''b'', ''c''], def_job = 4\<rparr>"
    by code_simp
  with call_carries_dependencies [OF diamond_compiled zero_less_numeral e call(1)] call e show ?thesis by auto
qed

text \<open>C7: once the run has stopped (caller cancellation, deadline or a step failure) nothing more is
  launched or called, and it does not stop a second time.\<close>

theorem nothing_starts_after_stop:
  assumes "compiled (wreq_definition req)" and "0 < m" and "execution req m (pc, now, st) acts"
    and "acts = pre @ Stopped r # post"
  shows "launches post = [] \<and> calls post = [] \<and> stops post = [] \<and> stops pre = [] \<and> rs_stop st = Some r"
proof -
  have q: "quiet_after_stop acts" and s: "stops acts = (case rs_stop st of None \<Rightarrow> [] | Some r \<Rightarrow> [r])"
    using execution_parts(8) [OF assms(1-3)] by (simp_all add: stops_ok_def)
  from s assms(4) have "rs_stop st = Some r \<and> stops pre = []" 
    by (cases "rs_stop st"; cases "stops pre") auto
  with q assms(4) show ?thesis by (simp add: quiet_after_stop_append)
qed

theorem nothing_starts_after_stop_witness:
  "\<exists>st pre post. execution diamond_request 2 (Returned (Inl diamond_failed), 0, st) (pre @ Stopped StepFailure # post)
     \<and> launches post = [] \<and> calls post = []"
proof -
  obtain st acts where e: "execution diamond_request 2 (Returned (Inl diamond_failed), 0, st) acts"
    and "stops acts = [StepFailure]"
    using diamond_failure by auto
  then obtain pre post where acts: "acts = pre @ Stopped StepFailure # post" using stops_split by blast
  from nothing_starts_after_stop [OF diamond_compiled zero_less_numeral e acts] e acts show ?thesis by auto
qed

text \<open>C3: a run returns only after every call it made has settled, and a successful return means that no
  stop occurred, every step of the definition has the output it settled with, and the leaf outputs
  are those of the steps nothing depends on.\<close>

theorem success_is_complete:
  assumes "compiled (wreq_definition req)" and "0 < m" and "execution req m (Returned r, now, st) acts"
  shows "(\<forall>call \<in> set (calls acts). \<exists>s. (call_step_id call, Settled s) \<in> set (takes acts))
    \<and> (case r of
         Inl _ \<Rightarrow> stops acts \<noteq> []
       | Inr out \<Rightarrow>
           stops acts = [] \<and> bt_keys (wo_outputs out) = bt_keys (wf_steps (wreq_definition req))
           \<and> (\<forall>k v. map_of (wo_outputs out) k = Some v \<longleftrightarrow> (k, Settled (Inr v)) \<in> set (takes acts))
           \<and> (\<forall>k v. map_of (wo_leaf_outputs out) k = Some v \<longleftrightarrow>
                k \<in> def_id ` set (wf_leaves (wreq_definition req)) \<and> map_of (wo_outputs out) k = Some v))"
proof -
  note parts = execution_parts [OF assms]
  have empty: "rs_in_flight st = []" and fin: "execute_finish req st = Some r"
    using parts(5) by (simp_all add: pc_ok_def flying_def)
  have settled: "\<forall>call \<in> set (calls acts). \<exists>s. (call_step_id call, Settled s) \<in> set (takes acts)"
    using parts(7) empty unfolding crossings_ok_def by fastforce
  have stops: "stops acts = (case rs_stop st of None \<Rightarrow> [] | Some r \<Rightarrow> [r])"
    using parts(8) by (simp add: stops_ok_def)
  show ?thesis
  proof (cases r)
    case (Inl f)
    have "rs_stop st \<noteq> None"
    proof
      assume none: "rs_stop st = None"
      have "length (rs_outputs st) = length (wf_steps (wreq_definition req))"
        using returned_unstopped [OF assms none] by (metis bt_keys_def graph_nodes_def length_map)
      with fin none Inl show False by (auto simp: execute_finish_def Let_def split: option.splits)
    qed
    with Inl stops settled show ?thesis by auto
  next
    case (Inr out)
    note facts = returned_outcome [OF assms(1,2) assms(3) [unfolded Inr]]
    show ?thesis
      using settled stops facts gather_Some [OF facts(4)] taken_outputs [OF parts(6)]
      by (simp add: Inr graph_nodes_def)
  qed
qed

theorem success_is_complete_witness:
  "\<exists>(st :: diamond_state) acts. execution diamond_request 2 (Returned (Inr diamond_outcome), 0, st) acts
     \<and> (''d'', Settled (Inr 40)) \<in> set (takes acts)"
proof -
  obtain st :: diamond_state and acts where e: "execution diamond_request 2 (Returned (Inr diamond_outcome), 0, st) acts"
    using diamond_success by blast
  have "map_of (wo_outputs diamond_outcome) ''d'' = Some 40" by code_simp
  with success_is_complete [OF diamond_compiled zero_less_numeral e] e show ?thesis by auto
qed

text \<open>C4: a failed return says why. The failure carries exactly the outputs and the errors that called
  steps settled with, the errors ordered by step; it is \<open>Cancelled\<close> only when the caller cancelled,
  \<open>DeadlineExceeded\<close> only when the deadline passed, \<open>StepsFailed\<close> only with at least one error, and
  \<open>Incomplete\<close> never happens.\<close>

theorem failure_is_classified:
  assumes "compiled (wreq_definition req)" and "0 < m" and "execution req m (Returned (Inl f), now, st) acts"
  shows "(\<forall>k v. map_of (wf_failure_completed f) k = Some v \<longleftrightarrow> (k, Settled (Inr v)) \<in> set (takes acts))
    \<and> (case f of
         WfCancelled _ _ _ _ fs \<Rightarrow>
           is_cancelled (rs_cancelled st) (caller_token req) \<and> stops acts = [ExternalCancellation]
           \<and> fs = sorted_failures (rs_failures st)
       | WfDeadlineExceeded _ _ _ _ fs \<Rightarrow>
           deadline_passed req now \<and> stops acts = [Deadline] \<and> fs = sorted_failures (rs_failures st)
       | WfStepsFailed _ _ _ _ fs \<Rightarrow>
           fs \<noteq> [] \<and> stops acts = [StepFailure] \<and> fs = sorted_failures (rs_failures st)
       | WfIncomplete _ _ _ _ _ \<Rightarrow> False)
    \<and> sorted (map sf_step_id (sorted_failures (rs_failures st)))
    \<and> (\<forall>k e. \<lparr>sf_step_id = k, sf_error = e\<rparr> \<in> set (sorted_failures (rs_failures st)) \<longleftrightarrow> (k, Settled (Inl e)) \<in> set (takes acts))"
proof -
  note parts = execution_parts [OF assms]
  have fin: "execute_finish req st = Some (Inl f)" using parts(5) by (simp add: pc_ok_def)
  have stops: "stops acts = (case rs_stop st of None \<Rightarrow> [] | Some r \<Rightarrow> [r])"
    using parts(8) by (simp add: stops_ok_def)
  have sorted: "sorted (map sf_step_id (sorted_failures (rs_failures st)))"
    and set_eq: "set (sorted_failures (rs_failures st)) = set (rs_failures st)"
    by (simp_all add: sorted_failures_def)
  obtain reason where reason: "rs_stop st = Some reason"
  proof (cases "rs_stop st")
    case None
    have "length (rs_outputs st) = length (wf_steps (wreq_definition req))"
      using returned_unstopped [OF assms None] by (metis bt_keys_def graph_nodes_def length_map)
    then show ?thesis using fin None by (auto simp: execute_finish_def Let_def)
  qed
  have "sorted_failures (rs_failures st) \<noteq> []" if "rs_failures st \<noteq> []"
    using that set_eq by (metis set_empty)
  then show ?thesis
    using fin reason stops sorted set_eq parts(4) taken_outputs [OF parts(6)] taken_failures [OF parts(6)]
    by (cases reason) (auto simp: execute_finish_def Let_def tokens_ok_def)
qed

theorem failure_is_classified_witness:
  "\<exists>st acts. execution diamond_request 2 (Returned (Inl diamond_failed), 0, st) acts
     \<and> (''c'', Settled (Inl ''boom'')) \<in> set (takes acts) \<and> (''b'', Settled (Inr 20)) \<in> set (takes acts)"
proof -
  obtain st acts where e: "execution diamond_request 2 (Returned (Inl diamond_failed), 0, st) acts"
    using diamond_failure by blast
  have "map_of (wf_failure_completed diamond_failed) ''b'' = Some 20" by code_simp
  then have "(''b'', Settled (Inr 20)) \<in> set (takes acts)"
    using failure_is_classified [OF diamond_compiled zero_less_numeral e] by simp
  moreover have "(''c'', Settled (Inl ''boom'')) \<in> set (takes acts)"
  proof -
    have "sorted_failures (rs_failures st) = [\<lparr>sf_step_id = ''c'', sf_error = ''boom''\<rparr>]"
      using failure_is_classified [OF diamond_compiled zero_less_numeral e] by (simp add: diamond_failed_def)
    then have "\<lparr>sf_step_id = ''c'', sf_error = ''boom''\<rparr> \<in> set (sorted_failures (rs_failures st))" by simp
    then show ?thesis using failure_is_classified [OF diamond_compiled zero_less_numeral e] by blast
  qed
  ultimately show ?thesis using e by blast
qed

text \<open>C8: no choice of the environment adds work and every choice other than waiting removes some, so a
  run cannot go on for ever; and from every configuration, whatever the dispatcher answers, a
  dispatcher that becomes ready and settles its calls brings the run to a return.\<close>

theorem run_terminates:
  assumes "compiled (wreq_definition req)" and "0 < m" and "execution req m c acts"
    and "execute_outgoing (wreq_definition req) = Some outgoing"
  shows "(\<forall>x c' acts'. exec_step req m outgoing c x = Some (c', acts') \<longrightarrow>
      work_left req c' (acts @ acts') \<le> work_left req c acts
      \<and> (consumes c x c' \<longrightarrow> work_left req c' (acts @ acts') < work_left req c acts))
    \<and> (\<exists>xs r now st acts'. list_all (cooperative answer) xs
         \<and> exec_run req m outgoing xs c = Some ((Returned r, now, st), acts'))"
proof -
  obtain outgoing' where "execute_outgoing (wreq_definition req) = Some outgoing'"
    "adjacency_ok (wf_steps (wreq_definition req)) outgoing'"
    using execute_outgoing_compiled [OF assms(1)] by blast
  with assms(4) have adj: "adjacency_ok (wf_steps (wreq_definition req)) outgoing" by simp
  have ok: "run_ok req m c acts" by (rule execution_ok [OF assms(1-3)])
  show ?thesis
    using exec_step_work [OF assms(1,2) adj ok] run_can_return [OF assms(1,2) adj ok] by blast
qed

theorem run_terminates_witness:
  "\<exists>xs r now st acts'. list_all (cooperative (\<lambda>sid. Inl sid)) xs
     \<and> exec_run diamond_request 2 diamond_outgoing xs diamond_start = Some ((Returned r, now, st), acts')"
  using run_terminates [OF diamond_compiled zero_less_numeral diamond_execution [of "[]"] diamond_outgoing, of _ _ "\<lambda>sid. Inl sid"]
  by simp

end
