(* ===== verification/Agent_Error.thy ===== *)
theory Agent_Error
  imports Response
begin

text \<open>
  \<open>error.rs\<close>: the four independent dimensions of a failure (kind, phase, effects, evidence), its
  constructors, and the composition of an outer failure with the settlement it wraps
  (\<open>with_cause\<close>).
\<close>

section \<open>Kinds, phases, effect states\<close>

datatype error_kind =
    InvalidRequest | Authentication | Unauthorized | Unsupported | Busy | Unavailable
  | DeadlineExceeded | Cancelled | Budget | Limit | Provider | Internal

fun error_kind_display :: "error_kind \<Rightarrow> string" where
  "error_kind_display InvalidRequest = ''invalid_request''"
| "error_kind_display Authentication = ''authentication''"
| "error_kind_display Unauthorized = ''unauthorized''"
| "error_kind_display Unsupported = ''unsupported''"
| "error_kind_display Busy = ''busy''"
| "error_kind_display Unavailable = ''unavailable''"
| "error_kind_display DeadlineExceeded = ''deadline_exceeded''"
| "error_kind_display Cancelled = ''cancelled''"
| "error_kind_display Budget = ''budget''"
| "error_kind_display Limit = ''limit''"
| "error_kind_display Provider = ''provider''"
| "error_kind_display Internal = ''internal''"

datatype failure_phase = Admission | Validation | Launch | Running | Settlement

fun failure_phase_display :: "failure_phase \<Rightarrow> string" where
  "failure_phase_display Admission = ''admission''"
| "failure_phase_display Validation = ''validation''"
| "failure_phase_display Launch = ''launch''"
| "failure_phase_display Running = ''running''"
| "failure_phase_display Settlement = ''settlement''"

datatype effect_state = EffNone | EffPossible | EffReported

fun effect_state_display :: "effect_state \<Rightarrow> string" where
  "effect_state_display EffNone = ''none''"
| "effect_state_display EffPossible = ''possible''"
| "effect_state_display EffReported = ''reported''"

fun effect_combine :: "effect_state \<Rightarrow> effect_state \<Rightarrow> effect_state" where
  "effect_combine EffReported _ = EffReported"
| "effect_combine _ EffReported = EffReported"
| "effect_combine EffPossible _ = EffPossible"
| "effect_combine _ EffPossible = EffPossible"
| "effect_combine EffNone EffNone = EffNone"

text \<open>Effect states ordered by how much they admit; \<open>combine\<close> is then the maximum.\<close>

fun effect_rank :: "effect_state \<Rightarrow> nat" where
  "effect_rank EffNone = 0"
| "effect_rank EffPossible = 1"
| "effect_rank EffReported = 2"

instantiation effect_state :: linorder
begin

definition less_eq_effect_state :: "effect_state \<Rightarrow> effect_state \<Rightarrow> bool" where
  "less_eq_effect_state a b \<longleftrightarrow> effect_rank a \<le> effect_rank b"

definition less_effect_state :: "effect_state \<Rightarrow> effect_state \<Rightarrow> bool" where
  "less_effect_state a b \<longleftrightarrow> effect_rank a < effect_rank b"

instance
proof
  fix a b :: effect_state
  assume "a \<le> b" and "b \<le> a"
  then show "a = b" by (cases a; cases b) (simp_all add: less_eq_effect_state_def)
qed (auto simp: less_eq_effect_state_def less_effect_state_def)

end

lemma effect_combine_max: "effect_combine a b = max a b"
  by (cases a; cases b) (simp_all add: max_def less_eq_effect_state_def)

lemma EffNone_least [simp]: "EffNone \<le> a"
  by (simp add: less_eq_effect_state_def)

lemma EffReported_greatest [simp]: "a \<le> EffReported"
  by (cases a) (simp_all add: less_eq_effect_state_def)

lemma max_EffNone [simp]: "max EffNone a = a" "max a EffNone = a"
  by (simp_all add: max_absorb1 max_absorb2)

lemma effect_combine_EffNone_iff: "effect_combine a b = EffNone \<longleftrightarrow> a = EffNone \<and> b = EffNone"
  by (cases a; cases b) simp_all

interpretation effects: layering effect_combine EffNone
  by unfold_locales (auto simp: effect_combine_max ac_simps)

section \<open>The error\<close>

definition max_retry_after :: duration where
  "max_retry_after = duration_from_secs (60 * 60)"

datatype agent_error = AgentError
  (err_kind: error_kind)
  (err_message: string)
  (err_phase: failure_phase)
  (err_effects: effect_state)
  (err_evidence: "failure_evidence option")
  (err_retry_after: "duration option")
  (err_cause: "agent_error option")

definition error_new :: "error_kind \<Rightarrow> string \<Rightarrow> failure_phase \<Rightarrow> effect_state \<Rightarrow> agent_error" where
  "error_new kind message phase effects = AgentError kind message phase effects None None None"

text \<open>\<open>#[error("{kind}: {message}")]\<close>\<close>

definition agent_error_display :: "agent_error \<Rightarrow> string" where
  "agent_error_display e = error_kind_display (err_kind e) @ '': '' @ err_message e"

definition invalid_request :: "string \<Rightarrow> agent_error" where
  "invalid_request message = error_new InvalidRequest message Validation EffNone"

definition unavailable :: "string \<Rightarrow> agent_error" where
  "unavailable message = error_new Unavailable message Admission EffNone"

definition cancelled_before_launch :: "string \<Rightarrow> agent_error" where
  "cancelled_before_launch provider =
     error_new Cancelled (provider @ '' turn was cancelled before launch'') Admission EffNone"

definition cancelled_in_flight :: "string \<Rightarrow> agent_error" where
  "cancelled_in_flight provider =
     error_new Cancelled (provider @ '' turn was cancelled'') Running EffPossible"

definition launch_failed :: "string \<Rightarrow> agent_error" where
  "launch_failed provider =
     error_new Provider (provider @ '' could not be initialized'') Launch EffNone"

definition command_failed :: "string \<Rightarrow> i32 \<Rightarrow> agent_error" where
  "command_failed provider exit_code =
     error_new Provider
       (provider @ '' command failed with exit code '' @ show_int (sint exit_code)) Running EffPossible"

definition busy :: agent_error where
  "busy = error_new Busy ''agent service is busy'' Admission EffNone"

definition deadline_exceeded :: "effect_state \<Rightarrow> agent_error" where
  "deadline_exceeded effects =
     error_new DeadlineExceeded ''agent operation exceeded its deadline'' Running effects"

definition cancelled :: "effect_state \<Rightarrow> agent_error" where
  "cancelled effects = error_new Cancelled ''agent operation was cancelled'' Running effects"

definition unsupported :: "string \<Rightarrow> agent_error" where
  "unsupported message = error_new Unsupported message Validation EffNone"

fun with_retry_after :: "agent_error \<Rightarrow> duration \<Rightarrow> agent_error" where
  "with_retry_after (AgentError k m p ef ev ra c) after =
     AgentError k m p ef ev (Some (min after max_retry_after)) c"

fun with_evidence :: "agent_error \<Rightarrow> failure_evidence \<Rightarrow> agent_error" where
  "with_evidence (AgentError k m p ef ev ra c) evidence = AgentError k m p ef (Some evidence) ra c"

fun with_cause :: "agent_error \<Rightarrow> agent_error \<Rightarrow> agent_error" where
  "with_cause (AgentError k m p ef ev ra c) cause =
     AgentError k m p
       (effect_combine ef (err_effects cause))
       (case err_evidence cause of
          None \<Rightarrow> ev
        | Some cause_evidence \<Rightarrow>
            (case ev of
               Some evidence \<Rightarrow> Some (merge_missing evidence cause_evidence)
             | None \<Rightarrow> Some cause_evidence))
       (if ra = None then err_retry_after cause else ra)
       (Some cause)"

section \<open>Lemmas\<close>

lemma error_new_sel [simp]:
  "err_kind (error_new k m p ef) = k"
  "err_message (error_new k m p ef) = m"
  "err_phase (error_new k m p ef) = p"
  "err_effects (error_new k m p ef) = ef"
  "err_evidence (error_new k m p ef) = None"
  "err_retry_after (error_new k m p ef) = None"
  "err_cause (error_new k m p ef) = None"
  by (simp_all add: error_new_def)

lemmas error_constructors =
  invalid_request_def unavailable_def cancelled_before_launch_def cancelled_in_flight_def
  launch_failed_def command_failed_def busy_def deadline_exceeded_def cancelled_def unsupported_def

lemma with_evidence_sel [simp]:
  "err_kind (with_evidence e v) = err_kind e"
  "err_message (with_evidence e v) = err_message e"
  "err_phase (with_evidence e v) = err_phase e"
  "err_effects (with_evidence e v) = err_effects e"
  "err_evidence (with_evidence e v) = Some v"
  "err_retry_after (with_evidence e v) = err_retry_after e"
  "err_cause (with_evidence e v) = err_cause e"
  by (cases e; simp)+

lemma with_cause_sel [simp]:
  "err_kind (with_cause e c) = err_kind e"
  "err_message (with_cause e c) = err_message e"
  "err_phase (with_cause e c) = err_phase e"
  "err_effects (with_cause e c) = effect_combine (err_effects e) (err_effects c)"
  "err_retry_after (with_cause e c) = overlay_option (err_retry_after c) (err_retry_after e)"
  "err_cause (with_cause e c) = Some c"
  by (cases e; auto simp: overlay_option_def option_or_def split: option.splits)+

lemma with_retry_after_sel [simp]:
  "err_kind (with_retry_after e d) = err_kind e"
  "err_effects (with_retry_after e d) = err_effects e"
  "err_retry_after (with_retry_after e d) = Some (min d max_retry_after)"
  by (cases e; simp)+

text \<open>The evidence of an error, with absence read as the empty record.\<close>

definition evidence_of :: "agent_error \<Rightarrow> failure_evidence" where
  "evidence_of e = unwrap_or (err_evidence e) failure_evidence_default"

lemma evidence_of_with_cause:
  "evidence_of (with_cause e c) = merge_missing (evidence_of e) (evidence_of c)"
  using evidence.overlay_unbound_low [of "evidence_of e"] evidence.overlay_unbound_high [of "evidence_of c"]
  by (cases e; cases "err_evidence c"; cases "err_evidence e") (simp_all add: evidence_of_def)

lemma evidence_of_with_evidence [simp]: "evidence_of (with_evidence e v) = v"
  by (cases e) (simp add: evidence_of_def)

lemma evidence_of_new [simp]: "evidence_of (error_new k m p ef) = failure_evidence_default"
  by (simp add: evidence_of_def)

lemma ev_session_default [simp]: "ev_session failure_evidence_default = None"
  by (simp add: failure_evidence_default_def)

text \<open>A refusal that is a pure function of the turn: a validation failure without effects or evidence.\<close>

definition pure_refusal :: "agent_error \<Rightarrow> bool" where
  "pure_refusal e \<longleftrightarrow> err_phase e = Validation \<and> err_effects e = EffNone \<and> err_evidence e = None"

lemma pure_refusal_constructors [simp]:
  "pure_refusal (invalid_request m)" "pure_refusal (unsupported m)" "pure_refusal (error_new k m Validation EffNone)"
  by (simp_all add: pure_refusal_def error_constructors)

text \<open>
  An error wrapped by several layers, outermost first: each outer failure takes the error below
  it as its cause, as \<open>DeadlineLayer\<close> and \<open>FaultLayer\<close> do.
\<close>

fun wrap_causes :: "agent_error \<Rightarrow> agent_error list \<Rightarrow> agent_error" where
  "wrap_causes e [] = e"
| "wrap_causes e (c # cs) = with_cause e (wrap_causes c cs)"

lemma wrap_causes_effects: "err_effects (wrap_causes e cs) = Max (set (map err_effects (e # cs)))"
  by (induction e cs rule: wrap_causes.induct) (simp_all add: effect_combine_max)

lemma wrap_causes_evidence:
  "evidence_of (wrap_causes e cs) =
     foldl (\<lambda>low high. merge_missing high low) failure_evidence_default (rev (map evidence_of (e # cs)))"
proof (induction e cs rule: wrap_causes.induct)
  case (1 e)
  show ?case using evidence.overlay_unbound_low [of "evidence_of e"] by simp
next
  case (2 e c cs)
  then show ?case by (simp add: evidence_of_with_cause)
qed

end
