(* ===== verification/Authority.thy ===== *)
theory Authority
  imports Request Agent_Error
begin

text \<open>
  \<open>authority.rs\<close>: the filesystem ceiling of the host, its writable roots, and the authorization
  of a turn against both. \<open>std::fs::canonicalize\<close> reads the file system and is a parameter.
\<close>

section \<open>Levels\<close>

datatype filesystem_authority = ReadOnly | WorkspaceWrite | FullAccess

text \<open>\<open>#[repr(u8)]\<close>: the discriminant, in declaration order.\<close>

fun authority_rank :: "filesystem_authority \<Rightarrow> nat" where
  "authority_rank ReadOnly = 0"
| "authority_rank WorkspaceWrite = 1"
| "authority_rank FullAccess = 2"

instantiation filesystem_authority :: linorder
begin

definition less_eq_filesystem_authority :: "filesystem_authority \<Rightarrow> filesystem_authority \<Rightarrow> bool" where
  "less_eq_filesystem_authority a b \<longleftrightarrow> authority_rank a \<le> authority_rank b"

definition less_filesystem_authority :: "filesystem_authority \<Rightarrow> filesystem_authority \<Rightarrow> bool" where
  "less_filesystem_authority a b \<longleftrightarrow> authority_rank a < authority_rank b"

instance
proof
  fix a b :: filesystem_authority
  assume "a \<le> b" and "b \<le> a"
  then show "a = b" by (cases a; cases b) (simp_all add: less_eq_filesystem_authority_def)
qed (auto simp: less_eq_filesystem_authority_def less_filesystem_authority_def)

end

definition authority_allows :: "filesystem_authority \<Rightarrow> filesystem_authority \<Rightarrow> bool" where
  "authority_allows self requested \<longleftrightarrow> authority_rank requested \<le> authority_rank self"

definition authority_intersect ::
  "filesystem_authority \<Rightarrow> filesystem_authority \<Rightarrow> filesystem_authority" where
  "authority_intersect self other = (if authority_rank self \<le> authority_rank other then self else other)"

fun authority_display :: "filesystem_authority \<Rightarrow> string" where
  "authority_display ReadOnly = ''read_only''"
| "authority_display WorkspaceWrite = ''workspace_write''"
| "authority_display FullAccess = ''full_access''"

section \<open>Paths\<close>

text \<open>
  \<open>Path::components\<close> on Unix: the root of an absolute path is a component, repeated separators and
  inner \<open>.\<close> components disappear, a leading \<open>.\<close> stays. \<open>Path::starts_with\<close> compares components.
\<close>

fun split_slash :: "string \<Rightarrow> string \<Rightarrow> string list" where
  "split_slash acc [] = [rev acc]"
| "split_slash acc (c # cs) = (if c = CHR ''/'' then rev acc # split_slash [] cs else split_slash (c # acc) cs)"

definition path_components :: "path \<Rightarrow> string list" where
  "path_components p =
     (case split_slash [] p of
        [] \<Rightarrow> []
      | s # rest \<Rightarrow>
          (if s = [] \<and> p \<noteq> [] then [''/''] else if s = [] then [] else [s])
          @ filter (\<lambda>c. c \<noteq> [] \<and> c \<noteq> ''.'') rest)"

definition path_starts_with :: "path \<Rightarrow> path \<Rightarrow> bool" where
  "path_starts_with p base \<longleftrightarrow> prefix (path_components base) (path_components p)"

section \<open>Policy\<close>

record authority_policy =
  filesystem_ceiling :: filesystem_authority
  writable_roots :: "path list"

definition authority_policy_new :: "filesystem_authority \<Rightarrow> authority_policy" where
  "authority_policy_new ceiling = \<lparr>filesystem_ceiling = ceiling, writable_roots = []\<rparr>"

definition authority_policy_read_only :: authority_policy where
  "authority_policy_read_only = authority_policy_new ReadOnly"

text \<open>\<open>canonicalize\<close> answers with the canonical path or the rendering of its \<open>io::Error\<close>.\<close>

definition allow_writable_root ::
  "(path \<Rightarrow> string + path) \<Rightarrow> authority_policy \<Rightarrow> path \<Rightarrow> string + authority_policy" where
  "allow_writable_root canonicalize self root =
     and_then (canonicalize root) (\<lambda>canonical.
       Inr (if canonical \<in> set (writable_roots self) then self
            else self\<lparr>writable_roots := writable_roots self @ [canonical]\<rparr>))"

definition unauthorized :: "string \<Rightarrow> agent_error" where
  "unauthorized message = error_new Unauthorized message Validation EffNone"

definition authorize_writable_root ::
  "(path \<Rightarrow> string + path) \<Rightarrow> authority_policy \<Rightarrow> path \<Rightarrow> agent_error + unit" where
  "authorize_writable_root canonicalize self requested =
     and_then
       (map_err (\<lambda>error. invalid_request
            (''requested filesystem root '' @ requested @ '' cannot be resolved: '' @ error))
          (canonicalize requested))
       (\<lambda>canonical.
          if list_ex (\<lambda>allowed. path_starts_with canonical allowed) (writable_roots self) then Inr ()
          else Inl (unauthorized (''requested writable root '' @ requested @ '' is outside host policy'')))"

fun authorize_roots ::
  "(path \<Rightarrow> string + path) \<Rightarrow> authority_policy \<Rightarrow> path list \<Rightarrow> agent_error + unit" where
  "authorize_roots canonicalize self [] = Inr ()"
| "authorize_roots canonicalize self (p # ps) =
     and_then (authorize_writable_root canonicalize self p) (\<lambda>_. authorize_roots canonicalize self ps)"

text \<open>
  \<open>RequestsFilesystemAuthority\<close> is the pair of functions \<open>requested_of\<close> and \<open>roots_of\<close> on the
  options of the turn.
\<close>

definition authorize ::
  "(path \<Rightarrow> string + path) \<Rightarrow> ('o \<Rightarrow> filesystem_authority) \<Rightarrow> ('o \<Rightarrow> path list)
     \<Rightarrow> authority_policy \<Rightarrow> 'o turn \<Rightarrow> agent_error + unit" where
  "authorize canonicalize requested_of roots_of self turn =
     (let requested = requested_of (turn_options turn)
      in if \<not> authority_allows (filesystem_ceiling self) requested
         then Inl (unauthorized (''requested filesystem authority '' @ authority_display requested
                @ '' exceeds host ceiling '' @ authority_display (filesystem_ceiling self)))
         else if requested \<noteq> WorkspaceWrite then Inr ()
         else and_then
                (case turn_working_directory turn of
                   None \<Rightarrow> Inr ()
                 | Some directory \<Rightarrow> authorize_writable_root canonicalize self directory)
                (\<lambda>_. authorize_roots canonicalize self (roots_of (turn_options turn))))"

section \<open>Lemmas\<close>

lemma authority_allows_le: "authority_allows a b \<longleftrightarrow> b \<le> a"
  by (simp add: authority_allows_def less_eq_filesystem_authority_def)

lemma authority_intersect_min: "authority_intersect a b = min a b"
  by (cases a; cases b) (simp_all add: authority_intersect_def min_def less_eq_filesystem_authority_def)

text \<open>A requested root is contained when it resolves to a path at or below an allowed root.\<close>

definition root_contained :: "(path \<Rightarrow> string + path) \<Rightarrow> authority_policy \<Rightarrow> path \<Rightarrow> bool" where
  "root_contained canonicalize self p \<longleftrightarrow>
     (case canonicalize p of
        Inl _ \<Rightarrow> False
      | Inr canonical \<Rightarrow> list_ex (\<lambda>allowed. path_starts_with canonical allowed) (writable_roots self))"

text \<open>Every path a workspace-write turn names, in the order they are checked.\<close>

definition requested_roots :: "('o \<Rightarrow> path list) \<Rightarrow> 'o turn \<Rightarrow> path list" where
  "requested_roots roots_of turn =
     (case turn_working_directory turn of None \<Rightarrow> [] | Some d \<Rightarrow> [d]) @ roots_of (turn_options turn)"

lemma authorize_writable_root_ok:
  "is_ok (authorize_writable_root canonicalize self p) \<longleftrightarrow> root_contained canonicalize self p"
  by (cases "canonicalize p") (simp_all add: authorize_writable_root_def root_contained_def)

lemma authorize_roots_ok:
  "is_ok (authorize_roots canonicalize self ps) \<longleftrightarrow> list_all (root_contained canonicalize self) ps"
proof (induction ps)
  case Nil
  then show ?case by simp
next
  case (Cons p ps)
  then show ?case
    using authorize_writable_root_ok [of canonicalize self p]
    by (cases "authorize_writable_root canonicalize self p") auto
qed

lemma authorize_eq:
  "authorize canonicalize requested_of roots_of self turn =
     (if \<not> requested_of (turn_options turn) \<le> filesystem_ceiling self
      then Inl (unauthorized (''requested filesystem authority '' @ authority_display (requested_of (turn_options turn))
             @ '' exceeds host ceiling '' @ authority_display (filesystem_ceiling self)))
      else if requested_of (turn_options turn) \<noteq> WorkspaceWrite then Inr ()
      else authorize_roots canonicalize self (requested_roots roots_of turn))"
  by (auto simp: authorize_def Let_def authority_allows_le requested_roots_def split: option.splits)

lemma authorize_ok_iff:
  "is_ok (authorize canonicalize requested_of roots_of self turn) \<longleftrightarrow>
     requested_of (turn_options turn) \<le> filesystem_ceiling self
     \<and> (requested_of (turn_options turn) = WorkspaceWrite \<longrightarrow>
          list_all (root_contained canonicalize self) (requested_roots roots_of turn))"
  by (simp add: authorize_eq authorize_roots_ok)

lemma root_contained_ceiling:
  "root_contained canonicalize (self\<lparr>filesystem_ceiling := c\<rparr>) = root_contained canonicalize self"
  by (simp add: root_contained_def fun_eq_iff split: sum.splits)

lemma authorize_roots_error:
  "authorize_roots canonicalize self ps = Inl e \<Longrightarrow>
     \<exists>p \<in> set ps. \<not> root_contained canonicalize self p
       \<and> err_kind e = (if is_ok (canonicalize p) then Unauthorized else InvalidRequest)
       \<and> err_phase e = Validation \<and> err_effects e = EffNone \<and> err_evidence e = None"
proof (induction ps)
  case Nil
  then show ?case by simp
next
  case (Cons p ps)
  show ?case
  proof (cases "authorize_writable_root canonicalize self p")
    case (Inl e')
    with Cons.prems have "e = e'" by simp
    with Inl authorize_writable_root_ok [of canonicalize self p] show ?thesis
      by (cases "canonicalize p")
        (auto simp: authorize_writable_root_def unauthorized_def invalid_request_def split: if_splits)
  next
    case (Inr u)
    with Cons show ?thesis by auto
  qed
qed

lemma authorize_error_shape:
  "authorize canonicalize requested_of roots_of self turn = Inl e \<Longrightarrow>
     err_phase e = Validation \<and> err_effects e = EffNone \<and> err_evidence e = None"
  using authorize_roots_error [of canonicalize self "requested_roots roots_of turn" e]
  by (auto simp: authorize_eq unauthorized_def split: if_splits)

section \<open>Properties\<close>

text \<open>C10: a turn is authorized exactly when its level is within the host ceiling and, for a
  workspace-write turn, its working directory and every additional root resolve to a path inside an
  allowed root.\<close>

theorem authorize_iff:
  "is_ok (authorize canonicalize requested_of roots_of self turn) \<longleftrightarrow>
     requested_of (turn_options turn) \<le> filesystem_ceiling self
     \<and> (if requested_of (turn_options turn) = WorkspaceWrite
         then list_all (root_contained canonicalize self) (requested_roots roots_of turn) else True)"
  by (simp add: authorize_ok_iff)

text \<open>A refusal is a validation failure with no effects; it is \<open>InvalidRequest\<close> only for a
  root that does not resolve and \<open>Unauthorized\<close> otherwise.\<close>

theorem authorize_refusal:
  assumes "authorize canonicalize requested_of roots_of self turn = Inl e"
  shows "err_phase e = Validation \<and> err_effects e = EffNone \<and> err_evidence e = None
    \<and> (err_kind e = InvalidRequest \<and> (\<exists>p \<in> set (requested_roots roots_of turn). \<not> is_ok (canonicalize p))
       \<or> err_kind e = Unauthorized)"
proof (cases "requested_of (turn_options turn) \<le> filesystem_ceiling self")
  case False
  with assms show ?thesis by (auto simp: authorize_eq unauthorized_def)
next
  case True
  with assms have "authorize_roots canonicalize self (requested_roots roots_of turn) = Inl e"
    by (simp add: authorize_eq split: if_splits)
  from authorize_roots_error [OF this] show ?thesis by (auto split: if_splits)
qed

theorem authorize_refusal_witness:
  "\<exists>e. authorize (\<lambda>p. if p = ''/gone'' then Inl ''No such file'' else Inr p)
       (\<lambda>_. WorkspaceWrite) (\<lambda>_. [''/srv/work/a'', ''/gone''])
       \<lparr>filesystem_ceiling = FullAccess, writable_roots = [''/srv/work'']\<rparr>
       (turn_in_directory (turn_new ''edit'') ''/srv/work'') = Inl e \<and> err_phase e = Validation"
proof -
  let ?r = "authorize (\<lambda>p. if p = ''/gone'' then Inl ''No such file'' else Inr p)
       (\<lambda>_. WorkspaceWrite) (\<lambda>_. [''/srv/work/a'', ''/gone''])
       \<lparr>filesystem_ceiling = FullAccess, writable_roots = [''/srv/work'']\<rparr>
       (turn_in_directory (turn_new ''edit'') ''/srv/work'')"
  have "?r = Inl (invalid_request ''requested filesystem root /gone cannot be resolved: No such file'')"
    by code_simp
  from authorize_refusal [OF this] this show ?thesis by blast
qed

text \<open>The intersection of two ceilings admits exactly the requests both admit, and narrowing a
  policy refuses exactly the turns above the new ceiling besides those it refused already.\<close>

theorem authority_intersect_admits:
  "(authority_allows (authority_intersect a b) r \<longleftrightarrow> authority_allows a r \<and> authority_allows b r)
   \<and> (is_ok (authorize canonicalize requested_of roots_of
        (self\<lparr>filesystem_ceiling := authority_intersect (filesystem_ceiling self) b\<rparr>) turn)
      \<longleftrightarrow> is_ok (authorize canonicalize requested_of roots_of self turn)
          \<and> authority_allows b (requested_of (turn_options turn)))"
  by (auto simp: authorize_ok_iff authority_allows_le authority_intersect_min root_contained_ceiling)

end
