(* ===== verification/Service.thy ===== *)
theory Service
  imports Authority
begin

text \<open>
  What a Tower service and a layer are in this repository. A call ends with a typed settlement, or
  unwinds (in \<open>call\<close> itself or while its future is polled). A layer looks at one request and
  either refuses it without calling the service below, or forwards it and transforms how that call
  ends. The locale \<open>honest_layer\<close> is the contract of \<open>docs/architecture.md\<close> every layer keeps: a
  refusal claims no effects and happens before launch, and a forwarded call never ends with less
  admitted effect or other terminal evidence than the call below ended with.
\<close>

section \<open>How a call ends\<close>

text \<open>A panic payload: \<open>&str\<close>, \<open>String\<close>, or anything else.\<close>

datatype panic_payload = PayloadStr string | PayloadOther

datatype 'v ending =
    Settled "agent_error + 'v"
  | UnwoundInCall panic_payload
  | Unwound panic_payload

text \<open>What an ending admits about external effects: a response reports that the turn ran.\<close>

fun admitted :: "'v ending \<Rightarrow> effect_state" where
  "admitted (Settled (Inl e)) = err_effects e"
| "admitted (Settled (Inr r)) = EffReported"
| "admitted (UnwoundInCall p) = EffPossible"
| "admitted (Unwound p) = EffPossible"

text \<open>\<open>TerminalEvidence\<close> is a function from the response to its evidence.\<close>

fun ending_evidence :: "('v \<Rightarrow> failure_evidence) \<Rightarrow> 'v ending \<Rightarrow> failure_evidence" where
  "ending_evidence ev (Settled (Inl e)) = evidence_of e"
| "ending_evidence ev (Settled (Inr r)) = ev r"
| "ending_evidence ev (UnwoundInCall p) = failure_evidence_default"
| "ending_evidence ev (Unwound p) = failure_evidence_default"

text \<open>\<open>future.await\<close> followed by code that handles the result: an unwinding future skips it.\<close>

fun on_settled :: "(agent_error + 'v \<Rightarrow> agent_error + 'v) \<Rightarrow> 'v ending \<Rightarrow> 'v ending" where
  "on_settled f (Settled r) = Settled (f r)"
| "on_settled f (UnwoundInCall p) = UnwoundInCall p"
| "on_settled f (Unwound p) = Unwound p"

section \<open>Services and layers\<close>

text \<open>
  A service maps a request to the ending of its call and to whether the provider behind it was
  called at all.
\<close>

type_synonym ('req, 'v) service = "'req \<Rightarrow> 'v ending \<times> bool"

datatype 'v call_plan = Refuse agent_error | Forward "'v ending \<Rightarrow> 'v ending"

type_synonym ('req, 'v) layer = "'req \<Rightarrow> 'v call_plan"

definition apply_layer :: "('req, 'v) layer \<Rightarrow> ('req, 'v) service \<Rightarrow> ('req, 'v) service" where
  "apply_layer l inner r =
     (case l r of
        Refuse e \<Rightarrow> (Settled (Inl e), False)
      | Forward f \<Rightarrow> (let (x, reached) = inner r in (f x, reached)))"

text \<open>A stack of layers, outermost first.\<close>

definition apply_layers :: "('req, 'v) layer list \<Rightarrow> ('req, 'v) service \<Rightarrow> ('req, 'v) service" where
  "apply_layers ls inner = foldr apply_layer ls inner"

text \<open>
  The law a provider states by reporting \<open>EffectState::None\<close>: nothing was called, so the caller may
  retry.
\<close>

definition honest :: "('req, 'v) service \<Rightarrow> bool" where
  "honest svc \<longleftrightarrow> (\<forall>r. admitted (fst (svc r)) = EffNone \<longrightarrow> \<not> snd (svc r))"

section \<open>The contract of a layer\<close>

locale honest_layer =
  fixes layer :: "'env \<Rightarrow> ('req, 'v) layer" and ev :: "'v \<Rightarrow> failure_evidence"
  assumes refusal_before_launch: "layer env r = Refuse e \<Longrightarrow>
      err_effects e = EffNone \<and> err_phase e \<in> {Admission, Validation} \<and> evidence_of e = failure_evidence_default"
    and effects_never_shrink: "layer env r = Forward f \<Longrightarrow> admitted x \<le> admitted (f x)"
    and evidence_survives: "layer env r = Forward f \<Longrightarrow> ending_evidence ev (f x) = ending_evidence ev x"
begin

lemma keeps_honest:
  assumes "honest svc"
  shows "honest (apply_layer (layer env) svc)"
  unfolding honest_def
proof (intro allI impI)
  fix r
  assume none: "admitted (fst (apply_layer (layer env) svc r)) = EffNone"
  show "\<not> snd (apply_layer (layer env) svc r)"
  proof (cases "layer env r")
    case (Refuse e)
    then show ?thesis by (simp add: apply_layer_def)
  next
    case (Forward f)
    then have "admitted (fst (svc r)) \<le> EffNone"
      using effects_never_shrink [OF Forward, of "fst (svc r)"] none
      by (simp add: apply_layer_def case_prod_unfold Let_def)
    then have "admitted (fst (svc r)) = EffNone"
      using EffNone_least by (rule order.antisym)
    then have "\<not> snd (svc r)" using assms by (simp add: honest_def)
    with Forward show ?thesis by (simp add: apply_layer_def case_prod_unfold Let_def)
  qed
qed

text \<open>The evidence the caller sees is that of the call below, unless that call was never made.\<close>

lemma evidence_through:
  "ending_evidence ev (fst (apply_layer (layer env) svc r)) \<in> {ending_evidence ev (fst (svc r)), failure_evidence_default}"
  using refusal_before_launch evidence_survives
  by (cases "layer env r") (auto simp: apply_layer_def case_prod_unfold Let_def)

text \<open>A request that reached the provider was forwarded, so its evidence is the provider's.\<close>

lemma evidence_reached:
  "snd (apply_layer (layer env) svc r) \<Longrightarrow>
     snd (svc r) \<and> ending_evidence ev (fst (apply_layer (layer env) svc r)) = ending_evidence ev (fst (svc r))
     \<and> admitted (fst (svc r)) \<le> admitted (fst (apply_layer (layer env) svc r))"
  using evidence_survives effects_never_shrink
  by (cases "layer env r") (auto simp: apply_layer_def case_prod_unfold Let_def)

end

lemma on_settled_id: "on_settled (\<lambda>r. r) x = x"
  by (cases x) simp_all

text \<open>Shared reasoning for layers that only handle typed settlements.\<close>

lemma on_settled_admitted:
  "(\<And>r. admitted (Settled r) \<le> admitted (Settled (f r))) \<Longrightarrow> admitted x \<le> admitted (on_settled f x)"
  by (cases x) simp_all

lemma on_settled_evidence:
  "(\<And>r. ending_evidence ev (Settled (f r)) = ending_evidence ev (Settled r)) \<Longrightarrow>
     ending_evidence ev (on_settled f x) = ending_evidence ev x"
  by (cases x) simp_all

end
