(* ===== verification/Guard_Layers.thy ===== *)
theory Guard_Layers
  imports Service
begin

text \<open>
  The stateless layers: \<open>layer/validate.rs\<close>, \<open>layer/authority.rs\<close>, \<open>layer/limit.rs\<close>,
  \<open>layer/catch_panic.rs\<close>, and \<open>layer/fault.rs\<close> with its script. Each is the definition of its
  \<open>call\<close> and an interpretation of \<open>honest_layer\<close>.
\<close>

section \<open>\<open>ValidateTurnLayer\<close>\<close>

definition validate_turn :: "nat option \<Rightarrow> ('o turn agent_request, 'v) layer" where
  "validate_turn max_prompt_bytes request =
     (let prompt = turn_prompt (req_body request);
          error =
            (if is_blank prompt then Some (invalid_request ''prompt must not be empty'')
             else if (case max_prompt_bytes of None \<Rightarrow> False | Some maximum \<Rightarrow> maximum < length prompt)
             then Some (invalid_request ''prompt exceeds the configured limit'')
             else None)
      in case error of Some e \<Rightarrow> Refuse e | None \<Rightarrow> Forward (\<lambda>x. x))"

interpretation validate: honest_layer validate_turn ev for ev :: "'v \<Rightarrow> failure_evidence"
  by unfold_locales
    (auto simp: validate_turn_def Let_def invalid_request_def evidence_of_def split: if_splits option.splits)

section \<open>\<open>AuthorityLayer\<close>\<close>

text \<open>The layer's environment: the file system, the reading of the options, and the policy.\<close>

definition enforce_authority ::
  "(path \<Rightarrow> string + path) \<times> ('o \<Rightarrow> filesystem_authority) \<times> ('o \<Rightarrow> path list) \<times> authority_policy
     \<Rightarrow> ('o turn agent_request, 'v) layer" where
  "enforce_authority env request =
     (case env of (canonicalize, requested_of, roots_of, policy) \<Rightarrow>
        (case authorize canonicalize requested_of roots_of policy (req_body request) of
           Inr _ \<Rightarrow> Forward (\<lambda>x. x)
         | Inl error \<Rightarrow> Refuse error))"

interpretation authority: honest_layer enforce_authority ev for ev :: "'v \<Rightarrow> failure_evidence"
  by unfold_locales
    (auto simp: enforce_authority_def evidence_of_def dest!: authorize_error_shape split: prod.splits sum.splits)

section \<open>\<open>LimitOutputLayer\<close>\<close>

text \<open>\<open>value.to_string()\<close> of a JSON value is the serialiser of \<open>serde_json\<close>, a parameter.\<close>

definition output_bytes :: "('j \<Rightarrow> string) \<Rightarrow> 'j turn_outcome \<Rightarrow> nat" where
  "output_bytes to_string r =
     length (out_output r) + (case out_structured r of None \<Rightarrow> 0 | Some v \<Rightarrow> length (to_string v))"

definition limit_settlement :: "('j \<Rightarrow> string) \<Rightarrow> nat \<Rightarrow> agent_error + 'j turn_outcome \<Rightarrow> agent_error + 'j turn_outcome" where
  "limit_settlement to_string max_bytes result =
     and_then result (\<lambda>response.
       if output_bytes to_string response > max_bytes
       then Inl (with_evidence
              (error_new Limit (''provider output exceeded the '' @ show_nat max_bytes @ ''-byte host limit'')
                 Settlement EffReported)
              (terminal_evidence response))
       else Inr response)"

definition limit_output :: "('j \<Rightarrow> string) \<times> nat \<Rightarrow> ('req, 'j turn_outcome) layer" where
  "limit_output env request = Forward (on_settled (limit_settlement (fst env) (snd env)))"

interpretation limit: honest_layer limit_output terminal_evidence
proof
  fix env and r and f :: "'a turn_outcome ending \<Rightarrow> 'a turn_outcome ending" and x
  assume "limit_output env r = Forward f"
  then have f: "f = on_settled (limit_settlement (fst env) (snd env))" by (simp add: limit_output_def)
  show "admitted x \<le> admitted (f x)" unfolding f
  proof (rule on_settled_admitted)
    fix s :: "agent_error + 'a turn_outcome"
    show "admitted (Settled s) \<le> admitted (Settled (limit_settlement (fst env) (snd env) s))"
      by (cases s) (simp_all add: limit_settlement_def)
  qed
  show "ending_evidence terminal_evidence (f x) = ending_evidence terminal_evidence x" unfolding f
  proof (rule on_settled_evidence)
    fix s :: "agent_error + 'a turn_outcome"
    show "ending_evidence terminal_evidence (Settled (limit_settlement (fst env) (snd env) s))
        = ending_evidence terminal_evidence (Settled s)"
      by (cases s) (simp_all add: limit_settlement_def evidence_of_def)
  qed
qed (simp add: limit_output_def)

section \<open>\<open>CatchPanicLayer\<close>\<close>

definition panic_message :: "panic_payload \<Rightarrow> string" where
  "panic_message payload =
     ''agent service panicked: '' @
       (case payload of PayloadStr s \<Rightarrow> s | PayloadOther \<Rightarrow> ''unknown panic payload'')"

definition panic_error :: "panic_payload \<Rightarrow> failure_phase \<Rightarrow> effect_state \<Rightarrow> agent_error" where
  "panic_error payload phase effects = error_new Internal (panic_message payload) phase effects"

text \<open>The inner \<open>poll_ready\<close> either answers or unwinds.\<close>

datatype poll_result = PollPending | PollReady | PollFailed agent_error | PollUnwound panic_payload

fun catch_panic_poll_ready :: "poll_result \<Rightarrow> poll_result" where
  "catch_panic_poll_ready (PollUnwound payload) = PollFailed (panic_error payload Admission EffNone)"
| "catch_panic_poll_ready p = p"

fun catch_ending :: "'v ending \<Rightarrow> 'v ending" where
  "catch_ending (Settled r) = Settled r"
| "catch_ending (UnwoundInCall payload) = Settled (Inl (panic_error payload Launch EffPossible))"
| "catch_ending (Unwound payload) = Settled (Inl (panic_error payload Settlement EffPossible))"

definition catch_panic :: "unit \<Rightarrow> ('req, 'v) layer" where
  "catch_panic env request = Forward catch_ending"

lemma catch_ending_settled: "\<exists>r. catch_ending x = Settled r"
  by (cases x) simp_all

interpretation panics: honest_layer catch_panic ev for ev :: "'v \<Rightarrow> failure_evidence"
proof
  fix env :: unit and r :: 'a and f :: "'v ending \<Rightarrow> 'v ending" and x
  assume "catch_panic env r = Forward f"
  then have f: "f = catch_ending" by (simp add: catch_panic_def)
  show "admitted x \<le> admitted (f x)"
    by (cases x) (simp_all add: f panic_error_def)
  show "ending_evidence ev (f x) = ending_evidence ev x"
    by (cases x) (simp_all add: f panic_error_def evidence_of_def)
qed (simp add: catch_panic_def)

section \<open>\<open>FaultLayer\<close>\<close>

datatype fault =
    DelayBeforeLaunch duration
  | RefuseBeforeLaunch error_kind string
  | DelaySettlement duration
  | FailAfterSettlement error_kind string

definition fail_after :: "('v \<Rightarrow> failure_evidence) \<Rightarrow> error_kind \<Rightarrow> string \<Rightarrow> agent_error + 'v \<Rightarrow> agent_error" where
  "fail_after ev kind message settled =
     (case settled of
        Inr response \<Rightarrow> with_evidence (error_new kind message Settlement EffReported) (ev response)
      | Inl cause \<Rightarrow> with_cause (error_new kind message Settlement (err_effects cause)) cause)"

text \<open>
  The shared script is a queue; a call takes its first entry. The delays of the two delaying faults
  pass on the clock and change nothing else.
\<close>

definition pop_fault :: "fault list \<Rightarrow> fault option \<times> fault list" where
  "pop_fault script = (case script of [] \<Rightarrow> (None, []) | f # fs \<Rightarrow> (Some f, fs))"

definition inject_fault :: "('v \<Rightarrow> failure_evidence) \<Rightarrow> fault option \<Rightarrow> ('req, 'v) layer" where
  "inject_fault ev fault request =
     (case fault of
        Some (RefuseBeforeLaunch kind message) \<Rightarrow> Refuse (error_new kind message Admission EffNone)
      | Some (DelayBeforeLaunch delay) \<Rightarrow> Forward (\<lambda>x. x)
      | Some (DelaySettlement delay) \<Rightarrow> Forward (\<lambda>x. x)
      | Some (FailAfterSettlement kind message) \<Rightarrow>
          Forward (on_settled (\<lambda>settled. Inl (fail_after ev kind message settled)))
      | None \<Rightarrow> Forward (\<lambda>x. x))"

definition fault_service ::
  "('v \<Rightarrow> failure_evidence) \<Rightarrow> ('req, 'v) service \<Rightarrow> fault list \<Rightarrow> 'req \<Rightarrow> ('v ending \<times> bool) \<times> fault list" where
  "fault_service ev inner script request =
     (let (fault, script') = pop_fault script
      in (apply_layer (inject_fault ev fault) inner request, script'))"

lemma fail_after_effects:
  "admitted (Settled settled) = err_effects (fail_after ev kind message settled)"
  by (cases settled) (simp_all add: fail_after_def effect_combine_max)

lemma fail_after_evidence:
  "evidence_of (fail_after ev kind message settled) = ending_evidence ev (Settled settled)"
proof (cases settled)
  case (Inl cause)
  then show ?thesis
    using evidence.overlay_unbound_high [of "evidence_of cause"]
    by (simp add: fail_after_def evidence_of_with_cause)
next
  case (Inr response)
  then show ?thesis by (simp add: fail_after_def evidence_of_def)
qed

interpretation faults: honest_layer "inject_fault ev" ev for ev :: "'v \<Rightarrow> failure_evidence"
proof
  fix env :: "fault option" and r :: 'a and e
  assume "inject_fault ev env r = Refuse e"
  then show "err_effects e = EffNone \<and> err_phase e \<in> {Admission, Validation} \<and> evidence_of e = failure_evidence_default"
    by (auto simp: inject_fault_def evidence_of_def split: option.splits fault.splits)
next
  fix env :: "fault option" and r :: 'a and f :: "'v ending \<Rightarrow> 'v ending" and x
  assume "inject_fault ev env r = Forward f"
  then consider "f = (\<lambda>x. x)" | kind message where "f = on_settled (\<lambda>s. Inl (fail_after ev kind message s))"
    by (auto simp: inject_fault_def split: option.splits fault.splits)
  note shape = this
  from shape show "admitted x \<le> admitted (f x)"
  proof cases
    case 2
    show ?thesis unfolding 2
      by (rule on_settled_admitted) (simp add: fail_after_effects [symmetric])
  qed simp
  from shape show "ending_evidence ev (f x) = ending_evidence ev x"
  proof cases
    case 2
    show ?thesis unfolding 2
      by (rule on_settled_evidence) (simp add: fail_after_evidence)
  qed simp
qed

end
