(* ===== verification/Agent_Step.thy ===== *)
theory Agent_Step
  imports Workflow_Execution Guard_Layers
begin

text \<open>
  \<open>agent.rs\<close> of the workflow crate: the adapter that runs one workflow step as one turn of an agent
  service. The future first drives the readiness of its clone, polling the step's token before the
  service at every poll (\<open>biased\<close>), then looks at the token once more and calls.
\<close>

text \<open>\<open>agent_context\<close> is the context of the step (\<open>StepCall::agent_context\<close>).\<close>

datatype readiness = StillWaiting | AwaitCancelled | AwaitFailed agent_error | AwaitUnwound panic_payload | AwaitReady

text \<open>One element per poll: whether the token is cancelled, and what the service answers if asked.\<close>

fun await_ready :: "(bool \<times> poll_result) list \<Rightarrow> readiness" where
  "await_ready [] = StillWaiting"
| "await_ready ((gone, answer) # polls) =
     (if gone then AwaitCancelled
      else case answer of
             PollPending \<Rightarrow> await_ready polls
           | PollFailed error \<Rightarrow> AwaitFailed error
           | PollUnwound p \<Rightarrow> AwaitUnwound p
           | PollReady \<Rightarrow> AwaitReady)"

text \<open>
  The ending of the call, \<open>None\<close> while it waits; the second component tells whether the inner service
  was called. \<open>cancelled_at_call\<close> is the token after readiness.
\<close>

definition agent_step_call ::
  "(('i, 'j, 'o) step_call \<Rightarrow> agent_error + 'p turn) \<Rightarrow> operation_id \<Rightarrow> token
     \<Rightarrow> ('p turn agent_request, 'v) service \<Rightarrow> (bool \<times> poll_result) list \<Rightarrow> bool
     \<Rightarrow> ('i, 'j, 'o) step_call \<Rightarrow> ('v ending \<times> bool) option" where
  "agent_step_call prepare op fresh inner polls cancelled_at_call call =
     (let context = agent_context op fresh call
      in case prepare call of
           Inl error \<Rightarrow> Some (ending.Settled (Inl error), False)
         | Inr turn \<Rightarrow>
             (let request = agent_request_with_context turn context
              in case await_ready polls of
                   StillWaiting \<Rightarrow> None
                 | AwaitCancelled \<Rightarrow> Some (ending.Settled (Inl (cancelled EffNone)), False)
                 | AwaitFailed error \<Rightarrow> Some (ending.Settled (Inl error), False)
                 | AwaitUnwound p \<Rightarrow> Some (Unwound p, False)
                 | AwaitReady \<Rightarrow>
                     (if cancelled_at_call then Some (ending.Settled (Inl (cancelled EffNone)), False)
                      else Some (inner request))))"

lemma await_ready_cancelled_first:
  "await_ready (replicate n (False, PollPending) @ (True, answer) # polls) = AwaitCancelled"
  by (induction n) simp_all

section \<open>Properties\<close>

text \<open>A step adapter calls the agent service at most once, only with the prepared turn in the step's
  own context (its token and deadline, a fresh operation), and only when neither readiness nor the
  last look at the token found a cancellation; a call it did not make is never reported as possible
  effects unless the preparer, the readiness of the service or a panic says so.\<close>

theorem agent_step_boundary:
  assumes "agent_step_call prepare op fresh inner polls gone call = Some (x, reached)" "honest inner"
  shows "(\<exists>turn. prepare call = Inr turn \<and> await_ready polls = AwaitReady \<and> \<not> gone
        \<and> (x, reached) = inner (agent_request_with_context turn (agent_context op fresh call))
        \<and> (admitted x = EffNone \<longrightarrow> \<not> reached))
    \<or> (\<not> reached \<and> (case x of
          ending.Settled (Inl e) \<Rightarrow> prepare call = Inl e \<or> e = cancelled EffNone \<or> await_ready polls = AwaitFailed e
        | ending.Settled (Inr _) \<Rightarrow> False
        | UnwoundInCall _ \<Rightarrow> False
        | Unwound p \<Rightarrow> await_ready polls = AwaitUnwound p))"
proof (cases "prepare call")
  case (Inl e)
  with assms(1) show ?thesis by (auto simp: agent_step_call_def)
next
  case (Inr turn)
  let ?r = "agent_request_with_context turn (agent_context op fresh call)"
  have honest: "admitted (fst (inner ?r)) = EffNone \<longrightarrow> \<not> snd (inner ?r)"
    using assms(2) by (simp add: honest_def)
  show ?thesis
  proof (cases "await_ready polls")
    case AwaitReady
    show ?thesis
    proof (cases gone)
      case True
      with AwaitReady Inr assms(1) show ?thesis by (auto simp: agent_step_call_def)
    next
      case False
      with AwaitReady Inr assms(1) have "(x, reached) = inner ?r" by (simp add: agent_step_call_def)
      with honest have "admitted x = EffNone \<longrightarrow> \<not> reached" by (metis fst_conv snd_conv)
      with \<open>(x, reached) = inner ?r\<close> AwaitReady Inr False show ?thesis by blast
    qed
  qed (use Inr assms(1) in \<open>auto simp: agent_step_call_def\<close>)
qed

definition sample_step_call :: "(unit, unit, unit turn_outcome) step_call" where
  "sample_step_call =
     \<lparr>call_run_id = ''r'', call_workflow_id = ''w'', call_workflow_version = ''1'', call_step_id = ''s'',
      call_input = (), call_job = (), call_dependencies = [], call_cancellation = [0], call_deadline = None\<rparr>"

theorem agent_step_boundary_witness:
  "\<exists>x. agent_step_call (\<lambda>_. Inr (turn_new ''go'')) 4 [9] (\<lambda>_. (ending.Settled (Inr ()), True))
      [(False, PollPending), (True, PollReady)] False sample_step_call = Some (x, False)
     \<and> x = ending.Settled (Inl (cancelled EffNone))"
proof -
  let ?inner = "\<lambda>_ :: unit turn agent_request. (ending.Settled (Inr ()), True)"
  have run: "agent_step_call (\<lambda>_. Inr (turn_new ''go'')) 4 [9] ?inner
      [(False, PollPending), (True, PollReady)] False sample_step_call
    = Some (ending.Settled (Inl (cancelled EffNone)), False)"
    by (simp add: agent_step_call_def Let_def)
  have "honest ?inner" by (simp add: honest_def)
  from agent_step_boundary [OF run this] run show ?thesis by simp
qed

end
