(* ===== verification/Admission.thy ===== *)
theory Admission
  imports Guard_Layers
begin

text \<open>
  \<open>layer/admission.rs\<close>: bounded admission with load shedding. Every clone of the service shares one
  semaphore and carries at most one reserved permit; a forwarded call carries its permit until its
  future is gone. \<open>tokio::sync::Semaphore\<close> is a parameter with its documented behaviour
  (\<open>semaphore_laws\<close>): \<open>try_acquire_owned\<close> succeeds exactly when a permit is available and takes it,
  dropping an owned permit gives it back.
\<close>

record 's semaphore_ops =
  sem_new :: "nat \<Rightarrow> 's"
  sem_try_acquire :: "'s \<Rightarrow> 's option"
  sem_release :: "'s \<Rightarrow> 's"
  sem_available :: "'s \<Rightarrow> nat"

definition semaphore_laws :: "'s semaphore_ops \<Rightarrow> bool" where
  "semaphore_laws ops \<longleftrightarrow>
     (\<forall>n. sem_available ops (sem_new ops n) = n)
     \<and> (\<forall>s. sem_try_acquire ops s = None \<longleftrightarrow> sem_available ops s = 0)
     \<and> (\<forall>s s'. sem_try_acquire ops s = Some s' \<longrightarrow> sem_available ops s = Suc (sem_available ops s'))
     \<and> (\<forall>s. sem_available ops (sem_release ops s) = Suc (sem_available ops s))"

section \<open>The service\<close>

text \<open>\<open>AdmissionLayer::new\<close>: \<open>None\<close> is the panic of \<open>assert!\<close>.\<close>

definition admission_layer_new :: "'s semaphore_ops \<Rightarrow> nat \<Rightarrow> 's option" where
  "admission_layer_new ops max_concurrency = (if 0 < max_concurrency then Some (sem_new ops max_concurrency) else None)"

text \<open>Dropping an \<open>Option<OwnedSemaphorePermit>\<close>.\<close>

definition drop_permit :: "'s semaphore_ops \<Rightarrow> bool \<Rightarrow> 's \<Rightarrow> 's" where
  "drop_permit ops permit s = (if permit then sem_release ops s else s)"

text \<open>\<open>poll_ready\<close> of one clone: what it answers, the semaphore, and the clone's permit.\<close>

definition admission_poll_ready ::
  "'s semaphore_ops \<Rightarrow> poll_result \<Rightarrow> 's \<Rightarrow> bool \<Rightarrow> poll_result \<times> 's \<times> bool" where
  "admission_poll_ready ops inner s permit =
     (case inner of
        PollFailed error \<Rightarrow> (PollFailed error, drop_permit ops permit s, False)
      | PollReady \<Rightarrow>
          (if \<not> permit
           then (case sem_try_acquire ops s of
                   None \<Rightarrow> (PollReady, s, False)
                 | Some s' \<Rightarrow> (PollReady, s', True))
           else (PollReady, s, True))
      | PollPending \<Rightarrow> (PollReady, drop_permit ops permit s, False)
      | PollUnwound p \<Rightarrow> (PollUnwound p, s, permit))"

text \<open>\<open>call\<close>: without a reserved permit the request is shed; otherwise the future owns the permit.\<close>

definition admission_call :: "bool \<Rightarrow> ('req, 'v) layer" where
  "admission_call permit request = (if permit then Forward (\<lambda>x. x) else Refuse busy)"

interpretation admission: honest_layer admission_call ev for ev :: "'v \<Rightarrow> failure_evidence"
  by unfold_locales (auto simp: admission_call_def busy_def evidence_of_def split: if_splits)

section \<open>All clones together\<close>

text \<open>The semaphore, the permit of every clone, and the number of futures that own a permit.\<close>

record 's admission_system =
  adm_semaphore :: 's
  adm_clones :: "bool list"
  adm_running :: nat

datatype admission_event =
    ClonePolled nat poll_result
  | CloneCalled nat
  | Cloned nat
  | CloneDropped nat
  | FutureGone

definition admission_init :: "'s \<Rightarrow> 's admission_system" where
  "admission_init s = \<lparr>adm_semaphore = s, adm_clones = [False], adm_running = 0\<rparr>"

text \<open>\<open>None\<close>: the event names a clone that does not exist, or a future when there is none.\<close>

fun admission_step :: "'s semaphore_ops \<Rightarrow> 's admission_system \<Rightarrow> admission_event \<Rightarrow> 's admission_system option" where
  "admission_step ops sys (ClonePolled i inner) =
     (if i < length (adm_clones sys)
      then (case admission_poll_ready ops inner (adm_semaphore sys) (adm_clones sys ! i) of (_, s, permit) \<Rightarrow>
              Some (sys\<lparr>adm_semaphore := s, adm_clones := (adm_clones sys)[i := permit]\<rparr>))
      else None)"
| "admission_step ops sys (CloneCalled i) =
     (if i < length (adm_clones sys)
      then Some (case admission_call (adm_clones sys ! i) () :: unit call_plan of
              Refuse _ \<Rightarrow> sys
            | Forward _ \<Rightarrow> sys\<lparr>adm_clones := (adm_clones sys)[i := False], adm_running := Suc (adm_running sys)\<rparr>)
      else None)"
| "admission_step ops sys (Cloned i) =
     (if i < length (adm_clones sys) then Some (sys\<lparr>adm_clones := adm_clones sys @ [False]\<rparr>) else None)"
| "admission_step ops sys (CloneDropped i) =
     (if i < length (adm_clones sys)
      then Some (sys\<lparr>adm_semaphore := drop_permit ops (adm_clones sys ! i) (adm_semaphore sys),
                     adm_clones := take i (adm_clones sys) @ drop (Suc i) (adm_clones sys)\<rparr>)
      else None)"
| "admission_step ops sys FutureGone =
     (if adm_running sys = 0 then None
      else Some (sys\<lparr>adm_semaphore := sem_release ops (adm_semaphore sys), adm_running := adm_running sys - 1\<rparr>))"

inductive admission_reachable :: "'s semaphore_ops \<Rightarrow> nat \<Rightarrow> 's admission_system \<Rightarrow> bool"
  for ops :: "'s semaphore_ops" and n :: nat where
  init: "admission_layer_new ops n = Some s \<Longrightarrow> admission_reachable ops n (admission_init s)"
| step: "admission_reachable ops n sys \<Longrightarrow> admission_step ops sys e = Some sys' \<Longrightarrow> admission_reachable ops n sys'"

definition permits_reserved :: "'s admission_system \<Rightarrow> nat" where
  "permits_reserved sys = length (filter id (adm_clones sys))"

section \<open>Conservation of permits\<close>

lemma filter_update:
  "i < length xs \<Longrightarrow>
     length (filter id (xs[i := b])) + (if xs ! i then 1 else 0) = length (filter id xs) + (if b then 1 else 0)"
proof (induction xs arbitrary: i)
  case (Cons x xs)
  show ?case
  proof (cases i)
    case (Suc j)
    then show ?thesis using Cons.IH [of j] Cons.prems by (cases x) simp_all
  qed simp
qed simp

lemma filter_delete:
  "i < length xs \<Longrightarrow>
     length (filter id (take i xs @ drop (Suc i) xs)) + (if xs ! i then 1 else 0) = length (filter id xs)"
proof (induction xs arbitrary: i)
  case (Cons x xs)
  show ?case
  proof (cases i)
    case (Suc j)
    then show ?thesis using Cons.IH [of j] Cons.prems by (cases x) simp_all
  qed simp
qed simp

lemma drop_permit_available:
  "semaphore_laws ops \<Longrightarrow> sem_available ops (drop_permit ops permit s) = sem_available ops s + (if permit then 1 else 0)"
  by (simp add: semaphore_laws_def drop_permit_def)

text \<open>A poll moves at most one permit between the semaphore and the clone.\<close>

lemma poll_conserves:
  assumes "semaphore_laws ops" and "admission_poll_ready ops inner s permit = (r, s', permit')"
  shows "sem_available ops s' + (if permit' then 1 else 0) = sem_available ops s + (if permit then 1 else (0::nat))"
proof (cases inner)
  case PollReady
  then show ?thesis
    using assms by (auto simp: admission_poll_ready_def semaphore_laws_def split: if_splits option.splits)
qed (use assms in \<open>auto simp: admission_poll_ready_def drop_permit_available\<close>)

lemma step_conserves:
  assumes laws: "semaphore_laws ops" and step: "admission_step ops sys e = Some sys'"
  shows "sem_available ops (adm_semaphore sys') + permits_reserved sys' + adm_running sys'
       = sem_available ops (adm_semaphore sys) + permits_reserved sys + adm_running sys"
proof (cases e)
  case (ClonePolled i inner)
  then have i: "i < length (adm_clones sys)" using step by (simp split: if_splits)
  obtain r s permit where poll: "admission_poll_ready ops inner (adm_semaphore sys) (adm_clones sys ! i) = (r, s, permit)"
    by (metis prod_cases3)
  then have "sys' = sys\<lparr>adm_semaphore := s, adm_clones := (adm_clones sys)[i := permit]\<rparr>"
    using step ClonePolled i by simp
  then show ?thesis
    using poll_conserves [OF laws poll] filter_update [OF i, of permit]
    by (simp add: permits_reserved_def split: if_splits)
next
  case (CloneCalled i)
  then have i: "i < length (adm_clones sys)" using step by (simp split: if_splits)
  then show ?thesis
    using step CloneCalled filter_update [OF i, of False]
    by (cases "adm_clones sys ! i") (auto simp: permits_reserved_def admission_call_def)
next
  case (CloneDropped i)
  then have i: "i < length (adm_clones sys)" using step by (simp split: if_splits)
  then show ?thesis
    using step CloneDropped filter_delete [OF i] drop_permit_available [OF laws, of "adm_clones sys ! i" "adm_semaphore sys"]
    by (auto simp: permits_reserved_def split: if_splits)
next
  case FutureGone
  then show ?thesis using step laws by (auto simp: permits_reserved_def semaphore_laws_def split: if_splits)
qed (use step in \<open>auto simp: permits_reserved_def split: if_splits\<close>)

lemma reachable_conserves:
  assumes laws: "semaphore_laws ops" and "admission_reachable ops n sys"
  shows "sem_available ops (adm_semaphore sys) + permits_reserved sys + adm_running sys = n \<and> 0 < n"
  using assms(2)
proof (induction rule: admission_reachable.induct)
  case (init s)
  then show ?case using laws
    by (auto simp: admission_layer_new_def semaphore_laws_def admission_init_def permits_reserved_def split: if_splits)
next
  case (step sys e sys')
  then show ?case using step_conserves [OF laws step.hyps(2)] by simp
qed

section \<open>Properties\<close>

text \<open>The semaphore as a counter, the instance the witnesses use.\<close>

definition counter_semaphore :: "nat semaphore_ops" where
  "counter_semaphore =
     \<lparr>sem_new = (\<lambda>n. n), sem_try_acquire = (\<lambda>n. if n = 0 then None else Some (n - 1)),
      sem_release = Suc, sem_available = (\<lambda>n. n)\<rparr>"

lemma counter_semaphore_laws: "semaphore_laws counter_semaphore"
  by (auto simp: semaphore_laws_def counter_semaphore_def)

text \<open>C13: permits are neither lost nor duplicated: in every reachable state the free permits, the
  permits reserved by clones and the running calls add up to the configured limit, so at most that
  many calls run at once; and a poll of a ready inner service leaves the clone without a permit only
  when all permits are reserved or running.\<close>

theorem admission_conserves_permits:
  assumes "semaphore_laws ops" and "admission_reachable ops n sys"
  shows "sem_available ops (adm_semaphore sys) + permits_reserved sys + adm_running sys = n
    \<and> adm_running sys \<le> n
    \<and> (\<forall>permit s'. admission_poll_ready ops PollReady (adm_semaphore sys) permit = (PollReady, s', False) \<longrightarrow>
         permits_reserved sys + adm_running sys = n)"
  using reachable_conserves [OF assms] assms(1)
  by (auto simp: admission_poll_ready_def semaphore_laws_def split: if_splits option.splits)

theorem admission_conserves_permits_witness:
  "\<exists>sys. admission_reachable counter_semaphore 2 sys \<and> adm_running sys = 1 \<and> permits_reserved sys = 1
     \<and> sem_available counter_semaphore (adm_semaphore sys) + permits_reserved sys + adm_running sys = 2"
proof -
  let ?s0 = "admission_init 2 :: nat admission_system"
  let ?s1 = "\<lparr>adm_semaphore = 1, adm_clones = [True], adm_running = 0\<rparr> :: nat admission_system"
  let ?s2 = "\<lparr>adm_semaphore = 1, adm_clones = [False], adm_running = 1\<rparr> :: nat admission_system"
  let ?s3 = "\<lparr>adm_semaphore = 0, adm_clones = [True], adm_running = 1\<rparr> :: nat admission_system"
  have "admission_reachable counter_semaphore 2 ?s0"
    by (rule admission_reachable.init) (simp add: admission_layer_new_def counter_semaphore_def)
  moreover have "admission_step counter_semaphore ?s0 (ClonePolled 0 PollReady) = Some ?s1"
    "admission_step counter_semaphore ?s1 (CloneCalled 0) = Some ?s2"
    "admission_step counter_semaphore ?s2 (ClonePolled 0 PollReady) = Some ?s3"
    by code_simp+
  ultimately have r: "admission_reachable counter_semaphore 2 ?s3"
    using admission_reachable.step by blast
  from admission_conserves_permits [OF counter_semaphore_laws r] r show ?thesis
    by (intro exI [of _ ?s3]) (simp add: permits_reserved_def)
qed

text \<open>A clone whose inner service is stalled or has failed keeps no capacity: after such a poll it
  holds no permit, its permit is back in the semaphore, and its next call is shed as \<open>Busy\<close>
  without reaching the inner service.\<close>

theorem stalled_clone_holds_nothing:
  assumes "semaphore_laws ops" and "inner = PollPending \<or> inner = PollFailed error"
    and "admission_poll_ready ops inner s permit = (answer, s', permit')"
  shows "\<not> permit' \<and> sem_available ops s' = sem_available ops s + (if permit then 1 else 0)
    \<and> (admission_call permit' request :: 'v call_plan) = Refuse busy \<and> err_effects busy = EffNone
    \<and> answer = (if inner = PollPending then PollReady else inner)"
  using assms drop_permit_available [OF assms(1), of permit s]
  by (auto simp: admission_poll_ready_def admission_call_def busy_def)

theorem stalled_clone_holds_nothing_witness:
  "admission_poll_ready counter_semaphore PollPending 0 True = (PollReady, 1, False)
   \<and> (admission_call False () :: unit call_plan) = Refuse busy"
proof -
  have run: "admission_poll_ready counter_semaphore PollPending 0 True = (PollReady, 1, False)" by code_simp
  from stalled_clone_holds_nothing [OF counter_semaphore_laws _ run, of busy "()", where 'v = unit] run show ?thesis by simp
qed

end
