(* ===== verification/Deadline_Layer.thy ===== *)
theory Deadline_Layer
  imports Guard_Layers
begin

text \<open>
  \<open>layer/deadline.rs\<close>: rejection before the call when the token is cancelled or the deadline has
  passed, and afterwards a race between the inner future, the timer and the token in which the
  inner future is never dropped: whoever wins, its settlement is awaited and preserved.
\<close>

text \<open>Which arm of \<open>select!\<close> completes first. The \<open>select!\<close> of a call without a deadline has no timer arm: there the
  inner future settles or the token is observed.\<close>

datatype wake = InnerSettles | TimerElapses | CancelObserved

fun preserve_settlement :: "('v \<Rightarrow> failure_evidence) \<Rightarrow> agent_error \<Rightarrow> agent_error + 'v \<Rightarrow> agent_error" where
  "preserve_settlement ev error (Inl cause) = with_cause error cause"
| "preserve_settlement ev (AgentError k m p ef evidence ra c) (Inr response) =
     AgentError k m p (effect_combine ef EffReported)
       (case evidence of
          Some e \<Rightarrow> Some (merge_missing e (ev response))
        | None \<Rightarrow> Some (ev response)) ra c"

text \<open>
  The host's side of one call: which tokens are cancelled, the clock, and the race. The result is
  the plan and whether the layer itself cancels the call's token (before the call, or during it).
\<close>

record deadline_env =
  env_cancelled :: "token list"
  env_now :: instant
  env_wake :: wake

definition deadline_call ::
  "('v \<Rightarrow> failure_evidence) \<Rightarrow> deadline_env \<Rightarrow> 't agent_request \<Rightarrow> 'v call_plan \<times> bool" where
  "deadline_call ev env request =
     (let deadline = ctx_deadline (req_context request);
          cancellation = ctx_cancellation (req_context request)
      in if is_cancelled (env_cancelled env) cancellation
         then (Refuse (error_new Cancelled ''agent operation was cancelled before execution'' Admission EffNone), False)
         else if (case deadline of None \<Rightarrow> False | Some d \<Rightarrow> d \<le> env_now env)
         then (Refuse (error_new DeadlineExceeded ''agent operation deadline elapsed before execution'' Admission EffNone), True)
         else case deadline of
                Some d \<Rightarrow>
                  (case env_wake env of
                     InnerSettles \<Rightarrow> (Forward (\<lambda>x. x), False)
                   | TimerElapses \<Rightarrow>
                       (Forward (on_settled (\<lambda>settlement.
                          Inl (preserve_settlement ev (deadline_exceeded EffPossible) settlement))), True)
                   | CancelObserved \<Rightarrow>
                       (Forward (on_settled (\<lambda>settlement.
                          Inl (preserve_settlement ev (cancelled EffPossible) settlement))), False))
              | None \<Rightarrow>
                  (case env_wake env of
                     CancelObserved \<Rightarrow>
                       (Forward (on_settled (\<lambda>settlement.
                          Inl (preserve_settlement ev (cancelled EffPossible) settlement))), False)
                   | _ \<Rightarrow> (Forward (\<lambda>x. x), False)))"

definition deadline_layer ::
  "('v \<Rightarrow> failure_evidence) \<Rightarrow> deadline_env \<Rightarrow> ('t agent_request, 'v) layer" where
  "deadline_layer ev env request = fst (deadline_call ev env request)"

section \<open>Lemmas\<close>

lemma preserve_settlement_sel [simp]:
  "err_kind (preserve_settlement ev e s) = err_kind e"
  "err_phase (preserve_settlement ev e s) = err_phase e"
  "err_effects (preserve_settlement ev e s) = max (err_effects e) (admitted (Settled s))"
proof -
  show "err_kind (preserve_settlement ev e s) = err_kind e" "err_phase (preserve_settlement ev e s) = err_phase e"
    by (cases s; cases e; simp)+
  show "err_effects (preserve_settlement ev e s) = max (err_effects e) (admitted (Settled s))"
    by (cases s; cases e) (simp_all add: effect_combine_max)
qed

lemma preserve_settlement_evidence:
  "evidence_of (preserve_settlement ev e s) = merge_missing (evidence_of e) (ending_evidence ev (Settled s))"
proof (cases s)
  case (Inl cause)
  then show ?thesis by (simp add: evidence_of_with_cause)
next
  case (Inr response)
  then show ?thesis
    using evidence.overlay_unbound_high [of "ev response"]
    by (cases e) (auto simp: evidence_of_def split: option.splits)
qed

lemma preserve_settlement_fresh:
  "evidence_of e = failure_evidence_default \<Longrightarrow>
     evidence_of (preserve_settlement ev e s) = ending_evidence ev (Settled s)"
  using evidence.overlay_unbound_high [of "ending_evidence ev (Settled s)"] by (simp add: preserve_settlement_evidence)

lemma deadline_forward_shape:
  assumes "deadline_layer ev env request = Forward f"
  shows "f = (\<lambda>x. x) \<or>
    (\<exists>e \<in> {deadline_exceeded EffPossible, cancelled EffPossible}. f = on_settled (\<lambda>s. Inl (preserve_settlement ev e s)))"
  using assms
  by (auto simp: deadline_layer_def deadline_call_def Let_def split: if_splits wake.splits option.splits)

interpretation deadlines: honest_layer "deadline_layer ev" ev for ev :: "'v \<Rightarrow> failure_evidence"
proof
  fix env and r :: "'a agent_request" and e
  assume "deadline_layer ev env r = Refuse e"
  then show "err_effects e = EffNone \<and> err_phase e \<in> {Admission, Validation} \<and> evidence_of e = failure_evidence_default"
    by (auto simp: deadline_layer_def deadline_call_def Let_def evidence_of_def split: if_splits wake.splits option.splits)
next
  fix env and r :: "'a agent_request" and f :: "'v ending \<Rightarrow> 'v ending" and x
  assume f: "deadline_layer ev env r = Forward f"
  consider "f = (\<lambda>x. x)" | e where "e \<in> {deadline_exceeded EffPossible, cancelled EffPossible}"
      "f = on_settled (\<lambda>s. Inl (preserve_settlement ev e s))"
    using deadline_forward_shape [OF f] by blast
  note shape = this
  from shape show "admitted x \<le> admitted (f x)"
  proof cases
    case 2
    show ?thesis unfolding 2 by (rule on_settled_admitted) simp
  qed simp
  from shape show "ending_evidence ev (f x) = ending_evidence ev x"
  proof cases
    case 2
    have "evidence_of e = failure_evidence_default"
      using 2(1) by (auto simp: deadline_exceeded_def cancelled_def evidence_of_def)
    then show ?thesis unfolding 2(2)
      by (intro on_settled_evidence) (simp add: preserve_settlement_fresh)
  qed simp
qed

lemma drained_settlement:
  "\<exists>f. p = Forward f \<and> (\<forall>s. \<exists>e. f (Settled s) = Settled (Inl e) \<and> K s e) \<and> r \<Longrightarrow>
     (\<And>e. K s e \<Longrightarrow> q e) \<Longrightarrow> \<exists>f e. p = Forward f \<and> f (Settled s) = Settled (Inl e) \<and> q e"
  by blast

section \<open>Properties\<close>

text \<open>C14: when the timer or the token wins the race, the settlement of the inner call is not lost, whether the
  request has a deadline or none (then only the token can win): the error has the layer's kind and the
  \<open>Running\<close> phase, at least possible effects and at least what the settlement admits, the settlement's
  evidence and retry guidance, and the inner error as its cause; the call's token is cancelled by the
  layer exactly when the timer won.\<close>

theorem deadline_preserves_settlement:
  assumes "\<not> is_cancelled (env_cancelled env) (ctx_cancellation (req_context request))"
    and "case ctx_deadline (req_context request) of
           None \<Rightarrow> env_wake env = CancelObserved
         | Some d \<Rightarrow> env_now env < d \<and> env_wake env \<noteq> InnerSettles"
  shows "\<exists>f. deadline_layer ev env request = Forward f \<and> (\<forall>s. \<exists>e. f (Settled s) = Settled (Inl e)
      \<and> err_kind e = (if env_wake env = TimerElapses then DeadlineExceeded else Cancelled) \<and> err_phase e = Running
      \<and> err_effects e = max EffPossible (admitted (Settled s))
      \<and> evidence_of e = ending_evidence ev (Settled s)
      \<and> (case s of Inl cause \<Rightarrow> err_cause e = Some cause \<and> err_retry_after e = err_retry_after cause
                 | Inr _ \<Rightarrow> err_cause e = None \<and> err_retry_after e = None))
    \<and> (snd (deadline_call ev env request) \<longleftrightarrow> env_wake env = TimerElapses)"
proof -
  define e where "e = (if env_wake env = TimerElapses then deadline_exceeded EffPossible else cancelled EffPossible)"
  have plan: "deadline_call ev env request =
      (Forward (on_settled (\<lambda>s. Inl (preserve_settlement ev e s))), env_wake env = TimerElapses)"
    using assms by (cases "env_wake env") (auto simp: deadline_call_def Let_def e_def split: option.splits)
  have fresh: "evidence_of e = failure_evidence_default"
    by (simp add: e_def deadline_exceeded_def cancelled_def evidence_of_def)
  have "case s of Inl cause \<Rightarrow> err_cause (preserve_settlement ev e s) = Some cause
        \<and> err_retry_after (preserve_settlement ev e s) = err_retry_after cause
      | Inr _ \<Rightarrow> err_cause (preserve_settlement ev e s) = None \<and> err_retry_after (preserve_settlement ev e s) = None" for s
    by (cases s) (auto simp: e_def deadline_exceeded_def cancelled_def error_new_def)
  moreover have "err_kind e = (if env_wake env = TimerElapses then DeadlineExceeded else Cancelled)" "err_phase e = Running"
    "err_effects e = EffPossible"
    by (simp_all add: e_def deadline_exceeded_def cancelled_def)
  ultimately show ?thesis
    using plan fresh by (simp add: deadline_layer_def preserve_settlement_fresh)
qed

theorem deadline_preserves_settlement_witness:
  "(\<exists>f e. deadline_layer terminal_evidence \<lparr>env_cancelled = [], env_now = 5, env_wake = TimerElapses\<rparr>
       (agent_request_with_context (turn_new ''hi'') (with_deadline (call_context_default 1 [0]) 9)) = Forward f
     \<and> f (Settled (Inr (turn_outcome_new ''late'' :: unit turn_outcome))) = Settled (Inl e)
     \<and> err_effects e = EffReported \<and> err_kind e = DeadlineExceeded)
   \<and> (\<exists>f e. deadline_layer terminal_evidence \<lparr>env_cancelled = [], env_now = 5, env_wake = CancelObserved\<rparr>
       (agent_request_with_context (turn_new ''hi'') (call_context_default 1 [0])) = Forward f
     \<and> f (Settled (Inr (turn_outcome_new ''late'' :: unit turn_outcome))) = Settled (Inl e)
     \<and> err_effects e = EffReported \<and> err_kind e = Cancelled)"
proof
  let ?s = "Inr (turn_outcome_new ''late'') :: agent_error + unit turn_outcome"
  have most: "max EffPossible EffReported = EffReported" by code_simp
  let ?e1 = "\<lparr>env_cancelled = [], env_now = 5, env_wake = TimerElapses\<rparr> :: deadline_env"
  let ?r1 = "agent_request_with_context (turn_new ''hi'') (with_deadline (call_context_default 1 [0]) 9)"
  have "\<not> is_cancelled (env_cancelled ?e1) (ctx_cancellation (req_context ?r1))"
    and "case ctx_deadline (req_context ?r1) of None \<Rightarrow> env_wake ?e1 = CancelObserved
       | Some d \<Rightarrow> env_now ?e1 < d \<and> env_wake ?e1 \<noteq> InnerSettles"
    by code_simp+
  then show "\<exists>f e. deadline_layer terminal_evidence ?e1 ?r1 = Forward f \<and> f (Settled ?s) = Settled (Inl e)
     \<and> err_effects e = EffReported \<and> err_kind e = DeadlineExceeded"
    by (intro drained_settlement [OF deadline_preserves_settlement]) (simp_all add: most)
  let ?e2 = "\<lparr>env_cancelled = [], env_now = 5, env_wake = CancelObserved\<rparr> :: deadline_env"
  let ?r2 = "agent_request_with_context (turn_new ''hi'') (call_context_default 1 [0])"
  have "\<not> is_cancelled (env_cancelled ?e2) (ctx_cancellation (req_context ?r2))"
    and "case ctx_deadline (req_context ?r2) of None \<Rightarrow> env_wake ?e2 = CancelObserved
       | Some d \<Rightarrow> env_now ?e2 < d \<and> env_wake ?e2 \<noteq> InnerSettles"
    by code_simp+
  then show "\<exists>f e. deadline_layer terminal_evidence ?e2 ?r2 = Forward f \<and> f (Settled ?s) = Settled (Inl e)
     \<and> err_effects e = EffReported \<and> err_kind e = Cancelled"
    by (intro drained_settlement [OF deadline_preserves_settlement]) (simp_all add: most)
qed

end
