(* ===== verification/Observe.thy ===== *)
theory Observe
  imports Guard_Layers
begin

text \<open>
  \<open>layer/observe.rs\<close> and \<open>layer/supervise.rs\<close>: what happens around a call whose future may be
  dropped. Both are guards with a \<open>Drop\<close> implementation, so each is a small state machine over the
  life of the returned future: it may be polled, the call below may settle or unwind, and the
  future may be dropped at any point.
\<close>

section \<open>Receipts\<close>

datatype receipt_status =
    Succeeded
  | Failed error_kind failure_phase effect_state
  | Abandoned effect_state

record receipt =
  rc_operation_id :: operation_id
  rc_elapsed :: duration
  rc_status :: receipt_status

datatype receipt_send_error = ReceiptFull | ReceiptClosed

fun receipt_send_error_display :: "receipt_send_error \<Rightarrow> string" where
  "receipt_send_error_display ReceiptFull = ''receipt observer is full''"
| "receipt_send_error_display ReceiptClosed = ''receipt observer is closed''"

record receipt_guard =
  guard_operation_id :: operation_id
  guard_started :: instant
  guard_finished :: bool
  guard_launched :: bool

definition receipt_guard_new :: "operation_id \<Rightarrow> instant \<Rightarrow> receipt_guard" where
  "receipt_guard_new i now =
     \<lparr>guard_operation_id = i, guard_started = now, guard_finished = False, guard_launched = False\<rparr>"

definition guard_mark_launched :: "receipt_guard \<Rightarrow> receipt_guard" where
  "guard_mark_launched g = g\<lparr>guard_launched := True\<rparr>"

text \<open>Recording goes to a sink whose answer is ignored; the model is the list of recorded receipts.\<close>

definition guard_finish :: "receipt_guard \<Rightarrow> instant \<Rightarrow> receipt_status \<Rightarrow> receipt_guard \<times> receipt list" where
  "guard_finish g now status =
     (g\<lparr>guard_finished := True\<rparr>,
      [\<lparr>rc_operation_id = guard_operation_id g, rc_elapsed = now - guard_started g, rc_status = status\<rparr>])"

definition guard_drop :: "receipt_guard \<Rightarrow> instant \<Rightarrow> receipt list" where
  "guard_drop g now =
     (if \<not> guard_finished g
      then [\<lparr>rc_operation_id = guard_operation_id g, rc_elapsed = now - guard_started g,
             rc_status = Abandoned (if guard_launched g then EffPossible else EffNone)\<rparr>]
      else [])"

definition receipt_status_of :: "agent_error + 'v \<Rightarrow> receipt_status" where
  "receipt_status_of result =
     (case result of
        Inr _ \<Rightarrow> Succeeded
      | Inl error \<Rightarrow> Failed (err_kind error) (err_phase error) (err_effects error))"

section \<open>The observed future\<close>

datatype 'v future_event = Polled | InnerEnds "'v ending" | FutureDropped

datatype 'v observed = ObserveCreated receipt_guard | ObserveAwaiting receipt_guard | ObserveGone "'v ending option"

text \<open>
  One event in the life of the future at instant \<open>now\<close>: the next state and the receipts recorded.
  Dropping the guard at the end of the block, by unwinding or with the future runs \<open>guard_drop\<close>.
\<close>

fun observe_step ::
  "'v observed \<Rightarrow> instant \<times> 'v future_event \<Rightarrow> ('v observed \<times> receipt list) option" where
  "observe_step (ObserveCreated g) (now, Polled) = Some (ObserveAwaiting (guard_mark_launched g), [])"
| "observe_step (ObserveCreated g) (now, FutureDropped) = Some (ObserveGone None, guard_drop g now)"
| "observe_step (ObserveAwaiting g) (now, Polled) = Some (ObserveAwaiting g, [])"
| "observe_step (ObserveAwaiting g) (now, InnerEnds (Settled result)) =
     (let (g', receipts) = guard_finish g now (receipt_status_of result)
      in Some (ObserveGone (Some (Settled result)), receipts @ guard_drop g' now))"
| "observe_step (ObserveAwaiting g) (now, InnerEnds x) = Some (ObserveGone (Some x), guard_drop g now)"
| "observe_step (ObserveAwaiting g) (now, FutureDropped) = Some (ObserveGone None, guard_drop g now)"
| "observe_step _ _ = None"

fun observe_run ::
  "'v observed \<Rightarrow> (instant \<times> 'v future_event) list \<Rightarrow> ('v observed \<times> receipt list) option" where
  "observe_run s [] = Some (s, [])"
| "observe_run s (e # es) =
     (case observe_step s e of
        None \<Rightarrow> None
      | Some (s', rs) \<Rightarrow> map_option (\<lambda>(s'', rs'). (s'', rs @ rs')) (observe_run s' es))"

text \<open>\<open>Observe::call\<close>: the inner call is made first; only when it returns a future is a guard created.\<close>

definition observe_call :: "instant \<Rightarrow> 't agent_request \<Rightarrow> 'v observed" where
  "observe_call now request = ObserveCreated (receipt_guard_new (ctx_operation_id (req_context request)) now)"

definition observe_layer :: "unit \<Rightarrow> ('req, 'v) layer" where
  "observe_layer env request = Forward (\<lambda>x. x)"

interpretation observing: honest_layer observe_layer ev for ev :: "'v \<Rightarrow> failure_evidence"
  by unfold_locales (auto simp: observe_layer_def)

section \<open>The supervised future\<close>

text \<open>
  \<open>tokio::spawn\<close> keeps polling the task after its \<open>JoinHandle\<close> is dropped and turns a panic of the
  task into a \<open>JoinError\<close>, whose rendering is the runtime's (a parameter of \<open>join_result\<close>).
\<close>

record 'v supervised =
  sv_task :: "'v ending option"
  sv_future :: bool
  sv_armed :: bool
  sv_cancelled :: bool
  sv_result :: "(agent_error + 'v) option"

datatype 'v supervise_event = TaskEnds "'v ending" | HandlePolled | HandleDropped

fun join_result :: "(panic_payload \<Rightarrow> string) \<Rightarrow> 'v ending \<Rightarrow> 'v ending" where
  "join_result join_error (Settled r) = Settled r"
| "join_result join_error (UnwoundInCall p) = UnwoundInCall p"
| "join_result join_error (Unwound p) =
     Settled (Inl (error_new Internal (''agent supervisor task failed: '' @ join_error p) Settlement EffPossible))"

definition supervise_call :: "'v supervised" where
  "supervise_call = \<lparr>sv_task = None, sv_future = True, sv_armed = True, sv_cancelled = False, sv_result = None\<rparr>"

text \<open>\<open>CancelOnDrop::drop\<close>.\<close>

definition cancel_on_drop :: "'v supervised \<Rightarrow> 'v supervised" where
  "cancel_on_drop s = s\<lparr>sv_future := False, sv_cancelled := sv_cancelled s \<or> sv_armed s\<rparr>"

definition supervise_step ::
  "(panic_payload \<Rightarrow> string) \<Rightarrow> 'v supervised \<Rightarrow> 'v supervise_event \<Rightarrow> 'v supervised option" where
  "supervise_step join_error s e =
     (case e of
        TaskEnds x \<Rightarrow> (if sv_task s = None then Some (s\<lparr>sv_task := Some x\<rparr>) else None)
      | HandlePolled \<Rightarrow>
          (if \<not> sv_future s then None
           else case map_option (join_result join_error) (sv_task s) of
                  Some (Settled r) \<Rightarrow> Some (cancel_on_drop (s\<lparr>sv_armed := False, sv_result := Some r\<rparr>))
                | _ \<Rightarrow> Some s)
      | HandleDropped \<Rightarrow> (if sv_future s then Some (cancel_on_drop s) else None))"

fun supervise_run ::
  "(panic_payload \<Rightarrow> string) \<Rightarrow> 'v supervised \<Rightarrow> 'v supervise_event list \<Rightarrow> 'v supervised option" where
  "supervise_run j s [] = Some s"
| "supervise_run j s (e # es) = (case supervise_step j s e of None \<Rightarrow> None | Some s' \<Rightarrow> supervise_run j s' es)"

definition supervise_layer :: "(panic_payload \<Rightarrow> string) \<Rightarrow> ('req, 'v) layer" where
  "supervise_layer join_error request = Forward (join_result join_error)"

interpretation supervising: honest_layer supervise_layer ev for ev :: "'v \<Rightarrow> failure_evidence"
proof
  fix j :: "panic_payload \<Rightarrow> string" and r :: 'a and f :: "'v ending \<Rightarrow> 'v ending" and x
  assume "supervise_layer j r = Forward f"
  then have f: "f = join_result j" by (simp add: supervise_layer_def)
  show "admitted x \<le> admitted (f x)" by (cases x) (simp_all add: f)
  show "ending_evidence ev (f x) = ending_evidence ev x" by (cases x) (simp_all add: f evidence_of_def)
qed (simp add: supervise_layer_def)

section \<open>Lemmas\<close>

definition observed_guard :: "'v observed \<Rightarrow> receipt_guard option" where
  "observed_guard s = (case s of ObserveCreated g \<Rightarrow> Some g | ObserveAwaiting g \<Rightarrow> Some g | ObserveGone _ \<Rightarrow> None)"

definition fresh_guard :: "operation_id \<Rightarrow> instant \<Rightarrow> bool \<Rightarrow> receipt_guard" where
  "fresh_guard i start launched =
     \<lparr>guard_operation_id = i, guard_started = start, guard_finished = False, guard_launched = launched\<rparr>"

text \<open>The receipt a life ends with, as a function of how it ended and whether the future was polled.\<close>

definition expected_status :: "bool \<Rightarrow> 'v ending option \<Rightarrow> receipt_status" where
  "expected_status polled ended =
     (case ended of
        Some (Settled r) \<Rightarrow> receipt_status_of r
      | _ \<Rightarrow> Abandoned (if polled then EffPossible else EffNone))"

lemma observe_awaiting_run:
  "observe_run (ObserveAwaiting (fresh_guard i start True)) es = Some (ObserveGone ended, rs) \<Longrightarrow>
     \<exists>now. rs = [\<lparr>rc_operation_id = i, rc_elapsed = now - start, rc_status = expected_status True ended\<rparr>]
       \<and> now \<in> fst ` set es"
proof (induction es arbitrary: rs)
  case Nil
  then show ?case by simp
next
  case (Cons e es)
  obtain now ev where e: "e = (now, ev)" by (cases e)
  have gone: "observe_run (ObserveGone l) es = Some (ObserveGone ended, rs') \<Longrightarrow> ended = l \<and> rs' = []" for l rs'
    by (cases es) auto
  show ?case
  proof (cases ev)
    case Polled
    with Cons e show ?thesis by auto
  next
    case (InnerEnds x)
    with Cons.prems e show ?thesis
      by (cases x) (auto simp: guard_finish_def guard_drop_def fresh_guard_def expected_status_def dest!: gone)
  next
    case FutureDropped
    with Cons.prems e show ?thesis
      by (auto simp: guard_drop_def fresh_guard_def expected_status_def dest!: gone)
  qed
qed

lemma observe_created_run:
  assumes "observe_run (ObserveCreated (fresh_guard i start False)) es = Some (ObserveGone ended, rs)"
  shows "\<exists>now. rs = [\<lparr>rc_operation_id = i, rc_elapsed = now - start,
      rc_status = expected_status (Polled \<in> snd ` set es) ended\<rparr>] \<and> now \<in> fst ` set es"
proof (cases es)
  case Nil
  with assms show ?thesis by simp
next
  case (Cons e es')
  obtain now ev where e: "e = (now, ev)" by (cases e)
  have gone: "observe_run (ObserveGone l) es' = Some (ObserveGone ended, rs') \<Longrightarrow> ended = l \<and> rs' = [] \<and> es' = []" for l rs'
    by (cases es') auto
  show ?thesis
  proof (cases ev)
    case Polled
    then have "observe_run (ObserveAwaiting (fresh_guard i start True)) es' = Some (ObserveGone ended, rs)"
      using assms Cons e by (auto simp: guard_mark_launched_def fresh_guard_def)
    from observe_awaiting_run [OF this] Polled Cons e show ?thesis by auto
  next
    case (InnerEnds x)
    with assms Cons e show ?thesis by simp
  next
    case FutureDropped
    with assms Cons e show ?thesis
      by (auto simp: guard_drop_def fresh_guard_def expected_status_def dest!: gone)
  qed
qed

section \<open>Properties\<close>

text \<open>Whatever happens to an observed call, exactly one receipt is recorded for it, under its
  operation id: \<open>Succeeded\<close> or \<open>Failed\<close> with the classification of the settlement when it settled,
  and \<open>Abandoned\<close> otherwise, claiming no effects exactly when the future was never polled.\<close>

theorem one_receipt_per_call:
  assumes "observe_run (observe_call start request) es = Some (ObserveGone ended, rs)"
  shows "\<exists>now. rs = [\<lparr>rc_operation_id = ctx_operation_id (req_context request), rc_elapsed = now - start,
      rc_status = expected_status (Polled \<in> snd ` set es) ended\<rparr>] \<and> now \<in> fst ` set es"
  using assms observe_created_run [of "ctx_operation_id (req_context request)" start es ended rs]
  by (simp add: observe_call_def receipt_guard_new_def fresh_guard_def)

theorem one_receipt_per_call_witness:
  "\<exists>now. [\<lparr>rc_operation_id = 3, rc_elapsed = 7, rc_status = Abandoned EffPossible\<rparr>] =
     [\<lparr>rc_operation_id = (3 :: operation_id), rc_elapsed = now - 10, rc_status = Abandoned EffPossible\<rparr>]"
proof -
  have "observe_run (observe_call 10 (agent_request_with_context () (call_context_default 3 [0])))
      [(12, Polled), (13, Polled), (17, FutureDropped)]
    = Some (ObserveGone (None :: unit ending option),
        [\<lparr>rc_operation_id = 3, rc_elapsed = 7, rc_status = Abandoned EffPossible\<rparr>])"
    by code_simp
  from one_receipt_per_call [OF this] show ?thesis
    by (auto simp: expected_status_def agent_request_with_context_def call_context_default_def)
qed

lemma supervise_run_invariant:
  "supervise_run j s es = Some s' \<Longrightarrow>
     (sv_future s \<longrightarrow> sv_armed s \<and> \<not> sv_cancelled s \<and> sv_result s = None) \<Longrightarrow>
     (\<not> sv_future s \<longrightarrow> (sv_cancelled s \<longleftrightarrow> sv_result s = None)) \<Longrightarrow>
     (sv_result s \<noteq> None \<longrightarrow> (\<exists>x. sv_task s = Some x \<and> join_result j x = Settled (the (sv_result s)))) \<Longrightarrow>
     (sv_future s' \<longrightarrow> sv_armed s' \<and> \<not> sv_cancelled s' \<and> sv_result s' = None)
     \<and> (\<not> sv_future s' \<longrightarrow> (sv_cancelled s' \<longleftrightarrow> sv_result s' = None))
     \<and> (sv_result s' \<noteq> None \<longrightarrow> (\<exists>x. sv_task s' = Some x \<and> join_result j x = Settled (the (sv_result s'))))
     \<and> (sv_task s' = (case sv_task s of Some x \<Rightarrow> Some x | None \<Rightarrow> sv_task s'))
     \<and> (\<forall>x. TaskEnds x \<in> set es \<longrightarrow> sv_task s' = Some x)"
proof (induction es arbitrary: s)
  case Nil
  then show ?case by (auto split: option.splits)
next
  case (Cons e es)
  obtain s1 where step: "supervise_step j s e = Some s1" and rest: "supervise_run j s1 es = Some s'"
    using Cons.prems(1) by (auto split: option.splits)
  have inv1: "(sv_future s1 \<longrightarrow> sv_armed s1 \<and> \<not> sv_cancelled s1 \<and> sv_result s1 = None)"
    "(\<not> sv_future s1 \<longrightarrow> (sv_cancelled s1 \<longleftrightarrow> sv_result s1 = None))"
    "(sv_result s1 \<noteq> None \<longrightarrow> (\<exists>x. sv_task s1 = Some x \<and> join_result j x = Settled (the (sv_result s1))))"
    "\<And>x. sv_task s = Some x \<Longrightarrow> sv_task s1 = Some x" "\<And>x. e = TaskEnds x \<Longrightarrow> sv_task s1 = Some x"
    using step Cons.prems(2-4)
    by (auto simp: supervise_step_def cancel_on_drop_def
        split: supervise_event.splits if_splits option.splits ending.splits)
  from Cons.IH [OF rest inv1(1-3)] inv1(4,5) show ?case
    by (auto split: option.splits)
qed

text \<open>A supervised call is never abandoned: dropping the caller's future leaves the spawned task to
  end as it ends, and the call's token is cancelled exactly when the future is dropped before it
  delivered a result. A delivered result is that of the task, a panic reported as an internal
  failure with possible effects.\<close>

theorem supervision_retains_call:
  assumes "supervise_run j supervise_call es = Some s"
  shows "(\<forall>x. TaskEnds x \<in> set es \<longrightarrow> sv_task s = Some x)
    \<and> (sv_cancelled s \<longleftrightarrow> \<not> sv_future s \<and> sv_result s = None)
    \<and> (\<forall>r. sv_result s = Some r \<longrightarrow> (\<exists>x. sv_task s = Some x \<and> join_result j x = Settled r))"
  using supervise_run_invariant [OF assms] by (auto simp: supervise_call_def)

theorem supervision_retains_call_witness:
  "\<exists>s. supervise_run (\<lambda>_. ''panic'') supervise_call [HandlePolled, HandleDropped, TaskEnds (Settled (Inr ()))] = Some s
     \<and> sv_task s = Some (Settled (Inr ())) \<and> sv_cancelled s"
proof -
  have run: "supervise_run (\<lambda>_. ''panic'') supervise_call [HandlePolled, HandleDropped, TaskEnds (Settled (Inr ()))]
     = Some \<lparr>sv_task = Some (Settled (Inr ())), sv_future = False, sv_armed = True, sv_cancelled = True, sv_result = None\<rparr>"
    by code_simp
  from supervision_retains_call [OF run] run show ?thesis by auto
qed

end
