(* ===== verification/Layer_Stack.thy ===== *)
theory Layer_Stack
  imports Admission Deadline_Layer Observe
begin

text \<open>
  Layers composed: every layer of the crate with its environment as one configuration, and any
  stack of them over a provider. The theorems are the service law of \<open>docs/architecture.md\<close>: through
  every stack a failure that claims no effects means that the provider was not called, and what a
  provider settled with stays visible.
\<close>

datatype ('o, 'j) layer_config =
    ValidateTurn "nat option"
  | EnforceAuthority "path \<Rightarrow> string + path" "'o \<Rightarrow> filesystem_authority" "'o \<Rightarrow> path list" authority_policy
  | LimitOutput "'j \<Rightarrow> string" nat
  | CatchPanic
  | InjectFaults "fault option"
  | AdmitOne bool
  | EnforceDeadline deadline_env
  | ObserveCall
  | SuperviseCall "panic_payload \<Rightarrow> string"

fun layer_of :: "('o, 'j) layer_config \<Rightarrow> ('o turn agent_request, 'j turn_outcome) layer" where
  "layer_of (ValidateTurn m) = validate_turn m"
| "layer_of (EnforceAuthority c q rs p) = enforce_authority (c, q, rs, p)"
| "layer_of (LimitOutput js n) = limit_output (js, n)"
| "layer_of CatchPanic = catch_panic ()"
| "layer_of (InjectFaults f) = inject_fault terminal_evidence f"
| "layer_of (AdmitOne permit) = admission_call permit"
| "layer_of (EnforceDeadline env) = deadline_layer terminal_evidence env"
| "layer_of ObserveCall = observe_layer ()"
| "layer_of (SuperviseCall j) = supervise_layer j"

text \<open>The order of \<open>docs/architecture.md\<close>, outermost first.\<close>

definition reference_stack ::
  "(panic_payload \<Rightarrow> string) \<Rightarrow> (path \<Rightarrow> string + path) \<Rightarrow> ('o \<Rightarrow> filesystem_authority) \<Rightarrow> ('o \<Rightarrow> path list)
     \<Rightarrow> authority_policy \<Rightarrow> bool \<Rightarrow> deadline_env \<Rightarrow> ('o, 'j) layer_config list" where
  "reference_stack j c q rs p permit env =
     [SuperviseCall j, ObserveCall, CatchPanic, AdmitOne permit, EnforceDeadline env, ValidateTurn None,
      EnforceAuthority c q rs p]"

interpretation any_layer: honest_layer "layer_of :: ('o, 'j) layer_config \<Rightarrow> _" terminal_evidence
proof
  fix env :: "('o, 'j) layer_config" and r e
  assume refuse: "layer_of env r = Refuse e"
  show "err_effects e = EffNone \<and> err_phase e \<in> {Admission, Validation} \<and> evidence_of e = failure_evidence_default"
    using refuse
    by (cases env)
      (simp_all only: layer_of.simps,
        (erule validate.refusal_before_launch | erule authority.refusal_before_launch | erule limit.refusal_before_launch
        | erule panics.refusal_before_launch | erule faults.refusal_before_launch | erule admission.refusal_before_launch
        | erule deadlines.refusal_before_launch | erule observing.refusal_before_launch | erule supervising.refusal_before_launch)+)
next
  fix env :: "('o, 'j) layer_config" and r f and x :: "'j turn_outcome ending"
  assume forward: "layer_of env r = Forward f"
  show "admitted x \<le> admitted (f x)"
    using forward
    by (cases env)
      (simp_all only: layer_of.simps,
        (erule validate.effects_never_shrink | erule authority.effects_never_shrink | erule limit.effects_never_shrink
        | erule panics.effects_never_shrink | erule faults.effects_never_shrink | erule admission.effects_never_shrink
        | erule deadlines.effects_never_shrink | erule observing.effects_never_shrink | erule supervising.effects_never_shrink)+)
  show "ending_evidence terminal_evidence (f x) = ending_evidence terminal_evidence x"
    using forward
    by (cases env)
      (simp_all only: layer_of.simps,
        (erule validate.evidence_survives | erule authority.evidence_survives | erule limit.evidence_survives
        | erule panics.evidence_survives | erule faults.evidence_survives | erule admission.evidence_survives
        | erule deadlines.evidence_survives | erule observing.evidence_survives | erule supervising.evidence_survives)+)
qed

definition with_layers ::
  "('o, 'j) layer_config list \<Rightarrow> ('o turn agent_request, 'j turn_outcome) service
     \<Rightarrow> ('o turn agent_request, 'j turn_outcome) service" where
  "with_layers cs provider = apply_layers (map layer_of cs) provider"

lemma with_layers_simps [simp]:
  "with_layers [] provider = provider"
  "with_layers (c # cs) provider = apply_layer (layer_of c) (with_layers cs provider)"
  by (simp_all add: with_layers_def apply_layers_def)

text \<open>A request that comes through a stack is the request that went in.\<close>

lemma stack_reached: "snd (with_layers cs provider request) \<Longrightarrow> snd (provider request)"
proof (induction cs)
  case Nil
  then show ?case by simp
next
  case (Cons c cs)
  from Cons.prems any_layer.evidence_reached [of c "with_layers cs provider" request]
  have "snd (with_layers cs provider request)" by simp
  then show ?case by (rule Cons.IH)
qed

lemma with_layers_honest: "honest provider \<Longrightarrow> honest (with_layers cs provider)"
  by (induction cs) (simp_all add: any_layer.keeps_honest)

text \<open>A provider that acts only when it reports that it may have acted, as a small total model.\<close>

definition refusing_provider :: "('o turn agent_request, 'j turn_outcome) service" where
  "refusing_provider request =
     (if turn_prompt (req_body request) = ''refuse''
      then (Settled (Inl (unavailable ''no capacity'')), False)
      else (Settled (Inr (turn_outcome_new ''done'')), True))"

lemma refusing_provider_honest: "honest refusing_provider"
  by (simp add: honest_def refusing_provider_def)

section \<open>Properties\<close>

text \<open>C11: through every stack of the crate's layers over an honest provider, in any order and under any
  race, a call that ends with a failure claiming no effects never reached the provider.\<close>

theorem stack_keeps_honesty:
  assumes "honest provider"
  shows "honest (with_layers cs provider)"
  using assms by (rule with_layers_honest)

theorem stack_keeps_honesty_witness:
  "\<not> snd (with_layers
      [CatchPanic, AdmitOne True, EnforceDeadline \<lparr>env_cancelled = [], env_now = 0, env_wake = InnerSettles\<rparr>]
      (refusing_provider :: (unit turn agent_request, nat turn_outcome) service)
      (agent_request_with_context (turn_new ''refuse'') (call_context_default 1 [0])))"
proof -
  let ?stack = "with_layers
      [CatchPanic, AdmitOne True, EnforceDeadline \<lparr>env_cancelled = [], env_now = 0, env_wake = InnerSettles\<rparr>]
      (refusing_provider :: (unit turn agent_request, nat turn_outcome) service)"
  let ?r = "agent_request_with_context (turn_new ''refuse'') (call_context_default 1 [0])"
  have "fst (?stack ?r) = Settled (Inl (unavailable ''no capacity''))" by code_simp
  then have "admitted (fst (?stack ?r)) = EffNone" by (simp add: unavailable_def)
  with stack_keeps_honesty [OF refusing_provider_honest] show ?thesis unfolding honest_def by blast
qed

text \<open>C12: when a request reached the provider through a stack, the caller sees exactly the terminal
  evidence of the provider's settlement (session, usage, cost, duration, turns) and at least the
  effects it admitted.\<close>

theorem stack_preserves_evidence:
  assumes "snd (with_layers cs provider request)"
  shows "snd (provider request)
    \<and> ending_evidence terminal_evidence (fst (with_layers cs provider request))
        = ending_evidence terminal_evidence (fst (provider request))
    \<and> admitted (fst (provider request)) \<le> admitted (fst (with_layers cs provider request))"
  using assms
proof (induction cs)
  case Nil
  then show ?case by simp
next
  case (Cons c cs)
  from any_layer.evidence_reached [of c "with_layers cs provider" request] Cons.prems
  have step: "snd (with_layers cs provider request)"
    "ending_evidence terminal_evidence (fst (with_layers (c # cs) provider request))
      = ending_evidence terminal_evidence (fst (with_layers cs provider request))"
    "admitted (fst (with_layers cs provider request)) \<le> admitted (fst (with_layers (c # cs) provider request))"
    by simp_all
  from Cons.IH [OF step(1)] step(2,3) show ?case by (auto intro: order.trans)
qed

theorem stack_preserves_evidence_witness:
  "\<exists>e. fst (with_layers [InjectFaults (Some (FailAfterSettlement Limit ''injected'')), LimitOutput (\<lambda>_. []) 3]
        (refusing_provider :: (unit turn agent_request, nat turn_outcome) service)
        (agent_request_with_context (turn_new ''go'') (call_context_default 1 [0]))) = Settled (Inl e)
     \<and> EffReported \<le> err_effects e"
proof -
  let ?stack = "with_layers [InjectFaults (Some (FailAfterSettlement Limit ''injected'')), LimitOutput (\<lambda>_. []) 3]
        (refusing_provider :: (unit turn agent_request, nat turn_outcome) service)
        (agent_request_with_context (turn_new ''go'') (call_context_default 1 [0]))"
  have reached: "snd ?stack" and inner: "admitted (fst ((refusing_provider :: (unit turn agent_request, nat turn_outcome) service)
        (agent_request_with_context (turn_new ''go'') (call_context_default 1 [0])))) = EffReported"
    and failed: "(case fst ?stack of Settled (Inl e) \<Rightarrow> True | _ \<Rightarrow> False)"
    by code_simp+
  from failed obtain e where "fst ?stack = Settled (Inl e)" by (auto split: ending.splits sum.splits)
  with stack_preserves_evidence [OF reached] inner show ?thesis by auto
qed

end
