(* ===== verification/Event_Channel.thy ===== *)
theory Event_Channel
  imports Request
begin

text \<open>
  \<open>event.rs\<close>: the byte-bounded event channel. Emitters on several threads reserve bytes in a shared
  atomic counter with a compare-exchange loop before they send, a refused send gives the bytes
  back, and the receiver gives back the bytes of every event it takes. Each atomic operation is one
  step, so a run is an interleaving of steps. \<open>tokio::sync::mpsc\<close> is a parameter with its documented
  behaviour (\<open>mpsc_laws\<close>).
\<close>

section \<open>The queue below\<close>

datatype try_send_error = SendFull | SendClosed

record 'q mpsc_ops =
  mpsc_channel :: "nat \<Rightarrow> 'q"
  mpsc_try_send :: "'q \<Rightarrow> agent_event \<Rightarrow> try_send_error + 'q"
  mpsc_recv :: "'q \<Rightarrow> (agent_event \<times> 'q) option"
  mpsc_drop_receiver :: "'q \<Rightarrow> 'q"
  mpsc_contents :: "'q \<Rightarrow> agent_event list"

text \<open>A new channel is empty, an accepted event goes to the back, events are taken from the front.\<close>

definition mpsc_laws :: "'q mpsc_ops \<Rightarrow> bool" where
  "mpsc_laws ops \<longleftrightarrow>
     (\<forall>n. mpsc_contents ops (mpsc_channel ops n) = [])
     \<and> (\<forall>q e q'. mpsc_try_send ops q e = Inr q' \<longrightarrow> mpsc_contents ops q' = mpsc_contents ops q @ [e])
     \<and> (\<forall>q e q'. mpsc_recv ops q = Some (e, q') \<longrightarrow> mpsc_contents ops q = e # mpsc_contents ops q')
     \<and> (\<forall>q. mpsc_recv ops q = None \<longleftrightarrow> mpsc_contents ops q = [])
     \<and> (\<forall>q. mpsc_contents ops (mpsc_drop_receiver ops q) = [])"

section \<open>Limits\<close>

record event_limits =
  max_event_bytes :: usize
  max_queued_bytes :: usize

definition event_limits_new :: "usize \<Rightarrow> usize \<Rightarrow> event_limits" where
  "event_limits_new e q = \<lparr>max_event_bytes = e, max_queued_bytes = q\<rparr>"

definition event_limits_default :: event_limits where
  "event_limits_default = event_limits_new (256 * 1024) (4 * 1024 * 1024)"

definition send_error_of :: "try_send_error \<Rightarrow> event_send_error" where
  "send_error_of error = (case error of SendFull \<Rightarrow> EventFull | SendClosed \<Rightarrow> EventClosed)"

text \<open>\<open>str::len\<close> of every part of an event fits a \<open>usize\<close>.\<close>

definition event_bytes :: "agent_event \<Rightarrow> usize" where
  "event_bytes e = of_nat (payload_bytes e)"

section \<open>The unbounded-byte sink\<close>

definition channel_try_emit :: "'q mpsc_ops \<Rightarrow> 'q \<Rightarrow> agent_event \<Rightarrow> event_send_error + 'q" where
  "channel_try_emit ops q e = map_err send_error_of (mpsc_try_send ops q e)"

section \<open>One call of \<open>try_emit\<close>\<close>

text \<open>
  Where an emitter is: outside \<open>try_emit\<close> with the result of its last call, at the head of the loop
  with the value of \<open>current\<close>, after the reservation, or after a refused send.
\<close>

datatype emitter =
    EmitterDone "event_send_error + unit"
  | EmitterLooping agent_event usize
  | EmitterReserved agent_event
  | EmitterRefused agent_event try_send_error

text \<open>
  \<open>EmitBegin\<close> enters \<open>try_emit\<close>; the relaxed load may see any earlier value. \<open>EmitExchange None\<close> is a
  compare-exchange that succeeds when the counter holds \<open>current\<close>, \<open>EmitExchange (Some actual)\<close> one
  that fails, spuriously or not, and returns \<open>actual\<close>.
\<close>

datatype emit_action =
    EmitBegin agent_event usize
  | EmitExchange "usize option"
  | EmitSend
  | EmitGiveBack

fun emit_step ::
  "event_limits \<Rightarrow> 'q mpsc_ops \<Rightarrow> emitter \<Rightarrow> usize \<Rightarrow> 'q \<Rightarrow> emit_action \<Rightarrow> (emitter \<times> usize \<times> 'q) option" where
  "emit_step limits ops (EmitterDone _) queued q (EmitBegin e seen) =
     (if unat (event_bytes e) = payload_bytes e
      then (if max_event_bytes limits < event_bytes e
            then Some (EmitterDone (Inl EventFull), queued, q)
            else Some (EmitterLooping e seen, queued, q))
      else None)"
| "emit_step limits ops (EmitterLooping e current) queued q (EmitExchange failed) =
     (if max_queued_bytes limits < current + event_bytes e
      then Some (EmitterDone (Inl EventFull), queued, q)
      else (case failed of
              None \<Rightarrow> (if queued = current then Some (EmitterReserved e, current + event_bytes e, q) else None)
            | Some actual \<Rightarrow> Some (EmitterLooping e actual, queued, q)))"
| "emit_step limits ops (EmitterReserved e) queued q EmitSend =
     (case mpsc_try_send ops q e of
        Inr q' \<Rightarrow> Some (EmitterDone (Inr ()), queued, q')
      | Inl error \<Rightarrow> Some (EmitterRefused e error, queued, q))"
| "emit_step limits ops (EmitterRefused e error) queued q EmitGiveBack =
     Some (EmitterDone (Inl (send_error_of error)), queued - event_bytes e, q)"
| "emit_step limits ops _ _ _ _ = None"

section \<open>The channel with its emitters and its receiver\<close>

text \<open>
  \<open>ch_taken\<close> is the event \<open>recv\<close> or \<open>try_recv\<close> has taken and not yet accounted for: both take \<open>&mut self\<close>,
  so there is at most one.
\<close>

record 'q event_channel =
  ch_queue :: 'q
  ch_queued :: usize
  ch_emitters :: "emitter list"
  ch_taken :: "agent_event option"
  ch_received :: "agent_event list"
  ch_receiver_alive :: bool

datatype channel_action =
    Emit nat emit_action
  | CloneObserver
  | ReceiverTakes
  | ReceiverAccounts
  | ReceiverDropped

definition bounded_channel :: "'q mpsc_ops \<Rightarrow> nat \<Rightarrow> 'q event_channel" where
  "bounded_channel ops capacity =
     \<lparr>ch_queue = mpsc_channel ops capacity, ch_queued = 0, ch_emitters = [EmitterDone (Inr ())],
      ch_taken = None, ch_received = [], ch_receiver_alive = True\<rparr>"

fun channel_step ::
  "event_limits \<Rightarrow> 'q mpsc_ops \<Rightarrow> 'q event_channel \<Rightarrow> channel_action \<Rightarrow> 'q event_channel option" where
  "channel_step limits ops c (Emit i a) =
     (if i < length (ch_emitters c)
      then (case emit_step limits ops (ch_emitters c ! i) (ch_queued c) (ch_queue c) a of
              None \<Rightarrow> None
            | Some (emitter', queued', q') \<Rightarrow>
                Some (c\<lparr>ch_queue := q', ch_queued := queued', ch_emitters := (ch_emitters c)[i := emitter']\<rparr>))
      else None)"
| "channel_step limits ops c CloneObserver =
     Some (c\<lparr>ch_emitters := ch_emitters c @ [EmitterDone (Inr ())]\<rparr>)"
| "channel_step limits ops c ReceiverTakes =
     (if ch_receiver_alive c \<and> ch_taken c = None
      then (case mpsc_recv ops (ch_queue c) of
              None \<Rightarrow> None
            | Some (e, q') \<Rightarrow> Some (c\<lparr>ch_queue := q', ch_taken := Some e\<rparr>))
      else None)"
| "channel_step limits ops c ReceiverAccounts =
     (case ch_taken c of
        None \<Rightarrow> None
      | Some e \<Rightarrow> Some (c\<lparr>ch_queued := ch_queued c - event_bytes e, ch_taken := None,
                          ch_received := ch_received c @ [e]\<rparr>))"
| "channel_step limits ops c ReceiverDropped =
     (if ch_receiver_alive c \<and> ch_taken c = None
      then Some (c\<lparr>ch_queue := mpsc_drop_receiver ops (ch_queue c), ch_receiver_alive := False\<rparr>)
      else None)"

fun channel_run ::
  "event_limits \<Rightarrow> 'q mpsc_ops \<Rightarrow> 'q event_channel \<Rightarrow> channel_action list \<Rightarrow> 'q event_channel option" where
  "channel_run limits ops c [] = Some c"
| "channel_run limits ops c (a # as) =
     (case channel_step limits ops c a of None \<Rightarrow> None | Some c' \<Rightarrow> channel_run limits ops c' as)"

section \<open>The byte budget\<close>

text \<open>The events that hold bytes of the budget: queued, being sent, being given back, being received.\<close>

fun emitter_holds :: "emitter \<Rightarrow> nat" where
  "emitter_holds (EmitterReserved e) = payload_bytes e"
| "emitter_holds (EmitterRefused e _) = payload_bytes e"
| "emitter_holds _ = 0"

definition retained_bytes :: "'q mpsc_ops \<Rightarrow> 'q event_channel \<Rightarrow> nat" where
  "retained_bytes ops c =
     sum_list (map payload_bytes (mpsc_contents ops (ch_queue c)))
     + sum_list (map emitter_holds (ch_emitters c))
     + (case ch_taken c of None \<Rightarrow> 0 | Some e \<Rightarrow> payload_bytes e)"

fun in_flight :: "emitter \<Rightarrow> agent_event list" where
  "in_flight (EmitterDone _) = []"
| "in_flight (EmitterLooping e _) = [e]"
| "in_flight (EmitterReserved e) = [e]"
| "in_flight (EmitterRefused e _) = [e]"

definition channel_events :: "'q mpsc_ops \<Rightarrow> 'q event_channel \<Rightarrow> agent_event list" where
  "channel_events ops c =
     mpsc_contents ops (ch_queue c) @ concat (map in_flight (ch_emitters c)) @ ch_received c
     @ (case ch_taken c of None \<Rightarrow> [] | Some e \<Rightarrow> [e])"

definition budget_kept :: "event_limits \<Rightarrow> 'q mpsc_ops \<Rightarrow> 'q event_channel \<Rightarrow> bool" where
  "budget_kept limits ops c \<longleftrightarrow>
     retained_bytes ops c \<le> unat (ch_queued c)
     \<and> unat (ch_queued c) \<le> unat (max_queued_bytes limits)
     \<and> (ch_receiver_alive c \<longrightarrow> retained_bytes ops c = unat (ch_queued c))
     \<and> (\<forall>e \<in> set (channel_events ops c). payload_bytes e \<le> unat (max_event_bytes limits))"

lemma sum_list_map_update:
  "i < length xs \<Longrightarrow> sum_list (map f (xs[i := y])) + f (xs ! i) = sum_list (map f xs) + (f y :: nat)"
proof (induction xs arbitrary: i)
  case (Cons x xs)
  show ?case
  proof (cases i)
    case (Suc j)
    then show ?thesis using Cons.IH [of j] Cons.prems by simp
  qed simp
qed simp

lemma unat_event_bytes: "payload_bytes e < 2 ^ 64 \<Longrightarrow> unat (event_bytes e) = payload_bytes e"
  by (simp add: event_bytes_def unat_of_nat take_bit_nat_eq_self)

lemma unat_add_small: "unat a + unat b < 2 ^ 64 \<Longrightarrow> unat (a + b :: usize) = unat a + unat b"
  by (simp add: unat_word_ariths)

lemma unat_sub_small: "unat b \<le> unat a \<Longrightarrow> unat (a - b :: usize) = unat a - unat b"
  by (simp add: unat_sub word_le_nat_alt)

lemma in_flight_update:
  "set (concat (map in_flight (xs[i := y]))) \<subseteq> set (concat (map in_flight xs)) \<union> set (in_flight y)"
  using set_update_subset_insert [of xs i y] by auto

lemma in_flight_nth: "i < length xs \<Longrightarrow> set (in_flight (xs ! i)) \<subseteq> set (concat (map in_flight xs))"
  by (auto intro: nth_mem)

text \<open>One emitter step: what it holds, what the queue holds and the counter move together.\<close>

lemma emit_step_budget:
  assumes laws: "mpsc_laws ops"
    and fits: "unat (max_event_bytes limits) + unat (max_queued_bytes limits) < 2 ^ 64"
    and step: "emit_step limits ops x queued q a = Some (x', queued', q')"
    and bound: "unat queued \<le> unat (max_queued_bytes limits)"
    and small: "\<forall>e \<in> set (in_flight x). payload_bytes e \<le> unat (max_event_bytes limits)"
    and held: "emitter_holds x \<le> unat queued"
  shows "sum_list (map payload_bytes (mpsc_contents ops q')) + emitter_holds x' + unat queued
      = sum_list (map payload_bytes (mpsc_contents ops q)) + emitter_holds x + unat queued'
    \<and> unat queued' \<le> unat (max_queued_bytes limits)
    \<and> (\<forall>e \<in> set (in_flight x') \<union> set (mpsc_contents ops q').
         payload_bytes e \<le> unat (max_event_bytes limits) \<or> e \<in> set (mpsc_contents ops q))"
proof -
  have small64: "payload_bytes e < 2 ^ 64" if "payload_bytes e \<le> unat (max_event_bytes limits)" for e
    using that fits by linarith
  show ?thesis
  proof (cases x)
    case (EmitterDone r)
    with step obtain e seen where a: "a = EmitBegin e seen" by (cases a) auto
    with step EmitterDone show ?thesis using bound
      by (auto simp: word_less_nat_alt unat_event_bytes split: if_splits)
  next
    case (EmitterLooping e current)
    with step obtain failed where a: "a = EmitExchange failed" by (cases a) auto
    have e: "payload_bytes e \<le> unat (max_event_bytes limits)"
      using small EmitterLooping by simp
    have "unat (queued + event_bytes e) = unat queued + payload_bytes e"
      using unat_add_small [of queued "event_bytes e"] unat_event_bytes [OF small64 [OF e]] e bound fits by simp
    with step EmitterLooping a show ?thesis using bound e
      by (auto simp: word_less_nat_alt split: if_splits option.splits)
  next
    case (EmitterReserved e)
    with step have a: "a = EmitSend" by (cases a) auto
    have e: "payload_bytes e \<le> unat (max_event_bytes limits)"
      using small EmitterReserved by simp
    show ?thesis
    proof (cases "mpsc_try_send ops q e")
      case (Inl error)
      with step EmitterReserved a show ?thesis using bound e by auto
    next
      case (Inr q1)
      with step EmitterReserved a have new: "x' = EmitterDone (Inr ())" "queued' = queued" "q' = q1" by auto
      have "mpsc_contents ops q1 = mpsc_contents ops q @ [e]"
        using laws Inr unfolding mpsc_laws_def by blast
      with new EmitterReserved show ?thesis using bound e by auto
    qed
  next
    case (EmitterRefused e error)
    with step have a: "a = EmitGiveBack" by (cases a) auto
    have e: "payload_bytes e \<le> unat (max_event_bytes limits)"
      using small EmitterRefused by simp
    have "unat (queued - event_bytes e) = unat queued - payload_bytes e"
      using unat_sub_small [of "event_bytes e" queued] unat_event_bytes [OF small64 [OF e]] held EmitterRefused
      by simp
    with step EmitterRefused a held show ?thesis using bound by auto
  qed
qed

lemma sum_list_member_le: "i < length xs \<Longrightarrow> (f (xs ! i) :: nat) \<le> sum_list (map f xs)"
  by (simp add: member_le_sum_list)

lemma emit_keeps_budget:
  assumes laws: "mpsc_laws ops"
    and fits: "unat (max_event_bytes limits) + unat (max_queued_bytes limits) < 2 ^ 64"
    and inv: "budget_kept limits ops c"
    and step: "channel_step limits ops c (Emit i a) = Some c'"
  shows "budget_kept limits ops c'"
proof -
  from step obtain x' queued' q' where i: "i < length (ch_emitters c)"
    and es: "emit_step limits ops (ch_emitters c ! i) (ch_queued c) (ch_queue c) a = Some (x', queued', q')"
    and c': "c' = c\<lparr>ch_queue := q', ch_queued := queued', ch_emitters := (ch_emitters c)[i := x']\<rparr>"
    by (auto split: if_splits option.splits)
  have holds: "emitter_holds (ch_emitters c ! i) \<le> sum_list (map emitter_holds (ch_emitters c))"
    using i by (rule sum_list_member_le)
  have flight: "set (in_flight (ch_emitters c ! i)) \<subseteq> set (channel_events ops c)"
    using in_flight_nth [OF i] by (auto simp: channel_events_def)
  have old: "retained_bytes ops c \<le> unat (ch_queued c)"
    "unat (ch_queued c) \<le> unat (max_queued_bytes limits)"
    "ch_receiver_alive c \<longrightarrow> retained_bytes ops c = unat (ch_queued c)"
    "\<forall>e \<in> set (channel_events ops c). payload_bytes e \<le> unat (max_event_bytes limits)"
    using inv by (simp_all add: budget_kept_def)
  have new: "sum_list (map payload_bytes (mpsc_contents ops q')) + emitter_holds x' + unat (ch_queued c)
      = sum_list (map payload_bytes (mpsc_contents ops (ch_queue c))) + emitter_holds (ch_emitters c ! i) + unat queued'"
    and bound: "unat queued' \<le> unat (max_queued_bytes limits)"
    and small: "\<forall>e \<in> set (in_flight x') \<union> set (mpsc_contents ops q').
         payload_bytes e \<le> unat (max_event_bytes limits) \<or> e \<in> set (mpsc_contents ops (ch_queue c))"
    using emit_step_budget [OF laws fits es old(2)] old(1,4) flight holds
    by (auto simp: retained_bytes_def)
  have "retained_bytes ops c' + unat (ch_queued c) = retained_bytes ops c + unat queued'"
    using new sum_list_map_update [OF i, of emitter_holds x'] by (simp add: retained_bytes_def c')
  moreover have "\<forall>e \<in> set (channel_events ops c'). payload_bytes e \<le> unat (max_event_bytes limits)"
    using small old(4) in_flight_update [of "ch_emitters c" i x']
    by (fastforce simp: channel_events_def c')
  ultimately show ?thesis using old bound by (auto simp: budget_kept_def c')
qed

lemma channel_step_keeps_budget:
  assumes laws: "mpsc_laws ops"
    and fits: "unat (max_event_bytes limits) + unat (max_queued_bytes limits) < 2 ^ 64"
    and inv: "budget_kept limits ops c"
    and step: "channel_step limits ops c a = Some c'"
  shows "budget_kept limits ops c'"
proof (cases a)
  case (Emit i b)
  then show ?thesis using emit_keeps_budget [OF laws fits inv] step by simp
next
  case CloneObserver
  with step have "c' = c\<lparr>ch_emitters := ch_emitters c @ [EmitterDone (Inr ())]\<rparr>" by simp
  then have "retained_bytes ops c' = retained_bytes ops c" "set (channel_events ops c') = set (channel_events ops c)"
    "ch_queued c' = ch_queued c" "ch_receiver_alive c' = ch_receiver_alive c"
    by (simp_all add: retained_bytes_def channel_events_def)
  with inv show ?thesis by (simp add: budget_kept_def)
next
  case ReceiverTakes
  with step obtain e q' where recv: "mpsc_recv ops (ch_queue c) = Some (e, q')"
    and c: "ch_taken c = None" "c' = c\<lparr>ch_queue := q', ch_taken := Some e\<rparr>"
    by (auto split: if_splits option.splits)
  have "mpsc_contents ops (ch_queue c) = e # mpsc_contents ops q'"
    using laws recv unfolding mpsc_laws_def by blast
  with c inv show ?thesis by (auto simp: budget_kept_def retained_bytes_def channel_events_def)
next
  case ReceiverAccounts
  with step obtain e where taken: "ch_taken c = Some e"
    and c: "c' = c\<lparr>ch_queued := ch_queued c - event_bytes e, ch_taken := None, ch_received := ch_received c @ [e]\<rparr>"
    by (auto split: option.splits)
  have e: "payload_bytes e \<le> unat (max_event_bytes limits)"
    using inv taken by (auto simp: budget_kept_def channel_events_def)
  have held: "payload_bytes e \<le> unat (ch_queued c)"
    using inv taken by (auto simp: budget_kept_def retained_bytes_def)
  have "unat (ch_queued c - event_bytes e) = unat (ch_queued c) - payload_bytes e"
    using unat_sub_small [of "event_bytes e" "ch_queued c"] unat_event_bytes [of e] e held fits by simp
  with c taken held inv show ?thesis by (auto simp: budget_kept_def retained_bytes_def channel_events_def)
next
  case ReceiverDropped
  have "mpsc_contents ops (mpsc_drop_receiver ops (ch_queue c)) = []"
    using laws unfolding mpsc_laws_def by blast
  with ReceiverDropped step have "retained_bytes ops c' \<le> retained_bytes ops c"
    "set (channel_events ops c') \<subseteq> set (channel_events ops c)"
    "ch_queued c' = ch_queued c" "\<not> ch_receiver_alive c'"
    by (auto simp: retained_bytes_def channel_events_def split: if_splits)
  with inv show ?thesis by (auto simp: budget_kept_def)
qed

lemma channel_run_keeps_budget:
  assumes "mpsc_laws ops" "unat (max_event_bytes limits) + unat (max_queued_bytes limits) < 2 ^ 64"
  shows "budget_kept limits ops c \<Longrightarrow> channel_run limits ops c as = Some c' \<Longrightarrow> budget_kept limits ops c'"
proof (induction as arbitrary: c)
  case (Cons a as)
  then show ?case using channel_step_keeps_budget [OF assms] by (auto split: option.splits)
qed simp

lemma bounded_channel_budget: "mpsc_laws ops \<Longrightarrow> budget_kept limits ops (bounded_channel ops n)"
  by (simp add: budget_kept_def retained_bytes_def channel_events_def bounded_channel_def mpsc_laws_def)

section \<open>A concrete queue, for the witness\<close>

definition list_mpsc :: "(nat \<times> agent_event list \<times> bool) mpsc_ops" where
  "list_mpsc =
     \<lparr>mpsc_channel = (\<lambda>n. (n, [], True)),
      mpsc_try_send = (\<lambda>(n, es, alive) e.
        if \<not> alive then Inl SendClosed else if n \<le> length es then Inl SendFull else Inr (n, es @ [e], alive)),
      mpsc_recv = (\<lambda>(n, es, alive). case es of [] \<Rightarrow> None | e # es' \<Rightarrow> Some (e, (n, es', alive))),
      mpsc_drop_receiver = (\<lambda>(n, es, alive). (n, [], False)),
      mpsc_contents = (\<lambda>(n, es, alive). es)\<rparr>"

lemma list_mpsc_laws: "mpsc_laws list_mpsc"
  by (auto simp: mpsc_laws_def list_mpsc_def split: if_splits list.splits)

section \<open>Properties\<close>

text \<open>C15: under every interleaving of emitters, refused sends and the receiver, and whatever stale value a
  relaxed load returns, the payload retained by the channel never exceeds \<open>max_queued_bytes\<close>, no event
  above \<open>max_event_bytes\<close> is ever queued or delivered, and while the receiver lives the counter is
  exactly the retained payload, so a drained channel has its whole budget again.\<close>

theorem event_backlog_bounded:
  assumes "mpsc_laws ops"
    and "unat (max_event_bytes limits) + unat (max_queued_bytes limits) < 2 ^ 64"
    and "channel_run limits ops (bounded_channel ops capacity) as = Some c"
  shows "retained_bytes ops c \<le> unat (ch_queued c) \<and> unat (ch_queued c) \<le> unat (max_queued_bytes limits)
    \<and> (ch_receiver_alive c \<longrightarrow> retained_bytes ops c = unat (ch_queued c))
    \<and> (\<forall>e \<in> set (channel_events ops c). payload_bytes e \<le> unat (max_event_bytes limits))"
  using channel_run_keeps_budget [OF assms(1,2) bounded_channel_budget [OF assms(1)] assms(3)]
  by (simp add: budget_kept_def)

definition two_emitters :: "channel_action list" where
  "two_emitters =
     [CloneObserver, Emit 0 (EmitBegin (EvOutputDelta ''abcd'') 0), Emit 1 (EmitBegin (EvStatus ''xyz'') 0),
      Emit 0 (EmitExchange None), Emit 1 (EmitExchange (Some 4)), Emit 0 EmitSend, ReceiverTakes,
      Emit 1 (EmitExchange None), Emit 1 EmitSend, ReceiverAccounts]"

theorem event_backlog_bounded_witness:
  "\<exists>c. channel_run (event_limits_new 6 7) list_mpsc (bounded_channel list_mpsc 2) two_emitters = Some c
     \<and> ch_received c = [EvOutputDelta ''abcd''] \<and> retained_bytes list_mpsc c = 3 \<and> unat (ch_queued c) = 3"
proof -
  let ?run = "channel_run (event_limits_new 6 7) list_mpsc (bounded_channel list_mpsc 2) two_emitters"
  have run: "case ?run of None \<Rightarrow> False
      | Some c \<Rightarrow> ch_received c = [EvOutputDelta ''abcd''] \<and> retained_bytes list_mpsc c = 3 \<and> ch_receiver_alive c"
    by code_simp
  then obtain c where c: "?run = Some c" by (auto split: option.splits)
  have limits: "unat (max_event_bytes (event_limits_new 6 7)) + unat (max_queued_bytes (event_limits_new 6 7)) < 2 ^ 64"
    by (simp add: event_limits_new_def)
  from event_backlog_bounded [OF list_mpsc_laws limits c] run c show ?thesis by auto
qed

end
