(* ===== verification/Fake.thy ===== *)
theory Fake
  imports Service
begin

text \<open>
  \<open>fake.rs\<close>: the deterministic services hosts test against. A call is evaluated against its
  environment: whether the token is cancelled when the future is first polled, which pauses are
  won by cancellation (\<open>tokio::select!\<close> is unbiased, so the environment chooses), the elapsed time and
  the counter behind minted handles. Events emitted on the way are returned in order; the result of
  emitting them is ignored by the code.
\<close>

section \<open>\<open>EchoService\<close>\<close>

definition echo_call ::
  "bool \<Rightarrow> unit turn agent_request \<Rightarrow> (agent_error + 'j turn_outcome) \<times> agent_event list" where
  "echo_call gone request =
     (let body = req_body request in
      if gone then (Inl (cancelled EffNone), [])
      else if is_blank (turn_prompt body) then (Inl (invalid_request ''prompt must not be empty''), [])
      else if is_some (turn_session body)
      then (Inl (unsupported ''EchoService does not support session continuation''), [])
      else if is_some (turn_working_directory body)
      then (Inl (unsupported ''EchoService does not use a working directory''), [])
      else (Inr (turn_outcome_new (turn_prompt body)), [EvStarted, EvOutputDelta (turn_prompt body)]))"

section \<open>Options\<close>

datatype 'j fake_terminal = FakeSuccess "'j turn_outcome" | FakeFailure agent_error

datatype fake_step = FakeEmit agent_event | FakeDelay duration

record 'j fake_options =
  fake_delay :: "duration option"
  fake_script :: "fake_step list option"
  fake_terminal_result :: "'j fake_terminal option"
  fake_fail :: "string option"
  fake_output :: "string option"
  fake_simulated_tokens :: "u64 option"
  fake_simulated_cost_usd :: "f64 option"

definition fake_options_default :: "'j fake_options" where
  "fake_options_default =
     \<lparr>fake_delay = None, fake_script = None, fake_terminal_result = None, fake_fail = None,
      fake_output = None, fake_simulated_tokens = None, fake_simulated_cost_usd = None\<rparr>"

definition fake_succeed :: "'j turn_outcome \<Rightarrow> 'j fake_options" where
  "fake_succeed out = fake_options_default\<lparr>fake_terminal_result := Some (FakeSuccess out)\<rparr>"

definition fake_fail_with :: "agent_error \<Rightarrow> 'j fake_options" where
  "fake_fail_with error = fake_options_default\<lparr>fake_terminal_result := Some (FakeFailure error)\<rparr>"

definition fake_with_script :: "'j fake_options \<Rightarrow> fake_step list \<Rightarrow> 'j fake_options" where
  "fake_with_script options script = options\<lparr>fake_script := Some script\<rparr>"

section \<open>\<open>call_fake\<close>\<close>

text \<open>\<open>fe_interrupts n\<close>: the n-th pause of the call is won by cancellation.\<close>

record fake_env =
  fe_cancelled :: bool
  fe_interrupts :: "nat \<Rightarrow> bool"
  fe_elapsed :: duration
  fe_counter :: u64

definition fake_provider :: string where
  "fake_provider = ''fake''"

definition mint_fake_session :: "u64 \<Rightarrow> string \<Rightarrow> session_handle \<times> u64" where
  "mint_fake_session counter provider =
     (session_handle_new provider (''fake-'' @ show_nat (unat counter)), counter + 1)"

definition wait_or_cancel :: "bool \<Rightarrow> agent_error + unit" where
  "wait_or_cancel interrupted = (if interrupted then Inl (cancelled EffPossible) else Inr ())"

text \<open>The loop over the script from the n-th pause on: its failure if any, and the emitted events.\<close>

fun run_script :: "(nat \<Rightarrow> bool) \<Rightarrow> nat \<Rightarrow> fake_step list \<Rightarrow> (agent_error + unit) \<times> agent_event list" where
  "run_script interrupts n [] = (Inr (), [])"
| "run_script interrupts n (FakeEmit e # steps) =
     (let (r, es) = run_script interrupts n steps in (r, e # es))"
| "run_script interrupts n (FakeDelay d # steps) =
     (case wait_or_cancel (interrupts n) of
        Inl error \<Rightarrow> (Inl error, [])
      | Inr _ \<Rightarrow> run_script interrupts (Suc n) steps)"

definition fake_validate :: "bool \<Rightarrow> string \<Rightarrow> 'j fake_options turn agent_request \<Rightarrow> agent_error + unit" where
  "fake_validate gone provider request =
     (let resumed = turn_session (req_body request);
          preassigned = ctx_preassigned_session (req_context request);
          sessions = (case resumed of None \<Rightarrow> [] | Some s \<Rightarrow> [s]) @ (case preassigned of None \<Rightarrow> [] | Some s \<Rightarrow> [s])
      in if gone then Inl (cancelled EffNone)
         else if is_blank provider then Inl (invalid_request ''fake provider name must not be empty'')
         else if is_blank (turn_prompt (req_body request)) then Inl (invalid_request ''prompt must not be empty'')
         else if is_some resumed \<and> is_some preassigned
         then Inl (invalid_request ''a resumed fake turn cannot also preassign a session'')
         else (case find (\<lambda>s. handle_provider s \<noteq> provider) sessions of
                 None \<Rightarrow> Inr ()
               | Some s \<Rightarrow> Inl (error_new Unsupported
                   (''cannot use '' @ handle_provider s @ '' session with the '' @ provider @ '' fake service'')
                   Validation EffNone)))"

text \<open>The end of the call, after the pauses: the settlement, the events of this part, the counter.\<close>

definition fake_settle ::
  "fake_env \<Rightarrow> string \<Rightarrow> 'j fake_options turn agent_request
     \<Rightarrow> (agent_error + 'j turn_outcome) \<times> agent_event list \<times> u64" where
  "fake_settle env provider request =
     (let options = turn_options (req_body request);
          scripted = is_some (fake_script options);
          delta = (\<lambda>text. if scripted then [] else [EvOutputDelta text])
      in case fake_terminal_result options of
           Some (FakeSuccess out) \<Rightarrow> (Inr out, delta (out_output out), fe_counter env)
         | Some (FakeFailure error) \<Rightarrow> (Inl error, [], fe_counter env)
         | None \<Rightarrow>
             (case fake_fail options of
                Some message \<Rightarrow> (Inl (error_new Provider message Running EffPossible), [], fe_counter env)
              | None \<Rightarrow>
                  (let output = unwrap_or (fake_output options) (turn_prompt (req_body request));
                       (session, counter) =
                         (case option_or (turn_session (req_body request)) (ctx_preassigned_session (req_context request)) of
                            Some s \<Rightarrow> (s, fe_counter env)
                          | None \<Rightarrow> mint_fake_session (fe_counter env) provider)
                   in (Inr ((turn_outcome_new output)
                         \<lparr>out_session := Some session,
                          out_usage := map_option (\<lambda>total. token_usage_default\<lparr>usage_output := Some total\<rparr>)
                            (fake_simulated_tokens options),
                          out_cost := map_option cost_usd (fake_simulated_cost_usd options),
                          out_duration := Some (fe_elapsed env),
                          out_provider_turns := Some 1\<rparr>),
                       delta output, counter))))"

definition call_fake ::
  "fake_env \<Rightarrow> string \<Rightarrow> 'j fake_options turn agent_request
     \<Rightarrow> (agent_error + 'j turn_outcome) \<times> agent_event list \<times> u64" where
  "call_fake env provider request =
     (case fake_validate (fe_cancelled env) provider request of
        Inl error \<Rightarrow> (Inl error, [], fe_counter env)
      | Inr _ \<Rightarrow>
          (let options = turn_options (req_body request);
               started = (if is_some (fake_script options) then [] else [EvStarted]);
               (paused, pauses) =
                 (case fake_delay options of
                    None \<Rightarrow> (Inr (), 0)
                  | Some d \<Rightarrow> (wait_or_cancel (fe_interrupts env 0), 1))
           in case paused of
                Inl error \<Rightarrow> (Inl error, started, fe_counter env)
              | Inr _ \<Rightarrow>
                  (let (scripted, events) = run_script (fe_interrupts env) pauses (unwrap_or (fake_script options) [])
                   in case scripted of
                        Inl error \<Rightarrow> (Inl error, started @ events, fe_counter env)
                      | Inr _ \<Rightarrow>
                          (let (settled, final, counter) = fake_settle env provider request
                           in (settled, started @ events @ final, counter)))))"

text \<open>\<open>FakeService\<close> and \<open>NamedFakeService\<close> differ in the provider name only.\<close>

definition fake_service :: "fake_env \<Rightarrow> 'j fake_options turn agent_request \<Rightarrow> (agent_error + 'j turn_outcome) \<times> agent_event list \<times> u64" where
  "fake_service env request = call_fake env fake_provider request"

section \<open>Lemmas\<close>

lemma fake_validate_Inr:
  "fake_validate b provider request = Inr () \<longleftrightarrow>
     \<not> b \<and> \<not> is_blank provider \<and> \<not> is_blank (turn_prompt (req_body request))
     \<and> (turn_session (req_body request) = None \<or> ctx_preassigned_session (req_context request) = None)
     \<and> (\<forall>s. option_or (turn_session (req_body request)) (ctx_preassigned_session (req_context request)) = Some s
          \<longrightarrow> handle_provider s = provider)"
  by (cases "turn_session (req_body request)"; cases "ctx_preassigned_session (req_context request)")
    (auto simp: fake_validate_def Let_def)

lemma fake_validate_Inl:
  "fake_validate b provider request = Inl e \<Longrightarrow> err_effects e = EffNone"
  by (auto simp: fake_validate_def Let_def error_constructors split: if_splits option.splits)

lemma run_script_error: "fst (run_script f n steps) = Inl e \<Longrightarrow> e = cancelled EffPossible"
  by (induction f n steps rule: run_script.induct)
    (auto simp: wait_or_cancel_def Let_def split: prod.splits if_splits)

text \<open>The only errors of a turn that passed validation: an interruption, or what the options prescribe.\<close>

lemma call_fake_error:
  assumes "fst (call_fake env provider request) = Inl e" "fake_validate (fe_cancelled env) provider request = Inr ()"
  shows "e = cancelled EffPossible \<or> fake_terminal_result (turn_options (req_body request)) = Some (FakeFailure e)
    \<or> (\<exists>message. fake_fail (turn_options (req_body request)) = Some message
         \<and> e = error_new Provider message Running EffPossible)"
proof -
  have script: "run_script (fe_interrupts env) n steps = (Inl e, events) \<Longrightarrow> e = cancelled EffPossible" for n steps events
    using run_script_error [of "fe_interrupts env" n steps e] by simp
  show ?thesis using assms
    by (auto simp: call_fake_def fake_settle_def wait_or_cancel_def Let_def dest: script
        split: sum.splits option.splits prod.splits if_splits fake_terminal.splits)
qed

lemma call_fake_session:
  assumes "fst (call_fake env provider request) = Inr out"
    and "fake_terminal_result (turn_options (req_body request)) = None"
  shows "fake_validate (fe_cancelled env) provider request = Inr ()
    \<and> out_session out =
        (case option_or (turn_session (req_body request)) (ctx_preassigned_session (req_context request)) of
           Some s \<Rightarrow> Some s
         | None \<Rightarrow> Some (fst (mint_fake_session (fe_counter env) provider)))"
  using assms
  by (auto simp: call_fake_def fake_settle_def Let_def
      split: sum.splits option.splits prod.splits if_splits)

section \<open>Properties\<close>

text \<open>The fake provider threads sessions as the real adapters do: a turn that it answers itself ends
  in the resumed session, else in the preassigned one, else in a freshly minted one, always tagged
  with its own provider name; a session of another provider is never answered.\<close>

theorem fake_session_threading:
  assumes "fst (call_fake env provider request) = Inr out"
    and "fake_terminal_result (turn_options (req_body request)) = None"
  shows "\<exists>s. out_session out = Some s \<and> handle_provider s = provider
    \<and> s \<in> set_option (turn_session (req_body request)) \<union> set_option (ctx_preassigned_session (req_context request))
         \<union> {fst (mint_fake_session (fe_counter env) provider)}
    \<and> set_option (turn_session (req_body request)) \<subseteq> {s}
    \<and> set_option (ctx_preassigned_session (req_context request)) \<subseteq> {s}"
  using call_fake_session [OF assms]
  by (cases "turn_session (req_body request)"; cases "ctx_preassigned_session (req_context request)")
    (auto simp: fake_validate_Inr mint_fake_session_def session_handle_new_def)

theorem fake_session_threading_witness:
  "\<exists>out s. fst (call_fake \<lparr>fe_cancelled = False, fe_interrupts = (\<lambda>_. False), fe_elapsed = 5, fe_counter = 12\<rparr> ''fake''
       (agent_request_with_context (turn_with_options (turn_new ''hi'') (fake_options_default :: nat fake_options))
         (call_context_default 1 [0]))) = Inr out
     \<and> out_session out = Some s \<and> handle_value s = ''fake-12'' \<and> handle_provider s = ''fake''"
proof -
  let ?r = "fst (call_fake \<lparr>fe_cancelled = False, fe_interrupts = (\<lambda>_. False), fe_elapsed = 5, fe_counter = 12\<rparr> ''fake''
       (agent_request_with_context (turn_with_options (turn_new ''hi'') (fake_options_default :: nat fake_options))
         (call_context_default 1 [0])))"
  have run: "case ?r of Inl _ \<Rightarrow> False | Inr out \<Rightarrow> map_option handle_value (out_session out) = Some ''fake-12''"
    by code_simp
  then obtain out where out: "?r = Inr out" by (auto split: sum.splits)
  have "fake_terminal_result (turn_options (req_body (agent_request_with_context
      (turn_with_options (turn_new ''hi'') (fake_options_default :: nat fake_options)) (call_context_default 1 [0])))) = None"
    by code_simp
  from fake_session_threading [OF out this] run out show ?thesis by auto
qed

text \<open>A fake turn that fails without observable effects did so before it emitted anything, unless the
  test prescribed that very failure.\<close>

theorem fake_refusal_is_silent:
  assumes "fst (call_fake env provider request) = Inl e" "err_effects e = EffNone"
    and "fake_terminal_result (turn_options (req_body request)) \<noteq> Some (FakeFailure e)"
  shows "fst (snd (call_fake env provider request)) = [] \<and> snd (snd (call_fake env provider request)) = fe_counter env"
proof (cases "fake_validate (fe_cancelled env) provider request")
  case (Inl e')
  then show ?thesis by (simp add: call_fake_def)
next
  case (Inr u)
  then show ?thesis using call_fake_error [OF assms(1)] assms(2,3) by (auto simp: cancelled_def)
qed

theorem fake_refusal_is_silent_witness:
  "fst (snd (call_fake \<lparr>fe_cancelled = True, fe_interrupts = (\<lambda>_. False), fe_elapsed = 5, fe_counter = 12\<rparr> ''fake''
       (agent_request_with_context (turn_with_options (turn_new ''hi'') (fake_options_default :: nat fake_options))
         (call_context_default 1 [0])))) = []"
proof -
  let ?c = "call_fake \<lparr>fe_cancelled = True, fe_interrupts = (\<lambda>_. False), fe_elapsed = 5, fe_counter = 12\<rparr> ''fake''
       (agent_request_with_context (turn_with_options (turn_new ''hi'') (fake_options_default :: nat fake_options))
         (call_context_default 1 [0]))"
  have fails: "fst ?c = Inl (cancelled EffNone)" by code_simp
  have free: "fake_terminal_result (turn_options (req_body (agent_request_with_context
      (turn_with_options (turn_new ''hi'') (fake_options_default :: nat fake_options)) (call_context_default 1 [0]))))
      \<noteq> Some (FakeFailure (cancelled EffNone))"
    by code_simp
  have none: "err_effects (cancelled EffNone) = EffNone" by (simp add: cancelled_def)
  from fake_refusal_is_silent [OF fails none free] show ?thesis by (rule conjunct1)
qed

end
