(* ===== verification/Environment.thy ===== *)
theory Environment
  imports Request
begin

text \<open>
  \<open>environment.rs\<close> and \<open>process.rs\<close>: the environment policy of a child process, its resolution
  against the host's variables (\<open>std::env::var\<close> is a parameter), its redacted \<open>Debug\<close> forms, and
  the receipt of a spawned child.
\<close>

section \<open>Policy\<close>

record child_environment_policy =
  env_inherit_ambient :: bool
  env_allow_ambient :: "string list"
  env_explicit :: "(string, string) btree_map"

definition env_inherit :: child_environment_policy where
  "env_inherit = \<lparr>env_inherit_ambient = True, env_allow_ambient = [], env_explicit = []\<rparr>"

definition env_clear :: child_environment_policy where
  "env_clear = \<lparr>env_inherit_ambient = False, env_allow_ambient = [], env_explicit = []\<rparr>"

definition allow_ambient :: "child_environment_policy \<Rightarrow> string \<Rightarrow> child_environment_policy" where
  "allow_ambient p key = p\<lparr>env_allow_ambient := insort_insert key (env_allow_ambient p)\<rparr>"

definition with_variable :: "child_environment_policy \<Rightarrow> string \<Rightarrow> string \<Rightarrow> child_environment_policy" where
  "with_variable p key value = p\<lparr>env_explicit := bt_insert key value (env_explicit p)\<rparr>"

datatype child_environment_error =
    InvalidKey
  | InvalidValue string
  | NonUnicodeAmbientValue string

fun child_environment_error_display :: "child_environment_error \<Rightarrow> string" where
  "child_environment_error_display InvalidKey = ''child environment variable name is invalid''"
| "child_environment_error_display (InvalidValue key) =
     ''child environment variable '' @ key @ '' contains an invalid value''"
| "child_environment_error_display (NonUnicodeAmbientValue key) =
     ''allowlisted host environment variable '' @ key @ '' is not valid UTF-8''"

definition validate_key :: "string \<Rightarrow> child_environment_error + unit" where
  "validate_key key =
     (if key = [] \<or> CHR ''='' \<in> set key \<or> CHR 0x00 \<in> set key then Inl InvalidKey else Inr ())"

record resolved_child_environment =
  res_clear_inherited :: bool
  res_variables :: "(string, string) btree_map"

section \<open>Resolution\<close>

text \<open>\<open>VarError\<close>.\<close>

datatype var_error = NotPresent | NotUnicode

fun ambient_variables ::
  "(string \<Rightarrow> var_error + string) \<Rightarrow> (string, string) btree_map \<Rightarrow> string list
     \<Rightarrow> child_environment_error + (string, string) btree_map" where
  "ambient_variables env_var variables [] = Inr variables"
| "ambient_variables env_var variables (key # keys) =
     (case env_var key of
        Inr value \<Rightarrow> ambient_variables env_var (bt_insert key value variables) keys
      | Inl NotPresent \<Rightarrow> ambient_variables env_var variables keys
      | Inl NotUnicode \<Rightarrow> Inl (NonUnicodeAmbientValue key))"

text \<open>\<open>BTreeMap::extend\<close>.\<close>

fun bt_extend :: "('k::linorder, 'v) btree_map \<Rightarrow> ('k \<times> 'v) list \<Rightarrow> ('k, 'v) btree_map" where
  "bt_extend m [] = m"
| "bt_extend m ((k, v) # xs) = bt_extend (bt_insert k v m) xs"

definition env_resolve ::
  "(string \<Rightarrow> var_error + string) \<Rightarrow> child_environment_policy
     \<Rightarrow> child_environment_error + resolved_child_environment" where
  "env_resolve env_var p =
     and_then (collect_results validate_key (env_allow_ambient p @ bt_keys (env_explicit p))) (\<lambda>_.
       and_then (collect_results
           (\<lambda>(key, value). if CHR 0x00 \<in> set value then Inl (InvalidValue key) else Inr ()) (env_explicit p)) (\<lambda>_.
         and_then
           (if \<not> env_inherit_ambient p then ambient_variables env_var [] (env_allow_ambient p) else Inr [])
           (\<lambda>variables. Inr
              \<lparr>res_clear_inherited = \<not> env_inherit_ambient p,
               res_variables = bt_extend variables (env_explicit p)\<rparr>)))"

text \<open>\<open>Debug\<close>: keys only. A field is rendered as the list of strings it shows.\<close>

definition show_bool :: "bool \<Rightarrow> string" where
  "show_bool b = (if b then ''true'' else ''false'')"

definition environment_policy_debug :: "child_environment_policy \<Rightarrow> string \<times> (string \<times> string list) list" where
  "environment_policy_debug p =
     (''ChildEnvironmentPolicy'',
      [(''inherit_ambient'', [show_bool (env_inherit_ambient p)]),
       (''allow_ambient'', env_allow_ambient p),
       (''explicit_keys'', bt_keys (env_explicit p))])"

definition resolved_environment_debug :: "resolved_child_environment \<Rightarrow> string \<times> (string \<times> string list) list" where
  "resolved_environment_debug r =
     (''ResolvedChildEnvironment'',
      [(''clear_inherited'', [show_bool (res_clear_inherited r)]),
       (''variable_keys'', bt_keys (res_variables r))])"

text \<open>
  The variables the child sees: a host that launches it keeps its own environment unless it was
  told to clear it, then sets the resolved variables. \<open>ambient\<close> is the host environment as a map.
\<close>

definition child_sees ::
  "(string \<Rightarrow> string option) \<Rightarrow> resolved_child_environment \<Rightarrow> string \<Rightarrow> string option" where
  "child_sees ambient r key =
     (case map_of (res_variables r) key of
        Some v \<Rightarrow> Some v
      | None \<Rightarrow> (if res_clear_inherited r then None else ambient key))"

section \<open>Spawn receipts\<close>

record spawn_receipt =
  spawn_provider :: string
  spawn_operation_id :: operation_id
  spawn_pid :: u32
  spawn_process_group_id :: "u32 option"

definition spawn_receipt_new :: "string \<Rightarrow> operation_id \<Rightarrow> u32 \<Rightarrow> u32 option \<Rightarrow> spawn_receipt" where
  "spawn_receipt_new provider operation pid pgid =
     \<lparr>spawn_provider = provider, spawn_operation_id = operation, spawn_pid = pid,
      spawn_process_group_id = pgid\<rparr>"

section \<open>Lemmas\<close>

lemma map_of_bt_extend: "bt_wf m \<Longrightarrow> distinct (map fst xs) \<Longrightarrow> map_of (bt_extend m xs) = map_of m ++ map_of xs"
proof (induction m xs rule: bt_extend.induct)
  case (1 m)
  then show ?case by simp
next
  case (2 m k v xs)
  then have "map_of (bt_extend m ((k, v) # xs)) = map_of (bt_insert k v m) ++ map_of xs"
    by (simp add: bt_wf_insert)
  also have "\<dots> = (map_of m)(k \<mapsto> v) ++ map_of xs"
    using "2.prems" by (simp only: map_of_bt_insert)
  also have "\<dots> = (map_of m ++ map_of xs)(k \<mapsto> v)"
    using "2.prems" by (intro map_add_upd_left) (auto simp: dom_map_of_conv_image_fst)
  also have "\<dots> = map_of m ++ map_of ((k, v) # xs)" by simp
  finally show ?case .
qed

lemma bt_extend_wf: "bt_wf m \<Longrightarrow> bt_wf (bt_extend m xs)"
  by (induction m xs rule: bt_extend.induct) (simp_all add: bt_wf_insert)

lemma ambient_variables_Inr:
  "ambient_variables env_var m keys = Inr m' \<Longrightarrow> bt_wf m \<Longrightarrow> distinct keys \<Longrightarrow>
     bt_wf m' \<and> (\<forall>k. map_of m' k =
       (if k \<in> set keys then (case env_var k of Inr v \<Rightarrow> Some v | Inl _ \<Rightarrow> map_of m k) else map_of m k))"
proof (induction env_var m keys rule: ambient_variables.induct)
  case (1 env_var m)
  then show ?case by simp
next
  case (2 env_var m key keys)
  then show ?case
    by (cases "env_var key") (auto simp: bt_wf_insert map_of_bt_insert split: var_error.splits sum.splits)
qed

lemma ambient_variables_is_ok:
  "is_ok (ambient_variables env_var m keys) \<longleftrightarrow> (\<forall>k \<in> set keys. env_var k \<noteq> Inl NotUnicode)"
  by (induction env_var m keys rule: ambient_variables.induct) (auto split: var_error.splits sum.splits)

text \<open>The two ordered collections of a policy, as every constructor keeps them.\<close>

definition environment_policy_wf :: "child_environment_policy \<Rightarrow> bool" where
  "environment_policy_wf p \<longleftrightarrow>
     sorted (env_allow_ambient p) \<and> distinct (env_allow_ambient p) \<and> bt_wf (env_explicit p)"

lemma environment_policy_wf_intros:
  "environment_policy_wf env_inherit" "environment_policy_wf env_clear"
  "environment_policy_wf p \<Longrightarrow> environment_policy_wf (allow_ambient p key)"
  "environment_policy_wf p \<Longrightarrow> environment_policy_wf (with_variable p key value)"
  by (simp_all add: environment_policy_wf_def env_inherit_def env_clear_def allow_ambient_def
      with_variable_def sorted_insort_insert distinct_insort_insert bt_wf_insert)

definition valid_key :: "string \<Rightarrow> bool" where
  "valid_key key \<longleftrightarrow> key \<noteq> [] \<and> CHR ''='' \<notin> set key \<and> CHR 0x00 \<notin> set key"

lemma validate_key_ok: "is_ok (validate_key key) \<longleftrightarrow> valid_key key"
  by (simp add: validate_key_def valid_key_def)

lemma env_resolve_ok:
  "is_ok (env_resolve env_var p) \<longleftrightarrow>
     (\<forall>k \<in> set (env_allow_ambient p) \<union> set (bt_keys (env_explicit p)). valid_key k)
     \<and> (\<forall>(k, v) \<in> set (env_explicit p). CHR 0x00 \<notin> set v)
     \<and> (\<not> env_inherit_ambient p \<longrightarrow> (\<forall>k \<in> set (env_allow_ambient p). env_var k \<noteq> Inl NotUnicode))"
proof -
  let ?keys = "collect_results validate_key (env_allow_ambient p @ bt_keys (env_explicit p))"
  let ?vals = "collect_results (\<lambda>(key, value). if CHR 0x00 \<in> set value then Inl (InvalidValue key) else Inr ()) (env_explicit p)"
  let ?amb = "if \<not> env_inherit_ambient p then ambient_variables env_var [] (env_allow_ambient p) else Inr []"
  have "is_ok (env_resolve env_var p) \<longleftrightarrow> is_ok ?keys \<and> is_ok ?vals \<and> is_ok ?amb"
    by (cases ?keys; cases ?vals; cases ?amb) (simp_all add: env_resolve_def)
  moreover have "is_ok ?keys \<longleftrightarrow> (\<forall>k \<in> set (env_allow_ambient p) \<union> set (bt_keys (env_explicit p)). valid_key k)"
    by (auto simp: collect_results_is_ok validate_key_ok)
  moreover have "is_ok ?vals \<longleftrightarrow> (\<forall>(k, v) \<in> set (env_explicit p). CHR 0x00 \<notin> set v)"
    by (auto simp: collect_results_is_ok split: if_splits)
  ultimately show ?thesis
    using ambient_variables_is_ok [of env_var "[]" "env_allow_ambient p"] by auto
qed

lemma env_resolve_Inr:
  assumes "env_resolve env_var p = Inr r" and wf: "environment_policy_wf p"
  shows "res_clear_inherited r \<longleftrightarrow> \<not> env_inherit_ambient p" and "bt_wf (res_variables r)"
    and "map_of (res_variables r) k =
      (case map_of (env_explicit p) k of
         Some v \<Rightarrow> Some v
       | None \<Rightarrow>
           (if env_inherit_ambient p \<or> k \<notin> set (env_allow_ambient p) then None
            else case env_var k of Inr v \<Rightarrow> Some v | Inl _ \<Rightarrow> None))"
proof -
  obtain m where m: "(if \<not> env_inherit_ambient p then ambient_variables env_var [] (env_allow_ambient p) else Inr []) = Inr m"
    and r: "r = \<lparr>res_clear_inherited = \<not> env_inherit_ambient p, res_variables = bt_extend m (env_explicit p)\<rparr>"
    using assms(1) unfolding env_resolve_def and_then_eq_Inr by auto
  have m_spec: "bt_wf m \<and> map_of m k =
     (if env_inherit_ambient p \<or> k \<notin> set (env_allow_ambient p) then None
      else case env_var k of Inr v \<Rightarrow> Some v | Inl _ \<Rightarrow> None)"
    using m wf ambient_variables_Inr [of env_var "[]" "env_allow_ambient p" m]
    by (cases "env_inherit_ambient p") (auto simp: environment_policy_wf_def split: sum.splits)
  show "res_clear_inherited r \<longleftrightarrow> \<not> env_inherit_ambient p" by (simp add: r)
  show "bt_wf (res_variables r)" using m_spec by (simp add: r bt_extend_wf)
  have dist: "distinct (map fst (env_explicit p))" using wf by (simp add: environment_policy_wf_def bt_wf_distinct)
  show "map_of (res_variables r) k =
      (case map_of (env_explicit p) k of
         Some v \<Rightarrow> Some v
       | None \<Rightarrow>
           (if env_inherit_ambient p \<or> k \<notin> set (env_allow_ambient p) then None
            else case env_var k of Inr v \<Rightarrow> Some v | Inl _ \<Rightarrow> None))"
    using m_spec map_of_bt_extend [OF _ dist, of m] by (simp add: r map_add_def split: option.splits)
qed

section \<open>Properties\<close>

text \<open>A policy that clears the ambient environment gives the child nothing but what it names:
  an explicit variable with its explicit value, or an allowlisted host variable with the host's
  value; an inheriting policy only adds the explicit variables.\<close>

theorem child_environment_contained:
  assumes "env_resolve env_var p = Inr r" and "environment_policy_wf p"
  shows "child_sees ambient r k =
    (case map_of (env_explicit p) k of
       Some v \<Rightarrow> Some v
     | None \<Rightarrow>
         (if env_inherit_ambient p then ambient k
          else if k \<in> set (env_allow_ambient p) then (case env_var k of Inr v \<Rightarrow> Some v | Inl _ \<Rightarrow> None)
          else None))"
  using env_resolve_Inr [OF assms] by (auto simp: child_sees_def split: option.splits sum.splits)

definition sample_policy :: child_environment_policy where
  "sample_policy = with_variable (allow_ambient (allow_ambient env_clear ''PATH'') ''GONE'') ''KEY'' ''v''"

theorem child_environment_contained_witness:
  "\<exists>r. env_resolve (\<lambda>k. if k = ''PATH'' then Inr ''/bin'' else Inl NotPresent) sample_policy = Inr r
     \<and> child_sees (\<lambda>_. Some ''secret'') r ''AWS_KEY'' = None"
proof -
  let ?env = "\<lambda>k. if k = ''PATH'' then Inr ''/bin'' else Inl NotPresent"
  have run: "env_resolve ?env sample_policy = Inr
      \<lparr>res_clear_inherited = True, res_variables = [(''KEY'', ''v''), (''PATH'', ''/bin'')]\<rparr>"
    by code_simp
  have wf: "environment_policy_wf sample_policy"
    by (simp add: sample_policy_def environment_policy_wf_intros)
  have "map_of (env_explicit sample_policy) ''AWS_KEY'' = None \<and> \<not> env_inherit_ambient sample_policy
      \<and> ''AWS_KEY'' \<notin> set (env_allow_ambient sample_policy)"
    by code_simp
  with child_environment_contained [OF run wf, of "\<lambda>_. Some ''secret''" "''AWS_KEY''"] run
  show ?thesis by auto
qed

text \<open>The debug forms do not depend on any variable's value: policies that differ only in the
  values of explicit variables render alike, and so do their resolutions.\<close>

theorem environment_debug_redacts:
  assumes "env_inherit_ambient p = env_inherit_ambient q" and "env_allow_ambient p = env_allow_ambient q"
    and "bt_keys (env_explicit p) = bt_keys (env_explicit q)"
    and "environment_policy_wf p" and "environment_policy_wf q"
    and "env_resolve env_var p = Inr r" and "env_resolve env_var q = Inr s"
  shows "environment_policy_debug p = environment_policy_debug q
    \<and> resolved_environment_debug r = resolved_environment_debug s"
proof -
  have dom: "map_of (env_explicit p) k = None \<longleftrightarrow> map_of (env_explicit q) k = None" for k
    using assms(3) by (metis bt_keys_def map_of_eq_None_iff list.set_map)
  have "set (bt_keys (res_variables r)) = set (bt_keys (res_variables s))"
    using env_resolve_Inr(3) [OF assms(6,4)] env_resolve_Inr(3) [OF assms(7,5)] dom assms(1,2)
    by (auto simp: bt_keys_eq_dom dom_def split: option.splits if_splits)
  then have "bt_keys (res_variables r) = bt_keys (res_variables s)"
    using env_resolve_Inr(2) [OF assms(6,4)] env_resolve_Inr(2) [OF assms(7,5)]
    by (intro sorted_distinct_set_unique) (simp_all add: bt_keys_def bt_wf_sorted bt_wf_distinct)
  then show ?thesis
    using assms env_resolve_Inr(1) [OF assms(6,4)] env_resolve_Inr(1) [OF assms(7,5)]
    by (simp add: environment_policy_debug_def resolved_environment_debug_def)
qed

theorem environment_debug_redacts_witness:
  "environment_policy_debug (with_variable env_clear ''KEY'' ''one'')
   = environment_policy_debug (with_variable env_clear ''KEY'' ''two'')"
  using environment_debug_redacts
    [of "with_variable env_clear ''KEY'' ''one''" "with_variable env_clear ''KEY'' ''two''" "\<lambda>_. Inl NotPresent"
      "\<lparr>res_clear_inherited = True, res_variables = [(''KEY'', ''one'')]\<rparr>"
      "\<lparr>res_clear_inherited = True, res_variables = [(''KEY'', ''two'')]\<rparr>"]
  by (simp add: environment_policy_wf_intros) code_simp

end
