(* ===== verification/Codex_Command.thy ===== *)
theory Codex_Command
  imports Environment Agent_Error Authority
begin

text \<open>
  \<open>tower-agent-codex\<close>, everything before launch: options, host policies, the one function that makes
  every validation decision, the encoding of the skill policy, and the two command lines. The file
  system, \<open>serde_json\<close> and \<open>jsonschema\<close> are parameters (\<open>codex_env\<close>); a command of \<open>codex_wrapper\<close> is
  the list of the builder calls the code makes.
\<close>

section \<open>Names and bounds\<close>

definition codex_provider :: string where
  "codex_provider = ''codex''"

definition codex_display :: string where
  "codex_display = ''Codex''"

definition max_output_schema_bytes :: nat where
  "max_output_schema_bytes = 1024 * 1024"

definition max_disabled_skills :: nat where
  "max_disabled_skills = 256"

definition max_skill_config_bytes :: nat where
  "max_skill_config_bytes = 64 * 1024"

section \<open>Options and host policies\<close>

record 'j codex_options =
  xo_system_prompt :: "string option"
  xo_model :: "string option"
  xo_additional_directories :: "path list"
  xo_output_schema :: "'j option"
  xo_filesystem_authority :: filesystem_authority
  xo_ephemeral :: bool

definition codex_options_default :: "'j codex_options" where
  "codex_options_default =
     \<lparr>xo_system_prompt = None, xo_model = None, xo_additional_directories = [], xo_output_schema = None,
      xo_filesystem_authority = ReadOnly, xo_ephemeral = False\<rparr>"

datatype codex_ambient_policy = CodexInherit | CodexAutomation

datatype codex_skill_policy = SkillsInherit | DisableExact "path list"

text \<open>\<open>Debug\<close> of a skill policy: the number of folders, never their paths.\<close>

definition codex_skill_policy_debug :: "codex_skill_policy \<Rightarrow> string \<times> (string \<times> string) list" where
  "codex_skill_policy_debug p =
     (case p of
        SkillsInherit \<Rightarrow> (''Inherit'', [])
      | DisableExact paths \<Rightarrow>
          (''DisableExact'', [(''paths'', ''\"<redacted>\"''), (''count'', show_nat (length paths))]))"

record codex_service =
  xs_binary :: "path option"
  xs_codex_home :: "path option"
  xs_termination_grace :: "duration option"
  xs_output_limit :: "nat option"
  xs_die_with_parent :: bool
  xs_spawn_observer :: bool
  xs_authority_policy :: authority_policy
  xs_child_environment :: child_environment_policy
  xs_ambient_context :: codex_ambient_policy
  xs_skill_policy :: codex_skill_policy

definition codex_service_new :: codex_service where
  "codex_service_new =
     \<lparr>xs_binary = None, xs_codex_home = None, xs_termination_grace = None, xs_output_limit = None,
      xs_die_with_parent = False, xs_spawn_observer = False, xs_authority_policy = authority_policy_read_only,
      xs_child_environment = env_inherit, xs_ambient_context = CodexInherit, xs_skill_policy = SkillsInherit\<rparr>"

definition codex_with_binary :: "codex_service \<Rightarrow> path \<Rightarrow> codex_service" where
  "codex_with_binary s p = s\<lparr>xs_binary := Some p\<rparr>"

definition codex_with_codex_home :: "codex_service \<Rightarrow> path \<Rightarrow> codex_service" where
  "codex_with_codex_home s p = s\<lparr>xs_codex_home := Some p\<rparr>"

definition codex_with_termination_grace :: "codex_service \<Rightarrow> duration \<Rightarrow> codex_service" where
  "codex_with_termination_grace s d = s\<lparr>xs_termination_grace := Some d\<rparr>"

definition codex_with_output_limit :: "codex_service \<Rightarrow> nat \<Rightarrow> codex_service" where
  "codex_with_output_limit s n = s\<lparr>xs_output_limit := Some n\<rparr>"

definition codex_with_die_with_parent :: "codex_service \<Rightarrow> bool \<Rightarrow> codex_service" where
  "codex_with_die_with_parent s b = s\<lparr>xs_die_with_parent := b\<rparr>"

definition codex_with_spawn_observer :: "codex_service \<Rightarrow> codex_service" where
  "codex_with_spawn_observer s = s\<lparr>xs_spawn_observer := True\<rparr>"

definition codex_with_authority_policy :: "codex_service \<Rightarrow> authority_policy \<Rightarrow> codex_service" where
  "codex_with_authority_policy s p = s\<lparr>xs_authority_policy := p\<rparr>"

definition codex_with_child_environment_policy :: "codex_service \<Rightarrow> child_environment_policy \<Rightarrow> codex_service" where
  "codex_with_child_environment_policy s p = s\<lparr>xs_child_environment := p\<rparr>"

definition codex_with_ambient_context_policy :: "codex_service \<Rightarrow> codex_ambient_policy \<Rightarrow> codex_service" where
  "codex_with_ambient_context_policy s p = s\<lparr>xs_ambient_context := p\<rparr>"

definition codex_with_skill_policy :: "codex_service \<Rightarrow> codex_skill_policy \<Rightarrow> codex_service" where
  "codex_with_skill_policy s p = s\<lparr>xs_skill_policy := p\<rparr>"

section \<open>The world outside\<close>

record 'j codex_env =
  xe_canonicalize :: "path \<Rightarrow> string + path"
  xe_is_dir :: "path \<Rightarrow> bool"
  xe_is_file :: "path \<Rightarrow> bool"
  xe_encode_schema :: "'j \<Rightarrow> string option"
  xe_schema_valid :: "'j \<Rightarrow> bool"
  xe_encode_str :: "string \<Rightarrow> string option"

section \<open>Validation\<close>

definition validate_output_schema :: "'j codex_env \<Rightarrow> 'j \<Rightarrow> agent_error + string" where
  "validate_output_schema env schema =
     and_then
       (ok_or (error_new Internal ''Codex output schema could not be serialized'' Validation EffNone)
          (xe_encode_schema env schema))
       (\<lambda>encoded.
          if max_output_schema_bytes < length encoded
          then Inl (invalid_request (''Codex output schema exceeds the '' @ show_nat max_output_schema_bytes @ ''-byte limit''))
          else if \<not> xe_schema_valid env schema
          then Inl (invalid_request ''Codex output schema is not valid JSON Schema Draft 2020-12'')
          else Inr encoded)"

record validated_codex_turn =
  vt_session :: "string option"
  vt_additional_directories :: "string list"
  vt_output_schema :: "string option"

definition codex_session_value :: "session_handle option \<Rightarrow> agent_error + string option" where
  "codex_session_value s =
     (case s of
        None \<Rightarrow> Inr None
      | Some session \<Rightarrow>
          if handle_provider session \<noteq> codex_provider
          then Inl (unsupported (''cannot resume '' @ handle_provider session @ '' session with Codex service''))
          else if is_blank (handle_value session)
          then Inl (invalid_request ''Codex session handle must not be empty'')
          else if starts_with hyphen (handle_value session)
          then Inl (invalid_request ''Codex session handle must not begin with a hyphen'')
          else Inr (Some (handle_value session)))"

definition encode_directory :: "path \<Rightarrow> agent_error + string" where
  "encode_directory p = ok_or (unsupported ''Codex additional directories must be valid UTF-8'') (path_to_str p)"

definition preflight_turn ::
  "'j codex_env \<Rightarrow> authority_policy \<Rightarrow> 'j codex_options turn \<Rightarrow> agent_error + validated_codex_turn" where
  "preflight_turn env policy t =
     and_then (authorize (xe_canonicalize env) xo_filesystem_authority xo_additional_directories policy t) (\<lambda>_.
       if is_blank (turn_prompt t) then Inl (invalid_request ''prompt must not be empty'')
       else if (case xo_model (turn_options t) of None \<Rightarrow> False | Some m \<Rightarrow> is_blank m)
       then Inl (invalid_request ''Codex model must not be empty'')
       else and_then (codex_session_value (turn_session t)) (\<lambda>session.
         if is_some session \<and> xo_additional_directories (turn_options t) \<noteq> []
         then Inl (unsupported ''codex-wrapper cannot add directories to a resumed turn'')
         else and_then (collect_results encode_directory (xo_additional_directories (turn_options t))) (\<lambda>dirs.
           and_then
             (case xo_output_schema (turn_options t) of
                None \<Rightarrow> Inr None
              | Some schema \<Rightarrow> and_then (validate_output_schema env schema) (\<lambda>s. Inr (Some s)))
             (\<lambda>schema. Inr \<lparr>vt_session = session, vt_additional_directories = dirs, vt_output_schema = schema\<rparr>))))"

section \<open>The skill policy\<close>

definition skill_policy_error :: "string \<Rightarrow> agent_error" where
  "skill_policy_error message = error_new Internal message Launch EffNone"

text \<open>\<open>Path::join\<close> with a relative path. \<open>Ord for Path\<close> compares components (\<open>path_components\<close>).\<close>

definition path_join :: "path \<Rightarrow> path \<Rightarrow> path" where
  "path_join p q = (if p = [] \<or> List.last p = CHR ''/'' then p @ q else p @ ''/'' @ q)"

definition skill_folder :: "'j codex_env \<Rightarrow> path \<Rightarrow> agent_error + path" where
  "skill_folder env p =
     (case xe_canonicalize env p of
        Inl _ \<Rightarrow> Inl (skill_policy_error ''configured Codex skill path could not be resolved'')
      | Inr canonical \<Rightarrow>
          if \<not> xe_is_dir env canonical \<or> \<not> xe_is_file env (path_join canonical ''SKILL.md'')
          then Inl (skill_policy_error ''configured Codex skill path does not identify a skill folder'')
          else Inr canonical)"

definition skill_entry :: "'j codex_env \<Rightarrow> path \<Rightarrow> agent_error + string" where
  "skill_entry env p =
     and_then (ok_or (skill_policy_error ''configured Codex skill path is not valid UTF-8'') (path_to_str p)) (\<lambda>s.
       and_then (ok_or (skill_policy_error ''configured Codex skill path could not be encoded'') (xe_encode_str env s))
         (\<lambda>encoded. Inr (''{path='' @ encoded @ '',enabled=false}'')))"

fun join_strings :: "string \<Rightarrow> string list \<Rightarrow> string" where
  "join_strings sep [] = []"
| "join_strings sep [s] = s"
| "join_strings sep (s # ss) = s @ sep @ join_strings sep ss"

definition render_skill_config :: "'j codex_env \<Rightarrow> codex_skill_policy \<Rightarrow> agent_error + string option" where
  "render_skill_config env policy =
     (case policy of
        SkillsInherit \<Rightarrow> Inr None
      | DisableExact paths \<Rightarrow>
          if paths = [] then Inr None
          else if max_disabled_skills < length paths
          then Inl (skill_policy_error ''Codex skill policy exceeds the configured path limit'')
          else and_then (collect_results (skill_folder env) paths) (\<lambda>canonical.
            and_then (collect_results (skill_entry env) (remdups_adj (sort_key path_components canonical))) (\<lambda>entries.
              let config = ''skills.config=['' @ join_strings '','' entries @ '']''
              in if max_skill_config_bytes < length config
                 then Inl (skill_policy_error ''Codex skill policy exceeds the encoded size limit'')
                 else Inr (Some config))))"

definition codex_preflight :: "'j codex_env \<Rightarrow> codex_service \<Rightarrow> 'j codex_options turn \<Rightarrow> agent_error + unit" where
  "codex_preflight env service t =
     and_then (preflight_turn env (xs_authority_policy service) t) (\<lambda>_.
       and_then (render_skill_config env (xs_skill_policy service)) (\<lambda>_. Inr ()))"

section \<open>Commands\<close>

definition compose_prompt :: "string \<Rightarrow> string option \<Rightarrow> string" where
  "compose_prompt prompt system_prompt =
     (case system_prompt of
        None \<Rightarrow> prompt
      | Some s \<Rightarrow> if s \<noteq> [] then s @ [CHR 0x0A, CHR 0x0A] @ prompt else prompt)"

record prepared_turn =
  pt_prompt :: string
  pt_working_directory :: "path option"
  pt_session :: "string option"
  pt_model :: "string option"
  pt_additional_directories :: "string list"
  pt_output_schema :: "string option"
  pt_filesystem_authority :: filesystem_authority
  pt_ephemeral :: bool

definition codex_prepare ::
  "'j codex_env \<Rightarrow> authority_policy \<Rightarrow> bool \<Rightarrow> 'j codex_options turn \<Rightarrow> agent_error + prepared_turn" where
  "codex_prepare env policy gone t =
     (if gone then Inl (cancelled_before_launch codex_display)
      else and_then (preflight_turn env policy t) (\<lambda>validated.
        Inr \<lparr>pt_prompt = compose_prompt (turn_prompt t) (xo_system_prompt (turn_options t)),
             pt_working_directory = turn_working_directory t,
             pt_session = vt_session validated,
             pt_model = xo_model (turn_options t),
             pt_additional_directories = vt_additional_directories validated,
             pt_output_schema = vt_output_schema validated,
             pt_filesystem_authority = xo_filesystem_authority (turn_options t),
             pt_ephemeral = xo_ephemeral (turn_options t)\<rparr>))"

datatype sandbox_mode = SandboxReadOnly | SandboxWorkspaceWrite | SandboxDangerFullAccess

datatype exec_setting =
    XExecFromStdin string
  | XResumeFromStdin string
  | XSessionId string
  | XSandbox sandbox_mode
  | XConfig string
  | XSkipGitRepoCheck
  | XStrictConfig
  | XIgnoreUserConfig
  | XIgnoreRules
  | XEphemeral
  | XModel string
  | XOutputSchema string
  | XAddDir string

fun sandbox_mode_of :: "filesystem_authority \<Rightarrow> sandbox_mode" where
  "sandbox_mode_of ReadOnly = SandboxReadOnly"
| "sandbox_mode_of WorkspaceWrite = SandboxWorkspaceWrite"
| "sandbox_mode_of FullAccess = SandboxDangerFullAccess"

fun sandbox_config :: "filesystem_authority \<Rightarrow> string" where
  "sandbox_config ReadOnly = ''sandbox_mode=\"read-only\"''"
| "sandbox_config WorkspaceWrite = ''sandbox_mode=\"workspace-write\"''"
| "sandbox_config FullAccess = ''sandbox_mode=\"danger-full-access\"''"

definition opt_setting :: "('a \<Rightarrow> exec_setting) \<Rightarrow> 'a option \<Rightarrow> exec_setting list" where
  "opt_setting f x = (case x of None \<Rightarrow> [] | Some a \<Rightarrow> [f a])"

definition ambient_settings :: "codex_ambient_policy \<Rightarrow> exec_setting list" where
  "ambient_settings ambient =
     (if ambient = CodexAutomation
      then [XStrictConfig, XIgnoreUserConfig, XIgnoreRules, XConfig ''project_doc_max_bytes=0''] else [])"

definition skill_settings :: "string option \<Rightarrow> exec_setting list" where
  "skill_settings config = (case config of None \<Rightarrow> [] | Some c \<Rightarrow> [XStrictConfig, XConfig c])"

definition fresh_command ::
  "prepared_turn \<Rightarrow> codex_ambient_policy \<Rightarrow> string option \<Rightarrow> string option \<Rightarrow> exec_setting list" where
  "fresh_command t ambient schema_path skill_config =
     [XExecFromStdin (pt_prompt t), XSandbox (sandbox_mode_of (pt_filesystem_authority t)), XSkipGitRepoCheck]
     @ ambient_settings ambient
     @ skill_settings skill_config
     @ (if pt_ephemeral t then [XEphemeral] else [])
     @ opt_setting XModel (pt_model t)
     @ opt_setting XOutputSchema schema_path
     @ map XAddDir (pt_additional_directories t)"

definition resume_command ::
  "prepared_turn \<Rightarrow> string \<Rightarrow> codex_ambient_policy \<Rightarrow> string option \<Rightarrow> string option \<Rightarrow> exec_setting list" where
  "resume_command t session ambient schema_path skill_config =
     [XResumeFromStdin (pt_prompt t), XSessionId session, XConfig (sandbox_config (pt_filesystem_authority t)),
      XSkipGitRepoCheck]
     @ ambient_settings ambient
     @ skill_settings skill_config
     @ (if pt_ephemeral t then [XEphemeral] else [])
     @ opt_setting XModel (pt_model t)
     @ opt_setting XOutputSchema schema_path"

end
