(* ===== verification/Codex_Adapter.thy ===== *)
theory Codex_Adapter
  imports Codex_Command
begin

text \<open>
  \<open>tower-agent-codex\<close>, launch and settlement: the client, the schema file, the run, the reading of
  the event stream (exactly one terminal event, at the end; consistent session handles), and the
  mapping of wrapper errors, including the recovery of a terminal classification from the stream
  of a failed command. \<open>codex_wrapper\<close> is a parameter: what is read of an event is the record
  \<open>event_ops\<close>, its error variants are those the code distinguishes, the rest is \<open>XOther\<close>.
\<close>

section \<open>What is read of the wrapper\<close>

datatype turn_failure_kind = ApiRequestRejected | RolloutBudgetExhausted | OtherTurnFailure

record 'e event_ops =
  eo_completed :: "'e \<Rightarrow> bool"
  eo_failed :: "'e \<Rightarrow> bool"
  eo_failure_kind :: "'e \<Rightarrow> turn_failure_kind option"
  eo_thread_id :: "'e \<Rightarrow> string option"
  eo_session_id :: "'e \<Rightarrow> string option"
  eo_agent_message :: "'e \<Rightarrow> string option"
  eo_parse :: "string \<Rightarrow> 'e option"

record 'u codex_usage_ops =
  cu_input :: "'u \<Rightarrow> u64 option"
  cu_cached_input :: "'u \<Rightarrow> u64 option"
  cu_cache_write_input :: "'u \<Rightarrow> u64 option"
  cu_output :: "'u \<Rightarrow> u64 option"
  cu_reasoning_output :: "'u \<Rightarrow> u64 option"
  cu_total :: "'u \<Rightarrow> u64 option"

record ('e, 'u) codex_result =
  xr_result :: string
  xr_events :: "'e list"
  xr_thread_id :: "string option"
  xr_session_id :: "string option"
  xr_usage :: "'u option"

datatype codex_error =
    XNotFound
  | XIo string
  | XTimeout
  | XOutputLimitExceeded
  | XCancelled
  | XAuth
  | XConfigError
  | XNotTrustedDirectory
  | XSessionNotFound
  | XCommandFailed i32 string
  | XJson
  | XTokenBudgetExceeded u64 u64
  | XInvalidRolloutBudget
  | XDangerousNotAllowed
  | XVersionMismatch string string
  | XUntestedCliVersion string string string
  | XOther

datatype codex_setting =
    XClearEnv
  | XEnvs "(string, string) btree_map"
  | XBinary path
  | XWorkingDir path
  | XEnv string string
  | XOutputLimit nat
  | XTerminationGrace duration
  | XDieWithParent bool
  | XOnSpawn "u32 \<Rightarrow> u32 option \<Rightarrow> spawn_receipt"

text \<open>\<open>xh_schema_file prefix schema\<close> is the path of an owner-only temporary file holding the schema.\<close>

record ('c, 'e, 'u, 'j) codex_host =
  xh_env :: "'j codex_env"
  xh_env_var :: "string \<Rightarrow> var_error + string"
  xh_events :: "'e event_ops"
  xh_usage :: "'u codex_usage_ops"
  xh_build :: "codex_setting list \<Rightarrow> codex_error + 'c"
  xh_schema_file :: "string \<Rightarrow> string \<Rightarrow> path option"
  xh_execute :: "'c \<Rightarrow> exec_setting list \<Rightarrow> codex_error + ('e, 'u) codex_result"

section \<open>Settlement\<close>

definition codex_settlement_error :: "string \<Rightarrow> agent_error" where
  "codex_settlement_error message = error_new Provider message Settlement EffPossible"

datatype terminal_state = TurnCompleted | TurnFailed turn_failure_kind

definition is_terminal :: "'e event_ops \<Rightarrow> 'e \<Rightarrow> bool" where
  "is_terminal ops e \<longleftrightarrow> eo_completed ops e \<or> eo_failed ops e"

definition validate_terminal_events :: "'e event_ops \<Rightarrow> 'e list \<Rightarrow> agent_error + terminal_state" where
  "validate_terminal_events ops events =
     (case filter (\<lambda>(i, e). is_terminal ops e) (List.enumerate 0 events) of
        [] \<Rightarrow> Inl (codex_settlement_error ''Codex event stream did not contain a terminal turn event'')
      | (index, terminal) # terminals \<Rightarrow>
          if terminals \<noteq> [] \<or> index + 1 \<noteq> length events
          then Inl (codex_settlement_error ''Codex event stream contained conflicting terminal state'')
          else if eo_completed ops terminal then Inr TurnCompleted
          else Inr (TurnFailed (unwrap_or (eo_failure_kind ops terminal) OtherTurnFailure)))"

definition classify_terminal_failure ::
  "turn_failure_kind \<Rightarrow> session_handle option \<Rightarrow> token_usage option \<Rightarrow> duration option \<Rightarrow> agent_error" where
  "classify_terminal_failure failure session usage elapsed =
     (case failure of
        ApiRequestRejected \<Rightarrow>
          with_evidence
            (error_new InvalidRequest ''Codex rejected the request before generating output'' Validation EffNone)
            (failure_evidence_default\<lparr>ev_usage := usage, ev_duration := elapsed\<rparr>)
      | RolloutBudgetExhausted \<Rightarrow>
          with_evidence (error_new Budget ''Codex turn exhausted its rollout token budget'' Running EffPossible)
            (failure_evidence_default\<lparr>ev_session := session, ev_usage := usage, ev_duration := elapsed\<rparr>)
      | OtherTurnFailure \<Rightarrow>
          with_evidence (error_new Provider ''Codex reported a failed turn'' Running EffPossible)
            (failure_evidence_default\<lparr>ev_session := session, ev_usage := usage, ev_duration := elapsed\<rparr>))"

fun consistent_provider_handle :: "string list \<Rightarrow> agent_error + string option" where
  "consistent_provider_handle [] = Inr None"
| "consistent_provider_handle (first # values) =
     (if is_blank first \<or> starts_with hyphen first \<or> list_ex (\<lambda>v. v \<noteq> first) values
      then Inl (codex_settlement_error ''Codex event stream contained invalid session evidence'')
      else Inr (Some first))"

definition option_list :: "'a option \<Rightarrow> 'a list" where
  "option_list x = (case x of None \<Rightarrow> [] | Some a \<Rightarrow> [a])"

definition validated_result_session ::
  "'e event_ops \<Rightarrow> ('e, 'u) codex_result \<Rightarrow> string option \<Rightarrow> bool \<Rightarrow> agent_error + session_handle option" where
  "validated_result_session ops result prior_session ephemeral =
     and_then (consistent_provider_handle
         (List.map_filter (eo_thread_id ops) (xr_events result) @ option_list (xr_thread_id result))) (\<lambda>thread.
       and_then (consistent_provider_handle
           (List.map_filter (eo_session_id ops) (xr_events result) @ option_list (xr_session_id result))) (\<lambda>session.
         Inr (if ephemeral then None
              else map_option (session_handle_new codex_provider) (option_or (option_or thread session) prior_session))))"

definition codex_map_usage :: "'u codex_usage_ops \<Rightarrow> 'u \<Rightarrow> token_usage" where
  "codex_map_usage ops u =
     \<lparr>usage_input = cu_input ops u, usage_cached_input = cu_cached_input ops u,
      usage_cache_write_input = cu_cache_write_input ops u, usage_output = cu_output ops u,
      usage_reasoning_output = cu_reasoning_output ops u, usage_provider_total = cu_total ops u\<rparr>"

fun find_map :: "('a \<Rightarrow> 'b option) \<Rightarrow> 'a list \<Rightarrow> 'b option" where
  "find_map f [] = None"
| "find_map f (x # xs) = (case f x of Some y \<Rightarrow> Some y | None \<Rightarrow> find_map f xs)"

definition settle_outcome ::
  "'e event_ops \<Rightarrow> 'u codex_usage_ops \<Rightarrow> ('e, 'u) codex_result \<Rightarrow> string option \<Rightarrow> duration \<Rightarrow> bool \<Rightarrow> bool
     \<Rightarrow> agent_error + 'v turn_outcome" where
  "settle_outcome ops uops result prior_session elapsed ephemeral structured =
     and_then (validate_terminal_events ops (xr_events result)) (\<lambda>terminal.
       and_then (validated_result_session ops result prior_session ephemeral) (\<lambda>session.
         let usage = map_option (codex_map_usage uops) (xr_usage result);
             output =
               (if structured then unwrap_or (find_map (eo_agent_message ops) (rev (xr_events result))) []
                else xr_result result)
         in case terminal of
              TurnCompleted \<Rightarrow>
                Inr ((turn_outcome_new output)\<lparr>out_session := session, out_usage := usage, out_duration := Some elapsed\<rparr>)
            | TurnFailed failure \<Rightarrow> Inl (classify_terminal_failure failure session usage (Some elapsed))))"

section \<open>Errors\<close>

definition map_launch_error :: "codex_error \<Rightarrow> agent_error" where
  "map_launch_error e =
     error_new Provider
       (if e = XNotFound then ''Codex executable was not found'' else ''Codex could not be initialized'')
       Launch EffNone"

text \<open>\<open>str::lines\<close>: pieces ended by a line feed, without it and without a carriage return before it.\<close>

definition strip_cr :: "string \<Rightarrow> string" where
  "strip_cr s = (if s \<noteq> [] \<and> List.last s = CHR 0x0D then butlast s else s)"

fun str_lines :: "string \<Rightarrow> string \<Rightarrow> string list" where
  "str_lines part [] = (if part = [] then [] else [part])"
| "str_lines part (c # cs) = (if c = CHR 0x0A then strip_cr part # str_lines [] cs else str_lines (part @ [c]) cs)"

definition terminal_failure_from_stream :: "'e event_ops \<Rightarrow> string \<Rightarrow> agent_error option" where
  "terminal_failure_from_stream ops stdout =
     (case validate_terminal_events ops (List.map_filter (eo_parse ops) (str_lines [] stdout)) of
        Inl _ \<Rightarrow> None
      | Inr (TurnFailed failure) \<Rightarrow> Some (classify_terminal_failure failure None None None)
      | Inr TurnCompleted \<Rightarrow> None)"

fun map_run_error :: "'e event_ops \<Rightarrow> codex_error \<Rightarrow> agent_error" where
  "map_run_error ops XNotFound = error_new Provider ''Codex executable was not found'' Launch EffNone"
| "map_run_error ops (XIo message) =
     (if starts_with ''failed to spawn codex'' message
      then error_new Provider ''Codex process could not be launched'' Launch EffNone
      else error_new Provider ''Codex process I/O failed'' Running EffPossible)"
| "map_run_error ops XTimeout =
     error_new DeadlineExceeded ''Codex command exceeded its configured timeout'' Running EffPossible"
| "map_run_error ops XOutputLimitExceeded =
     error_new Limit ''Codex output exceeded the host capture limit'' Running EffPossible"
| "map_run_error ops XCancelled = cancelled_in_flight codex_display"
| "map_run_error ops XAuth = error_new Authentication ''Codex credentials were rejected'' Running EffPossible"
| "map_run_error ops XConfigError =
     error_new Provider ''Codex rejected its launch configuration'' Validation EffNone"
| "map_run_error ops XNotTrustedDirectory =
     error_new Unauthorized ''Codex refused the working directory'' Validation EffNone"
| "map_run_error ops XSessionNotFound = error_new InvalidRequest ''Codex session was not found'' Validation EffNone"
| "map_run_error ops (XCommandFailed exit_code stdout) =
     (case terminal_failure_from_stream ops stdout of
        Some classified \<Rightarrow> classified
      | None \<Rightarrow> command_failed codex_display exit_code)"
| "map_run_error ops XJson = error_new Provider ''Codex returned an invalid event stream'' Settlement EffPossible"
| "map_run_error ops (XTokenBudgetExceeded total_tokens max_tokens) =
     error_new Budget
       (''Codex token budget exceeded: '' @ show_nat (unat total_tokens) @ '' of '' @ show_nat (unat max_tokens) @ '' tokens'')
       Running EffPossible"
| "map_run_error ops XInvalidRolloutBudget =
     error_new InvalidRequest ''Codex rollout budget configuration was invalid'' Validation EffNone"
| "map_run_error ops XDangerousNotAllowed =
     error_new Unauthorized ''Codex safety controls cannot be bypassed by this host'' Validation EffNone"
| "map_run_error ops (XVersionMismatch found minimum) =
     error_new Unsupported (''Codex CLI '' @ found @ '' is older than required version '' @ minimum) Launch EffNone"
| "map_run_error ops (XUntestedCliVersion found tested_min tested_max) =
     error_new Unsupported
       (''Codex CLI '' @ found @ '' is outside the tested range '' @ tested_min @ ''..='' @ tested_max) Launch EffNone"
| "map_run_error ops XOther = error_new Provider ''Codex command failed'' Running EffPossible"

section \<open>The client and the schema file\<close>

definition set_setting :: "('a \<Rightarrow> codex_setting) \<Rightarrow> 'a option \<Rightarrow> codex_setting list" where
  "set_setting f x = (case x of None \<Rightarrow> [] | Some a \<Rightarrow> [f a])"

definition build_codex ::
  "('c, 'e, 'u, 'j) codex_host \<Rightarrow> codex_service \<Rightarrow> path option \<Rightarrow> operation_id \<Rightarrow> agent_error + 'c" where
  "build_codex host service working_directory operation =
     and_then
       (map_err (\<lambda>error. error_new Internal
            (''invalid Codex child environment policy: '' @ child_environment_error_display error) Launch EffNone)
          (env_resolve (xh_env_var host) (xs_child_environment service)))
       (\<lambda>environment. and_then
          (case xs_codex_home service of
             None \<Rightarrow> Inr []
           | Some directory \<Rightarrow>
               and_then
                 (ok_or (error_new Internal ''configured CODEX_HOME is not valid UTF-8'' Launch EffNone)
                    (path_to_str directory))
                 (\<lambda>d. Inr [XEnv ''CODEX_HOME'' d]))
          (\<lambda>home.
             map_err map_launch_error
               (xh_build host
                 ((if res_clear_inherited environment then [XClearEnv] else [])
                  @ [XEnvs (res_variables environment)]
                  @ set_setting XBinary (xs_binary service)
                  @ set_setting XWorkingDir working_directory
                  @ home
                  @ set_setting XOutputLimit (xs_output_limit service)
                  @ set_setting XTerminationGrace (xs_termination_grace service)
                  @ [XDieWithParent (xs_die_with_parent service)]
                  @ (if xs_spawn_observer service
                     then [XOnSpawn (\<lambda>pid pgid. spawn_receipt_new codex_provider operation pid pgid)] else [])))))"

definition output_schema_file_error :: agent_error where
  "output_schema_file_error =
     error_new Internal ''Codex output schema temporary file could not be prepared'' Launch EffNone"

definition materialize_output_schema ::
  "(string \<Rightarrow> string \<Rightarrow> path option) \<Rightarrow> string \<Rightarrow> operation_id \<Rightarrow> agent_error + path" where
  "materialize_output_schema schema_file schema operation =
     ok_or output_schema_file_error
       (schema_file (''tower-agent-codex-schema-'' @ operation_id_display operation @ ''-'') schema)"

definition schema_path ::
  "(string \<Rightarrow> string \<Rightarrow> path option) \<Rightarrow> string option \<Rightarrow> operation_id \<Rightarrow> agent_error + string option" where
  "schema_path schema_file schema operation =
     (case schema of
        None \<Rightarrow> Inr None
      | Some s \<Rightarrow>
          and_then (materialize_output_schema schema_file s operation) (\<lambda>p.
            and_then (ok_or
                (error_new Internal ''Codex output schema temporary path is not valid UTF-8'' Launch EffNone) (path_to_str p))
              (\<lambda>str. Inr (Some str))))"

section \<open>One call\<close>

text \<open>
  The token is read when \<open>call\<close> prepares the turn, at the first poll and once the client is built.
  The settlement, the emitted events, and the command the wrapper was asked to execute, if any.
\<close>

type_synonym 'v codex_settled = "(agent_error + 'v turn_outcome) \<times> agent_event list \<times> exec_setting list option"

definition codex_command ::
  "codex_service \<Rightarrow> prepared_turn \<Rightarrow> string option \<Rightarrow> string option \<Rightarrow> exec_setting list" where
  "codex_command service t schema skills =
     (case pt_session t of
        Some session \<Rightarrow> resume_command t session (xs_ambient_context service) schema skills
      | None \<Rightarrow> fresh_command t (xs_ambient_context service) schema skills)"

definition codex_run ::
  "('c, 'e, 'u, 'j) codex_host \<Rightarrow> duration \<Rightarrow> prepared_turn \<Rightarrow> 'c \<Rightarrow> exec_setting list \<Rightarrow> 'v codex_settled" where
  "codex_run host elapsed t codex command =
     (case xh_execute host codex command of
        Inl error \<Rightarrow> (Inl (map_run_error (xh_events host) error), [EvStarted], Some command)
      | Inr result \<Rightarrow>
          (case settle_outcome (xh_events host) (xh_usage host) result (pt_session t) elapsed (pt_ephemeral t)
                  (is_some (pt_output_schema t)) of
             Inl error \<Rightarrow> (Inl error, [EvStarted], Some command)
           | Inr out \<Rightarrow> (Inr out, [EvStarted, EvOutputDelta (out_output out)], Some command)))"

definition codex_call ::
  "('c, 'e, 'u, 'j) codex_host \<Rightarrow> codex_service \<Rightarrow> bool \<Rightarrow> bool \<Rightarrow> bool \<Rightarrow> duration
     \<Rightarrow> 'j codex_options turn agent_request \<Rightarrow> 'v codex_settled" where
  "codex_call host service gone_at_call gone_at_poll gone_at_launch elapsed request =
     (let refuse = (\<lambda>error. (Inl error, [], None))
      in if is_some (ctx_preassigned_session (req_context request))
         then refuse (unsupported ''Codex does not support host-preassigned fresh session IDs'')
         else case codex_prepare (xh_env host) (xs_authority_policy service) gone_at_call (req_body request) of
           Inl error \<Rightarrow> refuse error
         | Inr t \<Rightarrow>
        (if gone_at_poll then refuse (cancelled_before_launch codex_display)
         else case render_skill_config (xh_env host) (xs_skill_policy service) of
           Inl error \<Rightarrow> refuse error
         | Inr skills \<Rightarrow>
        (case build_codex host service (pt_working_directory t) (ctx_operation_id (req_context request)) of
           Inl error \<Rightarrow> refuse error
         | Inr codex \<Rightarrow>
        (if gone_at_launch then refuse (cancelled_before_launch codex_display)
         else case schema_path (xh_schema_file host) (pt_output_schema t) (ctx_operation_id (req_context request)) of
           Inl error \<Rightarrow> refuse error
         | Inr schema \<Rightarrow> codex_run host elapsed t codex (codex_command service t schema skills)))))"

section \<open>Lemmas\<close>

lemma enumerate_filter_Nil: "filter (\<lambda>(i, e). P e) (List.enumerate n xs) = [] \<longleftrightarrow> (\<forall>e \<in> set xs. \<not> P e)"
  by (induction xs arbitrary: n) auto

text \<open>A stream is accepted exactly when its last event is its only terminal one.\<close>

lemma validate_terminal_Inr:
  "validate_terminal_events ops events = Inr st \<longleftrightarrow>
     (\<exists>pre t. events = pre @ [t] \<and> (\<forall>e \<in> set pre. \<not> is_terminal ops e) \<and> is_terminal ops t
        \<and> st = (if eo_completed ops t then TurnCompleted else TurnFailed (unwrap_or (eo_failure_kind ops t) OtherTurnFailure)))"
proof (cases events rule: rev_cases)
  case Nil
  then show ?thesis by (simp add: validate_terminal_events_def)
next
  case (snoc pre t)
  let ?f = "filter (\<lambda>(i, e). is_terminal ops e)"
  let ?st = "\<lambda>t. if eo_completed ops t then TurnCompleted else TurnFailed (unwrap_or (eo_failure_kind ops t) OtherTurnFailure)"
  have rhs: "(\<exists>pre t. events = pre @ [t] \<and> (\<forall>e \<in> set pre. \<not> is_terminal ops e) \<and> is_terminal ops t \<and> st = ?st t)
      \<longleftrightarrow> (\<forall>e \<in> set pre. \<not> is_terminal ops e) \<and> is_terminal ops t \<and> st = ?st t"
    unfolding snoc by blast
  have split: "?f (List.enumerate 0 events) =
      ?f (List.enumerate 0 pre) @ (if is_terminal ops t then [(length pre, t)] else [])"
    by (simp add: snoc enumerate_append_eq)
  show ?thesis
  proof (cases "?f (List.enumerate 0 pre)")
    case Nil
    then have "\<forall>e \<in> set pre. \<not> is_terminal ops e"
      by (simp add: enumerate_filter_Nil)
    then show ?thesis
      unfolding rhs by (auto simp: validate_terminal_events_def split Nil) (simp_all add: snoc)
  next
    case (Cons p rest)
    then have "p \<in> set (?f (List.enumerate 0 pre))" by simp
    then obtain i e where p: "p = (i, e)" "i < length pre" "is_terminal ops e" "e \<in> set pre"
      by (auto simp: in_set_enumerate_eq)
    then have "i + 1 \<noteq> length events" by (simp add: snoc)
    with p Cons have "\<nexists>st. validate_terminal_events ops events = Inr st"
      by (auto simp: validate_terminal_events_def split)
    with p show ?thesis unfolding rhs by blast
  qed
qed

lemma consistent_handle_Inr:
  "consistent_provider_handle vs = Inr h \<longleftrightarrow>
     (case h of None \<Rightarrow> vs = [] | Some v \<Rightarrow> vs \<noteq> [] \<and> set vs = {v} \<and> \<not> is_blank v \<and> \<not> starts_with hyphen v)"
  by (cases vs) (auto simp: list_ex_iff split: option.splits)

lemma classify_sel [simp]:
  "err_phase (classify_terminal_failure f s u d) = (if f = ApiRequestRejected then Validation else Running)"
  "err_effects (classify_terminal_failure f s u d) = (if f = ApiRequestRejected then EffNone else EffPossible)"
  by (cases f; simp add: classify_terminal_failure_def)+

text \<open>What the caller branches on: the classification without its evidence.\<close>

definition classification :: "agent_error \<Rightarrow> error_kind \<times> string \<times> failure_phase \<times> effect_state" where
  "classification e = (err_kind e, err_message e, err_phase e, err_effects e)"

lemma classify_evidence_irrelevant:
  "classification (classify_terminal_failure f s u d) = classification (classify_terminal_failure f s' u' d')"
  by (cases f) (simp_all add: classification_def classify_terminal_failure_def)

lemma codex_session_value_is_ok:
  "is_ok (codex_session_value s) \<longleftrightarrow>
     pred_option (\<lambda>h. handle_provider h = codex_provider \<and> \<not> is_blank (handle_value h)
       \<and> \<not> starts_with hyphen (handle_value h)) s"
  by (cases s) (auto simp: codex_session_value_def)

lemma codex_session_value_Inr: "codex_session_value s = Inr v \<Longrightarrow> v = map_option handle_value s"
  by (auto simp: codex_session_value_def split: option.splits if_splits)

definition output_schema_acceptable :: "'j codex_env \<Rightarrow> 'j \<Rightarrow> bool" where
  "output_schema_acceptable env schema \<longleftrightarrow>
     xe_schema_valid env schema
     \<and> (case xe_encode_schema env schema of None \<Rightarrow> False | Some s \<Rightarrow> length s \<le> max_output_schema_bytes)"

lemma validate_output_schema_is_ok: "is_ok (validate_output_schema env schema) \<longleftrightarrow> output_schema_acceptable env schema"
  by (cases "xe_encode_schema env schema") (auto simp: validate_output_schema_def output_schema_acceptable_def)

lemma output_schema_step_is_ok:
  "is_ok (case schema of None \<Rightarrow> Inr None | Some sc \<Rightarrow> and_then (validate_output_schema env sc) (\<lambda>s. Inr (Some s)))
     \<longleftrightarrow> pred_option (output_schema_acceptable env) schema"
proof (cases schema)
  case (Some sc)
  then show ?thesis
    using validate_output_schema_is_ok [of env sc] by (cases "validate_output_schema env sc") auto
qed simp

lemma encode_directories_is_ok: "is_ok (collect_results encode_directory ds) \<longleftrightarrow> list_all utf8_valid ds"
  by (auto simp: collect_results_is_ok encode_directory_def path_to_str_def list_all_iff)

lemma encode_directories_Inr: "collect_results encode_directory ps = Inr ds \<Longrightarrow> map Some ds = map path_to_str ps"
  by (induction ps arbitrary: ds) (auto simp: and_then_eq_Inr encode_directory_def ok_or_def split: option.splits)

text \<open>The order of a turn's fields in the checks does not matter for acceptance.\<close>

definition codex_turn_valid :: "'j codex_env \<Rightarrow> authority_policy \<Rightarrow> 'j codex_options turn \<Rightarrow> bool" where
  "codex_turn_valid env policy t \<longleftrightarrow>
     is_ok (authorize (xe_canonicalize env) xo_filesystem_authority xo_additional_directories policy t)
     \<and> \<not> is_blank (turn_prompt t)
     \<and> pred_option (\<lambda>m. \<not> is_blank m) (xo_model (turn_options t))
     \<and> pred_option (\<lambda>h. handle_provider h = codex_provider \<and> \<not> is_blank (handle_value h)
          \<and> \<not> starts_with hyphen (handle_value h)) (turn_session t)
     \<and> (turn_session t = None \<or> xo_additional_directories (turn_options t) = [])
     \<and> list_all utf8_valid (xo_additional_directories (turn_options t))
     \<and> pred_option (output_schema_acceptable env) (xo_output_schema (turn_options t))"

lemma is_ok_and_then_const: "(\<And>a. is_ok (f a) \<longleftrightarrow> b) \<Longrightarrow> is_ok (and_then r f) \<longleftrightarrow> is_ok r \<and> b"
  by (cases r) auto

lemma preflight_turn_is_ok: "is_ok (preflight_turn env policy t) \<longleftrightarrow> codex_turn_valid env policy t"
proof -
  let ?dirs = "xo_additional_directories (turn_options t)"
  let ?rest = "\<lambda>session. and_then (collect_results encode_directory ?dirs) (\<lambda>dirs.
           and_then
             (case xo_output_schema (turn_options t) of
                None \<Rightarrow> Inr None
              | Some schema \<Rightarrow> and_then (validate_output_schema env schema) (\<lambda>s. Inr (Some s)))
             (\<lambda>schema. Inr \<lparr>vt_session = session, vt_additional_directories = dirs, vt_output_schema = schema\<rparr>))"
  have rest: "is_ok (?rest session) \<longleftrightarrow> list_all utf8_valid ?dirs
      \<and> pred_option (output_schema_acceptable env) (xo_output_schema (turn_options t))" for session
    by (subst is_ok_and_then_const
        [where b = "pred_option (output_schema_acceptable env) (xo_output_schema (turn_options t))"])
      (simp_all add: is_ok_and_then_const [where b = True] output_schema_step_is_ok encode_directories_is_ok)
  have session: "is_ok (and_then (codex_session_value (turn_session t)) (\<lambda>session.
         if is_some session \<and> ?dirs \<noteq> []
         then Inl (unsupported ''codex-wrapper cannot add directories to a resumed turn'') else ?rest session))
     \<longleftrightarrow> is_ok (codex_session_value (turn_session t)) \<and> (turn_session t = None \<or> ?dirs = [])
       \<and> is_ok (?rest None)"
    by (cases "codex_session_value (turn_session t)")
      (use rest in \<open>auto simp: is_some_iff dest!: codex_session_value_Inr\<close>)
  show ?thesis
    unfolding preflight_turn_def codex_turn_valid_def
    by (subst is_ok_and_then_const [OF refl])
      (auto simp: session rest codex_session_value_is_ok split: option.splits)
qed

text \<open>What a call did: refused before the run, or the run of one command.\<close>

lemma build_codex_error: "build_codex host service wd op = Inl e \<Longrightarrow> err_phase e = Launch \<and> err_effects e = EffNone"
  by (auto simp: build_codex_def and_then_eq_Inl map_launch_error_def ok_or_def map_err_def
      split: option.splits sum.splits if_splits)

lemma schema_path_error: "schema_path f sc op = Inl e \<Longrightarrow> err_phase e = Launch \<and> err_effects e = EffNone"
  by (auto simp: schema_path_def materialize_output_schema_def output_schema_file_error_def and_then_eq_Inl ok_or_def
      split: option.splits)

lemma skill_folder_error: "skill_folder env p = Inl e \<Longrightarrow> err_phase e = Launch \<and> err_effects e = EffNone"
  by (auto simp: skill_folder_def skill_policy_error_def split: sum.splits if_splits)

lemma skill_entry_error: "skill_entry env p = Inl e \<Longrightarrow> err_phase e = Launch \<and> err_effects e = EffNone"
  by (auto simp: skill_entry_def skill_policy_error_def and_then_eq_Inl ok_or_def split: option.splits)

lemma render_skill_config_error:
  "render_skill_config env policy = Inl e \<Longrightarrow> err_phase e = Launch \<and> err_effects e = EffNone"
  by (auto simp: render_skill_config_def Let_def and_then_eq_Inl skill_policy_error_def
      dest!: collect_results_Inl dest: skill_folder_error skill_entry_error
      split: codex_skill_policy.splits if_splits)

lemma preflight_turn_refusal: "preflight_turn env policy t = Inl e \<Longrightarrow> err_phase e = Validation \<and> err_effects e = EffNone"
proof -
  have auth: "authorize c r f policy t = Inl e \<Longrightarrow> err_phase e = Validation \<and> err_effects e = EffNone" for c r f
    using authorize_error_shape [of c r f policy t e] by simp
  have dirs: "encode_directory d = Inl e \<Longrightarrow> err_phase e = Validation \<and> err_effects e = EffNone" for d
    by (auto simp: encode_directory_def ok_or_def unsupported_def split: option.splits)
  show "preflight_turn env policy t = Inl e \<Longrightarrow> err_phase e = Validation \<and> err_effects e = EffNone"
    by (auto simp: preflight_turn_def and_then_eq_Inl codex_session_value_def validate_output_schema_def ok_or_def
        error_constructors dest: auth dirs dest!: collect_results_Inl split: if_splits option.splits)
qed

lemma codex_call_cases:
  assumes "codex_call host service g1 g2 g3 elapsed request = (res, evs, executed)"
  obtains (refused) e where "res = Inl e" "evs = []" "executed = None" "err_effects e = EffNone"
    | (launched) t skills codex schema where
      "codex_prepare (xh_env host) (xs_authority_policy service) g1 (req_body request) = Inr t"
      "render_skill_config (xh_env host) (xs_skill_policy service) = Inr skills"
      "codex_run host elapsed t codex (codex_command service t schema skills) = (res, evs, executed)"
proof -
  have facts:
    "codex_prepare (xh_env host) (xs_authority_policy service) g1 (req_body request) = Inl e \<Longrightarrow> err_effects e = EffNone"
    "render_skill_config (xh_env host) (xs_skill_policy service) = Inl e \<Longrightarrow> err_effects e = EffNone"
    "build_codex host service wd op = Inl e \<Longrightarrow> err_effects e = EffNone"
    "schema_path (xh_schema_file host) sc op = Inl e \<Longrightarrow> err_effects e = EffNone" for e wd op sc
    by (auto simp: codex_prepare_def and_then_eq_Inl cancelled_before_launch_def
        dest: preflight_turn_refusal render_skill_config_error build_codex_error schema_path_error split: if_splits)
  show thesis
    using assms
    by (auto simp: codex_call_def Let_def cancelled_before_launch_def unsupported_def
        intro: refused launched dest: facts split: if_splits sum.splits)
qed

text \<open>The wrapper errors reported as effect-free: no child, or the provider refused before generating.\<close>

definition before_turn :: "'e event_ops \<Rightarrow> codex_error \<Rightarrow> bool" where
  "before_turn ops e =
     (case e of
        XNotFound \<Rightarrow> True
      | XIo message \<Rightarrow> starts_with ''failed to spawn codex'' message
      | XConfigError \<Rightarrow> True
      | XNotTrustedDirectory \<Rightarrow> True
      | XSessionNotFound \<Rightarrow> True
      | XInvalidRolloutBudget \<Rightarrow> True
      | XDangerousNotAllowed \<Rightarrow> True
      | XVersionMismatch _ _ \<Rightarrow> True
      | XUntestedCliVersion _ _ _ \<Rightarrow> True
      | XCommandFailed _ stdout \<Rightarrow>
          validate_terminal_events ops (List.map_filter (eo_parse ops) (str_lines [] stdout)) = Inr (TurnFailed ApiRequestRejected)
      | _ \<Rightarrow> False)"

lemma map_run_error_effects: "err_effects (map_run_error ops e) = (if before_turn ops e then EffNone else EffPossible)"
  by (cases e)
    (auto simp: before_turn_def terminal_failure_from_stream_def command_failed_def cancelled_in_flight_def
      split: sum.splits terminal_state.splits)

lemma validate_terminal_error: "validate_terminal_events ops events = Inl e \<Longrightarrow> err_effects e = EffPossible"
  by (auto simp: validate_terminal_events_def codex_settlement_error_def split: list.splits prod.splits if_splits)

lemma validated_session_error: "validated_result_session ops r p eph = Inl e \<Longrightarrow> err_effects e = EffPossible"
proof -
  have "consistent_provider_handle vs = Inl e \<Longrightarrow> err_effects e = EffPossible" for vs
    by (cases vs) (auto simp: codex_settlement_error_def split: if_splits)
  then show "validated_result_session ops r p eph = Inl e \<Longrightarrow> err_effects e = EffPossible"
    by (auto simp: validated_result_session_def and_then_eq_Inl)
qed

lemma settle_outcome_effects:
  assumes "settle_outcome ops uops r prior d eph str = Inl e"
  shows "err_effects e = (if validate_terminal_events ops (xr_events r) = Inr (TurnFailed ApiRequestRejected)
       \<and> is_ok (validated_result_session ops r prior eph) then EffNone else EffPossible)"
proof (cases "validate_terminal_events ops (xr_events r)")
  case (Inr st)
  with assms show ?thesis
    by (cases st; cases "validated_result_session ops r prior eph")
      (auto simp: settle_outcome_def Let_def dest: validated_session_error)
qed (use assms in \<open>auto simp: settle_outcome_def dest: validate_terminal_error\<close>)

section \<open>Properties\<close>

text \<open>What was executed: a command of an authorized turn, with the turn's session and authority.\<close>

lemma codex_executed:
  assumes "codex_call host service g1 g2 g3 elapsed request = (res, evs, Some command)"
  obtains t skills schema where
    "command = codex_command service t schema skills"
    "render_skill_config (xh_env host) (xs_skill_policy service) = Inr skills"
    "pt_session t = map_option handle_value (turn_session (req_body request))"
    "pt_filesystem_authority t = xo_filesystem_authority (turn_options (req_body request))"
    "is_ok (authorize (xe_canonicalize (xh_env host)) xo_filesystem_authority xo_additional_directories
       (xs_authority_policy service) (req_body request))"
    "map Some (pt_additional_directories t) = map path_to_str (xo_additional_directories (turn_options (req_body request)))"
    "pt_session t \<noteq> None \<Longrightarrow> xo_additional_directories (turn_options (req_body request)) = []"
  using assms
proof (cases rule: codex_call_cases)
  case (refused e)
  then show ?thesis by simp
next
  case (launched t skills codex schema)
  let ?body = "req_body request"
  from launched(1) obtain validated where valid: "preflight_turn (xh_env host) (xs_authority_policy service) ?body = Inr validated"
    and t: "pt_session t = vt_session validated" "pt_filesystem_authority t = xo_filesystem_authority (turn_options ?body)"
    by (auto simp: codex_prepare_def and_then_eq_Inr split: if_splits)
  have "vt_session validated = map_option handle_value (turn_session ?body)"
    using valid by (auto simp: preflight_turn_def and_then_eq_Inr split: if_splits dest!: codex_session_value_Inr)
  moreover have "is_ok (authorize (xe_canonicalize (xh_env host)) xo_filesystem_authority xo_additional_directories
      (xs_authority_policy service) ?body)"
    using valid preflight_turn_is_ok [of "xh_env host" "xs_authority_policy service" ?body]
    by (simp add: codex_turn_valid_def is_ok_iff)
  moreover have "map Some (pt_additional_directories t) = map path_to_str (xo_additional_directories (turn_options ?body))"
    "pt_session t \<noteq> None \<Longrightarrow> xo_additional_directories (turn_options ?body) = []"
    using launched(1)
    by (auto simp: codex_prepare_def preflight_turn_def and_then_eq_Inr encode_directories_Inr split: if_splits)
  moreover have "command = codex_command service t schema skills"
    using launched(3) by (auto simp: codex_run_def split: sum.splits)
  ultimately show ?thesis using t launched(2) that by simp
qed

lemma codex_command_sandbox:
  "XSandbox m \<in> set (codex_command service t schema skills) \<longleftrightarrow>
     pt_session t = None \<and> m = sandbox_mode_of (pt_filesystem_authority t)"
  "pt_session t \<noteq> None \<Longrightarrow>
     XConfig (sandbox_config (pt_filesystem_authority t)) \<in> set (codex_command service t schema skills)"
  by (auto simp: codex_command_def fresh_command_def resume_command_def ambient_settings_def skill_settings_def
      opt_setting_def split: option.splits)

lemma codex_command_directories:
  "XAddDir d \<in> set (codex_command service t schema skills) \<longleftrightarrow> pt_session t = None \<and> d \<in> set (pt_additional_directories t)"
  by (auto simp: codex_command_def fresh_command_def resume_command_def ambient_settings_def skill_settings_def
      opt_setting_def split: option.splits)

lemma mem_map_Some: "map Some ds = map f ps \<Longrightarrow> d \<in> set ds \<longleftrightarrow> Some d \<in> f ` set ps"
  by (metis (no_types, lifting) image_iff list.set_map option.inject)

text \<open>C18: whatever a turn asks for, the command that is executed requests exactly the turn's filesystem
  authority, in the form of the command at hand (\<open>--sandbox\<close> for a fresh turn, the \<open>sandbox_mode\<close>
  key for a resumed one), and the turn is authorized: the authority is within the host's ceiling and,
  for a workspace-write turn, the working directory and every additional root resolve into an allowed
  root. The directories the command adds are exactly the additional ones of a fresh turn, and a
  resumed turn has none. The command carries the host's ambient and skill policy.\<close>

theorem codex_command_within_policy:
  assumes "codex_call host service g1 g2 g3 elapsed request = (res, evs, Some command)"
  shows "\<exists>a skills. a = xo_filesystem_authority (turn_options (req_body request))
    \<and> a \<le> filesystem_ceiling (xs_authority_policy service)
    \<and> (if a = WorkspaceWrite
       then list_all (root_contained (xe_canonicalize (xh_env host)) (xs_authority_policy service))
              (requested_roots xo_additional_directories (req_body request))
       else True)
    \<and> (\<forall>d. XAddDir d \<in> set command \<longleftrightarrow> turn_session (req_body request) = None
         \<and> Some d \<in> path_to_str ` set (xo_additional_directories (turn_options (req_body request))))
    \<and> (turn_session (req_body request) = None \<or> xo_additional_directories (turn_options (req_body request)) = [])
    \<and> render_skill_config (xh_env host) (xs_skill_policy service) = Inr skills
    \<and> (case turn_session (req_body request) of
         None \<Rightarrow> XSandbox (case a of ReadOnly \<Rightarrow> SandboxReadOnly | WorkspaceWrite \<Rightarrow> SandboxWorkspaceWrite
                       | FullAccess \<Rightarrow> SandboxDangerFullAccess) \<in> set command
       | Some s \<Rightarrow> XSessionId (handle_value s) \<in> set command
           \<and> XConfig (''sandbox_mode=\"'' @ (case a of ReadOnly \<Rightarrow> ''read-only'' | WorkspaceWrite \<Rightarrow> ''workspace-write''
                       | FullAccess \<Rightarrow> ''danger-full-access'') @ ''\"'') \<in> set command)
    \<and> set (ambient_settings (xs_ambient_context service)) \<union> set (skill_settings skills) \<subseteq> set command
    \<and> (\<forall>m. XSandbox m \<in> set command \<longrightarrow> (m = SandboxReadOnly) = (a = ReadOnly) \<and> (m = SandboxDangerFullAccess) = (a = FullAccess))"
proof -
  let ?body = "req_body request"
  let ?a = "xo_filesystem_authority (turn_options ?body)"
  from assms obtain t skills schema where command: "command = codex_command service t schema skills"
    and skills: "render_skill_config (xh_env host) (xs_skill_policy service) = Inr skills"
    and session: "pt_session t = map_option handle_value (turn_session ?body)"
    and authority: "pt_filesystem_authority t = ?a"
    and ok: "is_ok (authorize (xe_canonicalize (xh_env host)) xo_filesystem_authority xo_additional_directories
      (xs_authority_policy service) ?body)"
    and dirs: "map Some (pt_additional_directories t) = map path_to_str (xo_additional_directories (turn_options ?body))"
    and resumed: "pt_session t \<noteq> None \<Longrightarrow> xo_additional_directories (turn_options ?body) = []"
    by (rule codex_executed) blast
  from ok have "?a \<le> filesystem_ceiling (xs_authority_policy service)"
    "if ?a = WorkspaceWrite then list_all (root_contained (xe_canonicalize (xh_env host)) (xs_authority_policy service))
       (requested_roots xo_additional_directories ?body) else True"
    by (simp_all add: authorize_ok_iff)
  moreover have "XAddDir d \<in> set command \<longleftrightarrow> turn_session ?body = None
      \<and> Some d \<in> path_to_str ` set (xo_additional_directories (turn_options ?body))" for d
    by (simp add: command codex_command_directories session mem_map_Some [OF dirs])
  moreover have "turn_session ?body = None \<or> xo_additional_directories (turn_options ?body) = []"
    using resumed session by (cases "turn_session ?body") auto
  moreover note skills
  moreover have "case turn_session ?body of
      None \<Rightarrow> XSandbox (case ?a of ReadOnly \<Rightarrow> SandboxReadOnly | WorkspaceWrite \<Rightarrow> SandboxWorkspaceWrite
          | FullAccess \<Rightarrow> SandboxDangerFullAccess) \<in> set command
    | Some s \<Rightarrow> XSessionId (handle_value s) \<in> set command
        \<and> XConfig (''sandbox_mode=\"'' @ (case ?a of ReadOnly \<Rightarrow> ''read-only'' | WorkspaceWrite \<Rightarrow> ''workspace-write''
            | FullAccess \<Rightarrow> ''danger-full-access'') @ ''\"'') \<in> set command"
    using command session authority
    by (cases "turn_session ?body"; cases ?a) (auto simp: codex_command_def fresh_command_def resume_command_def)
  moreover have "set (ambient_settings (xs_ambient_context service)) \<union> set (skill_settings skills) \<subseteq> set command"
    using command by (auto simp: codex_command_def fresh_command_def resume_command_def split: option.splits)
  moreover have "XSandbox m \<in> set command \<longrightarrow> (m = SandboxReadOnly) = (?a = ReadOnly)
      \<and> (m = SandboxDangerFullAccess) = (?a = FullAccess)" for m
    using authority by (cases ?a) (auto simp: command codex_command_sandbox(1))
  ultimately show ?thesis by blast
qed

text \<open>A failed Codex call claims no effects exactly when nothing was executed, or the wrapper failed
  before the turn, or the terminal event says that the API rejected the request; events are emitted
  exactly when a command was executed.\<close>

theorem codex_effects_honest:
  assumes "codex_call host service g1 g2 g3 elapsed request = (Inl e, evs, executed)"
  shows "(evs = [] \<longleftrightarrow> executed = None)
    \<and> (executed = None \<longrightarrow> err_effects e = EffNone)
    \<and> (\<forall>command. executed = Some command \<longrightarrow> (\<exists>codex. case xh_execute host codex command of
         Inl w \<Rightarrow> err_effects e = EffNone \<longleftrightarrow> before_turn (xh_events host) w
       | Inr r \<Rightarrow> err_effects e = EffNone \<longrightarrow>
           validate_terminal_events (xh_events host) (xr_events r) = Inr (TurnFailed ApiRequestRejected)))"
  using assms
proof (cases rule: codex_call_cases)
  case (refused e')
  then show ?thesis by simp
next
  case (launched t skills codex schema)
  have ran: "evs \<noteq> [] \<and> executed \<noteq> None" and cmd: "executed = Some (codex_command service t schema skills)"
    using launched(3) by (auto simp: codex_run_def split: sum.splits)
  have "case xh_execute host codex (codex_command service t schema skills) of
      Inl w \<Rightarrow> err_effects e = EffNone \<longleftrightarrow> before_turn (xh_events host) w
    | Inr r \<Rightarrow> err_effects e = EffNone \<longrightarrow>
        validate_terminal_events (xh_events host) (xr_events r) = Inr (TurnFailed ApiRequestRejected)"
    using launched(3)
    by (auto simp: codex_run_def map_run_error_effects dest!: settle_outcome_effects split: sum.splits if_splits)
  with ran cmd show ?thesis by auto
qed

text \<open>A concrete host, for the witnesses: events are pairs of a terminal state and a thread id.\<close>

type_synonym sample_event = "terminal_state option \<times> string option"

definition sample_events :: "sample_event event_ops" where
  "sample_events =
     \<lparr>eo_completed = (\<lambda>e. fst e = Some TurnCompleted),
      eo_failed = (\<lambda>e. case fst e of Some (TurnFailed _) \<Rightarrow> True | _ \<Rightarrow> False),
      eo_failure_kind = (\<lambda>e. case fst e of Some (TurnFailed f) \<Rightarrow> Some f | _ \<Rightarrow> None),
      eo_thread_id = snd, eo_session_id = (\<lambda>_. None), eo_agent_message = (\<lambda>_. Some ''hello''),
      eo_parse = (\<lambda>line.
        if line = ''rejected'' then Some (Some (TurnFailed ApiRequestRejected), None)
        else if line = ''started'' then Some (None, Some ''t-1'') else None)\<rparr>"

definition sample_usage_ops :: "unit codex_usage_ops" where
  "sample_usage_ops =
     \<lparr>cu_input = (\<lambda>_. None), cu_cached_input = (\<lambda>_. None), cu_cache_write_input = (\<lambda>_. None), cu_output = (\<lambda>_. Some 3),
      cu_reasoning_output = (\<lambda>_. None), cu_total = (\<lambda>_. Some 3)\<rparr>"

definition sample_codex_host ::
  "(codex_error + (sample_event, unit) codex_result) \<Rightarrow> (unit, sample_event, unit, string) codex_host" where
  "sample_codex_host answer =
     \<lparr>xh_env = \<lparr>xe_canonicalize = Inr, xe_is_dir = (\<lambda>_. True), xe_is_file = (\<lambda>_. True), xe_encode_schema = Some,
                xe_schema_valid = (\<lambda>_. True), xe_encode_str = Some\<rparr>,
      xh_env_var = (\<lambda>_. Inl NotPresent), xh_events = sample_events, xh_usage = sample_usage_ops,
      xh_build = (\<lambda>_. Inr ()), xh_schema_file = (\<lambda>_ _. Some ''/tmp/s.json''), xh_execute = (\<lambda>_ _. answer)\<rparr>"

definition sample_codex_request :: "string option \<Rightarrow> string codex_options turn agent_request" where
  "sample_codex_request resumed =
     agent_request_with_context
       ((turn_with_options (turn_new ''go'') codex_options_default)
         \<lparr>turn_session := map_option (session_handle_new ''codex'') resumed\<rparr>)
       (call_context_default 1 [0])"

definition sample_codex_service :: codex_service where
  "sample_codex_service =
     codex_with_ambient_context_policy codex_service_new CodexAutomation"

theorem codex_command_within_policy_witness:
  "\<exists>command. snd (snd (codex_call (sample_codex_host (Inl XTimeout)) sample_codex_service False False False 0
       (sample_codex_request (Some ''t-9'')) :: nat codex_settled)) = Some command
     \<and> XConfig ''sandbox_mode=\"read-only\"'' \<in> set command \<and> XIgnoreRules \<in> set command
     \<and> XAddDir ''/tmp'' \<notin> set command"
proof -
  let ?c = "codex_call (sample_codex_host (Inl XTimeout)) sample_codex_service False False False 0
       (sample_codex_request (Some ''t-9'')) :: nat codex_settled"
  have "is_some (snd (snd ?c))" by code_simp
  then obtain res evs command where c: "?c = (res, evs, Some command)"
    by (cases ?c) (auto simp: is_some_iff)
  have session: "turn_session (req_body (sample_codex_request (Some ''t-9''))) = Some \<lparr>handle_provider = ''codex'', handle_value = ''t-9''\<rparr>"
    and authority: "xo_filesystem_authority (turn_options (req_body (sample_codex_request (Some ''t-9'')))) = ReadOnly"
    and ambient: "xs_ambient_context sample_codex_service = CodexAutomation"
    by code_simp+
  from codex_command_within_policy [OF c] c session authority ambient show ?thesis
    by (auto simp: ambient_settings_def)
qed

theorem codex_effects_honest_witness:
  "\<exists>e. fst (codex_call (sample_codex_host (Inl (XCommandFailed 1 (''started'' @ [CHR 0x0A] @ ''rejected'')))) codex_service_new
       False False False 0 (sample_codex_request None) :: nat codex_settled) = Inl e \<and> err_effects e = EffNone"
proof -
  let ?w = "XCommandFailed 1 (''started'' @ [CHR 0x0A] @ ''rejected'')"
  let ?c = "codex_call (sample_codex_host (Inl ?w)) codex_service_new False False False 0 (sample_codex_request None) :: nat codex_settled"
  have facts: "is_some (snd (snd ?c))" "\<not> is_ok (fst ?c)" by code_simp+
  then obtain e evs command where c: "?c = (Inl e, evs, Some command)"
    by (cases ?c) (auto simp: is_some_iff is_ok_def split: sum.splits)
  have "before_turn sample_events ?w" by code_simp
  with codex_effects_honest [OF c] c show ?thesis by (auto simp: sample_codex_host_def)
qed

text \<open>C19: a turn settles successfully only on an unambiguous stream: the last event is its only terminal
  event and says completed, all handles of a kind agree, and the outcome's session is the thread
  handle, else the session handle, else the resumed one; an ephemeral turn has none.\<close>

theorem codex_settlement_unambiguous:
  assumes "settle_outcome ops uops result prior elapsed ephemeral structured = Inr out"
  shows "(\<exists>pre t. xr_events result = pre @ [t] \<and> eo_completed ops t \<and> (\<forall>e \<in> set pre. \<not> is_terminal ops e))
    \<and> (\<exists>thread session.
        set (List.map_filter (eo_thread_id ops) (xr_events result)) \<union> set_option (xr_thread_id result) = set_option thread
        \<and> set (List.map_filter (eo_session_id ops) (xr_events result)) \<union> set_option (xr_session_id result) = set_option session
        \<and> out_session out = (if ephemeral then None
            else map_option (session_handle_new codex_provider) (option_or (option_or thread session) prior)))"
proof -
  from assms obtain st s where st: "validate_terminal_events ops (xr_events result) = Inr st"
    and s: "validated_result_session ops result prior ephemeral = Inr s"
    by (auto simp: settle_outcome_def and_then_eq_Inr)
  have completed: "st = TurnCompleted" and out: "out_session out = s"
    using assms st s by (cases st; simp add: settle_outcome_def Let_def; auto)+
  have opt: "set (option_list x) = set_option x" for x :: "string option"
    by (cases x) (simp_all add: option_list_def)
  have handle: "consistent_provider_handle vs = Inr h \<Longrightarrow> set vs = set_option h" for vs h
    by (cases h) (simp_all add: consistent_handle_Inr)
  from s obtain thread session
    where "consistent_provider_handle (List.map_filter (eo_thread_id ops) (xr_events result) @ option_list (xr_thread_id result)) = Inr thread"
      "consistent_provider_handle (List.map_filter (eo_session_id ops) (xr_events result) @ option_list (xr_session_id result)) = Inr session"
      "s = (if ephemeral then None else map_option (session_handle_new codex_provider) (option_or (option_or thread session) prior))"
    by (auto simp: validated_result_session_def and_then_eq_Inr)
  with out handle opt have session:
    "set (List.map_filter (eo_thread_id ops) (xr_events result)) \<union> set_option (xr_thread_id result) = set_option thread
     \<and> set (List.map_filter (eo_session_id ops) (xr_events result)) \<union> set_option (xr_session_id result) = set_option session
     \<and> out_session out = (if ephemeral then None
            else map_option (session_handle_new codex_provider) (option_or (option_or thread session) prior))"
    by (metis set_append)
  from st completed have "\<exists>pre t. xr_events result = pre @ [t] \<and> eo_completed ops t \<and> (\<forall>e \<in> set pre. \<not> is_terminal ops e)"
    by (auto simp: validate_terminal_Inr split: if_splits)
  with session show ?thesis by blast
qed

theorem codex_settlement_unambiguous_witness:
  "\<exists>pre t. [(None, Some ''t-1''), (Some TurnCompleted, None)] = pre @ [t] \<and> eo_completed sample_events t
     \<and> (\<forall>e \<in> set pre. \<not> is_terminal sample_events e)"
proof -
  let ?result = "\<lparr>xr_result = ''ok'', xr_events = [(None, Some ''t-1''), (Some TurnCompleted, None)],
       xr_thread_id = Some ''t-1'', xr_session_id = None, xr_usage = Some ()\<rparr>"
  let ?r = "settle_outcome sample_events sample_usage_ops ?result None 0 False False :: agent_error + nat turn_outcome"
  have "is_ok ?r" by code_simp
  then obtain out where "?r = Inr out" by (auto simp: is_ok_iff)
  from conjunct1 [OF codex_settlement_unambiguous [OF this]] show ?thesis
    unfolding codex_result.simps .
qed

text \<open>Both settlement paths classify a terminal failure alike: when Codex exits nonzero and the wrapper
  reports a failed command, the stream recovered from its text gives the same kind, message, phase
  and effects as the same events give when the run exits zero with consistent handles.\<close>

theorem codex_terminal_paths_agree:
  assumes "List.map_filter (eo_parse ops) (str_lines [] stdout) = xr_events result"
    and "validate_terminal_events ops (xr_events result) = Inr (TurnFailed failure)"
    and "is_ok (validated_result_session ops result prior ephemeral)"
  shows "\<exists>e. settle_outcome ops uops result prior elapsed ephemeral structured = (Inl e :: agent_error + 'v turn_outcome)
    \<and> classification (map_run_error ops (XCommandFailed exit_code stdout)) = classification e"
proof -
  from assms(3) obtain s where "validated_result_session ops result prior ephemeral = Inr s"
    by (auto simp: is_ok_iff)
  with assms(1,2) show ?thesis
    by (auto simp: settle_outcome_def Let_def terminal_failure_from_stream_def intro: classify_evidence_irrelevant)
qed

theorem codex_terminal_paths_agree_witness:
  "\<exists>e. settle_outcome sample_events sample_usage_ops
      \<lparr>xr_result = [], xr_events = [(None, Some ''t-1''), (Some (TurnFailed ApiRequestRejected), None)], xr_thread_id = None,
       xr_session_id = None, xr_usage = None\<rparr> None 0 False False = (Inl e :: agent_error + nat turn_outcome)
    \<and> classification (map_run_error sample_events (XCommandFailed 1 (''started'' @ [CHR 0x0A] @ ''rejected''))) = classification e"
proof (rule codex_terminal_paths_agree)
  show "List.map_filter (eo_parse sample_events) (str_lines [] (''started'' @ [CHR 0x0A] @ ''rejected'')) =
      xr_events \<lparr>xr_result = [], xr_events = [(None, Some ''t-1''), (Some (TurnFailed ApiRequestRejected), None)],
        xr_thread_id = None, xr_session_id = None, xr_usage = None :: unit option\<rparr>"
    by code_simp
  show "validate_terminal_events sample_events (xr_events
      \<lparr>xr_result = [], xr_events = [(None, Some ''t-1''), (Some (TurnFailed ApiRequestRejected), None)],
        xr_thread_id = None, xr_session_id = None, xr_usage = None :: unit option\<rparr>) = Inr (TurnFailed ApiRequestRejected)"
    by code_simp
  show "is_ok (validated_result_session sample_events
      \<lparr>xr_result = [], xr_events = [(None, Some ''t-1''), (Some (TurnFailed ApiRequestRejected), None)],
        xr_thread_id = None, xr_session_id = None, xr_usage = None :: unit option\<rparr> None False)"
    by code_simp
qed

text \<open>Preflight accepts a turn exactly when the host authorizes it, every field is usable, extra
  directories come with a fresh turn only, and the host's skill policy can be encoded.\<close>

theorem codex_preflight_decides:
  "is_ok (codex_preflight env service t) \<longleftrightarrow>
     codex_turn_valid env (xs_authority_policy service) t \<and> is_ok (render_skill_config env (xs_skill_policy service))"
  using preflight_turn_is_ok [of env "xs_authority_policy service" t]
  by (cases "preflight_turn env (xs_authority_policy service) t"; cases "render_skill_config env (xs_skill_policy service)")
    (simp_all add: codex_preflight_def)

end
