(* ===== verification/Mcp_Continuation.thy ===== *)
theory Mcp_Continuation
  imports Agent_Error "HOL-Library.AList"
begin

text \<open>
  \<open>tower-agent-mcp/continuation.rs\<close>: the public names of resumable conversations, the scopes they
  belong to, and the bounded in-process store. The random identifier \<open>Uuid::new_v4\<close> is an argument
  of \<open>mint\<close>; a \<open>HashMap\<close> is an association list with distinct keys, of which the code uses nothing
  that depends on the iteration order. The locale \<open>continuation_store\<close> is the contract of the trait.
\<close>

section \<open>Identifiers and scopes\<close>

datatype continuation_id = ContinuationId (continuation_str: string)

definition continuation_generate :: "string \<Rightarrow> continuation_id" where
  "continuation_generate uuid = ContinuationId uuid"

datatype invalid_continuation_id = InvalidContinuationId

fun invalid_continuation_display :: "invalid_continuation_id \<Rightarrow> string" where
  "invalid_continuation_display InvalidContinuationId = ''continuation id must not be blank''"

definition continuation_parse :: "string \<Rightarrow> invalid_continuation_id + continuation_id" where
  "continuation_parse value = (if is_blank value then Inl InvalidContinuationId else Inr (ContinuationId value))"

text \<open>A \<open>debug_tuple\<close> rendering: the name and the rendered fields.\<close>

type_synonym debug_tuple = "string \<times> string list"

definition continuation_id_debug :: "continuation_id \<Rightarrow> debug_tuple" where
  "continuation_id_debug i = (''ContinuationId'', [''..''])"

datatype scope = SessionScope string | PrincipalScope string

definition scope_debug :: "scope \<Rightarrow> debug_tuple" where
  "scope_debug s = (case s of SessionScope _ \<Rightarrow> ''Session'' | PrincipalScope _ \<Rightarrow> ''Principal'', [''..''])"

datatype continuation_error = Backend string

fun continuation_error_display :: "continuation_error \<Rightarrow> string" where
  "continuation_error_display (Backend detail) = ''continuation store backend failed: '' @ detail"

section \<open>The store\<close>

definition default_capacity :: nat where
  "default_capacity = 4096"

record store_entry =
  se_scope :: scope
  se_session :: session_handle

record memory_store =
  ms_capacity :: nat
  ms_entries :: "(continuation_id \<times> store_entry) list"
  ms_order :: "continuation_id list"

text \<open>\<open>assert!(capacity > 0)\<close>: \<open>None\<close> is the panic.\<close>

definition store_with_capacity :: "nat \<Rightarrow> memory_store option" where
  "store_with_capacity capacity =
     (if 0 < capacity then Some \<lparr>ms_capacity = capacity, ms_entries = [], ms_order = []\<rparr> else None)"

definition store_new :: "memory_store option" where
  "store_new = store_with_capacity default_capacity"

definition store_len :: "memory_store \<Rightarrow> nat" where
  "store_len st = length (ms_entries st)"

definition store_debug :: "memory_store \<Rightarrow> debug_struct" where
  "store_debug st =
     (''InMemoryContinuationStore'', [(''capacity'', show_nat (ms_capacity st)), (''retained'', show_nat (store_len st))])"

text \<open>The eviction loop: the oldest name is dropped while too many are retained.\<close>

fun evict ::
  "nat \<Rightarrow> (continuation_id \<times> store_entry) list \<Rightarrow> continuation_id list
     \<Rightarrow> (continuation_id \<times> store_entry) list \<times> continuation_id list" where
  "evict capacity entries [] = (entries, [])"
| "evict capacity entries (oldest # order) =
     (if capacity < length entries then evict capacity (AList.delete oldest entries) order
      else (entries, oldest # order))"

definition store_mint :: "string \<Rightarrow> session_handle \<Rightarrow> scope \<Rightarrow> memory_store \<Rightarrow> continuation_id \<times> memory_store" where
  "store_mint uuid session scope st =
     (let i = continuation_generate uuid;
          entries = AList.update i \<lparr>se_scope = scope, se_session = session\<rparr> (ms_entries st);
          order = ms_order st @ [i];
          (entries', order') = evict (ms_capacity st) entries order
      in (i, st\<lparr>ms_entries := entries', ms_order := order'\<rparr>))"

definition store_resolve :: "continuation_id \<Rightarrow> scope \<Rightarrow> memory_store \<Rightarrow> session_handle option" where
  "store_resolve i scope st =
     (case map_of (ms_entries st) i of
        None \<Rightarrow> None
      | Some entry \<Rightarrow> if se_scope entry = scope then Some (se_session entry) else None)"

definition store_forget_scope :: "scope \<Rightarrow> memory_store \<Rightarrow> memory_store" where
  "store_forget_scope scope st =
     (let entries = filter (\<lambda>(_, entry). se_scope entry \<noteq> scope) (ms_entries st);
          retained = map fst entries
      in st\<lparr>ms_entries := entries, ms_order := filter (\<lambda>i. i \<in> set retained) (ms_order st)\<rparr>)"

section \<open>The contract of a store\<close>

text \<open>
  What the adapter relies on: a minted name resolves in its scope, minting grants nothing else,
  and forgetting a scope revokes exactly that scope. A host's store may fail and may change state
  when it resolves.
\<close>

record 'st store_ops =
  op_mint :: "session_handle \<Rightarrow> scope \<Rightarrow> 'st \<Rightarrow> (continuation_error + continuation_id) \<times> 'st"
  op_resolve :: "continuation_id \<Rightarrow> scope \<Rightarrow> 'st \<Rightarrow> (continuation_error + session_handle option) \<times> 'st"
  op_forget :: "scope \<Rightarrow> 'st \<Rightarrow> 'st"

text \<open>The session that a name gives in a scope.\<close>

definition names :: "'st store_ops \<Rightarrow> 'st \<Rightarrow> continuation_id \<Rightarrow> scope \<Rightarrow> session_handle \<Rightarrow> bool" where
  "names ops st i scope session \<longleftrightarrow> fst (op_resolve ops i scope st) = Inr (Some session)"

locale continuation_store =
  fixes ops :: "'st store_ops"
    and store_inv :: "'st \<Rightarrow> bool"
  assumes mint_inv: "store_inv st \<Longrightarrow> store_inv (snd (op_mint ops s sc st))"
    and resolve_inv: "store_inv st \<Longrightarrow> store_inv (snd (op_resolve ops i sc st))"
    and forget_inv: "store_inv st \<Longrightarrow> store_inv (op_forget ops sc st)"
    and mint_names: "store_inv st \<Longrightarrow> op_mint ops s sc st = (Inr i, st') \<Longrightarrow> names ops st' i sc s"
    and mint_grants: "store_inv st \<Longrightarrow> names ops (snd (op_mint ops s sc st)) i sc' s'
          \<Longrightarrow> (sc' = sc \<and> s' = s) \<or> names ops st i sc' s'"
    and resolve_grants: "store_inv st \<Longrightarrow> names ops (snd (op_resolve ops j sc0 st)) i sc s \<Longrightarrow> names ops st i sc s"
    and forget_revokes: "store_inv st \<Longrightarrow> \<not> names ops (op_forget ops sc st) i sc s"
    and forget_grants: "store_inv st \<Longrightarrow> names ops (op_forget ops sc st) i sc' s \<Longrightarrow> names ops st i sc' s"

text \<open>The in-process store behind the trait; the supply of random identifiers is part of its state.\<close>

definition memory_ops :: "(nat \<Rightarrow> string) \<Rightarrow> (nat \<times> memory_store) store_ops" where
  "memory_ops uuids =
     \<lparr>op_mint = (\<lambda>session scope (n, st).
        let (i, st') = store_mint (uuids n) session scope st in (Inr i, (Suc n, st'))),
      op_resolve = (\<lambda>i scope (n, st). (Inr (store_resolve i scope st), (n, st))),
      op_forget = (\<lambda>scope (n, st). (n, store_forget_scope scope st))\<rparr>"

section \<open>Lemmas\<close>

text \<open>What every operation keeps, whatever identifiers are drawn.\<close>

definition store_bounded :: "memory_store \<Rightarrow> bool" where
  "store_bounded st \<longleftrightarrow>
     0 < ms_capacity st \<and> length (ms_entries st) \<le> ms_capacity st
     \<and> distinct (map fst (ms_entries st)) \<and> fst ` set (ms_entries st) \<subseteq> set (ms_order st)"

lemma delete_key_set: "fst ` set (AList.delete k al) = fst ` set al - {k}"
  using arg_cong [OF delete_keys [of k al], of set] by (simp only: set_map set_removeAll)

lemma update_key_set: "fst ` set (AList.update k v al) = insert k (fst ` set al)"
  using arg_cong [OF update_keys [of k v al], of set] by (auto split: if_splits)

lemma evict_bound:
  assumes "fst ` set entries \<subseteq> set order" and "distinct (map fst entries)"
  shows "length (fst (evict n entries order)) \<le> n \<and> distinct (map fst (fst (evict n entries order)))
     \<and> fst ` set (fst (evict n entries order)) \<subseteq> set (snd (evict n entries order))"
  using assms
proof (induction n entries order rule: evict.induct)
  case (1 n entries)
  then show ?case by simp
next
  case (2 n entries x order)
  show ?case
  proof (cases "n < length entries")
    case True
    with 2 show ?thesis
      by (auto simp: delete_key_set distinct_delete)
  next
    case False
    with 2 show ?thesis by simp
  qed
qed

text \<open>Eviction removes entries and changes none.\<close>

lemma evict_sub: "map_of (fst (evict n entries order)) i = Some e \<Longrightarrow> map_of entries i = Some e"
  by (induction n entries order rule: evict.induct) (auto simp: delete_conv' split: if_splits)

lemma store_bounded_mint: "store_bounded st \<Longrightarrow> store_bounded (snd (store_mint uuid s sc st))"
proof -
  assume inv: "store_bounded st"
  let ?i = "continuation_generate uuid"
  let ?es = "AList.update ?i \<lparr>se_scope = sc, se_session = s\<rparr> (ms_entries st)"
  let ?r = "evict (ms_capacity st) ?es (ms_order st @ [?i])"
  have "length (fst ?r) \<le> ms_capacity st \<and> distinct (map fst (fst ?r)) \<and> fst ` set (fst ?r) \<subseteq> set (snd ?r)"
    by (rule evict_bound) (use inv in \<open>auto simp: store_bounded_def update_key_set distinct_update\<close>)
  then show ?thesis
    using inv by (simp add: store_bounded_def store_mint_def Let_def split_beta)
qed

lemma store_bounded_forget: "store_bounded st \<Longrightarrow> store_bounded (store_forget_scope sc st)"
  by (auto simp: store_bounded_def store_forget_scope_def Let_def distinct_map_filter
      intro: order_trans [OF length_filter_le])

text \<open>Whatever is resolvable after an operation was just minted or was resolvable before.\<close>

lemma store_resolve_mint:
  "store_resolve i sc' (snd (store_mint uuid s sc st)) = Some s'
     \<Longrightarrow> (i = continuation_generate uuid \<and> sc' = sc \<and> s' = s) \<or> store_resolve i sc' st = Some s'"
proof -
  let ?j = "continuation_generate uuid"
  let ?es = "AList.update ?j \<lparr>se_scope = sc, se_session = s\<rparr> (ms_entries st)"
  assume "store_resolve i sc' (snd (store_mint uuid s sc st)) = Some s'"
  then obtain e where e: "map_of (fst (evict (ms_capacity st) ?es (ms_order st @ [?j]))) i = Some e"
    and found: "se_scope e = sc'" "se_session e = s'"
    by (auto simp: store_resolve_def store_mint_def Let_def split_beta split: option.splits if_splits)
  from evict_sub [OF e] have "((map_of (ms_entries st))(?j \<mapsto> \<lparr>se_scope = sc, se_session = s\<rparr>)) i = Some e"
    by (simp add: update_conv')
  with found show ?thesis
    by (auto simp: store_resolve_def split: if_splits)
qed

lemma map_of_filter_value:
  "distinct (map fst al) \<Longrightarrow> map_of (filter (\<lambda>(_, e). P e) al) i = (case map_of al i of Some e \<Rightarrow> if P e then Some e else None | None \<Rightarrow> None)"
proof (induction al)
  case Nil
  then show ?case by simp
next
  case (Cons a al)
  obtain k v where a: "a = (k, v)" by (cases a)
  show ?case
  proof (cases "k = i")
    case True
    with Cons.prems a have "map_of al i = None" by (simp add: map_of_eq_None_iff)
    with Cons a True show ?thesis by simp
  qed (use Cons a in simp)
qed

lemma store_resolve_forget:
  "store_bounded st \<Longrightarrow> store_resolve i sc' (store_forget_scope sc st) = (if sc' = sc then None else store_resolve i sc' st)"
  by (auto simp: store_bounded_def store_resolve_def store_forget_scope_def Let_def map_of_filter_value split: option.split)

section \<open>The abstract store: a bounded queue of names\<close>

type_synonym store_queue = "(continuation_id \<times> store_entry) list"

definition queue_mint :: "nat \<Rightarrow> continuation_id \<Rightarrow> store_entry \<Rightarrow> store_queue \<Rightarrow> store_queue" where
  "queue_mint capacity i e q = drop (Suc (length q) - capacity) (q @ [(i, e)])"

definition queue_forget :: "scope \<Rightarrow> store_queue \<Rightarrow> store_queue" where
  "queue_forget scope q = filter (\<lambda>(_, e). se_scope e \<noteq> scope) q"

definition queue_of :: "memory_store \<Rightarrow> store_queue" where
  "queue_of st = map (\<lambda>i. (i, the (map_of (ms_entries st) i))) (ms_order st)"

definition store_wf :: "memory_store \<Rightarrow> bool" where
  "store_wf st \<longleftrightarrow> store_bounded st \<and> distinct (ms_order st) \<and> set (ms_order st) = fst ` set (ms_entries st)"

lemma keys_length:
  assumes "distinct order" and "distinct (map fst entries)" and "set order = fst ` set entries"
  shows "length order = length entries"
  using distinct_card [OF assms(1)] distinct_card [OF assms(2)] assms(3) by simp

text \<open>On a well-formed store the loop drops exactly the oldest surplus names.\<close>

lemma evict_oldest:
  assumes "distinct order" and "distinct (map fst entries)" and "set order = fst ` set entries"
  shows "snd (evict n entries order) = drop (length order - n) order
     \<and> set (snd (evict n entries order)) = fst ` set (fst (evict n entries order))
     \<and> (\<forall>i \<in> set (snd (evict n entries order)). map_of (fst (evict n entries order)) i = map_of entries i)"
  using assms
proof (induction n entries order rule: evict.induct)
  case (1 n entries)
  then show ?case by simp
next
  case (2 n entries x order)
  note len = keys_length [OF 2(2-4)]
  show ?case
  proof (cases "n < length entries")
    case True
    let ?r = "evict n (AList.delete x entries) order"
    have IH: "snd ?r = drop (length order - n) order \<and> set (snd ?r) = fst ` set (fst ?r)
        \<and> (\<forall>i \<in> set (snd ?r). map_of (fst ?r) i = map_of (AList.delete x entries) i)"
      by (rule 2(1) [OF True]) (use 2(2-4) in \<open>auto simp: delete_key_set distinct_delete\<close>)
    have "x \<notin> set (snd ?r)" using IH 2(2) by (auto dest: in_set_dropD)
    then have "\<forall>i \<in> set (snd ?r). map_of (AList.delete x entries) i = map_of entries i"
      by (auto simp: delete_conv')
    moreover have "length (x # order) - n = Suc (length order - n)"
      using True len by simp
    moreover have "evict n entries (x # order) = ?r"
      using True by simp
    ultimately show ?thesis using IH by (metis drop_Suc_Cons)
  next
    case False
    with 2 len show ?thesis by simp
  qed
qed

definition mint_entry :: "session_handle \<Rightarrow> scope \<Rightarrow> store_entry" where
  "mint_entry s sc = \<lparr>se_scope = sc, se_session = s\<rparr>"

lemma store_mint_capacity [simp]: "ms_capacity (snd (store_mint uuid s sc st)) = ms_capacity st"
  by (simp add: store_mint_def Let_def split_beta)

lemma store_forget_capacity [simp]: "ms_capacity (store_forget_scope sc st) = ms_capacity st"
  by (simp add: store_forget_scope_def Let_def)

lemma store_mint_fresh:
  assumes wf: "store_wf st" and fresh: "continuation_generate uuid \<notin> set (ms_order st)"
  shows "store_wf (snd (store_mint uuid s sc st))"
    and "queue_of (snd (store_mint uuid s sc st)) =
          queue_mint (ms_capacity st) (continuation_generate uuid) (mint_entry s sc) (queue_of st)"
    and "set (ms_order (snd (store_mint uuid s sc st))) \<subseteq> insert (continuation_generate uuid) (set (ms_order st))"
proof -
  let ?i = "continuation_generate uuid"
  let ?es = "AList.update ?i (mint_entry s sc) (ms_entries st)"
  let ?order = "ms_order st @ [?i]"
  let ?r = "evict (ms_capacity st) ?es ?order"
  let ?st = "snd (store_mint uuid s sc st)"
  have st: "?st = st\<lparr>ms_entries := fst ?r, ms_order := snd ?r\<rparr>"
    by (simp add: store_mint_def Let_def split_beta mint_entry_def)
  have "distinct ?order" "distinct (map fst ?es)" "set ?order = fst ` set ?es"
    using wf fresh by (auto simp: store_wf_def store_bounded_def update_key_set distinct_update)
  note r = evict_oldest [OF this, of "ms_capacity st"]
  have "distinct (snd ?r)" using conjunct1 [OF r] \<open>distinct ?order\<close> by (metis distinct_drop)
  moreover have "ms_order ?st = snd ?r" "ms_entries ?st = fst ?r" by (simp_all add: st)
  moreover have "store_bounded ?st" using wf by (simp add: store_wf_def store_bounded_mint)
  ultimately show "store_wf ?st"
    using r by (metis store_wf_def)
  show "set (ms_order ?st) \<subseteq> insert ?i (set (ms_order st))"
    using r by (auto simp: st dest: in_set_dropD)
  have "queue_of ?st = map (\<lambda>i. (i, the (map_of ?es i))) (drop (length ?order - ms_capacity st) ?order)"
    using r by (simp add: queue_of_def st)
  also have "\<dots> = drop (length ?order - ms_capacity st) (map (\<lambda>i. (i, the (map_of ?es i))) ?order)"
    by (simp only: drop_map)
  also have "map (\<lambda>i. (i, the (map_of ?es i))) ?order = queue_of st @ [(?i, mint_entry s sc)]"
    using fresh by (auto simp: queue_of_def update_conv')
  finally show "queue_of ?st = queue_mint (ms_capacity st) ?i (mint_entry s sc) (queue_of st)"
    by (simp add: queue_mint_def queue_of_def)
qed

lemma store_forget_wf:
  assumes wf: "store_wf st"
  shows "store_wf (store_forget_scope sc st)"
    and "queue_of (store_forget_scope sc st) = queue_forget sc (queue_of st)"
    and "set (ms_order (store_forget_scope sc st)) \<subseteq> set (ms_order st)"
proof -
  let ?es = "filter (\<lambda>(_, e). se_scope e \<noteq> sc) (ms_entries st)"
  have d: "distinct (map fst (ms_entries st))" and keys: "set (ms_order st) = fst ` set (ms_entries st)"
    using wf by (auto simp: store_wf_def store_bounded_def)
  have st: "store_forget_scope sc st = st\<lparr>ms_entries := ?es, ms_order := filter (\<lambda>i. i \<in> fst ` set ?es) (ms_order st)\<rparr>"
    by (simp add: store_forget_scope_def Let_def)
  have kept: "i \<in> fst ` set ?es \<longleftrightarrow> se_scope (the (map_of (ms_entries st) i)) \<noteq> sc"
    and same: "i \<in> fst ` set ?es \<Longrightarrow> map_of ?es i = map_of (ms_entries st) i"
    if "i \<in> set (ms_order st)" for i
  proof -
    from that keys have "i \<in> dom (map_of (ms_entries st))" by (simp add: dom_map_of_conv_image_fst)
    then obtain e where e: "map_of (ms_entries st) i = Some e" by blast
    have "map_of ?es i = (if se_scope e \<noteq> sc then Some e else None)"
      by (simp add: map_of_filter_value [OF d] e)
    moreover have "i \<in> fst ` set ?es \<longleftrightarrow> map_of ?es i \<noteq> None"
      by (metis domIff dom_map_of_conv_image_fst)
    ultimately show "i \<in> fst ` set ?es \<longleftrightarrow> se_scope (the (map_of (ms_entries st) i)) \<noteq> sc"
      and "i \<in> fst ` set ?es \<Longrightarrow> map_of ?es i = map_of (ms_entries st) i"
      using e by auto
  qed
  show "store_wf (store_forget_scope sc st)"
    using wf store_bounded_forget [of st sc] by (auto simp: store_wf_def st)
  show "set (ms_order (store_forget_scope sc st)) \<subseteq> set (ms_order st)"
    by (auto simp: st)
  have "queue_forget sc (queue_of st) =
      map (\<lambda>i. (i, the (map_of (ms_entries st) i)))
        (filter (\<lambda>i. se_scope (the (map_of (ms_entries st) i)) \<noteq> sc) (ms_order st))"
    by (simp add: queue_forget_def queue_of_def filter_map comp_def)
  also have "filter (\<lambda>i. se_scope (the (map_of (ms_entries st) i)) \<noteq> sc) (ms_order st)
      = filter (\<lambda>i. i \<in> fst ` set ?es) (ms_order st)"
    by (rule filter_cong [OF refl], rule kept [symmetric])
  also have "map (\<lambda>i. (i, the (map_of (ms_entries st) i))) \<dots> = map (\<lambda>i. (i, the (map_of ?es i))) \<dots>"
    by (rule map_cong [OF refl]) (simp only: set_filter mem_Collect_eq prod.inject simp_thms same)
  finally show "queue_of (store_forget_scope sc st) = queue_forget sc (queue_of st)"
    by (simp add: queue_of_def st)
qed

lemma store_resolve_queue:
  assumes "store_wf st"
  shows "store_resolve i sc st =
     (case map_of (queue_of st) i of None \<Rightarrow> None | Some e \<Rightarrow> if se_scope e = sc then Some (se_session e) else None)"
proof -
  have "map_of (queue_of st) i = map_of (ms_entries st) i"
  proof (cases "i \<in> set (ms_order st)")
    case True
    with assms have "map_of (ms_entries st) i \<noteq> None"
      by (simp add: store_wf_def map_of_eq_None_iff)
    with True show ?thesis
      using assms by (auto simp: queue_of_def map_of_map_keys store_wf_def restrict_map_def map_of_map_restrict)
  next
    case False
    with assms have "i \<notin> fst ` set (ms_entries st)" by (simp add: store_wf_def)
    with False have "map_of (ms_entries st) i = None" "map_of (queue_of st) i = None"
      by (auto simp only: map_of_eq_None_iff queue_of_def map_map comp_def fst_conv set_map image_ident)
    then show ?thesis by simp
  qed
  then show ?thesis by (simp add: store_resolve_def)
qed

section \<open>The in-process store keeps the contract\<close>

definition memory_inv :: "(nat \<Rightarrow> string) \<Rightarrow> nat \<times> memory_store \<Rightarrow> bool" where
  "memory_inv uuids p \<longleftrightarrow> store_wf (snd p) \<and> inj uuids
     \<and> set (ms_order (snd p)) \<subseteq> (\<lambda>n. continuation_generate (uuids n)) ` {..<fst p}"

lemma memory_inv_fresh:
  assumes "memory_inv uuids (n, st)"
  shows "continuation_generate (uuids n) \<notin> set (ms_order st)"
proof
  assume "continuation_generate (uuids n) \<in> set (ms_order st)"
  with assms obtain m where "m < n" and "uuids n = uuids m"
    by (auto simp: memory_inv_def continuation_generate_def)
  with assms show False by (auto simp: memory_inv_def dest: injD)
qed

lemma queue_mint_last: "0 < n \<Longrightarrow> \<exists>q'. queue_mint n i e q = q' @ [(i, e)]"
  by (simp add: queue_mint_def drop_Cons' Suc_diff_le)

lemma map_of_last: "i \<notin> fst ` set q \<Longrightarrow> map_of (q @ (i, e) # r) i = Some e"
  by (simp add: map_add_def map_of_eq_None_iff [THEN iffD2])

interpretation memory: continuation_store "memory_ops uuids" "memory_inv uuids"
proof (unfold_locales, goal_cases)
  case (1 st s sc)
  obtain n m where p: "st = (n, m)" by (cases st)
  with 1 have inv: "memory_inv uuids (n, m)" by simp
  note fresh = store_mint_fresh [OF _ memory_inv_fresh [OF inv], of s sc]
  have "set (ms_order (snd (store_mint (uuids n) s sc m))) \<subseteq> (\<lambda>k. continuation_generate (uuids k)) ` {..<Suc n}"
    using fresh(3) inv by (fastforce simp: memory_inv_def)
  with fresh(1) inv show ?case
    by (simp add: p memory_ops_def memory_inv_def split_beta)
next
  case (2 st i sc)
  then show ?case by (cases st) (simp add: memory_ops_def)
next
  case (3 st sc)
  then show ?case
    using store_forget_wf [of "snd st" sc] by (cases st) (auto simp: memory_ops_def memory_inv_def)
next
  case (4 st s sc i st')
  obtain n m where p: "st = (n, m)" by (cases st)
  with 4 have inv: "memory_inv uuids (n, m)" by simp
  let ?m = "snd (store_mint (uuids n) s sc m)"
  note fresh = store_mint_fresh [OF _ memory_inv_fresh [OF inv], of s sc]
  have wf: "store_wf m" using inv by (simp add: memory_inv_def)
  obtain q where q: "queue_of ?m = q @ [(continuation_generate (uuids n), mint_entry s sc)]"
    using fresh(2) wf queue_mint_last by (metis store_bounded_def store_wf_def)
  have "distinct (map fst (queue_of ?m))"
    using fresh(1) [OF wf] by (simp add: store_wf_def queue_of_def comp_def)
  with q have "continuation_generate (uuids n) \<notin> fst ` set q" by simp
  then have "map_of (queue_of ?m) (continuation_generate (uuids n)) = Some (mint_entry s sc)"
    unfolding q by (rule map_of_last)
  then have "store_resolve (continuation_generate (uuids n)) sc ?m = Some s"
    using store_resolve_queue [OF fresh(1) [OF wf]] by (simp add: mint_entry_def)
  with 4 show ?case
    by (auto simp: p memory_ops_def names_def split_beta store_mint_def Let_def)
next
  case (5 st s sc i sc' s')
  then show ?case
    using store_resolve_mint [of i sc' "uuids (fst st)" s sc "snd st" s']
    by (cases st) (auto simp: memory_ops_def names_def split_beta)
next
  case (6 st j sc0 i sc s)
  then show ?case by (cases st) (simp add: memory_ops_def names_def)
next
  case (7 st sc i s)
  then show ?case
    by (cases st) (simp add: memory_ops_def names_def memory_inv_def store_wf_def store_resolve_forget)
next
  case (8 st sc i sc' s)
  then show ?case
    by (cases st) (simp add: memory_ops_def names_def memory_inv_def store_wf_def store_resolve_forget split: if_splits)
qed

section \<open>Histories\<close>

text \<open>\<open>resolve\<close> changes nothing, so a history is its calls of \<open>mint\<close>, each with the identifier drawn, and of \<open>forget_scope\<close>.\<close>

datatype store_call = MintCall string session_handle scope | ForgetCall scope

fun store_step :: "memory_store \<Rightarrow> store_call \<Rightarrow> memory_store" where
  "store_step st (MintCall uuid s sc) = snd (store_mint uuid s sc st)"
| "store_step st (ForgetCall sc) = store_forget_scope sc st"

definition store_run :: "memory_store \<Rightarrow> store_call list \<Rightarrow> memory_store" where
  "store_run st calls = foldl store_step st calls"

definition minted_uuids :: "store_call list \<Rightarrow> string list" where
  "minted_uuids calls = List.map_filter (\<lambda>c. case c of MintCall uuid _ _ \<Rightarrow> Some uuid | ForgetCall _ \<Rightarrow> None) calls"

lemma minted_uuids_simps [simp]:
  "minted_uuids [] = []"
  "minted_uuids (MintCall u s sc # calls) = u # minted_uuids calls"
  "minted_uuids (ForgetCall sc # calls) = minted_uuids calls"
  "minted_uuids (xs @ ys) = minted_uuids xs @ minted_uuids ys"
  by (simp_all add: minted_uuids_def List.map_filter_def)

lemma store_run_simps [simp]:
  "store_run st [] = st"
  "store_run st (c # calls) = store_run (store_step st c) calls"
  "store_run st (xs @ ys) = store_run (store_run st xs) ys"
  by (simp_all add: store_run_def)

lemma store_step_bounded: "store_bounded st \<Longrightarrow> store_bounded (store_step st c) \<and> ms_capacity (store_step st c) = ms_capacity st"
  by (cases c) (simp_all add: store_bounded_mint store_bounded_forget)

lemma store_run_bounded: "store_bounded st \<Longrightarrow> store_bounded (store_run st calls) \<and> ms_capacity (store_run st calls) = ms_capacity st"
  by (induction calls arbitrary: st) (auto simp: store_step_bounded)

definition granted_by :: "store_call list \<Rightarrow> continuation_id \<Rightarrow> scope \<Rightarrow> session_handle \<Rightarrow> bool" where
  "granted_by calls i sc s \<longleftrightarrow>
     (\<exists>uuid pre post. calls = pre @ MintCall uuid s sc # post \<and> i = continuation_generate uuid \<and> ForgetCall sc \<notin> set post)"

lemma granted_by_snoc: "granted_by calls i sc s \<Longrightarrow> c \<noteq> ForgetCall sc \<Longrightarrow> granted_by (calls @ [c]) i sc s"
  unfolding granted_by_def by fastforce

lemma store_run_granted:
  assumes "store_bounded st" and "ms_entries st = []"
  shows "store_resolve i sc (store_run st calls) = Some s \<Longrightarrow> granted_by calls i sc s"
proof (induction calls rule: rev_induct)
  case Nil
  with assms show ?case by (simp add: store_resolve_def)
next
  case (snoc c calls)
  have inv: "store_bounded (store_run st calls)" using assms store_run_bounded by blast
  show ?case
  proof (cases c)
    case (MintCall uuid s0 sc0)
    with snoc.prems have either: "(i = continuation_generate uuid \<and> sc = sc0 \<and> s = s0) \<or> store_resolve i sc (store_run st calls) = Some s"
      by (simp add: store_resolve_mint)
    show ?thesis
    proof (cases "store_resolve i sc (store_run st calls) = Some s")
      case True
      then have "granted_by calls i sc s" by (rule snoc.IH)
      then show ?thesis by (rule granted_by_snoc) (simp add: MintCall)
    next
      case False
      with either have "i = continuation_generate uuid" "sc = sc0" "s = s0" by simp_all
      then show ?thesis
        unfolding granted_by_def MintCall by (intro exI [of _ uuid] exI [of _ calls] exI [of _ "[]"]) simp
    qed
  next
    case (ForgetCall sc0)
    with snoc.prems inv have "sc \<noteq> sc0" and "store_resolve i sc (store_run st calls) = Some s"
      by (auto simp: store_resolve_forget split: if_splits)
    then have "granted_by calls i sc s" by (intro snoc.IH)
    then show ?thesis by (rule granted_by_snoc) (simp add: ForgetCall \<open>sc \<noteq> sc0\<close> [symmetric])
  qed
qed

text \<open>A name with room behind it in the queue stays until enough newer names push it out.\<close>

lemma queue_mint_keeps:
  assumes "Suc (length b) < n"
  shows "\<exists>a'. queue_mint n j e' (a @ (i, e) # b) = a' @ (i, e) # (b @ [(j, e')])"
proof -
  let ?q = "a @ (i, e) # (b @ [(j, e')])"
  have "length ?q - n \<le> length a" using assms by simp
  then have "drop (length ?q - n) ?q = drop (length ?q - n) a @ (i, e) # (b @ [(j, e')])" by simp
  then show ?thesis by (auto simp: queue_mint_def)
qed

lemma disjoint_grown: "x \<notin> A \<Longrightarrow> X \<subseteq> insert x Y \<Longrightarrow> A \<inter> Y = {} \<Longrightarrow> A \<inter> X = {}"
  by blast

lemma store_run_retained:
  assumes "store_wf st" and "queue_of st = a @ (i, e) # b"
    and "distinct (minted_uuids calls)"
    and "continuation_generate ` set (minted_uuids calls) \<inter> set (ms_order st) = {}"
    and "ForgetCall (se_scope e) \<notin> set calls"
    and "length b + length (minted_uuids calls) < ms_capacity st"
  shows "\<exists>a b. store_wf (store_run st calls) \<and> queue_of (store_run st calls) = a @ (i, e) # b"
  using assms
proof (induction calls arbitrary: st a b)
  case Nil
  then show ?case by auto
next
  case (Cons c calls)
  show ?case
  proof (cases c)
    case (MintCall uuid s sc)
    let ?st = "snd (store_mint uuid s sc st)"
    have new: "continuation_generate uuid \<notin> set (ms_order st)" using Cons.prems MintCall by simp
    note fresh = store_mint_fresh [OF Cons.prems(1) new, of s sc]
    have "Suc (length b) < ms_capacity st" using Cons.prems(6) MintCall by simp
    from queue_mint_keeps [OF this] fresh(2)
    obtain a' where q: "queue_of ?st = a' @ (i, e) # (b @ [(continuation_generate uuid, mint_entry s sc)])"
      by (metis Cons.prems(2))
    have "continuation_generate uuid \<notin> continuation_generate ` set (minted_uuids calls)"
      using Cons.prems(3) MintCall by (auto simp: continuation_generate_def)
    then have "continuation_generate ` set (minted_uuids calls) \<inter> set (ms_order ?st) = {}"
      by (rule disjoint_grown [OF _ fresh(3)]) (use Cons.prems(4) MintCall in simp)
    then show ?thesis
      using Cons.IH [OF fresh(1) q] Cons.prems MintCall by simp
  next
    case (ForgetCall sc)
    let ?st = "store_forget_scope sc st"
    note kept = store_forget_wf [OF Cons.prems(1), of sc]
    have "sc \<noteq> se_scope e" using Cons.prems(5) ForgetCall by auto
    then have q: "queue_of ?st = queue_forget sc a @ (i, e) # queue_forget sc b"
      using kept(2) Cons.prems(2) by (simp add: queue_forget_def)
    have "length (queue_forget sc b) \<le> length b" by (simp add: queue_forget_def)
    then show ?thesis
      using Cons.IH [OF kept(1) q] Cons.prems ForgetCall kept(3) by auto
  qed
qed

lemma fresh_uuids_wf:
  assumes "store_wf st" and "distinct (minted_uuids calls)"
    and "continuation_generate ` set (minted_uuids calls) \<inter> set (ms_order st) = {}"
  shows "store_wf (store_run st calls) \<and> ms_capacity (store_run st calls) = ms_capacity st
     \<and> set (ms_order (store_run st calls)) \<subseteq> set (ms_order st) \<union> continuation_generate ` set (minted_uuids calls)"
  using assms
proof (induction calls arbitrary: st)
  case Nil
  then show ?case by simp
next
  case (Cons c calls)
  show ?case
  proof (cases c)
    case (MintCall uuid s sc)
    have new: "continuation_generate uuid \<notin> set (ms_order st)" using Cons.prems MintCall by simp
    note fresh = store_mint_fresh [OF Cons.prems(1) new, of s sc]
    have "continuation_generate uuid \<notin> continuation_generate ` set (minted_uuids calls)"
      using Cons.prems(2) MintCall by (auto simp: continuation_generate_def)
    then have "continuation_generate ` set (minted_uuids calls) \<inter> set (ms_order (snd (store_mint uuid s sc st))) = {}"
      by (rule disjoint_grown [OF _ fresh(3)]) (use Cons.prems(3) MintCall in simp)
    then show ?thesis
      using Cons.IH [OF fresh(1)] Cons.prems(2) MintCall fresh(3) by auto
  next
    case (ForgetCall sc)
    note kept = store_forget_wf [OF Cons.prems(1), of sc]
    have "continuation_generate ` set (minted_uuids calls) \<inter> set (ms_order (store_forget_scope sc st)) = {}"
      using kept(3) Cons.prems(3) ForgetCall by auto
    then show ?thesis
      using Cons.IH [OF kept(1)] Cons.prems(2) ForgetCall kept(3) by auto
  qed
qed

lemma store_with_capacity_Some:
  "store_with_capacity n = Some st \<Longrightarrow> store_wf st \<and> store_bounded st \<and> ms_entries st = [] \<and> ms_order st = [] \<and> ms_capacity st = n"
  by (auto simp: store_with_capacity_def store_wf_def store_bounded_def split: if_splits)

section \<open>Properties\<close>

text \<open>C24: whatever happened to a store, it never retains more than its capacity, and a name resolves in a scope only
  to a session that was minted under this name in this very scope and whose scope was not forgotten
  since. Nothing is assumed about the identifiers drawn.\<close>

theorem continuation_scope_enforced:
  assumes "store_with_capacity capacity = Some st"
  shows "store_len (store_run st calls) \<le> capacity
     \<and> (store_resolve i sc (store_run st calls) = Some s \<longrightarrow> granted_by calls i sc s)"
proof -
  have st: "store_bounded st" "ms_entries st = []" "ms_capacity st = capacity"
    using store_with_capacity_Some [OF assms] by simp_all
  then show ?thesis
    using store_run_bounded [OF st(1), of calls] store_run_granted [OF st(1,2)]
    by (auto simp: store_bounded_def store_len_def)
qed

definition sample_calls :: "store_call list" where
  "sample_calls =
     [MintCall ''a'' (session_handle_new ''claude'' ''1'') (SessionScope ''x''),
      MintCall ''b'' (session_handle_new ''codex'' ''2'') (SessionScope ''y''),
      ForgetCall (SessionScope ''x''),
      MintCall ''c'' (session_handle_new ''codex'' ''3'') (PrincipalScope ''y'')]"

theorem continuation_scope_enforced_witness:
  "\<exists>st. store_with_capacity 2 = Some st \<and> store_len (store_run st sample_calls) = 2
     \<and> granted_by sample_calls (ContinuationId ''c'') (PrincipalScope ''y'') (session_handle_new ''codex'' ''3'')
     \<and> store_resolve (ContinuationId ''c'') (SessionScope ''y'') (store_run st sample_calls) = None"
proof -
  obtain st where st: "store_with_capacity 2 = Some st" by (simp add: store_with_capacity_def)
  then have eq: "st = \<lparr>ms_capacity = 2, ms_entries = [], ms_order = []\<rparr>" by (simp add: store_with_capacity_def)
  have "store_resolve (ContinuationId ''c'') (PrincipalScope ''y'') (store_run st sample_calls)
      = Some (session_handle_new ''codex'' ''3'')"
    and "store_len (store_run st sample_calls) = 2"
    and "store_resolve (ContinuationId ''c'') (SessionScope ''y'') (store_run st sample_calls) = None"
    unfolding eq by code_simp+
  with st continuation_scope_enforced [OF st] show ?thesis by blast
qed

text \<open>C25: the in-process store refines a bounded queue of names: with an identifier not yet in use, minting appends
  the name and drops only the oldest beyond the capacity, forgetting filters out the scope, and
  resolving looks the name up and checks its scope.\<close>

theorem store_refines_queue:
  assumes "store_wf st" and "continuation_generate uuid \<notin> set (ms_order st)"
  shows "store_wf (snd (store_mint uuid s sc st))
     \<and> queue_of (snd (store_mint uuid s sc st)) =
         queue_mint (ms_capacity st) (continuation_generate uuid) (mint_entry s sc) (queue_of st)
     \<and> store_wf (store_forget_scope sc st) \<and> queue_of (store_forget_scope sc st) = queue_forget sc (queue_of st)
     \<and> store_resolve i sc st =
         (case map_of (queue_of st) i of None \<Rightarrow> None | Some e \<Rightarrow> if se_scope e = sc then Some (se_session e) else None)"
  using store_mint_fresh [OF assms] store_forget_wf [OF assms(1)] store_resolve_queue [OF assms(1)] by simp

theorem store_refines_queue_witness:
  "\<exists>st. store_with_capacity 1 = Some st
     \<and> queue_of (snd (store_mint ''a'' (session_handle_new ''codex'' ''1'') (SessionScope ''x'') st)) =
         queue_mint 1 (ContinuationId ''a'') (mint_entry (session_handle_new ''codex'' ''1'') (SessionScope ''x'')) []"
proof -
  obtain st where st: "store_with_capacity 1 = Some st" by (simp add: store_with_capacity_def)
  note facts = store_with_capacity_Some [OF st]
  have "continuation_generate ''a'' \<notin> set (ms_order st)" using facts by simp
  with store_refines_queue [of st "''a''" "session_handle_new ''codex'' ''1''" "SessionScope ''x''"] facts st
  show ?thesis by (auto simp: queue_of_def continuation_generate_def)
qed

text \<open>A minted name keeps resolving, in its scope and to its session, until its scope is forgotten or as many
  newer names as the capacity have been minted, when the identifiers drawn are all different.\<close>

theorem continuation_retained:
  assumes "store_with_capacity capacity = Some st" and "distinct (minted_uuids (pre @ MintCall uuid s sc # post))"
    and "ForgetCall sc \<notin> set post" and "length (minted_uuids post) < capacity"
  shows "store_resolve (continuation_generate uuid) sc (store_run st (pre @ MintCall uuid s sc # post)) = Some s"
proof -
  note st = store_with_capacity_Some [OF assms(1)]
  let ?i = "continuation_generate uuid" and ?st = "store_run st pre"
  have pre: "store_wf ?st" "ms_capacity ?st = capacity"
      "set (ms_order ?st) \<subseteq> continuation_generate ` set (minted_uuids pre)"
    using fresh_uuids_wf [of st pre] st assms(2) by auto
  have inj: "inj continuation_generate" by (auto simp: inj_def continuation_generate_def)
  have new: "?i \<notin> set (ms_order ?st)"
    using pre(3) assms(2) by (auto dest: injD [OF inj])
  note mint = store_mint_fresh [OF pre(1) new, of s sc]
  let ?st1 = "snd (store_mint uuid s sc ?st)"
  obtain q where q: "queue_of ?st1 = q @ (?i, mint_entry s sc) # []"
    using mint(2) queue_mint_last [of capacity ?i "mint_entry s sc"] assms(4) pre(2) by (metis gr_implies_not0 neq0_conv)
  have "continuation_generate ` set (minted_uuids post) \<inter> set (ms_order ?st1) = {}"
    using mint(3) pre(3) assms(2) by (fastforce dest: injD [OF inj])
  moreover have "distinct (minted_uuids post)" using assms(2) by simp
  ultimately obtain a b where end_wf: "store_wf (store_run ?st1 post)"
      and end_q: "queue_of (store_run ?st1 post) = a @ (?i, mint_entry s sc) # b"
    using store_run_retained [OF mint(1) q, of post] assms(3,4) pre(2) by (auto simp: mint_entry_def)
  have "distinct (map fst (queue_of (store_run ?st1 post)))"
    using end_wf by (simp add: store_wf_def queue_of_def comp_def)
  then have "?i \<notin> fst ` set a" by (simp add: end_q)
  then show ?thesis
    using store_resolve_queue [OF end_wf, of ?i sc] map_of_last [of ?i a "mint_entry s sc" b]
    by (simp add: end_q mint_entry_def)
qed

theorem continuation_retained_witness:
  "\<exists>st. store_with_capacity 2 = Some st
     \<and> store_resolve (ContinuationId ''b'') (SessionScope ''y'') (store_run st sample_calls)
        = Some (session_handle_new ''codex'' ''2'')"
proof -
  obtain st where st: "store_with_capacity 2 = Some st" by (simp add: store_with_capacity_def)
  with continuation_retained [OF st, of "take 1 sample_calls" "''b''" "session_handle_new ''codex'' ''2''"
      "SessionScope ''y''" "drop 2 sample_calls"]
  show ?thesis by (simp add: sample_calls_def continuation_generate_def)
qed

end
