(* ===== verification/Mcp_Projection.thy ===== *)
theory Mcp_Projection
  imports Mcp_Continuation Request
begin

text \<open>
  \<open>tower-agent-mcp/projection.rs\<close> and \<open>progress.rs\<close>: what of a terminal result and of the observations
  of a running turn crosses the protocol boundary. A \<open>serde_json::Value\<close> the adapter builds is a
  \<open>json\<close>; the values a provider returned stay opaque inside \<open>JValue\<close>.
\<close>

section \<open>JSON\<close>

datatype 'v json =
    JNull
  | JBool bool
  | JUnsigned u64
  | JFloat f64
  | JString string
  | JObject "(string \<times> 'v json) list"
  | JValue 'v

text \<open>\<open>json!\<close> of an \<open>Option\<close> and of an \<open>f64\<close>: JSON has no NaN and no infinity, they become null.\<close>

definition json_option :: "('a \<Rightarrow> 'v json) \<Rightarrow> 'a option \<Rightarrow> 'v json" where
  "json_option f x = (case x of None \<Rightarrow> JNull | Some a \<Rightarrow> f a)"

definition json_f64 :: "f64 \<Rightarrow> 'v json" where
  "json_f64 x = (if f64_is_finite x then JFloat x else JNull)"

text \<open>\<open>value[key]\<close> on an object, and the assignment through it.\<close>

fun json_get :: "'v json \<Rightarrow> string \<Rightarrow> 'v json option" where
  "json_get (JObject fs) key = map_of fs key"
| "json_get _ key = None"

fun json_set :: "'v json \<Rightarrow> string \<Rightarrow> 'v json \<Rightarrow> 'v json" where
  "json_set (JObject fs) key v = JObject (AList.update key v fs)"
| "json_set x key v = x"

section \<open>The projection\<close>

datatype provider_messages = Redacted | Verbatim

record projection =
  proj_provider_messages :: provider_messages

definition projection_new :: projection where
  "projection_new = \<lparr>proj_provider_messages = Redacted\<rparr>"

definition projection_with_provider_messages :: "projection \<Rightarrow> provider_messages \<Rightarrow> projection" where
  "projection_with_provider_messages p m = p\<lparr>proj_provider_messages := m\<rparr>"

definition projection_message :: "projection \<Rightarrow> agent_error \<Rightarrow> string" where
  "projection_message p error =
     (case proj_provider_messages p of
        Redacted \<Rightarrow> ''agent operation failed ('' @ error_kind_display (err_kind error) @ '')''
      | Verbatim \<Rightarrow> err_message error)"

definition session_json :: "session_handle option \<Rightarrow> continuation_id option \<Rightarrow> 'v json" where
  "session_json session continuation =
     (case session of
        None \<Rightarrow> JNull
      | Some s \<Rightarrow> JObject
          [(''provider'', JString (handle_provider s)),
           (''present'', JBool True),
           (''continuation'', json_option (\<lambda>i. JString (continuation_str i)) continuation)])"

definition usage_json :: "token_usage option \<Rightarrow> 'v json" where
  "usage_json usage =
     (case usage of
        None \<Rightarrow> JNull
      | Some u \<Rightarrow> JObject
          [(''input'', json_option JUnsigned (usage_input u)),
           (''cachedInput'', json_option JUnsigned (usage_cached_input u)),
           (''cacheWriteInput'', json_option JUnsigned (usage_cache_write_input u)),
           (''output'', json_option JUnsigned (usage_output u)),
           (''reasoningOutput'', json_option JUnsigned (usage_reasoning_output u)),
           (''total'', json_option JUnsigned (usage_total u))])"

definition cost_json :: "cost option \<Rightarrow> 'v json" where
  "cost_json c =
     (case c of
        None \<Rightarrow> JNull
      | Some c \<Rightarrow> JObject [(''amount'', json_f64 (cost_amount c)), (''currency'', JString (cost_currency c))])"

text \<open>\<open>as_millis\<close> is a \<open>u128\<close>; the largest \<open>u64\<close> caps it.\<close>

definition duration_millis :: "duration \<Rightarrow> u64" where
  "duration_millis d = word_of_nat (min (duration_as_millis d) (2 ^ 64 - 1))"

definition evidence_json :: "failure_evidence option \<Rightarrow> continuation_id option \<Rightarrow> 'v json" where
  "evidence_json evidence continuation =
     JObject
       [(''session'', session_json (Option.bind evidence ev_session) continuation),
        (''usage'', usage_json (Option.bind evidence ev_usage)),
        (''cost'', cost_json (Option.bind evidence ev_cost)),
        (''durationMs'', json_option (\<lambda>d. JUnsigned (duration_millis d)) (Option.bind evidence ev_duration)),
        (''providerTurns'', json_option (\<lambda>n. JUnsigned (ucast n)) (Option.bind evidence ev_provider_turns))]"

definition projection_outcome ::
  "projection \<Rightarrow> 'v turn_outcome \<Rightarrow> operation_id \<Rightarrow> continuation_id option \<Rightarrow> 'v json" where
  "projection_outcome p outcome operation continuation =
     JObject
       [(''operationId'', JUnsigned operation),
        (''output'', JString (out_output outcome)),
        (''structured'', json_option JValue (out_structured outcome)),
        (''session'', session_json (out_session outcome) continuation),
        (''usage'', usage_json (out_usage outcome)),
        (''cost'', cost_json (out_cost outcome)),
        (''durationMs'', json_option (\<lambda>d. JUnsigned (duration_millis d)) (out_duration outcome)),
        (''providerTurns'', json_option (\<lambda>n. JUnsigned (ucast n)) (out_provider_turns outcome))]"

fun failure_body :: "projection \<Rightarrow> agent_error \<Rightarrow> continuation_id option \<Rightarrow> 'v json" where
  "failure_body p (AgentError kind message phase effects evidence retry_after cause) continuation =
     JObject
       [(''kind'', JString (error_kind_display kind)),
        (''phase'', JString (failure_phase_display phase)),
        (''effects'', JString (effect_state_display effects)),
        (''message'', JString (projection_message p (AgentError kind message phase effects evidence retry_after cause))),
        (''replaySafe'', JBool (effects = EffNone)),
        (''evidence'', evidence_json evidence continuation),
        (''cause'', case cause of None \<Rightarrow> JNull | Some c \<Rightarrow> failure_body p c None)]"

definition projection_failure ::
  "projection \<Rightarrow> agent_error \<Rightarrow> operation_id \<Rightarrow> continuation_id option \<Rightarrow> 'v json" where
  "projection_failure p error operation continuation =
     json_set (failure_body p error continuation) ''operationId'' (JUnsigned operation)"

section \<open>Progress\<close>

text \<open>What happened, and never what it said.\<close>

fun structural :: "agent_event \<Rightarrow> string" where
  "structural EvStarted = ''started''"
| "structural (EvOutputDelta text) = ''output''"
| "structural (EvThinkingDelta text) = ''thinking''"
| "structural (EvToolStarted name) = ''tool started''"
| "structural (EvTurnStarted number) = ''turn '' @ show_nat (unat number)"
| "structural (EvStatus message) = ''status''"
| "structural (EvUsage usage) =
     (case usage_total usage of Some n \<Rightarrow> ''usage '' @ show_nat (unat n) | None \<Rightarrow> ''usage'')"
| "structural (EvWarning message) = ''warning''"

fun verbatim :: "agent_event \<Rightarrow> string" where
  "verbatim (EvOutputDelta text) = text"
| "verbatim (EvThinkingDelta text) = text"
| "verbatim (EvToolStarted name) = ''tool '' @ name"
| "verbatim (EvStatus message) = message"
| "verbatim (EvWarning message) = ''warning: '' @ message"
| "verbatim other = structural other"

text \<open>
  A notification carries the counter (converted to \<open>f64\<close> on the wire), no total, and the message.
  The token says whether the client asked for progress.
\<close>

record progress_events =
  pg_has_token :: bool
  pg_provider_messages :: provider_messages
  pg_emitted :: u64

record progress_notification =
  pn_progress :: u64
  pn_total :: "f64 option"
  pn_message :: string

definition progress_new :: "bool \<Rightarrow> progress_events" where
  "progress_new has_token = \<lparr>pg_has_token = has_token, pg_provider_messages = Redacted, pg_emitted = 0\<rparr>"

definition progress_with_provider_messages :: "progress_events \<Rightarrow> provider_messages \<Rightarrow> progress_events" where
  "progress_with_provider_messages g m = g\<lparr>pg_provider_messages := m\<rparr>"

definition progress_message :: "progress_events \<Rightarrow> agent_event \<Rightarrow> string" where
  "progress_message g event =
     (case pg_provider_messages g of Redacted \<Rightarrow> structural event | Verbatim \<Rightarrow> verbatim event)"

definition progress_try_emit ::
  "progress_events \<Rightarrow> agent_event \<Rightarrow> (event_send_error + unit) \<times> progress_events \<times> progress_notification option" where
  "progress_try_emit g event =
     (if \<not> pg_has_token g then (Inl EventClosed, g, None)
      else let progress = pg_emitted g + 1
           in (Inr (), g\<lparr>pg_emitted := progress\<rparr>,
               Some \<lparr>pn_progress = progress, pn_total = None, pn_message = progress_message g event\<rparr>))"

text \<open>The notifications of a sequence of observations.\<close>

fun progress_run :: "progress_events \<Rightarrow> agent_event list \<Rightarrow> progress_notification list" where
  "progress_run g [] = []"
| "progress_run g (event # events) =
     (case progress_try_emit g event of (_, g', n) \<Rightarrow> (case n of None \<Rightarrow> [] | Some x \<Rightarrow> [x]) @ progress_run g' events)"

section \<open>What is secret\<close>

text \<open>Everything a provider wrote or keeps private: the messages of a failure and of its causes, and session values.\<close>

definition hide_session :: "session_handle \<Rightarrow> session_handle" where
  "hide_session s = s\<lparr>handle_value := []\<rparr>"

definition hide_evidence :: "failure_evidence \<Rightarrow> failure_evidence" where
  "hide_evidence e = e\<lparr>ev_session := map_option hide_session (ev_session e)\<rparr>"

fun hide_sessions :: "agent_error \<Rightarrow> agent_error" where
  "hide_sessions (AgentError k m p ef ev ra c) =
     AgentError k m p ef (map_option hide_evidence ev) ra (case c of None \<Rightarrow> None | Some e \<Rightarrow> Some (hide_sessions e))"

fun hide_messages :: "agent_error \<Rightarrow> agent_error" where
  "hide_messages (AgentError k m p ef ev ra c) =
     AgentError k [] p ef ev ra (case c of None \<Rightarrow> None | Some e \<Rightarrow> Some (hide_messages e))"

fun hide_text :: "agent_event \<Rightarrow> agent_event" where
  "hide_text (EvOutputDelta text) = EvOutputDelta []"
| "hide_text (EvThinkingDelta text) = EvThinkingDelta []"
| "hide_text (EvToolStarted name) = EvToolStarted []"
| "hide_text (EvStatus message) = EvStatus []"
| "hide_text (EvWarning message) = EvWarning []"
| "hide_text e = e"

section \<open>Lemmas\<close>

lemma session_json_hidden: "session_json (map_option hide_session s) i = session_json s i"
  by (cases s) (simp_all add: session_json_def hide_session_def)

lemma evidence_json_hidden: "evidence_json (map_option hide_evidence ev) i = evidence_json ev i"
  by (cases ev) (simp_all add: evidence_json_def hide_evidence_def session_json_hidden)

lemma failure_body_hidden_sessions: "failure_body p (hide_sessions e) i = failure_body p e i"
proof (induction p e i rule: failure_body.induct)
  case (1 p k m ph ef ev ra c i)
  then show ?case
    by (cases c) (simp_all add: evidence_json_hidden projection_message_def split: provider_messages.split)
qed

lemma failure_body_hidden_messages:
  "proj_provider_messages p = Redacted \<Longrightarrow> failure_body p (hide_messages e) i = failure_body p e i"
proof (induction p e i rule: failure_body.induct)
  case (1 p k m ph ef ev ra c i)
  then show ?case by (cases c) (simp_all add: projection_message_def)
qed

lemma structural_hidden [simp]: "structural (hide_text e) = structural e"
  by (cases e) simp_all

lemma progress_run_closed: "\<not> pg_has_token g \<Longrightarrow> progress_run g events = []"
  by (induction events) (simp_all add: progress_try_emit_def)

lemma progress_run_nth:
  "pg_has_token g \<Longrightarrow> length (progress_run g events) = length events
     \<and> (\<forall>n < length events. progress_run g events ! n =
          \<lparr>pn_progress = pg_emitted g + word_of_nat (Suc n), pn_total = None,
           pn_message = progress_message g (events ! n)\<rparr>)"
proof (induction events arbitrary: g)
  case Nil
  then show ?case by simp
next
  case (Cons e events)
  let ?g = "g\<lparr>pg_emitted := pg_emitted g + 1\<rparr>"
  have same: "progress_message ?g = progress_message g" by (simp add: progress_message_def fun_eq_iff)
  have run: "progress_run g (e # events) =
      \<lparr>pn_progress = pg_emitted g + 1, pn_total = None, pn_message = progress_message g e\<rparr> # progress_run ?g events"
    using Cons.prems by (simp add: progress_try_emit_def Let_def)
  have IH: "length (progress_run ?g events) = length events
     \<and> (\<forall>n < length events. progress_run ?g events ! n =
          \<lparr>pn_progress = pg_emitted ?g + word_of_nat (Suc n), pn_total = None,
           pn_message = progress_message ?g (events ! n)\<rparr>)"
    by (rule Cons.IH) (use Cons.prems in simp)
  show ?case
    unfolding run using IH by (auto simp: nth_Cons same add.assoc split: nat.split)
qed

lemma error_kind_display_inj: "error_kind_display k = error_kind_display k' \<longleftrightarrow> k = k'"
  by (cases k; cases k'; simp)

lemma failure_phase_display_inj: "failure_phase_display k = failure_phase_display k' \<longleftrightarrow> k = k'"
  by (cases k; cases k'; simp)

lemma effect_state_display_inj: "effect_state_display k = effect_state_display k' \<longleftrightarrow> k = k'"
  by (cases k; cases k'; simp)

text \<open>The classification of a failure and of its causes, outermost first.\<close>

fun classification_chain :: "agent_error \<Rightarrow> (error_kind \<times> failure_phase \<times> effect_state) list" where
  "classification_chain (AgentError k m p ef ev ra c) =
     (k, p, ef) # (case c of None \<Rightarrow> [] | Some e \<Rightarrow> classification_chain e)"

lemma failure_body_not_null [simp]: "failure_body p e i \<noteq> JNull" "JNull \<noteq> failure_body p e i"
  by (cases e; simp)+

lemma failure_body_classified:
  "(failure_body p e i :: 'v json) = failure_body p' e' i' \<Longrightarrow> classification_chain e = classification_chain e'"
proof (induction p e i arbitrary: p' e' i' rule: failure_body.induct)
  case (1 p k m ph ef ev ra c i)
  obtain k' m' ph' ef' ev' ra' c' where e': "e' = AgentError k' m' ph' ef' ev' ra' c'" by (cases e')
  have same: "k = k'" "ph = ph'" "ef = ef'"
    using 1(2) by (auto simp: e' error_kind_display_inj failure_phase_display_inj effect_state_display_inj)
  have causes: "(case c of None \<Rightarrow> (JNull :: 'v json) | Some x \<Rightarrow> failure_body p x None)
      = (case c' of None \<Rightarrow> JNull | Some x \<Rightarrow> failure_body p' x None)"
    using 1(2) by (simp add: e')
  show ?case
  proof (cases c)
    case None
    have "c' = None"
    proof (rule ccontr)
      assume "c' \<noteq> None"
      then obtain y where "c' = Some y" by blast
      with causes None show False by simp
    qed
    with None same show ?thesis by (simp add: e')
  next
    case (Some x)
    with causes obtain y where "c' = Some y" by (cases c') auto
    moreover from this causes Some have "classification_chain x = classification_chain y"
      by (intro 1(1) [of x p' y None]) simp_all
    ultimately show ?thesis using Some same by (simp add: e')
  qed
qed

lemma failure_get:
  "json_get (projection_failure p e op i) ''operationId'' = Some (JUnsigned op)"
  "json_get (projection_failure p e op i) ''replaySafe'' = Some (JBool (err_effects e = EffNone))"
  by (cases e; simp add: projection_failure_def)+

lemma projection_failure_body:
  "(projection_failure p e op i :: 'v json) = projection_failure p' e' op' i' \<Longrightarrow> (failure_body p e i :: 'v json) = failure_body p' e' i'"
  by (cases e; cases e') (auto simp: projection_failure_def)

section \<open>Properties\<close>

text \<open>C26: nothing private crosses the boundary: under either policy the projected results and failures do not
  depend on session values, and under the default policy neither they nor the progress messages
  depend on any text a provider wrote into a failure, its causes, or an observation.\<close>

theorem projection_redacts:
  "(projection_failure p (hide_sessions e) op i :: 'v json) = projection_failure p e op i
   \<and> projection_outcome p ((r :: 'v turn_outcome)\<lparr>out_session := map_option hide_session (out_session r)\<rparr>) op i = projection_outcome p r op i
   \<and> (proj_provider_messages p = Redacted \<longrightarrow>
        (projection_failure p (hide_messages e) op i :: 'v json) = projection_failure p e op i)
   \<and> (pg_provider_messages g = Redacted \<longrightarrow>
        map pn_message (progress_run g (map hide_text events)) = map pn_message (progress_run g events))"
proof (intro conjI impI)
  show "(projection_failure p (hide_sessions e) op i :: 'v json) = projection_failure p e op i"
    by (simp add: projection_failure_def failure_body_hidden_sessions)
  show "projection_outcome p ((r :: 'v turn_outcome)\<lparr>out_session := map_option hide_session (out_session r)\<rparr>) op i = projection_outcome p r op i"
    by (simp add: projection_outcome_def session_json_hidden)
  show "proj_provider_messages p = Redacted \<Longrightarrow>
      (projection_failure p (hide_messages e) op i :: 'v json) = projection_failure p e op i"
    by (simp add: projection_failure_def failure_body_hidden_messages)
  show "pg_provider_messages g = Redacted \<Longrightarrow>
      map pn_message (progress_run g (map hide_text events)) = map pn_message (progress_run g events)"
    by (induction events arbitrary: g) (simp_all add: progress_try_emit_def progress_message_def Let_def)
qed

definition sample_failure :: agent_error where
  "sample_failure =
     with_cause (deadline_exceeded EffPossible)
       (with_evidence (error_new Provider ''partial edit for host-private-session'' Settlement EffReported)
          (failure_evidence_default\<lparr>ev_session := Some (session_handle_new ''claude'' ''host-private-session'')\<rparr>))"

theorem projection_redacts_witness:
  "hide_messages (hide_sessions sample_failure) \<noteq> sample_failure
   \<and> (projection_failure projection_new (hide_messages (hide_sessions sample_failure)) 42 None :: nat json)
      = projection_failure projection_new sample_failure 42 None"
proof -
  have "hide_messages (hide_sessions sample_failure) \<noteq> sample_failure" by code_simp
  moreover have "proj_provider_messages projection_new = Redacted" by (simp add: projection_new_def)
  moreover have "(projection_failure projection_new (hide_messages (hide_sessions sample_failure)) 42 None :: nat json)
      = projection_failure projection_new (hide_sessions sample_failure) 42 None"
    using projection_redacts [where p = projection_new and e = "hide_sessions sample_failure" and op = 42 and i = None]
      calculation(2) by blast
  moreover have "(projection_failure projection_new (hide_sessions sample_failure) 42 None :: nat json)
      = projection_failure projection_new sample_failure 42 None"
    using projection_redacts [where p = projection_new and e = sample_failure and op = 42 and i = None] by blast
  ultimately show ?thesis by simp
qed

text \<open>A client reads back from a projected failure its operation, whether replaying is safe, and the kind, phase
  and effect state of the failure and of every cause: failures that differ there are projected
  differently, under any policy and continuation.\<close>

theorem projection_keeps_classification:
  assumes "(projection_failure p e op i :: 'v json) = projection_failure p' e' op' i'"
  shows "op = op' \<and> classification_chain e = classification_chain e'
     \<and> json_get (projection_failure p e op i :: 'v json) ''replaySafe'' = Some (JBool (err_effects e = EffNone))"
proof -
  have "classification_chain e = classification_chain e'"
    by (rule failure_body_classified [OF projection_failure_body [OF assms]])
  moreover have "json_get (projection_failure p e op i :: 'v json) ''operationId'' = Some (JUnsigned op)"
    and "json_get (projection_failure p' e' op' i' :: 'v json) ''operationId'' = Some (JUnsigned op')"
    by (simp_all add: failure_get)
  then have "op = op'" using assms by simp
  with calculation show ?thesis by (simp add: failure_get)
qed

theorem projection_keeps_classification_witness:
  "json_get (projection_failure projection_new sample_failure 42 None :: nat json) ''replaySafe'' = Some (JBool False)
   \<and> classification_chain (hide_sessions sample_failure)
      = [(DeadlineExceeded, Running, EffReported), (Provider, Settlement, EffReported)]"
proof -
  have "(projection_failure projection_new sample_failure 42 None :: nat json)
      = projection_failure projection_new (hide_sessions sample_failure) 42 None"
    by (simp add: projection_failure_def failure_body_hidden_sessions)
  from projection_keeps_classification [OF this]
  have "classification_chain sample_failure = classification_chain (hide_sessions sample_failure)"
    and "json_get (projection_failure projection_new sample_failure 42 None :: nat json) ''replaySafe''
      = Some (JBool (err_effects sample_failure = EffNone))"
    by simp_all
  moreover have "err_effects sample_failure = EffReported"
    and "classification_chain sample_failure
      = [(DeadlineExceeded, Running, EffReported), (Provider, Settlement, EffReported)]"
    by code_simp+
  ultimately show ?thesis by simp
qed

text \<open>A client that asked for progress gets one notification per observation with a counter that strictly
  increases and no total; one that did not ask gets none and the producer learns that nobody
  listens.\<close>

theorem progress_counts:
  assumes "length events < 2 ^ 64"
  shows "sorted_wrt (<) (map pn_progress (progress_run (progress_with_provider_messages (progress_new has) m) events))
     \<and> length (progress_run (progress_with_provider_messages (progress_new has) m) events) = (if has then length events else 0)
     \<and> (\<forall>n \<in> set (progress_run (progress_with_provider_messages (progress_new has) m) events). pn_total n = None)
     \<and> fst (progress_try_emit (progress_new has) e) = (if has then Inr () else Inl EventClosed)"
proof (cases has)
  case False
  then show ?thesis
    by (simp add: progress_run_closed progress_new_def progress_with_provider_messages_def progress_try_emit_def)
next
  case True
  let ?g = "progress_with_provider_messages (progress_new True) m"
  have g: "pg_has_token ?g" "pg_emitted ?g = 0"
    by (simp_all add: progress_with_provider_messages_def progress_new_def)
  note run = progress_run_nth [OF g(1), of events]
  have less: "(word_of_nat (Suc a) :: u64) < word_of_nat (Suc b)" if "a < b" "b < length events" for a b
  proof -
    have unat: "unat (word_of_nat n :: u64) = n" if "n < 2 ^ 64" for n
      using that by (simp add: unat_of_nat)
    have "unat (word_of_nat (Suc a) :: u64) = Suc a" "unat (word_of_nat (Suc b) :: u64) = Suc b"
      by (rule unat, use that assms in simp)+
    then show ?thesis using that(1) unfolding word_less_nat_alt by (metis Suc_less_eq)
  qed
  have "sorted_wrt (<) (map pn_progress (progress_run ?g events))"
    unfolding sorted_wrt_iff_nth_less using run less g(2) by simp
  moreover have "pn_total x = None" if "x \<in> set (progress_run ?g events)" for x
    using that run by (auto simp: in_set_conv_nth)
  ultimately show ?thesis
    using True run by (simp add: progress_try_emit_def Let_def progress_new_def)
qed

theorem progress_counts_witness:
  "map pn_message (progress_run (progress_with_provider_messages (progress_new True) Redacted)
      [EvStarted, EvStatus ''secret'', EvTurnStarted 3]) = [''started'', ''status'', ''turn 3'']
   \<and> sorted_wrt (<) (map pn_progress (progress_run (progress_with_provider_messages (progress_new True) Redacted)
      [EvStarted, EvStatus ''secret'', EvTurnStarted 3]))"
proof -
  have "length [EvStarted, EvStatus ''secret'', EvTurnStarted 3] < 2 ^ 64" by simp
  from progress_counts [OF this, of True Redacted]
  have "sorted_wrt (<) (map pn_progress (progress_run (progress_with_provider_messages (progress_new True) Redacted)
      [EvStarted, EvStatus ''secret'', EvTurnStarted 3]))" by blast
  moreover have "map pn_message (progress_run (progress_with_provider_messages (progress_new True) Redacted)
      [EvStarted, EvStatus ''secret'', EvTurnStarted 3]) = [''started'', ''status'', ''turn 3'']" by code_simp
  ultimately show ?thesis by blast
qed

end
