(* ===== verification/Mcp_Tool.thy ===== *)
theory Mcp_Tool
  imports Mcp_Projection Service
begin

text \<open>
  \<open>tower-agent-mcp/tool.rs\<close>: one finite turn as an MCP tool. The service is a function of whether the
  call's token was cancelled before it settled and of the request; the store and the scope source
  are the host's. \<open>tower_mcp\<close> itself (the request context, the tool builder) is not modelled; of a
  \<open>CallToolResult\<close> the model keeps the error flag, the text, and the structured content.
\<close>

section \<open>Results and scopes\<close>

record 'v call_tool_result =
  ctr_is_error :: bool
  ctr_text :: string
  ctr_structured :: "'v json option"

definition call_tool_text :: "string \<Rightarrow> 'v call_tool_result" where
  "call_tool_text text = \<lparr>ctr_is_error = False, ctr_text = text, ctr_structured = None\<rparr>"

definition call_tool_error :: "string \<Rightarrow> 'v call_tool_result" where
  "call_tool_error text = \<lparr>ctr_is_error = True, ctr_text = text, ctr_structured = None\<rparr>"

definition scope_unavailable_display :: "string \<Rightarrow> string" where
  "scope_unavailable_display detail = ''no continuation scope for this request: '' @ detail"

text \<open>A source derives the scope from the request context, or says why there is none.\<close>

type_synonym 'ctx scope_source = "'ctx \<Rightarrow> string + scope"

definition fixed_scope :: "scope \<Rightarrow> 'ctx scope_source" where
  "fixed_scope scope = (\<lambda>context. Inr scope)"

definition fixed_scope_stdio :: "'ctx scope_source" where
  "fixed_scope_stdio = fixed_scope (SessionScope ''stdio'')"

section \<open>The tool\<close>

record turn_input =
  ti_prompt :: string
  ti_continuation :: "string option"

type_synonym ('t, 'v) settling_service = "bool \<Rightarrow> ('t agent_request, 'v turn_outcome) service"

record ('ctx, 'st, 'v) turn_tool_state =
  ts_service :: "(unit turn, 'v) settling_service"
  ts_store :: "'st store_ops"
  ts_scopes :: "'ctx scope_source"
  ts_projection :: projection

record ('ctx, 'st, 'v) turn_tool =
  tt_state :: "('ctx, 'st, 'v) turn_tool_state"
  tt_name :: string
  tt_description :: string

definition turn_tool_new ::
  "(unit turn, 'v) settling_service \<Rightarrow> 'st store_ops \<Rightarrow> 'ctx scope_source \<Rightarrow> ('ctx, 'st, 'v) turn_tool" where
  "turn_tool_new service store scopes =
     \<lparr>tt_state = \<lparr>ts_service = service, ts_store = store, ts_scopes = scopes, ts_projection = projection_new\<rparr>,
      tt_name = ''prompt'', tt_description = ''Run one finite agent turn''\<rparr>"

definition turn_tool_with_projection :: "('ctx, 'st, 'v) turn_tool \<Rightarrow> projection \<Rightarrow> ('ctx, 'st, 'v) turn_tool" where
  "turn_tool_with_projection t p = t\<lparr>tt_state := (tt_state t)\<lparr>ts_projection := p\<rparr>\<rparr>"

definition turn_tool_with_name :: "('ctx, 'st, 'v) turn_tool \<Rightarrow> string \<Rightarrow> ('ctx, 'st, 'v) turn_tool" where
  "turn_tool_with_name t name = t\<lparr>tt_name := name\<rparr>"

definition turn_tool_with_description :: "('ctx, 'st, 'v) turn_tool \<Rightarrow> string \<Rightarrow> ('ctx, 'st, 'v) turn_tool" where
  "turn_tool_with_description t description = t\<lparr>tt_description := description\<rparr>"

text \<open>\<open>refuse_with\<close>, given the operation id that \<open>CallContext::new\<close> draws.\<close>

definition refuse_with :: "projection \<Rightarrow> operation_id \<Rightarrow> agent_error \<Rightarrow> 'v call_tool_result" where
  "refuse_with p operation error =
     (call_tool_error (projection_message p error))\<lparr>ctr_structured := Some (projection_failure p error operation None)\<rparr>"

section \<open>Steps of a call\<close>

definition resolve_named :: "'st store_ops \<Rightarrow> string \<Rightarrow> scope \<Rightarrow> 'st \<Rightarrow> (agent_error + session_handle) \<times> 'st" where
  "resolve_named store raw scope st =
     (case continuation_parse raw of
        Inl error \<Rightarrow> (Inl (invalid_request (invalid_continuation_display error)), st)
      | Inr i \<Rightarrow>
          (case op_resolve store i scope st of
             (Inr None, st') \<Rightarrow> (Inl (invalid_request ''continuation is unknown or does not belong to this caller''), st')
           | (Inr (Some session), st') \<Rightarrow> (Inr session, st')
           | (Inl error, st') \<Rightarrow>
               (Inl (error_new Internal (''continuation store failed: '' @ continuation_error_display error) Validation EffNone),
                st')))"

definition resolve_continuation ::
  "'st store_ops \<Rightarrow> string option \<Rightarrow> scope \<Rightarrow> 'st \<Rightarrow> (agent_error + session_handle option) \<times> 'st" where
  "resolve_continuation store continuation scope st =
     (case continuation of
        None \<Rightarrow> (Inr None, st)
      | Some raw \<Rightarrow> (case resolve_named store raw scope st of (r, st') \<Rightarrow> (map_sum id Some r, st')))"

definition tool_mint ::
  "'st store_ops \<Rightarrow> session_handle option \<Rightarrow> scope \<Rightarrow> 'st \<Rightarrow> continuation_id option \<times> 'st" where
  "tool_mint store session scope st =
     (case session of
        None \<Rightarrow> (None, st)
      | Some s \<Rightarrow>
          (case op_mint store s scope st of
             (Inr i, st') \<Rightarrow> (Some i, st')
           | (Inl error, st') \<Rightarrow> (None, st')))"

text \<open>
  The \<open>select!\<close> loop: at each wakeup either the turn has settled, or the client's cancellation is
  seen, which is forwarded once and then disabled. The result says whether it was forwarded before
  the turn settled, which the loop always waits for.
\<close>

datatype wake = TurnSettles | ClientCancels

fun run_until_settled :: "wake list \<Rightarrow> bool \<Rightarrow> bool option" where
  "run_until_settled [] forwarded = None"
| "run_until_settled (TurnSettles # wakes) forwarded = Some forwarded"
| "run_until_settled (ClientCancels # wakes) forwarded =
     (if forwarded then run_until_settled wakes forwarded else run_until_settled wakes True)"

text \<open>What each call of the handler draws from the host: an operation id, a token, an observer.\<close>

record call_env =
  ce_operation :: operation_id
  ce_token :: token
  ce_observer :: event_observer

definition tool_request :: "call_env \<Rightarrow> 't \<Rightarrow> 't agent_request" where
  "tool_request env body =
     agent_request_with_context body
       (with_events (with_cancellation (call_context_default (ce_operation env) (ce_token env)) (ce_token env)) (ce_observer env))"

text \<open>The end of a call: name the session, if there is one, and project.\<close>

definition tool_finish ::
  "projection \<Rightarrow> 'st store_ops \<Rightarrow> scope \<Rightarrow> operation_id \<Rightarrow> agent_error + 'v turn_outcome \<Rightarrow> 'st
     \<Rightarrow> 'v call_tool_result \<times> 'st" where
  "tool_finish p store scope operation result st =
     (case result of
        Inr outcome \<Rightarrow>
          (case tool_mint store (out_session outcome) scope st of
             (continuation, st') \<Rightarrow>
               ((call_tool_text (out_output outcome))
                  \<lparr>ctr_structured := Some (projection_outcome p outcome operation continuation)\<rparr>, st'))
      | Inl error \<Rightarrow>
          (case tool_mint store (Option.bind (err_evidence error) ev_session) scope st of
             (continuation, st') \<Rightarrow>
               ((call_tool_error (projection_message p error))
                  \<lparr>ctr_structured := Some (projection_failure p error operation continuation)\<rparr>, st')))"

text \<open>Before the service is called: the scope, the session to continue, and the turn.\<close>

definition turn_begin ::
  "('ctx, 'st, 'v) turn_tool_state \<Rightarrow> 'ctx \<Rightarrow> turn_input \<Rightarrow> 'st \<Rightarrow> (agent_error + scope \<times> unit turn) \<times> 'st" where
  "turn_begin state context input st =
     (case ts_scopes state context of
        Inl detail \<Rightarrow> (Inl (invalid_request (scope_unavailable_display detail)), st)
      | Inr scope \<Rightarrow>
          (case resolve_continuation (ts_store state) (ti_continuation input) scope st of
             (Inl error, st') \<Rightarrow> (Inl error, st')
           | (Inr resumed, st') \<Rightarrow>
               (let t = turn_new (ti_prompt input)
                in (Inr (scope, case resumed of None \<Rightarrow> t | Some session \<Rightarrow> turn_resume t session), st'))))"

text \<open>
  How a handler ends: it answers, it unwinds with the service, or it waits for the turn. The last
  component is the request the service was called with, if it was called.
\<close>

datatype 'v tool_end = Answered "'v call_tool_result" | HandlerUnwound | StillRunning

definition tool_execute ::
  "(bool \<Rightarrow> ('t agent_request, 'v turn_outcome) service) \<Rightarrow> projection \<Rightarrow> 'st store_ops \<Rightarrow> call_env \<Rightarrow> wake list
     \<Rightarrow> scope \<Rightarrow> 't \<Rightarrow> 'st \<Rightarrow> 'v tool_end \<times> 'st \<times> 't agent_request option" where
  "tool_execute service p store env wakes scope body st =
     (let request = tool_request env body
      in case run_until_settled wakes False of
           None \<Rightarrow> (StillRunning, st, Some request)
         | Some gone \<Rightarrow>
             (case fst (service gone request) of
                Settled result \<Rightarrow>
                  (case tool_finish p store scope (ce_operation env) result st of
                     (answer, st') \<Rightarrow> (Answered answer, st', Some request))
              | _ \<Rightarrow> (HandlerUnwound, st, Some request)))"

definition turn_tool_run ::
  "('ctx, 'st, 'v) turn_tool_state \<Rightarrow> call_env \<Rightarrow> wake list \<Rightarrow> 'ctx \<Rightarrow> turn_input \<Rightarrow> 'st
     \<Rightarrow> 'v tool_end \<times> 'st \<times> unit turn agent_request option" where
  "turn_tool_run state env wakes context input st =
     (case turn_begin state context input st of
        (Inl error, st') \<Rightarrow> (Answered (refuse_with (ts_projection state) (ce_operation env) error), st', None)
      | (Inr (scope, t), st') \<Rightarrow>
          tool_execute (ts_service state) (ts_projection state) (ts_store state) env wakes scope t st')"

section \<open>Lemmas\<close>

text \<open>The loop waits for the turn, and forwards a cancellation exactly when one was seen before it settled.\<close>

lemma run_until_settled_iff:
  "run_until_settled wakes forwarded = Some c \<longleftrightarrow>
     (\<exists>pre post. wakes = pre @ TurnSettles # post \<and> TurnSettles \<notin> set pre \<and> c = (forwarded \<or> ClientCancels \<in> set pre))"
proof (induction wakes forwarded rule: run_until_settled.induct)
  case (1 f)
  then show ?case by simp
next
  case (2 ws f)
  show ?case by (auto simp: Cons_eq_append_conv)
next
  case (3 ws f)
  have split: "(\<exists>pre post. ClientCancels # ws = pre @ TurnSettles # post \<and> TurnSettles \<notin> set pre
        \<and> c = (f \<or> ClientCancels \<in> set pre))
      \<longleftrightarrow> (\<exists>pre post. ws = pre @ TurnSettles # post \<and> TurnSettles \<notin> set pre \<and> c = True)"
  proof
    assume "\<exists>pre post. ws = pre @ TurnSettles # post \<and> TurnSettles \<notin> set pre \<and> c = True"
    then obtain pre post where "ws = pre @ TurnSettles # post" "TurnSettles \<notin> set pre" c by blast
    then show "\<exists>pre post. ClientCancels # ws = pre @ TurnSettles # post \<and> TurnSettles \<notin> set pre
        \<and> c = (f \<or> ClientCancels \<in> set pre)"
      by (intro exI [of _ "ClientCancels # pre"] exI [of _ post]) simp
  qed (auto simp: Cons_eq_append_conv)
  show ?case unfolding split using 3 by (cases f) auto
qed

lemma map_sum_Inl_iff: "map_sum id g r = Inl e \<longleftrightarrow> r = Inl e"
  by (cases r) simp_all

lemma map_sum_Inr_iff: "map_sum id g r = Inr b \<longleftrightarrow> (\<exists>a. r = Inr a \<and> b = g a)"
  by (cases r) auto

lemma resolve_named_pure: "resolve_named store raw sc st = (Inl e, st') \<Longrightarrow> pure_refusal e"
  by (auto simp: resolve_named_def split: sum.splits prod.splits option.splits)

lemma turn_begin_pure: "turn_begin state context input st = (Inl e, st') \<Longrightarrow> pure_refusal e"
  by (auto simp: turn_begin_def resolve_continuation_def Let_def map_sum_Inl_iff dest!: resolve_named_pure
      split: sum.splits prod.splits option.splits)

section \<open>Many clients\<close>

text \<open>
  Calls of the tool overlap: a call arrives and resolves its continuation, and some time later it
  settles and names its session, with other calls in between. The last two components record what
  happened: the sessions that calls settled with and the sessions that were resumed, each with its
  scope.
\<close>

record 'st tool_system =
  sys_store :: 'st
  sys_in_flight :: "scope list"
  sys_settled :: "(scope \<times> session_handle) list"
  sys_resumed :: "(scope \<times> session_handle) list"

datatype ('ctx, 'v) tool_event =
    Arrive 'ctx turn_input
  | Settle nat operation_id "agent_error + 'v turn_outcome"
  | EndScope scope

definition settled_session :: "agent_error + 'v turn_outcome \<Rightarrow> session_handle option" where
  "settled_session result =
     (case result of Inr outcome \<Rightarrow> out_session outcome | Inl error \<Rightarrow> Option.bind (err_evidence error) ev_session)"

definition remove_nth :: "nat \<Rightarrow> 'a list \<Rightarrow> 'a list" where
  "remove_nth k xs = take k xs @ drop (Suc k) xs"

fun system_step ::
  "('ctx, 'st, 'v) turn_tool_state \<Rightarrow> 'st tool_system \<Rightarrow> ('ctx, 'v) tool_event \<Rightarrow> 'st tool_system" where
  "system_step state sys (Arrive context input) =
     (case turn_begin state context input (sys_store sys) of
        (Inl error, st') \<Rightarrow> sys\<lparr>sys_store := st'\<rparr>
      | (Inr (scope, t), st') \<Rightarrow>
          sys\<lparr>sys_store := st', sys_in_flight := sys_in_flight sys @ [scope],
              sys_resumed := sys_resumed sys @ map (Pair scope) (case turn_session t of None \<Rightarrow> [] | Some s \<Rightarrow> [s])\<rparr>)"
| "system_step state sys (Settle k operation result) =
     (if k < length (sys_in_flight sys)
      then let scope = sys_in_flight sys ! k
           in sys\<lparr>sys_store := snd (tool_finish (ts_projection state) (ts_store state) scope operation result (sys_store sys)),
                  sys_in_flight := remove_nth k (sys_in_flight sys),
                  sys_settled := sys_settled sys @ map (Pair scope) (case settled_session result of None \<Rightarrow> [] | Some s \<Rightarrow> [s])\<rparr>
      else sys)"
| "system_step state sys (EndScope scope) = sys\<lparr>sys_store := op_forget (ts_store state) scope (sys_store sys)\<rparr>"

definition system_run ::
  "('ctx, 'st, 'v) turn_tool_state \<Rightarrow> 'st tool_system \<Rightarrow> ('ctx, 'v) tool_event list \<Rightarrow> 'st tool_system" where
  "system_run state sys events = foldl (system_step state) sys events"

definition system_init :: "'st \<Rightarrow> 'st tool_system" where
  "system_init st = \<lparr>sys_store = st, sys_in_flight = [], sys_settled = [], sys_resumed = []\<rparr>"

lemma tool_finish_mint:
  "tool_finish p store sc op result st = (answer, st') \<Longrightarrow> st' = snd (tool_mint store (settled_session result) sc st)"
  by (auto simp: tool_finish_def settled_session_def split: sum.splits prod.splits)

lemma turn_begin_session:
  "turn_begin state context input st = (Inr (sc, t), st') \<Longrightarrow>
     (turn_session t = None \<and> st' = st)
     \<or> (\<exists>i s. turn_session t = Some s \<and> op_resolve (ts_store state) i sc st = (Inr (Some s), st'))"
  by (auto simp: turn_begin_def resolve_continuation_def resolve_named_def Let_def turn_new_def turn_resume_def
      split: sum.splits prod.splits option.splits)

lemma turn_begin_store:
  "turn_begin state context input st = (r, st') \<Longrightarrow>
     st' = st \<or> (\<exists>i sc a. op_resolve (ts_store state) i sc st = (a, st'))"
  by (auto simp: turn_begin_def resolve_continuation_def resolve_named_def Let_def
      split: sum.splits prod.splits option.splits)

context continuation_store begin

text \<open>Everything that a name can give was settled by a call in its scope, and so was everything resumed.\<close>

definition owned :: "'st tool_system \<Rightarrow> bool" where
  "owned sys \<longleftrightarrow> store_inv (sys_store sys)
     \<and> (\<forall>i sc s. names ops (sys_store sys) i sc s \<longrightarrow> (sc, s) \<in> set (sys_settled sys))
     \<and> set (sys_resumed sys) \<subseteq> set (sys_settled sys)"

lemma owned_init: "store_inv st \<Longrightarrow> (\<forall>i sc s. \<not> names ops st i sc s) \<Longrightarrow> owned (system_init st)"
  by (simp add: owned_def system_init_def)

lemma begin_keeps:
  assumes inv: "store_inv st" and step: "turn_begin state context input st = (r, st')" and store: "ts_store state = ops"
  shows "store_inv st' \<and> (\<forall>i sc s. names ops st' i sc s \<longrightarrow> names ops st i sc s)"
  using turn_begin_store [OF step]
proof (elim disjE exE)
  fix i sc a
  assume "op_resolve (ts_store state) i sc st = (a, st')"
  with store have "st' = snd (op_resolve ops i sc st)" by simp
  then show ?thesis using inv resolve_inv resolve_grants by blast
qed (use inv in simp)

lemma mint_keeps:
  assumes inv: "store_inv st"
  shows "store_inv (snd (tool_mint ops session sc st))
     \<and> (\<forall>i sc' s. names ops (snd (tool_mint ops session sc st)) i sc' s \<longrightarrow>
          (sc' = sc \<and> session = Some s) \<or> names ops st i sc' s)"
proof (cases session)
  case None
  then show ?thesis using inv by (simp add: tool_mint_def)
next
  case (Some s)
  then have "snd (tool_mint ops session sc st) = snd (op_mint ops s sc st)"
    by (simp add: tool_mint_def split: prod.split sum.split)
  then show ?thesis using inv mint_inv mint_grants Some by (metis (no_types))
qed

lemma owned_step:
  assumes own: "owned sys" and store: "ts_store state = ops"
  shows "owned (system_step state sys event)"
proof (cases event)
  case (Arrive ctx input)
  obtain r st' where step: "turn_begin state ctx input (sys_store sys) = (r, st')" by (cases "turn_begin state ctx input (sys_store sys)")
  have inv: "store_inv (sys_store sys)" using own by (simp add: owned_def)
  note kept = begin_keeps [OF inv step store]
  show ?thesis
  proof (cases r)
    case (Inl e)
    with step Arrive have "system_step state sys event = sys\<lparr>sys_store := st'\<rparr>" by simp
    with own kept show ?thesis by (simp add: owned_def) blast
  next
    case (Inr p)
    obtain sc t where p: "p = (sc, t)" by (cases p)
    have resumed: "(sc, s) \<in> set (sys_settled sys)" if here: "turn_session t = Some s" for s
    proof -
      obtain i where "op_resolve ops i sc (sys_store sys) = (Inr (Some s), st')"
        using turn_begin_session [OF step [unfolded Inr p]] here store by auto
      then have "names ops (sys_store sys) i sc s" by (simp add: names_def)
      with own show ?thesis by (simp add: owned_def)
    qed
    let ?new = "map (Pair sc) (case turn_session t of None \<Rightarrow> [] | Some s \<Rightarrow> [s])"
    have "system_step state sys event =
        sys\<lparr>sys_store := st', sys_in_flight := sys_in_flight sys @ [sc], sys_resumed := sys_resumed sys @ ?new\<rparr>"
      using step Arrive Inr p by simp
    moreover have "set ?new \<subseteq> set (sys_settled sys)"
      using resumed by (auto split: option.split)
    ultimately show ?thesis
      using own kept by (simp add: owned_def) blast
  qed
next
  case (Settle k operation result)
  show ?thesis
  proof (cases "k < length (sys_in_flight sys)")
    case True
    let ?sc = "sys_in_flight sys ! k"
    have inv: "store_inv (sys_store sys)" using own by (simp add: owned_def)
    have "snd (tool_finish (ts_projection state) ops ?sc operation result (sys_store sys))
        = snd (tool_mint ops (settled_session result) ?sc (sys_store sys))"
      by (metis prod.collapse tool_finish_mint)
    with store have finish: "snd (tool_finish (ts_projection state) (ts_store state) ?sc operation result (sys_store sys))
        = snd (tool_mint ops (settled_session result) ?sc (sys_store sys))" by simp
    let ?st = "snd (tool_mint ops (settled_session result) ?sc (sys_store sys))"
    let ?new = "map (Pair ?sc) (case settled_session result of None \<Rightarrow> [] | Some s \<Rightarrow> [s])"
    have "system_step state sys event = sys\<lparr>sys_store := ?st, sys_in_flight := remove_nth k (sys_in_flight sys),
        sys_settled := sys_settled sys @ ?new\<rparr>"
      using True Settle by (simp add: Let_def finish)
    moreover have "(sc, s) \<in> set (sys_settled sys @ ?new)" if "names ops ?st i sc s" for i sc s
    proof -
      from mint_keeps [OF inv, of "settled_session result" ?sc] that
      consider "sc = ?sc" "settled_session result = Some s" | "names ops (sys_store sys) i sc s" by blast
      then show ?thesis using own by cases (auto simp: owned_def)
    qed
    ultimately show ?thesis
      using mint_keeps [OF inv, of "settled_session result" ?sc] own by (auto simp: owned_def)
  qed (use own Settle in simp)
next
  case (EndScope sc)
  then show ?thesis
    using own store forget_inv [of "sys_store sys" sc] forget_grants [of "sys_store sys" sc]
    by (simp add: owned_def) blast
qed

lemma owned_run: "owned sys \<Longrightarrow> ts_store state = ops \<Longrightarrow> owned (system_run state sys events)"
  by (induction events arbitrary: sys) (simp_all add: system_run_def owned_step)

lemma resumed_owned:
  assumes "store_inv st" and "\<forall>i sc s. \<not> names ops st i sc s" and "ts_store state = ops"
  shows "set (sys_resumed (system_run state (system_init st) events))
     \<subseteq> set (sys_settled (system_run state (system_init st) events))"
  using owned_run [OF owned_init [OF assms(1,2)] assms(3)] by (simp add: owned_def)

text \<open>What a finished call publishes names, in its scope, the session it settled with.\<close>

lemma published_names:
  assumes "store_inv st" and "tool_mint ops session sc st = (Some i, st')"
  shows "\<exists>s. session = Some s \<and> names ops st' i sc s"
  using assms by (auto simp: tool_mint_def intro: mint_names split: option.splits prod.splits sum.splits)

end

section \<open>Properties\<close>

text \<open>The structured content of a settled call.\<close>

definition project_result ::
  "projection \<Rightarrow> agent_error + 'v turn_outcome \<Rightarrow> operation_id \<Rightarrow> continuation_id option \<Rightarrow> 'v json" where
  "project_result p result operation continuation =
     (case result of
        Inr outcome \<Rightarrow> projection_outcome p outcome operation continuation
      | Inl error \<Rightarrow> projection_failure p error operation continuation)"

text \<open>The name that a finished call publishes, in the store that minted it.\<close>

definition published :: "'st store_ops \<Rightarrow> 'st \<Rightarrow> scope \<Rightarrow> session_handle option \<Rightarrow> continuation_id option \<Rightarrow> bool" where
  "published store st scope session continuation \<longleftrightarrow>
     (case session of
        None \<Rightarrow> continuation = None
      | Some s \<Rightarrow> \<exists>i. continuation = Some i \<and> names store st i scope s)"

lemma memory_mint_published:
  assumes "memory_inv uuids st" and "tool_mint (memory_ops uuids) session sc st = (c, st')"
  shows "published (memory_ops uuids) st' sc session c"
proof (cases session)
  case None
  with assms(2) show ?thesis by (simp add: published_def tool_mint_def)
next
  case (Some s)
  obtain i st1 where m: "op_mint (memory_ops uuids) s sc st = (Inr i, st1)"
    by (cases st) (simp add: memory_ops_def split_beta)
  with assms(2) Some have "c = Some i" "st' = st1" by (simp_all add: tool_mint_def)
  with memory.mint_names [OF assms(1) m] Some show ?thesis by (simp add: published_def)
qed

lemma tool_finish_answer:
  assumes "memory_inv uuids st" and "tool_finish p (memory_ops uuids) sc op result st = (answer, st')"
  shows "\<exists>c. ctr_structured answer = Some (project_result p result op c)
     \<and> ctr_is_error answer = (\<not> is_ok result) \<and> published (memory_ops uuids) st' sc (settled_session result) c"
proof -
  obtain c st1 where m: "tool_mint (memory_ops uuids) (settled_session result) sc st = (c, st1)"
    by (cases "tool_mint (memory_ops uuids) (settled_session result) sc st")
  note pub = memory_mint_published [OF assms(1) m]
  show ?thesis
    using assms(2) m pub
    by (cases result)
      (auto simp: tool_finish_def settled_session_def project_result_def call_tool_text_def call_tool_error_def)
qed

lemma memory_begin_inv:
  assumes "memory_inv uuids st" and "turn_begin state ctx input st = (r, st')" and "ts_store state = memory_ops uuids"
  shows "memory_inv uuids st'"
  using memory.begin_keeps [OF assms] by simp

lemma tool_execute_answer:
  assumes inv: "memory_inv uuids st"
    and run: "tool_execute service p (memory_ops uuids) env wakes sc body st = (Answered answer, st', sent)"
  shows "\<exists>pre post result c. wakes = pre @ TurnSettles # post \<and> TurnSettles \<notin> set pre
     \<and> fst (service (ClientCancels \<in> set pre) (tool_request env body)) = Settled result
     \<and> ctr_structured answer = Some (project_result p result (ce_operation env) c)
     \<and> ctr_is_error answer = (\<not> is_ok result)
     \<and> published (memory_ops uuids) st' sc (settled_session result) c"
proof -
  from run obtain gone result where "run_until_settled wakes False = Some gone"
      and result: "fst (service gone (tool_request env body)) = Settled result"
      and finish: "tool_finish p (memory_ops uuids) sc (ce_operation env) result st = (answer, st')"
    by (auto simp: tool_execute_def Let_def split: option.splits ending.splits prod.splits)
  then obtain pre post where "wakes = pre @ TurnSettles # post" "TurnSettles \<notin> set pre" "gone = (ClientCancels \<in> set pre)"
    by (auto simp: run_until_settled_iff)
  with result tool_finish_answer [OF inv finish] show ?thesis by blast
qed

lemma tool_execute_sent: "tool_execute service p store env wakes sc body st = (e, st', sent) \<Longrightarrow> sent = Some (tool_request env body)"
  by (auto simp: tool_execute_def Let_def split: option.splits ending.splits prod.splits)

lemma turn_begin_turn:
  "turn_begin state ctx input st = (Inr (sc, t), st') \<Longrightarrow>
     ts_scopes state ctx = Inr sc \<and> turn_prompt t = ti_prompt input
     \<and> (turn_session t = None \<longleftrightarrow> ti_continuation input = None)"
  by (auto simp: turn_begin_def resolve_continuation_def Let_def turn_new_def turn_resume_def map_sum_Inr_iff
      split: sum.splits prod.splits option.splits)

text \<open>C27: a call of the tool either refuses before the service is called, with an effect-free validation failure, or
  calls the service with the given prompt, continuing a conversation exactly when a continuation was
  given. It waits for the turn to settle whether or not the client cancels, and its answer projects
  exactly that settlement: an error exactly for a failure, and a continuation that names the session
  the turn or the failure ended with whenever there is one.\<close>

theorem turn_tool_answers:
  assumes inv: "memory_inv uuids st" and store: "ts_store state = memory_ops uuids"
    and run: "turn_tool_run state env wakes ctx input st = (tool_end, st', sent)"
  shows "(sent = None \<longrightarrow>
       (\<exists>e. pure_refusal e \<and> tool_end = Answered (refuse_with (ts_projection state) (ce_operation env) e)))
   \<and> (\<forall>request answer. sent = Some request \<and> tool_end = Answered answer \<longrightarrow>
       turn_prompt (req_body request) = ti_prompt input
       \<and> (turn_session (req_body request) = None \<longleftrightarrow> ti_continuation input = None)
       \<and> (\<exists>pre post result scope c. wakes = pre @ TurnSettles # post \<and> TurnSettles \<notin> set pre
           \<and> fst (ts_service state (ClientCancels \<in> set pre) request) = Settled result
           \<and> ts_scopes state ctx = Inr scope
           \<and> ctr_structured answer = Some (project_result (ts_projection state) result (ce_operation env) c)
           \<and> ctr_is_error answer = (\<not> is_ok result)
           \<and> published (memory_ops uuids) st' scope (settled_session result) c))"
proof -
  obtain r st1 where b: "turn_begin state ctx input st = (r, st1)" by (cases "turn_begin state ctx input st")
  show ?thesis
  proof (cases r)
    case (Inl e)
    with run b have "sent = None" "tool_end = Answered (refuse_with (ts_projection state) (ce_operation env) e)"
      by (simp_all add: turn_tool_run_def)
    moreover have "pure_refusal e" using turn_begin_pure [OF b [unfolded Inl]] .
    ultimately show ?thesis by auto
  next
    case (Inr q)
    obtain sc t where q: "q = (sc, t)" by (cases q)
    have exec: "tool_execute (ts_service state) (ts_projection state) (memory_ops uuids) env wakes sc t st1
        = (tool_end, st', sent)"
      using run b Inr q store by (simp add: turn_tool_run_def)
    note sent = tool_execute_sent [OF exec]
    note begun = turn_begin_turn [OF b [unfolded Inr q]]
    have inv1: "memory_inv uuids st1" using memory_begin_inv [OF inv b store] .
    have body: "req_body (tool_request env t) = t"
      by (simp add: tool_request_def agent_request_with_context_def)
    show ?thesis
      using sent begun body tool_execute_answer [OF inv1, of "ts_service state" "ts_projection state" env wakes sc t] exec
      by (metis (no_types, lifting) option.distinct(1) option.inject)
  qed
qed

text \<open>A service that settles with a session, and a tool over it.\<close>

definition sample_service :: "(unit turn, nat) settling_service" where
  "sample_service gone request =
     (Settled (if gone then Inl (with_evidence (cancelled_in_flight ''Codex'')
                 (failure_evidence_default\<lparr>ev_session := Some (session_handle_new ''codex'' ''t1'')\<rparr>))
               else Inr ((turn_outcome_new ''done'')\<lparr>out_session := Some (session_handle_new ''codex'' ''t1'')\<rparr>)), True)"

definition sample_uuid :: "nat \<Rightarrow> string" where
  "sample_uuid n = replicate n CHR ''x'' @ ''y''"

definition sample_tool :: "(unit, nat \<times> memory_store, nat) turn_tool_state" where
  "sample_tool = tt_state (turn_tool_new sample_service (memory_ops sample_uuid) fixed_scope_stdio)"

definition sample_env :: call_env where
  "sample_env = \<lparr>ce_operation = 7, ce_token = [0], ce_observer = NoopObserver\<rparr>"

definition sample_store :: "nat \<times> memory_store" where
  "sample_store = (0, \<lparr>ms_capacity = 2, ms_entries = [], ms_order = []\<rparr>)"

lemma sample_memory_inv: "memory_inv sample_uuid sample_store"
proof -
  have "inj sample_uuid"
    by (rule injI) (drule arg_cong [of _ _ length], simp add: sample_uuid_def)
  then show ?thesis by (simp add: memory_inv_def sample_store_def store_wf_def store_bounded_def)
qed

lemmas sample_tools =
  sample_tool_def turn_tool_new_def fixed_scope_stdio_def fixed_scope_def memory_ops_def sample_store_def

theorem turn_tool_answers_witness:
  "\<exists>answer st' request. turn_tool_run sample_tool sample_env [ClientCancels, TurnSettles] ()
       \<lparr>ti_prompt = ''go'', ti_continuation = None\<rparr> sample_store = (Answered answer, st', Some request)
     \<and> ctr_is_error answer \<and> turn_prompt (req_body request) = ''go''"
proof -
  obtain e st' sent where run: "turn_tool_run sample_tool sample_env [ClientCancels, TurnSettles] ()
       \<lparr>ti_prompt = ''go'', ti_continuation = None\<rparr> sample_store = (e, st', sent)"
    by (cases "turn_tool_run sample_tool sample_env [ClientCancels, TurnSettles] ()
       \<lparr>ti_prompt = ''go'', ti_continuation = None\<rparr> sample_store")
  have "case turn_tool_run sample_tool sample_env [ClientCancels, TurnSettles] ()
       \<lparr>ti_prompt = ''go'', ti_continuation = None\<rparr> sample_store of
      (Answered answer, st', Some request) \<Rightarrow> ctr_is_error answer | _ \<Rightarrow> False"
    by (simp add: turn_tool_run_def turn_begin_def resolve_continuation_def sample_tools tool_execute_def sample_service_def
        tool_finish_def tool_mint_def call_tool_error_def split_beta Let_def)
  with run obtain answer request where "e = Answered answer" "sent = Some request" "ctr_is_error answer"
    by (auto split: tool_end.splits option.splits)
  moreover have "ts_store sample_tool = memory_ops sample_uuid"
    by (simp add: sample_tool_def turn_tool_new_def)
  ultimately show ?thesis
    using turn_tool_answers [OF sample_memory_inv _ run] run by auto
qed

text \<open>However the calls of any number of clients interleave with each other and with scopes that end, a turn that
  continues a conversation continues one that a call in the same scope settled with before.\<close>

theorem tool_resumes_own_scope:
  assumes "store_with_capacity capacity = Some m" and "inj uuids" and "ts_store state = memory_ops uuids"
  shows "set (sys_resumed (system_run state (system_init (0, m)) events))
     \<subseteq> set (sys_settled (system_run state (system_init (0, m)) events))"
proof -
  have "memory_inv uuids (0, m)"
    using store_with_capacity_Some [OF assms(1)] assms(2) by (simp add: memory_inv_def)
  moreover have "\<forall>i sc s. \<not> names (memory_ops uuids) (0, m) i sc s"
    using store_with_capacity_Some [OF assms(1)] by (simp add: names_def memory_ops_def store_resolve_def)
  ultimately show ?thesis
    using memory.resumed_owned [of uuids "(0, m)" state events] assms(3) by blast
qed

definition sample_events :: "(unit, nat) tool_event list" where
  "sample_events =
     [Arrive () \<lparr>ti_prompt = ''go'', ti_continuation = None\<rparr>,
      Settle 0 7 (Inr ((turn_outcome_new ''done'')\<lparr>out_session := Some (session_handle_new ''codex'' ''t1'')\<rparr>)),
      Arrive () \<lparr>ti_prompt = ''more'', ti_continuation = Some ''y''\<rparr>]"

theorem tool_resumes_own_scope_witness:
  "\<exists>m. store_with_capacity 2 = Some m
     \<and> set (sys_resumed (system_run sample_tool (system_init (0, m)) sample_events))
        \<subseteq> set (sys_settled (system_run sample_tool (system_init (0, m)) sample_events))
     \<and> sys_resumed (system_run sample_tool (system_init (0, m)) sample_events)
        = [(SessionScope ''stdio'', session_handle_new ''codex'' ''t1'')]"
proof -
  obtain m where m: "store_with_capacity 2 = Some m" and eq: "(0, m) = sample_store"
    by (simp add: store_with_capacity_def sample_store_def)
  have "inj sample_uuid" using sample_memory_inv by (simp add: memory_inv_def)
  moreover have "ts_store sample_tool = memory_ops sample_uuid"
    by (simp add: sample_tool_def turn_tool_new_def)
  moreover have "sys_resumed (system_run sample_tool (system_init sample_store) sample_events)
      = [(SessionScope ''stdio'', session_handle_new ''codex'' ''t1'')]"
  proof -
    have "\<not> is_blank ''y''" by code_simp
    then show ?thesis
      by (simp add: system_run_def sample_events_def turn_begin_def resolve_continuation_def resolve_named_def sample_tools
          tool_finish_def tool_mint_def settled_session_def system_init_def store_mint_def store_resolve_def
          continuation_parse_def continuation_generate_def sample_uuid_def turn_new_def turn_resume_def Let_def)
  qed
  ultimately show ?thesis
    using tool_resumes_own_scope [OF m, of sample_uuid sample_tool sample_events] m eq by auto
qed

end
