(* ===== verification/Claude_Query.thy ===== *)
theory Claude_Query
  imports Environment Agent_Error
begin

text \<open>
  \<open>tower-agent-claude\<close>, everything before launch: the options of a turn, the host's service
  settings, the session and preassignment checks, the combination of the host's ambient-context
  baseline with the turn's, and the command line built for the wrapper. \<open>claude_wrapper\<close>, \<open>uuid\<close>,
  \<open>serde_json\<close> and \<open>jsonschema\<close> are other crates: a builder of the wrapper is the list of the
  builder calls the code makes, the functions of the others are parameters (\<open>json_ops\<close>,
  \<open>parse_uuid\<close>).
\<close>

section \<open>Names and bounds\<close>

definition claude_provider :: string where
  "claude_provider = ''claude''"

definition claude_display :: string where
  "claude_display = ''Claude''"

definition max_json_schema_bytes :: nat where
  "max_json_schema_bytes = 1024 * 1024"

section \<open>Options\<close>

datatype claude_hermetic = HermeticFull | HermeticProject

datatype claude_ambient_context = AmbientInherit | AmbientHermetic claude_hermetic | AmbientSafe | AmbientBare

datatype claude_effort = EffortLow | EffortMedium | EffortHigh

datatype claude_permission_mode = ModeDefault | ModeAcceptEdits | ModeDontAsk | ModePlan | ModeAuto

record 'j claude_options =
  co_system_prompt :: "string option"
  co_append_system_prompt :: "string option"
  co_model :: "string option"
  co_fallback_model :: "string option"
  co_effort :: "claude_effort option"
  co_allowed_tools :: "string list"
  co_disallowed_tools :: "string list"
  co_additional_directories :: "path list"
  co_max_turns :: "u32 option"
  co_max_budget_usd :: "f64 option"
  co_permission_mode :: "claude_permission_mode option"
  co_json_schema :: "'j option"
  co_strict_mcp_config :: bool
  co_ambient_context :: claude_ambient_context

definition claude_options_default :: "'j claude_options" where
  "claude_options_default =
     \<lparr>co_system_prompt = None, co_append_system_prompt = None, co_model = None, co_fallback_model = None,
      co_effort = None, co_allowed_tools = [], co_disallowed_tools = [], co_additional_directories = [],
      co_max_turns = None, co_max_budget_usd = None, co_permission_mode = None, co_json_schema = None,
      co_strict_mcp_config = False, co_ambient_context = AmbientInherit\<rparr>"

section \<open>Service settings\<close>

record claude_service =
  cs_binary :: "path option"
  cs_config_directory :: "path option"
  cs_kill_grace :: "duration option"
  cs_output_limit :: "nat option"
  cs_die_with_parent :: bool
  cs_spawn_observer :: bool
  cs_child_environment :: child_environment_policy
  cs_ambient_context :: claude_ambient_context

definition claude_service_new :: claude_service where
  "claude_service_new =
     \<lparr>cs_binary = None, cs_config_directory = None, cs_kill_grace = None, cs_output_limit = None,
      cs_die_with_parent = False, cs_spawn_observer = False, cs_child_environment = env_inherit,
      cs_ambient_context = AmbientInherit\<rparr>"

definition claude_with_binary :: "claude_service \<Rightarrow> path \<Rightarrow> claude_service" where
  "claude_with_binary s p = s\<lparr>cs_binary := Some p\<rparr>"

definition claude_with_config_directory :: "claude_service \<Rightarrow> path \<Rightarrow> claude_service" where
  "claude_with_config_directory s p = s\<lparr>cs_config_directory := Some p\<rparr>"

definition claude_with_output_limit :: "claude_service \<Rightarrow> nat \<Rightarrow> claude_service" where
  "claude_with_output_limit s n = s\<lparr>cs_output_limit := Some n\<rparr>"

definition claude_with_kill_grace :: "claude_service \<Rightarrow> duration \<Rightarrow> claude_service" where
  "claude_with_kill_grace s d = s\<lparr>cs_kill_grace := Some d\<rparr>"

definition claude_with_die_with_parent :: "claude_service \<Rightarrow> bool \<Rightarrow> claude_service" where
  "claude_with_die_with_parent s b = s\<lparr>cs_die_with_parent := b\<rparr>"

definition claude_with_spawn_observer :: "claude_service \<Rightarrow> claude_service" where
  "claude_with_spawn_observer s = s\<lparr>cs_spawn_observer := True\<rparr>"

definition claude_with_child_environment_policy :: "claude_service \<Rightarrow> child_environment_policy \<Rightarrow> claude_service" where
  "claude_with_child_environment_policy s p = s\<lparr>cs_child_environment := p\<rparr>"

definition claude_with_ambient_context_policy :: "claude_service \<Rightarrow> claude_ambient_context \<Rightarrow> claude_service" where
  "claude_with_ambient_context_policy s c = s\<lparr>cs_ambient_context := c\<rparr>"

section \<open>Ambient context\<close>

fun effective_ambient_context ::
  "claude_ambient_context \<Rightarrow> claude_ambient_context \<Rightarrow> agent_error + claude_ambient_context" where
  "effective_ambient_context AmbientInherit requested = Inr requested"
| "effective_ambient_context host AmbientInherit = Inr host"
| "effective_ambient_context host requested =
     (if host = requested then Inr host
      else case (host, requested) of
             (AmbientHermetic HermeticProject, AmbientHermetic HermeticFull) \<Rightarrow> Inr (AmbientHermetic HermeticFull)
           | (AmbientHermetic HermeticFull, AmbientHermetic HermeticProject) \<Rightarrow> Inr (AmbientHermetic HermeticFull)
           | _ \<Rightarrow> Inl (invalid_request ''requested Claude ambient-context mode conflicts with the host baseline''))"

section \<open>Sessions\<close>

definition claude_preflight_session :: "'o turn \<Rightarrow> agent_error + unit" where
  "claude_preflight_session t =
     (if is_blank (turn_prompt t) then Inl (invalid_request ''prompt must not be empty'')
      else case turn_session t of
        None \<Rightarrow> Inr ()
      | Some session \<Rightarrow>
          if handle_provider session \<noteq> claude_provider
          then Inl (error_new Unsupported
                 (''cannot resume '' @ handle_provider session @ '' session with Claude service'') Validation EffNone)
          else if is_blank (handle_value session)
          then Inl (invalid_request ''Claude session handle must not be empty'')
          else if starts_with hyphen (handle_value session)
          then Inl (invalid_request ''Claude session handle must not begin with a hyphen'')
          else Inr ())"

text \<open>\<open>parse_uuid v\<close> is the hyphenated rendering of the UUID that \<open>v\<close> denotes, if any.\<close>

definition validate_preassigned_session ::
  "(string \<Rightarrow> string option) \<Rightarrow> 'o turn agent_request \<Rightarrow> agent_error + session_handle option" where
  "validate_preassigned_session parse_uuid request =
     (case ctx_preassigned_session (req_context request) of
        None \<Rightarrow> Inr None
      | Some session \<Rightarrow>
          if is_some (turn_session (req_body request))
          then Inl (invalid_request ''a preassigned Claude session cannot be combined with resume'')
          else if handle_provider session \<noteq> claude_provider
          then Inl (unsupported ''the preassigned session is not a Claude session'')
          else case parse_uuid (handle_value session) of
                 None \<Rightarrow> Inl (invalid_request ''a preassigned Claude session must be a canonical UUID'')
               | Some canonical \<Rightarrow>
                   if handle_value session \<noteq> canonical
                   then Inl (invalid_request ''a preassigned Claude session must be a canonical lowercase UUID'')
                   else Inr (Some (session_handle_new claude_provider canonical)))"

section \<open>The query\<close>

text \<open>What the code uses of \<open>serde_json\<close> and \<open>jsonschema\<close>.\<close>

record 'j json_ops =
  js_is_object :: "'j \<Rightarrow> bool"
  js_is_null :: "'j \<Rightarrow> bool"
  js_as_str :: "'j \<Rightarrow> string option"
  js_encode :: "'j \<Rightarrow> string option"
  js_draft7_valid :: "'j \<Rightarrow> bool"

definition validate_json_schema :: "'j json_ops \<Rightarrow> 'j \<Rightarrow> agent_error + string" where
  "validate_json_schema js schema =
     (if \<not> js_is_object js schema then Inl (invalid_request ''Claude JSON schema must be an object'')
      else and_then
        (ok_or (error_new Internal ''Claude JSON schema could not be serialized'' Validation EffNone) (js_encode js schema))
        (\<lambda>encoded.
          if max_json_schema_bytes < length encoded
          then Inl (invalid_request (''Claude JSON schema exceeds the '' @ show_nat max_json_schema_bytes @ ''-byte limit''))
          else if \<not> js_draft7_valid js schema
          then Inl (invalid_request ''Claude JSON schema is not valid JSON Schema draft-07'')
          else Inr encoded))"

text \<open>One call of a builder method of \<open>QueryCommand\<close>.\<close>

datatype query_setting =
    QNew string
  | QSystemPrompt string
  | QAppendSystemPrompt string
  | QModel string
  | QFallbackModel string
  | QEffort claude_effort
  | QMaxBudgetUsd f64
  | QPermissionMode claude_permission_mode
  | QJsonSchema string
  | QResume string
  | QSessionId string
  | QMaxTurns u32
  | QAllowedTools "string list"
  | QDisallowedTools "string list"
  | QAddDir string
  | QStrictMcpConfig
  | QHermeticScoped claude_hermetic
  | QSafeMode
  | QBare
  | QPromptViaStdin bool

type_synonym query_command = "query_setting list"

definition when_some :: "('a \<Rightarrow> query_setting) \<Rightarrow> 'a option \<Rightarrow> query_command" where
  "when_some f x = (case x of None \<Rightarrow> [] | Some a \<Rightarrow> [f a])"

fun add_directories :: "path list \<Rightarrow> agent_error + query_command" where
  "add_directories [] = Inr []"
| "add_directories (d # ds) =
     (case path_to_str d of
        None \<Rightarrow> Inl (invalid_request ''additional Claude directories must be valid UTF-8'')
      | Some s \<Rightarrow> and_then (add_directories ds) (\<lambda>qs. Inr (QAddDir s # qs)))"

fun ambient_flags :: "claude_ambient_context \<Rightarrow> query_command" where
  "ambient_flags AmbientInherit = []"
| "ambient_flags (AmbientHermetic h) = [QHermeticScoped h]"
| "ambient_flags AmbientSafe = [QSafeMode]"
| "ambient_flags AmbientBare = [QBare]"

definition build_query ::
  "'j json_ops \<Rightarrow> 'j claude_options turn \<Rightarrow> claude_ambient_context \<Rightarrow> session_handle option
     \<Rightarrow> agent_error + query_command" where
  "build_query js t ambient preassigned =
     (let options = turn_options t in
      if (case co_model options of None \<Rightarrow> False | Some m \<Rightarrow> is_blank m)
      then Inl (invalid_request ''Claude model must not be empty'')
      else if co_max_turns options = Some 0
      then Inl (invalid_request ''Claude maximum turns must be greater than zero'')
      else if list_ex is_blank (co_allowed_tools options @ co_disallowed_tools options)
      then Inl (invalid_request ''Claude tool patterns must not be empty'')
      else if (case co_max_budget_usd options of None \<Rightarrow> False
               | Some budget \<Rightarrow> \<not> f64_is_finite budget \<or> f64_le_zero budget)
      then Inl (invalid_request ''Claude budget must be a positive amount'')
      else if (case co_fallback_model options of None \<Rightarrow> False | Some m \<Rightarrow> is_blank m)
      then Inl (invalid_request ''Claude fallback model must not be empty'')
      else and_then
        (case co_json_schema options of
           None \<Rightarrow> Inr None
         | Some schema \<Rightarrow> and_then (validate_json_schema js schema) (\<lambda>s. Inr (Some s)))
        (\<lambda>json_schema.
          let command =
            [QNew (turn_prompt t)]
            @ when_some QSystemPrompt (co_system_prompt options)
            @ when_some QAppendSystemPrompt (co_append_system_prompt options)
            @ when_some QModel (co_model options)
            @ when_some QFallbackModel (co_fallback_model options)
            @ when_some QEffort (co_effort options)
            @ when_some QMaxBudgetUsd (co_max_budget_usd options)
            @ when_some QPermissionMode (co_permission_mode options)
            @ when_some QJsonSchema json_schema
            @ (case turn_session t of
                 Some session \<Rightarrow> [QResume (handle_value session)]
               | None \<Rightarrow> when_some (QSessionId \<circ> handle_value) preassigned)
            @ when_some QMaxTurns (co_max_turns options)
            @ (if co_allowed_tools options = [] then [] else [QAllowedTools (co_allowed_tools options)])
            @ (if co_disallowed_tools options = [] then [] else [QDisallowedTools (co_disallowed_tools options)])
          in and_then (add_directories (co_additional_directories options)) (\<lambda>dirs.
               Inr (command @ dirs
                 @ (if co_strict_mcp_config options then [QStrictMcpConfig] else [])
                 @ ambient_flags ambient
                 @ [QPromptViaStdin True]))))"

definition claude_preflight :: "'j json_ops \<Rightarrow> claude_service \<Rightarrow> 'j claude_options turn \<Rightarrow> agent_error + unit" where
  "claude_preflight js service t =
     and_then (claude_preflight_session t) (\<lambda>_.
       and_then (effective_ambient_context (cs_ambient_context service) (co_ambient_context (turn_options t))) (\<lambda>ambient.
         and_then (build_query js t ambient None) (\<lambda>_. Inr ())))"

section \<open>What is accepted\<close>

text \<open>
  The promise of the validation phase, without its order: which turns a host accepts. A requested
  ambient context is compatible with a baseline when one of them asks for nothing, both are
  hermetic, or they agree.
\<close>

fun hermetic :: "claude_ambient_context \<Rightarrow> bool" where
  "hermetic (AmbientHermetic _) = True"
| "hermetic _ = False"

definition ambient_compatible :: "claude_ambient_context \<Rightarrow> claude_ambient_context \<Rightarrow> bool" where
  "ambient_compatible a b \<longleftrightarrow> a = AmbientInherit \<or> b = AmbientInherit \<or> a = b \<or> hermetic a \<and> hermetic b"

text \<open>The order "at least as sealed": inherit below everything, the project seal below the full one.\<close>

definition ambient_le :: "claude_ambient_context \<Rightarrow> claude_ambient_context \<Rightarrow> bool" where
  "ambient_le a b \<longleftrightarrow>
     a = AmbientInherit \<or> a = b \<or> a = AmbientHermetic HermeticProject \<and> b = AmbientHermetic HermeticFull"

definition schema_acceptable :: "'j json_ops \<Rightarrow> 'j \<Rightarrow> bool" where
  "schema_acceptable js schema \<longleftrightarrow>
     js_is_object js schema \<and> js_draft7_valid js schema
     \<and> (case js_encode js schema of None \<Rightarrow> False | Some s \<Rightarrow> length s \<le> max_json_schema_bytes)"

definition claude_options_valid :: "'j json_ops \<Rightarrow> 'j claude_options \<Rightarrow> bool" where
  "claude_options_valid js opts \<longleftrightarrow>
     pred_option (\<lambda>m. \<not> is_blank m) (co_model opts) \<and> pred_option (\<lambda>m. \<not> is_blank m) (co_fallback_model opts)
     \<and> co_max_turns opts \<noteq> Some 0
     \<and> list_all (\<lambda>tool. \<not> is_blank tool) (co_allowed_tools opts) \<and> list_all (\<lambda>tool. \<not> is_blank tool) (co_disallowed_tools opts)
     \<and> pred_option (\<lambda>b. f64_is_finite b \<and> \<not> f64_le_zero b) (co_max_budget_usd opts)
     \<and> pred_option (schema_acceptable js) (co_json_schema opts)
     \<and> list_all utf8_valid (co_additional_directories opts)"

definition claude_session_valid :: "session_handle \<Rightarrow> bool" where
  "claude_session_valid s \<longleftrightarrow>
     handle_provider s = claude_provider \<and> \<not> is_blank (handle_value s) \<and> \<not> starts_with hyphen (handle_value s)"

section \<open>Lemmas\<close>

lemma effective_ambient_Inr:
  "effective_ambient_context h r = Inr c \<longleftrightarrow>
     ambient_compatible h r
     \<and> c = (if h = AmbientInherit then r else if r = AmbientInherit \<or> h = r then h else AmbientHermetic HermeticFull)"
  by (cases "(h, r)" rule: effective_ambient_context.cases)
    (auto simp: ambient_compatible_def split: claude_hermetic.splits claude_ambient_context.splits)

lemma all_ambient:
  "(\<forall>c. P c) \<longleftrightarrow> P AmbientInherit \<and> P (AmbientHermetic HermeticFull) \<and> P (AmbientHermetic HermeticProject)
     \<and> P AmbientSafe \<and> P AmbientBare"
proof (intro iffI allI)
  fix c
  assume P: "P AmbientInherit \<and> P (AmbientHermetic HermeticFull) \<and> P (AmbientHermetic HermeticProject)
     \<and> P AmbientSafe \<and> P AmbientBare"
  show "P c"
  proof (cases c)
    case (AmbientHermetic h)
    with P show ?thesis by (cases h) simp_all
  qed (use P in simp_all)
qed simp

text \<open>Compatible modes have a least mode above both, and only they have one.\<close>

lemma ambient_lub:
  "ambient_compatible h r
     \<and> c = (if h = AmbientInherit then r else if r = AmbientInherit \<or> h = r then h else AmbientHermetic HermeticFull)
   \<longleftrightarrow> ambient_le h c \<and> ambient_le r c \<and> (\<forall>d. ambient_le h d \<and> ambient_le r d \<longrightarrow> ambient_le c d)"
proof -
  have "\<forall>h r c. ambient_compatible h r
     \<and> c = (if h = AmbientInherit then r else if r = AmbientInherit \<or> h = r then h else AmbientHermetic HermeticFull)
   \<longleftrightarrow> ambient_le h c \<and> ambient_le r c \<and> (\<forall>d. ambient_le h d \<and> ambient_le r d \<longrightarrow> ambient_le c d)"
    unfolding all_ambient by (simp add: ambient_compatible_def ambient_le_def)
  then show ?thesis by blast
qed

lemma effective_ambient_is_ok: "is_ok (effective_ambient_context h r) \<longleftrightarrow> ambient_compatible h r"
  using effective_ambient_Inr [of h r] by (cases "effective_ambient_context h r") auto

lemma effective_ambient_Inl:
  "effective_ambient_context h r = Inl e \<Longrightarrow>
     e = invalid_request ''requested Claude ambient-context mode conflicts with the host baseline''"
  by (cases "(h, r)" rule: effective_ambient_context.cases)
    (auto split: if_splits claude_hermetic.splits claude_ambient_context.splits)

lemma claude_preflight_session_is_ok:
  "is_ok (claude_preflight_session t) \<longleftrightarrow>
     \<not> is_blank (turn_prompt t) \<and> pred_option claude_session_valid (turn_session t)"
  by (auto simp: claude_preflight_session_def claude_session_valid_def split: option.splits)

lemma validate_json_schema_is_ok: "is_ok (validate_json_schema js schema) \<longleftrightarrow> schema_acceptable js schema"
  by (cases "js_encode js schema") (auto simp: validate_json_schema_def schema_acceptable_def)

lemma add_directories_Inr: "add_directories ds = Inr qs \<longleftrightarrow> list_all utf8_valid ds \<and> qs = map QAddDir ds"
  by (induction ds arbitrary: qs) (auto simp: path_to_str_def and_then_eq_Inr)

lemma add_directories_is_ok: "is_ok (add_directories ds) \<longleftrightarrow> list_all utf8_valid ds"
  using add_directories_Inr [of ds] by (cases "add_directories ds") auto

lemma schema_step_is_ok:
  "is_ok (case schema of None \<Rightarrow> Inr None | Some sc \<Rightarrow> and_then (validate_json_schema js sc) (\<lambda>s. Inr (Some s)))
     \<longleftrightarrow> pred_option (schema_acceptable js) schema"
proof (cases schema)
  case (Some sc)
  then show ?thesis
    using validate_json_schema_is_ok [of js sc] by (cases "validate_json_schema js sc") auto
qed simp

lemma build_query_is_ok: "is_ok (build_query js t ambient preassigned) \<longleftrightarrow> claude_options_valid js (turn_options t)"
proof -
  have and_const: "is_ok (and_then r (\<lambda>a. and_then q (f a))) \<longleftrightarrow> is_ok r \<and> is_ok q"
    if "\<And>a b. is_ok (f a b)" for r :: "agent_error + string option" and q :: "agent_error + query_command"
      and f :: "string option \<Rightarrow> query_command \<Rightarrow> agent_error + query_command"
    using that by (cases r; cases q) auto
  show ?thesis
    by (auto simp: build_query_def Let_def claude_options_valid_def and_const schema_step_is_ok add_directories_is_ok
        list_ex_iff list_all_iff split: option.splits)
qed

lemma claude_preflight_session_refusal: "claude_preflight_session t = Inl e \<Longrightarrow> pure_refusal e"
  by (auto simp: claude_preflight_session_def split: if_splits option.splits)

lemma validate_preassigned_refusal: "validate_preassigned_session u r = Inl e \<Longrightarrow> pure_refusal e"
  by (auto simp: validate_preassigned_session_def split: if_splits option.splits)

lemma add_directories_refusal: "add_directories ds = Inl e \<Longrightarrow> pure_refusal e"
  by (induction ds) (auto simp: and_then_eq_Inl split: option.splits)

lemma build_query_refusal: "build_query js t ambient preassigned = Inl e \<Longrightarrow> pure_refusal e"
  by (auto simp: build_query_def Let_def and_then_eq_Inl validate_json_schema_def ok_or_def
      dest: add_directories_refusal split: if_splits option.splits)

end
