(* ===== verification/Plan_Partial.thy ===== *)
theory Plan_Partial
  imports Authority Claude_Query Codex_Command
begin

text \<open>
  \<open>tower-agent-plan\<close>, the data: provider identities (\<open>provider.rs\<close>), the partial turn every planning
  layer is (\<open>partial.rs\<close>), the provider-specific groups (\<open>claude.rs\<close>, \<open>codex.rs\<close>) and how a higher
  layer is folded over a lower one. Every \<open>merge_from\<close> is shown to be a \<open>layering\<close>.
\<close>

section \<open>Providers\<close>

datatype provider_id = Claude | Codex

fun provider_as_str :: "provider_id \<Rightarrow> string" where
  "provider_as_str Claude = ''claude''"
| "provider_as_str Codex = ''codex''"

definition parse_provider :: "string \<Rightarrow> string + provider_id" where
  "parse_provider value =
     (if value = ''claude'' then Inr Claude else if value = ''codex'' then Inr Codex else Inl value)"

definition unknown_provider_display :: "string \<Rightarrow> string" where
  "unknown_provider_display name = ''unknown provider: '' @ name"

lemma provider_roundtrip: "parse_provider value = Inr p \<longleftrightarrow> provider_as_str p = value"
  by (cases p) (auto simp: parse_provider_def)

section \<open>Wire forms\<close>

datatype filesystem_choice = ChooseReadOnly | ChooseWorkspaceWrite | ChooseFullAccess

fun choice_authority :: "filesystem_choice \<Rightarrow> filesystem_authority" where
  "choice_authority ChooseReadOnly = ReadOnly"
| "choice_authority ChooseWorkspaceWrite = WorkspaceWrite"
| "choice_authority ChooseFullAccess = FullAccess"

fun authority_choice :: "filesystem_authority \<Rightarrow> filesystem_choice" where
  "authority_choice ReadOnly = ChooseReadOnly"
| "authority_choice WorkspaceWrite = ChooseWorkspaceWrite"
| "authority_choice FullAccess = ChooseFullAccess"

lemma choice_roundtrip [simp]: "authority_choice (choice_authority c) = c"
  by (cases c) simp_all

lemma authority_roundtrip [simp]: "choice_authority (authority_choice a) = a"
  by (cases a) simp_all

datatype effort_choice = ChooseLow | ChooseMedium | ChooseHigh

fun effort_of :: "effort_choice \<Rightarrow> claude_effort" where
  "effort_of ChooseLow = EffortLow"
| "effort_of ChooseMedium = EffortMedium"
| "effort_of ChooseHigh = EffortHigh"

datatype permission_mode_choice = ChooseDefault | ChooseAcceptEdits | ChooseDontAsk | ChoosePlan | ChooseAuto

fun permission_mode_of :: "permission_mode_choice \<Rightarrow> claude_permission_mode" where
  "permission_mode_of ChooseDefault = ModeDefault"
| "permission_mode_of ChooseAcceptEdits = ModeAcceptEdits"
| "permission_mode_of ChooseDontAsk = ModeDontAsk"
| "permission_mode_of ChoosePlan = ModePlan"
| "permission_mode_of ChooseAuto = ModeAuto"

datatype ambient_context_choice =
  ChooseInherit | ChooseHermeticProject | ChooseHermeticFull | ChooseSafe | ChooseBare

fun ambient_of :: "ambient_context_choice \<Rightarrow> claude_ambient_context" where
  "ambient_of ChooseInherit = AmbientInherit"
| "ambient_of ChooseHermeticProject = AmbientHermetic HermeticProject"
| "ambient_of ChooseHermeticFull = AmbientHermetic HermeticFull"
| "ambient_of ChooseSafe = AmbientSafe"
| "ambient_of ChooseBare = AmbientBare"

section \<open>Resume bindings\<close>

record resume_binding =
  rb_provider :: provider_id
  rb_value :: string

definition resume_binding_new :: "provider_id \<Rightarrow> string \<Rightarrow> resume_binding" where
  "resume_binding_new provider value = \<lparr>rb_provider = provider, rb_value = value\<rparr>"

definition to_session_handle :: "resume_binding \<Rightarrow> session_handle" where
  "to_session_handle b = session_handle_new (provider_as_str (rb_provider b)) (rb_value b)"

definition resume_binding_debug :: "resume_binding \<Rightarrow> debug_struct" where
  "resume_binding_debug b =
     (''ResumeBinding'',
      [(''provider'', case rb_provider b of Claude \<Rightarrow> ''Claude'' | Codex \<Rightarrow> ''Codex''), (''value'', ''[redacted]'')])"

section \<open>Groups\<close>

record partial_model =
  pm_name :: "string option"

record partial_context =
  pc_cwd :: "path option"
  pc_additional_directories :: "path list option"
  pc_resume :: "resume_binding option"

record partial_permissions =
  pp_filesystem :: "filesystem_choice option"

record 'j partial_claude_options =
  pco_system_prompt :: "string option"
  pco_append_system_prompt :: "string option"
  pco_fallback_model :: "string option"
  pco_effort :: "effort_choice option"
  pco_allowed_tools :: "string list option"
  pco_disallowed_tools :: "string list option"
  pco_max_turns :: "u32 option"
  pco_max_budget_usd :: "f64 option"
  pco_permission_mode :: "permission_mode_choice option"
  pco_json_schema :: "'j option"
  pco_strict_mcp_config :: "bool option"
  pco_ambient_context :: "ambient_context_choice option"

record 'j partial_codex_options =
  pxo_system_prompt :: "string option"
  pxo_output_schema :: "'j option"
  pxo_ephemeral :: "bool option"

record 'j partial_provider_options =
  ppo_claude :: "'j partial_claude_options option"
  ppo_codex :: "'j partial_codex_options option"

record 'j partial_turn =
  par_provider :: "provider_id option"
  par_prompt :: "string option"
  par_model :: partial_model
  par_context :: partial_context
  par_permissions :: partial_permissions
  par_provider_options :: "'j partial_provider_options"

record 'j profile =
  prof_name :: string
  prof_turn :: "'j partial_turn"

section \<open>Unbound layers\<close>

definition unbound_model :: partial_model where
  "unbound_model = \<lparr>pm_name = None\<rparr>"

definition unbound_context :: partial_context where
  "unbound_context = \<lparr>pc_cwd = None, pc_additional_directories = None, pc_resume = None\<rparr>"

definition unbound_permissions :: partial_permissions where
  "unbound_permissions = \<lparr>pp_filesystem = None\<rparr>"

definition unbound_claude_options :: "'j partial_claude_options" where
  "unbound_claude_options =
     \<lparr>pco_system_prompt = None, pco_append_system_prompt = None, pco_fallback_model = None, pco_effort = None,
      pco_allowed_tools = None, pco_disallowed_tools = None, pco_max_turns = None, pco_max_budget_usd = None,
      pco_permission_mode = None, pco_json_schema = None, pco_strict_mcp_config = None, pco_ambient_context = None\<rparr>"

definition unbound_codex_options :: "'j partial_codex_options" where
  "unbound_codex_options = \<lparr>pxo_system_prompt = None, pxo_output_schema = None, pxo_ephemeral = None\<rparr>"

definition unbound_provider_options :: "'j partial_provider_options" where
  "unbound_provider_options = \<lparr>ppo_claude = None, ppo_codex = None\<rparr>"

definition unbound_turn :: "'j partial_turn" where
  "unbound_turn =
     \<lparr>par_provider = None, par_prompt = None, par_model = unbound_model, par_context = unbound_context,
      par_permissions = unbound_permissions, par_provider_options = unbound_provider_options\<rparr>"

definition model_is_unbound :: "partial_model \<Rightarrow> bool" where
  "model_is_unbound m \<longleftrightarrow> pm_name m = None"

definition context_is_unbound :: "partial_context \<Rightarrow> bool" where
  "context_is_unbound c \<longleftrightarrow> pc_cwd c = None \<and> pc_additional_directories c = None \<and> pc_resume c = None"

definition permissions_is_unbound :: "partial_permissions \<Rightarrow> bool" where
  "permissions_is_unbound p \<longleftrightarrow> pp_filesystem p = None"

definition provider_options_is_unbound :: "'j partial_provider_options \<Rightarrow> bool" where
  "provider_options_is_unbound p \<longleftrightarrow> \<not> is_some (ppo_claude p) \<and> \<not> is_some (ppo_codex p)"

section \<open>Merging\<close>

text \<open>\<open>if layer.x.is_some() { self.x = layer.x }\<close> for one field is \<open>overlay_option\<close>.\<close>

definition merge_model :: "partial_model \<Rightarrow> partial_model \<Rightarrow> partial_model" where
  "merge_model self layer = \<lparr>pm_name = overlay_option (pm_name self) (pm_name layer)\<rparr>"

definition merge_context :: "partial_context \<Rightarrow> partial_context \<Rightarrow> partial_context" where
  "merge_context self layer =
     \<lparr>pc_cwd = overlay_option (pc_cwd self) (pc_cwd layer),
      pc_additional_directories = overlay_option (pc_additional_directories self) (pc_additional_directories layer),
      pc_resume = overlay_option (pc_resume self) (pc_resume layer)\<rparr>"

definition merge_permissions :: "partial_permissions \<Rightarrow> partial_permissions \<Rightarrow> partial_permissions" where
  "merge_permissions self layer = \<lparr>pp_filesystem = overlay_option (pp_filesystem self) (pp_filesystem layer)\<rparr>"

definition merge_claude_options ::
  "'j partial_claude_options \<Rightarrow> 'j partial_claude_options \<Rightarrow> 'j partial_claude_options" where
  "merge_claude_options self layer =
     \<lparr>pco_system_prompt = overlay_option (pco_system_prompt self) (pco_system_prompt layer),
      pco_append_system_prompt = overlay_option (pco_append_system_prompt self) (pco_append_system_prompt layer),
      pco_fallback_model = overlay_option (pco_fallback_model self) (pco_fallback_model layer),
      pco_effort = overlay_option (pco_effort self) (pco_effort layer),
      pco_allowed_tools = overlay_option (pco_allowed_tools self) (pco_allowed_tools layer),
      pco_disallowed_tools = overlay_option (pco_disallowed_tools self) (pco_disallowed_tools layer),
      pco_max_turns = overlay_option (pco_max_turns self) (pco_max_turns layer),
      pco_max_budget_usd = overlay_option (pco_max_budget_usd self) (pco_max_budget_usd layer),
      pco_permission_mode = overlay_option (pco_permission_mode self) (pco_permission_mode layer),
      pco_json_schema = overlay_option (pco_json_schema self) (pco_json_schema layer),
      pco_strict_mcp_config = overlay_option (pco_strict_mcp_config self) (pco_strict_mcp_config layer),
      pco_ambient_context = overlay_option (pco_ambient_context self) (pco_ambient_context layer)\<rparr>"

definition merge_codex_options ::
  "'j partial_codex_options \<Rightarrow> 'j partial_codex_options \<Rightarrow> 'j partial_codex_options" where
  "merge_codex_options self layer =
     \<lparr>pxo_system_prompt = overlay_option (pxo_system_prompt self) (pxo_system_prompt layer),
      pxo_output_schema = overlay_option (pxo_output_schema self) (pxo_output_schema layer),
      pxo_ephemeral = overlay_option (pxo_ephemeral self) (pxo_ephemeral layer)\<rparr>"

text \<open>The \<open>match\<close> on a pair of optional groups.\<close>

fun overlay_group :: "('a \<Rightarrow> 'a \<Rightarrow> 'a) \<Rightarrow> 'a option \<Rightarrow> 'a option \<Rightarrow> 'a option" where
  "overlay_group merge (Some current) (Some incoming) = Some (merge current incoming)"
| "overlay_group merge None (Some incoming) = Some incoming"
| "overlay_group merge current None = current"

definition merge_provider_options ::
  "'j partial_provider_options \<Rightarrow> 'j partial_provider_options \<Rightarrow> 'j partial_provider_options" where
  "merge_provider_options self layer =
     \<lparr>ppo_claude = overlay_group merge_claude_options (ppo_claude self) (ppo_claude layer),
      ppo_codex = overlay_group merge_codex_options (ppo_codex self) (ppo_codex layer)\<rparr>"

definition merge_turn :: "'j partial_turn \<Rightarrow> 'j partial_turn \<Rightarrow> 'j partial_turn" where
  "merge_turn self layer =
     \<lparr>par_provider = overlay_option (par_provider self) (par_provider layer),
      par_prompt = overlay_option (par_prompt self) (par_prompt layer),
      par_model = merge_model (par_model self) (par_model layer),
      par_context = merge_context (par_context self) (par_context layer),
      par_permissions = merge_permissions (par_permissions self) (par_permissions layer),
      par_provider_options = merge_provider_options (par_provider_options self) (par_provider_options layer)\<rparr>"

section \<open>Every merge is a layering\<close>

interpretation models: layering merge_model unbound_model
  by unfold_locales (simp_all add: merge_model_def unbound_model_def overlay_option_laws)

interpretation contexts: layering merge_context unbound_context
  by unfold_locales (simp_all add: merge_context_def unbound_context_def overlay_option_laws)

interpretation permissions: layering merge_permissions unbound_permissions
  by unfold_locales (simp_all add: merge_permissions_def unbound_permissions_def overlay_option_laws)

interpretation claude_groups: layering merge_claude_options unbound_claude_options
  by unfold_locales (simp_all add: merge_claude_options_def unbound_claude_options_def overlay_option_laws)

interpretation codex_groups: layering merge_codex_options unbound_codex_options
  by unfold_locales (simp_all add: merge_codex_options_def unbound_codex_options_def overlay_option_laws)

text \<open>An optional group of a layering is a layering in which an absent group is the unbound one.\<close>

lemma overlay_group_layering:
  assumes "layering merge unbound"
  shows "layering (overlay_group merge) None"
proof
  fix a b c :: "'a option"
  show "overlay_group merge None a = a" by (cases a) simp_all
  show "overlay_group merge a None = a" by (cases a) simp_all
  show "overlay_group merge (overlay_group merge a b) c = overlay_group merge a (overlay_group merge b c)"
    using layering.overlay_assoc [OF assms] by (cases a; cases b; cases c) simp_all
  show "overlay_group merge a (overlay_group merge b a) = overlay_group merge b a"
    using layering.overlay_covered [OF assms] layering.overlay_idem [OF assms] by (cases a; cases b) simp_all
qed

interpretation claude_layers: layering "overlay_group merge_claude_options" None
  by (rule overlay_group_layering) (rule claude_groups.layering_axioms)

interpretation codex_layers: layering "overlay_group merge_codex_options" None
  by (rule overlay_group_layering) (rule codex_groups.layering_axioms)

interpretation provider_options: layering merge_provider_options unbound_provider_options
  by unfold_locales
    (simp_all add: merge_provider_options_def unbound_provider_options_def claude_layers.overlay_assoc
      codex_layers.overlay_assoc claude_layers.overlay_covered codex_layers.overlay_covered
      claude_layers.overlay_unbound_low codex_layers.overlay_unbound_low
      claude_layers.overlay_unbound_high codex_layers.overlay_unbound_high)

interpretation turns: layering merge_turn unbound_turn
  by unfold_locales
    (simp_all add: merge_turn_def unbound_turn_def overlay_option_laws
      models.overlay_assoc contexts.overlay_assoc permissions.overlay_assoc provider_options.overlay_assoc
      models.overlay_covered contexts.overlay_covered permissions.overlay_covered provider_options.overlay_covered
      models.overlay_unbound_low contexts.overlay_unbound_low permissions.overlay_unbound_low
      provider_options.overlay_unbound_low
      models.overlay_unbound_high contexts.overlay_unbound_high permissions.overlay_unbound_high
      provider_options.overlay_unbound_high)

text \<open>What a stack of layers binds at each scalar path: the binding of the highest layer that has one.\<close>

definition highest :: "'a option list \<Rightarrow> 'a option" where
  "highest xs = foldl overlay_option None xs"

lemma highest_simps [simp]:
  "highest [] = None" "highest (xs @ [x]) = overlay_option (highest xs) x"
  by (simp_all add: highest_def)

lemma merge_turns_paths:
  "par_provider (foldl merge_turn unbound_turn ls) = highest (map par_provider ls)"
  "par_prompt (foldl merge_turn unbound_turn ls) = highest (map par_prompt ls)"
  "pm_name (par_model (foldl merge_turn unbound_turn ls)) = highest (map (pm_name \<circ> par_model) ls)"
  "pc_cwd (par_context (foldl merge_turn unbound_turn ls)) = highest (map (pc_cwd \<circ> par_context) ls)"
  "pc_additional_directories (par_context (foldl merge_turn unbound_turn ls)) =
     highest (map (pc_additional_directories \<circ> par_context) ls)"
  "pc_resume (par_context (foldl merge_turn unbound_turn ls)) = highest (map (pc_resume \<circ> par_context) ls)"
  "pp_filesystem (par_permissions (foldl merge_turn unbound_turn ls)) = highest (map (pp_filesystem \<circ> par_permissions) ls)"
  by (induction ls rule: rev_induct;
      simp add: merge_turn_def merge_model_def merge_context_def merge_permissions_def unbound_turn_def
        unbound_model_def unbound_context_def unbound_permissions_def)+

text \<open>A path into a provider's group: bound when the group is present and binds the field.\<close>

definition claude_path :: "('j partial_claude_options \<Rightarrow> 'a option) \<Rightarrow> 'j partial_turn \<Rightarrow> 'a option" where
  "claude_path f t = Option.bind (ppo_claude (par_provider_options t)) f"

definition codex_path :: "('j partial_codex_options \<Rightarrow> 'a option) \<Rightarrow> 'j partial_turn \<Rightarrow> 'a option" where
  "codex_path f t = Option.bind (ppo_codex (par_provider_options t)) f"

lemma overlay_option_None [simp]: "overlay_option a None = a" "overlay_option None a = a"
  by (simp_all add: overlay_option_laws)

lemma overlay_group_path:
  assumes "\<And>a b. f (merge a b) = overlay_option (f a) (f b)"
  shows "Option.bind (overlay_group merge x y) f = overlay_option (Option.bind x f) (Option.bind y f)"
  using assms by (cases x; cases y) simp_all

lemma merge_turns_claude:
  assumes "\<And>a b. f (merge_claude_options a b) = overlay_option (f a) (f b)"
  shows "claude_path f (foldl merge_turn unbound_turn ls) = highest (map (claude_path f) ls)"
  by (induction ls rule: rev_induct)
    (simp_all add: claude_path_def merge_turn_def merge_provider_options_def unbound_turn_def unbound_provider_options_def
      overlay_group_path [OF assms])

lemma merge_turns_codex:
  assumes "\<And>a b. f (merge_codex_options a b) = overlay_option (f a) (f b)"
  shows "codex_path f (foldl merge_turn unbound_turn ls) = highest (map (codex_path f) ls)"
  by (induction ls rule: rev_induct)
    (simp_all add: codex_path_def merge_turn_def merge_provider_options_def unbound_turn_def unbound_provider_options_def
      overlay_group_path [OF assms])

lemma overlay_group_None: "overlay_group merge x y = None \<longleftrightarrow> x = None \<and> y = None"
  by (cases x; cases y) simp_all

lemma merge_turns_groups:
  "ppo_claude (par_provider_options (foldl merge_turn unbound_turn ls)) = None \<longleftrightarrow>
     list_all (\<lambda>t. ppo_claude (par_provider_options t) = None) ls"
  "ppo_codex (par_provider_options (foldl merge_turn unbound_turn ls)) = None \<longleftrightarrow>
     list_all (\<lambda>t. ppo_codex (par_provider_options t) = None) ls"
  by (induction ls rule: rev_induct;
      simp add: merge_turn_def merge_provider_options_def unbound_turn_def unbound_provider_options_def overlay_group_None)+

text \<open>The merge of each group is field by field.\<close>

lemma merge_claude_fields:
  "f \<in> {pco_system_prompt, pco_append_system_prompt, pco_fallback_model} \<Longrightarrow>
     f (merge_claude_options a b) = overlay_option (f a) (f b)"
  "g \<in> {pco_allowed_tools, pco_disallowed_tools} \<Longrightarrow> g (merge_claude_options a b) = overlay_option (g a) (g b)"
  "pco_effort (merge_claude_options a b) = overlay_option (pco_effort a) (pco_effort b)"
  "pco_max_turns (merge_claude_options a b) = overlay_option (pco_max_turns a) (pco_max_turns b)"
  "pco_max_budget_usd (merge_claude_options a b) = overlay_option (pco_max_budget_usd a) (pco_max_budget_usd b)"
  "pco_permission_mode (merge_claude_options a b) = overlay_option (pco_permission_mode a) (pco_permission_mode b)"
  "pco_json_schema (merge_claude_options a b) = overlay_option (pco_json_schema a) (pco_json_schema b)"
  "pco_strict_mcp_config (merge_claude_options a b) = overlay_option (pco_strict_mcp_config a) (pco_strict_mcp_config b)"
  "pco_ambient_context (merge_claude_options a b) = overlay_option (pco_ambient_context a) (pco_ambient_context b)"
  by (auto simp: merge_claude_options_def)

lemma merge_codex_fields:
  "pxo_system_prompt (merge_codex_options a b) = overlay_option (pxo_system_prompt a) (pxo_system_prompt b)"
  "pxo_output_schema (merge_codex_options a b) = overlay_option (pxo_output_schema a) (pxo_output_schema b)"
  "pxo_ephemeral (merge_codex_options a b) = overlay_option (pxo_ephemeral a) (pxo_ephemeral b)"
  by (simp_all add: merge_codex_options_def)

lemma merge_turns_claude_texts:
  "f \<in> {pco_system_prompt, pco_append_system_prompt, pco_fallback_model} \<Longrightarrow>
     claude_path f (foldl merge_turn unbound_turn ls) = highest (map (claude_path f) ls)"
  "g \<in> {pco_allowed_tools, pco_disallowed_tools} \<Longrightarrow>
     claude_path g (foldl merge_turn unbound_turn ls) = highest (map (claude_path g) ls)"
  by (rule merge_turns_claude, erule merge_claude_fields)+

lemmas merge_turns_claude_paths = merge_turns_claude_texts
  merge_turns_claude [OF merge_claude_fields(3)] merge_turns_claude [OF merge_claude_fields(4)]
  merge_turns_claude [OF merge_claude_fields(5)] merge_turns_claude [OF merge_claude_fields(6)]
  merge_turns_claude [OF merge_claude_fields(7)] merge_turns_claude [OF merge_claude_fields(8)]
  merge_turns_claude [OF merge_claude_fields(9)]

lemmas merge_turns_codex_paths =
  merge_turns_codex [OF merge_codex_fields(1)] merge_turns_codex [OF merge_codex_fields(2)]
  merge_turns_codex [OF merge_codex_fields(3)]

end
