(* ===== verification/Plan_Resolve.thy ===== *)
theory Plan_Resolve
  imports Plan_Partial
begin

text \<open>
  \<open>resolve.rs\<close>, \<open>diagnostic.rs\<close>, \<open>requirement.rs\<close>: one planning pass. The layers are folded by
  precedence, answers bind paths that are still unbound, every bound value is checked, and the
  result is complete, missing values, or invalid with all diagnostics.
\<close>

section \<open>Diagnostics and requirements\<close>

definition provider_mismatch_code :: string where "provider_mismatch_code = ''provider-mismatch''"
definition resume_provider_mismatch_code :: string where "resume_provider_mismatch_code = ''resume-provider-mismatch''"
definition blank_prompt_code :: string where "blank_prompt_code = ''blank-prompt''"
definition blank_model_code :: string where "blank_model_code = ''blank-model''"
definition empty_resume_value_code :: string where "empty_resume_value_code = ''empty-resume-value''"
definition hyphen_resume_value_code :: string where "hyphen_resume_value_code = ''hyphen-resume-value''"
definition unknown_requirement_code :: string where "unknown_requirement_code = ''unknown-requirement''"
definition answer_overrides_code :: string where "answer_overrides_code = ''answer-overrides-bound-path''"
definition invalid_provider_answer_code :: string where "invalid_provider_answer_code = ''invalid-provider-answer''"
definition unsupported_provider_code :: string where "unsupported_provider_code = ''unsupported-provider''"
definition resumed_directories_code :: string where "resumed_directories_code = ''resumed-additional-directories''"
definition unsupported_filesystem_code :: string where "unsupported_filesystem_code = ''unsupported-filesystem-permission''"
definition adapter_refusal_code :: string where "adapter_refusal_code = ''adapter-refusal''"

datatype severity = SeverityWarning | SeverityError

record diagnostic =
  diag_code :: string
  diag_severity :: severity
  diag_path :: "string option"
  diag_message :: string

definition diagnostic_error :: "string \<Rightarrow> string option \<Rightarrow> string \<Rightarrow> diagnostic" where
  "diagnostic_error code p message =
     \<lparr>diag_code = code, diag_severity = SeverityError, diag_path = p, diag_message = message\<rparr>"

definition adapter_refusal :: "agent_error \<Rightarrow> diagnostic" where
  "adapter_refusal error =
     diagnostic_error adapter_refusal_code None (''adapter refused the turn: '' @ agent_error_display error)"

datatype value_kind = ProviderValue | TextValue

datatype requirement_reason = ProviderSelection | ProviderInput

record requirement =
  rq_id :: string
  rq_path :: string
  rq_kind :: value_kind
  rq_label :: string
  rq_reason :: requirement_reason
  rq_sensitive :: bool
  rq_provider :: "provider_id option"

record answer =
  an_id :: string
  an_value :: string

definition provider_requirement_id :: string where
  "provider_requirement_id = ''provider''"

definition prompt_requirement_id :: string where
  "prompt_requirement_id = ''prompt''"

section \<open>Layers\<close>

text \<open>A \<open>BTreeMap\<close> from provider to baseline; the order of providers is that of the declaration.\<close>

instantiation provider_id :: linorder
begin

definition less_eq_provider_id :: "provider_id \<Rightarrow> provider_id \<Rightarrow> bool" where
  "less_eq_provider_id a b \<longleftrightarrow> a = Claude \<or> b = Codex"

definition less_provider_id :: "provider_id \<Rightarrow> provider_id \<Rightarrow> bool" where
  "less_provider_id a b \<longleftrightarrow> a = Claude \<and> b = Codex"

instance
proof
  fix a b c :: provider_id
  show "a < b \<longleftrightarrow> a \<le> b \<and> \<not> b \<le> a" by (cases a; cases b) (simp_all add: less_eq_provider_id_def less_provider_id_def)
  show "a \<le> a" by (cases a) (simp_all add: less_eq_provider_id_def)
  show "a \<le> b \<Longrightarrow> b \<le> c \<Longrightarrow> a \<le> c" by (cases a; cases b; cases c) (simp_all add: less_eq_provider_id_def)
  show "a \<le> b \<Longrightarrow> b \<le> a \<Longrightarrow> a = b" by (cases a; cases b) (simp_all add: less_eq_provider_id_def)
  show "a \<le> b \<or> b \<le> a" by (cases a; cases b) (simp_all add: less_eq_provider_id_def)
qed

end

type_synonym 'j provider_defaults = "(provider_id, 'j partial_turn) btree_map"

definition defaults_insert ::
  "'j provider_defaults \<Rightarrow> provider_id \<Rightarrow> 'j partial_turn \<Rightarrow> 'j partial_turn option \<times> 'j provider_defaults" where
  "defaults_insert m p t = (map_of m p, bt_insert p t m)"

definition defaults_get :: "'j provider_defaults \<Rightarrow> provider_id \<Rightarrow> 'j partial_turn option" where
  "defaults_get m p = map_of m p"

record 'j plan_layers =
  ly_provider_defaults :: "'j provider_defaults option"
  ly_application_defaults :: "'j partial_turn option"
  ly_profile :: "'j profile option"
  ly_explicit :: "'j partial_turn"
  ly_answers :: "answer list"

definition layers_new :: "'j partial_turn \<Rightarrow> 'j plan_layers" where
  "layers_new e =
     \<lparr>ly_provider_defaults = None, ly_application_defaults = None, ly_profile = None, ly_explicit = e, ly_answers = []\<rparr>"

definition with_provider_defaults :: "'j plan_layers \<Rightarrow> 'j provider_defaults \<Rightarrow> 'j plan_layers" where
  "with_provider_defaults l d = l\<lparr>ly_provider_defaults := Some d\<rparr>"

definition with_application_defaults :: "'j plan_layers \<Rightarrow> 'j partial_turn \<Rightarrow> 'j plan_layers" where
  "with_application_defaults l d = l\<lparr>ly_application_defaults := Some d\<rparr>"

definition with_profile :: "'j plan_layers \<Rightarrow> 'j profile \<Rightarrow> 'j plan_layers" where
  "with_profile l p = l\<lparr>ly_profile := Some p\<rparr>"

definition with_answers :: "'j plan_layers \<Rightarrow> answer list \<Rightarrow> 'j plan_layers" where
  "with_answers l as = l\<lparr>ly_answers := as\<rparr>"

section \<open>Resolution\<close>

text \<open>\<open>ResolvedTurn\<close> is the merged turn; its accessors panic (\<open>None\<close>) on an unbound path.\<close>

type_synonym 'j resolved_turn = "'j partial_turn"

definition resolved_provider :: "'j resolved_turn \<Rightarrow> provider_id option" where
  "resolved_provider r = par_provider r"

definition resolved_prompt :: "'j resolved_turn \<Rightarrow> string option" where
  "resolved_prompt r = par_prompt r"

datatype 'j resolution =
    Complete "'j resolved_turn"
  | Missing "'j partial_turn" "requirement list"
  | Invalid "diagnostic list"

definition profile_mismatch :: "'j plan_layers \<Rightarrow> diagnostic list" where
  "profile_mismatch l =
     (case ly_profile l of
        None \<Rightarrow> []
      | Some profile \<Rightarrow>
          (case (par_provider (prof_turn profile), par_provider (ly_explicit l)) of
             (Some p, Some e) \<Rightarrow>
               if p \<noteq> e
               then [diagnostic_error provider_mismatch_code (Some ''provider'')
                       (''profile '' @ prof_name profile @ '' selects provider '' @ provider_as_str p
                        @ '' but the explicit request selects '' @ provider_as_str e)]
               else []
           | _ \<Rightarrow> []))"

definition merge_upper :: "'j plan_layers \<Rightarrow> 'j partial_turn" where
  "merge_upper l =
     (let u0 = unbound_turn;
          u1 = (case ly_application_defaults l of None \<Rightarrow> u0 | Some d \<Rightarrow> merge_turn u0 d);
          u2 = (case ly_profile l of None \<Rightarrow> u1 | Some p \<Rightarrow> merge_turn u1 (prof_turn p))
      in merge_turn u2 (ly_explicit l))"

text \<open>The first provider answer that parses.\<close>

definition answered_provider :: "answer list \<Rightarrow> provider_id option" where
  "answered_provider as =
     (case List.map_filter (\<lambda>a. case parse_provider (an_value a) of Inr p \<Rightarrow> Some p | Inl _ \<Rightarrow> None)
             (filter (\<lambda>a. an_id a = provider_requirement_id) as) of
        [] \<Rightarrow> None
      | p # _ \<Rightarrow> Some p)"

definition selected_provider :: "'j plan_layers \<Rightarrow> provider_id option" where
  "selected_provider l = option_or (par_provider (merge_upper l)) (answered_provider (ly_answers l))"

definition baseline :: "'j plan_layers \<Rightarrow> 'j partial_turn" where
  "baseline l =
     (case (selected_provider l, ly_provider_defaults l) of
        (Some p, Some defaults) \<Rightarrow> (unwrap_or (defaults_get defaults p) unbound_turn)\<lparr>par_provider := None\<rparr>
      | _ \<Rightarrow> unbound_turn)"

definition merge_layers :: "'j plan_layers \<Rightarrow> 'j partial_turn" where
  "merge_layers l = merge_turn (baseline l) (merge_upper l)"

definition answer_overrides_bound_path :: "string \<Rightarrow> diagnostic" where
  "answer_overrides_bound_path p =
     diagnostic_error answer_overrides_code (Some p) (''an answer may not override the bound path '' @ p)"

definition apply_answer :: "'j partial_turn \<Rightarrow> answer \<Rightarrow> 'j partial_turn \<times> diagnostic list" where
  "apply_answer merged a =
     (if an_id a = provider_requirement_id
      then (if is_some (par_provider merged) then (merged, [answer_overrides_bound_path ''provider''])
            else case parse_provider (an_value a) of
                   Inr p \<Rightarrow> (merged\<lparr>par_provider := Some p\<rparr>, [])
                 | Inl _ \<Rightarrow> (merged, [diagnostic_error invalid_provider_answer_code (Some ''provider'')
                                    ''the provider answer does not name a known provider'']))
      else if an_id a = prompt_requirement_id
      then (if is_some (par_prompt merged) then (merged, [answer_overrides_bound_path ''prompt''])
            else (merged\<lparr>par_prompt := Some (an_value a)\<rparr>, []))
      else (merged, [diagnostic_error unknown_requirement_code None
                       (''answer refers to unknown requirement '' @ an_id a)]))"

fun apply_answers :: "'j partial_turn \<Rightarrow> answer list \<Rightarrow> 'j partial_turn \<times> diagnostic list" where
  "apply_answers merged [] = (merged, [])"
| "apply_answers merged (a # as) =
     (let (merged', ds) = apply_answer merged a; (merged'', ds') = apply_answers merged' as in (merged'', ds @ ds'))"

definition check_prompt :: "'j partial_turn \<Rightarrow> diagnostic list" where
  "check_prompt merged =
     (case par_prompt merged of
        Some prompt \<Rightarrow>
          if is_blank prompt
          then [diagnostic_error blank_prompt_code (Some ''prompt'') ''a bound prompt must not be blank''] else []
      | None \<Rightarrow> [])"

definition check_model :: "'j partial_turn \<Rightarrow> diagnostic list" where
  "check_model merged =
     (case pm_name (par_model merged) of
        Some name \<Rightarrow>
          if is_blank name
          then [diagnostic_error blank_model_code (Some ''model.name'') ''a bound model name must not be blank''] else []
      | None \<Rightarrow> [])"

definition check_resume :: "'j partial_turn \<Rightarrow> diagnostic list" where
  "check_resume merged =
     (case pc_resume (par_context merged) of
        None \<Rightarrow> []
      | Some resume \<Rightarrow>
          (if is_blank (rb_value resume)
           then [diagnostic_error empty_resume_value_code (Some ''context.resume'') ''a resume value must not be empty'']
           else if starts_with hyphen (rb_value resume)
           then [diagnostic_error hyphen_resume_value_code (Some ''context.resume'') ''a resume value must not begin with a hyphen'']
           else [])
          @ (case par_provider merged of
               None \<Rightarrow> []
             | Some p \<Rightarrow>
                 if rb_provider resume \<noteq> p
                 then [diagnostic_error resume_provider_mismatch_code (Some ''context.resume'')
                         (''the resume binding is tagged '' @ provider_as_str (rb_provider resume)
                          @ '' but the resolved provider is '' @ provider_as_str p)]
                 else []))"

definition provider_requirement :: requirement where
  "provider_requirement =
     \<lparr>rq_id = provider_requirement_id, rq_path = ''provider'', rq_kind = ProviderValue, rq_label = ''Provider'',
      rq_reason = ProviderSelection, rq_sensitive = False, rq_provider = None\<rparr>"

definition prompt_requirement :: "provider_id option \<Rightarrow> requirement" where
  "prompt_requirement p =
     \<lparr>rq_id = prompt_requirement_id, rq_path = ''prompt'', rq_kind = TextValue, rq_label = ''Prompt'',
      rq_reason = ProviderInput, rq_sensitive = False, rq_provider = p\<rparr>"

definition requirements_of :: "'j partial_turn \<Rightarrow> requirement list" where
  "requirements_of merged =
     (if par_provider merged = None then [provider_requirement] else [])
     @ (if par_prompt merged = None then [prompt_requirement (par_provider merged)] else [])"

definition resolve :: "'j plan_layers \<Rightarrow> 'j resolution" where
  "resolve l =
     (let (merged, answer_diagnostics) = apply_answers (merge_layers l) (ly_answers l);
          diagnostics = profile_mismatch l @ answer_diagnostics @ check_prompt merged @ check_model merged @ check_resume merged
      in if diagnostics \<noteq> [] then Invalid diagnostics
         else if requirements_of merged \<noteq> [] then Missing merged (requirements_of merged)
         else Complete merged)"

section \<open>Lemmas\<close>

text \<open>The layers of a pass as a list, lowest precedence first.\<close>

definition layer_list :: "'j plan_layers \<Rightarrow> 'j partial_turn list" where
  "layer_list l =
     [baseline l]
     @ (case ly_application_defaults l of None \<Rightarrow> [] | Some d \<Rightarrow> [d])
     @ (case ly_profile l of None \<Rightarrow> [] | Some p \<Rightarrow> [prof_turn p])
     @ [ly_explicit l]"

lemma merge_layers_fold: "merge_layers l = foldl merge_turn unbound_turn (layer_list l)"
  by (auto simp: merge_layers_def merge_upper_def layer_list_def Let_def turns.overlay_unbound_low turns.overlay_assoc
      split: option.splits)

text \<open>\<open>parameter\<close> projections that an answer never touches.\<close>

lemma apply_answer_keeps:
  "par_model (fst (apply_answer m a)) = par_model m"
  "par_context (fst (apply_answer m a)) = par_context m"
  "par_permissions (fst (apply_answer m a)) = par_permissions m"
  "par_provider_options (fst (apply_answer m a)) = par_provider_options m"
  by (simp_all add: apply_answer_def split: sum.splits)

lemma apply_answers_keeps:
  "par_model (fst (apply_answers m as)) = par_model m
   \<and> par_context (fst (apply_answers m as)) = par_context m
   \<and> par_permissions (fst (apply_answers m as)) = par_permissions m
   \<and> par_provider_options (fst (apply_answers m as)) = par_provider_options m"
proof (induction as arbitrary: m)
  case (Cons a as)
  then show ?case
    using apply_answer_keeps [of m a] by (simp add: Let_def case_prod_unfold)
qed simp

text \<open>An answer never replaces a bound provider or prompt.\<close>

lemma apply_answer_bound:
  "par_provider m = Some p \<Longrightarrow> par_provider (fst (apply_answer m a)) = Some p"
  "par_prompt m = Some s \<Longrightarrow> par_prompt (fst (apply_answer m a)) = Some s"
  by (simp_all add: apply_answer_def split: sum.splits)

lemma apply_answers_bound:
  "(par_provider m = Some p \<longrightarrow> par_provider (fst (apply_answers m as)) = Some p)
   \<and> (par_prompt m = Some s \<longrightarrow> par_prompt (fst (apply_answers m as)) = Some s)"
proof (induction as arbitrary: m)
  case (Cons a as)
  then show ?case
    using apply_answer_bound [of m] by (simp add: Let_def case_prod_unfold)
qed simp

text \<open>What is bound at the end was bound by the layers or by an answer with that requirement's id.\<close>

lemma apply_answers_source:
  "(\<forall>p. par_provider (fst (apply_answers m as)) = Some p \<longrightarrow> par_provider m = Some p
      \<or> (par_provider m = None \<and> (\<exists>a \<in> set as. an_id a = provider_requirement_id \<and> parse_provider (an_value a) = Inr p)))
   \<and> (\<forall>s. par_prompt (fst (apply_answers m as)) = Some s \<longrightarrow> par_prompt m = Some s
      \<or> (par_prompt m = None \<and> (\<exists>a \<in> set as. an_id a = prompt_requirement_id \<and> an_value a = s)))"
proof (induction as arbitrary: m)
  case (Cons a as)
  from Cons.IH [of "fst (apply_answer m a)"] show ?case
    by (auto simp: Let_def case_prod_unfold)
      (auto simp: apply_answer_def is_some_iff split: sum.splits if_splits)
qed simp

lemma resolve_cases:
  obtains (complete) m where "resolve l = Complete m" "fst (apply_answers (merge_layers l) (ly_answers l)) = m"
      "profile_mismatch l = []" "snd (apply_answers (merge_layers l) (ly_answers l)) = []"
      "check_prompt m = []" "check_model m = []" "check_resume m = []" "requirements_of m = []"
    | (missing) m where "resolve l = Missing m (requirements_of m)"
      "fst (apply_answers (merge_layers l) (ly_answers l)) = m" "requirements_of m \<noteq> []"
    | (invalid) ds where "resolve l = Invalid ds" "ds \<noteq> []"
proof -
  obtain m ads where a: "apply_answers (merge_layers l) (ly_answers l) = (m, ads)" by force
  let ?ds = "profile_mismatch l @ ads @ check_prompt m @ check_model m @ check_resume m"
  consider "?ds \<noteq> []" | "?ds = []" "requirements_of m \<noteq> []" | "?ds = []" "requirements_of m = []" by blast
  then show thesis
  proof cases
    case 1
    then have "resolve l = Invalid ?ds" by (simp only: resolve_def a prod.case Let_def if_True not_False_eq_True)
    from this 1 show ?thesis by (rule invalid)
  next
    case 2
    then have "resolve l = Missing m (requirements_of m)" by (simp add: resolve_def a)
    with 2 a show ?thesis by (auto intro: missing)
  next
    case 3
    then have "resolve l = Complete m" by (simp add: resolve_def a)
    with 3 a show ?thesis by (auto intro: complete)
  qed
qed

lemma resolve_complete_bound:
  "resolve l = Complete m \<Longrightarrow> par_provider m \<noteq> None \<and> par_prompt m \<noteq> None \<and> check_resume m = []"
  by (cases l rule: resolve_cases) (auto simp: requirements_of_def split: if_splits)

section \<open>Properties\<close>

text \<open>The baseline, from the layers above it: what the host defaults to for the provider that the highest of
  them selects, or else that the answers name; it never selects a provider itself.\<close>

lemma baseline_of_upper:
  "baseline l =
     (case (option_or (highest (map par_provider (tl (layer_list l)))) (answered_provider (ly_answers l)), ly_provider_defaults l) of
        (Some p, Some defaults) \<Rightarrow> (unwrap_or (map_of defaults p) unbound_turn)\<lparr>par_provider := None\<rparr>
      | _ \<Rightarrow> unbound_turn)"
proof -
  have "merge_upper l = foldl merge_turn unbound_turn (tl (layer_list l))"
    by (auto simp: merge_upper_def layer_list_def Let_def split: option.splits)
  then show ?thesis
    by (simp add: baseline_def selected_provider_def defaults_get_def merge_turns_paths(1) split: option.splits)
qed

text \<open>C20: a pass that is not invalid binds every path, the twelve of the Claude options and the three of the
  Codex options included, to the value of the highest layer that binds it, in the order baseline of the
  selected provider, application defaults, profile, explicit request; the baseline is the host's for the
  provider that the layers above select, or else the answers, and selects none itself; a provider's group
  is present when some layer has it; an answer only ever fills a provider or a prompt that no layer
  binds.\<close>

theorem resolve_precedence:
  assumes "resolve l = Complete m \<or> resolve l = Missing m rs"
  shows "pm_name (par_model m) = highest (map (pm_name \<circ> par_model) (layer_list l))
    \<and> pc_cwd (par_context m) = highest (map (pc_cwd \<circ> par_context) (layer_list l))
    \<and> pc_additional_directories (par_context m) = highest (map (pc_additional_directories \<circ> par_context) (layer_list l))
    \<and> pc_resume (par_context m) = highest (map (pc_resume \<circ> par_context) (layer_list l))
    \<and> pp_filesystem (par_permissions m) = highest (map (pp_filesystem \<circ> par_permissions) (layer_list l))
    \<and> (\<forall>f \<in> {pco_system_prompt, pco_append_system_prompt, pco_fallback_model}.
         claude_path f m = highest (map (claude_path f) (layer_list l)))
    \<and> (\<forall>f \<in> {pco_allowed_tools, pco_disallowed_tools}. claude_path f m = highest (map (claude_path f) (layer_list l)))
    \<and> claude_path pco_effort m = highest (map (claude_path pco_effort) (layer_list l))
    \<and> claude_path pco_max_turns m = highest (map (claude_path pco_max_turns) (layer_list l))
    \<and> claude_path pco_max_budget_usd m = highest (map (claude_path pco_max_budget_usd) (layer_list l))
    \<and> claude_path pco_permission_mode m = highest (map (claude_path pco_permission_mode) (layer_list l))
    \<and> claude_path pco_json_schema m = highest (map (claude_path pco_json_schema) (layer_list l))
    \<and> claude_path pco_strict_mcp_config m = highest (map (claude_path pco_strict_mcp_config) (layer_list l))
    \<and> claude_path pco_ambient_context m = highest (map (claude_path pco_ambient_context) (layer_list l))
    \<and> codex_path pxo_system_prompt m = highest (map (codex_path pxo_system_prompt) (layer_list l))
    \<and> codex_path pxo_output_schema m = highest (map (codex_path pxo_output_schema) (layer_list l))
    \<and> codex_path pxo_ephemeral m = highest (map (codex_path pxo_ephemeral) (layer_list l))
    \<and> (ppo_claude (par_provider_options m) = None \<longleftrightarrow>
         list_all (\<lambda>t. ppo_claude (par_provider_options t) = None) (layer_list l))
    \<and> (ppo_codex (par_provider_options m) = None \<longleftrightarrow>
         list_all (\<lambda>t. ppo_codex (par_provider_options t) = None) (layer_list l))
    \<and> hd (layer_list l) =
        (case (option_or (highest (map par_provider (tl (layer_list l)))) (answered_provider (ly_answers l)), ly_provider_defaults l) of
           (Some p, Some defaults) \<Rightarrow> (unwrap_or (map_of defaults p) unbound_turn)\<lparr>par_provider := None\<rparr>
         | _ \<Rightarrow> unbound_turn)
    \<and> (case highest (map par_provider (layer_list l)) of
         Some p \<Rightarrow> par_provider m = Some p
       | None \<Rightarrow> \<forall>p \<in> set_option (par_provider m). \<exists>a \<in> set (ly_answers l).
            an_id a = provider_requirement_id \<and> parse_provider (an_value a) = Inr p)
    \<and> (case highest (map par_prompt (layer_list l)) of
         Some s \<Rightarrow> par_prompt m = Some s
       | None \<Rightarrow> \<forall>s \<in> set_option (par_prompt m). \<exists>a \<in> set (ly_answers l).
            an_id a = prompt_requirement_id \<and> an_value a = s)"
proof -
  let ?m0 = "merge_layers l"
  have m: "fst (apply_answers ?m0 (ly_answers l)) = m"
    using assms by (cases l rule: resolve_cases) auto
  have keeps: "par_model m = par_model ?m0" "par_context m = par_context ?m0" "par_permissions m = par_permissions ?m0"
    "par_provider_options m = par_provider_options ?m0"
    using apply_answers_keeps [of ?m0 "ly_answers l"] by (simp_all add: m)
  then have groups: "claude_path f m = claude_path f ?m0" "codex_path g m = codex_path g ?m0"
    for f :: "'a partial_claude_options \<Rightarrow> 'b option" and g :: "'a partial_codex_options \<Rightarrow> 'c option"
    by (simp_all add: claude_path_def codex_path_def)
  have provider: "case par_provider ?m0 of
         Some p \<Rightarrow> par_provider m = Some p
       | None \<Rightarrow> \<forall>p \<in> set_option (par_provider m). \<exists>a \<in> set (ly_answers l).
            an_id a = provider_requirement_id \<and> parse_provider (an_value a) = Inr p"
    using apply_answers_bound [of ?m0 _ "ly_answers l"] apply_answers_source [of ?m0 "ly_answers l"]
    by (auto simp: m split: option.splits)
  have prompt: "case par_prompt ?m0 of
         Some s \<Rightarrow> par_prompt m = Some s
       | None \<Rightarrow> \<forall>s \<in> set_option (par_prompt m). \<exists>a \<in> set (ly_answers l).
            an_id a = prompt_requirement_id \<and> an_value a = s"
    using apply_answers_bound [of ?m0 _ "ly_answers l"] apply_answers_source [of ?m0 "ly_answers l"]
    by (auto simp: m split: option.splits)
  have first: "hd (layer_list l) = baseline l" by (simp add: layer_list_def)
  show ?thesis
    by (intro conjI ballI)
      (use provider prompt in \<open>simp_all only: keeps groups first baseline_of_upper merge_layers_fold merge_turns_paths
        merge_turns_claude_paths merge_turns_codex_paths merge_turns_groups\<close>)
qed

definition sample_explicit :: "nat partial_turn" where
  "sample_explicit = unbound_turn\<lparr>par_prompt := Some ''go'', par_model := \<lparr>pm_name = Some ''big''\<rparr>,
     par_provider_options := \<lparr>ppo_claude = Some (unbound_claude_options\<lparr>pco_allowed_tools := Some [''Read'']\<rparr>), ppo_codex = None\<rparr>\<rparr>"

definition sample_layers :: "nat plan_layers" where
  "sample_layers =
     with_application_defaults (layers_new sample_explicit)
       (unbound_turn\<lparr>par_provider := Some Codex, par_model := \<lparr>pm_name = Some ''small''\<rparr>,
          par_provider_options := \<lparr>ppo_claude = Some (unbound_claude_options
            \<lparr>pco_allowed_tools := Some [''Edit''], pco_disallowed_tools := Some [''Bash'']\<rparr>), ppo_codex = None\<rparr>\<rparr>)"

theorem resolve_precedence_witness:
  "\<exists>m. resolve sample_layers = Complete m \<and> pm_name (par_model m) = Some ''big'' \<and> par_provider m = Some Codex
     \<and> claude_path pco_disallowed_tools m = Some [''Bash'']"
proof -
  have "case resolve sample_layers of Complete _ \<Rightarrow> True | _ \<Rightarrow> False" by code_simp
  then obtain m where m: "resolve sample_layers = Complete m" by (auto split: resolution.splits)
  have "highest (map (pm_name \<circ> par_model) (layer_list sample_layers)) = Some ''big''"
    "highest (map par_provider (layer_list sample_layers)) = Some Codex"
    "highest (map (claude_path pco_disallowed_tools) (layer_list sample_layers)) = Some [''Bash'']"
    by code_simp+
  with resolve_precedence [of sample_layers m "[]"] m show ?thesis by auto
qed

text \<open>C21: a complete resolution is what its accessors promise: the provider and the prompt are bound (so
  \<open>provider()\<close> and \<open>prompt()\<close> never panic), the prompt and the model are not blank, and a resume
  value is usable and tagged with the resolved provider.\<close>

theorem resolve_complete_sound:
  assumes "resolve l = Complete m"
  shows "\<exists>p s. resolved_provider m = Some p \<and> resolved_prompt m = Some s \<and> \<not> is_blank s
    \<and> pred_option (\<lambda>n. \<not> is_blank n) (pm_name (par_model m))
    \<and> pred_option (\<lambda>r. rb_provider r = p \<and> \<not> is_blank (rb_value r) \<and> \<not> starts_with hyphen (rb_value r))
        (pc_resume (par_context m))"
  using assms
  by (cases l rule: resolve_cases)
    (auto simp: resolved_provider_def resolved_prompt_def requirements_of_def check_prompt_def check_model_def
      check_resume_def split: option.splits if_splits)

theorem resolve_complete_sound_witness:
  "\<exists>m p. resolve sample_layers = Complete m \<and> resolved_provider m = Some p"
proof -
  have "case resolve sample_layers of Complete _ \<Rightarrow> True | _ \<Rightarrow> False" by code_simp
  then obtain m where m: "resolve sample_layers = Complete m" by (auto split: resolution.splits)
  from resolve_complete_sound [OF m] m show ?thesis by blast
qed

lemma resolve_answered:
  assumes "apply_answers (merge_layers l) (ly_answers l) = (m, ds)" "profile_mismatch l = []"
    and "ds = [] \<Longrightarrow> requirements_of m = []"
  shows "if ds = [] \<and> check_prompt m = [] \<and> check_model m = [] \<and> check_resume m = []
     then \<exists>m'. resolve l = Complete m' else \<exists>e. resolve l = Invalid e"
  using assms by (auto simp: resolve_def)

lemma with_answers_upper:
  "merge_upper (with_answers l as) = merge_upper l"
  "profile_mismatch (with_answers l as) = profile_mismatch l"
  "ly_answers (with_answers l as) = as" "ly_provider_defaults (with_answers l as) = ly_provider_defaults l"
  by (auto simp: merge_upper_def with_answers_def profile_mismatch_def Let_def split: option.split)

lemma check_model_iff: "check_model m = [] \<longleftrightarrow> pred_option (\<lambda>n. \<not> is_blank n) (pm_name (par_model m))"
  by (auto simp: check_model_def split: option.splits)

definition resume_usable :: "provider_id \<Rightarrow> resume_binding \<Rightarrow> bool" where
  "resume_usable p r \<longleftrightarrow> rb_provider r = p \<and> \<not> is_blank (rb_value r) \<and> \<not> starts_with hyphen (rb_value r)"

lemma check_resume_iff:
  "par_provider m = Some p \<Longrightarrow> check_resume m = [] \<longleftrightarrow> pred_option (resume_usable p) (pc_resume (par_context m))"
  by (auto simp: check_resume_def resume_usable_def split: option.splits)

lemma apply_fresh_answers:
  assumes "map an_id as = map rq_id (requirements_of m)"
    and "\<forall>a \<in> set as. an_id a = provider_requirement_id \<longrightarrow> is_ok (parse_provider (an_value a))"
  shows "\<exists>m'. apply_answers m as = (m', []) \<and> requirements_of m' = []
    \<and> (par_provider m = None \<longrightarrow> (\<exists>a \<in> set as. an_id a = provider_requirement_id
         \<and> parse_provider (an_value a) = Inr (the (par_provider m'))))
    \<and> (par_prompt m = None \<longrightarrow> (\<exists>a \<in> set as. an_id a = prompt_requirement_id \<and> par_prompt m' = Some (an_value a)))"
proof -
  note ids = provider_requirement_id_def prompt_requirement_id_def
  show ?thesis
  proof (cases "par_provider m"; cases "par_prompt m")
    assume n: "par_provider m = None" "par_prompt m = None"
    with assms(1) obtain a b where as: "as = [a, b]" "an_id a = provider_requirement_id" "an_id b = prompt_requirement_id"
      by (auto simp: requirements_of_def provider_requirement_def prompt_requirement_def map_eq_Cons_conv)
    with assms(2) obtain p where "parse_provider (an_value a) = Inr p" by (auto simp: is_ok_iff)
    with as n show ?thesis by (simp add: apply_answer_def requirements_of_def ids)
  next
    fix s assume n: "par_provider m = None" "par_prompt m = Some s"
    with assms(1) obtain a where as: "as = [a]" "an_id a = provider_requirement_id"
      by (auto simp: requirements_of_def provider_requirement_def)
    with assms(2) obtain p where "parse_provider (an_value a) = Inr p" by (auto simp: is_ok_iff)
    with as n show ?thesis by (simp add: apply_answer_def requirements_of_def ids)
  next
    fix p assume n: "par_provider m = Some p" "par_prompt m = None"
    with assms(1) obtain b where as: "as = [b]" "an_id b = prompt_requirement_id"
      by (auto simp: requirements_of_def prompt_requirement_def)
    with n show ?thesis by (simp add: apply_answer_def requirements_of_def ids)
  next
    fix p s assume "par_provider m = Some p" "par_prompt m = Some s"
    with assms(1) show ?thesis by (simp add: requirements_of_def)
  qed
qed

text \<open>What the host defaults to for a provider.\<close>

definition baseline_for :: "'j plan_layers \<Rightarrow> provider_id \<Rightarrow> 'j partial_turn" where
  "baseline_for l p =
     (case ly_provider_defaults l of None \<Rightarrow> unbound_turn | Some d \<Rightarrow> unwrap_or (map_of d p) unbound_turn)"

text \<open>Whether a baseline that comes into play with the answered provider agrees with what was elicited: it
  does not bind the prompt that was asked for, and the model name and the resume binding that are now
  in effect are usable with the provider.\<close>

definition baseline_agrees :: "provider_id \<Rightarrow> 'j partial_turn \<Rightarrow> 'j partial_turn \<Rightarrow> bool" where
  "baseline_agrees p base m \<longleftrightarrow>
     (par_prompt m = None \<longrightarrow> par_prompt base = None)
     \<and> pred_option (\<lambda>n. \<not> is_blank n) (overlay_option (pm_name (par_model base)) (pm_name (par_model m)))
     \<and> pred_option (resume_usable p) (overlay_option (pc_resume (par_context base)) (pc_resume (par_context m)))"

lemma unanswered_pass:
  assumes "resolve (with_answers l []) = Missing m rs"
  shows "m = merge_layers (with_answers l [])" "rs = requirements_of m" "profile_mismatch l = []"
    "check_prompt m = []" "check_model m = []" "check_resume m = []"
    "par_provider m = par_provider (merge_upper l)"
proof -
  have "par_provider (baseline l') = None" for l' :: "'a plan_layers"
    by (auto simp: baseline_def unbound_turn_def split: option.splits)
  moreover show "m = merge_layers (with_answers l [])" "rs = requirements_of m" "profile_mismatch l = []"
    "check_prompt m = []" "check_model m = []" "check_resume m = []"
    using assms by (auto simp: resolve_def with_answers_upper Let_def split: if_splits)
  ultimately show "par_provider m = par_provider (merge_upper l)"
    by (simp add: merge_layers_def merge_turn_def with_answers_upper)
qed

lemma merge_layers_selected:
  assumes "par_provider (merge_upper l) = Some p"
  shows "merge_layers (with_answers l as) = merge_layers (with_answers l [])"
  using assms by (simp add: merge_layers_def baseline_def selected_provider_def with_answers_upper)

lemma merge_layers_answered:
  assumes "par_provider (merge_upper l) = None" "answered_provider as = Some p"
  shows "merge_layers (with_answers l []) = merge_upper l"
    "merge_layers (with_answers l as) = merge_turn ((baseline_for l p)\<lparr>par_provider := None\<rparr>) (merge_upper l)"
  using assms
  by (auto simp: merge_layers_def baseline_def baseline_for_def selected_provider_def with_answers_upper defaults_get_def
      answered_provider_def unbound_turn_def turns.overlay_unbound_low [unfolded unbound_turn_def] split: option.splits)

lemma answered_first:
  "an_id a = provider_requirement_id \<Longrightarrow> parse_provider (an_value a) = Inr p \<Longrightarrow> answered_provider (a # as) = Some p"
  by (simp add: answered_provider_def List.map_filter_simps)

lemma check_prompt_iff: "check_prompt m = [] \<longleftrightarrow> pred_option (\<lambda>n. \<not> is_blank n) (par_prompt m)"
  by (auto simp: check_prompt_def split: option.splits)

text \<open>Fresh answers to the reported requirements settle the pass.\<close>

lemma answers_decide:
  assumes first: "resolve (with_answers l []) = Missing m rs"
    and ids: "map an_id as = map rq_id rs"
    and known: "\<forall>a \<in> set as. an_id a = provider_requirement_id \<longrightarrow> is_ok (parse_provider (an_value a))"
    and texts: "\<forall>a \<in> set as. an_id a = prompt_requirement_id \<longrightarrow> \<not> is_blank (an_value a)"
  shows "if par_provider m \<noteq> None \<or> (\<exists>p. answered_provider as = Some p \<and> baseline_agrees p (baseline_for l p) m)
    then \<exists>m'. resolve (with_answers l as) = Complete m' else \<exists>e. resolve (with_answers l as) = Invalid e"
proof (cases "par_provider m")
  case (Some q)
  note u = unanswered_pass [OF first]
  have same: "merge_layers (with_answers l as) = m"
    using merge_layers_selected [of l q as] Some u(1,7) by simp
  have "map an_id as = map rq_id (requirements_of m)" using ids u(2) by simp
  from apply_fresh_answers [OF this known] obtain m' where m': "apply_answers m as = (m', [])" "requirements_of m' = []"
    and s: "par_prompt m = None \<longrightarrow> (\<exists>a \<in> set as. an_id a = prompt_requirement_id \<and> par_prompt m' = Some (an_value a))"
    by (elim exE conjE)
  have "par_provider m' = Some q" "par_prompt m = Some t \<Longrightarrow> par_prompt m' = Some t" for t
    using apply_answers_bound [of m q as t] Some by (simp_all add: m')
  moreover have "par_model m' = par_model m" "par_context m' = par_context m"
    using apply_answers_keeps [of m as] by (simp_all add: m')
  moreover from this s u(4) texts calculation(2) have "check_prompt m' = []"
    by (cases "par_prompt m") (auto simp: check_prompt_iff)
  ultimately have "check_prompt m' = [] \<and> check_model m' = [] \<and> check_resume m' = []"
    using u(5,6) Some by (simp add: check_model_iff check_resume_iff)
  then show ?thesis
    using resolve_answered [of "with_answers l as" m' "[]"] m' u(3) Some by (simp add: with_answers_upper same)
next
  case None
  note u = unanswered_pass [OF first]
  from ids u(2) None obtain a rest where as: "as = a # rest" and a: "an_id a = provider_requirement_id"
    and rest: "map an_id rest = (if par_prompt m = None then [prompt_requirement_id] else [])"
    by (auto simp: requirements_of_def provider_requirement_def prompt_requirement_def)
  with known obtain p where p: "parse_provider (an_value a) = Inr p" by (auto simp: is_ok_iff)
  then have answered: "answered_provider as = Some p" by (simp add: as answered_first [OF a])
  let ?base = "baseline_for l p"
  let ?M = "merge_turn (?base\<lparr>par_provider := None\<rparr>) m"
  have merged: "merge_layers (with_answers l as) = ?M" and m: "m = merge_upper l"
    using merge_layers_answered [of l as p] None answered u(1,7) by simp_all
  have M: "par_provider ?M = None" "par_prompt ?M = overlay_option (par_prompt ?base) (par_prompt m)"
    "pm_name (par_model ?M) = overlay_option (pm_name (par_model ?base)) (pm_name (par_model m))"
    "pc_resume (par_context ?M) = overlay_option (pc_resume (par_context ?base)) (pc_resume (par_context m))"
    by (simp_all add: merge_turn_def merge_model_def merge_context_def None)
  have step: "apply_answers ?M as =
      (case par_prompt m of
         Some s \<Rightarrow> (?M\<lparr>par_provider := Some p\<rparr>, [])
       | None \<Rightarrow> if par_prompt ?base \<noteq> None
                 then (?M\<lparr>par_provider := Some p\<rparr>, [answer_overrides_bound_path ''prompt''])
                 else (?M\<lparr>par_provider := Some p, par_prompt := Some (an_value (hd rest))\<rparr>, []))"
    using rest a p
    by (auto simp: as apply_answer_def M(1,2) is_some_iff map_eq_Cons_conv provider_requirement_id_def
        prompt_requirement_id_def Let_def split: option.splits if_splits)
  obtain m' ds where out: "apply_answers ?M as = (m', ds)" by fastforce
  have facts: "ds = [] \<longleftrightarrow> (par_prompt m = None \<longrightarrow> par_prompt ?base = None)" "par_provider m' = Some p"
    "pm_name (par_model m') = pm_name (par_model ?M)" "pc_resume (par_context m') = pc_resume (par_context ?M)"
    using out [unfolded step] by (auto split: option.splits if_splits)
  have prompt: "ds = [] \<Longrightarrow> check_prompt m' = [] \<and> requirements_of m' = []"
    using out [unfolded step] u(4) texts rest M(2)
    by (auto simp: as check_prompt_iff requirements_of_def map_eq_Cons_conv split: option.splits if_splits)
  have "ds = [] \<and> check_prompt m' = [] \<and> check_model m' = [] \<and> check_resume m' = [] \<longleftrightarrow> baseline_agrees p ?base m"
    using facts prompt by (auto simp: baseline_agrees_def check_model_iff check_resume_iff M(3,4))
  then show ?thesis
    using resolve_answered [of "with_answers l as" m' ds] prompt out u(3) None answered
    by (simp add: with_answers_upper merged)
qed

text \<open>The completed pass is for the provider that was selected, or else answered.\<close>

lemma answers_provider:
  assumes first: "resolve (with_answers l []) = Missing m rs"
    and ids: "map an_id as = map rq_id rs"
    and known: "\<forall>a \<in> set as. an_id a = provider_requirement_id \<longrightarrow> is_ok (parse_provider (an_value a))"
    and complete: "resolve (with_answers l as) = Complete m'"
  shows "par_provider m' = option_or (par_provider m) (answered_provider as)"
proof -
  note u = unanswered_pass [OF first]
  let ?m0 = "merge_layers (with_answers l as)"
  have m': "fst (apply_answers ?m0 as) = m'"
    using complete by (cases "with_answers l as" rule: resolve_cases) (auto simp: with_answers_upper)
  show ?thesis
  proof (cases "par_provider m")
    case (Some q)
    then have "?m0 = m" using merge_layers_selected [of l q as] u(1,7) by simp
    then show ?thesis using apply_answers_bound [of m q as] Some m' by simp
  next
    case None
    from ids u(2) None obtain a rest where as: "as = a # rest" and a: "an_id a = provider_requirement_id"
      and rest: "map an_id rest = (if par_prompt m = None then [prompt_requirement_id] else [])"
      by (auto simp: requirements_of_def provider_requirement_def prompt_requirement_def)
    with known obtain p where p: "parse_provider (an_value a) = Inr p" by (auto simp: is_ok_iff)
    then have answered: "answered_provider as = Some p" by (simp add: as answered_first [OF a])
    have "par_provider ?m0 = None"
      using merge_layers_answered(2) [OF _ answered, of l] u(7) None by (simp add: merge_turn_def)
    moreover obtain q where q: "par_provider m' = Some q" using resolve_complete_bound [OF complete] by auto
    ultimately obtain b where "b \<in> set as" "an_id b = provider_requirement_id" "parse_provider (an_value b) = Inr q"
      using apply_answers_source [of ?m0 as] m' by auto
    moreover from this rest have "b = a"
      by (auto simp: as map_eq_Cons_conv provider_requirement_id_def prompt_requirement_id_def split: if_splits)
    ultimately show ?thesis using p q None answered by simp
  qed
qed

lemma complete_answered:
  assumes "resolve (with_answers l []) = Missing m rs" "map an_id as = map rq_id rs"
    and "\<forall>a \<in> set as. an_id a = provider_requirement_id \<longrightarrow> is_ok (parse_provider (an_value a))"
    and "\<forall>a \<in> set as. an_id a = prompt_requirement_id \<longrightarrow> \<not> is_blank (an_value a)"
    and agrees: "\<And>p. baseline_agrees p (baseline_for l p) m"
  shows "\<exists>m'. resolve (with_answers l as) = Complete m'
     \<and> par_provider m' = option_or (par_provider m) (answered_provider as)"
proof -
  have "par_provider m \<noteq> None \<or> (\<exists>p. answered_provider as = Some p)"
  proof (cases "par_provider m")
    case None
    with assms(2) unanswered_pass(2) [OF assms(1)] obtain a rest where "as = a # rest" "an_id a = provider_requirement_id"
      by (auto simp: requirements_of_def provider_requirement_def)
    moreover from this assms(3) obtain p where "parse_provider (an_value a) = Inr p" by (auto simp: is_ok_iff)
    ultimately show ?thesis using answered_first by blast
  qed simp
  then obtain m' where "resolve (with_answers l as) = Complete m'"
    using answers_decide [OF assms(1-4)] agrees by (auto split: if_splits)
  with answers_provider [OF assms(1-3)] show ?thesis by blast
qed

text \<open>C22: one round of elicitation is enough, and what it comes to is decided by the baseline. When a pass
  without answers reports missing values and each reported requirement is answered once, with a known
  provider and a prompt that is not blank, the next pass never asks again: it is complete when the
  provider was selected before, and otherwise exactly when the host's baseline for the answered
  provider (unbound where there is none) does not itself bind the prompt that was asked for, and the
  model name and the resume binding then in effect are usable, the binding with that provider; in
  every other case it is invalid.\<close>

theorem elicitation_completes:
  assumes "resolve (with_answers l []) = Missing m rs"
    and "map an_id as = map rq_id rs"
    and "\<forall>a \<in> set as. an_id a = provider_requirement_id \<longrightarrow> is_ok (parse_provider (an_value a))"
    and "\<forall>a \<in> set as. an_id a = prompt_requirement_id \<longrightarrow> \<not> is_blank (an_value a)"
  shows "if par_provider m \<noteq> None \<or> (\<exists>p. answered_provider as = Some p \<and> baseline_agrees p (baseline_for l p) m)
    then \<exists>m'. resolve (with_answers l as) = Complete m' else \<exists>e. resolve (with_answers l as) = Invalid e"
  by (rule answers_decide [OF assms])

text \<open>A host whose baseline for Claude binds the prompt and whose baseline for Codex does not.\<close>

definition baseline_conflict :: "nat plan_layers" where
  "baseline_conflict =
     with_provider_defaults (layers_new unbound_turn)
       [(Claude, unbound_turn\<lparr>par_prompt := Some ''default''\<rparr>), (Codex, unbound_turn\<lparr>par_model := \<lparr>pm_name = Some ''o''\<rparr>\<rparr>)]"

definition elicited :: "string \<Rightarrow> answer list" where
  "elicited provider = [\<lparr>an_id = ''provider'', an_value = provider\<rparr>, \<lparr>an_id = ''prompt'', an_value = ''go''\<rparr>]"

theorem elicitation_completes_witness:
  "(\<exists>m. resolve (with_answers baseline_conflict (elicited ''codex'')) = Complete m)
   \<and> (\<exists>e. resolve (with_answers baseline_conflict (elicited ''claude'')) = Invalid e)"
proof -
  let ?as = elicited
  have missing: "resolve (with_answers baseline_conflict []) = Missing unbound_turn [provider_requirement, prompt_requirement None]"
    by code_simp
  have h: "map an_id (?as n) = map rq_id [provider_requirement, prompt_requirement None]"
    "\<forall>a \<in> set (?as n). an_id a = prompt_requirement_id \<longrightarrow> \<not> is_blank (an_value a)" for n
    by (simp_all add: elicited_def provider_requirement_def prompt_requirement_def provider_requirement_id_def
        prompt_requirement_id_def is_blank_def) code_simp
  have known: "\<forall>a \<in> set (?as n). an_id a = provider_requirement_id \<longrightarrow> is_ok (parse_provider (an_value a))"
    if "n \<in> {''claude'', ''codex''}" for n
    using that by (auto simp: elicited_def provider_requirement_id_def parse_provider_def)
  have agrees: "\<exists>p. answered_provider (?as ''codex'') = Some p \<and> baseline_agrees p (baseline_for baseline_conflict p) unbound_turn"
  proof (intro exI conjI)
    show "answered_provider (?as ''codex'') = Some Codex" by code_simp
    have "par_prompt (baseline_for baseline_conflict Codex) = None" "\<not> is_blank ''o''"
      "pm_name (par_model (baseline_for baseline_conflict Codex)) = Some ''o''"
      "pc_resume (par_context (baseline_for baseline_conflict Codex)) = None"
      by code_simp+
    then show "baseline_agrees Codex (baseline_for baseline_conflict Codex) unbound_turn"
      by (simp add: baseline_agrees_def unbound_turn_def unbound_model_def unbound_context_def)
  qed
  have "answered_provider (?as ''claude'') = Some Claude" "\<not> baseline_agrees Claude (baseline_for baseline_conflict Claude) unbound_turn"
    "par_provider (unbound_turn :: nat partial_turn) = None"
    by code_simp+
  with elicitation_completes [OF missing h(1) known h(2), of "''codex''"] agrees
    elicitation_completes [OF missing h(1) known h(2), of "''claude''"]
  show ?thesis by simp
qed

text \<open>The refusal: the baseline comes into play only once the provider is answered, and the answer to the
  prompt requirement, which the first pass asked for, then overrides a bound path.\<close>

lemma elicited_prompt_refused:
  "resolve baseline_conflict = Missing unbound_turn [provider_requirement, prompt_requirement None]"
  "resolve (with_answers baseline_conflict (elicited ''claude'')) = Invalid [answer_overrides_bound_path ''prompt'']"
  by code_simp+

end
