(* ===== verification/Claude_Adapter.thy ===== *)
theory Claude_Adapter
  imports Claude_Query
begin

text \<open>
  \<open>tower-agent-claude\<close>, launch and settlement: construction of the wrapper client, the run of one
  query, and the mapping of its terminal result or its error to a settlement with evidence. The
  wrapper (\<open>claude_wrapper\<close>) is a parameter: the fields its result is read for, the error variants
  the code distinguishes (every other variant is \<open>WOther\<close>, the wildcard arm), and two functions,
  \<open>build\<close> for the client and \<open>execute\<close> for the run.
\<close>

section \<open>What is read of the wrapper\<close>

record wrapper_usage =
  wu_input :: "u64 option"
  wu_cached_input :: "u64 option"
  wu_cache_write_input :: "u64 option"
  wu_output :: "u64 option"
  wu_reasoning_output :: "u64 option"

text \<open>\<open>is_empty\<close> and \<open>total\<close> of the wrapper's usage.\<close>

record usage_ops =
  uo_is_empty :: "wrapper_usage \<Rightarrow> bool"
  uo_total :: "wrapper_usage \<Rightarrow> u64"

record 'j query_result =
  qr_result :: string
  qr_session_id :: string
  qr_is_error :: bool
  qr_usage :: "wrapper_usage option"
  qr_cost_usd :: "f64 option"
  qr_duration_ms :: "u64 option"
  qr_num_turns :: "u32 option"
  qr_extra :: "(string \<times> 'j) list"

datatype auth_error_kind =
  NotAuthenticated | AuthExpired | InvalidCredentials | RateLimit | AuthProviderError | AuthOther

datatype wrapper_error =
    WMaxTurnsExceeded "u32 option" "f64 option" "u32 option" "string option"
  | WMaxBudgetExceeded "f64 option" "f64 option" "u32 option" "string option"
  | WNotFound
  | WTimeout u64
  | WCancelled
  | WAuth auth_error_kind
  | WBudgetExceeded
  | WVersionMismatch
  | WIo string
  | WJson
  | WCommandFailed i32
  | WOutputLimitExceeded
  | WOther

datatype claude_setting =
    CClearEnv
  | CEnvs "(string, string) btree_map"
  | CBinary path
  | CWorkingDir path
  | CEnv string string
  | COutputLimit nat
  | CKillGrace duration
  | CDieWithParent bool
  | COnSpawn "u32 \<Rightarrow> u32 option \<Rightarrow> spawn_receipt"

record ('c, 'j) claude_host =
  ch_env_var :: "string \<Rightarrow> var_error + string"
  ch_json :: "'j json_ops"
  ch_usage :: usage_ops
  ch_parse_uuid :: "string \<Rightarrow> string option"
  ch_format_usd :: "f64 \<Rightarrow> string"
  ch_build :: "claude_setting list \<Rightarrow> 'c option"
  ch_execute :: "'c \<Rightarrow> query_command \<Rightarrow> wrapper_error + 'j query_result"

section \<open>The client\<close>

definition when_set :: "('a \<Rightarrow> claude_setting) \<Rightarrow> 'a option \<Rightarrow> claude_setting list" where
  "when_set f x = (case x of None \<Rightarrow> [] | Some a \<Rightarrow> [f a])"

definition build_claude ::
  "('c, 'j) claude_host \<Rightarrow> claude_service \<Rightarrow> path option \<Rightarrow> path option \<Rightarrow> operation_id \<Rightarrow> agent_error + 'c" where
  "build_claude host service working_directory config_directory operation =
     and_then
       (map_err (\<lambda>error. error_new Internal
            (''invalid Claude child environment policy: '' @ child_environment_error_display error) Launch EffNone)
          (env_resolve (ch_env_var host) (cs_child_environment service)))
       (\<lambda>environment. and_then
          (case config_directory of
             None \<Rightarrow> Inr []
           | Some directory \<Rightarrow>
               and_then
                 (ok_or (error_new Internal ''configured Claude directory is not valid UTF-8'' Launch EffNone)
                    (path_to_str directory))
                 (\<lambda>d. Inr [CEnv ''CLAUDE_CONFIG_DIR'' d]))
          (\<lambda>config.
             ok_or (launch_failed claude_display)
               (ch_build host
                 ((if res_clear_inherited environment then [CClearEnv] else [])
                  @ [CEnvs (res_variables environment)]
                  @ when_set CBinary (cs_binary service)
                  @ when_set CWorkingDir working_directory
                  @ config
                  @ when_set COutputLimit (cs_output_limit service)
                  @ when_set CKillGrace (cs_kill_grace service)
                  @ [CDieWithParent (cs_die_with_parent service)]
                  @ (if cs_spawn_observer service
                     then [COnSpawn (\<lambda>pid pgid. spawn_receipt_new claude_provider operation pid pgid)] else [])))))"

section \<open>Settlement\<close>

definition claude_map_usage :: "usage_ops \<Rightarrow> wrapper_usage \<Rightarrow> token_usage" where
  "claude_map_usage ops u =
     \<lparr>usage_input = wu_input u, usage_cached_input = wu_cached_input u,
      usage_cache_write_input = wu_cache_write_input u, usage_output = wu_output u,
      usage_reasoning_output = wu_reasoning_output u,
      usage_provider_total = (if \<not> uo_is_empty ops u then Some (uo_total ops u) else None)\<rparr>"

definition reported_usage :: "usage_ops \<Rightarrow> 'j query_result \<Rightarrow> token_usage option" where
  "reported_usage ops result =
     (case qr_usage result of
        None \<Rightarrow> None
      | Some u \<Rightarrow> if \<not> uo_is_empty ops u then Some (claude_map_usage ops u) else None)"

definition from_millis :: "u64 \<Rightarrow> duration" where
  "from_millis ms = duration_from_millis (unat ms)"

definition query_evidence :: "usage_ops \<Rightarrow> 'j query_result \<Rightarrow> session_handle option \<Rightarrow> failure_evidence" where
  "query_evidence ops result preassigned =
     \<lparr>ev_session =
        option_or preassigned
          (if qr_session_id result \<noteq> [] then Some (session_handle_new claude_provider (qr_session_id result)) else None),
      ev_usage = reported_usage ops result,
      ev_cost = map_option cost_usd (qr_cost_usd result),
      ev_duration = map_option from_millis (qr_duration_ms result),
      ev_provider_turns = qr_num_turns result\<rparr>"

definition query_evidence_without_session :: "usage_ops \<Rightarrow> 'j query_result \<Rightarrow> failure_evidence" where
  "query_evidence_without_session ops result = (query_evidence ops result None)\<lparr>ev_session := None\<rparr>"

definition map_query_error :: "'j json_ops \<Rightarrow> usage_ops \<Rightarrow> 'j query_result \<Rightarrow> session_handle option \<Rightarrow> agent_error" where
  "map_query_error js ops result preassigned =
     (let subtype = (case map_of (qr_extra result) ''subtype'' of None \<Rightarrow> None | Some v \<Rightarrow> js_as_str js v);
          (kind, message) =
            (if subtype = Some ''error_max_turns'' then (Limit, ''Claude reached its maximum turn limit'')
             else if subtype = Some ''error_max_budget_usd'' then (Budget, ''Claude reached its budget limit'')
             else (Provider, ''Claude reported a failed turn''))
      in with_evidence (error_new kind message Running EffPossible) (query_evidence ops result preassigned))"

text \<open>Writing the session into the evidence of an error, created empty when absent.\<close>

fun attach_preassigned_session :: "agent_error \<Rightarrow> session_handle option \<Rightarrow> agent_error" where
  "attach_preassigned_session e None = e"
| "attach_preassigned_session (AgentError k m p ef ev ra c) (Some s) =
     AgentError k m p ef (Some ((unwrap_or ev failure_evidence_default)\<lparr>ev_session := Some s\<rparr>)) ra c"

definition structured_output :: "'j json_ops \<Rightarrow> 'j query_result \<Rightarrow> bool \<Rightarrow> agent_error + 'j option" where
  "structured_output js result schema_requested =
     (let payload =
        (case map_of (qr_extra result) ''structured_output'' of
           None \<Rightarrow> None | Some v \<Rightarrow> if \<not> js_is_null js v then Some v else None)
      in if schema_requested
         then (case payload of
                 None \<Rightarrow> Inl (error_new Provider
                   ''Claude reported success without the requested structured output'' Settlement EffPossible)
               | Some v \<Rightarrow> Inr (Some v))
         else Inr None)"

definition rail_stop_error ::
  "error_kind \<Rightarrow> string \<Rightarrow> string option \<Rightarrow> f64 option \<Rightarrow> u32 option \<Rightarrow> agent_error" where
  "rail_stop_error kind message session_id cost turns =
     with_evidence (error_new kind message Running EffPossible)
       (failure_evidence_default
         \<lparr>ev_session := map_option (session_handle_new claude_provider) session_id,
          ev_cost := map_option cost_usd cost, ev_provider_turns := turns\<rparr>)"

fun auth_error :: "auth_error_kind \<Rightarrow> error_kind \<times> string" where
  "auth_error NotAuthenticated = (Authentication, ''Claude credentials are not configured'')"
| "auth_error AuthExpired = (Authentication, ''Claude credentials have expired'')"
| "auth_error InvalidCredentials = (Authentication, ''Claude credentials were rejected'')"
| "auth_error RateLimit = (Limit, ''Claude request was rate limited'')"
| "auth_error AuthProviderError = (Provider, ''Claude authentication provider failed'')"
| "auth_error AuthOther = (Provider, ''Claude provider rejected the request'')"

fun map_other_wrapper_error :: "wrapper_error \<Rightarrow> agent_error" where
  "map_other_wrapper_error WNotFound = error_new Provider ''claude binary not found'' Launch EffNone"
| "map_other_wrapper_error (WTimeout s) =
     error_new DeadlineExceeded (''claude command timed out after '' @ show_nat (unat s) @ ''s'') Running EffPossible"
| "map_other_wrapper_error WCancelled = error_new Cancelled ''Claude turn was cancelled'' Running EffPossible"
| "map_other_wrapper_error (WAuth kind) =
     error_new (fst (auth_error kind)) (snd (auth_error kind)) Running EffPossible"
| "map_other_wrapper_error WBudgetExceeded =
     error_new Budget ''Claude wrapper budget exceeded before dispatch'' Admission EffNone"
| "map_other_wrapper_error WVersionMismatch =
     error_new Unsupported ''Claude CLI is older than the required version'' Launch EffNone"
| "map_other_wrapper_error (WIo message) =
     (if starts_with ''failed to spawn claude'' message
      then error_new Provider ''Claude process could not be launched'' Launch EffNone
      else error_new Provider ''Claude process I/O failed'' Running EffPossible)"
| "map_other_wrapper_error WJson = error_new Provider ''Claude returned an invalid terminal result'' Settlement EffPossible"
| "map_other_wrapper_error (WCommandFailed exit_code) = command_failed claude_display exit_code"
| "map_other_wrapper_error WOutputLimitExceeded =
     error_new Limit ''Claude output exceeded the host capture limit'' Running EffPossible"
| "map_other_wrapper_error _ = error_new Provider ''Claude provider failed'' Running EffPossible"

fun map_wrapper_error :: "(f64 \<Rightarrow> string) \<Rightarrow> wrapper_error \<Rightarrow> agent_error" where
  "map_wrapper_error usd (WMaxTurnsExceeded max_turns cost num_turns session_id) =
     rail_stop_error Limit
       (case max_turns of
          None \<Rightarrow> ''Claude reached its maximum turn limit''
        | Some turns \<Rightarrow> ''Claude reached its maximum turn limit of '' @ show_nat (unat turns))
       session_id cost num_turns"
| "map_wrapper_error usd (WMaxBudgetExceeded max_usd cost num_turns session_id) =
     rail_stop_error Budget
       (case max_usd of
          None \<Rightarrow> ''Claude reached its budget limit''
        | Some amount \<Rightarrow> ''Claude reached its budget limit of $'' @ usd amount)
       session_id cost num_turns"
| "map_wrapper_error usd error = map_other_wrapper_error error"

section \<open>One call\<close>

text \<open>The settlement, the emitted events, and whether the wrapper was asked to execute anything.\<close>

type_synonym 'j claude_settled = "(agent_error + 'j turn_outcome) \<times> agent_event list \<times> bool"

definition claude_settle ::
  "('c, 'j) claude_host \<Rightarrow> 'j query_result \<Rightarrow> string option \<Rightarrow> session_handle option \<Rightarrow> bool
     \<Rightarrow> (agent_error + 'j turn_outcome) \<times> agent_event list" where
  "claude_settle host result prior_session preassigned schema_requested =
     (if (case preassigned of None \<Rightarrow> False
          | Some session \<Rightarrow> qr_session_id result \<noteq> [] \<and> qr_session_id result \<noteq> handle_value session)
      then (Inl (with_evidence
              (error_new Provider ''Claude returned a different session than the host preassigned'' Settlement EffPossible)
              (query_evidence_without_session (ch_usage host) result)), [])
      else if qr_is_error result
      then (Inl (map_query_error (ch_json host) (ch_usage host) result preassigned), [])
      else case structured_output (ch_json host) result schema_requested of
             Inl error \<Rightarrow> (Inl (with_evidence error (query_evidence_without_session (ch_usage host) result)), [])
           | Inr structured \<Rightarrow>
               (Inr ((turn_outcome_new (qr_result result))
                  \<lparr>out_structured := structured,
                   out_session := option_or preassigned
                     (map_option (session_handle_new claude_provider)
                       (option_or (if qr_session_id result \<noteq> [] then Some (qr_session_id result) else None) prior_session)),
                   out_usage := reported_usage (ch_usage host) result,
                   out_cost := map_option cost_usd (qr_cost_usd result),
                   out_duration := map_option from_millis (qr_duration_ms result),
                   out_provider_turns := qr_num_turns result\<rparr>),
                [EvOutputDelta (qr_result result)]))"

definition claude_run ::
  "('c, 'j) claude_host \<Rightarrow> 'c \<Rightarrow> query_command \<Rightarrow> bool \<Rightarrow> string option \<Rightarrow> session_handle option \<Rightarrow> bool
     \<Rightarrow> 'j claude_settled" where
  "claude_run host claude query cancelled_at_poll prior_session preassigned schema_requested =
     (if cancelled_at_poll
      then (Inl (attach_preassigned_session (cancelled_before_launch claude_display) preassigned), [], False)
      else case ch_execute host claude query of
             Inl error \<Rightarrow>
               (Inl (attach_preassigned_session (map_wrapper_error (ch_format_usd host) error) preassigned), [EvStarted], True)
           | Inr result \<Rightarrow>
               (let (settled, events) = claude_settle host result prior_session preassigned schema_requested
                in (settled, EvStarted # events, True)))"

text \<open>
  \<open>call\<close>, with the token as it is at the call and at the first poll of the future.
\<close>

definition claude_call ::
  "('c, 'j) claude_host \<Rightarrow> claude_service \<Rightarrow> bool \<Rightarrow> bool \<Rightarrow> 'j claude_options turn agent_request
     \<Rightarrow> 'j claude_settled" where
  "claude_call host service cancelled_at_call cancelled_at_poll request =
     (let body = req_body request;
          refuse = (\<lambda>error. (Inl error, [], False))
      in if cancelled_at_call then refuse (cancelled_before_launch claude_display)
         else case claude_preflight_session body of
           Inl error \<Rightarrow> refuse error
         | Inr _ \<Rightarrow>
        (case validate_preassigned_session (ch_parse_uuid host) request of
           Inl error \<Rightarrow> refuse error
         | Inr preassigned \<Rightarrow>
        (case effective_ambient_context (cs_ambient_context service) (co_ambient_context (turn_options body)) of
           Inl error \<Rightarrow> refuse (attach_preassigned_session error preassigned)
         | Inr ambient \<Rightarrow>
        (case build_query (ch_json host) body ambient preassigned of
           Inl error \<Rightarrow> refuse (attach_preassigned_session error preassigned)
         | Inr query \<Rightarrow>
        (case build_claude host service (turn_working_directory body) (cs_config_directory service)
                (ctx_operation_id (req_context request)) of
           Inl error \<Rightarrow> refuse (attach_preassigned_session error preassigned)
         | Inr claude \<Rightarrow>
             claude_run host claude query cancelled_at_poll (map_option handle_value (turn_session body))
               preassigned (is_some (co_json_schema (turn_options body))))))))"

section \<open>Lemmas\<close>

lemma attach_sel [simp]:
  "err_kind (attach_preassigned_session e s) = err_kind e"
  "err_phase (attach_preassigned_session e s) = err_phase e"
  "err_effects (attach_preassigned_session e s) = err_effects e"
  "err_message (attach_preassigned_session e s) = err_message e"
  by (cases e; cases s; simp)+

lemma evidence_of_attach:
  "evidence_of (attach_preassigned_session e s) =
     (case s of None \<Rightarrow> evidence_of e | Some h \<Rightarrow> (evidence_of e)\<lparr>ev_session := Some h\<rparr>)"
  by (cases e; cases s) (simp_all add: evidence_of_def)

lemma rail_stop_sel [simp]:
  "err_phase (rail_stop_error k m s c t) = Running" "err_effects (rail_stop_error k m s c t) = EffPossible"
  by (simp_all add: rail_stop_error_def)

text \<open>The wrapper errors that are reported as effect-free are those before a child process exists.\<close>

fun before_spawn :: "wrapper_error \<Rightarrow> bool" where
  "before_spawn WNotFound = True"
| "before_spawn WBudgetExceeded = True"
| "before_spawn WVersionMismatch = True"
| "before_spawn (WIo message) = starts_with ''failed to spawn claude'' message"
| "before_spawn _ = False"

lemma map_wrapper_error_effects:
  "err_effects (map_wrapper_error usd e) = (if before_spawn e then EffNone else EffPossible)"
  by (cases e) (simp_all add: command_failed_def)

lemma map_wrapper_error_phase: "err_phase (map_wrapper_error usd e) \<noteq> Validation"
  by (cases e) (simp_all add: command_failed_def)

lemma build_claude_error: "build_claude host service wd cd op = Inl e \<Longrightarrow> err_phase e = Launch \<and> err_effects e = EffNone"
  by (auto simp: build_claude_def and_then_eq_Inl launch_failed_def ok_or_def map_err_def and_then_def
      split: option.splits sum.splits if_splits)

lemma map_query_error_sel [simp]:
  "err_phase (map_query_error js ops r s) = Running" "err_effects (map_query_error js ops r s) = EffPossible"
  "evidence_of (map_query_error js ops r s) = query_evidence ops r s"
  by (simp_all add: map_query_error_def Let_def)

lemma claude_settle_error:
  "fst (claude_settle host result prior s schema) = Inl e \<Longrightarrow>
     err_effects e = EffPossible \<and> err_phase e \<noteq> Validation \<and> (ev_session (evidence_of e) = s \<or> ev_session (evidence_of e) = None \<or> s = None)"
  by (auto simp: claude_settle_def query_evidence_without_session_def query_evidence_def structured_output_def Let_def
      split: if_splits option.splits sum.splits)

text \<open>What a call did, by how far it came: refused before the run, or the run of its query.\<close>

lemma claude_call_cases:
  assumes "claude_call host service c1 c2 request = (res, evs, launched)"
  obtains (refused) e where "res = Inl e" "evs = []" "\<not> launched" "err_effects e = EffNone"
    | (executed) claude ambient query preassigned where
      "validate_preassigned_session (ch_parse_uuid host) request = Inr preassigned"
      "build_claude host service (turn_working_directory (req_body request)) (cs_config_directory service)
         (ctx_operation_id (req_context request)) = Inr claude"
      "effective_ambient_context (cs_ambient_context service) (co_ambient_context (turn_options (req_body request))) = Inr ambient"
      "build_query (ch_json host) (req_body request) ambient preassigned = Inr query"
      "claude_run host claude query c2 (map_option handle_value (turn_session (req_body request)))
         preassigned (is_some (co_json_schema (turn_options (req_body request)))) = (res, evs, launched)"
proof -
  have none: "pure_refusal e \<Longrightarrow> err_effects e = EffNone" for e by (simp add: pure_refusal_def)
  have facts:
    "\<And>e. claude_preflight_session (req_body request) = Inl e \<Longrightarrow> err_effects e = EffNone"
    "\<And>e. validate_preassigned_session (ch_parse_uuid host) request = Inl e \<Longrightarrow> err_effects e = EffNone"
    "\<And>e h r. effective_ambient_context h r = Inl e \<Longrightarrow> err_effects e = EffNone"
    "\<And>e a p. build_query (ch_json host) (req_body request) a p = Inl e \<Longrightarrow> err_effects e = EffNone"
    "\<And>e wd cd op. build_claude host service wd cd op = Inl e \<Longrightarrow> err_effects e = EffNone"
    using claude_preflight_session_refusal validate_preassigned_refusal build_query_refusal effective_ambient_Inl
      build_claude_error none pure_refusal_constructors(1)
    by metis+
  show thesis
    using assms
    by (auto simp: claude_call_def Let_def cancelled_before_launch_def
        intro: refused executed dest: facts split: if_splits sum.splits)
      (metis facts(3-5) refused attach_sel(3))+
qed

lemma claude_run_effects:
  assumes "claude_run host claude query c2 prior preassigned schema = (Inl e, evs, launched)"
  shows "(err_effects e = EffNone \<longleftrightarrow> \<not> launched \<or> (\<exists>w. ch_execute host claude query = Inl w \<and> before_spawn w))
    \<and> (evs = [] \<longleftrightarrow> \<not> launched)"
proof (cases "ch_execute host claude query")
  case (Inl w)
  with assms show ?thesis
    by (auto simp: claude_run_def cancelled_before_launch_def map_wrapper_error_effects split: if_splits)
next
  case (Inr result)
  with assms claude_settle_error [of host result prior preassigned schema e] show ?thesis
    by (auto simp: claude_run_def cancelled_before_launch_def split: if_splits prod.splits)
qed

text \<open>The terminal results that verify no session: another session than the preassigned one is reported,
  or a success without the structured output that was requested.\<close>

definition session_unverified :: "'j json_ops \<Rightarrow> bool \<Rightarrow> session_handle \<Rightarrow> 'j query_result \<Rightarrow> bool" where
  "session_unverified js schema s result \<longleftrightarrow>
     qr_session_id result \<notin> {[], handle_value s}
     \<or> \<not> qr_is_error result \<and> schema
       \<and> (case map_of (qr_extra result) ''structured_output'' of None \<Rightarrow> True | Some v \<Rightarrow> js_is_null js v)"

lemma claude_settle_session:
  "case fst (claude_settle host result prior (Some s) schema) of
      Inr out \<Rightarrow> out_session out = Some s \<and> qr_session_id result \<in> {[], handle_value s}
        \<and> out_output out = qr_result result
    | Inl e \<Rightarrow> ev_session (evidence_of e) =
        (if session_unverified (ch_json host) schema s result then None else Some s)"
  by (auto simp: claude_settle_def session_unverified_def query_evidence_without_session_def query_evidence_def
      structured_output_def turn_outcome_new_def Let_def split: option.splits)

lemma claude_run_session:
  assumes "claude_run host claude query c2 prior (Some s) schema = (res, evs, launched)"
  shows "case res of
      Inr out \<Rightarrow> launched \<and> out_session out = Some s \<and> (\<exists>result. ch_execute host claude query = Inr result
        \<and> qr_session_id result \<in> {[], handle_value s} \<and> out_output out = qr_result result)
    | Inl e \<Rightarrow> ev_session (evidence_of e) =
        (if launched \<and> (\<exists>result. ch_execute host claude query = Inr result
              \<and> session_unverified (ch_json host) schema s result)
         then None else Some s)"
proof (cases "ch_execute host claude query")
  case (Inl w)
  with assms show ?thesis by (auto simp: claude_run_def evidence_of_attach split: if_splits)
next
  case (Inr result)
  with assms show ?thesis
    using claude_settle_session [where host = host and result = result and prior = prior and s = s and schema = schema]
    by (auto simp: claude_run_def evidence_of_attach split: if_splits prod.splits sum.splits)
qed

text \<open>What the wrapper answers to the query and on the client that the adapter builds for a request.\<close>

definition claude_answered ::
  "('c, 'j) claude_host \<Rightarrow> claude_service \<Rightarrow> 'j claude_options turn agent_request
     \<Rightarrow> wrapper_error + 'j query_result \<Rightarrow> bool" where
  "claude_answered host service request answer \<longleftrightarrow>
     (\<exists>ambient query claude.
        effective_ambient_context (cs_ambient_context service)
          (co_ambient_context (turn_options (req_body request))) = Inr ambient
      \<and> build_query (ch_json host) (req_body request) ambient (ctx_preassigned_session (req_context request)) = Inr query
      \<and> build_claude host service (turn_working_directory (req_body request)) (cs_config_directory service)
          (ctx_operation_id (req_context request)) = Inr claude
      \<and> ch_execute host claude query = answer)"

lemma claude_answered_built:
  assumes "effective_ambient_context (cs_ambient_context service)
      (co_ambient_context (turn_options (req_body request))) = Inr ambient"
    and "build_query (ch_json host) (req_body request) ambient (ctx_preassigned_session (req_context request)) = Inr query"
    and "build_claude host service (turn_working_directory (req_body request)) (cs_config_directory service)
      (ctx_operation_id (req_context request)) = Inr claude"
  shows "claude_answered host service request answer \<longleftrightarrow> ch_execute host claude query = answer"
  using assms by (auto simp: claude_answered_def)

lemma claude_call_stages:
  assumes "claude_call host service c1 c2 request = (res, evs, launched)" and "\<not> c1"
    and "is_ok (claude_preflight_session (req_body request))"
    and "validate_preassigned_session (ch_parse_uuid host) request = Inr (Some s)"
  obtains (early) e where "res = Inl e" "\<not> launched" "ev_session (evidence_of e) = Some s"
    | (late) claude ambient query where
      "effective_ambient_context (cs_ambient_context service) (co_ambient_context (turn_options (req_body request))) = Inr ambient"
      "build_query (ch_json host) (req_body request) ambient (Some s) = Inr query"
      "build_claude host service (turn_working_directory (req_body request)) (cs_config_directory service)
         (ctx_operation_id (req_context request)) = Inr claude"
      "claude_run host claude query c2 (map_option handle_value (turn_session (req_body request)))
         (Some s) (is_some (co_json_schema (turn_options (req_body request)))) = (res, evs, launched)"
  using assms
  by (auto simp: claude_call_def Let_def is_ok_iff evidence_of_attach split: sum.splits)

text \<open>The gate of a call: a live token, a usable prompt and session, and a valid preassignment.\<close>

definition preassignment_accepted ::
  "('c, 'j) claude_host \<Rightarrow> bool \<Rightarrow> 'j claude_options turn agent_request \<Rightarrow> bool" where
  "preassignment_accepted host cancelled_at_call request \<longleftrightarrow>
     \<not> cancelled_at_call \<and> is_ok (claude_preflight_session (req_body request))
     \<and> is_ok (validate_preassigned_session (ch_parse_uuid host) request)"

lemma validate_preassigned_Inr:
  "validate_preassigned_session u request = Inr p \<Longrightarrow> p = ctx_preassigned_session (req_context request)"
  by (auto simp: validate_preassigned_session_def session_handle_new_def split: if_splits option.splits)

lemma pure_refusal_evidence: "pure_refusal e \<Longrightarrow> evidence_of e = failure_evidence_default"
  by (simp add: pure_refusal_def evidence_of_def)

lemma claude_call_gate:
  assumes "claude_call host service c1 c2 request = (res, evs, launched)"
    and "\<not> preassignment_accepted host c1 request"
  shows "\<not> launched \<and> (\<exists>e. res = Inl e \<and> ev_session (evidence_of e) = None)"
proof -
  have "ev_session (evidence_of (cancelled_before_launch d)) = None" for d
    by (simp add: cancelled_before_launch_def evidence_of_def)
  then show ?thesis
    using assms
    by (auto simp: claude_call_def preassignment_accepted_def Let_def is_ok_def pure_refusal_evidence
        dest!: claude_preflight_session_refusal validate_preassigned_refusal split: if_splits sum.splits)
qed

section \<open>Properties\<close>

text \<open>Preflight accepts a turn exactly when its prompt and resumed session are usable, its ambient
  context is compatible with the host's baseline and every option is representable; nothing else is
  refused and nothing else is let through.\<close>

theorem claude_preflight_decides:
  "is_ok (claude_preflight js service t) \<longleftrightarrow>
     \<not> is_blank (turn_prompt t) \<and> pred_option claude_session_valid (turn_session t)
     \<and> ambient_compatible (cs_ambient_context service) (co_ambient_context (turn_options t))
     \<and> claude_options_valid js (turn_options t)"
proof -
  have "is_ok (claude_preflight js service t) \<longleftrightarrow> is_ok (claude_preflight_session t)
      \<and> (\<exists>c. effective_ambient_context (cs_ambient_context service) (co_ambient_context (turn_options t)) = Inr c
           \<and> is_ok (build_query js t c None))"
    unfolding claude_preflight_def is_ok_and_then by (auto simp: is_ok_iff)
  then show ?thesis
    by (auto simp: claude_preflight_session_is_ok build_query_is_ok is_ok_iff [symmetric] effective_ambient_is_ok [symmetric])
qed

text \<open>Without a preassigned session, a call whose turn fails preflight is refused with exactly that
  error and launches nothing, and a turn that passes preflight is never refused in the validation
  phase.\<close>

theorem claude_preflight_exact:
  assumes "ctx_preassigned_session (req_context request) = None"
  shows "(\<forall>e. claude_preflight (ch_json host) service (req_body request) = Inl e \<longrightarrow>
      claude_call host service False c2 request = (Inl e, [], False))
    \<and> (\<forall>e. is_ok (claude_preflight (ch_json host) service (req_body request)) \<longrightarrow>
      fst (claude_call host service False c2 request) = Inl e \<longrightarrow> err_phase e \<noteq> Validation)"
proof -
  have v: "validate_preassigned_session (ch_parse_uuid host) request = Inr None"
    using assms by (simp add: validate_preassigned_session_def)
  have run: "err_phase e \<noteq> Validation"
    if "claude_run host claude query c2 prior None schema = (Inl e, evs, launched)" for claude query prior schema e evs launched
  proof -
    have "claude_settle host result prior None schema = (Inl e, x) \<Longrightarrow> err_phase e \<noteq> Validation" for result x
      using claude_settle_error [of host result prior None schema e] by simp
    with that show ?thesis
      by (cases "ch_execute host claude query")
        (auto simp: claude_run_def cancelled_before_launch_def map_wrapper_error_phase split: if_splits prod.splits)
  qed
  have launch: "build_claude host service wd cd op = Inl e \<Longrightarrow> err_phase e \<noteq> Validation" for wd cd op e
    using build_claude_error by fastforce
  show ?thesis
    by (auto simp: claude_call_def claude_preflight_def Let_def v and_then_eq_Inl is_ok_and_then
        dest: launch split: sum.splits)
      (metis run launch prod.collapse fst_conv)+
qed

text \<open>A concrete host, for the witnesses: JSON values are strings, the wrapper answers every query.\<close>

definition sample_result :: "string query_result" where
  "sample_result =
     \<lparr>qr_result = ''done'', qr_session_id = ''s-1'', qr_is_error = False, qr_usage = None, qr_cost_usd = None,
      qr_duration_ms = None, qr_num_turns = Some 2, qr_extra = [(''subtype'', ''success'')]\<rparr>"

definition sample_host :: "(wrapper_error + string query_result) \<Rightarrow> (nat, string) claude_host" where
  "sample_host answer =
     \<lparr>ch_env_var = (\<lambda>_. Inl NotPresent),
      ch_json = \<lparr>js_is_object = (\<lambda>s. s \<noteq> []), js_is_null = (\<lambda>s. s = []), js_as_str = Some, js_encode = Some,
                 js_draft7_valid = (\<lambda>_. True)\<rparr>,
      ch_usage = \<lparr>uo_is_empty = (\<lambda>_. False), uo_total = (\<lambda>_. 9)\<rparr>,
      ch_parse_uuid = Some, ch_format_usd = (\<lambda>_. ''1.00''),
      ch_build = (\<lambda>settings. Some (length settings)),
      ch_execute = (\<lambda>_ _. answer)\<rparr>"

definition sample_claude_request :: "string option \<Rightarrow> string option \<Rightarrow> string claude_options turn agent_request" where
  "sample_claude_request resumed preassigned =
     agent_request_with_context
       ((turn_with_options (turn_new ''go'') claude_options_default)
         \<lparr>turn_session := map_option (session_handle_new ''claude'') resumed\<rparr>)
       ((call_context_default 1 [0])
         \<lparr>ctx_preassigned_session := map_option (session_handle_new ''claude'') preassigned\<rparr>)"

theorem claude_preflight_exact_witness:
  "\<exists>e. fst (claude_call (sample_host (Inl WJson)) claude_service_new False False (sample_claude_request None None)) = Inl e
     \<and> err_phase e \<noteq> Validation"
proof -
  have none: "ctx_preassigned_session (req_context (sample_claude_request None None)) = None"
    by (simp add: sample_claude_request_def agent_request_with_context_def)
  have ok: "is_ok (claude_preflight (ch_json (sample_host (Inl WJson))) claude_service_new
      (req_body (sample_claude_request None None)))"
    and err: "\<not> is_ok (fst (claude_call (sample_host (Inl WJson)) claude_service_new False False (sample_claude_request None None)))"
    by code_simp+
  then obtain e where "fst (claude_call (sample_host (Inl WJson)) claude_service_new False False
      (sample_claude_request None None)) = Inl e"
    by (auto simp: is_ok_def split: sum.splits)
  with claude_preflight_exact [OF none] ok show ?thesis by blast
qed

text \<open>C16: a host-preassigned session pins the call. A turn succeeds only in exactly that session, with the
  output of a result which reports this session or none. A failure carries no session when the call is
  turned away at the gate (the token is cancelled at the call, or the prompt, the session or the
  preassignment itself is refused) or when the terminal result verifies none (it reports another
  session, or lacks the structured output that was asked for); every other failure, of the options, of
  the client, of the launch, of the process, by cancellation or reported by the provider, carries
  exactly the preassigned session.\<close>

theorem claude_session_pinned:
  assumes call: "claude_call host service c1 c2 request = (res, evs, launched)"
    and pre: "ctx_preassigned_session (req_context request) = Some s"
  shows "case res of
      Inr out \<Rightarrow> launched \<and> out_session out = Some s
        \<and> (\<exists>result. claude_answered host service request (Inr result)
            \<and> qr_session_id result \<in> {[], handle_value s} \<and> out_output out = qr_result result)
    | Inl e \<Rightarrow> ev_session (evidence_of e) =
        (if \<not> preassignment_accepted host c1 request
           \<or> launched \<and> (\<exists>result. claude_answered host service request (Inr result)
               \<and> session_unverified (ch_json host) (is_some (co_json_schema (turn_options (req_body request)))) s result)
         then None else Some s)"
proof (cases "preassignment_accepted host c1 request")
  case False
  with claude_call_gate [OF call] show ?thesis by auto
next
  case True
  then obtain p where v: "validate_preassigned_session (ch_parse_uuid host) request = Inr p" and "\<not> c1"
    "is_ok (claude_preflight_session (req_body request))"
    by (auto simp: preassignment_accepted_def is_ok_iff)
  with validate_preassigned_Inr [OF v] pre have gate: "\<not> c1" "is_ok (claude_preflight_session (req_body request))"
    "validate_preassigned_session (ch_parse_uuid host) request = Inr (Some s)" by auto
  show ?thesis
  proof (rule claude_call_stages [OF call gate], goal_cases early late)
    case (early e)
    with True show ?thesis by simp
  next
    case (late claude ambient query)
    have answered: "claude_answered host service request answer \<longleftrightarrow> ch_execute host claude query = answer" for answer
      using claude_answered_built late(1-3) pre by metis
    from claude_run_session [OF late(4)] True show ?thesis unfolding answered by (cases res) simp_all
  qed
qed

theorem claude_session_pinned_witness:
  "(\<exists>e. fst (claude_call (sample_host (Inr sample_result)) claude_service_new False False
      (sample_claude_request None (Some ''u-7''))) = Inl e \<and> ev_session (evidence_of e) = None)
   \<and> (\<exists>e. fst (claude_call (sample_host (Inl WJson)) claude_service_new False False
      (sample_claude_request None (Some ''u-7''))) = Inl e
      \<and> ev_session (evidence_of e) = Some \<lparr>handle_provider = ''claude'', handle_value = ''u-7''\<rparr>)"
proof -
  let ?r = "sample_claude_request None (Some ''u-7'')"
  let ?s = "\<lparr>handle_provider = ''claude'', handle_value = ''u-7''\<rparr> :: session_handle"
  have pre: "ctx_preassigned_session (req_context ?r) = Some ?s"
    by (simp add: sample_claude_request_def agent_request_with_context_def session_handle_new_def)
  have gate: "preassignment_accepted (sample_host a) False ?r" for a
    unfolding preassignment_accepted_def by (simp add: sample_host_def) code_simp
  have call: "\<exists>e evs. claude_call (sample_host a) claude_service_new False False ?r = (Inl e, evs, True)"
    if "snd (snd (claude_call (sample_host a) claude_service_new False False ?r))"
      "\<not> is_ok (fst (claude_call (sample_host a) claude_service_new False False ?r))" for a
    using that by (cases "claude_call (sample_host a) claude_service_new False False ?r") (auto simp: is_ok_def split: sum.splits)
  have "\<exists>e evs. claude_call (sample_host (Inr sample_result)) claude_service_new False False ?r = (Inl e, evs, True)"
    by (rule call) code_simp+
  then obtain e evs where c: "claude_call (sample_host (Inr sample_result)) claude_service_new False False ?r = (Inl e, evs, True)"
    by blast
  have stages: "effective_ambient_context (cs_ambient_context claude_service_new)
      (co_ambient_context (turn_options (req_body ?r))) = Inr AmbientInherit" by code_simp
  moreover have "is_ok (build_query (ch_json (sample_host (Inr sample_result))) (req_body ?r) AmbientInherit (Some ?s))"
    by code_simp
  moreover have "is_ok (build_claude (sample_host (Inr sample_result)) claude_service_new
      (turn_working_directory (req_body ?r)) (cs_config_directory claude_service_new) (ctx_operation_id (req_context ?r)))"
    by code_simp
  moreover have "ch_execute (sample_host (Inr sample_result)) claude query = Inr sample_result" for claude query
    by (simp add: sample_host_def)
  ultimately have "claude_answered (sample_host (Inr sample_result)) claude_service_new ?r (Inr sample_result)"
    unfolding claude_answered_def pre is_ok_iff by blast
  moreover have "session_unverified (ch_json (sample_host (Inr sample_result)))
      (is_some (co_json_schema (turn_options (req_body ?r)))) ?s sample_result"
    by (simp add: session_unverified_def sample_result_def)
  ultimately have mismatch: "ev_session (evidence_of e) = None"
    using claude_session_pinned [OF c pre] by auto
  have "\<exists>e evs. claude_call (sample_host (Inl WJson)) claude_service_new False False ?r = (Inl e, evs, True)"
    by (rule call) code_simp+
  then obtain f fvs where d: "claude_call (sample_host (Inl WJson)) claude_service_new False False ?r = (Inl f, fvs, True)"
    by blast
  have "\<not> claude_answered (sample_host (Inl WJson)) claude_service_new ?r (Inr result)" for result
    by (auto simp: claude_answered_def sample_host_def)
  with claude_session_pinned [OF d pre] gate have "ev_session (evidence_of f) = Some ?s" by simp
  with mismatch c d show ?thesis by simp
qed

text \<open>C17: a failed call claims to have had no effects exactly when the wrapper was never asked to run its
  query, or reported one of the failures that precede the child process; events are emitted exactly
  when it was asked.\<close>

theorem claude_effects_honest:
  assumes "claude_call host service c1 c2 request = (Inl e, evs, launched)"
  shows "\<not> launched \<and> err_effects e = EffNone \<and> evs = []
    \<or> launched \<and> evs \<noteq> [] \<and>
      (\<exists>claude query.
         build_claude host service (turn_working_directory (req_body request)) (cs_config_directory service)
           (ctx_operation_id (req_context request)) = Inr claude
         \<and> (err_effects e = EffNone \<longleftrightarrow> (\<exists>w. ch_execute host claude query = Inl w \<and> before_spawn w)))"
  using assms
proof (cases rule: claude_call_cases)
  case (refused e')
  then show ?thesis by simp
next
  case (executed claude ambient query preassigned)
  from claude_run_effects [OF executed(5)] executed(2) show ?thesis by blast
qed

theorem claude_effects_honest_witness:
  "\<exists>e. fst (claude_call (sample_host (Inl (WIo ''failed to spawn claude: ENOENT''))) claude_service_new False False
      (sample_claude_request (Some ''s-1'') None)) = Inl e \<and> err_effects e = EffNone"
proof -
  let ?h = "sample_host (Inl (WIo ''failed to spawn claude: ENOENT''))"
  let ?c = "claude_call ?h claude_service_new False False (sample_claude_request (Some ''s-1'') None)"
  have facts: "snd (snd ?c)" "\<not> is_ok (fst ?c)" by code_simp+
  then obtain e evs where c: "?c = (Inl e, evs, True)"
    by (cases ?c) (auto simp: is_ok_def split: sum.splits)
  have "ch_execute ?h claude query = Inl (WIo ''failed to spawn claude: ENOENT'')" for claude query
    by (simp add: sample_host_def)
  moreover have "before_spawn (WIo ''failed to spawn claude: ENOENT'')" by code_simp
  ultimately show ?thesis using claude_effects_honest [OF c] c by auto
qed

text \<open>The ambient context of a turn is the least one at least as sealed as the host's baseline and as
  the request, so a turn can strengthen the baseline and never weaken it; a request without such a
  context is refused.\<close>

theorem ambient_context_join:
  "effective_ambient_context h r = Inr c \<longleftrightarrow>
     ambient_le h c \<and> ambient_le r c \<and> (\<forall>d. ambient_le h d \<and> ambient_le r d \<longrightarrow> ambient_le c d)"
  unfolding effective_ambient_Inr by (rule ambient_lub)

theorem ambient_context_join_witness:
  "\<not> (\<exists>c. effective_ambient_context AmbientSafe (AmbientHermetic HermeticFull) = Inr c)
   \<and> ambient_le (AmbientHermetic HermeticProject) (AmbientHermetic HermeticFull)"
  using ambient_context_join [of AmbientSafe "AmbientHermetic HermeticFull"]
    ambient_context_join [of "AmbientHermetic HermeticProject" "AmbientHermetic HermeticFull" "AmbientHermetic HermeticFull"]
  by (auto simp: ambient_le_def)

end
