(* ===== verification/Plan_Compile.thy ===== *)
theory Plan_Compile
  imports Plan_Resolve Claude_Adapter Service
begin

text \<open>
  The provider planners (\<open>claude.rs\<close>, \<open>codex.rs\<close>), \<open>ready.rs\<close> and \<open>router.rs\<close>: folding a complete
  resolution into the concrete turn of its provider, preparing a pass, and dispatching a ready turn
  to the service registered for its provider.
\<close>

section \<open>Planners\<close>

text \<open>\<open>None\<close> in the outer option is a panic of \<open>ResolvedTurn::provider\<close> or \<open>prompt\<close>.\<close>

definition unplannable :: "string \<Rightarrow> provider_id \<Rightarrow> diagnostic list" where
  "unplannable planner p =
     [diagnostic_error unsupported_provider_code (Some ''provider'')
        (''the '' @ planner @ '' planner cannot plan provider '' @ provider_as_str p)]"

definition plan_turn :: "string \<Rightarrow> 'o \<Rightarrow> partial_context \<Rightarrow> 'o turn" where
  "plan_turn prompt options context =
     (let t = turn_with_options (turn_new prompt) options;
          t' = (case pc_cwd context of None \<Rightarrow> t | Some cwd \<Rightarrow> turn_in_directory t cwd)
      in case pc_resume context of None \<Rightarrow> t' | Some resume \<Rightarrow> turn_resume t' (to_session_handle resume))"

definition claude_plan :: "'j resolved_turn \<Rightarrow> (diagnostic list + 'j claude_options turn) option" where
  "claude_plan resolved =
     (case (resolved_provider resolved, resolved_prompt resolved) of
        (Some p, Some prompt) \<Rightarrow>
          if p \<noteq> Claude then Some (Inl (unplannable ''claude'' p))
          else if is_some (pp_filesystem (par_permissions resolved))
          then Some (Inl [diagnostic_error unsupported_filesystem_code (Some ''permissions.filesystem'')
                 ''the Claude adapter does not claim the portable filesystem-authority contract''])
          else (let layer = unwrap_or (ppo_claude (par_provider_options resolved)) unbound_claude_options
                in Some (Inr (plan_turn prompt
                  \<lparr>co_system_prompt = pco_system_prompt layer,
                   co_append_system_prompt = pco_append_system_prompt layer,
                   co_model = pm_name (par_model resolved),
                   co_fallback_model = pco_fallback_model layer,
                   co_effort = map_option effort_of (pco_effort layer),
                   co_allowed_tools = unwrap_or (pco_allowed_tools layer) [],
                   co_disallowed_tools = unwrap_or (pco_disallowed_tools layer) [],
                   co_additional_directories = unwrap_or (pc_additional_directories (par_context resolved)) [],
                   co_max_turns = pco_max_turns layer,
                   co_max_budget_usd = pco_max_budget_usd layer,
                   co_permission_mode = map_option permission_mode_of (pco_permission_mode layer),
                   co_json_schema = pco_json_schema layer,
                   co_strict_mcp_config = unwrap_or (pco_strict_mcp_config layer) False,
                   co_ambient_context = unwrap_or (map_option ambient_of (pco_ambient_context layer)) AmbientInherit\<rparr>
                  (par_context resolved))))
      | _ \<Rightarrow> None)"

definition codex_plan :: "'j resolved_turn \<Rightarrow> (diagnostic list + 'j codex_options turn) option" where
  "codex_plan resolved =
     (case (resolved_provider resolved, resolved_prompt resolved) of
        (Some p, Some prompt) \<Rightarrow>
          if p \<noteq> Codex then Some (Inl (unplannable ''codex'' p))
          else (let dirs = unwrap_or (pc_additional_directories (par_context resolved)) []
                in if is_some (pc_resume (par_context resolved)) \<and> dirs \<noteq> []
                   then Some (Inl [diagnostic_error resumed_directories_code (Some ''context.additional_directories'')
                          ''codex cannot add directories to a resumed turn''])
                   else (let layer = unwrap_or (ppo_codex (par_provider_options resolved)) unbound_codex_options
                         in Some (Inr (plan_turn prompt
                           \<lparr>xo_system_prompt = pxo_system_prompt layer,
                            xo_model = pm_name (par_model resolved),
                            xo_additional_directories = dirs,
                            xo_output_schema = pxo_output_schema layer,
                            xo_filesystem_authority =
                              unwrap_or (map_option choice_authority (pp_filesystem (par_permissions resolved))) ReadOnly,
                            xo_ephemeral = unwrap_or (pxo_ephemeral layer) False\<rparr>
                           (par_context resolved)))))
      | _ \<Rightarrow> None)"

definition plan_claude_preflight :: "'j json_ops \<Rightarrow> claude_service \<Rightarrow> 'j claude_options turn \<Rightarrow> diagnostic + unit" where
  "plan_claude_preflight js service t = map_err adapter_refusal (claude_preflight js service t)"

definition plan_codex_preflight :: "'j codex_env \<Rightarrow> codex_service \<Rightarrow> 'j codex_options turn \<Rightarrow> diagnostic + unit" where
  "plan_codex_preflight env service t = map_err adapter_refusal (codex_preflight env service t)"

section \<open>Ready turns\<close>

datatype 'j ready_turn = ReadyClaude "'j claude_options turn" | ReadyCodex "'j codex_options turn"

fun ready_provider :: "'j ready_turn \<Rightarrow> provider_id" where
  "ready_provider (ReadyClaude _) = Claude"
| "ready_provider (ReadyCodex _) = Codex"

definition plan_compile :: "'j resolved_turn \<Rightarrow> (diagnostic list + 'j ready_turn) option" where
  "plan_compile resolved =
     (case resolved_provider resolved of
        None \<Rightarrow> None
      | Some Claude \<Rightarrow> map_option (map_sum id ReadyClaude) (claude_plan resolved)
      | Some Codex \<Rightarrow> map_option (map_sum id ReadyCodex) (codex_plan resolved))"

datatype 'j prepared =
    PreparedReady "'j ready_turn"
  | PreparedMissing "'j partial_turn" "requirement list"
  | PreparedInvalid "diagnostic list"

definition plan_prepare :: "'j plan_layers \<Rightarrow> 'j prepared option" where
  "plan_prepare l =
     (case resolve l of
        Complete resolved \<Rightarrow>
          map_option (\<lambda>r. case r of Inr t \<Rightarrow> PreparedReady t | Inl ds \<Rightarrow> PreparedInvalid ds) (plan_compile resolved)
      | Missing m rs \<Rightarrow> Some (PreparedMissing m rs)
      | Invalid ds \<Rightarrow> Some (PreparedInvalid ds))"

section \<open>The router\<close>

record ('j, 'v) routed_turn_service =
  rt_claude :: "('j claude_options turn agent_request, 'v) service option"
  rt_codex :: "('j codex_options turn agent_request, 'v) service option"

definition routed_new :: "('j, 'v) routed_turn_service" where
  "routed_new = \<lparr>rt_claude = None, rt_codex = None\<rparr>"

definition routed_with_claude ::
  "('j, 'v) routed_turn_service \<Rightarrow> ('j claude_options turn agent_request, 'v) service \<Rightarrow> ('j, 'v) routed_turn_service" where
  "routed_with_claude r s = r\<lparr>rt_claude := Some s\<rparr>"

definition routed_with_codex ::
  "('j, 'v) routed_turn_service \<Rightarrow> ('j codex_options turn agent_request, 'v) service \<Rightarrow> ('j, 'v) routed_turn_service" where
  "routed_with_codex r s = r\<lparr>rt_codex := Some s\<rparr>"

definition routed_handles :: "('j, 'v) routed_turn_service \<Rightarrow> provider_id \<Rightarrow> bool" where
  "routed_handles r p = (case p of Claude \<Rightarrow> is_some (rt_claude r) | Codex \<Rightarrow> is_some (rt_codex r))"

definition unregistered :: "provider_id \<Rightarrow> agent_error" where
  "unregistered p =
     error_new Unsupported (''no service is registered for provider '' @ provider_as_str p) Validation EffNone"

fun ready_session :: "'j ready_turn \<Rightarrow> session_handle option" where
  "ready_session (ReadyClaude t) = turn_session t"
| "ready_session (ReadyCodex t) = turn_session t"

definition pinned_session_matches :: "'j ready_turn \<Rightarrow> agent_error + unit" where
  "pinned_session_matches ready =
     (case ready_session ready of
        Some session \<Rightarrow>
          if handle_provider session \<noteq> provider_as_str (ready_provider ready)
          then Inl (error_new Unsupported
                 (''cannot route a '' @ handle_provider session @ '' session to the ''
                  @ provider_as_str (ready_provider ready) @ '' provider'') Validation EffNone)
          else Inr ()
      | None \<Rightarrow> Inr ())"

text \<open>\<open>oneshot\<close> polls the clone ready and calls it once: a call of the registered service.\<close>

definition routed_call :: "('j, 'v) routed_turn_service \<Rightarrow> ('j ready_turn agent_request, 'v) service" where
  "routed_call r request =
     (case pinned_session_matches (req_body request) of
        Inl error \<Rightarrow> (Settled (Inl error), False)
      | Inr _ \<Rightarrow>
          (case req_body request of
             ReadyClaude t \<Rightarrow>
               (case rt_claude r of
                  None \<Rightarrow> (Settled (Inl (unregistered Claude)), False)
                | Some s \<Rightarrow> s (agent_request_with_context t (req_context request)))
           | ReadyCodex t \<Rightarrow>
               (case rt_codex r of
                  None \<Rightarrow> (Settled (Inl (unregistered Codex)), False)
                | Some s \<Rightarrow> s (agent_request_with_context t (req_context request)))))"

section \<open>Lemmas\<close>

lemma plan_turn_sel [simp]:
  "turn_prompt (plan_turn p opts c) = p" "turn_options (plan_turn p opts c) = opts"
  "turn_working_directory (plan_turn p opts c) = pc_cwd c"
  "turn_session (plan_turn p opts c) = map_option to_session_handle (pc_resume c)"
  by (simp_all add: plan_turn_def Let_def turn_with_options_def turn_new_def turn_in_directory_def turn_resume_def
      split: option.split)

text \<open>What a turn says of a resolution: every path the provider of the turn has, each wire form written out.\<close>

definition claude_represents :: "'j resolved_turn \<Rightarrow> 'j claude_options \<Rightarrow> bool" where
  "claude_represents m c \<longleftrightarrow>
     co_model c = pm_name (par_model m)
     \<and> co_additional_directories c = unwrap_or (pc_additional_directories (par_context m)) []
     \<and> co_system_prompt c = claude_path pco_system_prompt m
     \<and> co_append_system_prompt c = claude_path pco_append_system_prompt m
     \<and> co_fallback_model c = claude_path pco_fallback_model m
     \<and> co_effort c = (case claude_path pco_effort m of
          None \<Rightarrow> None | Some ChooseLow \<Rightarrow> Some EffortLow | Some ChooseMedium \<Rightarrow> Some EffortMedium
        | Some ChooseHigh \<Rightarrow> Some EffortHigh)
     \<and> co_allowed_tools c = (case claude_path pco_allowed_tools m of None \<Rightarrow> [] | Some ts \<Rightarrow> ts)
     \<and> co_disallowed_tools c = (case claude_path pco_disallowed_tools m of None \<Rightarrow> [] | Some ts \<Rightarrow> ts)
     \<and> co_max_turns c = claude_path pco_max_turns m
     \<and> co_max_budget_usd c = claude_path pco_max_budget_usd m
     \<and> co_permission_mode c = (case claude_path pco_permission_mode m of
          None \<Rightarrow> None | Some ChooseDefault \<Rightarrow> Some ModeDefault | Some ChooseAcceptEdits \<Rightarrow> Some ModeAcceptEdits
        | Some ChooseDontAsk \<Rightarrow> Some ModeDontAsk | Some ChoosePlan \<Rightarrow> Some ModePlan | Some ChooseAuto \<Rightarrow> Some ModeAuto)
     \<and> co_json_schema c = claude_path pco_json_schema m
     \<and> co_strict_mcp_config c = (claude_path pco_strict_mcp_config m = Some True)
     \<and> co_ambient_context c = (case claude_path pco_ambient_context m of
          None \<Rightarrow> AmbientInherit | Some ChooseInherit \<Rightarrow> AmbientInherit
        | Some ChooseHermeticProject \<Rightarrow> AmbientHermetic HermeticProject
        | Some ChooseHermeticFull \<Rightarrow> AmbientHermetic HermeticFull
        | Some ChooseSafe \<Rightarrow> AmbientSafe | Some ChooseBare \<Rightarrow> AmbientBare)"

definition codex_represents :: "'j resolved_turn \<Rightarrow> 'j codex_options \<Rightarrow> bool" where
  "codex_represents m x \<longleftrightarrow>
     xo_model x = pm_name (par_model m)
     \<and> xo_additional_directories x = unwrap_or (pc_additional_directories (par_context m)) []
     \<and> xo_filesystem_authority x = (case pp_filesystem (par_permissions m) of
          None \<Rightarrow> ReadOnly | Some ChooseReadOnly \<Rightarrow> ReadOnly | Some ChooseWorkspaceWrite \<Rightarrow> WorkspaceWrite
        | Some ChooseFullAccess \<Rightarrow> FullAccess)
     \<and> xo_system_prompt x = codex_path pxo_system_prompt m
     \<and> xo_output_schema x = codex_path pxo_output_schema m
     \<and> xo_ephemeral x = (codex_path pxo_ephemeral m = Some True)"

definition plan_represents :: "'j resolved_turn \<Rightarrow> 'j ready_turn \<Rightarrow> bool" where
  "plan_represents m t \<longleftrightarrow>
     par_provider m = Some (ready_provider t)
     \<and> (case t of
          ReadyClaude c \<Rightarrow>
            par_prompt m = Some (turn_prompt c) \<and> turn_working_directory c = pc_cwd (par_context m)
            \<and> claude_represents m (turn_options c) \<and> pp_filesystem (par_permissions m) = None
        | ReadyCodex x \<Rightarrow>
            par_prompt m = Some (turn_prompt x) \<and> turn_working_directory x = pc_cwd (par_context m)
            \<and> codex_represents m (turn_options x))
     \<and> ready_session t = map_option to_session_handle (pc_resume (par_context m))"

text \<open>The resolutions that a provider's turn can represent.\<close>

definition representable :: "'j resolved_turn \<Rightarrow> bool" where
  "representable m \<longleftrightarrow>
     (case par_provider m of
        None \<Rightarrow> False
      | Some Claude \<Rightarrow> pp_filesystem (par_permissions m) = None
      | Some Codex \<Rightarrow> pc_resume (par_context m) = None \<or> unwrap_or (pc_additional_directories (par_context m)) [] = [])"

lemma effort_choice_case:
  "map_option effort_of e = (case e of None \<Rightarrow> None | Some ChooseLow \<Rightarrow> Some EffortLow | Some ChooseMedium \<Rightarrow> Some EffortMedium
     | Some ChooseHigh \<Rightarrow> Some EffortHigh)"
  by (auto split: option.split effort_choice.split)

lemma permission_choice_case:
  "map_option permission_mode_of p = (case p of None \<Rightarrow> None | Some ChooseDefault \<Rightarrow> Some ModeDefault
     | Some ChooseAcceptEdits \<Rightarrow> Some ModeAcceptEdits | Some ChooseDontAsk \<Rightarrow> Some ModeDontAsk
     | Some ChoosePlan \<Rightarrow> Some ModePlan | Some ChooseAuto \<Rightarrow> Some ModeAuto)"
  by (auto split: option.split permission_mode_choice.split)

lemma ambient_choice_case:
  "unwrap_or (map_option ambient_of a) AmbientInherit = (case a of None \<Rightarrow> AmbientInherit | Some ChooseInherit \<Rightarrow> AmbientInherit
     | Some ChooseHermeticProject \<Rightarrow> AmbientHermetic HermeticProject | Some ChooseHermeticFull \<Rightarrow> AmbientHermetic HermeticFull
     | Some ChooseSafe \<Rightarrow> AmbientSafe | Some ChooseBare \<Rightarrow> AmbientBare)"
  by (auto split: option.split ambient_context_choice.split)

lemma filesystem_choice_case:
  "unwrap_or (map_option choice_authority f) ReadOnly = (case f of None \<Rightarrow> ReadOnly | Some ChooseReadOnly \<Rightarrow> ReadOnly
     | Some ChooseWorkspaceWrite \<Rightarrow> WorkspaceWrite | Some ChooseFullAccess \<Rightarrow> FullAccess)"
  by (auto split: option.split filesystem_choice.split)

lemma unwrap_or_Nil: "unwrap_or x [] = (case x of None \<Rightarrow> [] | Some y \<Rightarrow> y)"
  by (cases x) simp_all

lemma unwrap_or_bool [simp]: "unwrap_or x False \<longleftrightarrow> x = Some True"
  by (cases x) auto

lemmas choice_cases = effort_choice_case permission_choice_case ambient_choice_case filesystem_choice_case unwrap_or_Nil

lemma claude_group_path:
  "f unbound_claude_options = None \<Longrightarrow>
     f (unwrap_or (ppo_claude (par_provider_options m)) unbound_claude_options) = claude_path f m"
  by (cases "ppo_claude (par_provider_options m)") (simp_all add: claude_path_def)

lemma codex_group_path:
  "f unbound_codex_options = None \<Longrightarrow>
     f (unwrap_or (ppo_codex (par_provider_options m)) unbound_codex_options) = codex_path f m"
  by (cases "ppo_codex (par_provider_options m)") (simp_all add: codex_path_def)

lemma unbound_groups [simp]:
  "pco_system_prompt unbound_claude_options = None" "pco_append_system_prompt unbound_claude_options = None"
  "pco_fallback_model unbound_claude_options = None" "pco_effort unbound_claude_options = None"
  "pco_allowed_tools unbound_claude_options = None" "pco_disallowed_tools unbound_claude_options = None"
  "pco_max_turns unbound_claude_options = None" "pco_max_budget_usd unbound_claude_options = None"
  "pco_permission_mode unbound_claude_options = None" "pco_json_schema unbound_claude_options = None"
  "pco_strict_mcp_config unbound_claude_options = None" "pco_ambient_context unbound_claude_options = None"
  "pxo_system_prompt unbound_codex_options = None" "pxo_output_schema unbound_codex_options = None"
  "pxo_ephemeral unbound_codex_options = None"
  by (simp_all add: unbound_claude_options_def unbound_codex_options_def)

lemma claude_plan_represents:
  assumes "claude_plan m = Some (Inr t)"
  shows "plan_represents m (ReadyClaude t) \<and> representable m"
proof -
  obtain prompt where m: "par_provider m = Some Claude" "par_prompt m = Some prompt" "pp_filesystem (par_permissions m) = None"
    using assms by (auto simp: claude_plan_def resolved_provider_def resolved_prompt_def is_some_iff Let_def
        split: option.splits if_splits)
  with assms have "claude_represents m (turn_options t) \<and> turn_prompt t = prompt
      \<and> turn_working_directory t = pc_cwd (par_context m)
      \<and> turn_session t = map_option to_session_handle (pc_resume (par_context m))"
    by (auto simp: claude_plan_def claude_represents_def resolved_provider_def resolved_prompt_def is_some_iff Let_def
        claude_group_path choice_cases)
  with m show ?thesis by (simp add: plan_represents_def representable_def)
qed

lemma codex_plan_represents:
  assumes "codex_plan m = Some (Inr t)"
  shows "plan_represents m (ReadyCodex t) \<and> representable m"
proof -
  obtain prompt where m: "par_provider m = Some Codex" "par_prompt m = Some prompt"
    "pc_resume (par_context m) = None \<or> unwrap_or (pc_additional_directories (par_context m)) [] = []"
    using assms by (auto simp: codex_plan_def resolved_provider_def resolved_prompt_def is_some_iff Let_def
        split: option.splits if_splits)
  with assms have "codex_represents m (turn_options t) \<and> turn_prompt t = prompt
      \<and> turn_working_directory t = pc_cwd (par_context m)
      \<and> turn_session t = map_option to_session_handle (pc_resume (par_context m))"
    by (auto simp: codex_plan_def codex_represents_def resolved_provider_def resolved_prompt_def is_some_iff Let_def
        codex_group_path choice_cases split: if_splits)
  with m show ?thesis by (simp add: plan_represents_def representable_def)
qed

lemma map_sum_Inr: "map_sum f g x = Inr y \<longleftrightarrow> (\<exists>z. x = Inr z \<and> y = g z)"
  by (cases x) auto

lemma plan_compile_represents:
  assumes "plan_compile m = Some (Inr t)"
  shows "plan_represents m t \<and> representable m"
proof -
  from assms consider u where "t = ReadyClaude u" "claude_plan m = Some (Inr u)"
    | u where "t = ReadyCodex u" "codex_plan m = Some (Inr u)"
    by (auto simp: plan_compile_def map_sum_Inr split: option.splits provider_id.splits)
  then show ?thesis by cases (simp_all add: claude_plan_represents codex_plan_represents)
qed

lemma plan_compile_refused:
  "plan_compile m = Some (Inl ds) \<Longrightarrow> \<not> representable m"
  by (auto simp: plan_compile_def claude_plan_def codex_plan_def representable_def resolved_provider_def is_some_iff Let_def
      split: option.splits provider_id.splits if_splits)

lemma plan_compile_total: "resolve l = Complete m \<Longrightarrow> plan_compile m \<noteq> None"
  using resolve_complete_bound [of l m]
  by (auto simp: plan_compile_def claude_plan_def codex_plan_def resolved_provider_def resolved_prompt_def Let_def
      split: provider_id.splits)

lemma represented_session_matches:
  "plan_represents m t \<Longrightarrow> check_resume m = [] \<Longrightarrow> pinned_session_matches t = Inr ()"
  by (auto simp: plan_represents_def check_resume_def pinned_session_matches_def to_session_handle_def session_handle_new_def
      split: option.splits if_splits)

lemma prepare_represents:
  "plan_prepare l \<noteq> None
   \<and> (\<forall>t. plan_prepare l = Some (PreparedReady t) \<longrightarrow>
        (\<exists>m. resolve l = Complete m \<and> plan_represents m t \<and> pinned_session_matches t = Inr ()))
   \<and> ((\<exists>t. plan_prepare l = Some (PreparedReady t)) \<longleftrightarrow> (\<exists>m. resolve l = Complete m \<and> representable m))"
proof (cases "resolve l")
  case (Complete m)
  then have "plan_compile m \<noteq> None" by (rule plan_compile_total)
  then obtain r where r: "plan_compile m = Some r" by blast
  have prep: "plan_prepare l = Some (case r of Inr t \<Rightarrow> PreparedReady t | Inl ds \<Rightarrow> PreparedInvalid ds)"
    by (simp add: plan_prepare_def Complete r)
  show ?thesis
  proof (cases r)
    case (Inr t)
    with r have "plan_represents m t" "representable m" by (simp_all add: plan_compile_represents)
    moreover have "check_resume m = []" using resolve_complete_bound [OF Complete] by simp
    ultimately show ?thesis
      using represented_session_matches [of m t] Complete prep Inr by simp
  qed (use r Complete in \<open>simp add: prep plan_compile_refused\<close>)
qed (simp_all add: plan_prepare_def)

section \<open>Properties\<close>

text \<open>C23: preparing never panics, and a turn it returns is a faithful fold of the complete resolution: it is
  committed to the resolved provider and carries the resolved prompt, directory and resume session and
  every option of that provider, from the model and the extra directories to the tool lists, the
  permission mode, the schema and the limits, each bound path in its concrete form and each unbound one
  as its default, so the router never refuses its session. A complete resolution gives a turn exactly
  when its provider can represent it: Claude has no portable filesystem authority and a resumed Codex
  turn no extra directories. The options of the other provider are not part of the turn.\<close>

theorem prepare_faithful:
  "plan_prepare l \<noteq> None
   \<and> (\<forall>t. plan_prepare l = Some (PreparedReady t) \<longrightarrow>
        (\<exists>m. resolve l = Complete m \<and> plan_represents m t \<and> pinned_session_matches t = Inr ()))
   \<and> ((\<exists>t. plan_prepare l = Some (PreparedReady t)) \<longleftrightarrow> (\<exists>m. resolve l = Complete m \<and> representable m))"
  by (rule prepare_represents)

theorem prepare_faithful_witness:
  "\<exists>t m. plan_prepare sample_layers = Some (PreparedReady t) \<and> resolve sample_layers = Complete m \<and> plan_represents m t"
proof -
  have "case plan_prepare sample_layers of Some (PreparedReady _) \<Rightarrow> True | _ \<Rightarrow> False" by code_simp
  then obtain t where "plan_prepare sample_layers = Some (PreparedReady t)"
    by (auto split: option.splits prepared.splits)
  with prepare_faithful [of sample_layers] show ?thesis by blast
qed

text \<open>The router makes at most one call, of the service registered for the provider the turn is
  committed to, and only with a session of that provider; it returns that call's settlement
  unchanged, never falls back to another provider, and every refusal of its own is a validation
  failure without effects.\<close>

theorem router_pins_provider:
  "(\<exists>e. routed_call r request = (Settled (Inl e), False) \<and> pure_refusal e \<and> err_kind e = Unsupported
      \<and> (\<not> routed_handles r (ready_provider (req_body request))
         \<or> (\<exists>s. ready_session (req_body request) = Some s
              \<and> handle_provider s \<noteq> provider_as_str (ready_provider (req_body request)))))
   \<or> (case req_body request of
        ReadyClaude t \<Rightarrow> \<exists>s. rt_claude r = Some s \<and> routed_call r request = s (agent_request_with_context t (req_context request))
      | ReadyCodex t \<Rightarrow> \<exists>s. rt_codex r = Some s \<and> routed_call r request = s (agent_request_with_context t (req_context request)))
     \<and> (\<forall>s \<in> set_option (ready_session (req_body request)).
          handle_provider s = provider_as_str (ready_provider (req_body request)))"
  by (cases "req_body request")
    (auto simp: routed_call_def pinned_session_matches_def unregistered_def routed_handles_def
      split: option.splits if_splits)

theorem router_pins_provider_witness:
  "\<exists>e. routed_call (routed_with_claude routed_new (\<lambda>_. (Settled (Inr ()), True)))
      (agent_request_with_context (ReadyCodex (turn_with_options (turn_new ''go'') codex_options_default) :: nat ready_turn)
        (call_context_default 1 [0])) = (Settled (Inl e), False) \<and> err_kind e = Unsupported"
  using router_pins_provider [of "routed_with_claude routed_new (\<lambda>_. (Settled (Inr ()), True))"
      "agent_request_with_context (ReadyCodex (turn_with_options (turn_new ''go'') codex_options_default) :: nat ready_turn)
        (call_context_default 1 [0])"]
  by (auto simp: routed_with_claude_def routed_new_def agent_request_with_context_def)

end
