(* ===== verification/Mcp_Plan.thy ===== *)
theory Mcp_Plan
  imports Mcp_Tool Plan_Compile
begin

text \<open>
  \<open>tower-agent-mcp/plan.rs\<close>: a turn that is planned before it runs. The client supplies the explicit
  layer, the host the application defaults beneath it, and what is still unbound is elicited in
  rounds. An elicitation form is the list of calls the code makes on the \<open>tower_mcp\<close> schema; the
  client is a function from the number of the round and the form to its reply.
\<close>

section \<open>Forms and replies\<close>

datatype form_call =
    InsertSelect string string string "string list"
  | PushRequired string
  | StringField string string bool

datatype elicit_action = Accept | Decline | Cancel | UnknownAction

datatype elicit_field = FieldString string | FieldOther

record elicit_reply =
  el_action :: elicit_action
  el_content :: "(string \<times> elicit_field) list option"

text \<open>\<open>elicit_form\<close> may fail in transport; the error is its rendering.\<close>

type_synonym elicit_client = "nat \<Rightarrow> form_call list \<Rightarrow> string + elicit_reply"

section \<open>The tool\<close>

definition default_max_elicitation_rounds :: nat where
  "default_max_elicitation_rounds = 4"

record plan_input =
  pi_prompt :: "string option"
  pi_provider :: "string option"
  pi_continuation :: "string option"

record ('ctx, 'st, 'j, 'v) plan_tool_state =
  ps_service :: "('j ready_turn, 'v) settling_service"
  ps_store :: "'st store_ops"
  ps_scopes :: "'ctx scope_source"
  ps_projection :: projection
  ps_defaults :: "'j partial_turn"
  ps_providers :: "provider_id list"
  ps_max_rounds :: nat

record ('ctx, 'st, 'j, 'v) plan_tool =
  pt_state :: "('ctx, 'st, 'j, 'v) plan_tool_state"
  pt_name :: string
  pt_description :: string

definition plan_tool_new ::
  "('j ready_turn, 'v) settling_service \<Rightarrow> 'st store_ops \<Rightarrow> 'ctx scope_source \<Rightarrow> ('ctx, 'st, 'j, 'v) plan_tool" where
  "plan_tool_new service store scopes =
     \<lparr>pt_state = \<lparr>ps_service = service, ps_store = store, ps_scopes = scopes, ps_projection = projection_new,
        ps_defaults = unbound_turn, ps_providers = [Claude, Codex], ps_max_rounds = default_max_elicitation_rounds\<rparr>,
      pt_name = ''plan'', pt_description = ''Plan and run one agent turn, asking for anything missing''\<rparr>"

definition plan_tool_with_application_defaults ::
  "('ctx, 'st, 'j, 'v) plan_tool \<Rightarrow> 'j partial_turn \<Rightarrow> ('ctx, 'st, 'j, 'v) plan_tool" where
  "plan_tool_with_application_defaults t defaults = t\<lparr>pt_state := (pt_state t)\<lparr>ps_defaults := defaults\<rparr>\<rparr>"

definition plan_tool_with_providers ::
  "('ctx, 'st, 'j, 'v) plan_tool \<Rightarrow> provider_id list \<Rightarrow> ('ctx, 'st, 'j, 'v) plan_tool" where
  "plan_tool_with_providers t providers = t\<lparr>pt_state := (pt_state t)\<lparr>ps_providers := providers\<rparr>\<rparr>"

definition plan_tool_with_projection ::
  "('ctx, 'st, 'j, 'v) plan_tool \<Rightarrow> projection \<Rightarrow> ('ctx, 'st, 'j, 'v) plan_tool" where
  "plan_tool_with_projection t p = t\<lparr>pt_state := (pt_state t)\<lparr>ps_projection := p\<rparr>\<rparr>"

definition plan_tool_with_max_elicitation_rounds ::
  "('ctx, 'st, 'j, 'v) plan_tool \<Rightarrow> nat \<Rightarrow> ('ctx, 'st, 'j, 'v) plan_tool" where
  "plan_tool_with_max_elicitation_rounds t rounds = t\<lparr>pt_state := (pt_state t)\<lparr>ps_max_rounds := rounds\<rparr>\<rparr>"

definition plan_tool_with_name :: "('ctx, 'st, 'j, 'v) plan_tool \<Rightarrow> string \<Rightarrow> ('ctx, 'st, 'j, 'v) plan_tool" where
  "plan_tool_with_name t name = t\<lparr>pt_name := name\<rparr>"

section \<open>Elicitation\<close>

definition requirement_field :: "provider_id list \<Rightarrow> requirement \<Rightarrow> form_call list" where
  "requirement_field providers r =
     (case rq_kind r of
        ProviderValue \<Rightarrow>
          [InsertSelect (rq_id r) (rq_label r) (rq_path r) (map provider_as_str providers), PushRequired (rq_id r)]
      | TextValue \<Rightarrow> [StringField (rq_id r) (rq_label r) True])"

definition elicit_form :: "provider_id list \<Rightarrow> requirement list \<Rightarrow> form_call list" where
  "elicit_form providers requirements = concat (map (requirement_field providers) requirements)"

definition reply_answers :: "elicit_reply \<Rightarrow> agent_error + answer list" where
  "reply_answers reply =
     (case el_action reply of
        Accept \<Rightarrow>
          Inr (List.map_filter
            (\<lambda>(i, v). case v of FieldString s \<Rightarrow> Some \<lparr>an_id = i, an_value = s\<rparr> | FieldOther \<Rightarrow> None)
            (unwrap_or (el_content reply) []))
      | UnknownAction \<Rightarrow>
          Inl (unsupported ''the client answered with an elicitation action this adapter does not understand'')
      | _ \<Rightarrow> Inl (error_new Cancelled ''the request for missing values was declined'' Validation EffNone))"

text \<open>The forms sent, and the answers.\<close>

definition elicit ::
  "provider_id list \<Rightarrow> (form_call list \<Rightarrow> string + elicit_reply) \<Rightarrow> requirement list
     \<Rightarrow> form_call list list \<times> (agent_error + answer list)" where
  "elicit providers client requirements =
     (case find rq_sensitive requirements of
        Some r \<Rightarrow> ([], Inl (unsupported (''requirement '' @ rq_id r @ '' is sensitive and cannot be elicited'')))
      | None \<Rightarrow>
          (let form = elicit_form providers requirements
           in ([form],
               and_then
                 (map_err (\<lambda>error. error_new Internal (''elicitation failed: '' @ error) Validation EffNone) (client form))
                 reply_answers)))"

section \<open>Continuing and naming\<close>

text \<open>
  \<open>resolve_continuation\<close>, \<open>mint\<close> and \<open>execute\<close> of this file, written as it has them; the lemmas after
  them say that they are those of the turn tool, so both tools share their theorems.
\<close>

definition plan_resolve :: "'st store_ops \<Rightarrow> string \<Rightarrow> scope \<Rightarrow> 'st \<Rightarrow> (agent_error + session_handle) \<times> 'st" where
  "plan_resolve store raw scope st =
     (case map_err (\<lambda>error. invalid_request (invalid_continuation_display error)) (continuation_parse raw) of
        Inl error \<Rightarrow> (Inl error, st)
      | Inr i \<Rightarrow>
          (case op_resolve store i scope st of
             (Inr (Some session), st') \<Rightarrow> (Inr session, st')
           | (Inr None, st') \<Rightarrow> (Inl (invalid_request ''continuation is unknown or does not belong to this caller''), st')
           | (Inl error, st') \<Rightarrow>
               (Inl (error_new Internal (''continuation store failed: '' @ continuation_error_display error) Validation EffNone),
                st')))"

definition plan_mint ::
  "'st store_ops \<Rightarrow> session_handle option \<Rightarrow> scope \<Rightarrow> 'st \<Rightarrow> continuation_id option \<times> 'st" where
  "plan_mint store session scope st =
     (case session of
        None \<Rightarrow> (None, st)
      | Some session \<Rightarrow> (case op_mint store session scope st of (result, st') \<Rightarrow> (case result of Inr i \<Rightarrow> Some i | Inl _ \<Rightarrow> None, st')))"

definition plan_execute ::
  "('ctx, 'st, 'j, 'v) plan_tool_state \<Rightarrow> call_env \<Rightarrow> wake list \<Rightarrow> scope \<Rightarrow> 'j ready_turn \<Rightarrow> 'st
     \<Rightarrow> 'v tool_end \<times> 'st \<times> 'j ready_turn agent_request option" where
  "plan_execute state env wakes scope ready st =
     (let request = tool_request env ready
      in case run_until_settled wakes False of
           None \<Rightarrow> (StillRunning, st, Some request)
         | Some gone \<Rightarrow>
             (case fst (ps_service state gone request) of
                Settled (Inr outcome) \<Rightarrow>
                  (let (continuation, st') = plan_mint (ps_store state) (out_session outcome) scope st;
                       structured = projection_outcome (ps_projection state) outcome (ce_operation env) continuation
                   in (Answered ((call_tool_text (out_output outcome))\<lparr>ctr_structured := Some structured\<rparr>), st', Some request))
              | Settled (Inl error) \<Rightarrow>
                  (let session = Option.bind (err_evidence error) ev_session;
                       (continuation, st') = plan_mint (ps_store state) session scope st;
                       structured = projection_failure (ps_projection state) error (ce_operation env) continuation
                   in (Answered ((call_tool_error (projection_message (ps_projection state) error))
                         \<lparr>ctr_structured := Some structured\<rparr>), st', Some request))
              | _ \<Rightarrow> (HandlerUnwound, st, Some request)))"

lemma plan_resolve_eq [simp]: "plan_resolve store raw scope st = resolve_named store raw scope st"
  by (auto simp: plan_resolve_def resolve_named_def map_err_def split: sum.split prod.split option.split)

lemma plan_mint_eq [simp]: "plan_mint store session scope st = tool_mint store session scope st"
  by (auto simp: plan_mint_def tool_mint_def split: sum.split prod.split option.split)

lemma plan_execute_eq [simp]:
  "plan_execute state env wakes scope ready st =
     tool_execute (ps_service state) (ps_projection state) (ps_store state) env wakes scope ready st"
  by (auto simp: plan_execute_def tool_execute_def tool_finish_def Let_def split: option.split ending.split sum.split prod.split)

section \<open>Planning\<close>

text \<open>The explicit layer: the prompt, and the provider that the continuation, or else the input, names.\<close>

definition plan_explicit ::
  "'st store_ops \<Rightarrow> plan_input \<Rightarrow> scope \<Rightarrow> 'st \<Rightarrow> (agent_error + 'j partial_turn) \<times> 'st" where
  "plan_explicit store input scope st =
     (let explicit = unbound_turn\<lparr>par_prompt := pi_prompt input\<rparr>
      in case pi_continuation input of
        Some raw \<Rightarrow>
          (case plan_resolve store raw scope st of
             (Inl error, st') \<Rightarrow> (Inl error, st')
           | (Inr session, st') \<Rightarrow>
               (case parse_provider (handle_provider session) of
                  Inr p \<Rightarrow>
                    (Inr (explicit\<lparr>par_provider := Some p,
                        par_context := (par_context explicit)\<lparr>pc_resume := Some (resume_binding_new p (handle_value session))\<rparr>\<rparr>), st')
                | Inl _ \<Rightarrow>
                    (Inl (unsupported ''the continuation belongs to a provider this build cannot plan for''), st')))
      | None \<Rightarrow>
          (case pi_provider input of
             Some named \<Rightarrow>
               (case parse_provider named of
                  Inr p \<Rightarrow> (Inr (explicit\<lparr>par_provider := Some p\<rparr>), st)
                | Inl _ \<Rightarrow> (Inr (explicit\<lparr>par_provider := None\<rparr>), st))
           | None \<Rightarrow> (Inr explicit, st)))"

definition tool_layers :: "'j partial_turn \<Rightarrow> 'j partial_turn \<Rightarrow> answer list \<Rightarrow> 'j plan_layers" where
  "tool_layers defaults explicit answers =
     with_answers (with_application_defaults (layers_new explicit) defaults) answers"

text \<open>
  The loop, with the number of the round and of the passes left: the forms sent, and the ready turn
  or the refusal. \<open>None\<close> is a panic of the planner.
\<close>

fun plan_rounds ::
  "provider_id list \<Rightarrow> elicit_client \<Rightarrow> 'j partial_turn \<Rightarrow> 'j partial_turn \<Rightarrow> answer list \<Rightarrow> nat \<Rightarrow> nat
     \<Rightarrow> form_call list list \<times> (agent_error + 'j ready_turn) option" where
  "plan_rounds providers client defaults explicit answers n 0 =
     ([], Some (Inl (invalid_request ''the plan did not resolve within the allowed rounds'')))"
| "plan_rounds providers client defaults explicit answers n (Suc passes) =
     (case plan_prepare (tool_layers defaults explicit answers) of
        None \<Rightarrow> ([], None)
      | Some (PreparedReady t) \<Rightarrow> ([], Some (Inr t))
      | Some (PreparedInvalid ds) \<Rightarrow>
          ([], Some (Inl (invalid_request (''plan is invalid: '' @ join_strings '', '' (map diag_code ds)))))
      | Some (PreparedMissing m requirements) \<Rightarrow>
          (case elicit providers (client n) requirements of
             (forms, Inl error) \<Rightarrow> (forms, Some (Inl error))
           | (forms, Inr []) \<Rightarrow>
               (forms, Some (Inl (invalid_request ''the plan is still incomplete and elicitation added nothing'')))
           | (forms, Inr (a # rest)) \<Rightarrow>
               (case plan_rounds providers client defaults explicit (answers @ a # rest) (Suc n) passes of
                  (forms', r) \<Rightarrow> (forms @ forms', r))))"

definition plan_tool_rounds ::
  "('ctx, 'st, 'j, 'v) plan_tool_state \<Rightarrow> elicit_client \<Rightarrow> 'j partial_turn
     \<Rightarrow> form_call list list \<times> (agent_error + 'j ready_turn) option" where
  "plan_tool_rounds state client explicit =
     plan_rounds (ps_providers state) client (ps_defaults state) explicit [] 0 (max (ps_max_rounds state) 1)"

text \<open>One call of the tool: how the handler ends, the store, the request sent to the service, and the forms.\<close>

definition plan_tool_run ::
  "('ctx, 'st, 'j, 'v) plan_tool_state \<Rightarrow> call_env \<Rightarrow> wake list \<Rightarrow> elicit_client \<Rightarrow> 'ctx \<Rightarrow> plan_input \<Rightarrow> 'st
     \<Rightarrow> ('v tool_end \<times> 'st \<times> 'j ready_turn agent_request option) \<times> form_call list list" where
  "plan_tool_run state env wakes client context input st =
     (let refuse = (\<lambda>error st. (Answered (refuse_with (ps_projection state) (ce_operation env) error), st, None))
      in case ps_scopes state context of
           Inl detail \<Rightarrow> (refuse (invalid_request (scope_unavailable_display detail)) st, [])
         | Inr scope \<Rightarrow>
             (case plan_explicit (ps_store state) input scope st of
                (Inl error, st') \<Rightarrow> (refuse error st', [])
              | (Inr explicit, st') \<Rightarrow>
                  (case plan_tool_rounds state client explicit of
                     (forms, None) \<Rightarrow> ((HandlerUnwound, st', None), forms)
                   | (forms, Some (Inl error)) \<Rightarrow> (refuse error st', forms)
                   | (forms, Some (Inr t)) \<Rightarrow>
                       (plan_execute state env wakes scope t st', forms))))"

section \<open>Lemmas\<close>

lemma elicit_forms: "elicit providers client rs = (forms, r) \<Longrightarrow> length forms \<le> 1"
  by (auto simp: elicit_def Let_def split: option.splits)

lemma elicit_pure: "elicit providers client rs = (forms, Inl e) \<Longrightarrow> pure_refusal e"
  by (auto simp: elicit_def Let_def and_then_eq_Inl reply_answers_def map_err_def
      split: option.splits sum.splits elicit_action.splits)

lemma requirements_not_sensitive: "find rq_sensitive (requirements_of m) = None"
  by (simp add: requirements_of_def provider_requirement_def prompt_requirement_def)

lemma elicit_requirements:
  "elicit providers client (requirements_of m) =
     ([elicit_form providers (requirements_of m)],
      and_then (map_err (\<lambda>error. error_new Internal (''elicitation failed: '' @ error) Validation EffNone)
         (client (elicit_form providers (requirements_of m)))) reply_answers)"
  by (simp add: elicit_def requirements_not_sensitive Let_def)

text \<open>What the client answered to the forms it was sent, from round \<open>n\<close> on.\<close>

fun client_answers :: "elicit_client \<Rightarrow> nat \<Rightarrow> form_call list list \<Rightarrow> answer list" where
  "client_answers client n [] = []"
| "client_answers client n (form # forms) =
     (case client n form of
        Inl _ \<Rightarrow> []
      | Inr reply \<Rightarrow> (case reply_answers reply of Inl _ \<Rightarrow> [] | Inr as \<Rightarrow> as))
     @ client_answers client (Suc n) forms"

text \<open>At most one form per pass, one fewer than passes when a turn comes out; every form asks for what the
  answers before it left missing, and a turn is the one prepared from all the answers. The refusals are
  effect-free.\<close>

lemma plan_rounds_outcome:
  "plan_rounds providers client defaults explicit answers n passes = (forms, r) \<Longrightarrow>
     length forms \<le> passes \<and> r \<noteq> None \<and> (\<forall>e. r = Some (Inl e) \<longrightarrow> pure_refusal e)
     \<and> (\<forall>i < length forms. \<exists>m. resolve (tool_layers defaults explicit (answers @ client_answers client n (take i forms)))
            = Missing m (requirements_of m) \<and> forms ! i = elicit_form providers (requirements_of m))
     \<and> (\<forall>t. r = Some (Inr t) \<longrightarrow> length forms < passes
          \<and> plan_prepare (tool_layers defaults explicit (answers @ client_answers client n forms)) = Some (PreparedReady t))"
proof (induction passes arbitrary: answers n forms r)
  case 0
  then show ?case by auto
next
  case (Suc passes)
  obtain prep where prep: "plan_prepare (tool_layers defaults explicit answers) = Some prep"
    using prepare_represents [of "tool_layers defaults explicit answers"] by blast
  show ?case
  proof (cases prep)
    case (PreparedReady t)
    with Suc.prems prep show ?thesis by auto
  next
    case (PreparedInvalid ds)
    with Suc.prems prep show ?thesis by auto
  next
    case (PreparedMissing m rs)
    then have missing: "resolve (tool_layers defaults explicit answers) = Missing m rs"
      using prep by (cases "resolve (tool_layers defaults explicit answers)")
        (auto simp: plan_prepare_def map_option_case split: sum.splits option.splits)
    then have rs: "rs = requirements_of m"
      by (cases "tool_layers defaults explicit answers" rule: resolve_cases) auto
    let ?form = "elicit_form providers rs"
    obtain reply where el: "elicit providers (client n) rs = ([?form], reply)"
      unfolding rs elicit_requirements by blast
    have once: "\<exists>m. resolve (tool_layers defaults explicit (answers @ client_answers client n (take i [?form])))
        = Missing m (requirements_of m) \<and> [?form] ! i = elicit_form providers (requirements_of m)" if "i < length [?form]" for i
      using that missing rs by simp
    show ?thesis
    proof (cases reply)
      case (Inl e)
      with elicit_pure el have "pure_refusal e" by blast
      moreover have "forms = [?form]" "r = Some (Inl e)" using Suc.prems prep PreparedMissing el Inl by simp_all
      ultimately show ?thesis using once by auto
    next
      case (Inr as)
      then have given: "client_answers client n (?form # forms') = as @ client_answers client (Suc n) forms'" for forms'
        using el unfolding rs elicit_requirements
        by (auto simp: and_then_eq_Inr map_err_def split: sum.splits)
      show ?thesis
      proof (cases as)
        case Nil
        then have "forms = [?form] \<and> r = Some (Inl (invalid_request ''the plan is still incomplete and elicitation added nothing''))"
          using Suc.prems prep PreparedMissing el Inr by auto
        then show ?thesis using once by auto
      next
        case (Cons a rest)
        obtain forms' r' where rec:
          "plan_rounds providers client defaults explicit (answers @ a # rest) (Suc n) passes = (forms', r')"
          by (cases "plan_rounds providers client defaults explicit (answers @ a # rest) (Suc n) passes")
        have eq: "forms = ?form # forms'" "r = r'"
          using Suc.prems prep PreparedMissing el Inr Cons rec by simp_all
        note IH = Suc.IH [OF rec]
        have "\<exists>m. resolve (tool_layers defaults explicit (answers @ client_answers client n (take i forms)))
            = Missing m (requirements_of m) \<and> forms ! i = elicit_form providers (requirements_of m)" if "i < length forms" for i
        proof (cases i)
          case 0
          then show ?thesis using missing rs eq by simp
        next
          case (Suc k)
          with that eq have "k < length forms'" by simp
          with IH show ?thesis unfolding eq(1) Suc take_Suc_Cons given nth_Cons_Suc Cons by simp
        qed
        then show ?thesis
          using IH unfolding eq(2) by (auto simp: eq(1) given Cons simp del: client_answers.simps)
      qed
    qed
  qed
qed

lemma tool_layers_sel [simp]:
  "ly_explicit (tool_layers d e as) = e" "ly_application_defaults (tool_layers d e as) = Some d"
  "ly_profile (tool_layers d e as) = None" "ly_provider_defaults (tool_layers d e as) = None"
  "ly_answers (tool_layers d e as) = as"
  by (simp_all add: tool_layers_def with_answers_def with_application_defaults_def layers_new_def)

text \<open>The explicit layer is the highest one, so a complete resolution keeps whatever it binds.\<close>

lemma complete_keeps_explicit:
  assumes "resolve (tool_layers d e as) = Complete m"
  shows "par_provider e = Some p \<Longrightarrow> par_provider m = Some p"
    and "par_prompt e = Some s \<Longrightarrow> par_prompt m = Some s"
    and "pc_resume (par_context e) = Some r \<Longrightarrow> pc_resume (par_context m) = Some r"
proof -
  let ?l = "tool_layers d e as"
  have m: "fst (apply_answers (merge_layers ?l) as) = m"
    using assms by (cases ?l rule: resolve_cases) auto
  have paths: "par_provider (merge_layers ?l) = highest (map par_provider (layer_list ?l))"
    "par_prompt (merge_layers ?l) = highest (map par_prompt (layer_list ?l))"
    "pc_resume (par_context (merge_layers ?l)) = highest (map (pc_resume \<circ> par_context) (layer_list ?l))"
    by (simp_all add: merge_layers_fold merge_turns_paths)
  have top: "layer_list ?l = [baseline ?l, d] @ [e]" by (simp add: layer_list_def)
  show "par_provider m = Some p" if "par_provider e = Some p"
    using apply_answers_bound [of "merge_layers ?l" p as] paths(1) that unfolding top by (simp add: m del: append.simps)
  show "par_prompt m = Some s" if "par_prompt e = Some s"
    using apply_answers_bound [of "merge_layers ?l" _ as s] paths(2) that unfolding top by (simp add: m del: append.simps)
  show "pc_resume (par_context m) = Some r" if "pc_resume (par_context e) = Some r"
    using apply_answers_keeps [of "merge_layers ?l" as] paths(3) that unfolding top by (simp add: m del: append.simps)
qed

definition ready_prompt :: "'j ready_turn \<Rightarrow> string" where
  "ready_prompt t = (case t of ReadyClaude c \<Rightarrow> turn_prompt c | ReadyCodex c \<Rightarrow> turn_prompt c)"

text \<open>What a turn that comes out of the rounds has of the explicit layer.\<close>

lemma prepared_keeps_explicit:
  assumes "plan_prepare (tool_layers d e as) = Some (PreparedReady t)"
  shows "pinned_session_matches t = Inr ()"
    and "par_provider e = Some p \<Longrightarrow> ready_provider t = p"
    and "par_prompt e = Some s \<Longrightarrow> ready_prompt t = s"
    and "pc_resume (par_context e) = Some r \<Longrightarrow> ready_session t = Some (to_session_handle r)"
proof -
  obtain m where m: "resolve (tool_layers d e as) = Complete m" "plan_represents m t"
      and pin: "pinned_session_matches t = Inr ()"
    using prepare_represents [of "tool_layers d e as"] assms by blast
  note keeps = complete_keeps_explicit [OF m(1)]
  show "pinned_session_matches t = Inr ()" by (rule pin)
  show "ready_provider t = p" if "par_provider e = Some p"
    using keeps(1) [OF that] m(2) by (simp add: plan_represents_def)
  show "ready_prompt t = s" if "par_prompt e = Some s"
    using keeps(2) [OF that] m(2) by (cases t) (simp_all add: plan_represents_def ready_prompt_def)
  show "ready_session t = Some (to_session_handle r)" if "pc_resume (par_context e) = Some r"
    using keeps(3) [OF that] m(2) by (simp add: plan_represents_def)
qed

lemma plan_explicit_prompt: "plan_explicit store input sc st = (Inr e, st') \<Longrightarrow> par_prompt e = pi_prompt input"
  by (auto simp: plan_explicit_def Let_def split: option.splits sum.splits prod.splits)

lemma plan_explicit_pure: "plan_explicit store input sc st = (Inl e, st') \<Longrightarrow> pure_refusal e"
  by (auto simp: plan_explicit_def Let_def dest: resolve_named_pure split: option.splits sum.splits prod.splits)

lemma plan_explicit_named:
  assumes "plan_explicit store input sc st = (Inr e, st')" "pi_continuation input = Some raw"
  shows "\<exists>p session. resolve_named store raw sc st = (Inr session, st') \<and> provider_as_str p = handle_provider session
     \<and> par_provider e = Some p \<and> pc_resume (par_context e) = Some (resume_binding_new p (handle_value session))"
  using assms
  by (auto simp: plan_explicit_def Let_def provider_roundtrip split: option.splits sum.splits prod.splits)

lemma resumed_handle: "provider_as_str p = handle_provider s \<Longrightarrow> to_session_handle (resume_binding_new p (handle_value s)) = s"
  by (simp add: to_session_handle_def resume_binding_new_def session_handle_new_def)

text \<open>Every form of a call asks for what is missing then.\<close>

lemma plan_tool_run_forms:
  fixes state :: "('ctx, 'st, 'j, 'v) plan_tool_state"
  assumes "plan_tool_run state env wakes client ctx input st = ((e, st', sent), forms)"
  shows "forms = [] \<or> (\<exists>sc explicit st1. ps_scopes state ctx = Inr sc
     \<and> plan_explicit (ps_store state) input sc st = (Inr explicit, st1)
     \<and> (\<forall>i < length forms. \<exists>m. resolve (tool_layers (ps_defaults state) explicit (client_answers client 0 (take i forms)))
          = Missing m (requirements_of m) \<and> forms ! i = elicit_form (ps_providers state) (requirements_of m)))"
proof -
  have rounds: "\<forall>i < length fs. \<exists>m. resolve (tool_layers (ps_defaults state) explicit (client_answers client 0 (take i fs)))
          = Missing m (requirements_of m) \<and> fs ! i = elicit_form (ps_providers state) (requirements_of m)"
    if "plan_tool_rounds state client explicit = (fs, out)" for explicit fs out
    using plan_rounds_outcome [OF that [unfolded plan_tool_rounds_def]] by simp
  show ?thesis
  proof (cases "ps_scopes state ctx")
    case (Inl detail)
    with assms show ?thesis by (simp add: plan_tool_run_def)
  next
    case (Inr sc)
    show ?thesis
    proof (cases "plan_explicit (ps_store state) input sc st :: (agent_error + 'j partial_turn) \<times> 'st")
      case (Pair r st1)
      show ?thesis
      proof (cases r)
        case (Inl error)
        with assms Inr Pair show ?thesis by (simp add: plan_tool_run_def)
      next
        case (Inr explicit)
        obtain fs out where out: "plan_tool_rounds state client explicit = (fs, out)" by (metis prod.collapse)
        have "forms = fs"
          using assms \<open>ps_scopes state ctx = Inr sc\<close> Pair Inr out
          by (auto simp: plan_tool_run_def split: option.splits sum.splits)
        with rounds [OF out] \<open>ps_scopes state ctx = Inr sc\<close> Pair Inr show ?thesis by blast
      qed
    qed
  qed
qed

text \<open>What a client's explicit layer binds: the prompt and the provider it gave, or the provider and the session
  of the continuation it named, and nothing else.\<close>

definition explicit_layer :: "'st store_ops \<Rightarrow> plan_input \<Rightarrow> scope \<Rightarrow> 'st \<Rightarrow> 'j partial_turn \<Rightarrow> bool" where
  "explicit_layer store input scope st e \<longleftrightarrow>
     (case pi_continuation input of
        None \<Rightarrow> e = unbound_turn\<lparr>par_prompt := pi_prompt input,
          par_provider := (case pi_provider input of
             None \<Rightarrow> None | Some n \<Rightarrow> if n = ''claude'' then Some Claude else if n = ''codex'' then Some Codex else None)\<rparr>
      | Some raw \<Rightarrow> \<exists>p session. fst (resolve_named store raw scope st) = Inr session \<and> handle_provider session = provider_as_str p
          \<and> e = unbound_turn\<lparr>par_prompt := pi_prompt input, par_provider := Some p,
              par_context := unbound_context\<lparr>pc_resume := Some \<lparr>rb_provider = p, rb_value = handle_value session\<rparr>\<rparr>\<rparr>)"

lemma plan_explicit_binds:
  assumes "plan_explicit store input sc st = (Inr e, st')"
  shows "explicit_layer store input sc st e"
proof (cases "pi_continuation input")
  case None
  then show ?thesis
    using assms by (auto simp: explicit_layer_def plan_explicit_def Let_def parse_provider_def unbound_turn_def split: option.splits if_splits)
next
  case (Some raw)
  from plan_explicit_named [OF assms Some] obtain p session where "resolve_named store raw sc st = (Inr session, st')"
    "provider_as_str p = handle_provider session" by blast
  moreover from this assms Some have "e = unbound_turn\<lparr>par_prompt := pi_prompt input, par_provider := Some p,
      par_context := unbound_context\<lparr>pc_resume := Some \<lparr>rb_provider = p, rb_value = handle_value session\<rparr>\<rparr>\<rparr>"
    by (auto simp: plan_explicit_def Let_def provider_roundtrip [THEN iffD2] unbound_turn_def resume_binding_new_def)
  ultimately show ?thesis using Some by (simp add: explicit_layer_def) (rule exI [of _ p], simp)
qed

text \<open>A call of the service comes with the explicit layer and the turn that the rounds gave.\<close>

lemma plan_tool_run_sent:
  fixes state :: "('ctx, 'st, 'j, 'v) plan_tool_state"
  assumes "plan_tool_run state env wakes client ctx input st = ((e, st', sent), forms)"
  shows "(sent = None \<and> (\<exists>err. pure_refusal err \<and> e = Answered (refuse_with (ps_projection state) (ce_operation env) err))
            \<and> length forms \<le> max (ps_max_rounds state) 1)
     \<or> (\<exists>sc explicit st1 t. ps_scopes state ctx = Inr sc \<and> plan_explicit (ps_store state) input sc st = (Inr explicit, st1)
          \<and> sent = Some (tool_request env t) \<and> length forms < max (ps_max_rounds state) 1
          \<and> plan_prepare (tool_layers (ps_defaults state) explicit (client_answers client 0 forms)) = Some (PreparedReady t)
          \<and> tool_execute (ps_service state) (ps_projection state) (ps_store state) env wakes sc t st1 = (e, st', sent))"
proof (cases "ps_scopes state ctx")
  case (Inl detail)
  let ?err = "invalid_request (scope_unavailable_display detail)"
  have "pure_refusal ?err" by simp
  moreover have "sent = None" "forms = []" "e = Answered (refuse_with (ps_projection state) (ce_operation env) ?err)"
    using assms Inl by (simp_all add: plan_tool_run_def)
  ultimately show ?thesis by (intro disjI1 conjI exI [of _ ?err]) simp_all
next
  case (Inr sc)
  obtain r :: "agent_error + 'j partial_turn" and st1 where ex: "plan_explicit (ps_store state) input sc st = (r, st1)"
    by (metis prod.collapse)
  show ?thesis
  proof (cases r)
    case (Inl err)
    have "pure_refusal err" by (rule plan_explicit_pure [OF ex [unfolded Inl]])
    with assms Inr ex Inl show ?thesis by (auto simp: plan_tool_run_def)
  next
    case (Inr explicit)
    obtain fs out where rounds: "plan_tool_rounds state client explicit = (fs, out)"
      by (cases "plan_tool_rounds state client explicit")
    note o = plan_rounds_outcome [OF rounds [unfolded plan_tool_rounds_def]]
    show ?thesis
    proof (cases out)
      case None
      with o show ?thesis by simp
    next
      case (Some x)
      show ?thesis
      proof (cases x)
        case (Inl err)
        with assms \<open>ps_scopes state ctx = Inr sc\<close> ex \<open>r = Inr explicit\<close> rounds Some o show ?thesis
          by (auto simp: plan_tool_run_def)
      next
        case (Inr t)
        have run: "tool_execute (ps_service state) (ps_projection state) (ps_store state) env wakes sc t st1 = (e, st', sent)"
            "forms = fs"
          using assms \<open>ps_scopes state ctx = Inr sc\<close> ex \<open>r = Inr explicit\<close> rounds Some Inr
          by (simp_all add: plan_tool_run_def)
        from o Some Inr have "length fs < max (ps_max_rounds state) 1"
            "plan_prepare (tool_layers (ps_defaults state) explicit (client_answers client 0 fs)) = Some (PreparedReady t)"
          by auto
        with run tool_execute_sent [OF run(1)] \<open>ps_scopes state ctx = Inr sc\<close> ex \<open>r = Inr explicit\<close>
        show ?thesis by blast
      qed
    qed
  qed
qed

text \<open>The two together: what was asked and what was sent, by one explicit layer.\<close>

lemma plan_tool_run_bound:
  fixes state :: "('ctx, 'st, 'j, 'v) plan_tool_state"
  assumes run: "plan_tool_run state env wakes client ctx input st = ((e, st', sent), forms)" and "forms \<noteq> [] \<or> sent \<noteq> None"
  shows "\<exists>scope explicit. ps_scopes state ctx = Inr scope \<and> explicit_layer (ps_store state) input scope st explicit
     \<and> (\<forall>i < length forms. \<exists>m. resolve (tool_layers (ps_defaults state) explicit (client_answers client 0 (take i forms)))
          = Missing m (requirements_of m) \<and> forms ! i = elicit_form (ps_providers state) (requirements_of m))
     \<and> (\<forall>request. sent = Some request \<longrightarrow> request = tool_request env (req_body request)
          \<and> plan_prepare (tool_layers (ps_defaults state) explicit (client_answers client 0 forms))
              = Some (PreparedReady (req_body request)))"
proof -
  have body: "req_body (tool_request env t) = t" for t :: "'j ready_turn"
    by (simp add: tool_request_def agent_request_with_context_def)
  note forms = plan_tool_run_forms [OF run] and sent = plan_tool_run_sent [OF run]
  show ?thesis
  proof (cases sent)
    case None
    with assms(2) forms plan_explicit_binds [of "ps_store state" input] show ?thesis by (simp del: ex_simps) blast
  next
    case (Some request)
    with sent obtain sc explicit st1 t where t: "ps_scopes state ctx = Inr sc"
      "plan_explicit (ps_store state) input sc st = (Inr explicit, st1)" "request = tool_request env t"
      "plan_prepare (tool_layers (ps_defaults state) explicit (client_answers client 0 forms)) = Some (PreparedReady t)"
      by auto
    with forms have "\<forall>i < length forms. \<exists>m. resolve (tool_layers (ps_defaults state) explicit (client_answers client 0 (take i forms)))
        = Missing m (requirements_of m) \<and> forms ! i = elicit_form (ps_providers state) (requirements_of m)"
      by auto
    with t Some plan_explicit_binds [OF t(2)] show ?thesis
      by (intro exI [of _ sc] exI [of _ explicit]) (simp add: body)
  qed
qed

section \<open>Properties\<close>

text \<open>C28: a call of the planning tool never panics in the planner, asks the client at most as often as allowed, and
  either refuses before the service is called, with an effect-free validation failure, or sends it one
  turn: exactly the turn that the planner prepares from the host's defaults, the explicit layer of the
  input and all that the client answered to the forms it was sent. The explicit layer binds the prompt
  and the provider the client gave, or the provider and the session of the continuation it named, and
  nothing else; every form asks for exactly what the answers before it left missing. The turn's session
  is of its own provider, and the answer then projects exactly the settlement, naming the session it
  ended with.\<close>

theorem plan_tool_answers:
  assumes inv: "memory_inv uuids st" and store: "ps_store state = memory_ops uuids"
    and run: "plan_tool_run state env wakes client ctx input st = ((tool_end, st', sent), forms)"
  shows "length forms \<le> max (ps_max_rounds state) 1
   \<and> (sent = None \<longrightarrow>
       (\<exists>e. pure_refusal e \<and> tool_end = Answered (refuse_with (ps_projection state) (ce_operation env) e)))
   \<and> (forms \<noteq> [] \<or> sent \<noteq> None \<longrightarrow>
       (\<exists>scope explicit. ps_scopes state ctx = Inr scope \<and> explicit_layer (memory_ops uuids) input scope st explicit
         \<and> (\<forall>i < length forms. \<exists>m. resolve (tool_layers (ps_defaults state) explicit (client_answers client 0 (take i forms)))
              = Missing m (requirements_of m) \<and> forms ! i = elicit_form (ps_providers state) (requirements_of m))
         \<and> (\<forall>request. sent = Some request \<longrightarrow> request = tool_request env (req_body request)
              \<and> plan_prepare (tool_layers (ps_defaults state) explicit (client_answers client 0 forms))
                  = Some (PreparedReady (req_body request)))))
   \<and> (\<forall>request. sent = Some request \<longrightarrow>
       pinned_session_matches (req_body request) = Inr ()
       \<and> (\<forall>s. pi_prompt input = Some s \<longrightarrow> ready_prompt (req_body request) = s)
       \<and> (\<forall>answer. tool_end = Answered answer \<longrightarrow>
           (\<exists>pre post result scope c. wakes = pre @ TurnSettles # post \<and> TurnSettles \<notin> set pre
             \<and> fst (ps_service state (ClientCancels \<in> set pre) request) = Settled result
             \<and> ps_scopes state ctx = Inr scope
             \<and> ctr_structured answer = Some (project_result (ps_projection state) result (ce_operation env) c)
             \<and> ctr_is_error answer = (\<not> is_ok result)
             \<and> published (memory_ops uuids) st' scope (settled_session result) c)))"
proof -
  note bound = plan_tool_run_bound [OF run, unfolded store]
  show ?thesis
    using plan_tool_run_sent [OF run]
  proof (elim disjE exE conjE)
    fix sc explicit st1 t
    assume sc: "ps_scopes state ctx = Inr sc" and ex: "plan_explicit (ps_store state) input sc st = (Inr explicit, st1)"
      and sent: "sent = Some (tool_request env t)" and forms: "length forms < max (ps_max_rounds state) 1"
      and prep: "plan_prepare (tool_layers (ps_defaults state) explicit (client_answers client 0 forms)) = Some (PreparedReady t)"
      and exec: "tool_execute (ps_service state) (ps_projection state) (ps_store state) env wakes sc t st1 = (tool_end, st', sent)"
    note kept = prepared_keeps_explicit [OF prep]
    have prompt: "\<forall>s. pi_prompt input = Some s \<longrightarrow> ready_prompt t = s"
      using kept(3) plan_explicit_prompt [OF ex] by simp
    have "st1 = st \<or> (\<exists>i a. op_resolve (ps_store state) i sc st = (a, st1))"
      using ex by (auto simp: plan_explicit_def resolve_named_def Let_def split: option.splits sum.splits prod.splits)
    then have inv1: "memory_inv uuids st1"
      using inv store memory.resolve_inv by (metis snd_conv)
    have body: "req_body (tool_request env t) = t"
      by (simp add: tool_request_def agent_request_with_context_def)
    have answer: "\<forall>answer. tool_end = Answered answer \<longrightarrow>
           (\<exists>pre post result scope c. wakes = pre @ TurnSettles # post \<and> TurnSettles \<notin> set pre
             \<and> fst (ps_service state (ClientCancels \<in> set pre) (tool_request env t)) = Settled result
             \<and> ps_scopes state ctx = Inr scope
             \<and> ctr_structured answer = Some (project_result (ps_projection state) result (ce_operation env) c)
             \<and> ctr_is_error answer = (\<not> is_ok result)
             \<and> published (memory_ops uuids) st' scope (settled_session result) c)"
      using sc tool_execute_answer [OF inv1, of "ps_service state" "ps_projection state" env wakes sc t] exec [unfolded store]
      by (auto simp del: ex_simps)
    have "forms \<noteq> [] \<or> sent \<noteq> None" using sent by simp
    from bound [OF this] answer show ?thesis
      using forms kept(1) prompt sent body by (simp del: ex_simps)
  next
    fix err
    assume "sent = None" "pure_refusal err" "length forms \<le> max (ps_max_rounds state) 1"
      "tool_end = Answered (refuse_with (ps_projection state) (ce_operation env) err)"
    then show ?thesis using bound by (auto simp del: ex_simps)
  qed
qed

definition sample_plan_service :: "(nat ready_turn, nat) settling_service" where
  "sample_plan_service gone request = (Settled (Inr (turn_outcome_new (ready_prompt (req_body request)))), True)"

definition sample_plan_tool :: "(unit, nat \<times> memory_store, nat, nat) plan_tool_state" where
  "sample_plan_tool = pt_state (plan_tool_new sample_plan_service (memory_ops sample_uuid) fixed_scope_stdio)"

definition sample_client :: elicit_client where
  "sample_client n form =
     Inr \<lparr>el_action = Accept,
          el_content = Some [(''provider'', FieldString ''claude''), (''prompt'', FieldString ''go'')]\<rparr>"

definition empty_input :: plan_input where
  "empty_input = \<lparr>pi_prompt = None, pi_provider = None, pi_continuation = None\<rparr>"

definition asked_both :: "form_call list" where
  "asked_both = elicit_form [Claude, Codex] [provider_requirement, prompt_requirement None]"

lemma rounds_ready:
  "(case r of (forms, Some (Inr t)) \<Rightarrow> P forms | _ \<Rightarrow> False) \<Longrightarrow> \<exists>fs t. r = (fs, Some (Inr t)) \<and> P fs"
  by (cases r; cases "snd r"; cases "the (snd r)") auto

theorem plan_tool_answers_witness:
  "\<exists>answer st' request forms. plan_tool_run (sample_plan_tool\<lparr>ps_max_rounds := 2\<rparr>) sample_env [TurnSettles] sample_client ()
       empty_input sample_store = ((Answered answer, st', Some request), forms)
     \<and> length forms = 1 \<and> \<not> ctr_is_error answer \<and> pinned_session_matches (req_body request) = Inr ()"
proof -
  let ?state = "sample_plan_tool\<lparr>ps_max_rounds := 2\<rparr>"
  let ?run = "plan_tool_run ?state sample_env [TurnSettles] sample_client () empty_input sample_store"
  obtain e st' sent forms where run: "?run = ((e, st', sent), forms)" by (metis prod.collapse)
  have "case plan_tool_rounds ?state sample_client unbound_turn of
      (forms, Some (Inr _)) \<Rightarrow> length forms = 1 | _ \<Rightarrow> False"
    by code_simp
  from rounds_ready [OF this] obtain fs t where rounds: "plan_tool_rounds ?state sample_client unbound_turn = (fs, Some (Inr t))" "length fs = 1"
    by blast
  then obtain answer request where "e = Answered answer" "sent = Some request" "forms = fs" "\<not> ctr_is_error answer"
    using run
    by (auto simp: plan_tool_run_def sample_plan_tool_def plan_tool_new_def fixed_scope_stdio_def fixed_scope_def
        plan_explicit_def empty_input_def unbound_turn_def tool_execute_def sample_plan_service_def tool_finish_def
        tool_mint_def turn_outcome_new_def call_tool_text_def Let_def)
  moreover have "ps_store ?state = memory_ops sample_uuid"
    by (simp add: sample_plan_tool_def plan_tool_new_def)
  ultimately show ?thesis
    using plan_tool_answers [OF sample_memory_inv _ run] run rounds(2) by auto
qed

text \<open>A continuation settles the provider and the conversation: whatever the host defaults and the client's
  answers say, the turn that reaches the service resumes exactly the session the continuation names,
  on the provider that owns it.\<close>

theorem plan_tool_continues:
  assumes "pi_continuation input = Some raw" and "ps_scopes state ctx = Inr sc"
    and "fst (resolve_named (ps_store state) raw sc st) = Inr session"
    and run: "plan_tool_run state env wakes client ctx input st = ((tool_end, st', Some request), forms)"
  shows "ready_session (req_body request) = Some session
     \<and> provider_as_str (ready_provider (req_body request)) = handle_provider session"
  using plan_tool_run_sent [OF run]
proof (elim disjE exE conjE)
  fix sc' explicit st1 t
  assume sc: "ps_scopes state ctx = Inr sc'" and ex: "plan_explicit (ps_store state) input sc' st = (Inr explicit, st1)"
    and sent: "Some request = Some (tool_request env t)"
    and prep: "plan_prepare (tool_layers (ps_defaults state) explicit (client_answers client 0 forms)) = Some (PreparedReady t)"
  have "sc' = sc" using sc assms(2) by simp
  then obtain p where p: "provider_as_str p = handle_provider session" "par_provider explicit = Some p"
      "pc_resume (par_context explicit) = Some (resume_binding_new p (handle_value session))"
    using plan_explicit_named [OF ex assms(1)] assms(3) by auto
  note kept = prepared_keeps_explicit [OF prep]
  have "ready_provider t = p" using p(2) by (rule kept(2))
  moreover have "ready_session t = Some session"
    using kept(4) [OF p(3)] resumed_handle [OF p(1)] by simp
  moreover have "req_body request = t"
    using sent by (simp add: tool_request_def agent_request_with_context_def)
  ultimately show ?thesis using p(1) by simp
qed simp

definition continued_store :: "nat \<times> memory_store" where
  "continued_store =
     snd (op_mint (memory_ops sample_uuid) (session_handle_new ''codex'' ''t1'') (SessionScope ''stdio'') sample_store)"

definition continued_input :: plan_input where
  "continued_input = \<lparr>pi_prompt = Some ''more'', pi_provider = Some ''claude'', pi_continuation = Some ''y''\<rparr>"

lemma continued_named:
  "fst (resolve_named (ps_store sample_plan_tool) ''y'' (SessionScope ''stdio'') continued_store)
     = Inr (session_handle_new ''codex'' ''t1'')"
proof -
  have "\<not> is_blank ''y''" by code_simp
  then show ?thesis
    by (simp add: resolve_named_def continuation_parse_def sample_plan_tool_def plan_tool_new_def memory_ops_def
        continued_store_def sample_store_def store_mint_def store_resolve_def continuation_generate_def sample_uuid_def Let_def)
qed

theorem plan_tool_continues_witness:
  "\<exists>e st' request forms. plan_tool_run sample_plan_tool sample_env [TurnSettles] sample_client () continued_input continued_store
       = ((e, st', Some request), forms)
     \<and> ready_session (req_body request) = Some (session_handle_new ''codex'' ''t1'')"
proof -
  let ?explicit = "unbound_turn\<lparr>par_prompt := Some ''more'', par_provider := Some Codex,
      par_context := unbound_context\<lparr>pc_resume := Some (resume_binding_new Codex ''t1'')\<rparr>\<rparr> :: nat partial_turn"
  have "case plan_tool_rounds sample_plan_tool sample_client ?explicit of (forms, Some (Inr t)) \<Rightarrow> True | _ \<Rightarrow> False"
    by code_simp
  from rounds_ready [OF this] obtain fs t
    where rounds: "plan_tool_rounds sample_plan_tool sample_client ?explicit = (fs, Some (Inr t))"
    by blast
  have scopes: "ps_scopes sample_plan_tool () = Inr (SessionScope ''stdio'')"
    by (simp add: sample_plan_tool_def plan_tool_new_def fixed_scope_stdio_def fixed_scope_def)
  obtain st1 where named: "resolve_named (ps_store sample_plan_tool) ''y'' (SessionScope ''stdio'') continued_store
      = (Inr (session_handle_new ''codex'' ''t1''), st1)"
    using continued_named by (metis prod.collapse)
  have "parse_provider ''codex'' = Inr Codex" by (simp add: provider_roundtrip)
  then have ex: "plan_explicit (ps_store sample_plan_tool) continued_input (SessionScope ''stdio'') continued_store = (Inr ?explicit, st1)"
    using named by (simp add: plan_explicit_def continued_input_def session_handle_new_def unbound_turn_def)
  have run: "plan_tool_run sample_plan_tool sample_env [TurnSettles] sample_client () continued_input continued_store
      = (tool_execute (ps_service sample_plan_tool) (ps_projection sample_plan_tool) (ps_store sample_plan_tool) sample_env
          [TurnSettles] (SessionScope ''stdio'') t st1, fs)"
    by (simp add: plan_tool_run_def scopes ex rounds)
  obtain e st' sent where exec: "tool_execute (ps_service sample_plan_tool) (ps_projection sample_plan_tool)
      (ps_store sample_plan_tool) sample_env [TurnSettles] (SessionScope ''stdio'') t st1 = (e, st', sent)"
    by (metis prod.collapse)
  with run tool_execute_sent [OF exec]
  have run': "plan_tool_run sample_plan_tool sample_env [TurnSettles] sample_client () continued_input continued_store
      = ((e, st', Some (tool_request sample_env t)), fs)" by simp
  have "pi_continuation continued_input = Some ''y''" by (simp add: continued_input_def)
  from plan_tool_continues [OF this scopes continued_named run'] run' show ?thesis by blast
qed

section \<open>How many passes a conversation with the client takes\<close>

definition given_answers :: "(string \<times> string) list \<Rightarrow> answer list" where
  "given_answers pairs = map (\<lambda>(i, v). \<lparr>an_id = i, an_value = v\<rparr>) pairs"

definition accepts :: "(string \<times> string) list \<Rightarrow> elicit_reply" where
  "accepts pairs = \<lparr>el_action = Accept, el_content = Some (map (\<lambda>(i, v). (i, FieldString v)) pairs)\<rparr>"

lemma reply_answers_accepts: "reply_answers (accepts pairs) = Inr (given_answers pairs)"
  by (induction pairs) (auto simp: reply_answers_def accepts_def given_answers_def List.map_filter_def)

lemma tool_layers_answers: "tool_layers d e as = with_answers (tool_layers d e []) as"
  by (simp add: tool_layers_def with_answers_def)

lemma baseline_for_tool [simp]: "baseline_for (tool_layers d e as) p = unbound_turn"
  by (simp add: baseline_for_def)

lemma resolve_merged:
  assumes "resolve (tool_layers d e as) = Complete m \<or> resolve (tool_layers d e as) = Missing m rs"
  shows "par_context m = par_context (merge_layers (tool_layers d e []))
     \<and> par_permissions m = par_permissions (merge_layers (tool_layers d e []))"
proof -
  have "fst (apply_answers (merge_layers (tool_layers d e as)) as) = m"
    using assms by (cases "tool_layers d e as" rule: resolve_cases) auto
  moreover have "merge_layers (tool_layers d e as) = merge_layers (tool_layers d e [])"
    by (simp add: merge_layers_def merge_upper_def baseline_def Let_def split: option.split)
  ultimately show ?thesis
    using apply_answers_keeps [of "merge_layers (tool_layers d e as)" as] by simp
qed

text \<open>A new conversation always plans, but for a filesystem permission that Claude does not take.\<close>

lemma fresh_turn_plans:
  assumes "resolve l = Complete m" and "pc_resume (par_context m) = None" and "par_provider m = Some p"
  shows "if p = Claude \<and> pp_filesystem (par_permissions m) \<noteq> None
     then \<exists>d. plan_prepare l = Some (PreparedInvalid [d]) \<and> diag_code d = unsupported_filesystem_code
     else \<exists>t. plan_prepare l = Some (PreparedReady t) \<and> ready_provider t = p"
proof -
  obtain s where "par_prompt m = Some s"
    using resolve_complete_bound [OF assms(1)] by auto
  then show ?thesis
    using assms by (cases p; cases "pp_filesystem (par_permissions m)")
      (simp_all add: plan_prepare_def plan_compile_def claude_plan_def codex_plan_def resolved_provider_def
        resolved_prompt_def Let_def diagnostic_error_def)
qed

text \<open>C29: a new conversation (one that resumes nothing) whose first form the client answers fully, with a known
  provider and a prompt that is not blank, is for the provider that was bound or answered, and after
  that one form it runs when the tool allows at least two passes; the one exception is a conversation
  of Claude under a filesystem permission of the host's defaults, which the adapter does not take: it is
  refused with that diagnostic. When the tool is configured to ask only once, the answers are thrown
  away: the same exchange ends in a refusal.\<close>

theorem one_form_completes:
  assumes missing: "resolve (tool_layers (ps_defaults state) explicit []) = Missing m rs"
    and new: "pc_resume (par_context m) = None"
    and reply: "client 0 (elicit_form (ps_providers state) rs) = Inr (accepts pairs)"
    and ids: "map fst pairs = map rq_id rs"
    and known: "\<forall>(i, v) \<in> set pairs. (i = provider_requirement_id \<longrightarrow> is_ok (parse_provider v))
          \<and> (i = prompt_requirement_id \<longrightarrow> \<not> is_blank v)"
  shows "\<exists>p. option_or (par_provider m) (answered_provider (given_answers pairs)) = Some p
   \<and> (2 \<le> ps_max_rounds state \<longrightarrow>
       (if p = Claude \<and> pp_filesystem (par_permissions m) \<noteq> None
        then plan_tool_rounds state client explicit =
          ([elicit_form (ps_providers state) rs],
           Some (Inl (invalid_request ''plan is invalid: unsupported-filesystem-permission'')))
        else \<exists>t. plan_tool_rounds state client explicit = ([elicit_form (ps_providers state) rs], Some (Inr t))
               \<and> ready_provider t = p))
   \<and> (ps_max_rounds state \<le> 1 \<longrightarrow>
       plan_tool_rounds state client explicit =
         ([elicit_form (ps_providers state) rs],
          Some (Inl (invalid_request ''the plan did not resolve within the allowed rounds''))))"
proof -
  let ?d = "ps_defaults state" and ?as = "given_answers pairs" and ?form = "elicit_form (ps_providers state) rs"
  have rs: "rs = requirements_of m" "rs \<noteq> []"
    using missing by (cases "tool_layers ?d explicit []" rule: resolve_cases; auto)+
  have el: "elicit (ps_providers state) (client 0) rs = ([?form], Inr ?as)"
    using reply by (simp add: rs(1) elicit_requirements reply_answers_accepts)
  have "pairs \<noteq> []" using ids rs(2) by auto
  then obtain a rest where as: "?as = a # rest" by (cases pairs) (auto simp: given_answers_def)
  have first: "plan_prepare (tool_layers ?d explicit []) = Some (PreparedMissing m rs)"
    by (simp add: plan_prepare_def missing)
  have step: "plan_rounds (ps_providers state) client ?d explicit [] 0 (Suc passes) =
      (case plan_rounds (ps_providers state) client ?d explicit ?as 1 passes of (forms, r) \<Rightarrow> (?form # forms, r))" for passes
    by (simp add: first el as)
  let ?l = "tool_layers ?d explicit []"
  have h: "resolve (with_answers ?l []) = Missing m rs" "map an_id ?as = map rq_id rs"
    "\<forall>a \<in> set ?as. an_id a = provider_requirement_id \<longrightarrow> is_ok (parse_provider (an_value a))"
    "\<forall>a \<in> set ?as. an_id a = prompt_requirement_id \<longrightarrow> \<not> is_blank (an_value a)"
    using missing ids known by (auto simp: tool_layers_answers [symmetric] given_answers_def comp_def case_prod_unfold)
  have "check_model m = []" using unanswered_pass [OF h(1)] by simp
  then have agrees: "baseline_agrees p (baseline_for ?l p) m" for p
    using new by (simp add: baseline_agrees_def check_model_iff unbound_turn_def unbound_model_def unbound_context_def)
  obtain m' where complete: "resolve (with_answers ?l ?as) = Complete m'"
    and provider: "par_provider m' = option_or (par_provider m) (answered_provider ?as)"
    using complete_answered [OF h agrees] by blast
  then have m': "resolve (tool_layers ?d explicit ?as) = Complete m'" by (simp add: tool_layers_answers [of _ _ ?as])
  then obtain p where p: "par_provider m' = Some p" using resolve_complete_bound by blast
  have "pc_resume (par_context m') = None" "par_permissions m' = par_permissions m"
    using resolve_merged [of ?d explicit ?as m'] resolve_merged [of ?d explicit "[]" m rs] m' missing new by auto
  note second = fresh_turn_plans [OF m' this(1) p, unfolded this(2)]
  have rounds: "plan_tool_rounds state client explicit =
      (case plan_prepare (tool_layers ?d explicit ?as) of
         Some (PreparedReady t) \<Rightarrow> ([?form], Some (Inr t))
       | Some (PreparedInvalid ds) \<Rightarrow>
           ([?form], Some (Inl (invalid_request (''plan is invalid: '' @ join_strings '', '' (map diag_code ds)))))
       | _ \<Rightarrow> plan_tool_rounds state client explicit)" if "2 \<le> ps_max_rounds state"
  proof -
    from that obtain k where "max (ps_max_rounds state) 1 = Suc (Suc k)"
      by (metis Suc_le_D max.absorb1 numeral_2_eq_2 one_le_numeral order_trans Suc_le_mono)
    then show ?thesis
      unfolding plan_tool_rounds_def using step [of "Suc k"] by (simp split: option.split prepared.split)
  qed
  have many: "if p = Claude \<and> pp_filesystem (par_permissions m) \<noteq> None
      then plan_tool_rounds state client explicit =
        ([?form], Some (Inl (invalid_request ''plan is invalid: unsupported-filesystem-permission'')))
      else \<exists>t. plan_tool_rounds state client explicit = ([?form], Some (Inr t)) \<and> ready_provider t = p"
    if "2 \<le> ps_max_rounds state"
    using second rounds [OF that] by (auto simp: unsupported_filesystem_code_def split: if_splits)
  have "plan_tool_rounds state client explicit =
      ([?form], Some (Inl (invalid_request ''the plan did not resolve within the allowed rounds'')))"
    if "ps_max_rounds state \<le> 1"
  proof -
    from that have "max (ps_max_rounds state) 1 = Suc 0" by simp
    then show ?thesis unfolding plan_tool_rounds_def using step [of 0] by simp
  qed
  with many provider p show ?thesis by metis
qed

definition permitted_tool :: "(unit, nat \<times> memory_store, nat, nat) plan_tool_state" where
  "permitted_tool =
     sample_plan_tool\<lparr>ps_defaults := unbound_turn\<lparr>par_permissions := \<lparr>pp_filesystem = Some ChooseReadOnly\<rparr>\<rparr>\<rparr>"

theorem one_form_completes_witness:
  "(\<exists>t. plan_tool_rounds sample_plan_tool sample_client unbound_turn = ([asked_both], Some (Inr t)) \<and> ready_provider t = Claude)
   \<and> plan_tool_rounds permitted_tool sample_client unbound_turn =
        ([asked_both], Some (Inl (invalid_request ''plan is invalid: unsupported-filesystem-permission'')))
   \<and> plan_tool_rounds (sample_plan_tool\<lparr>ps_max_rounds := 1\<rparr>) sample_client unbound_turn =
        ([asked_both], Some (Inl (invalid_request ''the plan did not resolve within the allowed rounds'')))"
proof -
  let ?rs = "[provider_requirement, prompt_requirement None]" and ?pairs = "[(''provider'', ''claude''), (''prompt'', ''go'')]"
  let ?permitted = "unbound_turn\<lparr>par_permissions := \<lparr>pp_filesystem = Some ChooseReadOnly\<rparr>\<rparr> :: nat partial_turn"
  have reply: "sample_client 0 (elicit_form [Claude, Codex] ?rs) = Inr (accepts ?pairs)"
    by (simp add: sample_client_def accepts_def)
  have missing: "resolve (tool_layers unbound_turn unbound_turn []) = Missing (unbound_turn :: nat partial_turn) ?rs"
    "resolve (tool_layers ?permitted unbound_turn []) = Missing ?permitted ?rs"
    by code_simp+
  have new: "pc_resume (par_context unbound_turn) = None" "pc_resume (par_context ?permitted) = None"
    by (simp_all add: unbound_turn_def unbound_context_def)
  have ids: "map fst ?pairs = map rq_id ?rs"
    by (simp add: provider_requirement_def prompt_requirement_def provider_requirement_id_def prompt_requirement_id_def)
  have "\<not> is_blank ''go''" by code_simp
  moreover have "is_ok (parse_provider ''claude'')" by code_simp
  ultimately have known: "\<forall>(i, v) \<in> set ?pairs.
      (i = provider_requirement_id \<longrightarrow> is_ok (parse_provider v)) \<and> (i = prompt_requirement_id \<longrightarrow> \<not> is_blank v)"
    by (simp add: provider_requirement_id_def prompt_requirement_id_def)
  have answered: "answered_provider (given_answers ?pairs) = Some Claude" by code_simp
  have unbound: "par_provider (unbound_turn :: nat partial_turn) = None" "par_provider ?permitted = None"
    "pp_filesystem (par_permissions (unbound_turn :: nat partial_turn)) = None" "pp_filesystem (par_permissions ?permitted) \<noteq> None"
    by (simp_all add: unbound_turn_def unbound_permissions_def)
  have fields: "ps_defaults sample_plan_tool = unbound_turn" "ps_providers sample_plan_tool = [Claude, Codex]"
      "ps_max_rounds sample_plan_tool = 4" "ps_defaults permitted_tool = ?permitted"
      "ps_providers permitted_tool = [Claude, Codex]" "ps_max_rounds permitted_tool = 4"
    by (simp_all add: permitted_tool_def sample_plan_tool_def plan_tool_new_def default_max_elicitation_rounds_def)
  show ?thesis
    using one_form_completes [of sample_plan_tool unbound_turn unbound_turn ?rs sample_client, OF _ new(1) _ ids known]
      one_form_completes [of permitted_tool unbound_turn ?permitted ?rs sample_client, OF _ new(2) _ ids known]
      one_form_completes [of "sample_plan_tool\<lparr>ps_max_rounds := 1\<rparr>" unbound_turn unbound_turn ?rs sample_client, OF _ new(1) _ ids known]
    by (simp add: fields missing reply asked_both_def answered unbound)
qed

text \<open>
  A provider that the client names and the build does not know is dropped, not diagnosed: the call
  then runs on the provider of the host defaults.
\<close>

lemma unknown_provider_defaulted:
  "plan_explicit store \<lparr>pi_prompt = Some ''go'', pi_provider = Some ''gemini'', pi_continuation = None\<rparr> sc st
     = (Inr (unbound_turn\<lparr>par_prompt := Some ''go''\<rparr>), st)"
  "case plan_rounds [Claude, Codex] client (unbound_turn\<lparr>par_provider := Some Codex\<rparr>)
      (unbound_turn\<lparr>par_prompt := Some ''go''\<rparr> :: nat partial_turn) [] 0 4 of
     (forms, Some (Inr t)) \<Rightarrow> forms = [] \<and> ready_provider t = Codex | _ \<Rightarrow> False"
proof -
  show "plan_explicit store \<lparr>pi_prompt = Some ''go'', pi_provider = Some ''gemini'', pi_continuation = None\<rparr> sc st
     = (Inr (unbound_turn\<lparr>par_prompt := Some ''go''\<rparr>), st)"
    by (simp add: plan_explicit_def parse_provider_def unbound_turn_def)
  show "case plan_rounds [Claude, Codex] client (unbound_turn\<lparr>par_provider := Some Codex\<rparr>)
      (unbound_turn\<lparr>par_prompt := Some ''go''\<rparr> :: nat partial_turn) [] 0 4 of
     (forms, Some (Inr t)) \<Rightarrow> forms = [] \<and> ready_provider t = Codex | _ \<Rightarrow> False"
    by code_simp
qed

end
