(* ===== verification/Durable_Store.thy ===== *)
theory Durable_Store
  imports Prelude
begin

text \<open>
  The durable host's append-only log (\<^verbatim>\<open>examples/apalis-durable/src/store.rs\<close>): the records, the state
  folded from them, opening (replaying) a log, appending to it, and sweeping up lost claims.

  The log file is its bytes; a file that does not exist replays like an empty one. \<open>serde_json\<close> is the
  argument pair \<open>enc\<close>, \<open>dec\<close>; what the store relies on is \<open>codec_for\<close>: a record that was written parses
  back, and its text is one non-blank line of UTF-8. A write is answered by the host (\<open>write_io\<close>): it
  reaches the disk, or fails after some bytes of the line did.
\<close>

section \<open>Records and states\<close>

type_synonym epoch = u64

datatype step_key = StepKey (sk_run_id: string) (sk_step_id: string)

text \<open>The derived \<open>Ord\<close> compares the fields in order: run first, then step.\<close>

instantiation step_key :: linorder
begin

definition less_eq_step_key :: "step_key \<Rightarrow> step_key \<Rightarrow> bool" where
  "less_eq_step_key a b \<longleftrightarrow>
     sk_run_id a < sk_run_id b \<or> sk_run_id a = sk_run_id b \<and> sk_step_id a \<le> sk_step_id b"

definition less_step_key :: "step_key \<Rightarrow> step_key \<Rightarrow> bool" where
  "less_step_key a b \<longleftrightarrow>
     sk_run_id a < sk_run_id b \<or> sk_run_id a = sk_run_id b \<and> sk_step_id a < sk_step_id b"

instance
proof
  fix a b c :: step_key
  show "a < b \<longleftrightarrow> a \<le> b \<and> \<not> b \<le> a" by (auto simp: less_eq_step_key_def less_step_key_def)
  show "a \<le> a" by (simp add: less_eq_step_key_def)
  show "a \<le> b \<Longrightarrow> b \<le> c \<Longrightarrow> a \<le> c" by (auto simp: less_eq_step_key_def)
  show "a \<le> b \<Longrightarrow> b \<le> a \<Longrightarrow> a = b" by (auto simp: less_eq_step_key_def intro: step_key.expand)
  show "a \<le> b \<or> b \<le> a" by (auto simp: less_eq_step_key_def)
qed

end

datatype terminal_record =
    Succeeded (tr_output: string)
  | Failed (tr_kind: string) (tr_message: string)

datatype reconciliation =
    AdoptCompleted (rc_output: string)
  | ProvedNoEffects
  | Abandoned (rc_note: string)

datatype log_record =
    FrozenRec step_key string string string "u64 option"
  | ClaimedRec step_key epoch string
  | LaunchedRec step_key epoch
  | SettledRec step_key epoch terminal_record
  | UncertainRec step_key epoch string
  | ReconciledRec step_key reconciliation string
  | CancelRequested string string

datatype step_state =
    Pending
  | Claimed epoch
  | Launched epoch
  | Settled terminal_record
  | Uncertain epoch string

record step_view =
  vw_state :: step_state
  vw_fingerprint :: string
  vw_not_after :: "u64 option"
  vw_highest_epoch :: epoch

record durable_store =
  ds_path :: string
  ds_steps :: "(step_key, step_view) btree_map"
  ds_cancelled_runs :: "(string, string) btree_map"

definition is_terminal :: "step_view \<Rightarrow> bool" where
  "is_terminal v = (case vw_state v of Settled _ \<Rightarrow> True | _ \<Rightarrow> False)"

section \<open>Folding one record\<close>

text \<open>An update through \<open>get_mut\<close>: nothing happens to a step that was never frozen.\<close>

definition update_view :: "step_key \<Rightarrow> (step_view \<Rightarrow> step_view) \<Rightarrow> durable_store \<Rightarrow> durable_store" where
  "update_view k f s =
     (case map_of (ds_steps s) k of None \<Rightarrow> s | Some v \<Rightarrow> s\<lparr>ds_steps := bt_set k (f v) (ds_steps s)\<rparr>)"

definition claim_view :: "epoch \<Rightarrow> step_view \<Rightarrow> step_view" where
  "claim_view e v =
     (if vw_highest_epoch v \<le> e \<and> \<not> is_terminal v
      then v\<lparr>vw_highest_epoch := e, vw_state := Claimed e\<rparr> else v)"

definition launch_view :: "epoch \<Rightarrow> step_view \<Rightarrow> step_view" where
  "launch_view e v =
     (if vw_highest_epoch v \<le> e \<and> \<not> is_terminal v then v\<lparr>vw_state := Launched e\<rparr> else v)"

definition settle_view :: "epoch \<Rightarrow> terminal_record \<Rightarrow> step_view \<Rightarrow> step_view" where
  "settle_view e r v =
     (if vw_highest_epoch v \<le> e \<and> \<not> is_terminal v then v\<lparr>vw_state := Settled r\<rparr> else v)"

definition uncertain_view :: "epoch \<Rightarrow> string \<Rightarrow> step_view \<Rightarrow> step_view" where
  "uncertain_view e reason v = (if \<not> is_terminal v then v\<lparr>vw_state := Uncertain e reason\<rparr> else v)"

definition reconciled_state :: "reconciliation \<Rightarrow> step_state" where
  "reconciled_state d = (case d of
       AdoptCompleted output \<Rightarrow> Settled (Succeeded output)
     | ProvedNoEffects \<Rightarrow> Pending
     | Abandoned note \<Rightarrow> Settled (Failed ''abandoned'' note))"

definition reconcile_view :: "reconciliation \<Rightarrow> step_view \<Rightarrow> step_view" where
  "reconcile_view d v = v\<lparr>vw_state := reconciled_state d\<rparr>"

definition frozen_view :: "string \<Rightarrow> u64 option \<Rightarrow> step_view" where
  "frozen_view fingerprint not_after =
     \<lparr>vw_state = Pending, vw_fingerprint = fingerprint, vw_not_after = not_after, vw_highest_epoch = 0\<rparr>"

fun apply_record :: "durable_store \<Rightarrow> log_record \<Rightarrow> durable_store" where
  "apply_record s (FrozenRec key _ _ fingerprint not_after) =
     (case map_of (ds_steps s) key of
        Some _ \<Rightarrow> s
      | None \<Rightarrow> s\<lparr>ds_steps := bt_insert key (frozen_view fingerprint not_after) (ds_steps s)\<rparr>)"
| "apply_record s (ClaimedRec key e _) = update_view key (claim_view e) s"
| "apply_record s (LaunchedRec key e) = update_view key (launch_view e) s"
| "apply_record s (SettledRec key e r) = update_view key (settle_view e r) s"
| "apply_record s (UncertainRec key e reason) = update_view key (uncertain_view e reason) s"
| "apply_record s (ReconciledRec key d _) = update_view key (reconcile_view d) s"
| "apply_record s (CancelRequested run reason) =
     s\<lparr>ds_cancelled_runs := bt_insert run reason (ds_cancelled_runs s)\<rparr>"

definition view :: "durable_store \<Rightarrow> step_key \<Rightarrow> step_view option" where
  "view s k = map_of (ds_steps s) k"

definition settled_output :: "durable_store \<Rightarrow> step_key \<Rightarrow> string option" where
  "settled_output s k = (case map_of (ds_steps s) k of
       None \<Rightarrow> None
     | Some v \<Rightarrow> (case vw_state v of Settled (Succeeded out) \<Rightarrow> Some out | _ \<Rightarrow> None))"

definition run_cancelled :: "durable_store \<Rightarrow> string \<Rightarrow> string option" where
  "run_cancelled s run = map_of (ds_cancelled_runs s) run"

section \<open>Opening a log\<close>

datatype io_error = Invalid_data | Os_error

definition newline :: char where
  "newline = CHR 0x0A"

definition carriage_return :: char where
  "carriage_return = CHR 0x0D"

text \<open>\<open>BufRead::lines\<close>: split after each newline, dropping it and one carriage return before it.\<close>

fun read_lines :: "string \<Rightarrow> string list" where
  "read_lines [] = []"
| "read_lines (c # s) =
     (if c = newline then [] # read_lines s
      else case s of
        [] \<Rightarrow> [[c]]
      | d # s' \<Rightarrow>
          if c = carriage_return \<and> d = newline then [] # read_lines s'
          else (case read_lines s of [] \<Rightarrow> [[c]] | l # ls \<Rightarrow> (c # l) # ls))"

text \<open>
  The replay loop: a line that is not UTF-8 is an \<open>io::Error\<close> of \<open>lines\<close> and ends the open; a blank line
  and a line that does not parse are skipped.
\<close>

fun replay_lines :: "(string \<Rightarrow> log_record option) \<Rightarrow> string list \<Rightarrow> durable_store \<Rightarrow> io_error + durable_store" where
  "replay_lines dec [] s = Inr s"
| "replay_lines dec (l # ls) s =
     (if \<not> utf8_valid l then Inl Invalid_data
      else if is_blank l then replay_lines dec ls s
      else (case dec l of
              None \<Rightarrow> replay_lines dec ls s
            | Some r \<Rightarrow> replay_lines dec ls (apply_record s r)))"

definition empty_store :: "string \<Rightarrow> durable_store" where
  "empty_store path = \<lparr>ds_path = path, ds_steps = [], ds_cancelled_runs = []\<rparr>"

text \<open>\<open>readable\<close> is whether \<open>File::open\<close> succeeds on the existing file.\<close>

definition durable_open ::
  "(string \<Rightarrow> log_record option) \<Rightarrow> bool \<Rightarrow> string \<Rightarrow> string \<Rightarrow> io_error + durable_store" where
  "durable_open dec readable path log =
     (if \<not> readable then Inl Os_error else replay_lines dec (read_lines log) (empty_store path))"

section \<open>Appending\<close>

datatype write_io = Written | Failed_after nat

text \<open>
  The host: the log file, the open store, and its answers to the coming writes (success when none is listed).
  \<open>h_records\<close> is a history variable no operation reads: the records whose append returned \<open>Ok\<close>, of this process
  and of those before it.
\<close>

record host =
  h_log :: string
  h_store :: durable_store
  h_writes :: "write_io list"
  h_records :: "log_record list"

definition append_record :: "(log_record \<Rightarrow> string) \<Rightarrow> log_record \<Rightarrow> host \<Rightarrow> (io_error + unit) \<times> host" where
  "append_record enc r h = (case h_writes h of
       Failed_after n # ws \<Rightarrow>
         (Inl Os_error, h\<lparr>h_log := h_log h @ take n (enc r @ [newline]), h_writes := ws\<rparr>)
     | ws \<Rightarrow>
         (Inr (), h\<lparr>h_log := h_log h @ enc r @ [newline], h_store := apply_record (h_store h) r,
                    h_writes := tl ws, h_records := h_records h @ [r]\<rparr>))"

section \<open>Recovery\<close>

record recovery =
  rv_refenced :: "(step_key \<times> epoch) list"
  rv_uncertain :: "step_key list"

definition held :: "step_view \<Rightarrow> bool" where
  "held v = (case vw_state v of Claimed _ \<Rightarrow> True | Launched _ \<Rightarrow> True | _ \<Rightarrow> False)"

definition lost_steps :: "durable_store \<Rightarrow> (step_key \<times> step_state) list" where
  "lost_steps s = map (\<lambda>(k, v). (k, vw_state v)) (filter (\<lambda>(k, v). held v) (ds_steps s))"

definition lost_reason :: string where
  "lost_reason = ''worker lost ownership after launch''"

text \<open>
  The loop over the lost steps; a failed write ends the sweep. The new epoch is computed at 64 bits, as an
  unchecked build computes it.
\<close>

fun recover_each ::
  "(log_record \<Rightarrow> string) \<Rightarrow> string \<Rightarrow> (step_key \<times> step_state) list \<Rightarrow> recovery \<Rightarrow> host
     \<Rightarrow> (io_error + recovery) \<times> host" where
  "recover_each enc worker [] rv h = (Inr rv, h)"
| "recover_each enc worker ((k, st) # rest) rv h = (case st of
       Claimed e \<Rightarrow>
         (case append_record enc (ClaimedRec k (e + 1) worker) h of
            (Inl err, h') \<Rightarrow> (Inl err, h')
          | (Inr _, h') \<Rightarrow>
              recover_each enc worker rest (rv\<lparr>rv_refenced := rv_refenced rv @ [(k, e + 1)]\<rparr>) h')
     | Launched e \<Rightarrow>
         (case append_record enc (UncertainRec k e lost_reason) h of
            (Inl err, h') \<Rightarrow> (Inl err, h')
          | (Inr _, h') \<Rightarrow>
              recover_each enc worker rest (rv\<lparr>rv_uncertain := rv_uncertain rv @ [k]\<rparr>) h')
     | _ \<Rightarrow> recover_each enc worker rest rv h)"

definition recover_lost ::
  "(log_record \<Rightarrow> string) \<Rightarrow> string \<Rightarrow> host \<Rightarrow> (io_error + recovery) \<times> host" where
  "recover_lost enc worker h =
     recover_each enc worker (lost_steps (h_store h)) \<lparr>rv_refenced = [], rv_uncertain = []\<rparr> h"

section \<open>Bounding a result\<close>

definition max_recorded_output :: nat where
  "max_recorded_output = 4 * 1024"

text \<open>\<open>str::is_char_boundary\<close> at an index within the string.\<close>

definition is_char_boundary :: "string \<Rightarrow> nat \<Rightarrow> bool" where
  "is_char_boundary s i \<longleftrightarrow> i = 0 \<or> i = length s \<or> i < length s \<and> \<not> byte_in 0x80 0xBF (s ! i)"

fun cut_back :: "string \<Rightarrow> nat \<Rightarrow> nat" where
  "cut_back s 0 = 0"
| "cut_back s (Suc n) = (if is_char_boundary s (Suc n) then Suc n else cut_back s n)"

definition ellipsis :: string where
  "ellipsis = [CHR 0xE2, CHR 0x80, CHR 0xA6]"

definition bounded_output :: "string \<Rightarrow> string" where
  "bounded_output out =
     (if length out \<le> max_recorded_output then out
      else take (cut_back out max_recorded_output) out @ ellipsis)"

section \<open>The state of one step\<close>

text \<open>
  The abstract store: a step's view is changed by the records of that step alone. \<open>apply_record\<close> is this
  function at every key, over the ordered map of the implementation.
\<close>

fun key_effect :: "step_key \<Rightarrow> log_record \<Rightarrow> step_view option \<Rightarrow> step_view option" where
  "key_effect k (FrozenRec k' _ _ fp na) v =
     (if k' = k then (case v of None \<Rightarrow> Some (frozen_view fp na) | Some _ \<Rightarrow> v) else v)"
| "key_effect k (ClaimedRec k' e _) v = (if k' = k then map_option (claim_view e) v else v)"
| "key_effect k (LaunchedRec k' e) v = (if k' = k then map_option (launch_view e) v else v)"
| "key_effect k (SettledRec k' e r) v = (if k' = k then map_option (settle_view e r) v else v)"
| "key_effect k (UncertainRec k' e why) v = (if k' = k then map_option (uncertain_view e why) v else v)"
| "key_effect k (ReconciledRec k' d _) v = (if k' = k then map_option (reconcile_view d) v else v)"
| "key_effect k (CancelRequested _ _) v = v"

definition store_wf :: "durable_store \<Rightarrow> bool" where
  "store_wf s \<longleftrightarrow> bt_wf (ds_steps s) \<and> bt_wf (ds_cancelled_runs s)"

lemma store_wf_empty [simp]: "store_wf (empty_store path)"
  by (simp add: store_wf_def empty_store_def)

lemma store_wf_update_view: "store_wf s \<Longrightarrow> store_wf (update_view k f s)"
  by (simp add: store_wf_def update_view_def bt_set_wf split: option.split)

lemma store_wf_apply: "store_wf s \<Longrightarrow> store_wf (apply_record s r)"
proof (cases r)
  case (FrozenRec k a b c d)
  assume "store_wf s"
  then show ?thesis
    using FrozenRec by (simp add: store_wf_def bt_wf_insert split: option.split)
next
  case (CancelRequested run why)
  assume "store_wf s"
  then show ?thesis
    using CancelRequested by (simp add: store_wf_def bt_wf_insert)
qed (simp_all add: store_wf_update_view)

lemma store_wf_replay: "store_wf s \<Longrightarrow> store_wf (foldl apply_record s rs)"
  by (induction rs arbitrary: s) (simp_all add: store_wf_apply)

lemma view_update_view: "view (update_view k f s) k' = (if k' = k then map_option f (view s k) else view s k')"
proof (cases "map_of (ds_steps s) k")
  case None
  then show ?thesis by (simp add: view_def update_view_def)
next
  case (Some v)
  then have "k \<in> fst ` set (ds_steps s)"
    by (metis domI dom_map_of_conv_image_fst)
  with Some show ?thesis by (simp add: view_def update_view_def map_of_bt_set)
qed

lemma view_apply: "store_wf s \<Longrightarrow> view (apply_record s r) k = key_effect k r (view s k)"
proof (cases r)
  case (FrozenRec k' a b c d)
  assume "store_wf s"
  then show ?thesis
    using FrozenRec by (auto simp: view_def store_wf_def map_of_bt_insert split: option.splits)
next
  case (CancelRequested run why)
  then show ?thesis by (simp add: view_def)
qed (simp_all add: view_update_view)

lemma view_replay:
  "store_wf s \<Longrightarrow> view (foldl apply_record s rs) k = foldl (\<lambda>v r. key_effect k r v) (view s k) rs"
  by (induction rs arbitrary: s) (simp_all add: store_wf_apply view_apply)

lemma view_empty [simp]: "view (empty_store path) k = None"
  by (simp add: view_def empty_store_def)

lemma run_cancelled_apply:
  "store_wf s \<Longrightarrow> run_cancelled (apply_record s r) run =
     (case r of CancelRequested run' why \<Rightarrow> (if run' = run then Some why else run_cancelled s run)
      | _ \<Rightarrow> run_cancelled s run)"
  by (cases r)
    (auto simp: run_cancelled_def store_wf_def update_view_def map_of_bt_insert split: option.splits)

lemma run_cancelled_stays: "store_wf s \<Longrightarrow> run_cancelled s run \<noteq> None \<Longrightarrow> run_cancelled (foldl apply_record s rs) run \<noteq> None"
  by (induction rs arbitrary: s) (auto simp: store_wf_apply run_cancelled_apply split: log_record.splits)

text \<open>The settled answer of a step.\<close>

definition answer_of :: "step_view option \<Rightarrow> terminal_record option" where
  "answer_of v = (case v of
       Some w \<Rightarrow> (case vw_state w of Settled t \<Rightarrow> Some t | _ \<Rightarrow> None)
     | None \<Rightarrow> None)"

lemma settled_output_answer:
  "settled_output s k = (case answer_of (view s k) of Some (Succeeded out) \<Rightarrow> Some out | _ \<Rightarrow> None)"
  by (auto simp: settled_output_def answer_of_def view_def split: option.splits step_state.splits terminal_record.splits)

lemma is_terminal_answer: "is_terminal w \<longleftrightarrow> answer_of (Some w) \<noteq> None"
  by (simp add: is_terminal_def answer_of_def split: step_state.split)

lemmas view_defs = claim_view_def launch_view_def settle_view_def uncertain_view_def reconcile_view_def

fun reconciles :: "step_key \<Rightarrow> log_record \<Rightarrow> bool" where
  "reconciles k (ReconciledRec k' _ _) \<longleftrightarrow> k' = k"
| "reconciles k _ \<longleftrightarrow> False"

lemma terminal_absorbs:
  assumes "is_terminal w" and "\<not> reconciles k r"
  shows "key_effect k r (Some w) = Some w"
  using assms by (cases r) (simp_all add: view_defs)

lemma terminal_absorbs_all:
  assumes "is_terminal w" and "\<forall>r \<in> set rs. \<not> reconciles k r"
  shows "foldl (\<lambda>v r. key_effect k r v) (Some w) rs = Some w"
  using assms(2) by (induction rs) (simp_all add: terminal_absorbs [OF assms(1)])

section \<open>The answer as a property of the history\<close>

text \<open>
  Read off the log without folding a state: the first settlement of the step, after it was frozen, whose
  epoch is not below any claim of the step recorded in between.
\<close>

fun freezes :: "step_key \<Rightarrow> log_record \<Rightarrow> bool" where
  "freezes k (FrozenRec k' _ _ _ _) \<longleftrightarrow> k' = k"
| "freezes k _ \<longleftrightarrow> False"

fun first_fenced :: "step_key \<Rightarrow> epoch list \<Rightarrow> log_record list \<Rightarrow> terminal_record option" where
  "first_fenced k seen [] = None"
| "first_fenced k seen (r # rs) = (case r of
       SettledRec k' e t \<Rightarrow> (if k' = k \<and> (\<forall>e' \<in> set seen. e' \<le> e) then Some t else first_fenced k seen rs)
     | ClaimedRec k' e _ \<Rightarrow> first_fenced k (if k' = k then e # seen else seen) rs
     | _ \<Rightarrow> first_fenced k seen rs)"

definition history_answer :: "step_key \<Rightarrow> log_record list \<Rightarrow> terminal_record option" where
  "history_answer k rs = first_fenced k [] (dropWhile (\<lambda>r. \<not> freezes k r) rs)"

definition high_water :: "epoch list \<Rightarrow> epoch" where
  "high_water seen = foldr max seen 0"

lemma high_water_simps [simp]: "high_water [] = 0" "high_water (e # es) = max e (high_water es)"
  by (simp_all add: high_water_def)

lemma high_water_le: "high_water seen \<le> e \<longleftrightarrow> (\<forall>e' \<in> set seen. e' \<le> e)"
  by (induction seen) simp_all

lemma answer_after_freeze:
  assumes "\<not> is_terminal w" and "vw_highest_epoch w = high_water seen" and "\<forall>r \<in> set rs. \<not> reconciles k r"
  shows "answer_of (foldl (\<lambda>v r. key_effect k r v) (Some w) rs) = first_fenced k seen rs"
  using assms
proof (induction rs arbitrary: w seen)
  case Nil
  then show ?case by (simp add: is_terminal_answer)
next
  case (Cons r rs)
  have rest: "\<forall>r \<in> set rs. \<not> reconciles k r" using Cons.prems(3) by simp
  show ?case
  proof (cases r)
    case (ClaimedRec k' e worker)
    have "\<not> is_terminal (claim_view e w)"
      using Cons.prems(1) by (simp add: claim_view_def is_terminal_def)
    moreover have "vw_highest_epoch (claim_view e w) = high_water (e # seen)"
      using Cons.prems(1,2) by (simp add: claim_view_def)
    ultimately show ?thesis
      using ClaimedRec Cons.IH [OF _ _ rest, of "claim_view e w" "e # seen"]
        Cons.IH [OF Cons.prems(1,2) rest] by simp
  next
    case (SettledRec k' e t)
    show ?thesis
    proof (cases "k' = k \<and> high_water seen \<le> e")
      case True
      have new: "settle_view e t w = w\<lparr>vw_state := Settled t\<rparr>"
        using True Cons.prems by (simp add: settle_view_def)
      have "is_terminal (settle_view e t w)" by (simp add: new is_terminal_def)
      then show ?thesis
        using True SettledRec rest
        by (simp add: terminal_absorbs_all high_water_le [symmetric]) (simp add: new answer_of_def)
    next
      case False
      then have "key_effect k r (Some w) = Some w"
        using SettledRec Cons.prems by (auto simp: settle_view_def)
      then show ?thesis
        using SettledRec False Cons.IH [OF Cons.prems(1,2) rest]
        by (auto simp: high_water_le)
    qed
  next
    case (LaunchedRec k' e)
    have "\<not> is_terminal (launch_view e w)" "vw_highest_epoch (launch_view e w) = high_water seen"
      using Cons.prems(1,2) by (simp_all add: launch_view_def is_terminal_def)
    then show ?thesis
      using LaunchedRec Cons.IH [OF _ _ rest, of "launch_view e w" seen] Cons.IH [OF Cons.prems(1,2) rest] by simp
  next
    case (UncertainRec k' e why)
    have "\<not> is_terminal (uncertain_view e why w)" "vw_highest_epoch (uncertain_view e why w) = high_water seen"
      using Cons.prems(1,2) by (simp_all add: uncertain_view_def is_terminal_def)
    then show ?thesis
      using UncertainRec Cons.IH [OF _ _ rest, of "uncertain_view e why w" seen]
        Cons.IH [OF Cons.prems(1,2) rest] by simp
  qed (use Cons.prems Cons.IH [OF Cons.prems(1,2) rest] in simp_all)
qed

lemma answer_before_freeze:
  assumes "\<forall>r \<in> set rs. \<not> reconciles k r"
  shows "answer_of (foldl (\<lambda>v r. key_effect k r v) None rs) = history_answer k rs"
  using assms
proof (induction rs)
  case Nil
  then show ?case by (simp add: answer_of_def history_answer_def)
next
  case (Cons r rs)
  show ?case
  proof (cases "freezes k r")
    case True
    then obtain wid ver fp na where r: "r = FrozenRec k wid ver fp na"
      by (cases r) auto
    show ?thesis
      using Cons.prems answer_after_freeze [of "frozen_view fp na" "[]" rs k]
      by (simp add: r history_answer_def frozen_view_def is_terminal_def)
  next
    case False
    then have "key_effect k r None = None" by (cases r) simp_all
    then show ?thesis
      using False Cons by (simp add: history_answer_def)
  qed
qed

section \<open>Recorded output\<close>

lemma byte_in_continuation: "byte_in lo hi c \<Longrightarrow> 0x80 \<le> lo \<Longrightarrow> hi \<le> 0xBF \<Longrightarrow> byte_in 0x80 0xBF c"
  by (simp add: byte_in_def)

lemma byte_in_disjoint: "byte_in lo hi c \<Longrightarrow> hi < lo' \<or> hi' < lo \<Longrightarrow> \<not> byte_in lo' hi' c"
  by (auto simp: byte_in_def)

text \<open>The first character of a valid string, as bytes.\<close>

definition utf8_char :: "string \<Rightarrow> bool" where
  "utf8_char p \<longleftrightarrow> p \<noteq> [] \<and> length p \<le> 4 \<and> \<not> byte_in 0x80 0xBF (hd p)
     \<and> (\<forall>c \<in> set (tl p). byte_in 0x80 0xBF c) \<and> (\<forall>u. utf8_valid (p @ u) \<longleftrightarrow> utf8_valid u)"

lemma utf8_first_char:
  assumes "utf8_valid (a # s)"
  obtains p t where "a # s = p @ t" and "utf8_char p" and "utf8_valid t"
proof (cases "byte_in 0x00 0x7F a")
  case True
  then have "utf8_char [a]" by (simp add: utf8_char_def byte_in_disjoint)
  with True assms show ?thesis by (intro that [of "[a]" s]) simp_all
next
  case ascii: False
  then obtain b s1 where s: "s = b # s1"
    using assms by (cases s) simp_all
  show ?thesis
  proof (cases "byte_in 0xC2 0xDF a")
    case True
    with ascii s assms have b: "byte_in 0x80 0xBF b" and t: "utf8_valid s1" by simp_all
    have "utf8_char [a, b]"
      using True ascii b by (simp add: utf8_char_def byte_in_disjoint)
    with t show ?thesis by (intro that [of "[a, b]" s1]) (simp_all add: s)
  next
    case two: False
    then obtain c s2 where s1: "s1 = c # s2"
      using assms ascii s by (cases s1) simp_all
    show ?thesis
    proof (cases "byte_in 0xE0 0xEF a")
      case True
      let ?lo = "if of_char a = (0xE0 :: nat) then 0xA0 else 0x80"
      let ?hi = "if of_char a = (0xED :: nat) then 0x9F else 0xBF"
      from True ascii two s s1 assms
      have b: "byte_in ?lo ?hi b" and c: "byte_in 0x80 0xBF c" and t: "utf8_valid s2" by simp_all
      have b': "byte_in 0x80 0xBF b" by (rule byte_in_continuation [OF b]) simp_all
      have "utf8_char [a, b, c]"
        using True ascii two b b' c by (simp add: utf8_char_def byte_in_disjoint)
      with t show ?thesis by (intro that [of "[a, b, c]" s2]) (simp_all add: s s1)
    next
      case three: False
      then obtain d s3 where s2: "s2 = d # s3"
        using assms ascii two s s1 by (cases s2) simp_all
      let ?lo = "if of_char a = (0xF0 :: nat) then 0x90 else 0x80"
      let ?hi = "if of_char a = (0xF4 :: nat) then 0x8F else 0xBF"
      from three ascii two s s1 s2 assms
      have a: "byte_in 0xF0 0xF4 a" and b: "byte_in ?lo ?hi b" and c: "byte_in 0x80 0xBF c"
        and d: "byte_in 0x80 0xBF d" and t: "utf8_valid s3" by simp_all
      have b': "byte_in 0x80 0xBF b" by (rule byte_in_continuation [OF b]) simp_all
      have "utf8_char [a, b, c, d]"
        using a ascii two three b b' c d by (simp add: utf8_char_def byte_in_disjoint)
      with t show ?thesis by (intro that [of "[a, b, c, d]" s3]) (simp_all add: s s1 s2)
    qed
  qed
qed

lemma utf8_char_boundary:
  assumes "utf8_char p" and "is_char_boundary (p @ t) n" and "n \<noteq> 0"
  shows "length p \<le> n \<and> is_char_boundary t (n - length p)"
proof -
  have "length p \<le> n"
  proof (rule ccontr)
    assume "\<not> length p \<le> n"
    then have "n - 1 < length (tl p)" and "(p @ t) ! n = p ! n" and "p ! n = tl p ! (n - 1)"
      using assms(3) by (simp_all add: nth_append nth_tl)
    then have "byte_in 0x80 0xBF ((p @ t) ! n)"
      using assms(1) by (metis utf8_char_def nth_mem)
    then show False
      using assms \<open>\<not> length p \<le> n\<close> by (auto simp: is_char_boundary_def)
  qed
  then show ?thesis
    using assms(2) by (auto simp: is_char_boundary_def nth_append)
qed

lemma utf8_take: "utf8_valid s \<Longrightarrow> is_char_boundary s n \<Longrightarrow> utf8_valid (take n s)"
proof (induction "length s" arbitrary: s n rule: less_induct)
  case less
  show ?case
  proof (cases "s = [] \<or> n = 0")
    case True
    then show ?thesis by auto
  next
    case False
    then obtain a s' where "s = a # s'" by (cases s) auto
    with less.prems(1) obtain p t where s: "s = p @ t" and p: "utf8_char p" and t: "utf8_valid t"
      by (metis utf8_first_char)
    have n: "length p \<le> n" "is_char_boundary t (n - length p)"
      using utf8_char_boundary [OF p] less.prems(2) False s by auto
    have "length t < length s" using p s by (simp add: utf8_char_def)
    then have "utf8_valid (take (n - length p) t)" using less.hyps t n(2) by blast
    then show ?thesis using p n(1) s by (simp add: utf8_char_def)
  qed
qed

lemma utf8_valid_head: "utf8_valid (a # s) \<Longrightarrow> \<not> byte_in 0x80 0xBF a"
  by (erule utf8_first_char) (metis list.sel(1) utf8_char_def hd_append2)

lemma boundary_append: "utf8_valid t \<Longrightarrow> is_char_boundary t m \<Longrightarrow> is_char_boundary (p @ t) (length p + m)"
proof (cases t)
  case (Cons a t')
  assume "utf8_valid t" and "is_char_boundary t m"
  then show ?thesis
    using Cons utf8_valid_head [of a t'] by (auto simp: is_char_boundary_def nth_append simp del: utf8_valid.simps)
qed (simp add: is_char_boundary_def)

lemma boundary_near: "utf8_valid s \<Longrightarrow> n \<le> length s \<Longrightarrow> \<exists>m \<le> n. n \<le> m + 3 \<and> is_char_boundary s m"
proof (induction "length s" arbitrary: s n rule: less_induct)
  case less
  show ?case
  proof (cases "n \<le> 3")
    case True
    then show ?thesis by (intro exI [of _ 0]) (simp add: is_char_boundary_def)
  next
    case False
    then obtain a s' where "s = a # s'" using less.prems(2) by (cases s) auto
    with less.prems(1) obtain p t where s: "s = p @ t" and p: "utf8_char p" and t: "utf8_valid t"
      by (metis utf8_first_char)
    have len: "length p \<le> n" "n - length p \<le> length t" "length t < length s"
      using p False less.prems(2) s by (simp_all add: utf8_char_def)
    then obtain m where "m \<le> n - length p" "n - length p \<le> m + 3" "is_char_boundary t m"
      using less.hyps t by blast
    then show ?thesis
      using len(1) s boundary_append [OF t, of m p] by (intro exI [of _ "length p + m"]) auto
  qed
qed

lemma cut_back_boundary: "is_char_boundary s (cut_back s n)"
  by (induction s n rule: cut_back.induct) (simp_all add: is_char_boundary_def [of _ 0])

lemma cut_back_le: "cut_back s n \<le> n"
  by (induction s n rule: cut_back.induct) (simp_all add: le_Suc_eq)

lemma cut_back_greatest: "is_char_boundary s m \<Longrightarrow> m \<le> n \<Longrightarrow> m \<le> cut_back s n"
  by (induction s n rule: cut_back.induct) (auto simp: le_Suc_eq)

lemma utf8_append: "utf8_valid s \<Longrightarrow> utf8_valid t \<Longrightarrow> utf8_valid (s @ t)"
proof (induction "length s" arbitrary: s rule: less_induct)
  case less
  show ?case
  proof (cases s)
    case Nil
    then show ?thesis using less.prems by simp
  next
    case (Cons a s')
    with less.prems(1) obtain p u where s: "s = p @ u" and p: "utf8_char p" and u: "utf8_valid u"
      by (metis utf8_first_char)
    have "length u < length s" using p s by (simp add: utf8_char_def)
    then have "utf8_valid (u @ t)" using less.hyps u less.prems(2) by blast
    then show ?thesis using p s by (simp add: utf8_char_def)
  qed
qed

lemma utf8_ellipsis [simp]: "utf8_valid ellipsis"
  by (simp add: ellipsis_def byte_in_def)

text \<open>What the store keeps of a provider's output: a short output is kept as it is; of a longer one a prefix
  of 4093 to 4096 bytes that ends between characters, so that what is kept is UTF-8 again, and the ellipsis
  that marks the cut, so at most 4099 bytes.\<close>

theorem bounded_output_cut:
  assumes valid: "utf8_valid out"
  shows "utf8_valid (bounded_output out)"
    and "length (bounded_output out) \<le> 4099"
    and "if length out \<le> 4096 then bounded_output out = out
         else \<exists>n. 4093 \<le> n \<and> n \<le> 4096 \<and> bounded_output out = take n out @ ellipsis"
proof -
  let ?n = "cut_back out 4096"
  have le: "?n \<le> 4096" by (rule cut_back_le)
  have ge: "length out > 4096 \<Longrightarrow> 4093 \<le> ?n"
  proof -
    assume "length out > 4096"
    then obtain m where "m \<le> 4096" "4096 \<le> m + 3" "is_char_boundary out m"
      using boundary_near [OF valid, of 4096] by auto
    then show ?thesis using cut_back_greatest [of out m 4096] by simp
  qed
  have "utf8_valid (take ?n out)"
    by (rule utf8_take [OF valid cut_back_boundary])
  then show "utf8_valid (bounded_output out)"
    using valid by (simp add: bounded_output_def max_recorded_output_def utf8_append)
  show "length (bounded_output out) \<le> 4099"
    using le by (simp add: bounded_output_def max_recorded_output_def ellipsis_def)
  show "if length out \<le> 4096 then bounded_output out = out
         else \<exists>n. 4093 \<le> n \<and> n \<le> 4096 \<and> bounded_output out = take n out @ ellipsis"
    using le ge by (auto simp: bounded_output_def max_recorded_output_def)
qed

end
