(* ===== verification/Durable_Replay.thy ===== *)
theory Durable_Replay
  imports Durable_Store
begin

text \<open>
  What survives a restart (\<^verbatim>\<open>examples/apalis-durable/src/store.rs\<close>): the log written by the appends of one
  process, replayed by the next, after clean and after interrupted writes.
\<close>

section \<open>The codec\<close>

text \<open>What the store relies on of \<open>serde_json\<close> for the records it writes.\<close>

definition codec_for :: "(log_record \<Rightarrow> string) \<Rightarrow> (string \<Rightarrow> log_record option) \<Rightarrow> log_record list \<Rightarrow> bool" where
  "codec_for enc dec rs \<longleftrightarrow> (\<forall>r \<in> set rs.
     dec (enc r) = Some r \<and> utf8_valid (enc r) \<and> \<not> is_blank (enc r)
     \<and> newline \<notin> set (enc r) \<and> carriage_return \<notin> set (enc r))"

definition log_text :: "(log_record \<Rightarrow> string) \<Rightarrow> log_record list \<Rightarrow> string" where
  "log_text enc rs = concat (map (\<lambda>r. enc r @ [newline]) rs)"

lemma codec_for_subset: "codec_for enc dec rs \<Longrightarrow> set rs' \<subseteq> set rs \<Longrightarrow> codec_for enc dec rs'"
  by (auto simp: codec_for_def)

lemma codec_for_append [simp]: "codec_for enc dec (rs @ rs') \<longleftrightarrow> codec_for enc dec rs \<and> codec_for enc dec rs'"
  by (auto simp: codec_for_def)

lemma log_text_simps [simp]:
  "log_text enc [] = []"
  "log_text enc (r # rs) = enc r @ newline # log_text enc rs"
  "log_text enc (rs @ rs') = log_text enc rs @ log_text enc rs'"
  by (simp_all add: log_text_def)

lemma read_lines_line:
  "newline \<notin> set l \<Longrightarrow> carriage_return \<notin> set l \<Longrightarrow> read_lines (l @ newline # s) = l # read_lines s"
proof (induction l)
  case (Cons c l)
  then show ?case by (cases l) (auto simp: newline_def carriage_return_def)
qed simp

lemma read_lines_tail: "newline \<notin> set l \<Longrightarrow> l \<noteq> [] \<Longrightarrow> read_lines l = [l]"
proof (induction l)
  case (Cons c l)
  then show ?case by (cases l) auto
qed simp

lemma replay_lines_text:
  "codec_for enc dec rs \<Longrightarrow>
     replay_lines dec (read_lines (log_text enc rs @ rest)) s = replay_lines dec (read_lines rest) (foldl apply_record s rs)"
  by (induction rs arbitrary: s) (simp_all add: codec_for_def read_lines_line)

text \<open>A last line without its newline: an error when it is not UTF-8, otherwise parsed like any other.\<close>

lemma replay_lines_tail:
  "newline \<notin> set t \<Longrightarrow> t \<noteq> [] \<Longrightarrow> replay_lines dec (read_lines t) s =
     (if \<not> utf8_valid t then Inl Invalid_data
      else if is_blank t then Inr s
      else (case dec t of None \<Rightarrow> Inr s | Some r \<Rightarrow> Inr (apply_record s r)))"
  by (simp add: read_lines_tail split: option.split)

section \<open>One process\<close>

definition fresh_host :: "string \<Rightarrow> host" where
  "fresh_host path = \<lparr>h_log = [], h_store = empty_store path, h_writes = [], h_records = []\<rparr>"

definition append_written :: "(log_record \<Rightarrow> string) \<Rightarrow> log_record list \<Rightarrow> host \<Rightarrow> host" where
  "append_written enc rs h = foldl (\<lambda>h r. snd (append_record enc r h)) h rs"

lemma append_written_state:
  "h_writes h = [] \<Longrightarrow> h_log (append_written enc rs h) = h_log h @ log_text enc rs \<and>
   h_store (append_written enc rs h) = foldl apply_record (h_store h) rs \<and> h_writes (append_written enc rs h) = []
   \<and> h_records (append_written enc rs h) = h_records h @ rs"
  by (induction rs arbitrary: h) (simp_all add: append_written_def append_record_def)

lemma append_record_cases:
  assumes "append_record enc r h = (res, h')"
  obtains (written) ws where "res = Inr ()" and "h' = h\<lparr>h_log := h_log h @ enc r @ [newline],
       h_store := apply_record (h_store h) r, h_writes := ws, h_records := h_records h @ [r]\<rparr>"
     and "ws = tl (h_writes h)"
  | (failed) n ws where "res = Inl Os_error" and "h' = h\<lparr>h_log := h_log h @ take n (enc r @ [newline]), h_writes := ws\<rparr>"
     and "h_writes h = Failed_after n # ws"
  using assms by (auto simp: append_record_def split: list.splits write_io.splits)

text \<open>A host whose acknowledged records are exactly its log and whose store is their fold.\<close>

definition consistent :: "(log_record \<Rightarrow> string) \<Rightarrow> host \<Rightarrow> bool" where
  "consistent enc h \<longleftrightarrow> h_log h = log_text enc (h_records h)
     \<and> h_store h = foldl apply_record (empty_store (ds_path (h_store h))) (h_records h)"

lemma ds_path_empty [simp]: "ds_path (empty_store path) = path"
  by (simp add: empty_store_def)

lemma ds_path_apply [simp]: "ds_path (apply_record s r) = ds_path s"
  by (cases r) (simp_all add: update_view_def split: option.split)

lemma consistent_fresh [simp]: "consistent enc (fresh_host path)"
  by (simp add: consistent_def fresh_host_def)

lemma consistent_append:
  assumes "consistent enc h" and "append_record enc r h = (Inr u, h')"
  shows "consistent enc h'"
  using assms(2) by (cases rule: append_record_cases) (use assms(1) in \<open>simp_all add: consistent_def\<close>)

lemma consistent_open:
  "consistent enc h \<Longrightarrow> codec_for enc dec (h_records h) \<Longrightarrow>
     durable_open dec True (ds_path (h_store h)) (h_log h) = Inr (h_store h)"
  using replay_lines_text [of enc dec "h_records h" "[]" "empty_store (ds_path (h_store h))"]
  by (simp add: consistent_def durable_open_def)

lemma consistent_wf: "consistent enc h \<Longrightarrow> store_wf (h_store h)"
  by (metis consistent_def store_wf_empty store_wf_replay)

section \<open>Failed writes\<close>

text \<open>A host whose log ends at the end of a line and whose store is what the log says: a process that has opened
  a log without a torn tail, and every process after it as long as its writes succeed.\<close>

definition clean :: "(string \<Rightarrow> log_record option) \<Rightarrow> host \<Rightarrow> bool" where
  "clean dec h \<longleftrightarrow> (h_log h = [] \<or> List.last (h_log h) = newline)
     \<and> durable_open dec True (ds_path (h_store h)) (h_log h) = Inr (h_store h)"

lemma read_lines_append:
  "base = [] \<or> List.last base = newline \<Longrightarrow> read_lines (base @ u) = read_lines base @ read_lines u"
proof (induction "length base" arbitrary: base rule: less_induct)
  case less
  note end_ = less.prems
  show ?case
  proof (cases base)
    case base: (Cons c s)
    have s: "s \<noteq> [] \<Longrightarrow> List.last s = newline" "s = [] \<Longrightarrow> c = newline" using end_ base by auto
    then have IH: "read_lines (s @ u) = read_lines s @ read_lines u"
      by (intro less.hyps) (auto simp: base)
    show ?thesis
    proof (cases "c = newline \<or> s = []")
      case True
      then show ?thesis using IH s by (auto simp: base)
    next
      case False
      then obtain d s' where d: "s = d # s'" by (cases s) auto
      show ?thesis
      proof (cases "c = carriage_return \<and> d = newline")
        case True
        have "read_lines (s' @ u) = read_lines s' @ read_lines u"
          using s(1) d by (intro less.hyps) (auto simp: base split: if_splits)
        then show ?thesis using True False by (simp add: base d)
      next
        case other: False
        have "read_lines s \<noteq> []" by (cases s') (auto simp: d split: list.split)
        then obtain l ls where ls: "read_lines s = l # ls" by (cases "read_lines s") auto
        have "read_lines (c # s) = (c # l) # ls" using False other ls by (simp add: d del: read_lines.simps(2)) (simp add: read_lines.simps(2) [of c])
        moreover have "read_lines (c # s @ u) = (c # l) # ls @ read_lines u"
          using False other IH ls by (simp add: d del: read_lines.simps(2)) (simp add: read_lines.simps(2) [of c])
        ultimately show ?thesis by (simp add: base del: read_lines.simps)
      qed
    qed
  qed simp
qed

lemma replay_lines_append:
  "replay_lines dec (ls @ ls') s = (case replay_lines dec ls s of Inl e \<Rightarrow> Inl e | Inr s' \<Rightarrow> replay_lines dec ls' s')"
  by (induction ls arbitrary: s) (simp_all split: option.split)

lemma replay_lines_kept:
  assumes "replay_lines dec ls s = Inr s'" and "\<And>s r. Q s \<Longrightarrow> \<not> P r \<Longrightarrow> Q (apply_record s r)"
    and "\<forall>l \<in> set ls. \<forall>r. dec l = Some r \<longrightarrow> \<not> P r" and "Q s"
  shows "Q s'"
  using assms(1,3,4) by (induction ls arbitrary: s) (auto simp: assms(2) split: if_splits option.splits)

lemma open_path_wf:
  assumes "durable_open dec readable path log = Inr s"
  shows "ds_path s = path \<and> store_wf s"
proof -
  have "replay_lines dec (read_lines log) (empty_store path) = Inr s"
    using assms by (simp add: durable_open_def split: if_splits)
  then show ?thesis
    by (rule replay_lines_kept [where P = "\<lambda>_. False"]) (simp_all add: store_wf_apply)
qed

lemma open_append:
  "base = [] \<or> List.last base = newline \<Longrightarrow> durable_open dec True path (base @ u) =
     (case durable_open dec True path base of Inl e \<Rightarrow> Inl e | Inr s \<Rightarrow> replay_lines dec (read_lines u) s)"
  by (simp add: durable_open_def read_lines_append replay_lines_append)

lemma clean_wf: "clean dec h \<Longrightarrow> store_wf (h_store h)"
  using open_path_wf by (auto simp: clean_def)

lemma clean_append:
  assumes "clean dec h" and "append_record enc r h = (Inr u, h')" and "codec_for enc dec [r]"
  shows "clean dec h'"
  using assms(2)
proof (cases rule: append_record_cases)
  case (written ws)
  have line: "read_lines (enc r @ [newline]) = [enc r]"
    using assms(3) read_lines_line [of "enc r" "[]"] by (simp add: codec_for_def)
  show ?thesis
    using assms(1,3) open_append [of "h_log h" dec "ds_path (h_store h)" "enc r @ [newline]"]
    by (simp add: clean_def written(2) line codec_for_def)
qed simp

lemma consistent_clean: "consistent enc h \<Longrightarrow> codec_for enc dec (h_records h) \<Longrightarrow> clean dec h"
  using consistent_open [of enc h dec]
  by (cases "h_records h" rule: rev_cases) (auto simp: clean_def consistent_def)

text \<open>
  What the failed writes of a process leave: its log grows by pieces, each the beginning of a line. A class
  \<open>P\<close> of records is read apart when text put together from beginnings of other records never reads as one
  of the class, and no text of a record spans lines. Of \<open>serde_json\<close> this holds for every class: control
  characters are escaped, and beginnings of objects, one after the other, are an object only if they are
  a single whole one.
\<close>

definition piecewise :: "(log_record \<Rightarrow> bool) \<Rightarrow> (log_record \<Rightarrow> string) \<Rightarrow> string \<Rightarrow> bool" where
  "piecewise P enc u \<longleftrightarrow> (\<exists>ps. u = concat ps \<and> (\<forall>p \<in> set ps. \<exists>r n. \<not> P r \<and> p = take n (enc r @ [newline])))"

definition reads_apart ::
  "(log_record \<Rightarrow> bool) \<Rightarrow> (log_record \<Rightarrow> string) \<Rightarrow> (string \<Rightarrow> log_record option) \<Rightarrow> bool" where
  "reads_apart P enc dec \<longleftrightarrow>
     (\<forall>r. newline \<notin> set (enc r) \<and> carriage_return \<notin> set (enc r))
     \<and> (\<forall>ps r. (\<forall>p \<in> set ps. \<exists>r' n. \<not> P r' \<and> p = take n (enc r')) \<longrightarrow> dec (concat ps) = Some r \<longrightarrow> \<not> P r)"

lemma piecewise_Nil [simp]: "piecewise P enc []"
  by (simp add: piecewise_def exI [of _ "[]"])

lemma piecewise_append: "piecewise P enc u \<Longrightarrow> \<not> P r \<Longrightarrow> piecewise P enc (u @ take n (enc r @ [newline]))"
  unfolding piecewise_def by (elim exE, rule_tac x = "ps @ [take n (enc r @ [newline])]" in exI) auto

lemma piecewise_append_line: "piecewise P enc u \<Longrightarrow> \<not> P r \<Longrightarrow> piecewise P enc (u @ enc r @ [newline])"
  using piecewise_append [of P enc u r "Suc (length (enc r))"] by simp

lemma pieces_chars:
  assumes "\<forall>p \<in> set ps. \<exists>r n. \<not> P r \<and> p = take n (f r)" and "c \<in> set (concat ps)"
  shows "\<exists>r. \<not> P r \<and> c \<in> set (f r)"
proof -
  from assms(2) obtain p where "p \<in> set ps" "c \<in> set p" by auto
  from bspec [OF assms(1) this(1)] obtain r n where "\<not> P r" "p = take n (f r)" by (elim exE conjE)
  moreover from this \<open>c \<in> set p\<close> have "c \<in> set (f r)" by (auto dest: in_set_takeD)
  ultimately show ?thesis by (intro exI [of _ r]) simp
qed

lemma pieces_lines:
  assumes one: "\<forall>r. newline \<notin> set (enc r) \<and> carriage_return \<notin> set (enc r)"
    and "\<forall>q \<in> set qs. \<exists>r n. \<not> P r \<and> q = take n (enc r)"
    and "\<forall>p \<in> set ps. \<exists>r n. \<not> P r \<and> p = take n (enc r @ [newline])"
    and "l \<in> set (read_lines (concat qs @ concat ps))"
  shows "\<exists>qs'. l = concat qs' \<and> (\<forall>q \<in> set qs'. \<exists>r n. \<not> P r \<and> q = take n (enc r))"
  using assms(2-)
proof (induction ps arbitrary: qs)
  case Nil
  have "newline \<notin> set (concat qs)" using pieces_chars [OF Nil(1), of newline] one by blast
  then have "l = concat qs" using Nil(3) read_lines_tail [of "concat qs"] by (cases "concat qs = []") auto
  then show ?case using Nil(1) by blast
next
  case (Cons p ps)
  from Cons.prems(2) obtain r n where p: "\<not> P r" "p = take n (enc r @ [newline])" by auto
  show ?case
  proof (cases "n \<le> length (enc r)")
    case True
    with p have "p = take n (enc r)" by simp
    with p(1) Cons.prems show ?thesis by (intro Cons.IH [of "qs @ [p]"]) auto
  next
    case False
    with p have whole: "p = enc r @ [newline]" by simp
    have "newline \<notin> set (concat qs @ enc r)" "carriage_return \<notin> set (concat qs @ enc r)"
      using pieces_chars [OF Cons.prems(1), of newline] pieces_chars [OF Cons.prems(1), of carriage_return] one
      by (auto simp del: set_concat)
    from read_lines_line [OF this, of "concat ps"]
    have "l = concat (qs @ [enc r]) \<or> l \<in> set (read_lines (concat [] @ concat ps))"
      using Cons.prems(3) by (auto simp: whole)
    then show ?thesis
    proof
      assume "l = concat (qs @ [enc r])"
      moreover have "\<exists>r' n. \<not> P r' \<and> enc r = take n (enc r')"
        using p(1) by (intro exI [of _ r] exI [of _ "length (enc r)"]) simp
      ultimately show ?thesis using Cons.prems(1) by (intro exI [of _ "qs @ [enc r]"]) auto
    next
      assume "l \<in> set (read_lines (concat [] @ concat ps))"
      then show ?thesis using Cons.prems(2) by (intro Cons.IH [of "[]"]) auto
    qed
  qed
qed

lemma piecewise_reads:
  assumes "reads_apart P enc dec" and "piecewise P enc u" and "l \<in> set (read_lines u)" and "dec l = Some r"
  shows "\<not> P r"
proof -
  from assms(2) obtain ps where ps: "u = concat ps" "\<forall>p \<in> set ps. \<exists>r n. \<not> P r \<and> p = take n (enc r @ [newline])"
    by (auto simp: piecewise_def)
  have "\<exists>qs'. l = concat qs' \<and> (\<forall>q \<in> set qs'. \<exists>r n. \<not> P r \<and> q = take n (enc r))"
    using assms(1,3) ps by (intro pieces_lines [of enc "[]" P ps]) (simp_all add: reads_apart_def)
  with assms(1,4) show ?thesis unfolding reads_apart_def by blast
qed

section \<open>Restart\<close>

text \<open>C33: state comes from the file: after any records were appended to a fresh log, opening the file gives the
  very store the writing process had in memory, and each step's settled answer is the one the history
  determines, without any state: the first settlement after the freeze whose epoch is not below a claim
  recorded before it.\<close>

theorem reopen_restores:
  assumes codec: "codec_for enc dec rs" and h: "h = append_written enc rs (fresh_host path)"
  shows "durable_open dec True path (h_log h) = Inr (h_store h)
    \<and> (\<forall>k. (\<forall>r \<in> set rs. \<not> reconciles k r) \<longrightarrow> answer_of (view (h_store h) k) = history_answer k rs)"
proof -
  have log: "h_log h = log_text enc rs" and store: "h_store h = foldl apply_record (empty_store path) rs"
    using append_written_state [of "fresh_host path" enc rs] by (simp_all add: h fresh_host_def)
  have "durable_open dec True path (h_log h) = Inr (h_store h)"
    using replay_lines_text [OF codec, of "[]" "empty_store path"] by (simp add: durable_open_def log store)
  moreover have "answer_of (view (h_store h) k) = history_answer k rs" if "\<forall>r \<in> set rs. \<not> reconciles k r" for k
    using answer_before_freeze [OF that] by (simp add: store view_replay)
  ultimately show ?thesis by blast
qed

text \<open>An interrupted append. The process that failed keeps its state; what the next one reads depends on how
  many bytes reached the file: none, and the record is absent; the whole text, and the record is there
  although its append reported an error; part of it, and the partial line is skipped if it is UTF-8
  that does not parse, but the open fails if the write ended inside a character.\<close>

theorem interrupted_append:
  assumes host: "consistent enc h" and codec: "codec_for enc dec (h_records h @ [r])"
    and torn: "\<forall>m. 0 < m \<and> m < length (enc r) \<longrightarrow> dec (take m (enc r)) = None"
    and fails: "h_writes h = Failed_after n # ws" and append: "append_record enc r h = (res, h')"
  shows "res = Inl Os_error \<and> h_store h' = h_store h
    \<and> durable_open dec True (ds_path (h_store h)) (h_log h') =
        (if n = 0 then Inr (h_store h)
         else if length (enc r) \<le> n then Inr (apply_record (h_store h) r)
         else if utf8_valid (take n (enc r)) then Inr (h_store h)
         else Inl Invalid_data)"
proof -
  let ?s = "empty_store (ds_path (h_store h))"
  have res: "res = Inl Os_error" and h': "h' = h\<lparr>h_log := h_log h @ take n (enc r @ [newline]), h_writes := ws\<rparr>"
    using append fails by (simp_all add: append_record_def)
  let ?rs = "h_records h"
  have log: "h_log h = log_text enc ?rs" and store: "foldl apply_record ?s ?rs = h_store h"
    using host by (simp_all add: consistent_def)
  have rs: "codec_for enc dec ?rs" using codec by simp
  have r: "dec (enc r) = Some r" "utf8_valid (enc r)" "\<not> is_blank (enc r)" "newline \<notin> set (enc r)"
      "carriage_return \<notin> set (enc r)"
    using codec by (simp_all add: codec_for_def)
  have enc: "enc r \<noteq> []" using r(3) by auto
  have "replay_lines dec (read_lines (take n (enc r @ [newline]))) (h_store h) =
        (if n = 0 then Inr (h_store h)
         else if length (enc r) \<le> n then Inr (apply_record (h_store h) r)
         else if utf8_valid (take n (enc r)) then Inr (h_store h)
         else Inl Invalid_data)"
  proof -
    consider "n = 0" | "0 < n" "n < length (enc r)" | "n = length (enc r)" | "length (enc r) < n" by linarith
    then show ?thesis
    proof cases
      case 2
      moreover have "newline \<notin> set (take n (enc r))" using r(4) by (meson in_set_takeD)
      moreover have "take n (enc r) \<noteq> []" using 2 enc by simp
      ultimately show ?thesis
        using torn replay_lines_tail [of "take n (enc r)" dec "h_store h"] by auto
    next
      case 3
      then show ?thesis using r enc replay_lines_tail [of "enc r" dec "h_store h"] by simp
    next
      case 4
      then show ?thesis using r enc read_lines_line [of "enc r" "[]"] by simp
    qed simp
  qed
  then show ?thesis
    using replay_lines_text [OF rs, of "take n (enc r @ [newline])" ?s]
    by (simp add: res h' log store durable_open_def)
qed

text \<open>C34: the write after a torn tail. The next process opens a log that ends in a partial line and appends to it;
  its first record lands on that same line, so although its append returned successfully, the restart
  after that does not see it: the store that is read back is the one without the record, followed by
  the records appended later.\<close>

theorem append_after_torn_tail:
  assumes host: "consistent enc h" and codec: "codec_for enc dec (h_records h @ r # later)"
    and torn: "newline \<notin> set t" "carriage_return \<notin> set t" "utf8_valid t" "dec t = None" "t \<noteq> []"
    and glued: "dec (t @ enc r) = None"
    and reopened: "durable_open dec True (ds_path (h_store h)) (h_log h @ t) = Inr s"
    and commit: "append_record enc r (h\<lparr>h_log := h_log h @ t, h_store := s\<rparr>) = (res, h')"
    and writes: "h_writes h = []"
  shows "res = Inr () \<and> h_store h' = apply_record s r \<and> h_records h' = h_records h @ [r]
    \<and> durable_open dec True (ds_path (h_store h)) (h_log (append_written enc later h')) =
        Inr (foldl apply_record s later)"
proof -
  let ?s = "empty_store (ds_path (h_store h))"
  have rs: "codec_for enc dec (h_records h)" and log: "h_log h = log_text enc (h_records h)"
      and store: "foldl apply_record ?s (h_records h) = h_store h"
    using host codec by (simp_all add: consistent_def)
  have r: "utf8_valid (enc r)" "newline \<notin> set (enc r)" "carriage_return \<notin> set (enc r)"
      and later: "codec_for enc dec later"
    using codec by (simp_all add: codec_for_def)
  have s: "s = h_store h"
    using reopened replay_lines_text [OF rs, of t ?s] replay_lines_tail [OF torn(1,5), of dec "h_store h"] torn(3,4)
    by (simp add: durable_open_def log store split: if_splits)
  have res: "res = Inr ()"
      and h': "h' = h\<lparr>h_log := h_log h @ t @ enc r @ [newline], h_store := apply_record s r, h_writes := [], h_records := h_records h @ [r]\<rparr>"
    using commit writes by (simp_all add: append_record_def)
  have line: "read_lines (t @ enc r @ newline # u) = (t @ enc r) # read_lines u" for u
    using read_lines_line [of "t @ enc r" u] torn(1,2) r(2,3) by simp
  have "replay_lines dec (read_lines (t @ enc r @ newline # log_text enc later)) (h_store h)
      = replay_lines dec (read_lines (log_text enc later)) (h_store h)"
    using utf8_append [OF torn(3) r(1)] glued by (simp add: line)
  then have "replay_lines dec (read_lines (t @ enc r @ newline # log_text enc later)) (h_store h)
      = Inr (foldl apply_record s later)"
    using replay_lines_text [OF later, of "[]" "h_store h"] by (simp add: s)
  then show ?thesis
    using replay_lines_text [OF rs, of "t @ enc r @ newline # log_text enc later" ?s]
      append_written_state [of h' enc later]
    by (simp add: res h' log store durable_open_def)
qed

section \<open>A sample codec\<close>

text \<open>
  A concrete \<open>enc\<close>/\<open>dec\<close> for witnesses: one text per kind of record, the settled one with a character of
  two bytes, parsed back to the sample record of that kind.
\<close>

definition sample_key :: step_key where
  "sample_key = StepKey ''r'' ''s''"

definition sample_frozen :: log_record where
  "sample_frozen = FrozenRec sample_key ''w'' ''v'' ''fp'' None"

definition sample_settled :: log_record where
  "sample_settled = SettledRec sample_key 1 (Succeeded ''ok'')"

fun sample_enc :: "log_record \<Rightarrow> string" where
  "sample_enc (FrozenRec _ _ _ _ _) = ''{f}''"
| "sample_enc (ClaimedRec k e _) = (if k \<noteq> sample_key then ''{o}'' else if e = 1 then ''{c}'' else ''{n}'')"
| "sample_enc (LaunchedRec _ _) = ''{l}''"
| "sample_enc (SettledRec _ _ _) = [CHR 0x7B, CHR 0xC3, CHR 0xA9, CHR 0x7D]"
| "sample_enc (UncertainRec _ _ _) = ''{u}''"
| "sample_enc (ReconciledRec _ _ _) = ''{d}''"
| "sample_enc (CancelRequested _ _) = ''{x}''"

definition sample_dec :: "string \<Rightarrow> log_record option" where
  "sample_dec s =
     (if s = ''{f}'' then Some sample_frozen
      else if s = ''{c}'' then Some (ClaimedRec sample_key 1 ''w'')
      else if s = ''{n}'' then Some (ClaimedRec sample_key 2 ''w'')
      else if s = ''{l}'' then Some (LaunchedRec sample_key 1)
      else if s = [CHR 0x7B, CHR 0xC3, CHR 0xA9, CHR 0x7D] then Some sample_settled
      else None)"

definition sample_log :: "log_record list" where
  "sample_log = [sample_frozen, ClaimedRec sample_key 1 ''w'', LaunchedRec sample_key 1, sample_settled]"

definition sample_records :: "log_record list" where
  "sample_records = ClaimedRec sample_key 2 ''w'' # sample_log"

lemma sample_blank: "\<not> is_blank ''{f}''" "\<not> is_blank ''{c}''" "\<not> is_blank ''{l}''" "\<not> is_blank ''{n}''"
    "\<not> is_blank [CHR 0x7B, CHR 0xC3, CHR 0xA9, CHR 0x7D]"
  by code_simp+

lemma sample_utf8: "utf8_valid ''{f}''" "utf8_valid ''{c}''" "utf8_valid ''{l}''" "utf8_valid ''{n}''"
    "utf8_valid [CHR 0x7B, CHR 0xC3, CHR 0xA9, CHR 0x7D]"
  by code_simp+

lemma sample_records_codec: "codec_for sample_enc sample_dec sample_records"
  by (simp add: codec_for_def sample_records_def sample_log_def sample_dec_def sample_frozen_def sample_settled_def
      sample_blank sample_utf8 newline_def carriage_return_def del: utf8_valid.simps)

lemma sample_codec: "codec_for sample_enc sample_dec sample_log"
  by (rule codec_for_subset [OF sample_records_codec]) (auto simp: sample_records_def)

text \<open>The sample host after its freeze.\<close>

definition sample_host :: host where
  "sample_host = append_written sample_enc [sample_frozen] (fresh_host ''log'')"

lemma sample_host_facts:
  "codec_for sample_enc sample_dec (h_records sample_host @ [ClaimedRec sample_key 1 ''w''])"
  "codec_for sample_enc sample_dec (h_records sample_host @ [sample_settled])"
  "consistent sample_enc sample_host" "ds_path (h_store sample_host) = ''log''"
  "h_store sample_host = apply_record (empty_store ''log'') sample_frozen"
  "h_log sample_host = sample_enc sample_frozen @ [newline]" "h_records sample_host = [sample_frozen]"
  "h_writes sample_host = []"
proof -
  have host: "sample_host = \<lparr>h_log = sample_enc sample_frozen @ [newline],
      h_store = apply_record (empty_store ''log'') sample_frozen, h_writes = [], h_records = [sample_frozen]\<rparr>"
    by (simp add: sample_host_def append_written_def append_record_def fresh_host_def)
  show "codec_for sample_enc sample_dec (h_records sample_host @ [ClaimedRec sample_key 1 ''w''])"
    "codec_for sample_enc sample_dec (h_records sample_host @ [sample_settled])"
    by (rule codec_for_subset [OF sample_codec]; simp add: host sample_log_def)+
  show "consistent sample_enc sample_host" by (simp add: consistent_def host)
  show "ds_path (h_store sample_host) = ''log''" by (simp add: host)
  show "h_store sample_host = apply_record (empty_store ''log'') sample_frozen" by (simp add: host)
  show "h_log sample_host = sample_enc sample_frozen @ [newline]" by (simp add: host)
  show "h_records sample_host = [sample_frozen]" by (simp add: host)
  show "h_writes sample_host = []" by (simp add: host)
qed

theorem reopen_restores_witness:
  "durable_open sample_dec True ''log'' (h_log (append_written sample_enc sample_log (fresh_host ''log'')))
     = Inr (h_store (append_written sample_enc sample_log (fresh_host ''log''))) \<and>
   answer_of (view (h_store (append_written sample_enc sample_log (fresh_host ''log''))) sample_key)
     = Some (Succeeded ''ok'')"
proof -
  have "\<forall>r \<in> set sample_log. \<not> reconciles sample_key r"
    by (simp add: sample_log_def sample_frozen_def sample_settled_def)
  then show ?thesis
    using reopen_restores [OF sample_codec refl, of "''log''"]
    by (simp add: history_answer_def sample_log_def sample_frozen_def sample_settled_def)
qed

text \<open>A settled record cut inside its two-byte character: the log no longer opens.\<close>

theorem interrupted_append_witness:
  "durable_open sample_dec True ''log''
     (h_log (snd (append_record sample_enc sample_settled (sample_host\<lparr>h_writes := [Failed_after 2]\<rparr>)))) = Inl Invalid_data"
proof -
  have torn: "\<forall>m. 0 < m \<and> m < length (sample_enc sample_settled) \<longrightarrow> sample_dec (take m (sample_enc sample_settled)) = None"
    by (auto simp: sample_settled_def sample_dec_def numeral_eq_Suc less_Suc_eq)
  obtain res h' where a: "append_record sample_enc sample_settled (sample_host\<lparr>h_writes := [Failed_after 2]\<rparr>) = (res, h')"
    by (cases "append_record sample_enc sample_settled (sample_host\<lparr>h_writes := [Failed_after 2]\<rparr>)")
  have "\<not> utf8_valid (take 2 (sample_enc sample_settled))"
    by (simp add: sample_settled_def byte_in_def numeral_eq_Suc)
  moreover have "consistent sample_enc (sample_host\<lparr>h_writes := [Failed_after 2]\<rparr>)"
    using sample_host_facts(3) by (simp add: consistent_def)
  ultimately show ?thesis
    using interrupted_append [OF _ _ torn _ a, of 2 "[]"] sample_host_facts(2,4) a
    by (simp add: sample_settled_def del: utf8_valid.simps)
qed

theorem append_after_torn_tail_witness:
  "let h' = snd (append_record sample_enc (ClaimedRec sample_key 1 ''w'')
                   (sample_host\<lparr>h_log := h_log sample_host @ ''{l''\<rparr>))
   in view (h_store h') sample_key = Some ((frozen_view ''fp'' None)\<lparr>vw_state := Claimed 1, vw_highest_epoch := 1\<rparr>)
      \<and> durable_open sample_dec True ''log'' (h_log h') = Inr (h_store sample_host)"
proof -
  let ?c = "ClaimedRec sample_key 1 ''w''"
  let ?torn = "(sample_host\<lparr>h_log := h_log sample_host @ ''{l''\<rparr>)"
  have t: "newline \<notin> set ''{l''" "carriage_return \<notin> set ''{l''" "utf8_valid ''{l''" "sample_dec ''{l'' = None" "''{l'' \<noteq> []"
      "sample_dec (''{l'' @ sample_enc ?c) = None"
    by (simp_all add: newline_def carriage_return_def sample_dec_def byte_in_def)
  have "replay_lines sample_dec (read_lines ''{l'') s = Inr s" for s
    using replay_lines_tail [OF t(1,5), of sample_dec s] t(3,4)
    by (simp del: utf8_valid.simps read_lines.simps)
  then have reopened: "durable_open sample_dec True (ds_path (h_store sample_host)) (h_log sample_host @ ''{l'') = Inr (h_store sample_host)"
    using replay_lines_text [of sample_enc sample_dec "[sample_frozen]" "''{l''" "empty_store ''log''"]
      codec_for_subset [OF sample_codec, of "[sample_frozen]"] sample_host_facts(4,5,6)
    by (simp add: durable_open_def sample_log_def del: read_lines.simps)
  have s_eq: "sample_host\<lparr>h_log := l, h_store := h_store sample_host\<rparr> = sample_host\<lparr>h_log := l\<rparr>" for l
    by (cases sample_host) simp
  obtain res h' where a: "append_record sample_enc ?c ?torn = (res, h')"
    by (cases "append_record sample_enc ?c ?torn")
  have lost: "h_store h' = apply_record (h_store sample_host) ?c" "durable_open sample_dec True ''log'' (h_log h') = Inr (h_store sample_host)"
    using append_after_torn_tail [OF sample_host_facts(3,1) t reopened, of res h'] a s_eq sample_host_facts(4,8)
    by (simp_all add: append_written_def)
  have "view (h_store h') sample_key = key_effect sample_key ?c (view (apply_record (empty_store ''log'') sample_frozen) sample_key)"
    by (simp only: lost(1) sample_host_facts(5) view_apply store_wf_apply store_wf_empty)
  also have "\<dots> = Some ((frozen_view ''fp'' None)\<lparr>vw_state := Claimed 1, vw_highest_epoch := 1\<rparr>)"
    by (simp add: view_apply sample_frozen_def frozen_view_def claim_view_def is_terminal_def del: apply_record.simps)
  finally show ?thesis using lost(2) a by simp
qed

text \<open>Claims of the sample step and decisions on it are read apart: no other record has the letters of its claims.\<close>

fun reopens :: "step_key \<Rightarrow> log_record \<Rightarrow> bool" where
  "reopens k (ClaimedRec k' _ _) \<longleftrightarrow> k' = k"
| "reopens k (ReconciledRec k' _ _) \<longleftrightarrow> k' = k"
| "reopens k _ \<longleftrightarrow> False"

lemma sample_apart: "reads_apart (reopens sample_key) sample_enc sample_dec"
proof -
  have one: "newline \<notin> set (sample_enc r) \<and> carriage_return \<notin> set (sample_enc r)" for r
    by (cases r) (simp_all add: newline_def carriage_return_def)
  have letters: "\<not> reopens sample_key r \<Longrightarrow> CHR ''c'' \<notin> set (sample_enc r) \<and> CHR ''n'' \<notin> set (sample_enc r)" for r
    by (cases r) simp_all
  have "\<not> reopens sample_key r"
    if ps: "\<forall>p \<in> set ps. \<exists>r' n. \<not> reopens sample_key r' \<and> p = take n (sample_enc r')" and dec: "sample_dec (concat ps) = Some r"
    for ps r
  proof -
    have "CHR ''c'' \<notin> set (concat ps) \<and> CHR ''n'' \<notin> set (concat ps)"
      using pieces_chars [OF ps, of "CHR ''c''"] pieces_chars [OF ps, of "CHR ''n''"] letters by blast
    then have "concat ps \<noteq> ''{c}'' \<and> concat ps \<noteq> ''{n}''"
      by (metis list.set_intros(1) list.set_intros(2))
    with dec show ?thesis
      by (auto simp: sample_dec_def sample_frozen_def sample_settled_def split: if_splits)
  qed
  with one show ?thesis unfolding reads_apart_def by blast
qed

end
