(* ===== verification/Durable_Worker.thy ===== *)
theory Durable_Worker
  imports Durable_Replay
begin

text \<open>
  The durable worker (\<^verbatim>\<open>examples/apalis-durable/src/main.rs\<close>): admission of delivered job references,
  execution with the result committed before the queue is told, and the demonstration phases. The clock
  is the argument \<open>now\<close>, in UTC milliseconds; a provider call is the result it returns.
\<close>

section \<open>Job references and deadlines\<close>

type_synonym u16 = "16 word"

record step_job_ref =
  jr_schema_version :: u16
  jr_run_id :: string
  jr_step_id :: string

definition job_ref_schema_version :: u16 where
  "job_ref_schema_version = 1"

datatype deadline_decision = NoDeadline | Remaining duration | Expired

definition reconstruct_deadline :: "u64 \<Rightarrow> u64 option \<Rightarrow> deadline_decision" where
  "reconstruct_deadline now not_after = (case not_after of
       None \<Rightarrow> NoDeadline
     | Some t \<Rightarrow> if t \<le> now then Expired else Remaining (duration_from_millis (unat (t - now))))"

section \<open>Admission\<close>

datatype admission = Run epoch | AlreadySettled | Refused string

definition job_key :: "step_job_ref \<Rightarrow> step_key" where
  "job_key job = StepKey (jr_run_id job) (jr_step_id job)"

definition schema_refusal :: "u16 \<Rightarrow> string" where
  "schema_refusal v = ''job reference schema '' @ show_nat (unat v) @ '' is not '' @ show_nat (unat job_ref_schema_version)"

definition admit ::
  "(log_record \<Rightarrow> string) \<Rightarrow> u64 \<Rightarrow> step_job_ref \<Rightarrow> string \<Rightarrow> string \<Rightarrow> host
     \<Rightarrow> (io_error + admission) \<times> host" where
  "admit enc now job fingerprint worker h =
     (if jr_schema_version job \<noteq> job_ref_schema_version
      then (Inr (Refused (schema_refusal (jr_schema_version job))), h)
      else case run_cancelled (h_store h) (jr_run_id job) of
        Some reason \<Rightarrow> (Inr (Refused (''run cancelled: '' @ reason)), h)
      | None \<Rightarrow>
          (case view (h_store h) (job_key job) of
             None \<Rightarrow> (Inr (Refused ''step was never frozen''), h)
           | Some v \<Rightarrow>
               if vw_fingerprint v \<noteq> fingerprint
               then (Inr (Refused ''delivered work does not match the frozen invocation''), h)
               else (case vw_state v of
                 Settled _ \<Rightarrow> (Inr AlreadySettled, h)
               | Uncertain _ reason \<Rightarrow> (Inr (Refused (''uncertain and awaiting reconciliation: '' @ reason)), h)
               | Launched e \<Rightarrow> (Inr (Refused (''already launched under epoch '' @ show_nat (unat e))), h)
               | _ \<Rightarrow>
                   (case reconstruct_deadline now (vw_not_after v) of
                      Expired \<Rightarrow> (Inr (Refused ''deadline passed before this delivery''), h)
                    | _ \<Rightarrow>
                        let e = vw_highest_epoch v + 1 in
                        (case append_record enc (ClaimedRec (job_key job) e worker) h of
                           (Inl err, h') \<Rightarrow> (Inl err, h')
                         | (Inr _, h') \<Rightarrow> (Inr (Run e), h'))))))"

section \<open>Execution\<close>

text \<open>The awaited provider: \<open>Inl\<close> its error message, \<open>Inr\<close> its output.\<close>

definition terminal_of :: "string + string \<Rightarrow> terminal_record" where
  "terminal_of outcome = (case outcome of
       Inr output \<Rightarrow> Succeeded (bounded_output output)
     | Inl message \<Rightarrow> Failed ''provider'' message)"

definition execute ::
  "(log_record \<Rightarrow> string) \<Rightarrow> step_key \<Rightarrow> epoch \<Rightarrow> string + string \<Rightarrow> host
     \<Rightarrow> (io_error + terminal_record) \<times> host" where
  "execute enc key e provider h =
     (case append_record enc (LaunchedRec key e) h of
        (Inl err, h1) \<Rightarrow> (Inl err, h1)
      | (Inr _, h1) \<Rightarrow>
          let result = terminal_of provider in
          (case append_record enc (SettledRec key e result) h1 of
             (Inl err, h2) \<Rightarrow> (Inl err, h2)
           | (Inr _, h2) \<Rightarrow> (Inr result, h2)))"

definition freeze ::
  "(log_record \<Rightarrow> string) \<Rightarrow> string \<Rightarrow> string \<Rightarrow> string \<Rightarrow> u64 option \<Rightarrow> host \<Rightarrow> (io_error + unit) \<times> host" where
  "freeze enc run step fingerprint not_after h =
     append_record enc (FrozenRec (StepKey run step) ''repository-review'' ''v1'' fingerprint not_after) h"

section \<open>The phases\<close>

definition job_ref :: "string \<Rightarrow> string \<Rightarrow> step_job_ref" where
  "job_ref run step =
     \<lparr>jr_schema_version = job_ref_schema_version, jr_run_id = run, jr_step_id = step\<rparr>"

text \<open>
  The demonstration phases as programs over an opened host; what they print is not modelled. \<open>with_host\<close>
  is \<open>DurableStore::open(log)?\<close>: a process that starts with nothing but the log file.
\<close>

definition bind_io :: "(io_error + 'a) \<times> host \<Rightarrow> ('a \<Rightarrow> host \<Rightarrow> (io_error + 'b) \<times> host) \<Rightarrow> (io_error + 'b) \<times> host" where
  "bind_io r f = (case r of (Inl err, h) \<Rightarrow> (Inl err, h) | (Inr a, h) \<Rightarrow> f a h)"

definition with_host ::
  "(string \<Rightarrow> log_record option) \<Rightarrow> string \<Rightarrow> (host \<Rightarrow> (io_error + 'a) \<times> host) \<Rightarrow> host \<Rightarrow> (io_error + 'a) \<times> host" where
  "with_host dec path body h = (case durable_open dec True path (h_log h) of
       Inl err \<Rightarrow> (Inl err, h)
     | Inr s \<Rightarrow> body (h\<lparr>h_store := s\<rparr>))"

fun phase_one_steps ::
  "(log_record \<Rightarrow> string) \<Rightarrow> u64 \<Rightarrow> string list \<Rightarrow> host \<Rightarrow> (io_error + unit) \<times> host" where
  "phase_one_steps enc now [] h = (Inr (), h)"
| "phase_one_steps enc now (step # steps) h =
     bind_io (freeze enc ''run-1'' step ''fp-1'' None h) (\<lambda>_ h1.
     bind_io (admit enc now (job_ref ''run-1'' step) ''fp-1'' ''worker-a'' h1) (\<lambda>a h2.
       case a of
         Run e \<Rightarrow>
           bind_io (execute enc (StepKey ''run-1'' step) e (Inr (step @ '' reviewed'')) h2)
             (\<lambda>_ h3. phase_one_steps enc now steps h3)
       | _ \<Rightarrow> phase_one_steps enc now steps h2))"

definition phase_one ::
  "(log_record \<Rightarrow> string) \<Rightarrow> (string \<Rightarrow> log_record option) \<Rightarrow> u64 \<Rightarrow> string \<Rightarrow> host \<Rightarrow> (io_error + unit) \<times> host" where
  "phase_one enc dec now path =
     with_host dec path (phase_one_steps enc now [''architecture'', ''verification''])"

definition phase_two ::
  "(log_record \<Rightarrow> string) \<Rightarrow> (string \<Rightarrow> log_record option) \<Rightarrow> u64 \<Rightarrow> string \<Rightarrow> host
     \<Rightarrow> (io_error + admission list) \<times> host" where
  "phase_two enc dec now path = with_host dec path (\<lambda>h.
     bind_io (admit enc now (job_ref ''run-1'' ''architecture'') ''fp-1'' ''worker-b'' h) (\<lambda>a1 h1.
     bind_io (admit enc now (job_ref ''run-1'' ''verification'') ''fp-1'' ''worker-b'' h1) (\<lambda>a2 h2.
     bind_io (freeze enc ''run-1'' ''join'' ''fp-1'' None h2) (\<lambda>_ h3.
     bind_io (admit enc now (job_ref ''run-1'' ''join'') ''fp-1'' ''worker-b'' h3) (\<lambda>a3 h4.
       (Inr [a1, a2, a3], h4))))))"

definition phase_three ::
  "(log_record \<Rightarrow> string) \<Rightarrow> (string \<Rightarrow> log_record option) \<Rightarrow> u64 \<Rightarrow> string \<Rightarrow> host
     \<Rightarrow> (io_error + recovery) \<times> host" where
  "phase_three enc dec now path = with_host dec path (\<lambda>h.
     bind_io (freeze enc ''run-2'' ''claimed-only'' ''fp-2'' None h) (\<lambda>_ h1.
     bind_io (admit enc now (job_ref ''run-2'' ''claimed-only'') ''fp-2'' ''worker-c'' h1) (\<lambda>_ h2.
     bind_io (freeze enc ''run-2'' ''launched'' ''fp-2'' None h2) (\<lambda>_ h3.
     bind_io (admit enc now (job_ref ''run-2'' ''launched'') ''fp-2'' ''worker-c'' h3) (\<lambda>a h4.
     bind_io (case a of
                Run e \<Rightarrow> append_record enc (LaunchedRec (StepKey ''run-2'' ''launched'') e) h4
              | _ \<Rightarrow> (Inr (), h4)) (\<lambda>_ h5.
       recover_lost enc ''worker-d'' h5))))))"

end
