(* ===== verification/Durable_Host.thy ===== *)
theory Durable_Host
  imports Durable_Worker "HOL-Library.Multiset"
begin

text \<open>
  The durable host as a whole (\<^verbatim>\<open>examples/apalis-durable/src\<close>): any sequence of the operations its
  processes perform on one log, restarts included, and what holds of every such sequence. All
  operations change the host through \<open>append_record\<close> alone, and claim only steps that are open; the
  locale \<open>append_invariant\<close> turns a property kept by such appends into one kept by every operation.
\<close>

section \<open>Commands\<close>

text \<open>
  What a process does between two points where it could die: \<open>Do_launch\<close> is \<open>execute\<close> of a worker that dies
  while the provider runs, \<open>Do_restart\<close> the next process opening the log.
\<close>

datatype command =
    Do_freeze string string string "u64 option"
  | Do_admit u64 step_job_ref string string
  | Do_execute step_key epoch "string + string"
  | Do_launch step_key epoch
  | Do_recover string
  | Do_cancel string string
  | Do_reconcile step_key reconciliation string
  | Do_restart

fun run_command ::
  "(log_record \<Rightarrow> string) \<Rightarrow> (string \<Rightarrow> log_record option) \<Rightarrow> command \<Rightarrow> host \<Rightarrow> host" where
  "run_command enc dec (Do_freeze run step fp na) h = snd (freeze enc run step fp na h)"
| "run_command enc dec (Do_admit now job fp worker) h = snd (admit enc now job fp worker h)"
| "run_command enc dec (Do_execute k e provider) h = snd (execute enc k e provider h)"
| "run_command enc dec (Do_launch k e) h = snd (append_record enc (LaunchedRec k e) h)"
| "run_command enc dec (Do_recover worker) h = snd (recover_lost enc worker h)"
| "run_command enc dec (Do_cancel run reason) h = snd (append_record enc (CancelRequested run reason) h)"
| "run_command enc dec (Do_reconcile k d by_whom) h = snd (append_record enc (ReconciledRec k d by_whom) h)"
| "run_command enc dec Do_restart h =
     (case durable_open dec True (ds_path (h_store h)) (h_log h) of Inl _ \<Rightarrow> h | Inr s \<Rightarrow> h\<lparr>h_store := s\<rparr>)"

definition run_commands ::
  "(log_record \<Rightarrow> string) \<Rightarrow> (string \<Rightarrow> log_record option) \<Rightarrow> command list \<Rightarrow> host \<Rightarrow> host" where
  "run_commands enc dec cs h = foldl (\<lambda>h c. run_command enc dec c h) h cs"

text \<open>A step that may still be claimed.\<close>

definition open_step :: "step_view \<Rightarrow> bool" where
  "open_step v = (case vw_state v of Pending \<Rightarrow> True | Claimed _ \<Rightarrow> True | _ \<Rightarrow> False)"

text \<open>The appends the operations perform; \<open>A\<close> says which decisions on which step are recorded.\<close>

definition guarded :: "(step_key \<Rightarrow> reconciliation \<Rightarrow> bool) \<Rightarrow> durable_store \<Rightarrow> log_record \<Rightarrow> bool" where
  "guarded A s r = (case r of
       ClaimedRec k _ _ \<Rightarrow> (case view s k of Some v \<Rightarrow> open_step v | None \<Rightarrow> False)
     | ReconciledRec k d _ \<Rightarrow> A k d
     | _ \<Rightarrow> True)"

fun command_allowed :: "(step_key \<Rightarrow> reconciliation \<Rightarrow> bool) \<Rightarrow> command \<Rightarrow> bool" where
  "command_allowed A (Do_reconcile k d _) \<longleftrightarrow> A k d"
| "command_allowed A _ \<longleftrightarrow> True"

lemma command_allowed_True [simp]: "command_allowed (\<lambda>_ _. True) c"
  by (cases c) simp_all

lemma guarded_simps [simp]:
  "guarded A s (FrozenRec k a b c na)" "guarded A s (LaunchedRec k e)" "guarded A s (SettledRec k e t)"
  "guarded A s (UncertainRec k e w)" "guarded A s (CancelRequested run w)"
  "guarded A s (ReconciledRec k d who) \<longleftrightarrow> A k d"
  "guarded A s (ClaimedRec k e w) \<longleftrightarrow> (case view s k of Some v \<Rightarrow> open_step v | None \<Rightarrow> False)"
  by (simp_all add: guarded_def)

lemma view_after_append:
  "append_record enc r h = (Inr u, h') \<Longrightarrow> store_wf (h_store h) \<Longrightarrow>
     view (h_store h') k = key_effect k r (view (h_store h) k)"
  by (erule append_record_cases) (simp_all add: view_apply)

lemma admit_cases:
  assumes "admit enc now job fp worker h = (res, h')"
  obtains (same) a where "h' = h" and "res = Inr a" and "\<forall>e. a \<noteq> Run e"
  | (claimed) v u where "view (h_store h) (job_key job) = Some v" and "open_step v" and "vw_fingerprint v = fp"
      and "run_cancelled (h_store h) (jr_run_id job) = None" and "jr_schema_version job = job_ref_schema_version"
      and "reconstruct_deadline now (vw_not_after v) \<noteq> Expired"
      and "append_record enc (ClaimedRec (job_key job) (vw_highest_epoch v + 1) worker) h = (u, h')"
      and "res = map_sum id (\<lambda>_. Run (vw_highest_epoch v + 1)) u"
  using assms
  by (auto simp: admit_def open_step_def Let_def
      split: if_splits option.splits step_state.splits deadline_decision.splits prod.splits sum.splits)

lemma lost_steps_views:
  assumes "store_wf s"
  shows "\<forall>(k, st) \<in> set (lost_steps s). \<exists>v. view s k = Some v \<and> vw_state v = st"
proof -
  have "map_of (ds_steps s) k = Some v" if "(k, v) \<in> set (ds_steps s)" for k v
    using that assms by (simp add: store_wf_def bt_wf_distinct)
  then show ?thesis by (auto simp: lost_steps_def view_def)
qed

lemma lost_steps_distinct: "store_wf s \<Longrightarrow> distinct (map fst (lost_steps s))"
  using bt_wf_distinct [of "ds_steps s"]
  by (auto simp: lost_steps_def store_wf_def comp_def case_prod_unfold distinct_map_filter)

section \<open>Invariants of the appends\<close>

locale append_invariant =
  fixes enc :: "log_record \<Rightarrow> string"
    and I :: "host \<Rightarrow> bool"
    and A :: "step_key \<Rightarrow> reconciliation \<Rightarrow> bool"
  assumes wf: "I h \<Longrightarrow> store_wf (h_store h)"
    and append: "I h \<Longrightarrow> guarded A (h_store h) r \<Longrightarrow> append_record enc r h = (res, h') \<Longrightarrow> I h'"
begin

lemma append_snd: "I h \<Longrightarrow> guarded A (h_store h) r \<Longrightarrow> I (snd (append_record enc r h))"
  by (metis append prod.collapse)

lemma admit: "I h \<Longrightarrow> admit enc now job fp worker h = (res, h') \<Longrightarrow> I h'"
  by (erule admit_cases) (auto elim: append [rotated 2])

lemma execute: "I h \<Longrightarrow> I (snd (execute enc k e provider h))"
  using append_snd [of h "LaunchedRec k e"]
    append_snd [of "snd (append_record enc (LaunchedRec k e) h)" "SettledRec k e (terminal_of provider)"]
  by (cases "append_record enc (LaunchedRec k e) h";
      cases "append_record enc (SettledRec k e (terminal_of provider)) (snd (append_record enc (LaunchedRec k e) h))")
    (simp add: execute_def Let_def split: sum.splits)

lemma recover_each:
  assumes "I h" and "\<forall>(k, st) \<in> set lost. \<exists>v. view (h_store h) k = Some v \<and> vw_state v = st"
    and "distinct (map fst lost)"
  shows "I (snd (recover_each enc worker lost rv h))"
  using assms
proof (induction lost arbitrary: rv h)
  case (Cons p rest)
  obtain k st where p: "p = (k, st)" by fastforce
  obtain v where v: "view (h_store h) k = Some v" "vw_state v = st" using Cons.prems(2) p by auto
  have step: "I (snd (recover_each enc worker rest rv' h'))"
    if "append_record enc r h = (Inr u, h')" and "\<forall>k'. k' \<noteq> k \<longrightarrow> (\<forall>w. key_effect k' r w = w)"
      and "guarded A (h_store h) r" for r u h' rv'
  proof -
    have "I h'" using append [OF Cons.prems(1) that(3,1)] .
    moreover have "view (h_store h') k' = view (h_store h) k'" if "k' \<noteq> k" for k'
      using view_after_append [OF _ wf [OF Cons.prems(1)]] \<open>append_record enc r h = (Inr u, h')\<close>
        \<open>\<forall>k'. k' \<noteq> k \<longrightarrow> (\<forall>w. key_effect k' r w = w)\<close> that by metis
    ultimately show ?thesis
      using Cons.prems(2,3) p by (intro Cons.IH) (fastforce simp: image_iff)+
  qed
  have stop: "I h'" if "append_record enc r h = (res, h')" and "guarded A (h_store h) r" for r res h'
    using append [OF Cons.prems(1)] that by blast
  show ?case
  proof (cases st)
    case (Claimed e)
    have "guarded A (h_store h) (ClaimedRec k (e + 1) worker)"
      using v Claimed by (simp add: open_step_def)
    then show ?thesis
      using step [of "ClaimedRec k (e + 1) worker"] stop [of "ClaimedRec k (e + 1) worker"] Claimed p
      by (simp split: prod.split sum.split)
  next
    case (Launched e)
    then show ?thesis
      using step [of "UncertainRec k e lost_reason"] stop [of "UncertainRec k e lost_reason"] p
      by (simp split: prod.split sum.split)
  next
    case Pending
    then show ?thesis using Cons.IH [OF Cons.prems(1)] Cons.prems(2,3) p by simp
  next
    case (Settled t)
    then show ?thesis using Cons.IH [OF Cons.prems(1)] Cons.prems(2,3) p by simp
  next
    case (Uncertain e why)
    then show ?thesis using Cons.IH [OF Cons.prems(1)] Cons.prems(2,3) p by simp
  qed
qed simp

lemma recover_lost: "I h \<Longrightarrow> I (snd (recover_lost enc worker h))"
  using wf [of h] unfolding recover_lost_def by (intro recover_each lost_steps_views lost_steps_distinct)

lemma command:
  "I h \<Longrightarrow> command_allowed A c \<Longrightarrow> c \<noteq> Do_restart \<Longrightarrow> I (run_command enc dec c h)"
  by (cases c) (auto simp: freeze_def intro: append_snd execute recover_lost admit [OF _ prod.collapse [symmetric]])

end

section \<open>The invariants of the host\<close>

text \<open>Without failing writes the log stays the text of the acknowledged records and the store their fold.\<close>

definition settled_log :: "(log_record \<Rightarrow> string) \<Rightarrow> host \<Rightarrow> bool" where
  "settled_log enc h \<longleftrightarrow> consistent enc h \<and> h_writes h = []"

interpretation sound: append_invariant enc "settled_log enc" "\<lambda>_ _. True" for enc
proof
  fix h r res h'
  show "settled_log enc h \<Longrightarrow> store_wf (h_store h)"
    by (auto simp: settled_log_def intro: consistent_wf)
  assume "settled_log enc h" and a: "append_record enc r h = (res, h')"
  then show "settled_log enc h'"
    by (cases rule: append_record_cases [OF a]) (auto simp: settled_log_def consistent_def)
qed

text \<open>Acknowledged records are never taken back.\<close>

definition extends_records :: "log_record list \<Rightarrow> host \<Rightarrow> bool" where
  "extends_records rs h \<longleftrightarrow> store_wf (h_store h) \<and> (\<exists>xs. h_records h = rs @ xs)"

interpretation kept: append_invariant enc "extends_records rs" "\<lambda>_ _. True" for enc rs
proof
  fix h r res h'
  show "extends_records rs h \<Longrightarrow> store_wf (h_store h)" by (simp add: extends_records_def)
  assume "extends_records rs h" and a: "append_record enc r h = (res, h')"
  then show "extends_records rs h'"
    by (cases rule: append_record_cases [OF a]) (auto simp: extends_records_def store_wf_apply)
qed

text \<open>The fence only rises.\<close>

definition fenced_at :: "step_key \<Rightarrow> epoch \<Rightarrow> host \<Rightarrow> bool" where
  "fenced_at k e h \<longleftrightarrow> store_wf (h_store h) \<and> (\<exists>v. view (h_store h) k = Some v \<and> e \<le> vw_highest_epoch v)"

lemma fence_rises: "\<exists>v'. key_effect k r (Some v) = Some v' \<and> vw_highest_epoch v \<le> vw_highest_epoch v'"
  by (cases r) (auto simp: view_defs)

interpretation fence: append_invariant enc "fenced_at k e" "\<lambda>_ _. True" for enc k e
proof
  fix h r res h'
  show "fenced_at k e h \<Longrightarrow> store_wf (h_store h)" by (simp add: fenced_at_def)
  assume I: "fenced_at k e h" and a: "append_record enc r h = (res, h')"
  show "fenced_at k e h'"
  proof (cases rule: append_record_cases [OF a])
    case 1
    obtain v where v: "view (h_store h) k = Some v" "e \<le> vw_highest_epoch v" "store_wf (h_store h)"
      using I by (auto simp: fenced_at_def)
    obtain v' where "key_effect k r (Some v) = Some v'" "vw_highest_epoch v \<le> vw_highest_epoch v'"
      using fence_rises by blast
    with v 1 show ?thesis by (auto simp: fenced_at_def view_apply store_wf_apply)
  qed (use I in \<open>simp add: fenced_at_def\<close>)
qed

text \<open>
  A step that was launched, is uncertain or settled leaves that region only by a recorded decision; a
  settled one keeps the very view it has.
\<close>

definition past_store :: "step_key \<Rightarrow> step_view option \<Rightarrow> durable_store \<Rightarrow> bool" where
  "past_store k w s \<longleftrightarrow> store_wf s \<and> (\<exists>v. view s k = Some v \<and> \<not> open_step v
     \<and> (case w of None \<Rightarrow> True | Some x \<Rightarrow> v = x \<and> is_terminal x))"

lemma closed_step_stays: "\<not> open_step v \<Longrightarrow> \<not> reopens k r \<Longrightarrow> \<exists>v'. key_effect k r (Some v) = Some v' \<and> \<not> open_step v'"
  by (cases r) (auto simp: view_defs open_step_def is_terminal_def split: step_state.splits)

lemma past_store_apply:
  assumes "past_store k w s" and "\<not> reopens k r"
  shows "past_store k w (apply_record s r)"
proof -
  obtain v where v: "store_wf s" "view s k = Some v" "\<not> open_step v" "case w of None \<Rightarrow> True | Some x \<Rightarrow> v = x \<and> is_terminal x"
    using assms(1) by (auto simp: past_store_def)
  obtain v' where v': "key_effect k r (Some v) = Some v'" "\<not> open_step v'"
    using closed_step_stays [OF v(3) assms(2)] by blast
  have "\<not> reconciles k r" using assms(2) by (cases r) simp_all
  then have "is_terminal v \<Longrightarrow> v' = v" using terminal_absorbs [of v k r] v'(1) by simp
  with v v' show ?thesis
    by (auto simp: past_store_def view_apply store_wf_apply split: option.splits)
qed

lemma past_store_guarded:
  "past_store k w s \<Longrightarrow> guarded (\<lambda>k' _. k' \<noteq> k) s r \<Longrightarrow> \<not> reopens k r"
  by (cases r) (auto simp: past_store_def)

text \<open>
  The same of the log: the part \<open>base\<close> before some point says it, and what was written after it, by appends
  that succeeded and by appends that failed, is pieces of records that do not reopen the step.
\<close>

definition lasting ::
  "(log_record \<Rightarrow> string) \<Rightarrow> (string \<Rightarrow> log_record option) \<Rightarrow> step_key \<Rightarrow> step_view option \<Rightarrow> string \<Rightarrow> host \<Rightarrow> bool" where
  "lasting enc dec k w base h \<longleftrightarrow> past_store k w (h_store h) \<and> (base = [] \<or> List.last base = newline)
     \<and> (\<exists>s. durable_open dec True (ds_path (h_store h)) base = Inr s \<and> past_store k w s)
     \<and> (\<exists>u. h_log h = base @ u \<and> piecewise (reopens k) enc u)"

interpretation past: append_invariant enc "lasting enc dec k w base" "\<lambda>k' _. k' \<noteq> k" for enc dec k w base
proof
  fix h r res h'
  show "lasting enc dec k w base h \<Longrightarrow> store_wf (h_store h)" by (simp add: lasting_def past_store_def)
  assume I: "lasting enc dec k w base h" and g: "guarded (\<lambda>k' _. k' \<noteq> k) (h_store h) r" and a: "append_record enc r h = (res, h')"
  then have r: "\<not> reopens k r" using past_store_guarded unfolding lasting_def by blast
  obtain u where u: "h_log h = base @ u" "piecewise (reopens k) enc u" using I by (auto simp: lasting_def)
  show "lasting enc dec k w base h'"
  proof (cases rule: append_record_cases [OF a])
    case 1
    then show ?thesis
      using I u past_store_apply [OF _ r] piecewise_append_line [of "reopens k" enc u r] r by (auto simp: lasting_def)
  next
    case (2 n)
    then show ?thesis
      using I u piecewise_append [of "reopens k" enc u r n] r by (auto simp: lasting_def)
  qed
qed

lemma lasting_open:
  assumes apart: "reads_apart (reopens k) enc dec" and h: "lasting enc dec k w base h"
    and opens: "durable_open dec True (ds_path (h_store h)) (h_log h) = Inr s"
  shows "past_store k w s \<and> ds_path s = ds_path (h_store h)"
proof -
  obtain s0 u where s0: "durable_open dec True (ds_path (h_store h)) base = Inr s0" "past_store k w s0"
    "base = [] \<or> List.last base = newline" and u: "h_log h = base @ u" "piecewise (reopens k) enc u"
    using h by (auto simp: lasting_def)
  have "replay_lines dec (read_lines u) s0 = Inr s"
    using opens open_append [OF s0(3), of dec "ds_path (h_store h)" u] by (simp add: u(1) s0(1))
  moreover have "\<forall>l \<in> set (read_lines u). \<forall>r. dec l = Some r \<longrightarrow> \<not> reopens k r"
    using piecewise_reads [OF apart u(2)] by blast
  ultimately have "past_store k w s"
    using s0(2) past_store_apply by (elim replay_lines_kept [where Q = "past_store k w" and P = "reopens k"]) blast+
  then show ?thesis using open_path_wf [OF opens] by simp
qed

lemma lasting_restart:
  assumes "reads_apart (reopens k) enc dec" and "lasting enc dec k w base h"
  shows "lasting enc dec k w base (run_command enc dec Do_restart h)"
proof (cases "durable_open dec True (ds_path (h_store h)) (h_log h)")
  case (Inr s)
  have "past_store k w s" "ds_path s = ds_path (h_store h)" using lasting_open [OF assms Inr] by simp_all
  then show ?thesis using assms(2) by (simp add: Inr lasting_def)
qed (use assms(2) in simp)

lemma clean_lasting: "clean dec h \<Longrightarrow> past_store k w (h_store h) \<Longrightarrow> lasting enc dec k w (h_log h) h"
  by (simp add: lasting_def clean_def exI [of _ "[]"])

section \<open>Sequences of commands\<close>

lemma restart_identity:
  "settled_log enc h \<Longrightarrow> codec_for enc dec (h_records h) \<Longrightarrow> run_command enc dec Do_restart h = h"
  by (auto simp: settled_log_def consistent_open)

lemma run_commands_simps [simp]:
  "run_commands enc dec [] h = h"
  "run_commands enc dec (c # cs) h = run_commands enc dec cs (run_command enc dec c h)"
  by (simp_all add: run_commands_def)

lemma restart_records [simp]: "h_records (run_command enc dec Do_restart h) = h_records h"
  by (simp split: sum.split)

lemma restart_wf: "store_wf (h_store h) \<Longrightarrow> store_wf (h_store (run_command enc dec Do_restart h))"
proof -
  have "replay_lines dec ls s = Inr s' \<Longrightarrow> store_wf s \<Longrightarrow> store_wf s'" for ls s s'
    by (induction ls arbitrary: s) (auto simp: store_wf_apply split: if_splits option.splits)
  then show "store_wf (h_store h) \<Longrightarrow> ?thesis"
    by (auto simp: durable_open_def split: sum.split if_splits)
qed

lemma command_records: "store_wf (h_store h) \<Longrightarrow> extends_records (h_records h) (run_command enc dec c h)"
proof (cases "c = Do_restart")
  case True
  assume "store_wf (h_store h)"
  then show ?thesis using restart_wf restart_records by (simp add: extends_records_def True del: run_command.simps)
next
  case False
  assume "store_wf (h_store h)"
  then show ?thesis
    using kept.command [of "h_records h" h c] False by (simp add: extends_records_def)
qed

lemma commands_records: "store_wf (h_store h) \<Longrightarrow> \<exists>xs. h_records (run_commands enc dec cs h) = h_records h @ xs"
proof (induction cs arbitrary: h)
  case (Cons c cs)
  have "store_wf (h_store (run_command enc dec c h))" "\<exists>xs. h_records (run_command enc dec c h) = h_records h @ xs"
    using command_records [OF Cons.prems] by (simp_all add: extends_records_def)
  with Cons.IH [of "run_command enc dec c h"] show ?case by auto
qed simp

context append_invariant
begin

text \<open>A restart replays what was written, so invariants of the appends hold after any sequence of commands.\<close>

lemma commands:
  assumes "I h" and "settled_log enc h" and "\<forall>c \<in> set cs. command_allowed A c"
    and "codec_for enc dec (h_records (run_commands enc dec cs h))"
  shows "I (run_commands enc dec cs h) \<and> settled_log enc (run_commands enc dec cs h)"
  using assms
proof (induction cs arbitrary: h)
  case (Cons c cs)
  let ?h = "run_command enc dec c h"
  obtain xs where xs: "h_records (run_commands enc dec (c # cs) h) = h_records h @ xs"
    using commands_records [of h enc dec "c # cs"] wf [OF Cons.prems(1)] by blast
  have codec: "codec_for enc dec (h_records h)"
    using Cons.prems(4) unfolding xs by simp
  have "I ?h \<and> settled_log enc ?h"
  proof (cases "c = Do_restart")
    case True
    then show ?thesis
      using restart_identity [OF Cons.prems(2) codec] Cons.prems(1,2) by simp
  next
    case False
    then show ?thesis
      using command [OF Cons.prems(1), of c dec] sound.command [OF Cons.prems(2), of c dec] Cons.prems(3)
      by (cases c) simp_all
  qed
  then show ?case using Cons by simp
qed simp

text \<open>An invariant that a restart keeps, whatever the log has become, needs nothing of the writes.\<close>

lemma commands_restarting:
  assumes "I h" and "\<forall>c \<in> set cs. command_allowed A c" and "\<And>h. I h \<Longrightarrow> I (run_command enc dec Do_restart h)"
  shows "I (run_commands enc dec cs h)"
  using assms(1,2)
proof (induction cs arbitrary: h)
  case (Cons c cs)
  have "I (run_command enc dec c h)"
    using Cons.prems assms(3) [of h] command [of h c dec] by (cases "c = Do_restart") simp_all
  with Cons show ?case by simp
qed simp

end

section \<open>Properties of the host\<close>

lemma claim_open_view:
  assumes "open_step v" and "vw_highest_epoch v < e"
  shows "claim_view e v = v\<lparr>vw_highest_epoch := e, vw_state := Claimed e\<rparr>"
  using assms by (auto simp: claim_view_def is_terminal_def open_step_def split: step_state.splits)

text \<open>When a delivery is to run.\<close>

definition runnable :: "u64 \<Rightarrow> step_job_ref \<Rightarrow> string \<Rightarrow> durable_store \<Rightarrow> step_view \<Rightarrow> bool" where
  "runnable now job fp s v \<longleftrightarrow> jr_schema_version job = 1 \<and> run_cancelled s (jr_run_id job) = None
     \<and> view s (job_key job) = Some v \<and> vw_fingerprint v = fp \<and> open_step v
     \<and> (\<forall>t. vw_not_after v = Some t \<longrightarrow> now < t)"

lemma not_expired: "reconstruct_deadline now d \<noteq> Expired \<longleftrightarrow> (\<forall>t. d = Some t \<longrightarrow> now < t)"
  by (auto simp: reconstruct_deadline_def not_le split: option.splits)

lemma admit_runs:
  assumes "runnable now job fp (h_store h) v"
    and "append_record enc (ClaimedRec (job_key job) (vw_highest_epoch v + 1) worker) h = (u, h')"
  shows "admit enc now job fp worker h = (map_sum id (\<lambda>_. Run (vw_highest_epoch v + 1)) u, h')"
proof -
  have "reconstruct_deadline now (vw_not_after v) \<noteq> Expired"
    using assms(1) by (simp add: runnable_def not_expired)
  then show ?thesis
    using assms
    by (auto simp: admit_def runnable_def job_ref_schema_version_def open_step_def Let_def
        split: step_state.splits deadline_decision.splits sum.splits)
qed

lemma admit_skips:
  assumes "\<forall>v. \<not> runnable now job fp (h_store h) v"
  obtains a where "admit enc now job fp worker h = (Inr a, h)" and "\<forall>e. a \<noteq> Run e"
proof -
  obtain res h' where Pair: "admit enc now job fp worker h = (res, h')" by fastforce
  show ?thesis
  proof (cases rule: admit_cases [OF Pair])
    case (1 a)
    then show ?thesis using Pair that by blast
  next
    case (2 v u)
    then show ?thesis
      using assms by (auto simp: runnable_def job_ref_schema_version_def not_expired)
  qed
qed

lemma execute_written:
  "h_writes h = [] \<Longrightarrow> execute enc k e provider h =
     (Inr (terminal_of provider), append_written enc [LaunchedRec k e, SettledRec k e (terminal_of provider)] h)"
  by (simp add: execute_def append_written_def append_record_def Let_def)

lemma view_append_written:
  "h_writes h = [] \<Longrightarrow> store_wf (h_store h) \<Longrightarrow>
     view (h_store (append_written enc rs h)) k = foldl (\<lambda>v r. key_effect k r v) (view (h_store h) k) rs"
  using append_written_state [of h enc rs] by (simp add: view_replay)

lemma undecided_allowed:
  assumes "\<forall>d who. Do_reconcile k d who \<notin> set cs"
  shows "\<forall>c \<in> set cs. command_allowed (\<lambda>k' _. k' \<noteq> k) c"
proof
  fix c
  assume "c \<in> set cs"
  with assms have "\<forall>d who. c \<noteq> Do_reconcile k d who" by blast
  then show "command_allowed (\<lambda>k' _. k' \<noteq> k) c" by (cases c) auto
qed

lemma settled_log_wf: "settled_log enc h \<Longrightarrow> store_wf (h_store h)"
  by (rule sound.wf)

text \<open>Admission is exact. A delivered reference runs precisely when its schema is the current one, its run is
  not cancelled, the step is frozen with the delivered fingerprint, has neither been launched, settled
  nor left uncertain, its persisted deadline lies ahead, and the claim was written; it then runs under
  the next epoch, which is above every epoch the step was claimed under, and the step is claimed under it.
  Every other delivery leaves the store as it was, and without a failed write the log too.\<close>

theorem admit_decides:
  assumes wf: "store_wf (h_store h)" and run: "admit enc now job fp worker h = (res, h')"
    and room: "\<forall>v. view (h_store h) (job_key job) = Some v \<longrightarrow> vw_highest_epoch v \<noteq> - 1"
  shows "(\<forall>e. res = Inr (Run e) \<longleftrightarrow>
            (\<exists>v. jr_schema_version job = 1 \<and> run_cancelled (h_store h) (jr_run_id job) = None
               \<and> view (h_store h) (job_key job) = Some v \<and> vw_fingerprint v = fp \<and> open_step v
               \<and> (\<forall>t. vw_not_after v = Some t \<longrightarrow> now < t)
               \<and> (\<forall>n ws. h_writes h \<noteq> Failed_after n # ws)
               \<and> e = vw_highest_epoch v + 1 \<and> vw_highest_epoch v < e
               \<and> view (h_store h') (job_key job) = Some (v\<lparr>vw_highest_epoch := e, vw_state := Claimed e\<rparr>)))
    \<and> ((\<forall>e. res \<noteq> Inr (Run e)) \<longrightarrow> h_store h' = h_store h \<and> (res \<noteq> Inl Os_error \<longrightarrow> h' = h))"
proof (cases "\<exists>v. runnable now job fp (h_store h) v")
  case False
  then obtain a where "admit enc now job fp worker h = (Inr a, h)" and "\<forall>e. a \<noteq> Run e"
    using admit_skips by blast
  then have "res = Inr a" "h' = h" "\<forall>e. a \<noteq> Run e" using run by simp_all
  then show ?thesis
    using False by (auto simp: runnable_def)
next
  case True
  then obtain v where v: "runnable now job fp (h_store h) v" by blast
  let ?e = "vw_highest_epoch v + 1"
  obtain u h1 where a: "append_record enc (ClaimedRec (job_key job) ?e worker) h = (u, h1)" by fastforce
  have res: "res = map_sum id (\<lambda>_. Run ?e) u" "h' = h1"
    using admit_runs [OF v a] run by simp_all
  have up: "vw_highest_epoch v < ?e"
    using room v by (intro u64_succ_less) (auto simp: runnable_def)
  show ?thesis
  proof (cases rule: append_record_cases [OF a])
    case 1
    then have "view (h_store h') (job_key job) = Some (v\<lparr>vw_highest_epoch := ?e, vw_state := Claimed ?e\<rparr>)"
      using v up by (simp add: res(2) view_apply [OF wf] runnable_def claim_open_view del: apply_record.simps)
    then show ?thesis
      using 1 v up a by (auto simp: res(1) runnable_def append_record_def split: list.splits write_io.splits)
  next
    case 2
    then show ?thesis
      using v by (auto simp: res runnable_def)
  qed
qed

text \<open>C30: commit before acknowledgement, with writes that may fail. Take a host whose store is what its log says and
  whose log ends at the end of a line (not in a torn tail, see the record that is lost there). When an
  admitted step is executed and \<open>execute\<close> returns a result, it is the provider's, and from then on it is
  the step's answer, short of a recorded decision on that very step: in the memory of this process and of
  the later ones, and in every store that the log ever opens to, whatever they do, wherever their writes
  fail or are torn, and however often they restart. A redelivery never runs the step again, and finds the
  answer recorded unless its run was cancelled in between. While no write fails, the log opens to the very
  store in memory.\<close>

theorem commit_before_ack:
  assumes host: "clean dec h" and admitted: "admit enc now job fp worker h = (Inr (Run e), h1)"
    and room: "e \<noteq> 0" and executed: "execute enc (job_key job) e provider h1 = (Inr result, h2)"
    and codec: "codec_for enc dec [ClaimedRec (job_key job) e worker, LaunchedRec (job_key job) e,
      SettledRec (job_key job) e (terminal_of provider)]"
    and later: "h3 = run_commands enc dec cs h2"
    and undecided: "\<forall>d who. Do_reconcile (job_key job) d who \<notin> set cs"
    and apart: "reads_apart (reopens (job_key job)) enc dec"
  shows "result = terminal_of provider
    \<and> answer_of (view (h_store h3) (job_key job)) = Some result
    \<and> (\<forall>s. durable_open dec True (ds_path (h_store h3)) (h_log h3) = Inr s \<longrightarrow>
          answer_of (view s (job_key job)) = Some result)
    \<and> (\<forall>now' worker'. admit enc now' job fp worker' h3 =
          (Inr (case run_cancelled (h_store h3) (jr_run_id job) of
                  None \<Rightarrow> AlreadySettled | Some why \<Rightarrow> Refused (''run cancelled: '' @ why)), h3))
    \<and> (settled_log enc h \<and> codec_for enc dec (h_records h3) \<longrightarrow>
          durable_open dec True (ds_path (h_store h3)) (h_log h3) = Inr (h_store h3))"
proof -
  let ?k = "job_key job" and ?t = "terminal_of provider"
  obtain v where v: "view (h_store h) ?k = Some v" "open_step v" "vw_fingerprint v = fp"
      "jr_schema_version job = job_ref_schema_version" "e = vw_highest_epoch v + 1"
      and a: "append_record enc (ClaimedRec ?k e worker) h = (Inr (), h1)"
    using admitted by (cases rule: admit_cases) (auto simp: map_sum_def split: sum.splits)
  obtain hl where b: "append_record enc (LaunchedRec ?k e) h1 = (Inr (), hl)"
      and c: "append_record enc (SettledRec ?k e ?t) hl = (Inr (), h2)" and result: "result = ?t"
    using executed by (auto simp: execute_def Let_def split: prod.splits sum.splits)
  have h1: "clean dec h1" by (rule clean_append [OF host a]) (use codec in \<open>simp add: codec_for_def\<close>)
  have hl: "clean dec hl" by (rule clean_append [OF h1 b]) (use codec in \<open>simp add: codec_for_def\<close>)
  have h2: "clean dec h2" by (rule clean_append [OF hl c]) (use codec in \<open>simp add: codec_for_def\<close>)
  have "vw_highest_epoch v < e"
    unfolding v(5) using room v(5) by (intro u64_succ_less) auto
  then have view1: "view (h_store h1) ?k = Some (v\<lparr>vw_highest_epoch := e, vw_state := Claimed e\<rparr>)"
    using view_after_append [OF a clean_wf [OF host]] v(1,2) by (simp add: claim_open_view)
  let ?w = "v\<lparr>vw_highest_epoch := e, vw_state := Settled ?t\<rparr>"
  have view2: "view (h_store h2) ?k = Some ?w"
    using view_after_append [OF c clean_wf [OF hl], of ?k] view_after_append [OF b clean_wf [OF h1], of ?k]
    by (simp add: view1 launch_view_def settle_view_def is_terminal_def)
  then have "past_store ?k (Some ?w) (h_store h2)"
    using clean_wf [OF h2] by (simp add: past_store_def open_step_def is_terminal_def)
  from clean_lasting [OF h2 this] have "lasting enc dec ?k (Some ?w) (h_log h2) h2" .
  then have h3: "lasting enc dec ?k (Some ?w) (h_log h2) h3"
    unfolding later by (rule past.commands_restarting [OF _ undecided_allowed [OF undecided] lasting_restart [OF apart]])
  have kept: "view s ?k = Some ?w" if "past_store ?k (Some ?w) s" for s
    using that by (auto simp: past_store_def)
  have v3: "view (h_store h3) ?k = Some ?w" using h3 kept by (simp add: lasting_def)
  have opened: "answer_of (view s ?k) = Some ?t" if "durable_open dec True (ds_path (h_store h3)) (h_log h3) = Inr s" for s
    using lasting_open [OF apart h3 that] kept by (simp add: answer_of_def)
  have "durable_open dec True (ds_path (h_store h3)) (h_log h3) = Inr (h_store h3)"
    if "settled_log enc h" and written: "codec_for enc dec (h_records h3)"
  proof -
    have "settled_log enc h2"
      using sound.append [OF sound.append [OF sound.append [OF that(1) _ a] _ b] _ c] v by simp
    then have "settled_log enc h3"
      using sound.commands [of enc h2 cs dec] written by (simp add: later)
    then show ?thesis by (intro consistent_open [of enc]) (simp_all add: settled_log_def written)
  qed
  then show ?thesis
    using v3 v(3,4) result opened by (auto simp: answer_of_def admit_def split: option.split)
qed

section \<open>Calls of the provider\<close>

text \<open>
  The call a command makes: \<open>execute\<close> awaits the provider once its \<open>Launched\<close> record is written, also when
  the worker dies before it settles.
\<close>

fun provider_call :: "(log_record \<Rightarrow> string) \<Rightarrow> command \<Rightarrow> host \<Rightarrow> (step_key \<times> epoch) list" where
  "provider_call enc (Do_execute k e _) h = (if is_ok (fst (append_record enc (LaunchedRec k e) h)) then [(k, e)] else [])"
| "provider_call enc (Do_launch k e) h = (if is_ok (fst (append_record enc (LaunchedRec k e) h)) then [(k, e)] else [])"
| "provider_call enc _ h = []"

fun provider_calls ::
  "(log_record \<Rightarrow> string) \<Rightarrow> (string \<Rightarrow> log_record option) \<Rightarrow> command list \<Rightarrow> host \<Rightarrow> (step_key \<times> epoch) list" where
  "provider_calls enc dec [] h = []"
| "provider_calls enc dec (c # cs) h = provider_call enc c h @ provider_calls enc dec cs (run_command enc dec c h)"

text \<open>
  How workers use the store: a step is executed under a claim only by the worker that was handed it, by
  \<open>admit\<close> or by the sweep of \<open>recover_lost\<close>, and once. \<open>claims\<close> are the ones handed out and not used yet.
\<close>

fun handed_out :: "(log_record \<Rightarrow> string) \<Rightarrow> command \<Rightarrow> host \<Rightarrow> (step_key \<times> epoch) list" where
  "handed_out enc (Do_admit now job fp worker) h =
     (case fst (admit enc now job fp worker h) of Inr (Run e) \<Rightarrow> [(job_key job, e)] | _ \<Rightarrow> [])"
| "handed_out enc (Do_recover worker) h =
     (case fst (recover_lost enc worker h) of Inr rv \<Rightarrow> rv_refenced rv | Inl _ \<Rightarrow> [])"
| "handed_out enc _ h = []"

fun uses_claim :: "command \<Rightarrow> (step_key \<times> epoch) option" where
  "uses_claim (Do_execute k e _) = Some (k, e)"
| "uses_claim (Do_launch k e) = Some (k, e)"
| "uses_claim _ = None"

fun disciplined ::
  "(log_record \<Rightarrow> string) \<Rightarrow> (string \<Rightarrow> log_record option) \<Rightarrow> (step_key \<times> epoch) list \<Rightarrow> command list \<Rightarrow> host \<Rightarrow> bool" where
  "disciplined enc dec claims [] h \<longleftrightarrow> True"
| "disciplined enc dec claims (c # cs) h \<longleftrightarrow>
     (case uses_claim c of
        Some g \<Rightarrow> g \<in> set claims \<and> disciplined enc dec (remove1 g claims) cs (run_command enc dec c h)
      | None \<Rightarrow> disciplined enc dec (claims @ handed_out enc c h) cs (run_command enc dec c h))"

lemma recover_refenced:
  "recover_each enc worker lost rv h = (Inr rv', h') \<Longrightarrow> (k, e) \<in> set (rv_refenced rv') \<Longrightarrow>
     (k, e) \<in> set (rv_refenced rv) \<or> (\<exists>e'. (k, Claimed e') \<in> set lost)"
proof (induction lost arbitrary: rv h)
  case (Cons p lost)
  obtain k' st where p: "p = (k', st)" by fastforce
  from Cons show ?case
    by (cases st) (fastforce simp: p split: prod.splits sum.splits)+
qed simp

lemma closed_not_handed_out:
  assumes "past_store k w (h_store h)"
  shows "(k, e) \<notin> set (handed_out enc c h)"
proof (cases c)
  case (Do_admit now job fp worker)
  obtain res h' where a: "admit enc now job fp worker h = (res, h')" by fastforce
  have "\<not> (res = Inr (Run e) \<and> job_key job = k)"
    using assms by (cases rule: admit_cases [OF a]) (auto simp: past_store_def)
  then show ?thesis using a by (auto simp: Do_admit split: sum.splits admission.splits)
next
  case (Do_recover worker)
  have wf: "store_wf (h_store h)" using assms by (simp add: past_store_def)
  have "(k, Claimed e') \<notin> set (lost_steps (h_store h))" for e'
    using lost_steps_views [OF wf] assms by (auto simp: past_store_def open_step_def)
  moreover obtain res h' where r: "recover_lost enc worker h = (res, h')" by fastforce
  ultimately have "(k, e) \<notin> set (rv_refenced rv)" if "res = Inr rv" for rv
    using that recover_refenced [of enc worker "lost_steps (h_store h)" "\<lparr>rv_refenced = [], rv_uncertain = []\<rparr>" h rv h' k e]
    by (auto simp: recover_lost_def)
  then show ?thesis by (simp add: Do_recover r split: sum.split)
qed simp_all

lemma provider_call_uses:
  "provider_call enc c h = [] \<or> (\<exists>g. uses_claim c = Some g \<and> provider_call enc c h = [g])"
  by (cases c) simp_all

lemma disciplined_calls:
  assumes apart: "reads_apart (reopens k) enc dec" and "lasting enc dec k w base h"
    and "\<forall>c \<in> set cs. command_allowed (\<lambda>k' _. k' \<noteq> k) c" and "disciplined enc dec claims cs h"
  shows "mset (filter (\<lambda>g. fst g = k) (provider_calls enc dec cs h)) \<subseteq># mset (filter (\<lambda>g. fst g = k) claims)"
  using assms(2-)
proof (induction cs arbitrary: h claims)
  case (Cons c cs)
  let ?P = "\<lambda>g :: step_key \<times> epoch. fst g = k"
  let ?h = "run_command enc dec c h"
  have next_: "lasting enc dec k w base ?h"
    using Cons.prems(1,2) past.command [of enc dec k w base h c dec] lasting_restart [OF apart Cons.prems(1)]
    by (cases "c = Do_restart") simp_all
  show ?case
  proof (cases "uses_claim c")
    case None
    then have "provider_call enc c h = []" using provider_call_uses [of enc c h] by auto
    moreover have "filter ?P (handed_out enc c h) = []"
      using closed_not_handed_out [of k w h] Cons.prems(1) by (auto simp: lasting_def filter_empty_conv)
    ultimately show ?thesis
      using Cons.IH [OF next_, of "claims @ handed_out enc c h"] Cons.prems(2,3) None by simp
  next
    case (Some g)
    then have g: "g \<in> set claims" "disciplined enc dec (remove1 g claims) cs ?h" using Cons.prems(3) by simp_all
    have "filter_mset ?P (mset (provider_call enc c h)) \<subseteq># filter_mset ?P {#g#}"
      using provider_call_uses [of enc c h] Some by (intro multiset_filter_mono) auto
    moreover have "filter_mset ?P (mset (provider_calls enc dec cs ?h)) \<subseteq># filter_mset ?P (mset claims - {#g#})"
      using Cons.IH [OF next_ _ g(2)] Cons.prems(2) by (simp add: mset_filter)
    moreover have "filter_mset ?P {#g#} + filter_mset ?P (mset claims - {#g#}) = filter_mset ?P (mset claims)"
      using g(1) by (simp only: filter_union_mset [symmetric]) (simp add: insert_DiffM)
    ultimately show ?thesis
      by (simp only: provider_calls.simps mset_append filter_append mset_filter) (metis subset_mset.add_mono)
  qed
qed simp

text \<open>C31: work that may have acted is not repeated on its own, with writes that may fail. Take a host whose store is
  what its log says and whose log ends at the end of a line, and a step of it that was launched, or is
  uncertain, or settled. Through any later commands of workers that execute only what they were handed,
  and without a recorded decision on the step, the provider is called for the step at most once per claim
  that was handed out before and not used yet, so not at all when there is none, and not by anything that
  is delivered or swept up later; the step stays so in memory and in every store the log ever opens to,
  and no delivery of it runs. (A worker that was handed a claim before another's launch may still call
  once: it is superseded, and what it commits is ignored.)\<close>

theorem no_relaunch:
  assumes host: "clean dec h" and past: "view (h_store h) k = Some v" "\<not> open_step v"
    and workers: "disciplined enc dec claims cs h"
    and later: "h' = run_commands enc dec cs h"
    and undecided: "\<forall>d who. Do_reconcile k d who \<notin> set cs"
    and apart: "reads_apart (reopens k) enc dec"
    and job: "job_key job = k"
  shows "mset (filter (\<lambda>g. fst g = k) (provider_calls enc dec cs h)) \<subseteq># mset (filter (\<lambda>g. fst g = k) claims)
    \<and> (\<exists>v'. view (h_store h') k = Some v' \<and> \<not> open_step v')
    \<and> (\<forall>s. durable_open dec True (ds_path (h_store h')) (h_log h') = Inr s \<longrightarrow>
          (\<exists>v'. view s k = Some v' \<and> \<not> open_step v'))
    \<and> fst (admit enc now job fp worker h') \<noteq> Inr (Run e)"
proof -
  have "past_store k None (h_store h)"
    using past clean_wf [OF host] by (simp add: past_store_def)
  from clean_lasting [OF host this] have h: "lasting enc dec k None (h_log h) h" .
  note allowed = undecided_allowed [OF undecided]
  have h': "lasting enc dec k None (h_log h) h'"
    unfolding later by (rule past.commands_restarting [OF h allowed lasting_restart [OF apart]])
  then have closed: "past_store k None (h_store h')" by (simp add: lasting_def)
  have "fst (admit enc now job fp worker h') \<noteq> Inr (Run e)"
    using closed_not_handed_out [OF closed, of e enc "Do_admit now job fp worker"] job by auto
  moreover have "\<exists>v'. view s k = Some v' \<and> \<not> open_step v'" if "past_store k None s" for s
    using that by (auto simp: past_store_def)
  ultimately show ?thesis
    using disciplined_calls [OF apart h allowed workers] lasting_open [OF apart h'] closed by blast
qed

text \<open>C32: a superseded worker cannot commit. While no write fails, after a step was claimed under an epoch, executing
  it under an older one, whatever happened in between, leaves the step as it was, although the call was
  made, is in the log, and its result is returned to the caller.\<close>

theorem superseded_never_commits:
  assumes host: "settled_log enc h" and claimed: "view (h_store h) k = Some v" and older: "e < vw_highest_epoch v"
    and later: "h1 = run_commands enc dec cs h" and codec: "codec_for enc dec (h_records h1)"
    and stale: "execute enc k e provider h1 = (res, h2)"
  shows "view (h_store h2) k = view (h_store h1) k
    \<and> res = Inr (terminal_of provider)
    \<and> h_records h2 = h_records h1 @ [LaunchedRec k e, SettledRec k e (terminal_of provider)]"
proof -
  have "fenced_at k (vw_highest_epoch v) h"
    using claimed settled_log_wf [OF host] by (auto simp: fenced_at_def)
  then have h1: "fenced_at k (vw_highest_epoch v) h1" "settled_log enc h1"
    using fence.commands [OF _ host] codec by (auto simp: later)
  then obtain v1 where v1: "view (h_store h1) k = Some v1" "e < vw_highest_epoch v1"
    using older by (auto simp: fenced_at_def)
  have h2: "res = Inr (terminal_of provider)"
      "h2 = append_written enc [LaunchedRec k e, SettledRec k e (terminal_of provider)] h1"
    using execute_written [of h1] stale h1(2) by (auto simp: settled_log_def)
  have low: "(vw_highest_epoch v1 \<le> e) = False" using v1(2) by simp
  have "view (h_store h2) k = view (h_store h1) k"
    using h1(2) settled_log_wf [OF h1(2)] v1
    by (simp add: h2(2) view_append_written settled_log_def launch_view_def settle_view_def low)
  moreover have "h_records h2 = h_records h1 @ [LaunchedRec k e, SettledRec k e (terminal_of provider)]"
    using append_written_state [of h1] h1(2) by (simp add: h2(2) settled_log_def)
  ultimately show ?thesis using h2(1) by blast
qed

text \<open>The records of a sweep, and what they do to one step.\<close>

fun sweep_record :: "string \<Rightarrow> step_key \<times> step_state \<Rightarrow> log_record list" where
  "sweep_record worker (k, Claimed e) = [ClaimedRec k (e + 1) worker]"
| "sweep_record worker (k, Launched e) = [UncertainRec k e lost_reason]"
| "sweep_record worker (k, _) = []"

fun refenced_of :: "step_key \<times> step_state \<Rightarrow> (step_key \<times> epoch) list" where
  "refenced_of (k, Claimed e) = [(k, e + 1)]"
| "refenced_of (k, _) = []"

fun uncertain_of :: "step_key \<times> step_state \<Rightarrow> step_key list" where
  "uncertain_of (k, Launched e) = [k]"
| "uncertain_of (k, _) = []"

lemma append_written_Cons:
  "h_writes h = [] \<Longrightarrow> append_written enc (r # rs) h = append_written enc rs (snd (append_record enc r h))"
  by (simp add: append_written_def)

lemma recover_each_written:
  "h_writes h = [] \<Longrightarrow> recover_each enc worker lost rv h =
     (Inr (rv\<lparr>rv_refenced := rv_refenced rv @ concat (map refenced_of lost),
               rv_uncertain := rv_uncertain rv @ concat (map uncertain_of lost)\<rparr>),
      append_written enc (concat (map (sweep_record worker) lost)) h)"
proof (induction lost arbitrary: rv h)
  case Nil
  then show ?case by (simp add: append_written_def)
next
  case (Cons p lost)
  obtain k st where p: "p = (k, st)" by fastforce
  show ?case
    by (cases st) (simp_all add: p Cons append_written_Cons append_record_def)
qed

lemma sweep_other: "k \<noteq> fst p \<Longrightarrow> foldl (\<lambda>v r. key_effect k r v) w (sweep_record worker p) = w"
  by (cases "(worker, p)" rule: sweep_record.cases) auto

lemma sweep_others: "k \<notin> fst ` set lost \<Longrightarrow> foldl (\<lambda>v r. key_effect k r v) w (concat (map (sweep_record worker) lost)) = w"
  by (induction lost arbitrary: w) (simp_all add: sweep_other)

lemma sweep_view:
  "distinct (map fst lost) \<Longrightarrow>
     foldl (\<lambda>v r. key_effect k r v) w (concat (map (sweep_record worker) lost)) =
       (case map_of lost k of None \<Rightarrow> w | Some st \<Rightarrow> foldl (\<lambda>v r. key_effect k r v) w (sweep_record worker (k, st)))"
proof (induction lost arbitrary: w)
  case (Cons p lost)
  then show ?case by (cases p) (auto simp: sweep_other sweep_others split: option.split)
qed simp

lemma map_of_lost_steps:
  assumes "store_wf s"
  shows "map_of (lost_steps s) k = (case view s k of None \<Rightarrow> None | Some v \<Rightarrow> if held v then Some (vw_state v) else None)"
proof -
  have "distinct (map fst m) \<Longrightarrow> map_of (map (\<lambda>(k, v). (k, vw_state v)) (filter (\<lambda>(k, v). held v) m)) k =
      (case map_of m k of None \<Rightarrow> None | Some v \<Rightarrow> if held v then Some (vw_state v) else None)"
    for m :: "(step_key, step_view) btree_map"
    by (induction m) (force simp: map_of_eq_None_iff split: option.splits)+
  from this [OF bt_wf_distinct [of "ds_steps s"]] show ?thesis
    using assms by (simp add: lost_steps_def view_def store_wf_def)
qed

text \<open>A step is claimed under its highest epoch.\<close>

definition claim_current :: "step_view option \<Rightarrow> bool" where
  "claim_current w \<longleftrightarrow> (\<forall>v e. w = Some v \<and> vw_state v = Claimed e \<longrightarrow> vw_highest_epoch v = e)"

lemma claim_current_Some:
  "claim_current (Some v) \<longleftrightarrow> (case vw_state v of Claimed e \<Rightarrow> vw_highest_epoch v = e | _ \<Rightarrow> True)"
  by (simp add: claim_current_def split: step_state.split)

lemma claim_current_effect: "claim_current w \<Longrightarrow> claim_current (key_effect k r w)"
proof (cases w)
  case None
  then show ?thesis by (cases r) (simp_all add: claim_current_def frozen_view_def)
next
  case (Some v)
  have "case reconciled_state d of Claimed e \<Rightarrow> e' = e | _ \<Rightarrow> True" for d e'
    by (simp add: reconciled_state_def split: reconciliation.split)
  moreover assume "claim_current w"
  ultimately show ?thesis
    using Some by (cases r) (auto simp: claim_current_Some claim_view_def launch_view_def settle_view_def
        uncertain_view_def reconcile_view_def)
qed

lemma consistent_claims:
  assumes "consistent enc h"
  shows "claim_current (view (h_store h) k)"
proof -
  have run: "claim_current w \<Longrightarrow> claim_current (foldl (\<lambda>v r. key_effect k r v) w rs)" for w rs
    by (induction rs arbitrary: w) (simp_all add: claim_current_effect)
  have "claim_current None" by (simp add: claim_current_def)
  then have fold: "claim_current (view (foldl apply_record (empty_store path) rs) k)" for path rs
    unfolding view_replay [OF store_wf_empty] view_empty by (rule run)
  obtain path where "h_store h = foldl apply_record (empty_store path) (h_records h)"
    using assms unfolding consistent_def by blast
  with fold show ?thesis by simp
qed

definition swept :: "step_view \<Rightarrow> step_view" where
  "swept v = (case vw_state v of
       Claimed e \<Rightarrow> v\<lparr>vw_highest_epoch := e + 1, vw_state := Claimed (e + 1)\<rparr>
     | Launched e \<Rightarrow> v\<lparr>vw_state := Uncertain e lost_reason\<rparr>
     | _ \<Rightarrow> v)"

text \<open>The sweep of a survivor: steps that were only claimed are claimed again under the next epoch, launched ones
  become uncertain, every other step is untouched; the report lists exactly the former and the latter, in
  key order, and no step is left launched.\<close>

theorem recover_sweeps:
  assumes host: "settled_log enc h"
    and room: "\<forall>k v. view (h_store h) k = Some v \<longrightarrow> vw_highest_epoch v \<noteq> - 1"
    and sweep: "recover_lost enc worker h = (res, h')"
  shows "(\<forall>k. view (h_store h') k = map_option swept (view (h_store h) k))
    \<and> (\<forall>k v e. view (h_store h') k = Some v \<longrightarrow> vw_state v \<noteq> Launched e)
    \<and> res = Inr \<lparr>rv_refenced = concat (map (\<lambda>(k, v). refenced_of (k, vw_state v)) (ds_steps (h_store h))),
                 rv_uncertain = concat (map (\<lambda>(k, v). uncertain_of (k, vw_state v)) (ds_steps (h_store h)))\<rparr>"
proof -
  let ?lost = "lost_steps (h_store h)"
  have wf: "store_wf (h_store h)" using host by (rule settled_log_wf)
  have writes: "h_writes h = []" and cons: "consistent enc h" using host by (simp_all add: settled_log_def)
  have rec: "res = Inr \<lparr>rv_refenced = concat (map refenced_of ?lost), rv_uncertain = concat (map uncertain_of ?lost)\<rparr>"
      "h' = append_written enc (concat (map (sweep_record worker) ?lost)) h"
    using sweep recover_each_written [OF writes] by (simp_all add: recover_lost_def)
  have reports: "concat (map refenced_of ?lost) = concat (map (\<lambda>(k, v). refenced_of (k, vw_state v)) m)"
       "concat (map uncertain_of ?lost) = concat (map (\<lambda>(k, v). uncertain_of (k, vw_state v)) m)"
    if "?lost = map (\<lambda>(k, v). (k, vw_state v)) (filter (\<lambda>(k, v). held v) m)" for m
    unfolding that by (induction m) (auto simp: held_def split: step_state.splits)
  have views: "view (h_store h') k = map_option swept (view (h_store h) k)" for k
  proof (cases "view (h_store h) k")
    case None
    then show ?thesis
      using lost_steps_distinct [OF wf] map_of_lost_steps [OF wf, of k]
      by (simp add: rec(2) view_append_written [OF writes wf] sweep_view)
  next
    case (Some v)
    have "view (h_store h') k =
        (if held v then foldl (\<lambda>v r. key_effect k r v) (Some v) (sweep_record worker (k, vw_state v)) else Some v)"
      using lost_steps_distinct [OF wf] map_of_lost_steps [OF wf, of k] Some
      by (simp add: rec(2) view_append_written [OF writes wf] sweep_view)
    moreover have "vw_highest_epoch v = e \<and> claim_view (e + 1) v = v\<lparr>vw_highest_epoch := e + 1, vw_state := Claimed (e + 1)\<rparr>"
      if "vw_state v = Claimed e" for e
    proof -
      have "vw_highest_epoch v = e"
        using consistent_claims [OF cons, of k] Some that by (simp add: claim_current_def)
      then show ?thesis
        using room Some that u64_succ_less [of e] by (auto intro!: claim_open_view simp: open_step_def)
    qed
    ultimately show ?thesis
      using Some by (auto simp: held_def swept_def uncertain_view_def is_terminal_def split: step_state.splits)
  qed
  have "vw_state (swept v) \<noteq> Launched e" for v e
    by (simp add: swept_def split: step_state.split)
  then show ?thesis
    using views rec(1) reports [of "ds_steps (h_store h)"] by (auto simp: lost_steps_def)
qed

text \<open>A launch the fence hides. While a step is claimed, an earlier worker's launch is written to the log but not
  folded in; the sweep that follows takes the step for one that never launched and claims it again.\<close>

theorem superseded_launch_invisible:
  assumes host: "settled_log enc h" and claimed: "view (h_store h) k = Some v" "vw_state v = Claimed c"
    and older: "e < c" and started: "append_record enc (LaunchedRec k e) h = (u, h1)"
    and sweep: "recover_lost enc worker h1 = (res, h2)"
  shows "LaunchedRec k e \<in> set (h_records h1) \<and> view (h_store h1) k = view (h_store h) k
    \<and> (\<exists>rv. res = Inr rv \<and> (k, c + 1) \<in> set (rv_refenced rv) \<and> k \<notin> set (rv_uncertain rv))"
proof -
  have h1: "settled_log enc h1" by (rule sound.append [OF host _ started]) simp
  have u: "u = Inr ()" "LaunchedRec k e \<in> set (h_records h1)"
    using host by (cases rule: append_record_cases [OF started]; simp add: settled_log_def)+
  have "vw_highest_epoch v = c"
    using consistent_claims [of enc h k] host claimed by (simp add: settled_log_def claim_current_def)
  with older have "(vw_highest_epoch v \<le> e) = False" by simp
  then have same: "view (h_store h1) k = view (h_store h) k"
    using view_after_append [OF _ settled_log_wf [OF host]] started u(1) claimed(1)
    by (simp add: launch_view_def)
  have wf: "store_wf (h_store h1)" and writes: "h_writes h1 = []"
    using h1 settled_log_wf by (auto simp: settled_log_def)
  let ?lost = "lost_steps (h_store h1)"
  have res: "res = Inr \<lparr>rv_refenced = concat (map refenced_of ?lost), rv_uncertain = concat (map uncertain_of ?lost)\<rparr>"
    using sweep recover_each_written [OF writes] by (simp add: recover_lost_def)
  have lost: "map_of ?lost k = Some (Claimed c)"
    using map_of_lost_steps [OF wf, of k] same claimed by (simp add: held_def)
  then have "(k, c + 1) \<in> set (concat (map refenced_of ?lost))"
    by (force dest: map_of_SomeD)
  moreover have "k \<notin> set (concat (map uncertain_of ?lost))"
  proof
    assume "k \<in> set (concat (map uncertain_of ?lost))"
    then obtain p where p: "p \<in> set ?lost" "k \<in> set (uncertain_of p)" by auto
    then obtain e' where "(k, Launched e') \<in> set ?lost" by (cases p rule: uncertain_of.cases) auto
    then show False using lost lost_steps_distinct [OF wf] by (auto dest: map_of_is_SomeI)
  qed
  ultimately show ?thesis using u(2) same res by simp
qed

section \<open>Witnesses\<close>

text \<open>The sample host after more records.\<close>

definition sample_after :: "log_record list \<Rightarrow> host" where
  "sample_after rs = append_written sample_enc rs sample_host"

definition sample_view :: step_view where
  "sample_view = frozen_view ''fp'' None"

lemma sample_after_facts:
  "h_records (sample_after rs) = sample_frozen # rs" "settled_log sample_enc (sample_after rs)"
  "view (h_store (sample_after rs)) sample_key = foldl (\<lambda>v r. key_effect sample_key r v) (Some sample_view) rs"
  "run_cancelled (h_store (sample_after [])) ''r'' = None"
proof -
  have state: "h_log (sample_after rs) = sample_enc sample_frozen @ newline # log_text sample_enc rs"
      "h_store (sample_after rs) = foldl apply_record (apply_record (empty_store ''log'') sample_frozen) rs"
      "h_writes (sample_after rs) = []" "h_records (sample_after rs) = sample_frozen # rs" for rs
    using append_written_state [of sample_host sample_enc rs] sample_host_facts(5,6,7,8)
    by (simp_all add: sample_after_def)
  have "ds_path (foldl apply_record s rs) = ds_path s" for s
    by (induction rs arbitrary: s) simp_all
  then show "h_records (sample_after rs) = sample_frozen # rs" "settled_log sample_enc (sample_after rs)"
    by (simp_all add: settled_log_def consistent_def state del: apply_record.simps)
  have "view (apply_record (empty_store ''log'') sample_frozen) sample_key = Some sample_view"
    by (simp add: view_apply sample_frozen_def sample_view_def del: apply_record.simps)
  then show "view (h_store (sample_after rs)) sample_key = foldl (\<lambda>v r. key_effect sample_key r v) (Some sample_view) rs"
    by (simp add: state view_replay store_wf_apply del: apply_record.simps)
  show "run_cancelled (h_store (sample_after [])) ''r'' = None"
    by (simp add: state run_cancelled_apply sample_frozen_def del: apply_record.simps)
      (simp add: run_cancelled_def empty_store_def)
qed

lemma sample_subset: "set rs \<subseteq> set sample_records \<Longrightarrow> codec_for sample_enc sample_dec (sample_frozen # rs)"
  by (rule codec_for_subset [OF sample_records_codec]) (auto simp: sample_records_def sample_log_def)

lemma sample_view_simps: "vw_state sample_view = Pending" "vw_highest_epoch sample_view = 0"
    "vw_fingerprint sample_view = ''fp''" "vw_not_after sample_view = None"
  by (simp_all add: sample_view_def frozen_view_def)

lemma sample_job: "job_key (job_ref ''r'' ''s'') = sample_key" "jr_run_id (job_ref ''r'' ''s'') = ''r''"
    "jr_schema_version (job_ref ''r'' ''s'') = 1"
  by (simp_all add: job_key_def job_ref_def sample_key_def job_ref_schema_version_def)

lemma sample_admitted:
  "admit sample_enc 0 (job_ref ''r'' ''s'') ''fp'' ''w'' (sample_after [])
     = (Inr (Run 1), sample_after [ClaimedRec sample_key 1 ''w''])"
proof -
  have "runnable 0 (job_ref ''r'' ''s'') ''fp'' (h_store (sample_after [])) sample_view"
    using sample_after_facts(3) [of "[]"] sample_after_facts(4)
    by (simp add: runnable_def sample_job sample_view_simps open_step_def)
  moreover have "append_record sample_enc (ClaimedRec sample_key (vw_highest_epoch sample_view + 1) ''w'') (sample_after [])
      = (Inr (), sample_after [ClaimedRec sample_key 1 ''w''])"
    using sample_host_facts(8)
    by (simp add: sample_after_def append_written_def append_record_def sample_view_simps)
  ultimately show ?thesis
    using admit_runs by (force simp: sample_job sample_view_simps)
qed

theorem admit_decides_witness:
  "view (h_store (sample_after [ClaimedRec sample_key 1 ''w''])) sample_key
     = Some (sample_view\<lparr>vw_highest_epoch := 1, vw_state := Claimed 1\<rparr>)"
proof -
  have "store_wf (h_store (sample_after []))" by (rule settled_log_wf [OF sample_after_facts(2)])
  then show ?thesis
    using admit_decides [OF _ sample_admitted] sample_after_facts(3) [of "[]"]
    by (auto simp: sample_job sample_view_simps)
qed

text \<open>The sample host with a write that fails after two bytes, the fourth.\<close>

definition sample_failing :: host where
  "sample_failing = (sample_after [])\<lparr>h_writes := [Written, Written, Written, Failed_after 2]\<rparr>"

lemma sample_clean: "set rs \<subseteq> set sample_records \<Longrightarrow> clean sample_dec (sample_after rs)"
  using sample_after_facts(1,2) [of rs] sample_subset [of rs]
  by (intro consistent_clean [of sample_enc]) (simp_all add: settled_log_def)

theorem commit_before_ack_witness:
  "let h1 = snd (admit sample_enc 0 (job_ref ''r'' ''s'') ''fp'' ''w'' sample_failing);
       h2 = snd (execute sample_enc sample_key 1 (Inr ''ok'') h1);
       h3 = run_commands sample_enc sample_dec [Do_cancel ''q'' ''late'', Do_restart] h2
   in answer_of (view (h_store h3) sample_key) = Some (Succeeded ''ok'')"
proof -
  let ?job = "job_ref ''r'' ''s''" and ?cs = "[Do_cancel ''q'' ''late'', Do_restart]"
  have t: "terminal_of (Inr ''ok'') = Succeeded ''ok''"
    by (simp add: terminal_of_def bounded_output_def max_recorded_output_def)
  have store: "h_store sample_failing = h_store (sample_after [])" by (simp add: sample_failing_def)
  have host: "clean sample_dec sample_failing"
    using sample_clean [of "[]"] by (simp add: clean_def sample_failing_def)
  have runs: "runnable 0 ?job ''fp'' (h_store sample_failing) sample_view"
    using sample_after_facts(3) [of "[]"] sample_after_facts(4)
    by (simp add: runnable_def sample_job sample_view_simps open_step_def store)
  obtain h1 where a: "append_record sample_enc (ClaimedRec sample_key 1 ''w'') sample_failing = (Inr (), h1)"
    and w1: "h_writes h1 = [Written, Written, Failed_after 2]"
    by (simp add: append_record_def sample_failing_def)
  have admitted: "admit sample_enc 0 ?job ''fp'' ''w'' sample_failing = (Inr (Run 1), h1)"
    using admit_runs [OF runs, of sample_enc "''w''"] a by (simp add: sample_job sample_view_simps)
  obtain h2 where ex: "execute sample_enc (job_key ?job) 1 (Inr ''ok'') h1 = (Inr (Succeeded ''ok''), h2)"
    by (simp add: execute_def append_record_def w1 t Let_def)
  have codec: "codec_for sample_enc sample_dec [ClaimedRec (job_key ?job) 1 ''w'', LaunchedRec (job_key ?job) 1,
      SettledRec (job_key ?job) 1 (terminal_of (Inr ''ok''))]"
    by (rule codec_for_subset [OF sample_codec]) (simp add: sample_job t sample_log_def sample_settled_def)
  have "reads_apart (reopens (job_key ?job)) sample_enc sample_dec" using sample_apart by (simp add: sample_job)
  from commit_before_ack [OF host admitted _ ex codec refl, of ?cs, OF _ _ this]
  have "answer_of (view (h_store (run_commands sample_enc sample_dec ?cs h2)) sample_key) = Some (Succeeded ''ok'')"
    by (simp add: sample_job)
  then show ?thesis using admitted ex by (simp only: Let_def snd_conv sample_job)
qed

theorem no_relaunch_witness:
  "let h = sample_after [ClaimedRec sample_key 1 ''w'', LaunchedRec sample_key 1];
       cs = [Do_restart, Do_execute sample_key 1 (Inr ''ok''), Do_admit 0 (job_ref ''r'' ''s'') ''fp'' ''w'']
   in mset (filter (\<lambda>g. fst g = sample_key) (provider_calls sample_enc sample_dec cs h)) \<subseteq># {#(sample_key, 1)#}
      \<and> fst (admit sample_enc 0 (job_ref ''r'' ''s'') ''fp'' ''w'' (run_commands sample_enc sample_dec cs h)) \<noteq> Inr (Run 2)"
proof -
  let ?rs = "[ClaimedRec sample_key 1 ''w'', LaunchedRec sample_key 1]"
  let ?cs = "[Do_restart, Do_execute sample_key 1 (Inr ''ok''), Do_admit 0 (job_ref ''r'' ''s'') ''fp'' ''w'']"
  let ?v = "sample_view\<lparr>vw_highest_epoch := 1, vw_state := Launched 1\<rparr>"
  have v: "view (h_store (sample_after ?rs)) sample_key = Some ?v" "\<not> open_step ?v"
    by (simp_all add: sample_after_facts(3) claim_view_def launch_view_def sample_view_simps is_terminal_def open_step_def)
  have host: "clean sample_dec (sample_after ?rs)"
    by (rule sample_clean) (simp add: sample_records_def sample_log_def)
  have workers: "disciplined sample_enc sample_dec [(sample_key, 1)] ?cs (sample_after ?rs)"
    by (simp del: run_command.simps)
  have undecided: "\<forall>d who. Do_reconcile sample_key d who \<notin> set ?cs" by simp
  show ?thesis
    using no_relaunch [OF host v workers refl undecided sample_apart sample_job(1), of 0 "''fp''" "''w''" 2]
    by (simp only: Let_def) (simp del: run_command.simps provider_calls.simps run_commands_simps)
qed

theorem superseded_never_commits_witness:
  "let h = sample_after [ClaimedRec sample_key 1 ''w'', ClaimedRec sample_key 2 ''w''];
       h1 = run_commands sample_enc sample_dec [Do_restart] h;
       h2 = snd (execute sample_enc sample_key 1 (Inr ''ok'') h1)
   in view (h_store h2) sample_key = view (h_store h1) sample_key"
proof -
  let ?rs = "[ClaimedRec sample_key 1 ''w'', ClaimedRec sample_key 2 ''w'']"
  let ?h1 = "run_commands sample_enc sample_dec [Do_restart] (sample_after ?rs)"
  let ?v = "sample_view\<lparr>vw_highest_epoch := 2, vw_state := Claimed 2\<rparr>"
  have v: "view (h_store (sample_after ?rs)) sample_key = Some ?v" "1 < vw_highest_epoch ?v"
    by (simp_all add: sample_after_facts(3) claim_view_def sample_view_simps is_terminal_def)
  have codec: "codec_for sample_enc sample_dec (h_records ?h1)"
    using sample_subset [of ?rs] by (simp add: sample_after_facts(1) sample_records_def sample_log_def del: run_command.simps)
  obtain res h2 where e: "execute sample_enc sample_key 1 (Inr ''ok'') ?h1 = (res, h2)" by fastforce
  show ?thesis
    using superseded_never_commits [OF sample_after_facts(2) v refl codec e] e by (simp del: run_command.simps run_commands_simps)
qed

theorem recover_sweeps_witness:
  "view (h_store (snd (recover_lost sample_enc ''x'' (sample_after [ClaimedRec sample_key 1 ''w''])))) sample_key
     = Some (sample_view\<lparr>vw_highest_epoch := 2, vw_state := Claimed 2\<rparr>)"
proof -
  let ?h = "sample_after [ClaimedRec sample_key 1 ''w'']"
  have only: "view (h_store ?h) k = (if k = sample_key then Some (sample_view\<lparr>vw_highest_epoch := 1, vw_state := Claimed 1\<rparr>) else None)" for k
    using append_written_state [of sample_host sample_enc "[ClaimedRec sample_key 1 ''w'']"] sample_host_facts(5,8)
    by (auto simp: sample_after_def view_apply view_replay store_wf_apply sample_frozen_def sample_view_def frozen_view_def
        claim_view_def is_terminal_def simp del: apply_record.simps)
  then have room: "\<forall>k v. view (h_store ?h) k = Some v \<longrightarrow> vw_highest_epoch v \<noteq> - 1" by simp
  obtain res h' where r: "recover_lost sample_enc ''x'' ?h = (res, h')" by fastforce
  show ?thesis
    using recover_sweeps [OF sample_after_facts(2) room r] only r by (simp add: swept_def)
qed

theorem superseded_launch_invisible_witness:
  "let h = sample_after [ClaimedRec sample_key 1 ''w'', ClaimedRec sample_key 2 ''w''];
       h1 = snd (append_record sample_enc (LaunchedRec sample_key 1) h)
   in \<exists>rv. fst (recover_lost sample_enc ''x'' h1) = Inr rv \<and> (sample_key, 3) \<in> set (rv_refenced rv)"
proof -
  let ?h = "sample_after [ClaimedRec sample_key 1 ''w'', ClaimedRec sample_key 2 ''w'']"
  let ?v = "sample_view\<lparr>vw_highest_epoch := 2, vw_state := Claimed 2\<rparr>"
  have v: "view (h_store ?h) sample_key = Some ?v" "vw_state ?v = Claimed 2" "(1 :: epoch) < 2"
    by (simp_all add: sample_after_facts(3) claim_view_def sample_view_simps is_terminal_def)
  obtain u h1 where a: "append_record sample_enc (LaunchedRec sample_key 1) ?h = (u, h1)" by fastforce
  obtain res h2 where r: "recover_lost sample_enc ''x'' h1 = (res, h2)" by fastforce
  show ?thesis
    using superseded_launch_invisible [OF sample_after_facts(2) v a r] a r by auto
qed

end
