(* ===== verification/Repository_Compile.thy ===== *)
theory Repository_Compile
  imports Plan_Compile Workflow_Authored
begin

text \<open>
  The configuration compiler of the repository worker (\<^verbatim>\<open>examples/repository-worker/src\<close>: \<^verbatim>\<open>schema.rs\<close>,
  \<^verbatim>\<open>job.rs\<close>, \<^verbatim>\<open>compile.rs\<close>): a parsed workflow file, authored as a list of steps or of phases, becomes a
  workflow definition whose jobs are resolved against the host's profiles, or a list of located
  diagnostics. \<open>toml::from_str\<close> is the argument \<open>parse\<close> (\<open>Inl\<close> its error text), the \<open>Debug\<close> text of a list
  of step ids is the argument \<open>show_ids\<close>.
\<close>

section \<open>Jobs and profiles\<close>

datatype mechanical_op = ReadBranch | CountFiles | Collect

definition mechanical_parse :: "string \<Rightarrow> mechanical_op option" where
  "mechanical_parse name =
     (if name = ''read_branch'' then Some ReadBranch
      else if name = ''count_files'' then Some CountFiles
      else if name = ''collect'' then Some Collect
      else None)"

datatype job =
    AgentJob (job_profile: string) (job_prompt: string) (job_provider: provider_id)
  | MechanicalJob (job_op: mechanical_op) (job_args: "(string, string) btree_map")

record 'j profile_catalog =
  cat_profiles :: "(string, 'j profile) btree_map"

definition catalog_example :: "'j profile_catalog" where
  "catalog_example =
     \<lparr>cat_profiles =
        bt_insert ''implementer'' \<lparr>prof_name = ''implementer'', prof_turn = unbound_turn\<lparr>par_provider := Some Codex\<rparr>\<rparr>
         (bt_insert ''reviewer'' \<lparr>prof_name = ''reviewer'', prof_turn = unbound_turn\<lparr>par_provider := Some Claude\<rparr>\<rparr> [])\<rparr>"

definition catalog_get :: "'j profile_catalog \<Rightarrow> string \<Rightarrow> 'j profile option" where
  "catalog_get c name = map_of (cat_profiles c) name"

definition catalog_names :: "'j profile_catalog \<Rightarrow> string list" where
  "catalog_names c = bt_keys (cat_profiles c)"

section \<open>The schema\<close>

definition schema_version :: u32 where
  "schema_version = 1"

datatype job_entry =
    AgentEntry (je_profile: string) (je_prompt: string)
  | MechanicalEntry (je_op: string) (je_args: "(string, string) btree_map")

record step_entry =
  ste_id :: string
  ste_needs :: "string list"
  ste_job :: job_entry

record phase_entry =
  phe_name :: string
  phe_step :: "step_entry list"

record workflow_header =
  hdr_id :: string
  hdr_version :: string

record workflow_file =
  file_schema_version :: u32
  file_workflow :: workflow_header
  file_step :: "step_entry list"
  file_phase :: "phase_entry list"

record location =
  loc_file :: string
  loc_path :: string

definition location_new :: "string \<Rightarrow> string \<Rightarrow> location" where
  "location_new fname p = \<lparr>loc_file = fname, loc_path = p\<rparr>"

definition location_display :: "location \<Rightarrow> string" where
  "location_display l = loc_file l @ '':'' @ loc_path l"

record config_diagnostic =
  cd_location :: location
  cd_message :: string

definition config_diagnostic_display :: "config_diagnostic \<Rightarrow> string" where
  "config_diagnostic_display d = location_display (cd_location d) @ '': '' @ cd_message d"

abbreviation report :: "string \<Rightarrow> string \<Rightarrow> string \<Rightarrow> config_diagnostic" where
  "report fname p message \<equiv> \<lparr>cd_location = location_new fname p, cd_message = message\<rparr>"

definition quoted :: "string \<Rightarrow> string" where
  "quoted s = [CHR 0x60] @ s @ [CHR 0x60]"

fun join_with :: "string \<Rightarrow> string list \<Rightarrow> string" where
  "join_with sep [] = []"
| "join_with sep [x] = x"
| "join_with sep (x # y # xs) = x @ sep @ join_with sep (y # xs)"

text \<open>\<open>Display for WorkflowDefinitionError\<close>.\<close>

fun definition_error_display :: "(step_id list \<Rightarrow> string) \<Rightarrow> workflow_definition_error \<Rightarrow> string" where
  "definition_error_display show_ids (InvalidIdentifier e) = invalid_identifier_display e"
| "definition_error_display show_ids NoSteps = ''workflow must contain at least one step''"
| "definition_error_display show_ids SingleStepHasDependencies = ''a single-step workflow cannot declare dependencies''"
| "definition_error_display show_ids (PipelineStepHasDependencies s) =
     ''pipeline step '' @ quoted s @ '' cannot declare explicit dependencies''"
| "definition_error_display show_ids (DuplicateStep s) = ''duplicate step id '' @ quoted s"
| "definition_error_display show_ids (DuplicateDependency s d) =
     ''step '' @ quoted s @ '' repeats dependency '' @ quoted d"
| "definition_error_display show_ids (MissingDependency s d) =
     ''step '' @ quoted s @ '' refers to missing dependency '' @ quoted d"
| "definition_error_display show_ids (SelfDependency s) = ''step '' @ quoted s @ '' depends on itself''"
| "definition_error_display show_ids (Cycle ids) = ''workflow contains a cycle involving '' @ show_ids ids"

section \<open>Flattening\<close>

text \<open>One list of steps with the needs that are compiled and the path that locates them.\<close>

type_synonym flat_entry = "step_entry \<times> string list \<times> string"

definition indexed :: "string \<Rightarrow> nat \<Rightarrow> string" where
  "indexed name i = name @ ''['' @ show_nat i @ '']''"

fun step_entries :: "nat \<Rightarrow> step_entry list \<Rightarrow> flat_entry list" where
  "step_entries i [] = []"
| "step_entries i (s # ss) = (s, ste_needs s, indexed ''step'' i) # step_entries (i + 1) ss"

fun phase_steps :: "nat \<Rightarrow> nat \<Rightarrow> string list \<Rightarrow> step_entry list \<Rightarrow> flat_entry list" where
  "phase_steps p i previous [] = []"
| "phase_steps p i previous (s # ss) =
     (s, ste_needs s @ previous, indexed ''phase'' p @ ''.'' @ indexed ''step'' i)
       # phase_steps p (i + 1) previous ss"

fun phase_entries :: "nat \<Rightarrow> string list \<Rightarrow> phase_entry list \<Rightarrow> flat_entry list" where
  "phase_entries p previous [] = []"
| "phase_entries p previous (ph # phs) =
     phase_steps p 0 previous (phe_step ph) @ phase_entries (p + 1) (map ste_id (phe_step ph)) phs"

definition flat_entries :: "workflow_file \<Rightarrow> flat_entry list" where
  "flat_entries f = step_entries 0 (file_step f) @ phase_entries 0 [] (file_phase f)"

section \<open>Compiling jobs\<close>

definition explicit_prompt :: "string \<Rightarrow> 'j partial_turn" where
  "explicit_prompt prompt = unbound_turn\<lparr>par_prompt := Some prompt\<rparr>"

definition profile_layers :: "'j profile \<Rightarrow> string \<Rightarrow> 'j plan_layers" where
  "profile_layers saved prompt = with_profile (layers_new (explicit_prompt prompt)) saved"

text \<open>\<open>None\<close> is the panic of \<open>ResolvedTurn::provider\<close>.\<close>

definition compile_job ::
  "string \<Rightarrow> step_entry \<Rightarrow> string \<Rightarrow> 'j profile_catalog \<Rightarrow> (config_diagnostic list + job) option" where
  "compile_job fname step p catalog =
     (case ste_job step of
        AgentEntry profile prompt \<Rightarrow>
          (case catalog_get catalog profile of
             None \<Rightarrow> Some (Inl [report fname (p @ ''.profile'')
               (''unknown profile '' @ quoted profile @ '', this host defines '' @ join_with '', '' (catalog_names catalog))])
           | Some saved \<Rightarrow>
               (case resolve (profile_layers saved prompt) of
                  Complete resolved \<Rightarrow> map_option (\<lambda>provider. Inr (AgentJob profile prompt provider)) (resolved_provider resolved)
                | Missing _ requirements \<Rightarrow> Some (Inl (map (\<lambda>r. report fname (p @ ''.'' @ rq_path r)
                    (''profile '' @ quoted profile @ '' still needs '' @ rq_id r @ '' ('' @ rq_label r @ '')'')) requirements))
                | Invalid diagnostics \<Rightarrow> Some (Inl (map (\<lambda>d. report fname (p @ ''.'' @ unwrap_or (diag_path d) ''profile'')
                    (diag_message d)) diagnostics))))
      | MechanicalEntry operation args \<Rightarrow>
          (case mechanical_parse operation of
             Some m \<Rightarrow> Some (Inr (MechanicalJob m args))
           | None \<Rightarrow> Some (Inl [report fname (p @ ''.op'') (''unknown mechanical operation '' @ quoted operation)])))"

section \<open>Compiling a file\<close>

fun need_diagnostics :: "string \<Rightarrow> string list \<Rightarrow> string \<Rightarrow> string \<Rightarrow> nat \<Rightarrow> string list \<Rightarrow> config_diagnostic list" where
  "need_diagnostics fname declared p sid i [] = []"
| "need_diagnostics fname declared p sid i (n # ns) =
     (if n \<in> set declared then []
      else [report fname (p @ ''.'' @ indexed ''needs'' i)
              (''step '' @ quoted sid @ '' depends on unknown step '' @ quoted n)])
     @ need_diagnostics fname declared p sid (i + 1) ns"

text \<open>The loop over the entries: diagnostics accumulate, accepted steps go to the builder.\<close>

fun compile_entries ::
  "string \<Rightarrow> 'j profile_catalog \<Rightarrow> string list \<Rightarrow> flat_entry list \<Rightarrow> config_diagnostic list \<Rightarrow> job workflow_builder
     \<Rightarrow> (config_diagnostic list \<times> job workflow_builder) option" where
  "compile_entries fname catalog declared [] ds b = Some (ds, b)"
| "compile_entries fname catalog declared ((s, needs, p) # es) ds b =
     (let ds1 = ds @ need_diagnostics fname declared p (ste_id s) 0 needs
      in case compile_job fname s p catalog of
           None \<Rightarrow> None
         | Some (Inr j) \<Rightarrow>
             compile_entries fname catalog declared es ds1 (builder_push b (step_spec_needs (step_spec_new (ste_id s) j) needs))
         | Some (Inl found) \<Rightarrow> compile_entries fname catalog declared es (ds1 @ found) b)"

definition file_diagnostics :: "string \<Rightarrow> workflow_file \<Rightarrow> config_diagnostic list" where
  "file_diagnostics fname f =
     (if file_schema_version f \<noteq> schema_version
      then [report fname ''schema_version''
              (''unsupported schema version '' @ show_nat (unat (file_schema_version f)) @ '', this build reads ''
               @ show_nat (unat schema_version))] else [])
     @ (if file_step f \<noteq> [] \<and> file_phase f \<noteq> []
        then [report fname ''<document>''
                (''a workflow uses either '' @ quoted ''step'' @ '' or '' @ quoted ''phase'' @ '', not both'')] else [])"

definition config_compile ::
  "(string \<Rightarrow> string + workflow_file) \<Rightarrow> (step_id list \<Rightarrow> string) \<Rightarrow> string \<Rightarrow> string \<Rightarrow> 'j profile_catalog
     \<Rightarrow> (config_diagnostic list + job workflow_definition) option" where
  "config_compile parse show_ids fname document catalog =
     (case parse document of
        Inl e \<Rightarrow> Some (Inl [report fname ''<document>'' (''configuration is not valid: '' @ e)])
      | Inr f \<Rightarrow>
          (let entries = flat_entries f;
               ds0 = file_diagnostics fname f;
               ds1 = ds0 @ (if entries = [] \<and> ds0 = []
                            then [report fname ''<document>'' ''a workflow needs at least one step''] else []);
               declared = sorted_list_of_set (set (map (ste_id \<circ> fst) entries))
           in case compile_entries fname catalog declared entries ds1
                     (builder_new (hdr_id (file_workflow f)) (hdr_version (file_workflow f))) of
                None \<Rightarrow> None
              | Some (ds, builder) \<Rightarrow>
                  if ds \<noteq> [] then Some (Inl ds)
                  else map_option (map_sum (\<lambda>e. [report fname ''<workflow>'' (definition_error_display show_ids e)]) id)
                         (dag_build builder)))"

section \<open>What compilation accepts\<close>

text \<open>The job a configured step stands for, when it stands for one.\<close>

definition job_of :: "'j profile_catalog \<Rightarrow> job_entry \<Rightarrow> job option" where
  "job_of catalog entry = (case entry of
       AgentEntry profile prompt \<Rightarrow>
         (case catalog_get catalog profile of
            None \<Rightarrow> None
          | Some saved \<Rightarrow>
              (case resolve (profile_layers saved prompt) of
                 Complete m \<Rightarrow> map_option (AgentJob profile prompt) (par_provider m)
               | _ \<Rightarrow> None))
     | MechanicalEntry operation args \<Rightarrow> map_option (\<lambda>m. MechanicalJob m args) (mechanical_parse operation))"

definition entry_spec :: "'j profile_catalog \<Rightarrow> flat_entry \<Rightarrow> job step_spec" where
  "entry_spec catalog e = (case e of (s, needs, p) \<Rightarrow>
     \<lparr>spec_id = ste_id s, spec_needs = needs, spec_job = the (job_of catalog (ste_job s))\<rparr>)"

definition entry_ok :: "'j profile_catalog \<Rightarrow> string list \<Rightarrow> flat_entry \<Rightarrow> bool" where
  "entry_ok catalog declared e = (case e of (s, needs, p) \<Rightarrow>
     set needs \<subseteq> set declared \<and> job_of catalog (ste_job s) \<noteq> None)"

lemma entry_simps [simp]:
  "entry_spec catalog (s, needs, p) =
     \<lparr>spec_id = ste_id s, spec_needs = needs, spec_job = the (job_of catalog (ste_job s))\<rparr>"
  "entry_ok catalog declared (s, needs, p) \<longleftrightarrow> set needs \<subseteq> set declared \<and> job_of catalog (ste_job s) \<noteq> None"
  by (simp_all add: entry_spec_def entry_ok_def)

definition located :: "string \<Rightarrow> config_diagnostic \<Rightarrow> bool" where
  "located fname d \<longleftrightarrow> loc_file (cd_location d) = fname \<and> loc_path (cd_location d) \<noteq> []"

lemma located_report [simp]: "located fname (report fname p m) \<longleftrightarrow> p \<noteq> []"
  by (simp add: located_def location_new_def)

lemma compile_job_cases:
  fixes catalog :: "'j profile_catalog"
  obtains (accepted) j where "compile_job fname s p catalog = Some (Inr j)" and "job_of catalog (ste_job s) = Some j"
  | (refused) ds where "compile_job fname s p catalog = Some (Inl ds)" and "job_of catalog (ste_job s) = None"
      and "ds \<noteq> []" and "\<forall>d \<in> set ds. located fname d"
proof (cases "ste_job s")
  case (MechanicalEntry operation args)
  then show ?thesis
    by (cases "mechanical_parse operation") (auto simp: compile_job_def job_of_def intro: that)
next
  case agent: (AgentEntry profile prompt)
  show ?thesis
  proof (cases "catalog_get catalog profile")
    case None
    then show ?thesis using agent by (auto simp: compile_job_def job_of_def intro: that)
  next
    case (Some saved)
    show ?thesis
    proof (cases "resolve (profile_layers saved prompt :: 'j plan_layers)")
      case (Complete m)
      then obtain pr where "par_provider m = Some pr"
        using resolve_complete_bound [OF Complete] by auto
      then show ?thesis
        using agent Some Complete by (auto simp: compile_job_def job_of_def resolved_provider_def intro: that)
    next
      case (Missing m rs)
      then have "rs \<noteq> []" by (cases rule: resolve_cases [of "profile_layers saved prompt"]) auto
      then show ?thesis
        using agent Some Missing
        by (intro refused [of "map (\<lambda>r. report fname (p @ ''.'' @ rq_path r)
              (''profile '' @ quoted profile @ '' still needs '' @ rq_id r @ '' ('' @ rq_label r @ '')'')) rs"])
          (simp_all add: compile_job_def job_of_def)
    next
      case (Invalid ds)
      then have "ds \<noteq> []" by (cases rule: resolve_cases [of "profile_layers saved prompt"]) auto
      then show ?thesis
        using agent Some Invalid
        by (intro refused [of "map (\<lambda>d. report fname (p @ ''.'' @ unwrap_or (diag_path d) ''profile'') (diag_message d)) ds"])
          (simp_all add: compile_job_def job_of_def)
    qed
  qed
qed

lemma need_diagnostics_facts:
  "(need_diagnostics fname declared p sid i ns = [] \<longleftrightarrow> set ns \<subseteq> set declared)
   \<and> (\<forall>d \<in> set (need_diagnostics fname declared p sid i ns). located fname d)"
  by (induction fname declared p sid i ns rule: need_diagnostics.induct) auto

lemma compile_entries_facts:
  "\<exists>xs b'. compile_entries fname catalog declared es ds b = Some (ds @ xs, b')
     \<and> (\<forall>d \<in> set xs. located fname d)
     \<and> (xs = [] \<longleftrightarrow> list_all (entry_ok catalog declared) es)
     \<and> builder_id b' = builder_id b \<and> builder_version b' = builder_version b
     \<and> (xs = [] \<longrightarrow> builder_steps b' = builder_steps b @ map (entry_spec catalog) es)"
proof (induction es arbitrary: ds b)
  case Nil
  show ?case by simp
next
  case (Cons e es)
  obtain s needs p where e: "e = (s, needs, p)" by (cases e) auto
  let ?nd = "need_diagnostics fname declared p (ste_id s) 0 needs"
  have nd: "(?nd = []) = (set needs \<subseteq> set declared)" "\<forall>d \<in> set ?nd. located fname d"
    using need_diagnostics_facts [of fname declared p "ste_id s" 0 needs] by auto
  show ?case
  proof (cases rule: compile_job_cases [of fname s p catalog])
    case (accepted j)
    let ?b = "builder_push b (step_spec_needs (step_spec_new (ste_id s) j) needs)"
    obtain xs b' where ih: "compile_entries fname catalog declared es (ds @ ?nd) ?b = Some ((ds @ ?nd) @ xs, b')"
      "\<forall>d \<in> set xs. located fname d" "(xs = []) = list_all (entry_ok catalog declared) es"
      "builder_id b' = builder_id ?b" "builder_version b' = builder_version ?b"
      "xs = [] \<longrightarrow> builder_steps b' = builder_steps ?b @ map (entry_spec catalog) es"
      using Cons.IH [of "ds @ ?nd" ?b] by blast
    show ?thesis
      using accepted ih nd
      by (intro exI [of _ "?nd @ xs"] exI [of _ b'])
        (auto simp: e builder_push_def step_spec_needs_def step_spec_new_def)
  next
    case (refused found)
    obtain xs b' where ih: "compile_entries fname catalog declared es ((ds @ ?nd) @ found) b = Some (((ds @ ?nd) @ found) @ xs, b')"
      "\<forall>d \<in> set xs. located fname d" "builder_id b' = builder_id b" "builder_version b' = builder_version b"
      using Cons.IH [of "(ds @ ?nd) @ found" b] by blast
    show ?thesis
      using refused ih nd
      by (intro exI [of _ "?nd @ found @ xs"] exI [of _ b']) (auto simp: e)
  qed
qed

definition declared_ids :: "workflow_file \<Rightarrow> string set" where
  "declared_ids f = (ste_id \<circ> fst) ` set (flat_entries f)"

text \<open>The files compilation accepts before the workflow crate checks the graph.\<close>

definition file_ok :: "'j profile_catalog \<Rightarrow> workflow_file \<Rightarrow> bool" where
  "file_ok catalog f \<longleftrightarrow> file_schema_version f = 1 \<and> (file_step f = [] \<or> file_phase f = [])
     \<and> (\<forall>(s, needs, p) \<in> set (flat_entries f). set needs \<subseteq> declared_ids f \<and> job_of catalog (ste_job s) \<noteq> None)"

lemma config_compile_facts:
  obtains (refused) ds where "config_compile parse show_ids fname document catalog = Some (Inl ds)"
      and "ds \<noteq> []" and "\<forall>d \<in> set ds. located fname d"
      and "\<forall>f. parse document = Inr f \<longrightarrow> file_ok catalog f \<longrightarrow>
             (\<forall>d. compile (hdr_id (file_workflow f)) (hdr_version (file_workflow f)) (map (entry_spec catalog) (flat_entries f))
                    \<noteq> Some (Inr d))"
  | (accepted) f d where "config_compile parse show_ids fname document catalog = Some (Inr d)"
      and "parse document = Inr f" and "file_ok catalog f"
      and "compile (hdr_id (file_workflow f)) (hdr_version (file_workflow f)) (map (entry_spec catalog) (flat_entries f))
             = Some (Inr d)"
proof (cases "parse document")
  case (Inl e)
  then show ?thesis by (intro refused) (auto simp: config_compile_def)
next
  case f: (Inr f)
  let ?es = "flat_entries f" and ?h = "file_workflow f"
  let ?declared = "sorted_list_of_set (set (map (ste_id \<circ> fst) ?es))"
  let ?ds = "file_diagnostics fname f @ (if ?es = [] \<and> file_diagnostics fname f = []
                            then [report fname ''<document>'' ''a workflow needs at least one step''] else [])"
  obtain xs b where loop: "compile_entries fname catalog ?declared ?es ?ds (builder_new (hdr_id ?h) (hdr_version ?h)) = Some (?ds @ xs, b)"
    and xs: "\<forall>d \<in> set xs. located fname d" "(xs = []) = list_all (entry_ok catalog ?declared) ?es"
    and b: "builder_id b = hdr_id ?h" "builder_version b = hdr_version ?h"
      "xs = [] \<longrightarrow> builder_steps b = map (entry_spec catalog) ?es"
    using compile_entries_facts [of fname catalog ?declared ?es ?ds "builder_new (hdr_id ?h) (hdr_version ?h)"]
    by (auto simp: builder_new_def)
  have ds: "\<forall>d \<in> set ?ds. located fname d" by (simp add: file_diagnostics_def)
  have ok: "?ds @ xs = [] \<longleftrightarrow> file_ok catalog f \<and> ?es \<noteq> []"
    using xs(2) by (auto simp: file_ok_def entry_ok_def file_diagnostics_def schema_version_def list_all_iff declared_ids_def split: if_splits)
  have unfold: "config_compile parse show_ids fname document catalog =
      (if ?ds @ xs \<noteq> [] then Some (Inl (?ds @ xs))
       else map_option (map_sum (\<lambda>e. [report fname ''<workflow>'' (definition_error_display show_ids e)]) id) (dag_build b))"
    by (simp only: config_compile_def f sum.case Let_def loop option.case prod.case)
  have empty: "(compile (hdr_id ?h) (hdr_version ?h) [] :: (workflow_definition_error + job workflow_definition) option) \<noteq> Some (Inr d)" for d
    by (simp add: compile_Inr well_formed_def)
  then show ?thesis
  proof (cases "?ds @ xs = []")
    case False
    moreover have "config_compile parse show_ids fname document catalog = Some (Inl (?ds @ xs))"
      using False by (simp only: unfold not_False_eq_True if_True)
    ultimately show ?thesis
      using ds xs(1) ok f empty by (intro refused [of "?ds @ xs"]) auto
  next
    case True
    then have steps: "builder_steps b = map (entry_spec catalog) ?es" using b(3) by simp
    have eq: "config_compile parse show_ids fname document catalog =
        map_option (map_sum (\<lambda>e. [report fname ''<workflow>'' (definition_error_display show_ids e)]) id)
          (compile (hdr_id ?h) (hdr_version ?h) (map (entry_spec catalog) ?es))"
      unfolding unfold using True by (simp only: not_True_eq_False if_False dag_build_def b(1,2) steps simp_thms)
    obtain r where r: "compile (hdr_id ?h) (hdr_version ?h) (map (entry_spec catalog) ?es) = Some r"
      using compile_total_lemma by blast
    show ?thesis
    proof (cases r)
      case (Inl e)
      then show ?thesis
        using eq r f by (intro refused [of "[report fname ''<workflow>'' (definition_error_display show_ids e)]"]) auto
    next
      case (Inr d)
      then show ?thesis using eq r f ok True by (intro accepted [of d f]) auto
    qed
  qed
qed

section \<open>Phases\<close>

text \<open>The entries of a phase list, phase by phase: what a step needs is what it names and the whole phase before.\<close>

definition phase_needs :: "string list \<Rightarrow> phase_entry list \<Rightarrow> nat \<Rightarrow> step_entry \<Rightarrow> string list" where
  "phase_needs previous phs i s =
     ste_needs s @ (if i = 0 then previous else map ste_id (phe_step (phs ! (i - 1))))"

lemma phase_steps_entry: "s \<in> set ss \<Longrightarrow> \<exists>q. (s, ste_needs s @ previous, q) \<in> set (phase_steps p i previous ss)"
  by (induction p i previous ss rule: phase_steps.induct) auto

lemma phase_entries_entry:
  "i < length phs \<Longrightarrow> s \<in> set (phe_step (phs ! i)) \<Longrightarrow>
     \<exists>q. (s, phase_needs previous phs i s, q) \<in> set (phase_entries p previous phs)"
proof (induction phs arbitrary: i p previous)
  case (Cons ph phs)
  show ?case
  proof (cases i)
    case 0
    then show ?thesis
      using Cons.prems phase_steps_entry [of s "phe_step ph" previous p 0] by (auto simp: phase_needs_def)
  next
    case (Suc j)
    then obtain q where "(s, phase_needs (map ste_id (phe_step ph)) phs j s, q)
        \<in> set (phase_entries (p + 1) (map ste_id (phe_step ph)) phs)"
      using Cons.IH [of j "map ste_id (phe_step ph)" "p + 1"] Cons.prems by auto
    moreover have "phase_needs (map ste_id (phe_step ph)) phs j s = phase_needs previous (ph # phs) i s"
      using Suc by (cases j) (simp_all add: phase_needs_def)
    ultimately show ?thesis by auto
  qed
qed simp

lemma flat_phase_entry:
  assumes "i < length (file_phase f)" and "s \<in> set (phe_step (file_phase f ! i))"
  obtains q where "(s, phase_needs [] (file_phase f) i s, q) \<in> set (flat_entries f)"
  using phase_entries_entry [OF assms, of "[]" 0] by (auto simp: flat_entries_def)

text \<open>The same file with the phases written out as steps with explicit needs.\<close>

definition unphased :: "workflow_file \<Rightarrow> workflow_file" where
  "unphased f = f\<lparr>file_step := map (\<lambda>(s, needs, p). s\<lparr>ste_needs := needs\<rparr>) (flat_entries f), file_phase := []\<rparr>"

abbreviation entry_key :: "flat_entry \<Rightarrow> string \<times> string list \<times> job_entry" where
  "entry_key e \<equiv> (ste_id (fst e), fst (snd e), ste_job (fst e))"

lemma step_entries_keys:
  "map entry_key (step_entries i (map (\<lambda>(s, needs, p). s\<lparr>ste_needs := needs\<rparr>) es)) = map entry_key es"
  by (induction es arbitrary: i) auto

lemma unphased_keys: "map entry_key (flat_entries (unphased f)) = map entry_key (flat_entries f)"
proof -
  have "flat_entries (unphased f) = step_entries 0 (map (\<lambda>(s, needs, p). s\<lparr>ste_needs := needs\<rparr>) (flat_entries f))"
    by (simp add: unphased_def flat_entries_def)
  then show ?thesis by (simp only: step_entries_keys)
qed

lemma entry_spec_keys:
  assumes "map entry_key es = map entry_key es'"
  shows "map (entry_spec c) es = map (entry_spec c) es'"
proof -
  have "map (entry_spec c) xs =
      map (\<lambda>(i, needs, j). \<lparr>spec_id = i, spec_needs = needs, spec_job = the (job_of c j)\<rparr>) (map entry_key xs)" for xs
    by (simp add: entry_spec_def case_prod_unfold)
  then show ?thesis by (simp only: assms)
qed

lemma file_ok_keys:
  assumes keys: "map entry_key (flat_entries g) = map entry_key (flat_entries f)"
    and "file_schema_version g = file_schema_version f" and "file_step f = [] \<or> file_phase f = []"
    and "file_step g = [] \<or> file_phase g = []"
  shows "file_ok catalog g \<longleftrightarrow> file_ok catalog f"
proof -
  have sets: "entry_key ` set (flat_entries g) = entry_key ` set (flat_entries f)"
    using arg_cong [OF keys, of set] by simp
  have ids: "declared_ids h = fst ` entry_key ` set (flat_entries h)" for h
    by (simp add: declared_ids_def image_image comp_def)
  have ok: "file_ok catalog h \<longleftrightarrow> file_schema_version h = 1 \<and> (file_step h = [] \<or> file_phase h = [])
     \<and> (\<forall>(i, needs, j) \<in> entry_key ` set (flat_entries h). set needs \<subseteq> declared_ids h \<and> job_of catalog j \<noteq> None)" for h
    by (simp add: file_ok_def case_prod_unfold)
  show ?thesis
    unfolding ok ids sets using assms by simp
qed

section \<open>Positions in an order\<close>

definition before :: "string list \<Rightarrow> string \<Rightarrow> string \<Rightarrow> bool" where
  "before order a b \<longleftrightarrow> (\<exists>m n. m < n \<and> n < length order \<and> order ! m = a \<and> order ! n = b)"

lemma before_trans: "distinct order \<Longrightarrow> before order a b \<Longrightarrow> before order b c \<Longrightarrow> before order a c"
  unfolding before_def by (metis dual_order.strict_trans nth_eq_iff_index_eq)

lemma compiled_before:
  assumes comp: "compile i v specs = Some (Inr d)" and s: "s \<in> set specs" and need: "a \<in> set (spec_needs s)"
  shows "before (wf_order d) a (spec_id s)"
proof -
  have wf: "well_formed i v specs" and d: "distinct (map spec_id specs)"
    and eq: "wf_order d = kahn_order (insert_all [] specs)"
    using comp by (auto simp: compile_Inr well_formed_def)
  have ord: "authored_order specs (wf_order d)"
    using well_formed_order(1) [OF wf] by (simp add: eq authored_order_topological [OF d])
  then have "spec_id s \<in> set (wf_order d)" using s by (auto simp: authored_order_def)
  then obtain n where n: "n < length (wf_order d)" "wf_order d ! n = spec_id s"
    by (auto simp: in_set_conv_nth)
  then have "a \<in> set (take n (wf_order d))"
    using ord s need by (auto simp: authored_order_def)
  then obtain m where "m < n" "m < length (wf_order d)" "wf_order d ! m = a"
    by (auto simp: in_set_conv_nth)
  with n show ?thesis by (auto simp: before_def)
qed

lemma compiled_order_distinct: "compile i v specs = Some (Inr d) \<Longrightarrow> distinct (wf_order d)"
  using well_formed_order(1) by (auto simp: compile_Inr topological_order_def)

lemma config_compile_accepted:
  assumes "config_compile parse show_ids fname document catalog = Some (Inr d)" and "parse document = Inr f"
  shows "file_ok catalog f"
    and "compile (hdr_id (file_workflow f)) (hdr_version (file_workflow f)) (map (entry_spec catalog) (flat_entries f)) = Some (Inr d)"
  using assms by (cases rule: config_compile_facts [of parse show_ids fname document catalog]; simp)+

section \<open>Properties\<close>

text \<open>C37: the compiler never panics; a refusal has at least one diagnostic and each names a place in the file; and it
  succeeds exactly when the document parses, has the schema version of this build, uses one of the two
  authoring forms, every need names a declared step, every job resolves against the catalog, and the
  flattened steps form a workflow: the definition is then the one of those steps.\<close>

theorem config_compile_decides:
  "config_compile parse show_ids fname document catalog \<noteq> None
   \<and> (\<forall>ds. config_compile parse show_ids fname document catalog = Some (Inl ds) \<longrightarrow>
        ds \<noteq> [] \<and> (\<forall>d \<in> set ds. located fname d))
   \<and> (\<forall>d. config_compile parse show_ids fname document catalog = Some (Inr d) \<longleftrightarrow>
        (\<exists>f. parse document = Inr f \<and> file_ok catalog f
           \<and> compile (hdr_id (file_workflow f)) (hdr_version (file_workflow f)) (map (entry_spec catalog) (flat_entries f))
               = Some (Inr d)))"
  by (cases rule: config_compile_facts [of parse show_ids fname document catalog]) auto

text \<open>Phases are sugar: a file that uses phases compiles to exactly the definition of the file that lists the same
  steps with the previous phase written out in their needs.\<close>

theorem phases_are_sugar:
  assumes "file_step f = []"
  shows "config_compile (\<lambda>_. Inr f) show_ids fname document catalog = Some (Inr d) \<longleftrightarrow>
    config_compile (\<lambda>_. Inr (unphased f)) show_ids fname document catalog = Some (Inr d)"
proof -
  have ok: "file_ok catalog (unphased f) \<longleftrightarrow> file_ok catalog f"
    using assms unphased_keys [of f] by (intro file_ok_keys) (simp_all add: unphased_def)
  have specs: "map (entry_spec catalog) (flat_entries (unphased f)) = map (entry_spec catalog) (flat_entries f)"
    by (rule entry_spec_keys) (rule unphased_keys)
  have head: "file_workflow (unphased f) = file_workflow f" by (simp add: unphased_def)
  have decides: "config_compile (\<lambda>_. Inr g) show_ids fname document catalog = Some (Inr d) \<longleftrightarrow>
      file_ok catalog g \<and> compile (hdr_id (file_workflow g)) (hdr_version (file_workflow g)) (map (entry_spec catalog) (flat_entries g))
        = Some (Inr d)" for g
    by (cases rule: config_compile_facts [of "\<lambda>_. Inr g" show_ids fname document catalog]) auto
  show ?thesis by (simp only: decides ok specs head)
qed

text \<open>C38: what a phase waits for. In a compiled file every step of a phase depends on what it names and on every step
  of the phase directly before, and when no phase is empty every step of an earlier phase comes before
  every step of a later one. The condition matters: behind an empty phase a step waits for nothing but
  the needs it names.\<close>

theorem phases_in_order:
  assumes comp: "config_compile parse show_ids fname document catalog = Some (Inr d)" and parsed: "parse document = Inr f"
    and j: "j < length (file_phase f)" and b: "b \<in> set (phe_step (file_phase f ! j))"
  shows "(\<exists>def. wf_step d (ste_id b) = Some def
            \<and> set (def_needs def) = set (ste_needs b) \<union> (if j = 0 then {} else ste_id ` set (phe_step (file_phase f ! (j - 1)))))
    \<and> ((\<forall>ph \<in> set (file_phase f). phe_step ph \<noteq> []) \<longrightarrow>
        (\<forall>i < j. \<forall>a \<in> set (phe_step (file_phase f ! i)). before (wf_order d) (ste_id a) (ste_id b)))"
proof -
  have c: "compile (hdr_id (file_workflow f)) (hdr_version (file_workflow f)) (map (entry_spec catalog) (flat_entries f)) = Some (Inr d)"
    by (rule config_compile_accepted(2) [OF comp parsed])
  have spec: "\<exists>s \<in> set (map (entry_spec catalog) (flat_entries f)). spec_id s = ste_id x \<and> spec_needs s = phase_needs [] (file_phase f) n x"
    if "n < length (file_phase f)" and "x \<in> set (phe_step (file_phase f ! n))" for n x
    by (rule flat_phase_entry [OF that]) (force simp: image_iff intro!: bexI)
  obtain s where s: "s \<in> set (map (entry_spec catalog) (flat_entries f))" "spec_id s = ste_id b"
      "spec_needs s = phase_needs [] (file_phase f) j b"
    using spec [OF j b] by blast
  have "wf_step d (ste_id b) = Some (spec_definition s)"
    using compiled_entry [OF c s(1)] by (simp add: s(2))
  moreover have "set (def_needs (spec_definition s)) =
      set (ste_needs b) \<union> (if j = 0 then {} else ste_id ` set (phe_step (file_phase f ! (j - 1))))"
    by (simp add: spec_definition_def s(3) phase_needs_def)
  moreover have "before (wf_order d) (ste_id a) (ste_id x)"
    if full: "\<forall>ph \<in> set (file_phase f). phe_step ph \<noteq> []" and "i < n" and "n < length (file_phase f)"
      and "a \<in> set (phe_step (file_phase f ! i))" and "x \<in> set (phe_step (file_phase f ! n))" for i n a x
    using that(2-)
  proof (induction n arbitrary: x)
    case (Suc n)
    have direct: "before (wf_order d) (ste_id y) (ste_id x)" if "y \<in> set (phe_step (file_phase f ! n))" for y
    proof -
      obtain t where "t \<in> set (map (entry_spec catalog) (flat_entries f))" "spec_id t = ste_id x"
          "spec_needs t = phase_needs [] (file_phase f) (Suc n) x"
        using spec [OF Suc.prems(2,4)] by blast
      then show ?thesis
        using compiled_before [OF c, of t "ste_id y"] that by (simp add: phase_needs_def)
    qed
    show ?case
    proof (cases "i = n")
      case True
      then show ?thesis using direct Suc.prems(3) by simp
    next
      case False
      have "phe_step (file_phase f ! n) \<noteq> []" using full Suc.prems(2) by simp
      then obtain y where y: "y \<in> set (phe_step (file_phase f ! n))" by (cases "phe_step (file_phase f ! n)") auto
      have "before (wf_order d) (ste_id a) (ste_id y)"
        using Suc.IH [OF _ _ Suc.prems(3) y] False Suc.prems(1,2) by simp
      then show ?thesis
        using before_trans [OF compiled_order_distinct [OF c]] direct [OF y] by blast
    qed
  qed simp
  ultimately show ?thesis using j b by (intro conjI exI [of _ "spec_definition s"]) auto
qed

section \<open>Witnesses\<close>

definition sample_entry :: "string \<Rightarrow> string list \<Rightarrow> job_entry \<Rightarrow> step_entry" where
  "sample_entry i needs j = \<lparr>ste_id = i, ste_needs = needs, ste_job = j\<rparr>"

definition sample_file :: workflow_file where
  "sample_file =
     \<lparr>file_schema_version = 1, file_workflow = \<lparr>hdr_id = ''w'', hdr_version = ''v''\<rparr>, file_step = [],
      file_phase =
        [\<lparr>phe_name = ''1'', phe_step = [sample_entry ''a'' [] (MechanicalEntry ''read_branch'' [])]\<rparr>,
         \<lparr>phe_name = ''2'', phe_step = [sample_entry ''b'' [] (AgentEntry ''reviewer'' ''go'')]\<rparr>]\<rparr>"

definition sample_catalog :: "nat profile_catalog" where
  "sample_catalog = catalog_example"

lemma sample_compiles:
  obtains d where "config_compile (\<lambda>_. Inr sample_file) (\<lambda>_. []) ''f'' [] sample_catalog = Some (Inr d)"
proof -
  have "case config_compile (\<lambda>_. Inr sample_file) (\<lambda>_. []) ''f'' [] sample_catalog of Some (Inr _) \<Rightarrow> True | _ \<Rightarrow> False"
    by code_simp
  then show ?thesis using that by (auto split: option.splits sum.splits)
qed

theorem config_compile_decides_witness:
  "\<exists>d. config_compile (\<lambda>_. Inr sample_file) (\<lambda>_. []) ''f'' [] sample_catalog = Some (Inr d) \<and> file_ok sample_catalog sample_file"
proof -
  obtain d where "config_compile (\<lambda>_. Inr sample_file) (\<lambda>_. []) ''f'' [] sample_catalog = Some (Inr d)"
    by (rule sample_compiles)
  with config_compile_decides [of "\<lambda>_. Inr sample_file" "\<lambda>_. []" "''f''" "[]" sample_catalog] show ?thesis by fastforce
qed

theorem phases_are_sugar_witness:
  "\<exists>d. config_compile (\<lambda>_. Inr (unphased sample_file)) (\<lambda>_. []) ''f'' [] sample_catalog = Some (Inr d)"
proof -
  have "file_step sample_file = []" by (simp add: sample_file_def)
  moreover obtain d where "config_compile (\<lambda>_. Inr sample_file) (\<lambda>_. []) ''f'' [] sample_catalog = Some (Inr d)"
    by (rule sample_compiles)
  ultimately show ?thesis using phases_are_sugar [of sample_file "\<lambda>_. []" "''f''" "[]" sample_catalog d] by blast
qed

theorem phases_in_order_witness:
  "\<exists>d. config_compile (\<lambda>_. Inr sample_file) (\<lambda>_. []) ''f'' [] sample_catalog = Some (Inr d) \<and> before (wf_order d) ''a'' ''b''"
proof -
  obtain d where d: "config_compile (\<lambda>_. Inr sample_file) (\<lambda>_. []) ''f'' [] sample_catalog = Some (Inr d)"
    by (rule sample_compiles)
  have "1 < length (file_phase sample_file)"
    and "sample_entry ''b'' [] (AgentEntry ''reviewer'' ''go'') \<in> set (phe_step (file_phase sample_file ! 1))"
    by (simp_all add: sample_file_def)
  from phases_in_order [OF d refl this] show ?thesis
    using d by (auto simp: sample_file_def sample_entry_def)
qed

text \<open>A step behind an empty phase does not wait for the phase before that one.\<close>

definition gap_file :: workflow_file where
  "gap_file = sample_file\<lparr>file_phase :=
     [file_phase sample_file ! 0, \<lparr>phe_name = ''gap'', phe_step = []\<rparr>, file_phase sample_file ! 1]\<rparr>"

lemma empty_phase_forgets:
  assumes "config_compile (\<lambda>_. Inr gap_file) (\<lambda>_. []) ''f'' [] sample_catalog = Some (Inr d)"
  shows "\<exists>def. wf_step d ''b'' = Some def \<and> def_needs def = []"
proof -
  have c: "compile ''w'' ''v'' (map (entry_spec sample_catalog) (flat_entries gap_file)) = Some (Inr d)"
    using config_compile_accepted(2) [OF assms refl] by (simp add: gap_file_def sample_file_def)
  let ?b = "sample_entry ''b'' [] (AgentEntry ''reviewer'' ''go'')"
  have "2 < length (file_phase gap_file)" and "?b \<in> set (phe_step (file_phase gap_file ! 2))"
    by (simp_all add: gap_file_def sample_file_def)
  from flat_phase_entry [OF this] obtain q where "(?b, phase_needs [] (file_phase gap_file) 2 ?b, q) \<in> set (flat_entries gap_file)" .
  moreover have "phase_needs [] (file_phase gap_file) 2 ?b = []"
    by (simp add: phase_needs_def gap_file_def sample_entry_def)
  ultimately have "entry_spec sample_catalog (?b, [], q) \<in> set (map (entry_spec sample_catalog) (flat_entries gap_file))"
    by (metis image_eqI image_set)
  from compiled_entry [OF c this] show ?thesis
    by (simp add: sample_entry_def spec_definition_def)
qed

lemma empty_phase_compiles: "\<exists>d. config_compile (\<lambda>_. Inr gap_file) (\<lambda>_. []) ''f'' [] sample_catalog = Some (Inr d)"
proof -
  have "case config_compile (\<lambda>_. Inr gap_file) (\<lambda>_. []) ''f'' [] sample_catalog of Some (Inr _) \<Rightarrow> True | _ \<Rightarrow> False"
    by code_simp
  then show ?thesis by (auto split: option.splits sum.splits)
qed

end
