(* ===== verification/Repository_Worker.thy ===== *)
theory Repository_Worker
  imports Repository_Compile Agent_Step
begin

text \<open>
  The dispatcher of the repository worker (\<^verbatim>\<open>examples/repository-worker/src/dispatch.rs\<close>) and the host's
  wiring (\<^verbatim>\<open>main.rs\<close>): one service for mechanical and agent steps, which plans a compiled step again
  and routes it to the provider compilation recorded. \<open>None\<close> is a panic of the planner.
\<close>

section \<open>Steps\<close>

record step_output =
  so_text :: string

record run_input =
  ri_repository :: string
  ri_branch :: string

type_synonym worker_step = "(run_input, job, step_output) step_call"

record ('j, 'v) repository_worker =
  rw_router :: "('j, 'v turn_outcome) routed_turn_service"
  rw_profiles :: "'j profile_catalog"

definition run_mechanical :: "mechanical_op \<Rightarrow> (string, string) btree_map \<Rightarrow> worker_step \<Rightarrow> step_output" where
  "run_mechanical m args call = \<lparr>so_text = (case m of
       ReadBranch \<Rightarrow> ri_repository (call_input call) @ ''@'' @ ri_branch (call_input call)
     | CountFiles \<Rightarrow> ''counted files matching '' @ unwrap_or (map_of args ''pattern'') ''*''
     | Collect \<Rightarrow> ''collected ['' @ join_with '' | '' (map so_text (bt_values (call_dependencies call))) @ '']'')\<rparr>"

section \<open>Planning a compiled step\<close>

definition internal_refusal :: "string \<Rightarrow> agent_error" where
  "internal_refusal message = error_new Internal message Validation EffNone"

definition worker_plan ::
  "'j profile_catalog \<Rightarrow> string \<Rightarrow> string \<Rightarrow> provider_id \<Rightarrow> (agent_error + 'j ready_turn) option" where
  "worker_plan profiles profile prompt compiled_provider =
     (case catalog_get profiles profile of
        None \<Rightarrow> Some (Inl (internal_refusal ''compiled step names a profile the catalog no longer has''))
      | Some saved \<Rightarrow>
          if par_provider (prof_turn saved) \<noteq> Some compiled_provider
          then Some (Inl (internal_refusal ''profile now selects a different provider than compilation recorded''))
          else (case plan_prepare (profile_layers saved prompt) of
                  None \<Rightarrow> None
                | Some (PreparedReady ready) \<Rightarrow> Some (Inr ready)
                | Some (PreparedMissing _ requirements) \<Rightarrow> Some (Inl (internal_refusal
                    (''compiled step is missing '' @ show_nat (length requirements) @ '' value(s) that compilation accepted'')))
                | Some (PreparedInvalid diagnostics) \<Rightarrow> Some (Inl (internal_refusal
                    (''compiled step became invalid after compilation: '' @ show_nat (length diagnostics) @ '' diagnostic(s)'')))))"

text \<open>
  The call of one step: its ending and whether a provider was called. The context of the request is the
  step's own (\<open>StepCall::agent_context\<close>), with the fresh operation id and token of \<open>CallContext::new\<close>.
\<close>

definition worker_call ::
  "('j, 'v) repository_worker \<Rightarrow> operation_id \<Rightarrow> token \<Rightarrow> worker_step \<Rightarrow> (step_output ending \<times> bool) option" where
  "worker_call w op fresh call = (case call_job call of
       MechanicalJob m args \<Rightarrow> Some (ending.Settled (Inr (run_mechanical m args call)), False)
     | AgentJob profile prompt provider \<Rightarrow>
         (case worker_plan (rw_profiles w) profile prompt provider of
            None \<Rightarrow> None
          | Some (Inl e) \<Rightarrow> Some (ending.Settled (Inl e), False)
          | Some (Inr ready) \<Rightarrow>
              (case routed_call (rw_router w) (agent_request_with_context ready (agent_context op fresh call)) of
                 (x, reached) \<Rightarrow> Some (map_ending (\<lambda>outcome. \<lparr>so_text = out_output outcome\<rparr>) x, reached))))"

section \<open>The host\<close>

text \<open>A provider that answers in process, and the router the example registers it in.\<close>

definition answering_provider :: "string \<Rightarrow> ('o turn agent_request, 'v turn_outcome) service" where
  "answering_provider label request =
     (ending.Settled (Inr (turn_outcome_new (label @ '' answered: '' @ turn_prompt (req_body request)))), True)"

definition example_router :: "('j, 'v turn_outcome) routed_turn_service" where
  "example_router =
     routed_with_codex (routed_with_claude routed_new (answering_provider ''claude'')) (answering_provider ''codex'')"

definition example_worker :: "('j, 'v) repository_worker" where
  "example_worker = \<lparr>rw_router = example_router, rw_profiles = catalog_example\<rparr>"

text \<open>What \<open>run\<close> reports when the file does not compile.\<close>

definition run_refusal :: "config_diagnostic list \<Rightarrow> string" where
  "run_refusal ds = join_with [CHR 0x0A] (map config_diagnostic_display ds)"

section \<open>Compilation and dispatch agree\<close>

lemma merge_explicit: "merge_turn t (explicit_prompt prompt) = t\<lparr>par_prompt := Some prompt\<rparr>"
  using models.overlay_unbound_high contexts.overlay_unbound_high permissions.overlay_unbound_high
    provider_options.overlay_unbound_high
  by (cases t) (simp add: merge_turn_def explicit_prompt_def unbound_turn_def overlay_option_def)

lemma merge_profile:
  "merge_layers (profile_layers saved prompt) = (prof_turn saved)\<lparr>par_prompt := Some prompt\<rparr>"
  by (simp add: merge_layers_def baseline_def merge_upper_def profile_layers_def with_profile_def layers_new_def
      turns.overlay_unbound_low merge_explicit split: option.split)

lemma resolve_profile:
  assumes "resolve (profile_layers saved prompt) = Complete m"
  shows "m = (prof_turn saved)\<lparr>par_prompt := Some prompt\<rparr>"
proof -
  have "ly_answers (profile_layers saved prompt) = []"
    by (simp add: profile_layers_def with_profile_def layers_new_def)
  then show ?thesis
    using assms by (simp add: resolve_def merge_profile Let_def split: if_splits)
qed

text \<open>What a resolution lets through and the planner of its provider then refuses.\<close>

definition unplannable_turn :: "'j partial_turn \<Rightarrow> provider_id \<Rightarrow> bool" where
  "unplannable_turn t p = (case p of
       Claude \<Rightarrow> pp_filesystem (par_permissions t) \<noteq> None
     | Codex \<Rightarrow> pc_resume (par_context t) \<noteq> None \<and> unwrap_or (pc_additional_directories (par_context t)) [] \<noteq> [])"

lemma plan_compile_refuses:
  assumes "par_provider m = Some p" and "par_prompt m = Some prompt"
  shows "(\<exists>ds. plan_compile m = Some (Inl ds)) \<longleftrightarrow> unplannable_turn m p"
  using assms
  by (cases p)
    (auto simp: plan_compile_def claude_plan_def codex_plan_def resolved_provider_def resolved_prompt_def
      unplannable_turn_def Let_def is_some_iff)

definition ready_prompt :: "'j ready_turn \<Rightarrow> string" where
  "ready_prompt t = (case t of ReadyClaude c \<Rightarrow> turn_prompt c | ReadyCodex x \<Rightarrow> turn_prompt x)"

lemma job_of_agent:
  assumes "job_of catalog entry = Some (AgentJob profile prompt p)"
  obtains saved where "entry = AgentEntry profile prompt" and "catalog_get catalog profile = Some saved"
    and "resolve (profile_layers saved prompt) = Complete ((prof_turn saved)\<lparr>par_prompt := Some prompt\<rparr>)"
    and "par_provider (prof_turn saved) = Some p"
proof (cases entry)
  case (AgentEntry profile' prompt')
  then show ?thesis
    using assms that
    by (auto simp: job_of_def dest: resolve_profile split: option.splits resolution.splits)
next
  case (MechanicalEntry operation args)
  then show ?thesis using assms by (auto simp: job_of_def)
qed

lemma worker_plan_compiled:
  assumes job: "job_of catalog entry = Some (AgentJob profile prompt p)"
    and saved: "catalog_get catalog profile = Some saved"
  shows "if unplannable_turn (prof_turn saved) p
         then \<exists>n. worker_plan catalog profile prompt p =
                Some (Inl (internal_refusal (''compiled step became invalid after compilation: '' @ show_nat n @ '' diagnostic(s)'')))
         else \<exists>t. worker_plan catalog profile prompt p = Some (Inr t) \<and> ready_provider t = p \<and> ready_prompt t = prompt
                \<and> pinned_session_matches t = Inr ()"
proof -
  let ?m = "(prof_turn saved)\<lparr>par_prompt := Some prompt\<rparr>"
  have complete: "resolve (profile_layers saved prompt) = Complete ?m" and p: "par_provider (prof_turn saved) = Some p"
    using job saved by (auto elim: job_of_agent)
  have same: "unplannable_turn ?m p = unplannable_turn (prof_turn saved) p"
    by (simp add: unplannable_turn_def split: provider_id.split)
  obtain r where r: "plan_compile ?m = Some r"
    using plan_compile_total [OF complete] by blast
  have refuses: "(\<exists>ds. r = Inl ds) \<longleftrightarrow> unplannable_turn (prof_turn saved) p"
    using plan_compile_refuses [of ?m p prompt] p r same by simp
  show ?thesis
  proof (cases r)
    case (Inl ds)
    then have "worker_plan catalog profile prompt p =
        Some (Inl (internal_refusal (''compiled step became invalid after compilation: '' @ show_nat (length ds) @ '' diagnostic(s)'')))"
      using r by (simp add: worker_plan_def saved p plan_prepare_def complete)
    then show ?thesis using refuses Inl by auto
  next
    case (Inr t)
    then have plan: "plan_prepare (profile_layers saved prompt) = Some (PreparedReady t)"
      using r by (simp add: plan_prepare_def complete)
    then have "plan_represents ?m t" and "pinned_session_matches t = Inr ()"
      using prepare_represents [of "profile_layers saved prompt"] complete by auto
    then have "ready_provider t = p \<and> ready_prompt t = prompt \<and> pinned_session_matches t = Inr ()"
      using p by (auto simp: plan_represents_def ready_prompt_def split: ready_turn.splits)
    then show ?thesis
      using refuses Inr plan by (auto simp: worker_plan_def saved p)
  qed
qed

text \<open>The registered service of a provider, as a service of the router's requests.\<close>

definition registered ::
  "('j, 'v) routed_turn_service \<Rightarrow> 'j ready_turn agent_request \<Rightarrow> ('v ending \<times> bool) option" where
  "registered r request = (case req_body request of
       ReadyClaude t \<Rightarrow> map_option (\<lambda>s. s (agent_request_with_context t (req_context request))) (rt_claude r)
     | ReadyCodex t \<Rightarrow> map_option (\<lambda>s. s (agent_request_with_context t (req_context request))) (rt_codex r))"

lemma routed_registered:
  assumes "pinned_session_matches t = Inr ()"
  shows "routed_call r (agent_request_with_context t ctx) =
    (case registered r (agent_request_with_context t ctx) of
       None \<Rightarrow> (ending.Settled (Inl (unregistered (ready_provider t))), False)
     | Some y \<Rightarrow> y)"
  using assms
  by (cases t) (auto simp: routed_call_def registered_def agent_request_with_context_def split: option.split)

lemma compiled_step_entry:
  assumes comp: "compile i v specs = Some (Inr d)" and step: "wf_step d sid = Some def"
  obtains s where "s \<in> set specs" and "def = spec_definition s"
proof -
  have d: "distinct (map spec_id specs)" and eq: "wf_steps d = insert_all [] specs"
    using comp by (auto simp: compile_Inr well_formed_def)
  have "(sid, def) \<in> set (insert_all [] specs)"
    using step by (simp add: wf_step_def eq map_of_SomeD)
  then show ?thesis
    using insert_all_set [OF d] that by (auto simp: spec_entry_def)
qed

lemma example_profile:
  assumes "catalog_get (catalog_example :: 'j profile_catalog) name = Some saved" and "par_provider (prof_turn saved) = Some p"
  shows "\<not> unplannable_turn (prof_turn saved) p"
  using assms
  by (auto simp: catalog_get_def catalog_example_def unplannable_turn_def unbound_turn_def unbound_permissions_def
      unbound_context_def split: if_splits provider_id.split)

section \<open>Properties\<close>

text \<open>C39: a compiled agent step at run time, with the catalog it was compiled against. Planning never panics. Unless
  the profile asks for what its planner refuses (a portable filesystem permission for Claude, extra
  directories on a resumed Codex session), the step makes exactly the call of the service registered
  for the provider compilation recorded, with the configured prompt, in the step's own context, and
  answers with its output text. In the excepted case compilation has accepted a step that can only fail,
  as an internal error before launch.\<close>

theorem compiled_step_runs:
  assumes job: "job_of catalog entry = Some (AgentJob profile prompt p)"
    and saved: "catalog_get catalog profile = Some saved" and catalog: "rw_profiles w = catalog"
    and call: "call_job call = AgentJob profile prompt p"
  shows "if unplannable_turn (prof_turn saved) p
    then \<exists>e. worker_call w op fresh call = Some (ending.Settled (Inl e), False) \<and> pure_refusal e \<and> err_kind e = Internal
    else \<exists>t. ready_provider t = p \<and> ready_prompt t = prompt
       \<and> worker_call w op fresh call =
           (case registered (rw_router w) (agent_request_with_context t (agent_context op fresh call)) of
              None \<Rightarrow> Some (ending.Settled (Inl (unregistered p)), False)
            | Some (x, reached) \<Rightarrow> Some (map_ending (\<lambda>outcome. \<lparr>so_text = out_output outcome\<rparr>) x, reached))"
proof (cases "unplannable_turn (prof_turn saved) p")
  case True
  then obtain n where "worker_plan catalog profile prompt p =
      Some (Inl (internal_refusal (''compiled step became invalid after compilation: '' @ show_nat n @ '' diagnostic(s)'')))"
    using worker_plan_compiled [OF job saved] by auto
  then show ?thesis
    using True by (simp add: worker_call_def call catalog internal_refusal_def error_new_def pure_refusal_def)
next
  case False
  then obtain t where t: "worker_plan catalog profile prompt p = Some (Inr t)" "ready_provider t = p" "ready_prompt t = prompt"
      "pinned_session_matches t = Inr ()"
    using worker_plan_compiled [OF job saved] by auto
  then show ?thesis
    using False
    by (intro if_not_P [THEN iffD2] exI [of _ t])
      (auto simp: worker_call_def call catalog routed_registered [OF t(4)] split: option.split)
qed

text \<open>Every step of a file compiled for the example host answers: a mechanical step without calling any provider,
  an agent step by one call of the provider of its profile, with its prompt.\<close>

theorem example_steps_answer:
  assumes comp: "config_compile parse show_ids fname document (catalog_example :: 'j profile_catalog) = Some (Inr d)"
    and step: "wf_step d sid = Some def" and call: "call_job call = def_job def"
  shows "worker_call (example_worker :: ('j, 'v) repository_worker) op fresh call =
    (case def_job def of
       MechanicalJob m args \<Rightarrow> Some (ending.Settled (Inr (run_mechanical m args call)), False)
     | AgentJob profile prompt p \<Rightarrow>
         Some (ending.Settled (Inr \<lparr>so_text = provider_as_str p @ '' answered: '' @ prompt\<rparr>), True))"
proof -
  obtain f where f: "parse document = Inr f" "file_ok (catalog_example :: 'j profile_catalog) f"
      "compile (hdr_id (file_workflow f)) (hdr_version (file_workflow f))
         (map (entry_spec (catalog_example :: 'j profile_catalog)) (flat_entries f)) = Some (Inr d)"
    using comp by (cases rule: config_compile_facts [of parse show_ids fname document "catalog_example :: 'j profile_catalog"]) auto
  obtain s where s: "s \<in> set (map (entry_spec (catalog_example :: 'j profile_catalog)) (flat_entries f))" "def = spec_definition s"
    by (rule compiled_step_entry [OF f(3) step])
  then obtain x needs q where x: "(x, needs, q) \<in> set (flat_entries f)"
      and job: "def_job def = the (job_of (catalog_example :: 'j profile_catalog) (ste_job x))"
    by (auto simp: spec_definition_def entry_spec_def)
  have some: "job_of (catalog_example :: 'j profile_catalog) (ste_job x) = Some (def_job def)"
    using f(2) x job by (auto simp: file_ok_def)
  show ?thesis
  proof (cases "def_job def")
    case (MechanicalJob m args)
    then show ?thesis by (simp add: worker_call_def call)
  next
    case (AgentJob profile prompt p)
    obtain saved where saved: "catalog_get (catalog_example :: 'j profile_catalog) profile = Some saved" "par_provider (prof_turn saved) = Some p"
      using some AgentJob by (auto elim: job_of_agent)
    obtain t where t: "worker_plan (catalog_example :: 'j profile_catalog) profile prompt p = Some (Inr t)"
        "ready_provider t = p" "ready_prompt t = prompt" "pinned_session_matches t = Inr ()"
      using worker_plan_compiled [OF some [unfolded AgentJob] saved(1)] example_profile [OF saved] by auto
    have "registered (example_router :: ('j, 'v turn_outcome) routed_turn_service) (agent_request_with_context t ctx) =
        Some (ending.Settled (Inr (turn_outcome_new (provider_as_str p @ '' answered: '' @ prompt))), True)" for ctx
      using t(2,3)
      by (cases t) (auto simp: registered_def example_router_def routed_with_claude_def routed_with_codex_def
          routed_new_def answering_provider_def agent_request_with_context_def ready_prompt_def)
    then show ?thesis
      by (simp add: worker_call_def call AgentJob example_worker_def t(1) routed_registered [OF t(4)] turn_outcome_new_def)
  qed
qed

section \<open>Witnesses\<close>

definition sample_step :: "job \<Rightarrow> worker_step" where
  "sample_step j =
     \<lparr>call_run_id = ''r'', call_workflow_id = ''w'', call_workflow_version = ''1'', call_step_id = ''b'',
      call_input = \<lparr>ri_repository = ''repo'', ri_branch = ''main''\<rparr>, call_job = j,
      call_dependencies = [], call_cancellation = [0], call_deadline = None\<rparr>"

text \<open>A Claude profile with a portable filesystem permission compiles and can only fail.\<close>

definition narrow_profile :: "nat profile" where
  "narrow_profile =
     \<lparr>prof_name = ''narrow'',
      prof_turn = unbound_turn\<lparr>par_provider := Some Claude, par_permissions := \<lparr>pp_filesystem = Some ChooseReadOnly\<rparr>\<rparr>\<rparr>"

definition narrow_catalog :: "nat profile_catalog" where
  "narrow_catalog = \<lparr>cat_profiles = [(''narrow'', narrow_profile)]\<rparr>"

theorem compiled_step_runs_witness:
  "job_of narrow_catalog (AgentEntry ''narrow'' ''go'') = Some (AgentJob ''narrow'' ''go'' Claude) \<and>
   (\<exists>e. worker_call \<lparr>rw_router = (example_router :: (nat, unit turn_outcome) routed_turn_service), rw_profiles = narrow_catalog\<rparr>
          1 [0] (sample_step (AgentJob ''narrow'' ''go'' Claude)) = Some (ending.Settled (Inl e), False) \<and> err_kind e = Internal)"
proof -
  have job: "job_of narrow_catalog (AgentEntry ''narrow'' ''go'') = Some (AgentJob ''narrow'' ''go'' Claude)"
    by code_simp
  have saved: "catalog_get narrow_catalog ''narrow'' = Some narrow_profile"
    by (simp add: catalog_get_def narrow_catalog_def)
  have bad: "unplannable_turn (prof_turn narrow_profile) Claude"
    by (simp add: unplannable_turn_def narrow_profile_def)
  have "call_job (sample_step (AgentJob ''narrow'' ''go'' Claude)) = AgentJob ''narrow'' ''go'' Claude"
    by (simp add: sample_step_def)
  from compiled_step_runs [OF job saved _ this, of "\<lparr>rw_router = (example_router :: (nat, unit turn_outcome) routed_turn_service),
      rw_profiles = narrow_catalog\<rparr>" 1 "[0]"] show ?thesis
    using bad job by auto
qed

theorem example_steps_answer_witness:
  "\<exists>d def. config_compile (\<lambda>_. Inr sample_file) (\<lambda>_. []) ''f'' [] sample_catalog = Some (Inr d) \<and> wf_step d ''b'' = Some def \<and>
     worker_call (example_worker :: (nat, unit) repository_worker) 1 [0] (sample_step (def_job def)) \<noteq> None"
proof -
  obtain d where d: "config_compile (\<lambda>_. Inr sample_file) (\<lambda>_. []) ''f'' [] sample_catalog = Some (Inr d)"
    by (rule sample_compiles)
  have "case config_compile (\<lambda>_. Inr sample_file) (\<lambda>_. []) ''f'' [] sample_catalog of
      Some (Inr x) \<Rightarrow> is_some (wf_step x ''b'') | _ \<Rightarrow> False"
    by code_simp
  with d obtain def where def: "wf_step d ''b'' = Some def" by (auto simp: is_some_iff)
  have "call_job (sample_step (def_job def)) = def_job def" by (simp add: sample_step_def)
  from example_steps_answer [OF d [unfolded sample_catalog_def] def this, of 1 "[0]"] show ?thesis
    using d def by (auto split: job.splits)
qed

end
