(* ===== verification/Local_Run_Store.thy ===== *)
theory Local_Run_Store
  imports Workflow_Execution Fake
begin

text \<open>
  The run store of the local queue host (\<^verbatim>\<open>examples/apalis-local/src/main.rs\<close>, lines 36 to 415). The host's
  queue delivers references of steps at least once; the store owns the calls, admits one worker per
  epoch, and keeps the terminal result coordinators wait for. Every method holds the store's mutex for
  all it does to the records, so it is one step here; what a method sends after it released the mutex
  (\<open>send_replace\<close> on the step's watch channel) is a step of its own. A watch receiver reads the latest
  value its record holds. The counters of \<open>StoreStats\<close> count events of one process and are natural numbers.
\<close>

section \<open>Calls and references\<close>

record review_request =
  rr_repository :: string
  rr_objective :: string

datatype 'v review_job = Architecture "'v fake_options" | Verification "'v fake_options" | Synthesize

type_synonym 'v local_call = "(review_request, 'v review_job, 'v turn_outcome) step_call"

type_synonym 'v terminal_result = "agent_error + 'v turn_outcome"

datatype local_job_ref =
  StepJobRef (lr_schema_version: "16 word") (lr_run_id: string) (lr_workflow_id: string)
    (lr_workflow_version: string) (lr_step_id: string)

definition local_schema_version :: "16 word" where
  "local_schema_version = 1"

definition for_call :: "'v local_call \<Rightarrow> local_job_ref" where
  "for_call call =
     StepJobRef local_schema_version (call_run_id call) (call_workflow_id call) (call_workflow_version call) (call_step_id call)"

text \<open>The derived \<open>Ord\<close> compares the fields in order.\<close>

definition text_fields :: "local_job_ref \<Rightarrow> string list" where
  "text_fields r = [lr_run_id r, lr_workflow_id r, lr_workflow_version r, lr_step_id r]"

lemma text_fields_eq: "lr_schema_version a = lr_schema_version b \<Longrightarrow> text_fields a = text_fields b \<Longrightarrow> a = b"
  by (cases a; cases b) (simp add: text_fields_def)

instantiation local_job_ref :: linorder
begin

definition less_eq_local_job_ref :: "local_job_ref \<Rightarrow> local_job_ref \<Rightarrow> bool" where
  "less_eq_local_job_ref a b \<longleftrightarrow> lr_schema_version a < lr_schema_version b
     \<or> lr_schema_version a = lr_schema_version b \<and> text_fields a \<le> text_fields b"

definition less_local_job_ref :: "local_job_ref \<Rightarrow> local_job_ref \<Rightarrow> bool" where
  "less_local_job_ref a b \<longleftrightarrow> lr_schema_version a < lr_schema_version b
     \<or> lr_schema_version a = lr_schema_version b \<and> text_fields a < text_fields b"

instance
proof
  fix a b c :: local_job_ref
  show "a < b \<longleftrightarrow> a \<le> b \<and> \<not> b \<le> a" by (auto simp: less_eq_local_job_ref_def less_local_job_ref_def)
  show "a \<le> a" by (simp add: less_eq_local_job_ref_def)
  show "a \<le> b \<Longrightarrow> b \<le> c \<Longrightarrow> a \<le> c" by (auto simp: less_eq_local_job_ref_def)
  show "a \<le> b \<Longrightarrow> b \<le> a \<Longrightarrow> a = b" by (auto simp: less_eq_local_job_ref_def intro: text_fields_eq)
  show "a \<le> b \<or> b \<le> a" by (auto simp: less_eq_local_job_ref_def)
qed

end

section \<open>State\<close>

type_synonym claim_epoch = u64

record step_claim =
  sc_reference :: local_job_ref
  sc_epoch :: claim_epoch

datatype record_state =
    Pending
  | Claimed claim_epoch
  | Launched claim_epoch
  | Terminal claim_epoch
  | Uncertain claim_epoch

record 'v frozen_call =
  fz_input :: review_request
  fz_job :: "'v review_job"
  fz_dependencies :: "(step_id, 'v turn_outcome) btree_map"

definition frozen_for_call :: "'v local_call \<Rightarrow> 'v frozen_call" where
  "frozen_for_call call =
     \<lparr>fz_input = call_input call, fz_job = call_job call, fz_dependencies = call_dependencies call\<rparr>"

record 'v step_record =
  sr_call :: "'v local_call option"
  sr_frozen :: "'v frozen_call"
  sr_state :: record_state
  sr_provider_call_recorded :: bool
  sr_terminal :: "'v terminal_result option"

record store_stats =
  registered_records :: nat
  deliveries :: nat
  claims :: nat
  launches :: nat
  duplicate_skips :: nat
  terminal_records :: nat
  uncertain_records :: nat
  provider_calls :: "(local_job_ref, nat) btree_map"

record 'v run_store =
  rs_records :: "(local_job_ref, 'v step_record) btree_map"
  rs_stats :: store_stats
  rs_next_epoch :: u64
  rs_revision :: u64

definition run_store_new :: "'v run_store" where
  "run_store_new =
     \<lparr>rs_records = [],
      rs_stats = \<lparr>registered_records = 0, deliveries = 0, claims = 0, launches = 0, duplicate_skips = 0,
        terminal_records = 0, uncertain_records = 0, provider_calls = []\<rparr>,
      rs_next_epoch = 0, rs_revision = 0\<rparr>"

text \<open>The \<open>io::Error\<close> values of the store; their texts name what the constructors hold.\<close>

datatype store_error =
    IdentityCollision step_id
  | MissingRecord local_job_ref
  | EpochOverflow
  | CannotLaunch local_job_ref claim_epoch record_state
  | CallNotRetained
  | CannotCallProvider local_job_ref claim_epoch record_state
  | CallAlreadyRecorded local_job_ref
  | CannotComplete local_job_ref claim_epoch record_state
  | CompleteBeforeCall local_job_ref

section \<open>Operations\<close>

definition notify :: "'v run_store \<Rightarrow> 'v run_store" where
  "notify s = s\<lparr>rs_revision := rs_revision s + 1\<rparr>"

text \<open>\<open>get_mut\<close> of an existing record, and an update of the counters.\<close>

definition put_record :: "local_job_ref \<Rightarrow> 'v step_record \<Rightarrow> 'v run_store \<Rightarrow> 'v run_store" where
  "put_record r rec s = s\<lparr>rs_records := bt_set r rec (rs_records s)\<rparr>"

definition tally :: "(store_stats \<Rightarrow> store_stats) \<Rightarrow> 'v run_store \<Rightarrow> 'v run_store" where
  "tally f s = s\<lparr>rs_stats := f (rs_stats s)\<rparr>"

definition find_record :: "'v run_store \<Rightarrow> local_job_ref \<Rightarrow> 'v step_record option" where
  "find_record s r = map_of (rs_records s) r"

definition local_register :: "local_job_ref \<Rightarrow> 'v local_call \<Rightarrow> 'v run_store \<Rightarrow> (store_error + bool) \<times> 'v run_store" where
  "local_register r call s =
     (case find_record s r of
        Some rec \<Rightarrow>
          if sr_frozen rec \<noteq> frozen_for_call call then (Inl (IdentityCollision (lr_step_id r)), s)
          else (Inr (sr_state rec = Pending), s)
      | None \<Rightarrow>
          (Inr True,
           notify (tally (\<lambda>t. t\<lparr>registered_records := registered_records t + 1\<rparr>)
             (s\<lparr>rs_records := bt_insert r
                  \<lparr>sr_call = Some call, sr_frozen = frozen_for_call call, sr_state = Pending,
                   sr_provider_call_recorded = False, sr_terminal = None\<rparr> (rs_records s)\<rparr>))))"

definition local_claim :: "local_job_ref \<Rightarrow> 'v run_store \<Rightarrow> (store_error + step_claim option) \<times> 'v run_store" where
  "local_claim r s =
     (case find_record s r of
        None \<Rightarrow> (Inl (MissingRecord r), s)
      | Some rec \<Rightarrow>
          (let s1 = tally (\<lambda>t. t\<lparr>deliveries := deliveries t + 1\<rparr>) s
           in if sr_state rec = Pending then
                (if rs_next_epoch s1 = - 1 then (Inl EpochOverflow, s1)
                 else
                   (let epoch = rs_next_epoch s1 + 1
                    in (Inr (Some \<lparr>sc_reference = r, sc_epoch = epoch\<rparr>),
                        notify (tally (\<lambda>t. t\<lparr>claims := claims t + 1\<rparr>)
                          (put_record r (rec\<lparr>sr_state := Claimed epoch\<rparr>) (s1\<lparr>rs_next_epoch := epoch\<rparr>))))))
              else (Inr None, notify (tally (\<lambda>t. t\<lparr>duplicate_skips := duplicate_skips t + 1\<rparr>) s1))))"

definition local_launch :: "step_claim \<Rightarrow> 'v run_store \<Rightarrow> (store_error + 'v local_call) \<times> 'v run_store" where
  "local_launch c s =
     (case find_record s (sc_reference c) of
        None \<Rightarrow> (Inl (MissingRecord (sc_reference c)), s)
      | Some rec \<Rightarrow>
          if sr_state rec \<noteq> Claimed (sc_epoch c)
          then (Inl (CannotLaunch (sc_reference c) (sc_epoch c) (sr_state rec)), s)
          else (case sr_call rec of
                  None \<Rightarrow> (Inl CallNotRetained, s)
                | Some call \<Rightarrow>
                    (Inr call,
                     notify (tally (\<lambda>t. t\<lparr>launches := launches t + 1\<rparr>)
                       (put_record (sc_reference c) (rec\<lparr>sr_call := None, sr_state := Launched (sc_epoch c)\<rparr>) s)))))"

definition count_call :: "local_job_ref \<Rightarrow> (local_job_ref, nat) btree_map \<Rightarrow> (local_job_ref, nat) btree_map" where
  "count_call r m = bt_insert r (unwrap_or (map_of m r) 0 + 1) m"

definition note_provider_call :: "step_claim \<Rightarrow> 'v run_store \<Rightarrow> (store_error + unit) \<times> 'v run_store" where
  "note_provider_call c s =
     (case find_record s (sc_reference c) of
        None \<Rightarrow> (Inl (MissingRecord (sc_reference c)), s)
      | Some rec \<Rightarrow>
          if sr_state rec \<noteq> Launched (sc_epoch c)
          then (Inl (CannotCallProvider (sc_reference c) (sc_epoch c) (sr_state rec)), s)
          else if sr_provider_call_recorded rec then (Inl (CallAlreadyRecorded (sc_reference c)), s)
          else (Inr (),
                notify (tally (\<lambda>t. t\<lparr>provider_calls := count_call (sc_reference c) (provider_calls t)\<rparr>)
                  (put_record (sc_reference c) (rec\<lparr>sr_provider_call_recorded := True\<rparr>) s))))"

text \<open>\<open>complete\<close> up to the release of the mutex; the result is published afterwards.\<close>

definition commit_result :: "step_claim \<Rightarrow> 'v run_store \<Rightarrow> (store_error + unit) \<times> 'v run_store" where
  "commit_result c s =
     (case find_record s (sc_reference c) of
        None \<Rightarrow> (Inl (MissingRecord (sc_reference c)), s)
      | Some rec \<Rightarrow>
          if sr_state rec \<noteq> Launched (sc_epoch c)
          then (Inl (CannotComplete (sc_reference c) (sc_epoch c) (sr_state rec)), s)
          else if \<not> sr_provider_call_recorded rec then (Inl (CompleteBeforeCall (sc_reference c)), s)
          else (Inr (),
                tally (\<lambda>t. t\<lparr>terminal_records := terminal_records t + 1\<rparr>)
                  (put_record (sc_reference c) (rec\<lparr>sr_state := Terminal (sc_epoch c)\<rparr>) s)))"

text \<open>\<open>send_replace\<close> on the channel of a record, and the change of revision that follows.\<close>

definition publish :: "local_job_ref \<times> 'v terminal_result \<Rightarrow> 'v run_store \<Rightarrow> 'v run_store" where
  "publish p s =
     (case find_record s (fst p) of
        None \<Rightarrow> s
      | Some rec \<Rightarrow> put_record (fst p) (rec\<lparr>sr_terminal := Some (snd p)\<rparr>) s)"

definition local_complete ::
  "step_claim \<Rightarrow> 'v terminal_result \<Rightarrow> 'v run_store \<Rightarrow> (store_error + unit) \<times> 'v run_store" where
  "local_complete c result s =
     (case commit_result c s of
        (Inl e, s1) \<Rightarrow> (Inl e, s1)
      | (Inr _, s1) \<Rightarrow> (Inr (), notify (publish (sc_reference c, result) s1)))"

section \<open>Worker loss\<close>

record worker_loss_recovery =
  wl_retryable :: "local_job_ref list"
  wl_uncertain :: "step_claim list"

definition lost_error :: "local_job_ref \<Rightarrow> agent_error" where
  "lost_error r =
     error_new Internal
       (''worker was lost after `'' @ lr_step_id r @ ''` crossed the launch boundary; its outcome is uncertain'')
       Settlement EffPossible"

text \<open>The state a record has after the sweep.\<close>

fun swept :: "record_state \<Rightarrow> record_state" where
  "swept (Claimed e) = Pending"
| "swept (Launched e) = Uncertain e"
| "swept st = st"

fun sweep_records ::
  "(local_job_ref, 'v step_record) btree_map \<Rightarrow> (local_job_ref, 'v step_record) btree_map \<times> worker_loss_recovery" where
  "sweep_records [] = ([], \<lparr>wl_retryable = [], wl_uncertain = []\<rparr>)"
| "sweep_records ((r, rec) # rs) =
     (let (rs', found) = sweep_records rs
      in ((r, rec\<lparr>sr_state := swept (sr_state rec)\<rparr>) # rs',
          case sr_state rec of
            Claimed _ \<Rightarrow> found\<lparr>wl_retryable := r # wl_retryable found\<rparr>
          | Launched e \<Rightarrow> found\<lparr>wl_uncertain := \<lparr>sc_reference = r, sc_epoch = e\<rparr> # wl_uncertain found\<rparr>
          | _ \<Rightarrow> found))"

text \<open>\<open>reconcile_worker_loss\<close> up to the release of the mutex, with the settlements it then publishes.\<close>

definition sweep :: "'v run_store \<Rightarrow> worker_loss_recovery \<times> 'v run_store" where
  "sweep s =
     (let (records, found) = sweep_records (rs_records s)
      in (found,
          tally (\<lambda>t. t\<lparr>uncertain_records := uncertain_records t + length (wl_uncertain found)\<rparr>)
            (s\<lparr>rs_records := records\<rparr>)))"

definition settlements :: "worker_loss_recovery \<Rightarrow> (local_job_ref \<times> 'v terminal_result) list" where
  "settlements found = map (\<lambda>c. (sc_reference c, Inl (lost_error (sc_reference c)))) (wl_uncertain found)"

definition reconcile_worker_loss :: "'v run_store \<Rightarrow> worker_loss_recovery \<times> 'v run_store" where
  "reconcile_worker_loss s =
     (let (found, s1) = sweep s;
          s2 = fold publish (settlements found) s1
      in (found, if wl_retryable found \<noteq> [] \<or> wl_uncertain found \<noteq> [] then notify s2 else s2))"

section \<open>Snapshots\<close>

definition expected_logical_steps :: nat where
  "expected_logical_steps = 3"

definition expected_deliveries :: nat where
  "expected_deliveries = expected_logical_steps * 2"

definition validate_root_snapshot :: "store_stats \<Rightarrow> bool" where
  "validate_root_snapshot t \<longleftrightarrow> registered_records t = 2 \<and> deliveries t = 4 \<and> claims t = 2 \<and> launches t = 2
     \<and> duplicate_skips t = 2 \<and> terminal_records t = 2 \<and> uncertain_records t = 0
     \<and> length (provider_calls t) = 2 \<and> list_all (\<lambda>n. n = 1) (bt_values (provider_calls t))
     \<and> list_all (\<lambda>r. lr_step_id r \<noteq> ''synthesize'') (bt_keys (provider_calls t))"

definition validate_final_snapshot :: "store_stats \<Rightarrow> bool" where
  "validate_final_snapshot t \<longleftrightarrow> registered_records t = expected_logical_steps \<and> deliveries t = expected_deliveries
     \<and> claims t = expected_logical_steps \<and> launches t = expected_logical_steps
     \<and> duplicate_skips t = expected_logical_steps \<and> terminal_records t = expected_logical_steps
     \<and> uncertain_records t = 0 \<and> length (provider_calls t) = expected_logical_steps
     \<and> list_all (\<lambda>n. n = 1) (bt_values (provider_calls t))"

section \<open>Interleavings\<close>

text \<open>
  Coordinators, workers and recovery interleave at the store's mutex. An event is one critical section, or
  one \<open>send_replace\<close> of a settlement that was decided before and not sent yet (\<open>sys_unsent\<close>). Claims
  in events are arbitrary: a worker may hold on to one it lost.
\<close>

datatype 'v run_event =
    Do_register "'v local_call"
  | Do_claim local_job_ref
  | Do_launch step_claim
  | Do_note step_claim
  | Do_commit step_claim "'v terminal_result"
  | Do_publish nat
  | Do_notify
  | Do_sweep

record 'v local_system =
  sys_store :: "'v run_store"
  sys_unsent :: "(local_job_ref \<times> 'v terminal_result) list"

definition system_new :: "'v local_system" where
  "system_new = \<lparr>sys_store = run_store_new, sys_unsent = []\<rparr>"

fun store_event :: "'v run_event \<Rightarrow> 'v local_system \<Rightarrow> 'v local_system" where
  "store_event (Do_register call) y = y\<lparr>sys_store := snd (local_register (for_call call) call (sys_store y))\<rparr>"
| "store_event (Do_claim r) y = y\<lparr>sys_store := snd (local_claim r (sys_store y))\<rparr>"
| "store_event (Do_launch c) y = y\<lparr>sys_store := snd (local_launch c (sys_store y))\<rparr>"
| "store_event (Do_note c) y = y\<lparr>sys_store := snd (note_provider_call c (sys_store y))\<rparr>"
| "store_event (Do_commit c result) y =
     (case commit_result c (sys_store y) of
        (Inl _, s) \<Rightarrow> y\<lparr>sys_store := s\<rparr>
      | (Inr _, s) \<Rightarrow> y\<lparr>sys_store := s, sys_unsent := sys_unsent y @ [(sc_reference c, result)]\<rparr>)"
| "store_event (Do_publish n) y =
     (if n < length (sys_unsent y)
      then y\<lparr>sys_store := publish (sys_unsent y ! n) (sys_store y),
             sys_unsent := take n (sys_unsent y) @ drop (Suc n) (sys_unsent y)\<rparr>
      else y)"
| "store_event Do_notify y = y\<lparr>sys_store := notify (sys_store y)\<rparr>"
| "store_event Do_sweep y =
     (case sweep (sys_store y) of
        (found, s) \<Rightarrow> y\<lparr>sys_store := s, sys_unsent := sys_unsent y @ settlements found\<rparr>)"

definition store_events :: "'v run_event list \<Rightarrow> 'v local_system \<Rightarrow> 'v local_system" where
  "store_events es y = fold store_event es y"

lemma store_events_simps [simp]:
  "store_events [] y = y"
  "store_events (e # es) y = store_events es (store_event e y)"
  "store_events (es @ es') y = store_events es' (store_events es y)"
  by (simp_all add: store_events_def)

section \<open>The life of one step\<close>

text \<open>What the system holds about one reference: its record, its count of provider calls, and the settlements
  on their way to its channel.\<close>

record 'v life =
  life_record :: "'v step_record option"
  life_calls :: "nat option"
  life_unsent :: "'v terminal_result list"

definition unsent_for :: "local_job_ref \<Rightarrow> (local_job_ref \<times> 'v terminal_result) list \<Rightarrow> 'v terminal_result list" where
  "unsent_for r ps = map snd (filter (\<lambda>p. fst p = r) ps)"

definition life_of :: "'v local_system \<Rightarrow> local_job_ref \<Rightarrow> 'v life" where
  "life_of y r =
     \<lparr>life_record = find_record (sys_store y) r,
      life_calls = map_of (provider_calls (rs_stats (sys_store y))) r,
      life_unsent = unsent_for r (sys_unsent y)\<rparr>"

text \<open>The abstract machine of one step, between two values of the epoch counter.\<close>

inductive life_step :: "local_job_ref \<Rightarrow> u64 \<times> 'v life \<Rightarrow> u64 \<times> 'v life \<Rightarrow> bool" for r where
  idle: "n \<le> n' \<Longrightarrow> life_step r (n, v) (n', v)"
| registered: "life_record v = None \<Longrightarrow> for_call call = r \<Longrightarrow>
    life_step r (n, v) (n, v\<lparr>life_record := Some \<lparr>sr_call = Some call, sr_frozen = frozen_for_call call, sr_state = Pending,
                   sr_provider_call_recorded = False, sr_terminal = None\<rparr>\<rparr>)"
| claimed: "life_record v = Some rec \<Longrightarrow> sr_state rec = Pending \<Longrightarrow> n < n' \<Longrightarrow>
    life_step r (n, v) (n', v\<lparr>life_record := Some (rec\<lparr>sr_state := Claimed n'\<rparr>)\<rparr>)"
| launched: "life_record v = Some rec \<Longrightarrow> sr_state rec = Claimed e \<Longrightarrow>
    life_step r (n, v) (n, v\<lparr>life_record := Some (rec\<lparr>sr_call := None, sr_state := Launched e\<rparr>)\<rparr>)"
| called: "life_record v = Some rec \<Longrightarrow> sr_state rec = Launched e \<Longrightarrow> \<not> sr_provider_call_recorded rec \<Longrightarrow>
    life_step r (n, v) (n, v\<lparr>life_record := Some (rec\<lparr>sr_provider_call_recorded := True\<rparr>),
      life_calls := Some (unwrap_or (life_calls v) 0 + 1)\<rparr>)"
| committed: "life_record v = Some rec \<Longrightarrow> sr_state rec = Launched e \<Longrightarrow> sr_provider_call_recorded rec \<Longrightarrow>
    life_step r (n, v) (n, v\<lparr>life_record := Some (rec\<lparr>sr_state := Terminal e\<rparr>), life_unsent := life_unsent v @ [x]\<rparr>)"
| sent: "life_record v = Some rec \<Longrightarrow> life_unsent v = xs @ x # ys \<Longrightarrow>
    life_step r (n, v) (n, v\<lparr>life_record := Some (rec\<lparr>sr_terminal := Some x\<rparr>), life_unsent := xs @ ys\<rparr>)"
| claim_lost: "life_record v = Some rec \<Longrightarrow> sr_state rec = Claimed e \<Longrightarrow>
    life_step r (n, v) (n, v\<lparr>life_record := Some (rec\<lparr>sr_state := Pending\<rparr>)\<rparr>)"
| launch_lost: "life_record v = Some rec \<Longrightarrow> sr_state rec = Launched e \<Longrightarrow>
    life_step r (n, v) (n, v\<lparr>life_record := Some (rec\<lparr>sr_state := Uncertain e\<rparr>),
      life_unsent := life_unsent v @ [Inl (lost_error r)]\<rparr>)"

inductive_cases life_stepE: "life_step r (n, v) (n', v')"

lemma find_record_simps [simp]:
  "find_record (put_record r rec s) r' = (if r = r' \<and> find_record s r \<noteq> None then Some rec else find_record s r')"
  "find_record (tally f s) r = find_record s r"
  "find_record (notify s) r = find_record s r"
  "find_record (s\<lparr>rs_next_epoch := n\<rparr>) r = find_record s r"
  by (auto simp: find_record_def put_record_def tally_def notify_def map_of_bt_set map_of_eq_None_iff)

lemma store_parts [simp]:
  "rs_next_epoch (put_record r rec s) = rs_next_epoch s" "rs_stats (put_record r rec s) = rs_stats s"
  "rs_next_epoch (tally f s) = rs_next_epoch s" "rs_stats (tally f s) = f (rs_stats s)"
  "rs_next_epoch (notify s) = rs_next_epoch s" "rs_stats (notify s) = rs_stats s"
  "rs_records (tally f s) = rs_records s" "rs_records (notify s) = rs_records s"
  "rs_records (put_record r rec s) = bt_set r rec (rs_records s)"
  by (simp_all add: put_record_def tally_def notify_def)

lemma publish_parts [simp]:
  "rs_next_epoch (publish p s) = rs_next_epoch s" "rs_stats (publish p s) = rs_stats s"
  "find_record (publish p s) r =
     (if r = fst p then map_option (\<lambda>rec. rec\<lparr>sr_terminal := Some (snd p)\<rparr>) (find_record s r) else find_record s r)"
  by (auto simp: publish_def split: option.splits)

lemma unsent_for_simps [simp]:
  "unsent_for r [] = []"
  "unsent_for r (p # ps) = (if fst p = r then snd p # unsent_for r ps else unsent_for r ps)"
  "unsent_for r (ps @ qs) = unsent_for r ps @ unsent_for r qs"
  by (simp_all add: unsent_for_def)

lemma sweep_records_find:
  "map_of (fst (sweep_records m)) r = map_option (\<lambda>rec. rec\<lparr>sr_state := swept (sr_state rec)\<rparr>) (map_of m r)"
  by (induction m rule: sweep_records.induct) (auto simp: Let_def split: prod.splits)

lemma sweep_records_keys [simp]: "map fst (fst (sweep_records m)) = map fst m"
  by (induction m rule: sweep_records.induct) (auto simp: Let_def split: prod.splits)

lemma sweep_records_uncertain_keys: "sc_reference ` set (wl_uncertain (snd (sweep_records m))) \<subseteq> fst ` set m"
  by (induction m rule: sweep_records.induct) (auto simp: Let_def case_prod_unfold split: record_state.splits)

lemma settlements_keys: "p \<in> set (settlements found) \<Longrightarrow> fst p \<in> sc_reference ` set (wl_uncertain found)"
  by (auto simp: settlements_def)

lemma unsent_for_settlements:
  "unsent_for r (settlements found) = map (\<lambda>_. Inl (lost_error r)) (filter (\<lambda>c. sc_reference c = r) (wl_uncertain found))"
  by (auto simp: unsent_for_def settlements_def filter_map comp_def)

lemma sweep_records_uncertain:
  "distinct (map fst m) \<Longrightarrow>
     filter (\<lambda>c. sc_reference c = r) (wl_uncertain (snd (sweep_records m))) =
       (case map_of m r of
          Some rec \<Rightarrow> (case sr_state rec of Launched e \<Rightarrow> [\<lparr>sc_reference = r, sc_epoch = e\<rparr>] | _ \<Rightarrow> [])
        | None \<Rightarrow> [])"
proof (induction m rule: sweep_records.induct)
  case (2 q rec m)
  have none: "map_of m q = None" using "2.prems" by (simp add: map_of_eq_None_iff)
  show ?case
    using "2" none by (cases "sr_state rec") (auto simp: Let_def case_prod_unfold)
qed simp

lemma sweep_parts:
  "rs_next_epoch (snd (sweep s)) = rs_next_epoch s"
  "find_record (snd (sweep s)) r = map_option (\<lambda>rec. rec\<lparr>sr_state := swept (sr_state rec)\<rparr>) (find_record s r)"
  "map fst (rs_records (snd (sweep s))) = map fst (rs_records s)"
  "provider_calls (rs_stats (snd (sweep s))) = provider_calls (rs_stats s)"
  by (simp_all add: sweep_def find_record_def sweep_records_find [symmetric] tally_def case_prod_unfold Let_def)

definition system_wf :: "'v local_system \<Rightarrow> bool" where
  "system_wf y \<longleftrightarrow> bt_wf (rs_records (sys_store y)) \<and> bt_wf (provider_calls (rs_stats (sys_store y)))
     \<and> (\<forall>p \<in> set (sys_unsent y). find_record (sys_store y) (fst p) \<noteq> None)"

lemma system_wf_new: "system_wf system_new"
  by (simp add: system_wf_def system_new_def run_store_new_def)

lemma sweep_unsent:
  assumes "bt_wf (rs_records s)"
  shows "unsent_for r (settlements (fst (sweep s))) =
      (case find_record s r of
         Some rec \<Rightarrow> (case sr_state rec of Launched e \<Rightarrow> [Inl (lost_error r)] | _ \<Rightarrow> [])
       | None \<Rightarrow> [])"
    and "p \<in> set (settlements (fst (sweep s))) \<Longrightarrow> find_record s (fst p) \<noteq> None"
proof -
  have found: "fst (sweep s) = snd (sweep_records (rs_records s))"
    by (simp add: sweep_def case_prod_unfold Let_def)
  show "unsent_for r (settlements (fst (sweep s))) =
      (case find_record s r of
         Some rec \<Rightarrow> (case sr_state rec of Launched e \<Rightarrow> [Inl (lost_error r)] | _ \<Rightarrow> [])
       | None \<Rightarrow> [])"
    using sweep_records_uncertain [OF bt_wf_distinct [OF assms], of r]
    by (auto simp: found unsent_for_settlements find_record_def split: option.split record_state.split)
  show "find_record s (fst p) \<noteq> None" if "p \<in> set (settlements (fst (sweep s)))"
    using settlements_keys [OF that] sweep_records_uncertain_keys [of "rs_records s"]
    by (auto simp: found find_record_def map_of_eq_None_iff)
qed

lemma event_wf:
  assumes "system_wf y"
  shows "system_wf (store_event e y)"
proof (cases e)
  case (Do_register call)
  then show ?thesis
    using assms
    by (auto simp: system_wf_def local_register_def find_record_def bt_wf_insert map_of_bt_insert tally_def notify_def
        split: option.split)
next
  case (Do_note c)
  then show ?thesis
    using assms
    by (auto simp: system_wf_def note_provider_call_def bt_set_wf bt_wf_insert count_call_def split: option.split)
next
  case (Do_publish n)
  then show ?thesis
    using assms
    by (auto simp: system_wf_def publish_def bt_set_wf dest: in_set_takeD in_set_dropD split: option.split)
next
  case Do_sweep
  then show ?thesis
    using assms sweep_parts [of "sys_store y"] sweep_unsent(2) [of "sys_store y"]
    by (auto simp: system_wf_def bt_wf_def case_prod_unfold)
qed (use assms in \<open>auto simp: system_wf_def local_claim_def local_launch_def commit_result_def bt_set_wf Let_def
       split: option.split prod.splits sum.splits if_splits\<close>)

abbreviation life_at :: "'v local_system \<Rightarrow> local_job_ref \<Rightarrow> u64 \<times> 'v life" where
  "life_at y r \<equiv> (rs_next_epoch (sys_store y), life_of y r)"

lemma life_idle: "rs_next_epoch (sys_store y') = rs_next_epoch (sys_store y) \<Longrightarrow> life_of y' r = life_of y r \<Longrightarrow> life_step r (life_at y r) (life_at y' r)"
  by (simp add: life_step.idle)

text \<open>Every event of the system is a step of the life of every reference: one lemma per kind of event.\<close>

lemma register_life:
  assumes wf: "system_wf y"
  shows "life_step r (life_at y r) (life_at (store_event (Do_register call) y) r)"
proof (cases "for_call call = r \<and> find_record (sys_store y) r = None")
  case True
  then have eq: "life_at (store_event (Do_register call) y) r = (rs_next_epoch (sys_store y), (life_of y r)\<lparr>life_record :=
      Some \<lparr>sr_call = Some call, sr_frozen = frozen_for_call call, sr_state = Pending,
        sr_provider_call_recorded = False, sr_terminal = None\<rparr>\<rparr>)"
    using wf by (auto simp: life_of_def local_register_def system_wf_def find_record_def map_of_bt_insert tally_def notify_def)
  show ?thesis
    unfolding eq by (rule life_step.registered) (use True in \<open>simp_all add: life_of_def\<close>)
next
  case False
  then show ?thesis
    using wf by (intro life_idle) (auto simp: life_of_def local_register_def system_wf_def find_record_def
        map_of_bt_insert tally_def notify_def split: option.splits)
qed

lemma claim_life: "life_step r (life_at y r) (life_at (store_event (Do_claim q) y) r)"
proof (cases "\<exists>rec. find_record (sys_store y) q = Some rec \<and> sr_state rec = Pending \<and> rs_next_epoch (sys_store y) \<noteq> - 1")
  case True
  then obtain rec where rec: "find_record (sys_store y) q = Some rec" "sr_state rec = Pending" "rs_next_epoch (sys_store y) \<noteq> - 1"
    by blast
  then have less: "rs_next_epoch (sys_store y) < rs_next_epoch (sys_store y) + 1" by (simp add: u64_succ_less)
  have eq: "life_at (store_event (Do_claim q) y) r = (rs_next_epoch (sys_store y) + 1,
      if q = r then (life_of y r)\<lparr>life_record := Some (rec\<lparr>sr_state := Claimed (rs_next_epoch (sys_store y) + 1)\<rparr>)\<rparr>
      else life_of y r)"
    using rec by (auto simp: life_of_def local_claim_def Let_def)
  show ?thesis
  proof (cases "q = r")
    case True
    then show ?thesis
      unfolding eq using life_step.claimed [of "life_of y r" rec] rec less by (simp add: life_of_def)
  qed (unfold eq, use less in \<open>simp add: life_step.idle\<close>)
next
  case False
  then show ?thesis
    by (intro life_idle) (auto simp: life_of_def local_claim_def Let_def split: option.split)
qed

lemma launch_life: "life_step r (life_at y r) (life_at (store_event (Do_launch c) y) r)"
proof (cases "sc_reference c = r \<and> (\<exists>rec call. find_record (sys_store y) r = Some rec
    \<and> sr_state rec = Claimed (sc_epoch c) \<and> sr_call rec = Some call)")
  case True
  then obtain rec call where rec: "find_record (sys_store y) r = Some rec" "sr_state rec = Claimed (sc_epoch c)" "sr_call rec = Some call"
    by blast
  then have eq: "life_at (store_event (Do_launch c) y) r = (rs_next_epoch (sys_store y),
      (life_of y r)\<lparr>life_record := Some (rec\<lparr>sr_call := None, sr_state := Launched (sc_epoch c)\<rparr>)\<rparr>)"
    using True by (auto simp: life_of_def local_launch_def)
  show ?thesis unfolding eq by (rule life_step.launched) (use rec in \<open>simp_all add: life_of_def\<close>)
next
  case False
  then show ?thesis
    by (intro life_idle) (auto simp: life_of_def local_launch_def split: option.split)
qed

lemma note_life:
  assumes wf: "system_wf y"
  shows "life_step r (life_at y r) (life_at (store_event (Do_note c) y) r)"
proof (cases "sc_reference c = r \<and> (\<exists>rec. find_record (sys_store y) r = Some rec
    \<and> sr_state rec = Launched (sc_epoch c) \<and> \<not> sr_provider_call_recorded rec)")
  case True
  then obtain rec where rec: "find_record (sys_store y) r = Some rec" "sr_state rec = Launched (sc_epoch c)"
      "\<not> sr_provider_call_recorded rec"
    by blast
  then have eq: "life_at (store_event (Do_note c) y) r = (rs_next_epoch (sys_store y),
      (life_of y r)\<lparr>life_record := Some (rec\<lparr>sr_provider_call_recorded := True\<rparr>),
        life_calls := Some (unwrap_or (life_calls (life_of y r)) 0 + 1)\<rparr>)"
    using True wf by (auto simp: life_of_def note_provider_call_def count_call_def system_wf_def map_of_bt_insert)
  show ?thesis unfolding eq by (rule life_step.called) (use rec in \<open>simp_all add: life_of_def\<close>)
next
  case False
  then show ?thesis
    using wf by (intro life_idle)
      (auto simp: life_of_def note_provider_call_def count_call_def system_wf_def map_of_bt_insert split: option.split)
qed

lemma commit_life: "life_step r (life_at y r) (life_at (store_event (Do_commit c result) y) r)"
proof (cases "sc_reference c = r \<and> (\<exists>rec. find_record (sys_store y) r = Some rec
    \<and> sr_state rec = Launched (sc_epoch c) \<and> sr_provider_call_recorded rec)")
  case True
  then obtain rec where rec: "find_record (sys_store y) r = Some rec" "sr_state rec = Launched (sc_epoch c)"
      "sr_provider_call_recorded rec"
    by blast
  then have eq: "life_at (store_event (Do_commit c result) y) r = (rs_next_epoch (sys_store y),
      (life_of y r)\<lparr>life_record := Some (rec\<lparr>sr_state := Terminal (sc_epoch c)\<rparr>),
        life_unsent := life_unsent (life_of y r) @ [result]\<rparr>)"
    using True by (auto simp: life_of_def commit_result_def)
  show ?thesis unfolding eq by (rule life_step.committed) (use rec in \<open>simp_all add: life_of_def\<close>)
next
  case False
  then show ?thesis
    by (intro life_idle) (auto simp: life_of_def commit_result_def split: option.split)
qed

lemma publish_life:
  assumes wf: "system_wf y"
  shows "life_step r (life_at y r) (life_at (store_event (Do_publish n) y) r)"
proof (cases "n < length (sys_unsent y)")
  case True
  let ?p = "sys_unsent y ! n"
  let ?before = "unsent_for r (take n (sys_unsent y))" and ?after = "unsent_for r (drop (Suc n) (sys_unsent y))"
  obtain rec where rec: "find_record (sys_store y) (fst ?p) = Some rec"
    using wf True by (fastforce simp: system_wf_def)
  have parts: "unsent_for r (sys_unsent y) = ?before @ (if fst ?p = r then [snd ?p] else []) @ ?after"
    using arg_cong [OF id_take_nth_drop [OF True], of "unsent_for r"] by auto
  have eq: "life_at (store_event (Do_publish n) y) r = (rs_next_epoch (sys_store y),
      if fst ?p = r
      then (life_of y r)\<lparr>life_record := Some (rec\<lparr>sr_terminal := Some (snd ?p)\<rparr>), life_unsent := ?before @ ?after\<rparr>
      else (life_of y r)\<lparr>life_unsent := ?before @ ?after\<rparr>)"
    using True rec by (auto simp: life_of_def)
  show ?thesis
  proof (cases "fst ?p = r")
    case True
    then show ?thesis
      unfolding eq using life_step.sent [of "life_of y r" rec ?before "snd ?p" ?after] rec parts by (simp add: life_of_def)
  next
    case False
    then have "(life_of y r)\<lparr>life_unsent := ?before @ ?after\<rparr> = life_of y r" using parts by (simp add: life_of_def)
    then show ?thesis unfolding eq using False by (simp add: life_step.idle)
  qed
qed (simp add: life_step.idle)

lemma sweep_life:
  assumes wf: "system_wf y"
  shows "life_step r (life_at y r) (life_at (store_event Do_sweep y) r)"
proof -
  have eq: "life_at (store_event Do_sweep y) r = (rs_next_epoch (sys_store y),
      (life_of y r)\<lparr>life_record := map_option (\<lambda>rec. rec\<lparr>sr_state := swept (sr_state rec)\<rparr>) (find_record (sys_store y) r),
         life_unsent := life_unsent (life_of y r) @ (case find_record (sys_store y) r of
            Some rec \<Rightarrow> (case sr_state rec of Launched e \<Rightarrow> [Inl (lost_error r)] | _ \<Rightarrow> []) | None \<Rightarrow> [])\<rparr>)"
    using wf by (simp add: life_of_def sweep_parts sweep_unsent(1) system_wf_def case_prod_unfold)
  have same: "sr_state rec = st \<Longrightarrow> rec\<lparr>sr_state := st\<rparr> = rec" for rec :: "'a step_record" and st
    by (cases rec) simp
  show ?thesis
  proof (cases "find_record (sys_store y) r")
    case None
    then show ?thesis unfolding eq by (simp add: life_of_def life_step.idle)
  next
    case (Some rec)
    then show ?thesis
      unfolding eq using life_step.claim_lost [of "life_of y r" rec] life_step.launch_lost [of "life_of y r" rec]
      by (cases "sr_state rec") (simp_all add: life_of_def life_step.idle same)
  qed
qed

lemma event_life:
  "system_wf y \<Longrightarrow> life_step r (life_at y r) (life_at (store_event e y) r)"
  by (cases e)
    (simp_all only: register_life claim_life launch_life note_life commit_life publish_life sweep_life,
      simp add: life_of_def life_step.idle)

section \<open>Invariants of a life\<close>

text \<open>A property of the life of one reference that its steps keep holds in every later system.\<close>

locale life_invariant =
  fixes P :: "local_job_ref \<Rightarrow> u64 \<Rightarrow> 'v life \<Rightarrow> bool"
  assumes life: "P r n v \<Longrightarrow> life_step r (n, v) (n', v') \<Longrightarrow> P r n' v'"
begin

lemma event: "system_wf y \<Longrightarrow> P r (rs_next_epoch (sys_store y)) (life_of y r) \<Longrightarrow>
    P r (rs_next_epoch (sys_store (store_event e y))) (life_of (store_event e y) r)"
  by (rule life [OF _ event_life])

lemma events: "system_wf y \<Longrightarrow> P r (rs_next_epoch (sys_store y)) (life_of y r) \<Longrightarrow>
    P r (rs_next_epoch (sys_store (store_events es y))) (life_of (store_events es y) r)"
  by (induction es arbitrary: y) (simp_all add: event event_wf)

end

lemma events_wf: "system_wf y \<Longrightarrow> system_wf (store_events es y)"
  by (induction es arbitrary: y) (simp_all add: event_wf)

lemma reachable_wf: "system_wf (store_events es system_new)"
  by (rule events_wf [OF system_wf_new])

text \<open>What every reachable record is: it owns its call until the launch, and its answers are those of its state.\<close>

definition life_answers :: "'v step_record \<Rightarrow> 'v life \<Rightarrow> 'v terminal_result list" where
  "life_answers rec v = (case sr_terminal rec of None \<Rightarrow> [] | Some x \<Rightarrow> [x]) @ life_unsent v"

definition owns_call :: "local_job_ref \<Rightarrow> 'v step_record \<Rightarrow> bool" where
  "owns_call r rec \<longleftrightarrow> (\<exists>call. sr_call rec = Some call \<and> for_call call = r \<and> frozen_for_call call = sr_frozen rec)"

definition life_ok :: "local_job_ref \<Rightarrow> u64 \<Rightarrow> 'v life \<Rightarrow> bool" where
  "life_ok r n v =
     (case life_record v of
        None \<Rightarrow> life_calls v = None \<and> life_unsent v = []
      | Some rec \<Rightarrow>
          life_calls v = (if sr_provider_call_recorded rec then Some 1 else None) \<and>
          (case sr_state rec of
             Pending \<Rightarrow> owns_call r rec \<and> \<not> sr_provider_call_recorded rec \<and> life_answers rec v = []
           | Claimed e \<Rightarrow> e \<le> n \<and> owns_call r rec \<and> \<not> sr_provider_call_recorded rec \<and> life_answers rec v = []
           | Launched e \<Rightarrow> e \<le> n \<and> sr_call rec = None \<and> life_answers rec v = []
           | Terminal e \<Rightarrow> e \<le> n \<and> sr_call rec = None \<and> sr_provider_call_recorded rec \<and> length (life_answers rec v) = 1
           | Uncertain e \<Rightarrow> e \<le> n \<and> sr_call rec = None \<and> life_answers rec v = [Inl (lost_error r)]))"

interpretation sound_life: life_invariant life_ok
proof
  fix r n n' and v v' :: "'v life"
  assume "life_ok r n v" and "life_step r (n, v) (n', v')"
  then show "life_ok r n' v'"
    by (elim life_stepE)
      (auto simp: life_ok_def owns_call_def life_answers_def append_eq_Cons_conv split: option.splits record_state.splits)
qed

text \<open>The answer of a reference has been decided: it is on its way, or the channel holds it.\<close>

definition decided :: "'v terminal_result \<Rightarrow> 'v life \<Rightarrow> bool" where
  "decided x v \<longleftrightarrow> (\<exists>rec e. life_record v = Some rec \<and> (sr_state rec = Terminal e \<or> sr_state rec = Uncertain e)
     \<and> (sr_terminal rec = None \<and> life_unsent v = [x] \<or> sr_terminal rec = Some x \<and> life_unsent v = []))"

interpretation decided_life: life_invariant "\<lambda>_ _. decided x" for x :: "'v terminal_result"
proof
  fix r n n' and v v' :: "'v life"
  assume "decided x v" and "life_step r (n, v) (n', v')"
  then show "decided x v'"
    by (elim life_stepE) (auto simp: decided_def Cons_eq_append_conv append_eq_Cons_conv)
qed

text \<open>An epoch that does not hold the reference now never holds it again.\<close>

definition fenced :: "claim_epoch \<Rightarrow> u64 \<Rightarrow> 'v life \<Rightarrow> bool" where
  "fenced e n v \<longleftrightarrow> e \<le> n \<and> (\<forall>rec. life_record v = Some rec \<longrightarrow> sr_state rec \<noteq> Claimed e \<and> sr_state rec \<noteq> Launched e)"

interpretation fenced_life: life_invariant "\<lambda>_. fenced e" for e
proof
  fix r n n' and v v' :: "'v life"
  assume "fenced e n v" and "life_step r (n, v) (n', v')"
  then show "fenced e n' v'"
    by (elim life_stepE) (auto simp: fenced_def)
qed

interpretation epoch_life: life_invariant "\<lambda>_ n _. e \<le> n" for e :: u64
  by unfold_locales (auto elim!: life_stepE)

text \<open>A launched reference stays with the epoch that launched it, and its identity keeps naming the frozen call.\<close>

definition launched_under :: "claim_epoch \<Rightarrow> 'v life \<Rightarrow> bool" where
  "launched_under e v \<longleftrightarrow> (\<exists>rec. life_record v = Some rec \<and> sr_state rec \<in> {Launched e, Terminal e, Uncertain e})"

interpretation launched_life: life_invariant "\<lambda>_ _. launched_under e" for e
proof
  fix r n n' and v v' :: "'v life"
  assume "launched_under e v" and "life_step r (n, v) (n', v')"
  then show "launched_under e v'"
    by (elim life_stepE) (auto simp: launched_under_def)
qed

definition frozen_to :: "'v frozen_call \<Rightarrow> 'v life \<Rightarrow> bool" where
  "frozen_to f v \<longleftrightarrow> (\<exists>rec. life_record v = Some rec \<and> sr_frozen rec = f)"

interpretation frozen_life: life_invariant "\<lambda>_ _. frozen_to f" for f :: "'v frozen_call"
proof
  fix r n n' and v v' :: "'v life"
  assume "frozen_to f v" and "life_step r (n, v) (n', v')"
  then show "frozen_to f v'"
    by (elim life_stepE) (auto simp: frozen_to_def)
qed

section \<open>The counters\<close>

definition records_in :: "(record_state \<Rightarrow> bool) \<Rightarrow> 'v run_store \<Rightarrow> nat" where
  "records_in Q s = length (filter (\<lambda>p. Q (sr_state (snd p))) (rs_records s))"

lemma records_in_put:
  "find_record s r = Some rec \<Longrightarrow> records_in Q (put_record r rec' s) + of_bool (Q (sr_state rec)) = records_in Q s + of_bool (Q (sr_state rec'))"
  using length_filter_bt_set [of "rs_records s" r rec "\<lambda>p. Q (sr_state (snd p))" rec']
  by (simp add: records_in_def find_record_def)

lemma records_in_same:
  "find_record s r = Some rec \<Longrightarrow> sr_state rec' = sr_state rec \<Longrightarrow> records_in Q (put_record r rec' s) = records_in Q s"
  using records_in_put [of s r rec Q rec'] by simp

lemma records_in_parts [simp]:
  "records_in Q (tally f s) = records_in Q s" "records_in Q (notify s) = records_in Q s"
  "records_in Q (s\<lparr>rs_next_epoch := n\<rparr>) = records_in Q s"
  "records_in Q (put_record r rec (s\<lparr>rs_next_epoch := n\<rparr>)) = records_in Q (put_record r rec s)"
  "records_in Q (put_record r rec (tally f s)) = records_in Q (put_record r rec s)"
  "records_in Q (put_record r rec (tally f s\<lparr>rs_next_epoch := n\<rparr>)) = records_in Q (put_record r rec s)"
  by (simp_all add: records_in_def tally_def notify_def put_record_def)

fun is_pending :: "record_state \<Rightarrow> bool" where
  "is_pending Pending = True"
| "is_pending _ = False"

fun is_settled :: "record_state \<Rightarrow> bool" where
  "is_settled (Terminal _) = True"
| "is_settled _ = False"

fun is_uncertain :: "record_state \<Rightarrow> bool" where
  "is_uncertain (Uncertain _) = True"
| "is_uncertain _ = False"

fun was_launched :: "record_state \<Rightarrow> bool" where
  "was_launched Pending = False"
| "was_launched (Claimed _) = False"
| "was_launched _ = True"

text \<open>The counters are what the records say; \<open>lossless\<close> is for histories without worker loss.\<close>

definition tallies_ok :: "bool \<Rightarrow> 'v run_store \<Rightarrow> bool" where
  "tallies_ok lossless s \<longleftrightarrow>
     registered_records (rs_stats s) = length (rs_records s)
   \<and> claims (rs_stats s) = unat (rs_next_epoch s)
   \<and> claims (rs_stats s) + duplicate_skips (rs_stats s) \<le> deliveries (rs_stats s)
   \<and> (rs_next_epoch s \<noteq> - 1 \<longrightarrow> deliveries (rs_stats s) = claims (rs_stats s) + duplicate_skips (rs_stats s))
   \<and> launches (rs_stats s) = records_in was_launched s
   \<and> terminal_records (rs_stats s) = records_in is_settled s
   \<and> uncertain_records (rs_stats s) = records_in is_uncertain s
   \<and> (lossless \<longrightarrow> uncertain_records (rs_stats s) = 0 \<and> claims (rs_stats s) + records_in is_pending s = length (rs_records s))"

lemma sweep_records_in:
  "length (filter (\<lambda>p. was_launched (sr_state (snd p))) (fst (sweep_records m))) = length (filter (\<lambda>p. was_launched (sr_state (snd p))) m)
   \<and> length (filter (\<lambda>p. is_settled (sr_state (snd p))) (fst (sweep_records m))) = length (filter (\<lambda>p. is_settled (sr_state (snd p))) m)
   \<and> length (filter (\<lambda>p. is_uncertain (sr_state (snd p))) (fst (sweep_records m)))
       = length (filter (\<lambda>p. is_uncertain (sr_state (snd p))) m) + length (wl_uncertain (snd (sweep_records m)))"
  by (induction m rule: sweep_records.induct) (auto simp: Let_def case_prod_unfold split: record_state.splits)

lemma sweep_records_length [simp]: "length (fst (sweep_records m)) = length m"
  using sweep_records_keys [of m] by (metis length_map)

lemma sweep_tallies: "tallies_ok l s \<Longrightarrow> tallies_ok False (snd (sweep s))"
  using sweep_records_in [of "rs_records s"]
  by (auto simp: tallies_ok_def sweep_def tally_def records_in_def case_prod_unfold Let_def)

lemma register_tallies: "tallies_ok l s \<Longrightarrow> tallies_ok l (snd (local_register r call s))"
  using length_filter_bt_insert [of "rs_records s" r "\<lambda>_. True"]
  by (auto simp: tallies_ok_def local_register_def find_record_def records_in_def length_filter_bt_insert tally_def notify_def
      split: option.splits)

lemma claim_tallies: "tallies_ok l s \<Longrightarrow> tallies_ok l (snd (local_claim r s))"
proof (cases "find_record s r")
  case (Some rec)
  assume ok: "tallies_ok l s"
  let ?e = "rs_next_epoch s + 1"
  show ?thesis
  proof (cases "sr_state rec = Pending \<and> rs_next_epoch s \<noteq> - 1")
    case True
    then show ?thesis
      using ok Some u64_succ_unat [of "rs_next_epoch s"]
        records_in_put [OF Some, of was_launched "rec\<lparr>sr_state := Claimed ?e\<rparr>"]
        records_in_put [OF Some, of is_settled "rec\<lparr>sr_state := Claimed ?e\<rparr>"]
        records_in_put [OF Some, of is_uncertain "rec\<lparr>sr_state := Claimed ?e\<rparr>"]
        records_in_put [OF Some, of is_pending "rec\<lparr>sr_state := Claimed ?e\<rparr>"]
      by (cases l) (simp_all add: tallies_ok_def local_claim_def Let_def)
  next
    case False
    then show ?thesis
      using ok Some by (auto simp: tallies_ok_def local_claim_def Let_def)
  qed
qed (simp add: local_claim_def)

text \<open>An operation that moves one record to another state and adjusts the counters to match.\<close>

lemma launch_tallies: "tallies_ok l s \<Longrightarrow> tallies_ok l (snd (local_launch c s))"
proof (cases "\<exists>rec call. find_record s (sc_reference c) = Some rec \<and> sr_state rec = Claimed (sc_epoch c) \<and> sr_call rec = Some call")
  case True
  then obtain rec call where rec: "find_record s (sc_reference c) = Some rec" "sr_state rec = Claimed (sc_epoch c)" "sr_call rec = Some call"
    by blast
  let ?rec = "rec\<lparr>sr_call := None, sr_state := Launched (sc_epoch c)\<rparr>"
  show "tallies_ok l s \<Longrightarrow> ?thesis"
    using rec records_in_put [OF rec(1), of was_launched ?rec] records_in_put [OF rec(1), of is_settled ?rec]
      records_in_put [OF rec(1), of is_uncertain ?rec] records_in_put [OF rec(1), of is_pending ?rec]
    by (cases l) (simp_all add: tallies_ok_def local_launch_def)
qed (auto simp: local_launch_def split: option.split)

lemma note_tallies: "tallies_ok l s \<Longrightarrow> tallies_ok l (snd (note_provider_call c s))"
proof (cases "find_record s (sc_reference c)")
  case (Some rec)
  then show "tallies_ok l s \<Longrightarrow> ?thesis"
    using records_in_same [OF Some, of "rec\<lparr>sr_provider_call_recorded := True\<rparr>"]
    by (auto simp: tallies_ok_def note_provider_call_def)
qed (simp add: note_provider_call_def)

lemma commit_tallies: "tallies_ok l s \<Longrightarrow> tallies_ok l (snd (commit_result c s))"
proof (cases "\<exists>rec. find_record s (sc_reference c) = Some rec \<and> sr_state rec = Launched (sc_epoch c) \<and> sr_provider_call_recorded rec")
  case True
  then obtain rec where rec: "find_record s (sc_reference c) = Some rec" "sr_state rec = Launched (sc_epoch c)" "sr_provider_call_recorded rec"
    by blast
  let ?rec = "rec\<lparr>sr_state := Terminal (sc_epoch c)\<rparr>"
  show "tallies_ok l s \<Longrightarrow> ?thesis"
    using rec records_in_put [OF rec(1), of was_launched ?rec] records_in_put [OF rec(1), of is_settled ?rec]
      records_in_put [OF rec(1), of is_uncertain ?rec] records_in_put [OF rec(1), of is_pending ?rec]
    by (cases l) (simp_all add: tallies_ok_def commit_result_def)
qed (auto simp: commit_result_def split: option.split)

lemma publish_tallies: "tallies_ok l s \<Longrightarrow> tallies_ok l (publish p s)"
proof (cases "find_record s (fst p)")
  case (Some rec)
  then show "tallies_ok l s \<Longrightarrow> ?thesis"
    using records_in_same [OF Some, of "rec\<lparr>sr_terminal := Some (snd p)\<rparr>"]
    by (auto simp: tallies_ok_def publish_def)
qed (simp add: publish_def)

definition without_loss :: "'v run_event list \<Rightarrow> bool" where
  "without_loss es \<longleftrightarrow> Do_sweep \<notin> set es"

lemma event_tallies:
  assumes ok: "tallies_ok l (sys_store y)"
  shows "tallies_ok (l \<and> e \<noteq> Do_sweep) (sys_store (store_event e y))"
proof (cases e)
  case (Do_commit c result)
  then show ?thesis using ok commit_tallies [of l "sys_store y" c] by (auto split: prod.splits sum.splits)
next
  case Do_notify
  then show ?thesis using ok by (auto simp: tallies_ok_def)
next
  case Do_sweep
  then show ?thesis using sweep_tallies [OF ok] by (simp add: case_prod_unfold)
qed (simp_all add: ok register_tallies claim_tallies launch_tallies note_tallies publish_tallies)

lemma reachable_tallies: "tallies_ok (without_loss es) (sys_store (store_events es system_new))"
proof -
  have "tallies_ok l (sys_store y) \<Longrightarrow> tallies_ok (l \<and> without_loss es) (sys_store (store_events es y))"
    for l and y :: "'a local_system"
  proof (induction es arbitrary: l y)
    case (Cons e es)
    show ?case using Cons.IH [OF event_tallies [OF Cons.prems], of e] by (cases "e = Do_sweep") (auto simp: without_loss_def)
  qed (simp add: without_loss_def)
  moreover have "tallies_ok True (sys_store (system_new :: 'a local_system))"
    by (simp add: tallies_ok_def system_new_def run_store_new_def records_in_def)
  ultimately show ?thesis by fastforce
qed

section \<open>Properties\<close>

lemma reachable_life: "life_ok r (rs_next_epoch (sys_store (store_events es system_new))) (life_of (store_events es system_new) r)"
proof -
  have "life_of (system_new :: 'a local_system) r = \<lparr>life_record = None, life_calls = None, life_unsent = []\<rparr>"
    by (simp add: life_of_def system_new_def run_store_new_def find_record_def)
  then show ?thesis by (intro sound_life.events system_wf_new) (simp add: life_ok_def)
qed

lemma launch_record:
  "fst (local_launch c s) = Inr call \<longleftrightarrow>
     (\<exists>rec. find_record s (sc_reference c) = Some rec \<and> sr_state rec = Claimed (sc_epoch c) \<and> sr_call rec = Some call)"
  by (auto simp: local_launch_def split: option.splits)

lemma note_record:
  "fst (note_provider_call c s) = Inr () \<longleftrightarrow>
     (\<exists>rec. find_record s (sc_reference c) = Some rec \<and> sr_state rec = Launched (sc_epoch c) \<and> \<not> sr_provider_call_recorded rec)"
  by (auto simp: note_provider_call_def split: option.splits)

lemma commit_record:
  "fst (commit_result c s) = Inr () \<longleftrightarrow>
     (\<exists>rec. find_record s (sc_reference c) = Some rec \<and> sr_state rec = Launched (sc_epoch c) \<and> sr_provider_call_recorded rec)"
  by (auto simp: commit_result_def split: option.splits)

text \<open>C35: one launch and one provider call per step, whatever the queue delivers. In any interleaving of
  registrations, deliveries, workers and recoveries: a step's provider call is counted at most once; a
  successful launch hands out the call that was registered under exactly that identity, and after it no
  claim on the step, old or new, ever launches it again.\<close>

theorem step_runs_once:
  assumes y: "y = store_events es system_new"
  shows "map_of (provider_calls (rs_stats (sys_store y))) r \<in> {None, Some 1}
    \<and> (fst (local_launch c (sys_store y)) = Inr call \<longrightarrow>
         for_call call = sc_reference c
       \<and> map_option sr_frozen (find_record (sys_store y) (sc_reference c)) = Some (frozen_for_call call)
       \<and> (\<forall>es' (c' :: step_claim) call'. sc_reference c' = sc_reference c \<longrightarrow>
            fst (local_launch c' (sys_store (store_events (Do_launch c # es') y))) \<noteq> Inr call'))"
proof (intro conjI impI allI)
  have wf: "system_wf y" unfolding y by (rule reachable_wf)
  have ok: "life_ok q (rs_next_epoch (sys_store y)) (life_of y q)" for q
    unfolding y by (rule reachable_life)
  show "map_of (provider_calls (rs_stats (sys_store y))) r \<in> {None, Some 1}"
    using ok [of r] by (auto simp: life_ok_def life_of_def split: option.splits)
  assume "fst (local_launch c (sys_store y)) = Inr call"
  then obtain rec where rec: "find_record (sys_store y) (sc_reference c) = Some rec" "sr_state rec = Claimed (sc_epoch c)"
      "sr_call rec = Some call"
    by (auto simp: launch_record)
  then have "owns_call (sc_reference c) rec"
    using ok [of "sc_reference c"] by (auto simp: life_ok_def life_of_def)
  then show "for_call call = sc_reference c"
    and "map_option sr_frozen (find_record (sys_store y) (sc_reference c)) = Some (frozen_for_call call)"
    using rec by (auto simp: owns_call_def)
  fix es' call' and c' :: step_claim
  assume same: "sc_reference c' = sc_reference c"
  have "launched_under (sc_epoch c) (life_of (store_event (Do_launch c) y) (sc_reference c))"
    using rec by (simp add: launched_under_def life_of_def local_launch_def)
  then have "launched_under (sc_epoch c) (life_of (store_events es' (store_event (Do_launch c) y)) (sc_reference c))"
    by (rule launched_life.events [OF event_wf [OF wf]])
  then show "fst (local_launch c' (sys_store (store_events (Do_launch c # es') y))) \<noteq> Inr call'"
    using same by (auto simp: launched_under_def life_of_def launch_record)
qed

text \<open>One answer. When a worker's completion is accepted, its result becomes the step's only answer: in every
  later system nothing else is in the step's channel, nothing else is on its way to it, the result is
  there as soon as it was sent, and no completion of the step is ever accepted again. The same holds of
  the uncertain answer of a launched step whose worker was lost.\<close>

theorem one_answer:
  assumes y: "y = store_events es system_new"
    and decision: "e = Do_commit c x \<and> fst (commit_result c (sys_store y)) = Inr () \<and> r = sc_reference c
      \<or> e = Do_sweep \<and> x = Inl (lost_error r) \<and> (\<exists>rec n. find_record (sys_store y) r = Some rec \<and> sr_state rec = Launched n)"
    and z: "z = store_events es' (store_event e y)"
  shows "\<exists>rec. find_record (sys_store z) r = Some rec
    \<and> (sr_terminal rec = None \<and> unsent_for r (sys_unsent z) = [x] \<or> sr_terminal rec = Some x \<and> unsent_for r (sys_unsent z) = [])
    \<and> (\<forall>c' :: step_claim. sc_reference c' = r \<longrightarrow> fst (commit_result c' (sys_store z)) \<noteq> Inr ())"
proof -
  have wf: "system_wf y" unfolding y by (rule reachable_wf)
  have ok: "life_ok r (rs_next_epoch (sys_store y)) (life_of y r)"
    unfolding y by (rule reachable_life)
  from decision have "decided x (life_of (store_event e y) r)"
  proof
    assume commit: "e = Do_commit c x \<and> fst (commit_result c (sys_store y)) = Inr () \<and> r = sc_reference c"
    then obtain rec where rec: "find_record (sys_store y) r = Some rec" "sr_state rec = Launched (sc_epoch c)" "sr_provider_call_recorded rec"
      by (auto simp: commit_record)
    then have "sr_terminal rec = None" "unsent_for r (sys_unsent y) = []"
      using ok by (auto simp: life_ok_def life_of_def life_answers_def split: option.splits)
    then show ?thesis using rec commit by (simp add: decided_def life_of_def commit_result_def)
  next
    assume sweep: "e = Do_sweep \<and> x = Inl (lost_error r) \<and> (\<exists>rec n. find_record (sys_store y) r = Some rec \<and> sr_state rec = Launched n)"
    then obtain rec n where rec: "find_record (sys_store y) r = Some rec" "sr_state rec = Launched n" by blast
    then have "sr_terminal rec = None" "unsent_for r (sys_unsent y) = []"
      using ok by (auto simp: life_ok_def life_of_def life_answers_def split: option.splits)
    then show ?thesis
      using rec sweep wf by (simp add: decided_def life_of_def sweep_parts sweep_unsent(1) system_wf_def case_prod_unfold)
  qed
  then have "decided x (life_of z r)"
    unfolding z by (rule decided_life.events [OF event_wf [OF wf]])
  then show ?thesis by (auto simp: decided_def life_of_def commit_record)
qed

lemma fenced_refused:
  assumes "fenced (sc_epoch c) n (life_of z (sc_reference c))"
  obtains e1 e2 e3 where "local_launch c (sys_store z) = (Inl e1, sys_store z)"
    and "note_provider_call c (sys_store z) = (Inl e2, sys_store z)"
    and "commit_result c (sys_store z) = (Inl e3, sys_store z)"
  using assms
  by (cases "find_record (sys_store z) (sc_reference c)")
    (auto simp: fenced_def life_of_def local_launch_def note_provider_call_def commit_result_def)

lemma sweep_fences:
  assumes "system_wf y" and "e \<le> rs_next_epoch (sys_store y)"
  shows "fenced e (rs_next_epoch (sys_store (store_event Do_sweep y))) (life_of (store_event Do_sweep y) r)"
proof -
  have "swept st \<noteq> Claimed e \<and> swept st \<noteq> Launched e" for st by (cases st) simp_all
  then show ?thesis
    using assms by (auto simp: fenced_def life_of_def sweep_parts case_prod_unfold)
qed

text \<open>Fencing. A worker that lost its claim to a recovery can do nothing any more, whatever happens later, also
  after the step was claimed again: its launch, its provider call and its completion are refused and
  change nothing.\<close>

theorem lost_claim_fenced:
  assumes y: "y = store_events es system_new" and claim: "fst (local_claim r (sys_store y)) = Inr (Some c)"
    and z: "z = store_events (Do_claim r # es1 @ Do_sweep # es2) y"
  shows "store_event (Do_launch c) z = z \<and> store_event (Do_note c) z = z \<and> store_event (Do_commit c x) z = z
    \<and> fst (local_launch c (sys_store z)) \<noteq> Inr call \<and> fst (note_provider_call c (sys_store z)) \<noteq> Inr ()
    \<and> fst (commit_result c (sys_store z)) \<noteq> Inr ()"
proof -
  let ?y1 = "store_event (Do_claim r) y"
  have wf1: "system_wf ?y1" unfolding y by (intro event_wf reachable_wf)
  have c: "sc_epoch c \<le> rs_next_epoch (sys_store ?y1)"
    using claim by (auto simp: local_claim_def Let_def split: option.splits if_splits)
  have "sc_epoch c \<le> rs_next_epoch (sys_store (store_events es1 ?y1))"
    by (rule epoch_life.events [OF wf1 c])
  from fenced_life.events [OF event_wf [OF events_wf [OF wf1]] sweep_fences [OF events_wf [OF wf1] this, of "sc_reference c"], of es2]
  have "fenced (sc_epoch c) (rs_next_epoch (sys_store z)) (life_of z (sc_reference c))"
    unfolding z by (simp only: store_events_simps)
  then obtain e1 e2 e3 where "local_launch c (sys_store z) = (Inl e1, sys_store z)"
      "note_provider_call c (sys_store z) = (Inl e2, sys_store z)"
      "commit_result c (sys_store z) = (Inl e3, sys_store z)"
    by (rule fenced_refused)
  then show ?thesis by simp
qed

lemma all_settled:
  assumes "records_in is_settled s = length (rs_records s)"
  shows "records_in was_launched s = length (rs_records s)" and "records_in is_pending s = 0"
    and "find_record s r = Some rec \<Longrightarrow> is_settled (sr_state rec)"
proof -
  have all: "\<forall>p \<in> set (rs_records s). is_settled (sr_state (snd p))"
    using assms length_filter_less [of _ "rs_records s" "\<lambda>p. is_settled (sr_state (snd p))"]
    unfolding records_in_def by (metis less_irrefl)
  then show "find_record s r = Some rec \<Longrightarrow> is_settled (sr_state rec)"
    by (auto simp: find_record_def dest!: map_of_SomeD)
  have "is_settled st \<Longrightarrow> was_launched st \<and> \<not> is_pending st" for st by (cases st) simp_all
  with all show "records_in was_launched s = length (rs_records s)" and "records_in is_pending s = 0"
    by (auto simp: records_in_def filter_empty_conv intro!: arg_cong [of _ _ length] filter_True)
qed

lemma lookup_length:
  assumes "bt_wf m" and "bt_wf m'" and "\<And>k. map_of m k = None \<longleftrightarrow> map_of m' k = None"
  shows "length m = length (m' :: ('k::linorder \<times> 'w) list)"
proof -
  have "fst ` set m = fst ` set m'"
    using assms(3) by (auto simp: map_of_eq_None_iff)
  then show ?thesis
    using assms(1,2) by (metis bt_wf_distinct distinct_card length_map set_map)
qed

text \<open>The snapshot the example checks at the end. In a history without worker loss in which three registered steps
  have all settled, everything \<open>validate_final_snapshot\<close> asks for holds (three claims, launches and provider
  calls, one call per step, nothing uncertain) except possibly one thing: it asks for six deliveries,
  and so holds exactly when the duplicate of every delivery has been seen. That all three have settled,
  which is what the example waits for, does not imply it.\<close>

theorem final_snapshot_decided:
  assumes y: "y = store_events es system_new" and lossless: "without_loss es"
    and three: "registered_records (rs_stats (sys_store y)) = 3" "terminal_records (rs_stats (sys_store y)) = 3"
  shows "validate_final_snapshot (rs_stats (sys_store y)) \<longleftrightarrow> deliveries (rs_stats (sys_store y)) = 6"
proof -
  let ?s = "sys_store y"
  have ok: "tallies_ok True ?s"
    using reachable_tallies [of es] lossless unfolding y by simp
  have wf: "system_wf y" unfolding y by (rule reachable_wf)
  have len: "length (rs_records ?s) = 3" and settled: "records_in is_settled ?s = length (rs_records ?s)"
    using ok three by (auto simp: tallies_ok_def)
  note all = all_settled [OF settled]
  have calls: "map_of (provider_calls (rs_stats ?s)) r = (if find_record ?s r = None then None else Some 1)" for r
    using reachable_life [of r es] all(3) [of r] unfolding y [symmetric]
    by (auto simp: life_ok_def life_of_def split: option.splits record_state.splits)
  have "length (provider_calls (rs_stats ?s)) = 3"
    using wf lookup_length [of "provider_calls (rs_stats ?s)" "rs_records ?s"] len calls
    by (auto simp: system_wf_def find_record_def)
  moreover have "list_all (\<lambda>n. n = 1) (bt_values (provider_calls (rs_stats ?s)))"
  proof -
    have "n = 1" if "(r, n) \<in> set (provider_calls (rs_stats ?s))" for r n
      using calls [of r] map_of_is_SomeI [OF bt_wf_distinct that] wf by (auto simp: system_wf_def split: if_splits)
    then show ?thesis by (auto simp: list_all_iff bt_values_def)
  qed
  moreover have "claims (rs_stats ?s) = 3" and "launches (rs_stats ?s) = 3" and "uncertain_records (rs_stats ?s) = 0"
    and "rs_next_epoch ?s \<noteq> - 1 \<longrightarrow> deliveries (rs_stats ?s) = 3 + duplicate_skips (rs_stats ?s)"
    and "unat (rs_next_epoch ?s) = 3"
    using ok all len by (auto simp: tallies_ok_def)
  moreover have "unat (- 1 :: u64) \<noteq> 3" by (simp add: unsigned_minus_1_eq_mask mask_eq_exp_minus_1)
  ultimately show ?thesis
    using three by (auto simp: validate_final_snapshot_def expected_logical_steps_def expected_deliveries_def)
qed

section \<open>Witnesses\<close>

definition sample_local_call :: "string \<Rightarrow> unit local_call" where
  "sample_local_call i =
     \<lparr>call_run_id = ''r'', call_workflow_id = ''w'', call_workflow_version = ''1'', call_step_id = i,
      call_input = \<lparr>rr_repository = ''x'', rr_objective = ''y''\<rparr>, call_job = Synthesize,
      call_dependencies = [], call_cancellation = [0], call_deadline = None\<rparr>"

abbreviation sample_ref :: "string \<Rightarrow> local_job_ref" where
  "sample_ref i \<equiv> StepJobRef 1 ''r'' ''w'' ''1'' i"

definition step_history :: "string \<Rightarrow> claim_epoch \<Rightarrow> unit run_event list" where
  "step_history i e = [Do_register (sample_local_call i), Do_claim (sample_ref i), Do_launch \<lparr>sc_reference = sample_ref i, sc_epoch = e\<rparr>,
     Do_note \<lparr>sc_reference = sample_ref i, sc_epoch = e\<rparr>,
     Do_commit \<lparr>sc_reference = sample_ref i, sc_epoch = e\<rparr> (Inr (turn_outcome_new ''done''))]"

text \<open>All three steps settle and the duplicate of the last delivery is still in the queue: the final check fails.\<close>

definition late_history :: "unit run_event list" where
  "late_history = step_history ''a'' 1 @ [Do_claim (sample_ref ''a'')] @ step_history ''b'' 2 @ [Do_claim (sample_ref ''b'')]
     @ step_history ''c'' 3"

theorem final_snapshot_decided_witness:
  "without_loss late_history \<and> terminal_records (rs_stats (sys_store (store_events late_history system_new))) = 3
   \<and> \<not> validate_final_snapshot (rs_stats (sys_store (store_events late_history system_new)))"
proof -
  let ?y = "store_events late_history system_new"
  have "without_loss late_history"
    by (simp add: without_loss_def late_history_def step_history_def)
  moreover have "registered_records (rs_stats (sys_store ?y)) = 3"
    and t: "terminal_records (rs_stats (sys_store ?y)) = 3" and d: "deliveries (rs_stats (sys_store ?y)) = 5"
    by code_simp+
  ultimately show ?thesis
    using final_snapshot_decided [OF refl, of late_history] by simp
qed

abbreviation sample_claim :: step_claim where
  "sample_claim \<equiv> \<lparr>sc_reference = sample_ref ''a'', sc_epoch = 1\<rparr>"

theorem step_runs_once_witness:
  "fst (local_launch sample_claim (sys_store (store_events (take 2 (step_history ''a'' 1)) system_new))) = Inr (sample_local_call ''a'')
   \<and> for_call (sample_local_call ''a'') = sample_ref ''a''
   \<and> fst (local_launch sample_claim (sys_store (store_events [Do_launch sample_claim, Do_sweep, Do_claim (sample_ref ''a'')]
        (store_events (take 2 (step_history ''a'' 1)) system_new)))) \<noteq> Inr (sample_local_call ''a'')"
proof -
  have run: "fst (local_launch sample_claim (sys_store (store_events (take 2 (step_history ''a'' 1)) system_new))) = Inr (sample_local_call ''a'')"
    by code_simp
  note once = mp [OF conjunct2 [OF step_runs_once [OF refl, of "take 2 (step_history ''a'' 1)" "sample_ref ''a''"]] run]
  have "for_call (sample_local_call ''a'') = sample_ref ''a''"
    using conjunct1 [OF once] by simp
  moreover have "fst (local_launch sample_claim (sys_store (store_events [Do_launch sample_claim, Do_sweep, Do_claim (sample_ref ''a'')]
        (store_events (take 2 (step_history ''a'' 1)) system_new)))) \<noteq> Inr (sample_local_call ''a'')"
    by (rule conjunct2 [OF conjunct2 [OF once], rule_format]) (rule refl)
  ultimately show ?thesis using run by blast
qed

theorem one_answer_witness:
  "\<exists>rec. find_record (sys_store (store_events (take 4 (step_history ''a'' 1) @ [Do_sweep, Do_publish 0]) system_new)) (sample_ref ''a'') = Some rec
     \<and> sr_terminal rec = Some (Inl (lost_error (sample_ref ''a'')))"
proof -
  let ?y = "store_events (take 4 (step_history ''a'' 1)) system_new"
  have "case find_record (sys_store ?y) (sample_ref ''a'') of Some rec \<Rightarrow> sr_state rec = Launched 1 | None \<Rightarrow> False"
    by code_simp
  then have "\<exists>rec n. find_record (sys_store ?y) (sample_ref ''a'') = Some rec \<and> sr_state rec = Launched n"
    by (auto split: option.splits)
  moreover have "unsent_for (sample_ref ''a'') (sys_unsent (store_events [Do_publish 0] (store_event Do_sweep ?y))) = []"
    by code_simp
  ultimately show ?thesis
    using one_answer [OF refl, of Do_sweep sample_claim "Inl (lost_error (sample_ref ''a''))" "take 4 (step_history ''a'' 1)" "sample_ref ''a''"
        _ "[Do_publish 0]"] by auto
qed

theorem lost_claim_fenced_witness:
  "fst (local_claim (sample_ref ''a'') (sys_store (store_events (take 1 (step_history ''a'' 1)) system_new))) = Inr (Some sample_claim)
   \<and> fst (local_launch sample_claim (sys_store (store_events [Do_claim (sample_ref ''a''), Do_sweep, Do_claim (sample_ref ''a'')]
        (store_events (take 1 (step_history ''a'' 1)) system_new)))) \<noteq> Inr (sample_local_call ''a'')"
proof -
  have claim: "fst (local_claim (sample_ref ''a'') (sys_store (store_events (take 1 (step_history ''a'' 1)) system_new))) = Inr (Some sample_claim)"
    by code_simp
  have "store_events [Do_claim (sample_ref ''a''), Do_sweep, Do_claim (sample_ref ''a'')] (store_events (take 1 (step_history ''a'' 1)) system_new)
      = store_events (Do_claim (sample_ref ''a'') # [] @ Do_sweep # [Do_claim (sample_ref ''a'')]) (store_events (take 1 (step_history ''a'' 1)) system_new)"
    by simp
  from lost_claim_fenced [OF refl claim this, of "Inr (turn_outcome_new [])" "sample_local_call ''a''"] show ?thesis
    using claim by blast
qed

end
