(* ===== verification/Layered_Fake.thy ===== *)
theory Layered_Fake
  imports Fake Layer_Stack Workflow_Execution
begin

text \<open>
  The fake provider under the layers, as the examples of the workspace compose it (\<^verbatim>\<open>fake_provider\<close> of
  \<^verbatim>\<open>examples/apalis-local/src/main.rs\<close> and of \<^verbatim>\<open>crates/tower-agent-workflow/examples/fake_fanout.rs\<close>), and what
  it answers when nothing interferes with the call.
\<close>

section \<open>The provider\<close>

type_synonym 'v local_provider = "('v fake_options turn agent_request, 'v turn_outcome) service"

text \<open>
  \<open>fake_provider\<close>: the fake service under supervision, panic catching, single-flight admission (its
  readiness is driven by \<open>oneshot\<close>, so the call holds a permit), the deadline layer and validation.
\<close>

record local_env =
  le_join :: "panic_payload \<Rightarrow> string"
  le_deadline :: deadline_env
  le_fake :: fake_env

definition named_fake :: "fake_env \<Rightarrow> string \<Rightarrow> 'v local_provider" where
  "named_fake env name request =
     (ending.Settled (fst (call_fake env name request)), is_ok (fake_validate (fe_cancelled env) name request))"

definition layered_fake :: "local_env \<Rightarrow> string \<Rightarrow> 'v local_provider" where
  "layered_fake env name =
     with_layers [SuperviseCall (le_join env), CatchPanic, AdmitOne True, EnforceDeadline (le_deadline env), ValidateTurn None]
       (named_fake (le_fake env) name)"

section \<open>Calls that nothing interferes with\<close>

definition calm :: "local_env \<Rightarrow> call_context \<Rightarrow> bool" where
  "calm env ctx \<longleftrightarrow> \<not> is_cancelled (env_cancelled (le_deadline env)) (ctx_cancellation ctx)
     \<and> (\<forall>d. ctx_deadline ctx = Some d \<longrightarrow> env_now (le_deadline env) < d) \<and> env_wake (le_deadline env) = InnerSettles
     \<and> \<not> fe_cancelled (le_fake env) \<and> (\<forall>n. \<not> fe_interrupts (le_fake env) n)"

lemma layered_fake_calm:
  assumes "calm env ctx" and "\<not> is_blank (turn_prompt turn)"
  shows "layered_fake env name (agent_request_with_context turn ctx) =
    named_fake (le_fake env) name (agent_request_with_context turn ctx)"
  using assms
  by (auto simp: layered_fake_def apply_layer_def supervise_layer_def catch_panic_def admission_call_def deadline_layer_def
      deadline_call_def validate_turn_def named_fake_def calm_def agent_request_with_context_def Let_def
      split: option.splits)

text \<open>The same for the call of a workflow step, under the context the step gives its turn.\<close>

definition undisturbed :: "local_env \<Rightarrow> ('i, 'j, 'o) step_call \<Rightarrow> bool" where
  "undisturbed env call \<longleftrightarrow> \<not> is_cancelled (env_cancelled (le_deadline env)) (call_cancellation call)
     \<and> (\<forall>d. call_deadline call = Some d \<longrightarrow> env_now (le_deadline env) < d) \<and> env_wake (le_deadline env) = InnerSettles
     \<and> \<not> fe_cancelled (le_fake env) \<and> (\<forall>n. \<not> fe_interrupts (le_fake env) n)"

lemma context_parts:
  "ctx_cancellation (agent_context op fresh call) = call_cancellation call"
  "ctx_deadline (agent_context op fresh call) = call_deadline call"
  "ctx_preassigned_session (agent_context op fresh call) = None"
  by (simp_all add: agent_context_def call_context_default_def with_cancellation_def with_deadline_def Let_def split: option.split)

lemma undisturbed_calm: "undisturbed env call \<Longrightarrow> calm env (agent_context op fresh call)"
  by (simp add: undisturbed_def calm_def context_parts)

lemma layered_fake_undisturbed:
  assumes "undisturbed env call" and "\<not> is_blank (turn_prompt turn)"
  shows "fst (layered_fake env name (agent_request_with_context turn (agent_context op fresh call))) =
    ending.Settled (fst (call_fake (le_fake env) name (agent_request_with_context turn (agent_context op fresh call))))"
  using layered_fake_calm [OF undisturbed_calm [OF assms(1)] assms(2)] by (simp add: named_fake_def)

text \<open>A fake turn that only prescribes its output answers with it, in the session it was given or a new one.\<close>

lemma call_fake_output:
  assumes "\<not> fe_cancelled env" and "\<forall>n. \<not> fe_interrupts env n" and "\<not> is_blank name"
    and "\<not> is_blank (turn_prompt turn)" and "turn_options turn = fake_options_default
      \<lparr>fake_delay := delay, fake_output := Some answer, fake_simulated_tokens := tokens, fake_simulated_cost_usd := usd\<rparr>"
    and "\<forall>s. turn_session turn = Some s \<longrightarrow> handle_provider s = name" and "ctx_preassigned_session ctx = None"
  obtains out s where "fst (call_fake env name (agent_request_with_context turn ctx)) = Inr out"
    and "out_output out = answer" and "out_session out = Some s" and "handle_provider s = name"
proof -
  have ok: "fake_validate (fe_cancelled env) name (agent_request_with_context turn ctx) = Inr ()"
    using assms by (simp add: fake_validate_Inr agent_request_with_context_def option_or_def split: option.split)
  show ?thesis
    using assms ok that
    by (cases "turn_session turn"; cases delay)
      (auto simp: call_fake_def fake_settle_def fake_options_default_def wait_or_cancel_def agent_request_with_context_def
        turn_outcome_new_def mint_fake_session_def session_handle_new_def Let_def)
qed

text \<open>A fake turn with a prescribed outcome answers with it, after any script of pauses.\<close>

lemma run_script_quiet: "\<forall>n. \<not> interrupts n \<Longrightarrow> fst (run_script interrupts k steps) = Inr ()"
  by (induction interrupts k steps rule: run_script.induct) (simp_all add: wait_or_cancel_def case_prod_unfold Let_def)

lemma call_fake_succeed:
  assumes "\<not> fe_cancelled env" and quiet: "\<forall>n. \<not> fe_interrupts env n"
    and "fake_validate False name (agent_request_with_context turn ctx) = Inr ()"
    and "turn_options turn = fake_with_script (fake_succeed out) script"
  shows "fst (call_fake env name (agent_request_with_context turn ctx)) = Inr out"
proof -
  obtain es where "run_script (fe_interrupts env) 0 script = (Inr (), es)"
    using run_script_quiet [OF quiet, of 0 script] by (cases "run_script (fe_interrupts env) 0 script") simp
  with assms show ?thesis
    by (simp add: call_fake_def fake_settle_def fake_with_script_def fake_succeed_def fake_options_default_def
        agent_request_with_context_def Let_def)
qed

text \<open>An environment that lets every call without a deadline run.\<close>

definition quiet_env :: local_env where
  "quiet_env = \<lparr>le_join = (\<lambda>_. ''panicked''), le_deadline = \<lparr>env_cancelled = [], env_now = 0, env_wake = InnerSettles\<rparr>,
     le_fake = \<lparr>fe_cancelled = False, fe_interrupts = (\<lambda>_. False), fe_elapsed = 5, fe_counter = 0\<rparr>\<rparr>"

end
