(* ===== verification/Local_Worker.thy ===== *)
theory Local_Worker
  imports Local_Run_Store Layered_Fake Workflow_Authored
begin

text \<open>
  The two services of the local queue host (\<^verbatim>\<open>examples/apalis-local/src/main.rs\<close>, from line 417) around the
  run store: the dispatcher the workflow calls, which registers a step, enqueues two deliveries of its
  reference and waits for the step's channel; and the task service the queue's worker calls with a
  delivered reference. A task runs between the awaits of the store, so it is a process of small steps.
  The review workflow of the example and its fake providers close the loop. The rendezvous of the roots
  (\<open>RootControl\<close>) and the shutdown token only decide when a step waits and whether its token is
  cancelled, which is an input of the environment here.
\<close>

section \<open>Executing one step\<close>

definition architect_provider :: string where
  "architect_provider = ''fake-architect''"

definition verifier_provider :: string where
  "verifier_provider = ''fake-verifier''"

definition local_dependency :: "'v local_call \<Rightarrow> string \<Rightarrow> agent_error + 'v turn_outcome" where
  "local_dependency call i =
     ok_or (invalid_request (''missing `'' @ i @ ''` dependency output'')) (map_of (call_dependencies call) i)"

text \<open>The cost literals as bit patterns: 0.006, 0.004 and 0.003.\<close>

definition cost_6_milli :: f64 where
  "cost_6_milli = 4573567551181324026"

definition cost_4_milli :: f64 where
  "cost_4_milli = 4571261708172110332"

definition cost_3_milli :: f64 where
  "cost_3_milli = 4569063951553953530"

text \<open>Which provider a step calls, with which turn.\<close>

datatype local_role = Architect | Verifier

definition step_turn :: "'v local_call \<Rightarrow> agent_error + (local_role \<times> 'v fake_options turn)" where
  "step_turn call =
     (case call_job call of
        Architecture options \<Rightarrow>
          Inr (Architect, turn_with_options (turn_new
            (''Review '' @ rr_repository (call_input call) @ '' for: '' @ rr_objective (call_input call))) options)
      | Verification options \<Rightarrow>
          Inr (Verifier, turn_with_options (turn_new
            (''Verify '' @ rr_repository (call_input call) @ '' for: '' @ rr_objective (call_input call))) options)
      | Synthesize \<Rightarrow>
          and_then (local_dependency call ''architecture'') (\<lambda>architecture.
          and_then (local_dependency call ''verification'') (\<lambda>verification.
          and_then (ok_or (invalid_request ''architecture output did not include a session'') (out_session architecture)) (\<lambda>session.
            let output = ''joined: '' @ out_output architecture @ '' | '' @ out_output verification;
                options = fake_options_default\<lparr>fake_output := Some output, fake_simulated_tokens := Some 60,
                  fake_simulated_cost_usd := Some cost_3_milli\<rparr>;
                prompt = ''Synthesize:'' @ [CHR 0x0A] @ out_output architecture @ [CHR 0x0A] @ out_output verification
            in Inr (Architect, turn_resume (turn_with_options (turn_new prompt) options) session)))))"

definition execute_agent_step ::
  "operation_id \<Rightarrow> token \<Rightarrow> 'v local_provider \<Rightarrow> 'v local_provider \<Rightarrow> 'v local_call \<Rightarrow> 'v turn_outcome ending \<times> bool" where
  "execute_agent_step op fresh architect verifier call =
     (let context = agent_context op fresh call
      in case step_turn call of
           Inl e \<Rightarrow> (ending.Settled (Inl e), False)
         | Inr (role, turn) \<Rightarrow>
             (case role of Architect \<Rightarrow> architect | Verifier \<Rightarrow> verifier) (agent_request_with_context turn context))"

section \<open>The dispatcher and the queue\<close>

definition internal_error :: "string \<Rightarrow> agent_error" where
  "internal_error message = error_new Internal message Admission EffNone"

definition collision_message :: "step_id \<Rightarrow> string" where
  "collision_message i = ''logical identity collision for workflow step `'' @ i @ ''`''"

record 'v local_host =
  lh_system :: "'v local_system"
  lh_queue :: "local_job_ref list"

text \<open>
  The dispatcher's call up to its wait: a refusal, or the reference whose channel it waits on. Sending to
  the unbounded in-memory queue and rendering the reference succeed.
\<close>

definition dispatch_step :: "'v local_call \<Rightarrow> 'v local_host \<Rightarrow> (agent_error + local_job_ref) \<times> 'v local_host" where
  "dispatch_step call h =
     (let r = for_call call; y = lh_system h
      in case local_register r call (sys_store y) of
           (Inl e, s) \<Rightarrow> (Inl (internal_error (collision_message (lr_step_id r))), h\<lparr>lh_system := y\<lparr>sys_store := s\<rparr>\<rparr>)
         | (Inr should_enqueue, s) \<Rightarrow>
             (Inr r, h\<lparr>lh_system := y\<lparr>sys_store := s\<rparr>,
                       lh_queue := lh_queue h @ (if should_enqueue then [r, r] else [])\<rparr>))"

text \<open>One look at the channel: \<open>None\<close> waits for the next change.\<close>

definition dispatch_poll :: "local_job_ref \<Rightarrow> 'v local_system \<Rightarrow> 'v terminal_result option" where
  "dispatch_poll r y = Option.bind (find_record (sys_store y) r) sr_terminal"

section \<open>The task service\<close>

text \<open>One delivered task, between its awaits.\<close>

datatype 'v local_task =
    Delivered local_job_ref
  | Holding step_claim
  | Prepared_call step_claim "'v local_call"
  | Calling step_claim "'v local_call"
  | Completing step_claim "'v terminal_result"
  | Publishing local_job_ref
  | Acknowledged
  | Task_failed store_error

text \<open>The position of the first settlement on its way to a channel.\<close>

fun unsent_index :: "local_job_ref \<Rightarrow> (local_job_ref \<times> 'v terminal_result) list \<Rightarrow> nat" where
  "unsent_index r [] = 0"
| "unsent_index r (p # ps) = (if fst p = r then 0 else Suc (unsent_index r ps))"

text \<open>\<open>run\<close> is the execution of the step, from the call the task launched.\<close>

fun task_step :: "('v local_call \<Rightarrow> 'v terminal_result) \<Rightarrow> 'v local_task \<Rightarrow> 'v local_system \<Rightarrow> 'v local_task \<times> 'v local_system" where
  "task_step run (Delivered r) y =
     (case local_claim r (sys_store y) of
        (Inl e, s) \<Rightarrow> (Task_failed e, y\<lparr>sys_store := s\<rparr>)
      | (Inr None, s) \<Rightarrow> (Acknowledged, y\<lparr>sys_store := s\<rparr>)
      | (Inr (Some c), s) \<Rightarrow> (Holding c, y\<lparr>sys_store := s\<rparr>))"
| "task_step run (Holding c) y =
     (case local_launch c (sys_store y) of
        (Inl e, s) \<Rightarrow> (Task_failed e, y\<lparr>sys_store := s\<rparr>)
      | (Inr call, s) \<Rightarrow> (Prepared_call c call, y\<lparr>sys_store := s\<rparr>))"
| "task_step run (Prepared_call c call) y =
     (case note_provider_call c (sys_store y) of
        (Inl e, s) \<Rightarrow> (Task_failed e, y\<lparr>sys_store := s\<rparr>)
      | (Inr _, s) \<Rightarrow> (Calling c call, y\<lparr>sys_store := s\<rparr>))"
| "task_step run (Calling c call) y = (Completing c (run call), y)"
| "task_step run (Completing c x) y =
     (case commit_result c (sys_store y) of
        (Inl e, s) \<Rightarrow> (Task_failed e, y\<lparr>sys_store := s\<rparr>)
      | (Inr _, s) \<Rightarrow>
          (Publishing (sc_reference c), y\<lparr>sys_store := s, sys_unsent := sys_unsent y @ [(sc_reference c, x)]\<rparr>))"
| "task_step run (Publishing r) y = (Acknowledged, store_event Do_notify (store_event (Do_publish (unsent_index r (sys_unsent y))) y))"
| "task_step run Acknowledged y = (Acknowledged, y)"
| "task_step run (Task_failed e) y = (Task_failed e, y)"

text \<open>A task that nothing interferes with takes at most six steps.\<close>

definition task_run :: "('v local_call \<Rightarrow> 'v terminal_result) \<Rightarrow> local_job_ref \<Rightarrow> 'v local_system \<Rightarrow> 'v local_task \<times> 'v local_system" where
  "task_run run r y = ((\<lambda>(t, z). task_step run t z) ^^ 6) (Delivered r, y)"

section \<open>The review workflow\<close>

definition review_workflow :: "(workflow_definition_error + 'v review_job workflow_definition) option" where
  "review_workflow =
     dag_build (builder_push (builder_push (builder_push (builder_new ''repository-review'' ''v1'')
       (step_spec_new ''architecture'' (Architecture (fake_options_default
          \<lparr>fake_delay := Some (duration_from_millis 30), fake_output := Some ''architecture kept transport thin'',
           fake_simulated_tokens := Some 120, fake_simulated_cost_usd := Some cost_6_milli\<rparr>))))
       (step_spec_new ''verification'' (Verification (fake_options_default
          \<lparr>fake_delay := Some (duration_from_millis 20), fake_output := Some ''verification covered duplicate delivery'',
           fake_simulated_tokens := Some 90, fake_simulated_cost_usd := Some cost_4_milli\<rparr>))))
       (step_spec_needs (step_spec_new ''synthesize'' Synthesize) [''architecture'', ''verification'']))"

text \<open>\<open>validate_outcome\<close>: \<open>None\<close> is the panic of the index, \<open>Some None\<close> a failed \<open>ensure!\<close>.\<close>

definition validate_outcome :: "'v turn_outcome workflow_outcome \<Rightarrow> string \<Rightarrow> 'v turn_outcome option option" where
  "validate_outcome outcome run =
     (if wo_run_id outcome \<noteq> run \<or> wo_workflow_id outcome \<noteq> ''repository-review'' \<or> wo_workflow_version outcome \<noteq> ''v1''
        \<or> length (wo_outputs outcome) \<noteq> expected_logical_steps \<or> length (wo_leaf_outputs outcome) \<noteq> 1
      then Some None
      else case map_of (wo_outputs outcome) ''synthesize'' of
             None \<Rightarrow> None
           | Some synthesis \<Rightarrow>
               if out_output synthesis
                    = ''joined: architecture kept transport thin | verification covered duplicate delivery''
                  \<and> (case out_session synthesis of Some s \<Rightarrow> handle_provider s = architect_provider | None \<Rightarrow> False)
               then Some (Some synthesis) else Some None)"

section \<open>A host of many workers\<close>

text \<open>
  Coordinators dispatch, the queue delivers (at least once: a delivery may stay in the queue), tasks take
  their steps in any order, and a recovery drops all tasks. The execution of a step is the environment's.
\<close>

record 'v busy_host = "'v local_host" +
  lh_tasks :: "'v local_task list"

datatype 'v host_choice =
    Coordinate "'v local_call"
  | Deliver nat bool
  | Work nat "'v local_call \<Rightarrow> 'v terminal_result"
  | Send_settlement nat
  | Lose_workers

definition busy_host_new :: "'v busy_host" where
  "busy_host_new = \<lparr>lh_system = system_new, lh_queue = [], lh_tasks = []\<rparr>"

fun host_event :: "'v host_choice \<Rightarrow> 'v busy_host \<Rightarrow> 'v busy_host" where
  "host_event (Coordinate call) h =
     (let h' = snd (dispatch_step call \<lparr>lh_system = lh_system h, lh_queue = lh_queue h\<rparr>)
      in h\<lparr>lh_system := lh_system h', lh_queue := lh_queue h'\<rparr>)"
| "host_event (Deliver n again) h =
     (if n < length (lh_queue h)
      then h\<lparr>lh_queue := (if again then lh_queue h else take n (lh_queue h) @ drop (Suc n) (lh_queue h)),
             lh_tasks := lh_tasks h @ [Delivered (lh_queue h ! n)]\<rparr>
      else h)"
| "host_event (Work n run) h =
     (if n < length (lh_tasks h)
      then (case task_step run (lh_tasks h ! n) (lh_system h) of
              (t, y) \<Rightarrow> h\<lparr>lh_system := y, lh_tasks := (lh_tasks h)[n := t]\<rparr>)
      else h)"
| "host_event (Send_settlement n) h = h\<lparr>lh_system := store_event Do_notify (store_event (Do_publish n) (lh_system h))\<rparr>"
| "host_event Lose_workers h = h\<lparr>lh_system := store_event Do_sweep (lh_system h), lh_tasks := []\<rparr>"

definition host_events :: "'v host_choice list \<Rightarrow> 'v busy_host \<Rightarrow> 'v busy_host" where
  "host_events es h = fold host_event es h"

lemma dispatch_events: "lh_system (snd (dispatch_step call h)) = store_events [Do_register call] (lh_system h)"
  by (auto simp: dispatch_step_def Let_def split: prod.split sum.split)

text \<open>Every step of a task is a sequence of store events, and no loss.\<close>

lemma task_events: "\<exists>es. snd (task_step run t y) = store_events es y \<and> without_loss es"
proof (cases t)
  case (Delivered r)
  then show ?thesis
    by (intro exI [of _ "[Do_claim r]"]) (auto simp: without_loss_def split: prod.split sum.split option.split)
next
  case (Holding c)
  then show ?thesis
    by (intro exI [of _ "[Do_launch c]"]) (auto simp: without_loss_def split: prod.split sum.split)
next
  case (Prepared_call c call)
  then show ?thesis
    by (intro exI [of _ "[Do_note c]"]) (auto simp: without_loss_def split: prod.split sum.split)
next
  case (Completing c x)
  then show ?thesis
    by (intro exI [of _ "[Do_commit c x]"]) (auto simp: without_loss_def split: prod.split sum.split)
next
  case (Publishing r)
  then show ?thesis
    by (intro exI [of _ "[Do_publish (unsent_index r (sys_unsent y)), Do_notify]"]) (auto simp: without_loss_def)
qed (auto intro!: exI [of _ "[]"] simp: without_loss_def)

lemma host_event_events:
  "\<exists>es. lh_system (host_event e h) = store_events es (lh_system h) \<and> (e \<noteq> Lose_workers \<longrightarrow> without_loss es)"
proof (cases e)
  case (Coordinate call)
  then show ?thesis
    using dispatch_events [of call "\<lparr>lh_system = lh_system h, lh_queue = lh_queue h\<rparr>"]
    by (intro exI [of _ "[Do_register call]"]) (simp add: without_loss_def Let_def)
next
  case (Deliver n again)
  then show ?thesis by (intro exI [of _ "[]"]) (simp add: without_loss_def)
next
  case (Work n run)
  show ?thesis
  proof (cases "n < length (lh_tasks h)")
    case True
    obtain es where "snd (task_step run (lh_tasks h ! n) (lh_system h)) = store_events es (lh_system h)" "without_loss es"
      using task_events by blast
    then show ?thesis using True Work by (intro exI [of _ es]) (simp add: case_prod_unfold)
  qed (use Work in \<open>auto intro!: exI [of _ "[]"] simp: without_loss_def\<close>)
next
  case (Send_settlement n)
  then show ?thesis by (intro exI [of _ "[Do_publish n, Do_notify]"]) (auto simp: without_loss_def)
next
  case Lose_workers
  then show ?thesis by (intro exI [of _ "[Do_sweep]"]) simp
qed

lemma host_events_simps [simp]:
  "host_events [] h = h" "host_events (e # es) h = host_events es (host_event e h)"
  "host_events (es @ es') h = host_events es' (host_events es h)"
  by (simp_all add: host_events_def)

lemma host_history:
  "\<exists>xs. lh_system (host_events es h) = store_events xs (lh_system h) \<and> (Lose_workers \<notin> set es \<longrightarrow> without_loss xs)"
proof (induction es arbitrary: h)
  case Nil
  show ?case by (intro exI [of _ "[]"]) (simp add: without_loss_def)
next
  case (Cons e es)
  obtain xs where xs: "lh_system (host_event e h) = store_events xs (lh_system h)" "e \<noteq> Lose_workers \<longrightarrow> without_loss xs"
    using host_event_events by blast
  obtain zs where "lh_system (host_events es (host_event e h)) = store_events zs (lh_system (host_event e h))"
      "Lose_workers \<notin> set es \<longrightarrow> without_loss zs"
    using Cons.IH by blast
  then show ?case
    using xs by (intro exI [of _ "xs @ zs"]) (auto simp: without_loss_def)
qed

lemma host_reachable:
  obtains xs where "lh_system (host_events es busy_host_new) = store_events xs system_new"
    and "Lose_workers \<notin> set es \<Longrightarrow> without_loss xs"
  using host_history [of es busy_host_new] by (auto simp: busy_host_new_def)

section \<open>Delivering and replaying\<close>

lemma unsent_index_append: "unsent_for r ps = [] \<Longrightarrow> unsent_index r (ps @ [(r, x)]) = length ps"
  by (induction ps) (auto split: if_splits)

lemma six_steps: "(f ^^ 6) x = f (f (f (f (f (f x)))))"
  by (simp add: eval_nat_numeral)

lemma task_run_pending:
  assumes rec: "find_record (sys_store y) r = Some rec" "sr_state rec = Pending" "sr_call rec = Some call" "\<not> sr_provider_call_recorded rec"
    and quiet: "unsent_for r (sys_unsent y) = []" and room: "rs_next_epoch (sys_store y) \<noteq> - 1"
  obtains z rec' e where "task_run run r y = (Acknowledged, z)" and "find_record (sys_store z) r = Some rec'"
    and "sr_state rec' = Terminal e" and "sr_terminal rec' = Some (run call)" and "sr_frozen rec' = sr_frozen rec"
proof -
  let ?e = "rs_next_epoch (sys_store y) + 1"
  let ?c = "\<lparr>sc_reference = r, sc_epoch = ?e\<rparr>"
  obtain y1 where s1: "task_step run (Delivered r) y = (Holding ?c, y1)"
    and y1: "find_record (sys_store y1) r = Some (rec\<lparr>sr_state := Claimed ?e\<rparr>)" "sys_unsent y1 = sys_unsent y"
    using rec room by (simp add: local_claim_def Let_def)
  obtain y2 where s2: "task_step run (Holding ?c) y1 = (Prepared_call ?c call, y2)"
    and y2: "find_record (sys_store y2) r = Some (rec\<lparr>sr_state := Launched ?e, sr_call := None\<rparr>)" "sys_unsent y2 = sys_unsent y"
    using y1 rec by (simp add: local_launch_def)
  obtain y3 where s3: "task_step run (Prepared_call ?c call) y2 = (Calling ?c call, y3)"
    and y3: "find_record (sys_store y3) r = Some (rec\<lparr>sr_state := Launched ?e, sr_call := None, sr_provider_call_recorded := True\<rparr>)"
      "sys_unsent y3 = sys_unsent y"
    using y2 rec by (simp add: note_provider_call_def)
  obtain y4 where s4: "task_step run (Completing ?c (run call)) y3 = (Publishing r, y4)"
    and y4: "find_record (sys_store y4) r = Some (rec\<lparr>sr_state := Terminal ?e, sr_call := None, sr_provider_call_recorded := True\<rparr>)"
      "sys_unsent y4 = sys_unsent y @ [(r, run call)]"
    using y3 rec by (simp add: commit_result_def)
  obtain z where s5: "task_step run (Publishing r) y4 = (Acknowledged, z)"
    and z: "find_record (sys_store z) r =
      Some (rec\<lparr>sr_state := Terminal ?e, sr_call := None, sr_provider_call_recorded := True, sr_terminal := Some (run call)\<rparr>)"
    using y4 unsent_index_append [OF quiet, of "run call"] by simp
  have "task_run run r y = (Acknowledged, z)"
    unfolding task_run_def six_steps prod.case s1 s2 s3 task_step.simps(4) s4 s5 ..
  then show ?thesis using that z by simp
qed

text \<open>A delivery of a reference that somebody owns or that has settled is acknowledged without doing anything.\<close>

lemma task_run_duplicate:
  assumes rec: "find_record (sys_store y) r = Some rec" "sr_state rec \<noteq> Pending"
  obtains z where "task_run run r y = (Acknowledged, z)" and "\<And>q. find_record (sys_store z) q = find_record (sys_store y) q"
    and "provider_calls (rs_stats (sys_store z)) = provider_calls (rs_stats (sys_store y))"
    and "sys_unsent z = sys_unsent y"
proof -
  obtain z where s1: "task_step run (Delivered r) y = (Acknowledged, z)" and z: "\<And>q. find_record (sys_store z) q = find_record (sys_store y) q"
      "provider_calls (rs_stats (sys_store z)) = provider_calls (rs_stats (sys_store y))" "sys_unsent z = sys_unsent y"
    using rec by (simp add: local_claim_def Let_def)
  have "task_run run r y = (Acknowledged, z)"
    unfolding task_run_def six_steps prod.case s1 task_step.simps(7) ..
  then show ?thesis using that z by blast
qed

lemma host_life:
  assumes "h = host_events es busy_host_new"
  shows "life_ok r (rs_next_epoch (sys_store (lh_system h))) (life_of (lh_system h) r)" and "system_wf (lh_system h)"
proof -
  obtain xs where "lh_system h = store_events xs system_new"
    using host_reachable [of es] assms by metis
  then show "life_ok r (rs_next_epoch (sys_store (lh_system h))) (life_of (lh_system h) r)" and "system_wf (lh_system h)"
    using reachable_life [of r xs] reachable_wf [of xs] by simp_all
qed

text \<open>The channel of a reference holds an answer, and nothing is on its way to replace it.\<close>

definition published :: "'v terminal_result \<Rightarrow> 'v life \<Rightarrow> bool" where
  "published x v \<longleftrightarrow> (\<exists>rec e. life_record v = Some rec \<and> (sr_state rec = Terminal e \<or> sr_state rec = Uncertain e)
     \<and> sr_terminal rec = Some x \<and> life_unsent v = [])"

interpretation published_life: life_invariant "\<lambda>_ _. published x" for x :: "'v terminal_result"
proof
  fix r n n' and v v' :: "'v life"
  assume "published x v" and "life_step r (n, v) (n', v')"
  then show "published x v'"
    by (elim life_stepE) (auto simp: published_def)
qed

lemma polled_published:
  assumes "life_ok r n (life_of y r)" and "dispatch_poll r y = Some x"
  shows "published x (life_of y r)"
proof -
  obtain rec where "find_record (sys_store y) r = Some rec" "sr_terminal rec = Some x"
    using assms(2) by (auto simp: dispatch_poll_def bind_eq_Some_conv)
  then show ?thesis
    using assms(1) by (cases "sr_state rec") (auto simp: life_ok_def life_of_def life_answers_def published_def)
qed

lemma published_polled: "published x (life_of y r) \<Longrightarrow> dispatch_poll r y = Some x"
  by (auto simp: published_def life_of_def dispatch_poll_def)

section \<open>Properties\<close>

text \<open>C36: what a coordinator was told stays true. In a host with any number of coordinators, deliveries, workers and
  worker losses, in any order: once the channel of a step holds an answer, every later look at it, by
  whichever coordinator, finds that same answer, and the provider call of a step is never counted twice.\<close>

theorem host_answer_final:
  assumes h: "h = host_events es busy_host_new" and answered: "dispatch_poll r (lh_system h) = Some x"
  shows "dispatch_poll r (lh_system (host_events es' h)) = Some x
    \<and> map_of (provider_calls (rs_stats (sys_store (lh_system (host_events es' h))))) r \<in> {None, Some 1}"
proof
  have wf: "system_wf (lh_system h)" and ok: "life_ok r (rs_next_epoch (sys_store (lh_system h))) (life_of (lh_system h) r)"
    using host_life [OF h] by blast+
  obtain xs where xs: "lh_system (host_events es' h) = store_events xs (lh_system h)"
    using host_history by blast
  have "published x (life_of (lh_system (host_events es' h)) r)"
    unfolding xs by (rule published_life.events [OF wf polled_published [OF ok answered]])
  then show "dispatch_poll r (lh_system (host_events es' h)) = Some x" by (rule published_polled)
  have "host_events es' h = host_events (es @ es') busy_host_new" using h by simp
  from host_life(1) [OF this, of r]
  show "map_of (provider_calls (rs_stats (sys_store (lh_system (host_events es' h))))) r \<in> {None, Some 1}"
    by (auto simp: life_ok_def life_of_def split: option.splits)
qed

text \<open>Replay. A coordinator that dispatches a new step has its reference enqueued twice. The first delivery runs
  the step on the call that was registered and publishes exactly its result; the second is acknowledged
  and does nothing; and a later coordinator that dispatches the same logical step enqueues nothing and is
  told the same result, while one that uses the identity for another call is refused and changes nothing.\<close>

theorem replay_observes:
  assumes h: "h = host_events es busy_host_new" and new: "find_record (sys_store (lh_system h)) (for_call call) = None"
    and room: "rs_next_epoch (sys_store (lh_system h)) \<noteq> - 1"
    and g: "g = \<lparr>lh_system = lh_system h, lh_queue = lh_queue h\<rparr>"
  shows "\<exists>g1 z1 z2. dispatch_step call g = (Inr (for_call call), g1) \<and> lh_queue g1 = lh_queue h @ [for_call call, for_call call]
    \<and> task_run run (for_call call) (lh_system g1) = (Acknowledged, z1)
    \<and> task_run run' (for_call call) z1 = (Acknowledged, z2) \<and> dispatch_poll (for_call call) z2 = Some (run call)
    \<and> provider_calls (rs_stats (sys_store z2)) = provider_calls (rs_stats (sys_store z1))
    \<and> (\<forall>call' q. for_call call' = for_call call \<longrightarrow>
         dispatch_step call' \<lparr>lh_system = z2, lh_queue = q\<rparr> =
           (if frozen_for_call call' = frozen_for_call call then Inr (for_call call)
            else Inl (internal_error (collision_message (call_step_id call))), \<lparr>lh_system = z2, lh_queue = q\<rparr>))"
proof -
  let ?r = "for_call call"
  let ?rec = "\<lparr>sr_call = Some call, sr_frozen = frozen_for_call call, sr_state = Pending,
                   sr_provider_call_recorded = False, sr_terminal = None\<rparr>"
  have wf: "bt_wf (rs_records (sys_store (lh_system h)))"
    using host_life(2) [OF h] by (simp add: system_wf_def)
  have none: "unsent_for ?r (sys_unsent (lh_system h)) = []"
    using host_life(1) [OF h, of ?r] new by (simp add: life_ok_def life_of_def)
  obtain g1 where g1: "dispatch_step call g = (Inr ?r, g1)" "lh_queue g1 = lh_queue h @ [?r, ?r]"
      "find_record (sys_store (lh_system g1)) ?r = Some ?rec" "sys_unsent (lh_system g1) = sys_unsent (lh_system h)"
      "rs_next_epoch (sys_store (lh_system g1)) = rs_next_epoch (sys_store (lh_system h))"
    using new wf by (simp add: g dispatch_step_def local_register_def Let_def find_record_def map_of_bt_insert tally_def notify_def)
  obtain z1 rec1 e where z1: "task_run run ?r (lh_system g1) = (Acknowledged, z1)" "find_record (sys_store z1) ?r = Some rec1"
      "sr_state rec1 = Terminal e" "sr_terminal rec1 = Some (run call)" "sr_frozen rec1 = frozen_for_call call"
    using task_run_pending [OF g1(3), of call run] none room g1(4,5) by auto
  obtain z2 where z2: "task_run run' ?r z1 = (Acknowledged, z2)" "find_record (sys_store z2) ?r = Some rec1"
      "provider_calls (rs_stats (sys_store z2)) = provider_calls (rs_stats (sys_store z1))"
    by (rule task_run_duplicate [OF z1(2), of run']) (simp_all add: z1)
  have replay: "dispatch_step call' \<lparr>lh_system = z2, lh_queue = q\<rparr> =
      (if frozen_for_call call' = frozen_for_call call then Inr ?r
       else Inl (internal_error (collision_message (call_step_id call))), \<lparr>lh_system = z2, lh_queue = q\<rparr>)"
    if "for_call call' = ?r" for call' q
    using z1(3,5) z2(2) that by (auto simp: dispatch_step_def local_register_def Let_def for_call_def)
  show ?thesis
    using g1(1,2) z1 z2 replay by (intro exI [of _ g1] exI [of _ z1] exI [of _ z2]) (simp add: dispatch_poll_def)
qed

definition architecture_options :: "'v fake_options" where
  "architecture_options = fake_options_default
     \<lparr>fake_delay := Some (duration_from_millis 30), fake_output := Some ''architecture kept transport thin'',
      fake_simulated_tokens := Some 120, fake_simulated_cost_usd := Some cost_6_milli\<rparr>"

definition verification_options :: "'v fake_options" where
  "verification_options = fake_options_default
     \<lparr>fake_delay := Some (duration_from_millis 20), fake_output := Some ''verification covered duplicate delivery'',
      fake_simulated_tokens := Some 90, fake_simulated_cost_usd := Some cost_4_milli\<rparr>"

definition review_specs :: "'v review_job step_spec list" where
  "review_specs =
     [step_spec_new ''architecture'' (Architecture architecture_options),
      step_spec_new ''verification'' (Verification verification_options),
      step_spec_needs (step_spec_new ''synthesize'' Synthesize) [''architecture'', ''verification'']]"

lemma review_build: "review_workflow = compile ''repository-review'' ''v1'' review_specs"
  by (simp add: review_workflow_def review_specs_def dag_build_def builder_push_def builder_new_def
      architecture_options_def verification_options_def)

lemma review_well_formed: "well_formed ''repository-review'' ''v1'' review_specs"
proof -
  have ids: "valid_id ''repository-review''" "valid_id ''v1''" "valid_id ''architecture''" "valid_id ''verification''" "valid_id ''synthesize''"
    by code_simp+
  have "authored_order review_specs [''architecture'', ''verification'', ''synthesize'']"
    by (auto simp: authored_order_def review_specs_def step_spec_new_def step_spec_needs_def less_Suc_eq nth_Cons')
  then show ?thesis
    using ids by (auto simp: well_formed_def spec_ok_def review_specs_def step_spec_new_def step_spec_needs_def)
qed

lemma review_compiles: "\<exists>d. review_workflow = Some (Inr d)"
  using review_well_formed by (auto simp: review_build compile_Inr)

lemma review_steps:
  assumes "review_workflow = Some (Inr d)"
  shows "wf_id d = ''repository-review''" and "wf_version d = ''v1''"
    and "map_option def_job (wf_step d ''architecture'') = Some (Architecture architecture_options)"
    and "map_option def_job (wf_step d ''verification'') = Some (Verification verification_options)"
    and "map_option def_job (wf_step d ''synthesize'') = Some Synthesize"
    and "map_option (set \<circ> def_needs) (wf_step d ''synthesize'') = Some {''architecture'', ''verification''}"
proof -
  have c: "compile ''repository-review'' ''v1'' review_specs = Some (Inr d)"
    using assms by (simp add: review_build)
  have entries: "wf_step d (spec_id s) = Some (spec_definition s)" if "s \<in> set review_specs" for s
    using compiled_entry [OF c that] .
  show "wf_id d = ''repository-review''" and "wf_version d = ''v1''"
    using c by (simp_all add: compile_Inr)
  show "map_option def_job (wf_step d ''architecture'') = Some (Architecture architecture_options)"
    using entries [of "review_specs ! 0"] by (simp add: review_specs_def step_spec_new_def spec_definition_def)
  show "map_option def_job (wf_step d ''verification'') = Some (Verification verification_options)"
    using entries [of "review_specs ! 1"] by (simp add: review_specs_def step_spec_new_def spec_definition_def)
  show "map_option def_job (wf_step d ''synthesize'') = Some Synthesize"
    and "map_option (set \<circ> def_needs) (wf_step d ''synthesize'') = Some {''architecture'', ''verification''}"
    using entries [of "review_specs ! 2"]
    by (simp_all add: review_specs_def step_spec_new_def step_spec_needs_def spec_definition_def)
qed

text \<open>The turn of every step of the review answers with its prescribed output.\<close>

abbreviation run_step :: "local_env \<Rightarrow> operation_id \<Rightarrow> token \<Rightarrow> 'v local_call \<Rightarrow> 'v turn_outcome ending" where
  "run_step env op fresh call \<equiv>
     fst (execute_agent_step op fresh (layered_fake env architect_provider) (layered_fake env verifier_provider) call)"

lemma provider_names: "\<not> is_blank architect_provider" "\<not> is_blank verifier_provider"
  by (simp_all add: architect_provider_def verifier_provider_def not_blank leading_whitespace_def whitespace_encodings_def)

lemma run_step_output:
  assumes quiet: "undisturbed env call" and turn: "step_turn call = Inr (role, turn)"
    and prompt: "\<not> is_blank (turn_prompt turn)" and options: "turn_options turn = fake_options_default
      \<lparr>fake_delay := delay, fake_output := Some answer, fake_simulated_tokens := tokens, fake_simulated_cost_usd := usd\<rparr>"
    and session: "\<forall>s. turn_session turn = Some s \<longrightarrow> handle_provider s = (case role of Architect \<Rightarrow> architect_provider | Verifier \<Rightarrow> verifier_provider)"
  obtains out s where "run_step env op fresh call = ending.Settled (Inr out)" and "out_output out = answer"
    and "out_session out = Some s" and "handle_provider s = (case role of Architect \<Rightarrow> architect_provider | Verifier \<Rightarrow> verifier_provider)"
proof -
  let ?name = "case role of Architect \<Rightarrow> architect_provider | Verifier \<Rightarrow> verifier_provider"
  obtain out s where "fst (call_fake (le_fake env) ?name (agent_request_with_context turn (agent_context op fresh call))) = Inr out"
      and "out_output out = answer" "out_session out = Some s" "handle_provider s = ?name"
    by (rule call_fake_output [where env = "le_fake env" and name = ?name and ctx = "agent_context op fresh call", OF _ _ _ prompt options])
      (use quiet provider_names session in \<open>auto simp: undisturbed_def context_parts split: local_role.split\<close>)
  moreover have "run_step env op fresh call =
      fst (layered_fake env ?name (agent_request_with_context turn (agent_context op fresh call)))"
    by (cases role) (simp_all add: execute_agent_step_def turn Let_def)
  ultimately show ?thesis
    using that layered_fake_undisturbed [OF quiet prompt, of ?name op fresh] by simp
qed

lemma starts_not_blank: "\<not> is_blank (''Review '' @ s)" "\<not> is_blank (''Verify '' @ s)" "\<not> is_blank (''Synthesize:'' @ s)"
  by (rule not_blank; simp add: leading_whitespace_def whitespace_encodings_def)+

lemmas starts_not_blank_text [simp] = starts_not_blank [unfolded append_Cons append_Nil]

lemma root_output:
  assumes "undisturbed env call"
  shows "call_job call = Architecture architecture_options \<Longrightarrow>
      \<exists>out s. run_step env op fresh call = ending.Settled (Inr out) \<and> out_output out = ''architecture kept transport thin''
        \<and> out_session out = Some s \<and> handle_provider s = architect_provider"
    and "call_job call = Verification verification_options \<Longrightarrow>
      \<exists>out s. run_step env op fresh call = ending.Settled (Inr out) \<and> out_output out = ''verification covered duplicate delivery''
        \<and> out_session out = Some s \<and> handle_provider s = verifier_provider"
proof -
  have parts: "turn_session (turn_with_options (turn_new p) o1) = None" "turn_options (turn_with_options (turn_new p) o1) = o1"
      "turn_prompt (turn_with_options (turn_new p) o1) = p" for p and o1 :: "'a fake_options"
    by (simp_all add: turn_with_options_def turn_new_def)
  show "\<exists>out s. run_step env op fresh call = ending.Settled (Inr out) \<and> out_output out = ''architecture kept transport thin''
        \<and> out_session out = Some s \<and> handle_provider s = architect_provider"
    if "call_job call = Architecture architecture_options"
    by (rule run_step_output [where role = Architect and turn = "turn_with_options (turn_new
            (''Review '' @ rr_repository (call_input call) @ '' for: '' @ rr_objective (call_input call))) architecture_options"
          and delay = "Some (duration_from_millis 30)" and answer = "''architecture kept transport thin''" and tokens = "Some 120"
          and usd = "Some cost_6_milli", OF assms])
      (use that in \<open>auto simp: step_turn_def parts architecture_options_def\<close>)
  show "\<exists>out s. run_step env op fresh call = ending.Settled (Inr out) \<and> out_output out = ''verification covered duplicate delivery''
        \<and> out_session out = Some s \<and> handle_provider s = verifier_provider"
    if "call_job call = Verification verification_options"
    by (rule run_step_output [where role = Verifier and turn = "turn_with_options (turn_new
            (''Verify '' @ rr_repository (call_input call) @ '' for: '' @ rr_objective (call_input call))) verification_options"
          and delay = "Some (duration_from_millis 20)" and answer = "''verification covered duplicate delivery''" and tokens = "Some 90"
          and usd = "Some cost_4_milli", OF assms])
      (use that in \<open>auto simp: step_turn_def parts verification_options_def\<close>)
qed

lemma join_output:
  assumes "undisturbed env call" and "call_job call = Synthesize"
    and deps: "call_dependencies call = [(''architecture'', oa), (''verification'', ov)]"
    and session: "out_session oa = Some s" "handle_provider s = architect_provider"
  shows "\<exists>out s'. run_step env op fresh call = ending.Settled (Inr out)
    \<and> out_output out = ''joined: '' @ out_output oa @ '' | '' @ out_output ov
    \<and> out_session out = Some s' \<and> handle_provider s' = architect_provider"
proof -
  let ?answer = "''joined: '' @ out_output oa @ '' | '' @ out_output ov"
  let ?turn = "turn_resume (turn_with_options (turn_new (''Synthesize:'' @ [CHR 0x0A] @ out_output oa @ [CHR 0x0A] @ out_output ov))
      (fake_options_default\<lparr>fake_output := Some ?answer, fake_simulated_tokens := Some 60,
         fake_simulated_cost_usd := Some cost_3_milli\<rparr>)) s"
  have turn: "step_turn call = Inr (Architect, ?turn)"
    using assms by (simp add: step_turn_def local_dependency_def Let_def)
  show ?thesis
    by (rule run_step_output [where delay = None and answer = ?answer and tokens = "Some 60" and usd = "Some cost_3_milli",
          OF assms(1) turn])
      (use session in \<open>auto simp: turn_resume_def turn_with_options_def turn_new_def fake_options_default_def\<close>)
qed

text \<open>The review the example runs. Its workflow compiles, and whenever its three steps are executed by the layered
  fake providers without interference, each on the job the workflow gives it and the join on exactly
  the outputs of the two roots, each settles with an output, and the outcome made of them passes the
  example's own validation: the joined text, in the architect's session.\<close>

theorem review_outcome_valid:
  "\<exists>d. review_workflow = Some (Inr (d :: 'v review_job workflow_definition))
   \<and> (\<forall>a v ea ev.
        Some (call_job a) = map_option def_job (wf_step d ''architecture'') \<and> undisturbed ea a \<and>
        Some (call_job v) = map_option def_job (wf_step d ''verification'') \<and> undisturbed ev v \<longrightarrow>
        (\<exists>oa ov.
           run_step ea op fresh a = ending.Settled (Inr oa) \<and> run_step ev op fresh v = ending.Settled (Inr ov) \<and>
           (\<forall>s es.
              Some (call_job s) = map_option def_job (wf_step d ''synthesize'') \<and> undisturbed es s \<and>
              call_dependencies s = [(''architecture'', oa), (''verification'', ov)] \<longrightarrow>
              (\<exists>os.
                 run_step es op fresh s = ending.Settled (Inr os) \<and>
                 validate_outcome
                   \<lparr>wo_run_id = run, wo_workflow_id = wf_id d, wo_workflow_version = wf_version d,
                    wo_outputs = [(''architecture'', oa), (''synthesize'', os), (''verification'', ov)],
                    wo_leaf_outputs = [(''synthesize'', os)]\<rparr> run = Some (Some os)))))"
proof -
  obtain d :: "'v review_job workflow_definition" where d: "review_workflow = Some (Inr d)"
    using review_compiles by blast
  note steps = review_steps [OF d]
  show ?thesis
  proof (intro exI [of _ d] conjI allI impI d)
    fix a v :: "'v local_call" and ea ev
    assume "Some (call_job a) = map_option def_job (wf_step d ''architecture'') \<and> undisturbed ea a \<and>
        Some (call_job v) = map_option def_job (wf_step d ''verification'') \<and> undisturbed ev v"
    then have jobs: "call_job a = Architecture architecture_options" "call_job v = Verification verification_options"
      and quiet: "undisturbed ea a" "undisturbed ev v"
      by (auto simp: steps)
    obtain oa s where oa: "run_step ea op fresh a = ending.Settled (Inr oa)" "out_output oa = ''architecture kept transport thin''"
        "out_session oa = Some s" "handle_provider s = architect_provider"
      using root_output(1) [OF quiet(1) jobs(1)] by metis
    obtain ov where ov: "run_step ev op fresh v = ending.Settled (Inr ov)" "out_output ov = ''verification covered duplicate delivery''"
      using root_output(2) [OF quiet(2) jobs(2)] by metis
    show "\<exists>oa ov. run_step ea op fresh a = ending.Settled (Inr oa) \<and> run_step ev op fresh v = ending.Settled (Inr ov) \<and>
           (\<forall>s es.
              Some (call_job s) = map_option def_job (wf_step d ''synthesize'') \<and> undisturbed es s \<and>
              call_dependencies s = [(''architecture'', oa), (''verification'', ov)] \<longrightarrow>
              (\<exists>os.
                 run_step es op fresh s = ending.Settled (Inr os) \<and>
                 validate_outcome
                   \<lparr>wo_run_id = run, wo_workflow_id = wf_id d, wo_workflow_version = wf_version d,
                    wo_outputs = [(''architecture'', oa), (''synthesize'', os), (''verification'', ov)],
                    wo_leaf_outputs = [(''synthesize'', os)]\<rparr> run = Some (Some os)))"
    proof (rule exI [of _ oa], rule exI [of _ ov], intro conjI allI impI oa(1) ov(1))
      fix s :: "'v local_call" and es
      assume "Some (call_job s) = map_option def_job (wf_step d ''synthesize'') \<and> undisturbed es s \<and>
              call_dependencies s = [(''architecture'', oa), (''verification'', ov)]"
      then have "call_job s = Synthesize" and "undisturbed es s" and "call_dependencies s = [(''architecture'', oa), (''verification'', ov)]"
        by (auto simp: steps)
      from join_output [OF this(2,1,3) oa(3,4), of op fresh] obtain os s' where os: "run_step es op fresh s = ending.Settled (Inr os)"
          "out_output os = ''joined: architecture kept transport thin | verification covered duplicate delivery''"
          "out_session os = Some s'" "handle_provider s' = architect_provider"
        unfolding oa(2) ov(2) by auto
      then have "validate_outcome
                   \<lparr>wo_run_id = run, wo_workflow_id = wf_id d, wo_workflow_version = wf_version d,
                    wo_outputs = [(''architecture'', oa), (''synthesize'', os), (''verification'', ov)],
                    wo_leaf_outputs = [(''synthesize'', os)]\<rparr> run = Some (Some os)"
        by (simp add: validate_outcome_def steps(1,2) expected_logical_steps_def)
      with os(1) show "\<exists>os. run_step es op fresh s = ending.Settled (Inr os) \<and>
                 validate_outcome
                   \<lparr>wo_run_id = run, wo_workflow_id = wf_id d, wo_workflow_version = wf_version d,
                    wo_outputs = [(''architecture'', oa), (''synthesize'', os), (''verification'', ov)],
                    wo_leaf_outputs = [(''synthesize'', os)]\<rparr> run = Some (Some os)"
        by blast
    qed
  qed
qed

section \<open>Witnesses\<close>

definition settle_done :: "unit local_call \<Rightarrow> unit terminal_result" where
  "settle_done _ = Inr (turn_outcome_new ''done'')"

definition one_delivery :: "unit host_choice list" where
  "one_delivery = [Coordinate (sample_local_call ''a''), Deliver 0 False] @ replicate 6 (Work 0 settle_done)"

theorem host_answer_final_witness:
  "dispatch_poll (sample_ref ''a'') (lh_system (host_events one_delivery busy_host_new)) = Some (settle_done (sample_local_call ''a''))
   \<and> dispatch_poll (sample_ref ''a'') (lh_system (host_events [Lose_workers, Deliver 0 True, Work 0 settle_done]
        (host_events one_delivery busy_host_new))) = Some (settle_done (sample_local_call ''a''))"
proof -
  have "dispatch_poll (sample_ref ''a'') (lh_system (host_events one_delivery busy_host_new)) = Some (Inr (turn_outcome_new ''done''))"
    by code_simp
  then have polled: "dispatch_poll (sample_ref ''a'') (lh_system (host_events one_delivery busy_host_new)) = Some (settle_done (sample_local_call ''a''))"
    by (simp add: settle_done_def)
  from conjunct1 [OF host_answer_final [OF refl polled, of "[Lose_workers, Deliver 0 True, Work 0 settle_done]"]] polled
  show ?thesis by blast
qed

theorem replay_observes_witness:
  "\<exists>z. dispatch_poll (sample_ref ''a'') z = Some (settle_done (sample_local_call ''a''))
     \<and> dispatch_step (sample_local_call ''a'') \<lparr>lh_system = z, lh_queue = []\<rparr> = (Inr (sample_ref ''a''), \<lparr>lh_system = z, lh_queue = []\<rparr>)"
proof -
  have r: "for_call (sample_local_call ''a'') = sample_ref ''a''" by code_simp
  have new: "find_record (sys_store (lh_system (busy_host_new :: unit busy_host))) (for_call (sample_local_call ''a'')) = None"
    and room: "rs_next_epoch (sys_store (lh_system (busy_host_new :: unit busy_host))) \<noteq> - 1"
    by (simp_all add: busy_host_new_def system_new_def run_store_new_def find_record_def)
  have start: "(busy_host_new :: unit busy_host) = host_events [] busy_host_new" by simp
  from replay_observes [OF start new room refl, of settle_done settle_done] r show ?thesis by auto
qed

definition calm_env :: local_env where
  "calm_env = \<lparr>le_join = (\<lambda>_. []), le_deadline = \<lparr>env_cancelled = [], env_now = 0, env_wake = InnerSettles\<rparr>,
     le_fake = \<lparr>fe_cancelled = False, fe_interrupts = (\<lambda>_. False), fe_elapsed = 5, fe_counter = 12\<rparr>\<rparr>"

definition review_call :: "unit review_job \<Rightarrow> (step_id, unit turn_outcome) btree_map \<Rightarrow> unit local_call" where
  "review_call job deps = (sample_local_call ''s'')\<lparr>call_job := job, call_dependencies := deps\<rparr>"

theorem review_outcome_valid_witness:
  "\<exists>oa ov os. run_step calm_env 1 [0] (review_call (Architecture architecture_options) []) = ending.Settled (Inr oa)
     \<and> run_step calm_env 1 [0] (review_call (Verification verification_options) []) = ending.Settled (Inr ov)
     \<and> run_step calm_env 1 [0] (review_call Synthesize [(''architecture'', oa), (''verification'', ov)]) = ending.Settled (Inr os)"
proof -
  have calm: "undisturbed calm_env (review_call job deps)" for job deps
    by (simp add: undisturbed_def calm_env_def review_call_def sample_local_call_def is_cancelled_def)
  have job: "call_job (review_call job deps) = job" "call_dependencies (review_call job deps) = deps" for job deps
    by (simp_all add: review_call_def)
  obtain d :: "unit review_job workflow_definition" where d: "review_workflow = Some (Inr d)"
    and runs: "\<forall>a v ea ev.
        Some (call_job a) = map_option def_job (wf_step d ''architecture'') \<and> undisturbed ea a \<and>
        Some (call_job v) = map_option def_job (wf_step d ''verification'') \<and> undisturbed ev v \<longrightarrow>
        (\<exists>oa ov.
           run_step ea 1 [0] a = ending.Settled (Inr oa) \<and> run_step ev 1 [0] v = ending.Settled (Inr ov) \<and>
           (\<forall>s es.
              Some (call_job s) = map_option def_job (wf_step d ''synthesize'') \<and> undisturbed es s \<and>
              call_dependencies s = [(''architecture'', oa), (''verification'', ov)] \<longrightarrow>
              (\<exists>os. run_step es 1 [0] s = ending.Settled (Inr os))))"
    using review_outcome_valid [of 1 "[0]" "''r''"] by fast
  note steps = review_steps [OF d]
  from runs [rule_format, of "review_call (Architecture architecture_options) []" calm_env "review_call (Verification verification_options) []" calm_env]
  show ?thesis by (fastforce simp: steps job calm)
qed

end
