(* ===== verification/Agent_Cli.thy ===== *)
theory Agent_Cli
  imports Layer_Stack Plan_Compile Codex_Adapter Claude_Adapter
begin

text \<open>
  The command-line agent (\<^verbatim>\<open>examples/agent/src/main.rs\<close>): one finite turn, either from the flags alone, or
  from a saved profile with the flags on top, through a stack of layers over the native provider
  services. Parsing of the arguments is \<open>clap\<close>'s; reading and parsing the profile, the clock, the signal
  handler and the providers' hosts are parameters. Files and the terminal are not modelled: what would be
  printed is returned.
\<close>

section \<open>Arguments\<close>

datatype cli_provider = CliClaude | CliCodex

record cli =
  cli_provider :: cli_provider
  cli_profile :: "path option"
  cli_prompt :: string
  cli_working_directory :: "path option"
  cli_session :: "string option"
  cli_model :: "string option"
  cli_additional_directories :: "path list"
  cli_workspace_write :: bool
  cli_timeout :: u64

fun cli_tag :: "cli_provider \<Rightarrow> string" where
  "cli_tag CliClaude = ''claude''"
| "cli_tag CliCodex = ''codex''"

fun cli_provider_id :: "cli_provider \<Rightarrow> provider_id" where
  "cli_provider_id CliClaude = Claude"
| "cli_provider_id CliCodex = Codex"

definition cli_turn :: "cli \<Rightarrow> 'o \<Rightarrow> 'o turn" where
  "cli_turn c options =
     (turn_with_options (turn_new (cli_prompt c)) options)
       \<lparr>turn_working_directory := cli_working_directory c,
        turn_session := map_option (session_handle_new (cli_tag (cli_provider c))) (cli_session c)\<rparr>"

section \<open>The stack and the providers\<close>

record cli_env =
  ce_join :: "panic_payload \<Rightarrow> string"
  ce_deadline :: deadline_env

definition cli_stack ::
  "cli_env \<Rightarrow> ('o turn agent_request, 'j turn_outcome) service \<Rightarrow> ('o turn agent_request, 'j turn_outcome) service" where
  "cli_stack env service =
     with_layers [SuperviseCall (ce_join env), CatchPanic, AdmitOne True, EnforceDeadline (ce_deadline env), ValidateTurn None]
       service"

text \<open>The native adapters as services: how a call ends, and whether the CLI was executed.\<close>

record ('c, 'd, 'e, 'u, 'j) provider_hosts =
  hosts_claude :: "('c, 'j) claude_host"
  hosts_codex :: "('d, 'e, 'u, 'j) codex_host"
  hosts_elapsed :: duration
  hosts_gone :: "bool \<times> bool \<times> bool"

definition native_claude ::
  "('c, 'd, 'e, 'u, 'j) provider_hosts \<Rightarrow> claude_service \<Rightarrow> ('j claude_options turn agent_request, 'j turn_outcome) service" where
  "native_claude hosts service request =
     (case claude_call (hosts_claude hosts) service (fst (hosts_gone hosts)) (fst (snd (hosts_gone hosts))) request of
        (r, events, executed) \<Rightarrow> (Settled r, executed))"

definition native_codex ::
  "('c, 'd, 'e, 'u, 'j) provider_hosts \<Rightarrow> codex_service \<Rightarrow> ('j codex_options turn agent_request, 'j turn_outcome) service" where
  "native_codex hosts service request =
     (case codex_call (hosts_codex hosts) service (fst (hosts_gone hosts)) (fst (snd (hosts_gone hosts)))
             (snd (snd (hosts_gone hosts))) (hosts_elapsed hosts) request of
        (r, events, command) \<Rightarrow> (Settled r, is_some command))"

section \<open>Runs from the flags\<close>

definition cli_run_claude ::
  "cli_env \<Rightarrow> ('c, 'd, 'e, 'u, 'j) provider_hosts \<Rightarrow> cli \<Rightarrow> call_context \<Rightarrow> 'j turn_outcome ending \<times> bool" where
  "cli_run_claude env hosts c ctx =
     cli_stack env (native_claude hosts claude_service_new)
       (agent_request_with_context
          (cli_turn c (claude_options_default
             \<lparr>co_model := cli_model c, co_additional_directories := cli_additional_directories c\<rparr>)) ctx)"

definition cli_authority :: "cli \<Rightarrow> filesystem_authority" where
  "cli_authority c = (if cli_workspace_write c then WorkspaceWrite else ReadOnly)"

fun allow_directories ::
  "(path \<Rightarrow> string + path) \<Rightarrow> path list \<Rightarrow> authority_policy \<Rightarrow> agent_error + authority_policy" where
  "allow_directories canonicalize [] policy = Inr policy"
| "allow_directories canonicalize (d # ds) policy =
     and_then (map_err (\<lambda>error. invalid_request (''additional directory cannot be authorized: '' @ error))
                (allow_writable_root canonicalize policy d))
       (allow_directories canonicalize ds)"

text \<open>The policy of the run: writable roots are the directories the flags name.\<close>

definition cli_policy :: "(path \<Rightarrow> string + path) \<Rightarrow> cli \<Rightarrow> agent_error + authority_policy" where
  "cli_policy canonicalize c =
     (let policy = authority_policy_new (cli_authority c)
      in if cli_authority c = WorkspaceWrite
         then and_then
                (case cli_working_directory c of
                   None \<Rightarrow> Inr policy
                 | Some directory \<Rightarrow>
                     map_err (\<lambda>error. invalid_request (''working directory cannot be authorized: '' @ error))
                       (allow_writable_root canonicalize policy directory))
                (allow_directories canonicalize (cli_additional_directories c))
         else Inr policy)"

definition cli_codex_turn :: "cli \<Rightarrow> 'j codex_options turn" where
  "cli_codex_turn c =
     cli_turn c (codex_options_default
       \<lparr>xo_model := cli_model c, xo_additional_directories := cli_additional_directories c,
        xo_filesystem_authority := cli_authority c\<rparr>)"

definition cli_run_codex ::
  "cli_env \<Rightarrow> ('c, 'd, 'e, 'u, 'j) provider_hosts \<Rightarrow> cli \<Rightarrow> call_context \<Rightarrow> 'j turn_outcome ending \<times> bool" where
  "cli_run_codex env hosts c ctx =
     (let canonicalize = xe_canonicalize (xh_env (hosts_codex hosts))
      in case cli_policy canonicalize c of
           Inl error \<Rightarrow> (Settled (Inl error), False)
         | Inr policy \<Rightarrow>
             cli_stack env
               (with_layers [EnforceAuthority canonicalize xo_filesystem_authority xo_additional_directories policy]
                  (native_codex hosts (codex_with_authority_policy codex_service_new policy)))
               (agent_request_with_context (cli_codex_turn c) ctx))"

section \<open>Runs from a profile\<close>

definition cli_explicit :: "cli \<Rightarrow> 'j partial_turn" where
  "cli_explicit c =
     unbound_turn
       \<lparr>par_provider := Some (cli_provider_id (cli_provider c)),
        par_prompt := (if cli_prompt c \<noteq> [] then Some (cli_prompt c) else None),
        par_model := unbound_model\<lparr>pm_name := cli_model c\<rparr>,
        par_context := unbound_context
          \<lparr>pc_cwd := cli_working_directory c,
           pc_additional_directories :=
             (if cli_additional_directories c \<noteq> [] then Some (cli_additional_directories c) else None)\<rparr>,
        par_permissions := unbound_permissions
          \<lparr>pp_filesystem := (if cli_workspace_write c then Some ChooseWorkspaceWrite else None)\<rparr>\<rparr>"

definition cli_router ::
  "cli_env \<Rightarrow> ('c, 'd, 'e, 'u, 'j) provider_hosts \<Rightarrow> ('j, 'j turn_outcome) routed_turn_service" where
  "cli_router env hosts =
     routed_with_codex (routed_with_claude routed_new (cli_stack env (native_claude hosts claude_service_new)))
       (cli_stack env (native_codex hosts codex_service_new))"

text \<open>How a run ends: a call, or what is reported instead of one, or an error of the program itself.\<close>

datatype 'j cli_end =
    CliCalled "'j turn_outcome ending" bool
  | CliReported "string list"
  | CliBailed string

definition requirement_line :: "requirement \<Rightarrow> string" where
  "requirement_line r = ''  '' @ rq_path r @ '' ('' @ rq_label r @ '')''"

definition diagnostic_line :: "diagnostic \<Rightarrow> string" where
  "diagnostic_line d =
     ''  '' @ diag_code d @ '': '' @ diag_message d
       @ (case diag_path d of None \<Rightarrow> [] | Some p \<Rightarrow> '' ('' @ p @ '')'')"

definition cli_run_profile ::
  "(path \<Rightarrow> string + 'j profile) \<Rightarrow> cli_env \<Rightarrow> ('c, 'd, 'e, 'u, 'j) provider_hosts \<Rightarrow> cli \<Rightarrow> path \<Rightarrow> call_context
     \<Rightarrow> 'j cli_end option" where
  "cli_run_profile load env hosts c p ctx =
     (case load p of
        Inl error \<Rightarrow> Some (CliBailed error)
      | Inr saved \<Rightarrow>
          (case plan_prepare (with_profile (layers_new (cli_explicit c)) saved) of
             None \<Rightarrow> None
           | Some (PreparedReady ready) \<Rightarrow>
               (case routed_call (cli_router env hosts) (agent_request_with_context ready ctx) of
                  (x, reached) \<Rightarrow> Some (CliCalled x reached))
           | Some (PreparedMissing _ requirements) \<Rightarrow>
               Some (CliReported ((''profile '' @ prof_name saved @ '' needs more values:'') # map requirement_line requirements))
           | Some (PreparedInvalid diagnostics) \<Rightarrow>
               Some (CliReported ((''profile '' @ prof_name saved @ '' cannot be planned:'') # map diagnostic_line diagnostics))))"

section \<open>The program\<close>

text \<open>
  \<open>None\<close> is a panic: of \<open>Instant + Duration\<close> beyond \<open>horizon\<close>, the last instant of the platform, or of the
  planner.
\<close>

definition cli_context :: "instant \<Rightarrow> operation_id \<Rightarrow> token \<Rightarrow> token \<Rightarrow> instant \<Rightarrow> cli \<Rightarrow> call_context option" where
  "cli_context horizon op fresh cancellation now c =
     (let deadline = now + duration_from_secs (unat (cli_timeout c))
      in if horizon < deadline then None
         else Some (with_deadline (with_cancellation (call_context_default op fresh) cancellation) deadline))"

definition cli_main ::
  "(path \<Rightarrow> string + 'j profile) \<Rightarrow> cli_env \<Rightarrow> ('c, 'd, 'e, 'u, 'j) provider_hosts \<Rightarrow> instant \<Rightarrow> operation_id \<Rightarrow> token
     \<Rightarrow> token \<Rightarrow> instant \<Rightarrow> cli \<Rightarrow> 'j cli_end option" where
  "cli_main load env hosts horizon op fresh cancellation now c =
     (if cli_workspace_write c \<and> cli_provider c \<noteq> CliCodex
      then Some (CliBailed ''--workspace-write is only enforceable by the Codex provider'')
      else
        (case cli_context horizon op fresh cancellation now c of
           None \<Rightarrow> None
         | Some ctx \<Rightarrow>
           (case cli_profile c of
              Some p \<Rightarrow> cli_run_profile load env hosts c p ctx
            | None \<Rightarrow>
                (case (case cli_provider c of
                         CliClaude \<Rightarrow> cli_run_claude env hosts c ctx
                       | CliCodex \<Rightarrow> cli_run_codex env hosts c ctx) of
                   (x, reached) \<Rightarrow> Some (CliCalled x reached)))))"

text \<open>\<open>print_outcome\<close>: the line for the standard output, and those for the standard error.\<close>

definition cli_print_outcome :: "'j turn_outcome \<Rightarrow> string \<times> string list" where
  "cli_print_outcome out =
     (out_output out,
      (case out_session out of None \<Rightarrow> [] | Some s \<Rightarrow> [''session: '' @ handle_provider s @ '':'' @ handle_value s])
      @ (case Option.bind (out_usage out) usage_total of None \<Rightarrow> [] | Some n \<Rightarrow> [''tokens: '' @ show_nat (unat n)]))"

section \<open>The policy of a run\<close>

lemma map_err_Inr: "map_err f r = Inr a \<longleftrightarrow> r = Inr a"
  by (cases r) simp_all

lemma root_contained_mono:
  "root_contained canonicalize p d \<Longrightarrow> set (writable_roots p) \<subseteq> set (writable_roots q) \<Longrightarrow> root_contained canonicalize q d"
  by (auto simp: root_contained_def list_ex_iff split: sum.splits)

lemma allow_writable_root_grows:
  assumes "allow_writable_root canonicalize p d = Inr q"
  shows "filesystem_ceiling q = filesystem_ceiling p \<and> set (writable_roots p) \<subseteq> set (writable_roots q)
    \<and> root_contained canonicalize q d"
proof -
  from assms obtain canonical where canonical: "canonicalize d = Inr canonical"
    and q: "q = (if canonical \<in> set (writable_roots p) then p else p\<lparr>writable_roots := writable_roots p @ [canonical]\<rparr>)"
    by (auto simp: allow_writable_root_def and_then_eq_Inr)
  then have "canonical \<in> set (writable_roots q)" by simp
  with canonical q show ?thesis
    by (auto simp: root_contained_def list_ex_iff path_starts_with_def)
qed

lemma allow_directories_grow:
  assumes "allow_directories canonicalize ds p = Inr q"
  shows "filesystem_ceiling q = filesystem_ceiling p \<and> set (writable_roots p) \<subseteq> set (writable_roots q)
    \<and> list_all (root_contained canonicalize q) ds"
  using assms
proof (induction ds arbitrary: p)
  case Nil
  then show ?case by simp
next
  case (Cons d ds)
  then obtain r where r: "allow_writable_root canonicalize p d = Inr r" "allow_directories canonicalize ds r = Inr q"
    by (auto simp: and_then_eq_Inr map_err_Inr)
  from allow_writable_root_grows [OF r(1)] Cons.IH [OF r(2)] show ?case
    by (auto intro: root_contained_mono)
qed

text \<open>The policy admits the turn it was made for: what the flags name is what they may write.\<close>

lemma cli_policy_admits:
  assumes "cli_policy canonicalize c = Inr policy"
  shows "filesystem_ceiling policy = cli_authority c
    \<and> is_ok (authorize canonicalize xo_filesystem_authority xo_additional_directories policy (cli_codex_turn c))"
proof (cases "cli_authority c = WorkspaceWrite")
  case False
  with assms show ?thesis
    by (auto simp: cli_policy_def authorize_ok_iff cli_codex_turn_def cli_turn_def turn_with_options_def authority_policy_new_def)
next
  case True
  let ?new = "authority_policy_new WorkspaceWrite"
  from assms True obtain base where base: "(case cli_working_directory c of None \<Rightarrow> Inr ?new
      | Some d \<Rightarrow> map_err (\<lambda>error. invalid_request (''working directory cannot be authorized: '' @ error))
          (allow_writable_root canonicalize ?new d)) = Inr base"
    and rest: "allow_directories canonicalize (cli_additional_directories c) base = Inr policy"
    by (auto simp: cli_policy_def Let_def and_then_eq_Inr)
  have "filesystem_ceiling base = WorkspaceWrite
      \<and> (\<forall>d. cli_working_directory c = Some d \<longrightarrow> root_contained canonicalize base d)"
    using base by (auto simp: authority_policy_new_def map_err_Inr dest: allow_writable_root_grows split: option.splits)
  with allow_directories_grow [OF rest] True show ?thesis
    by (auto simp: authorize_ok_iff requested_roots_def cli_codex_turn_def cli_turn_def turn_with_options_def
        intro: root_contained_mono split: option.split)
qed

section \<open>What a profile run plans\<close>

text \<open>The flags are the highest layer, and no answers are given: what the flags bind is what is resolved.\<close>

lemma cli_resolved:
  assumes "resolve (with_profile (layers_new (cli_explicit c)) saved) = Complete m"
  shows "par_provider m = Some (cli_provider_id (cli_provider c))
    \<and> (cli_workspace_write c \<longrightarrow> pp_filesystem (par_permissions m) = Some ChooseWorkspaceWrite)"
proof -
  let ?l = "with_profile (layers_new (cli_explicit c)) saved"
  have "m = merge_layers ?l"
    using assms by (cases ?l rule: resolve_cases) (simp_all add: with_profile_def layers_new_def)
  then show ?thesis
    by (simp add: merge_layers_def merge_upper_def Let_def with_profile_def layers_new_def cli_explicit_def
        merge_turn_def merge_permissions_def unbound_permissions_def)
qed

text \<open>The router's Codex service runs under the default policy of \<open>CodexService::new()\<close>, which is read-only.\<close>

lemma cli_router_read_only:
  fixes hosts :: "('c, 'd, 'e, 'u, 'j) provider_hosts"
  assumes "snd (routed_call (cli_router env hosts) (agent_request_with_context (ReadyCodex t) ctx))"
  shows "xo_filesystem_authority (turn_options t) = ReadOnly"
proof -
  let ?r = "agent_request_with_context t ctx"
  let ?call = "codex_call (hosts_codex hosts) codex_service_new (fst (hosts_gone hosts)) (fst (snd (hosts_gone hosts)))
      (snd (snd (hosts_gone hosts))) (hosts_elapsed hosts) ?r :: 'j codex_settled"
  have "snd (cli_stack env (native_codex hosts codex_service_new) ?r)"
    using assms
    by (simp add: routed_call_def agent_request_with_context_def cli_router_def routed_with_codex_def
        routed_with_claude_def routed_new_def split: sum.splits)
  then have "snd (native_codex hosts codex_service_new ?r)"
    unfolding cli_stack_def by (rule stack_reached)
  then obtain res evs command where "?call = (res, evs, Some command)"
    by (cases ?call) (auto simp: native_codex_def is_some_iff)
  then have "is_ok (authorize (xe_canonicalize (xh_env (hosts_codex hosts))) xo_filesystem_authority
      xo_additional_directories (xs_authority_policy codex_service_new) (req_body ?r))"
    by (elim codex_executed) blast
  then show ?thesis
    by (cases "xo_filesystem_authority (turn_options t)")
      (simp_all add: authorize_ok_iff agent_request_with_context_def codex_service_new_def authority_policy_read_only_def
        authority_policy_new_def less_eq_filesystem_authority_def)
qed

section \<open>Theorems\<close>

text \<open>
  A run from the flags reaches the Codex CLI only under the policy of its own flags, and the sandbox of
  the command is that of the flags: read-only without \<open>--workspace-write\<close>, never full access.
\<close>

theorem cli_codex_confined:
  fixes hosts :: "('c, 'd, 'e, 'u, 'j) provider_hosts"
  assumes "snd (cli_run_codex env hosts c ctx)"
  shows "\<exists>policy command res evs.
    cli_policy (xe_canonicalize (xh_env (hosts_codex hosts))) c = Inr policy
    \<and> codex_call (hosts_codex hosts) (codex_with_authority_policy codex_service_new policy) (fst (hosts_gone hosts))
        (fst (snd (hosts_gone hosts))) (snd (snd (hosts_gone hosts))) (hosts_elapsed hosts)
        (agent_request_with_context (cli_codex_turn c) ctx) = (res :: agent_error + 'j turn_outcome, evs, Some command)
    \<and> (case cli_session c of
         None \<Rightarrow> XSandbox (if cli_workspace_write c then SandboxWorkspaceWrite else SandboxReadOnly) \<in> set command
       | Some _ \<Rightarrow> XConfig (if cli_workspace_write c then ''sandbox_mode=\"workspace-write\"''
                         else ''sandbox_mode=\"read-only\"'') \<in> set command)
    \<and> (\<forall>m. XSandbox m \<in> set command \<longrightarrow> m = (if cli_workspace_write c then SandboxWorkspaceWrite else SandboxReadOnly))"
proof -
  let ?can = "xe_canonicalize (xh_env (hosts_codex hosts))"
  let ?r = "agent_request_with_context (cli_codex_turn c :: 'j codex_options turn) ctx"
  from assms obtain policy where policy: "cli_policy ?can c = Inr policy"
    by (auto simp: cli_run_codex_def Let_def split: sum.splits)
  let ?service = "codex_with_authority_policy codex_service_new policy"
  let ?call = "codex_call (hosts_codex hosts) ?service (fst (hosts_gone hosts)) (fst (snd (hosts_gone hosts)))
      (snd (snd (hosts_gone hosts))) (hosts_elapsed hosts) ?r :: 'j codex_settled"
  from assms policy have "snd (native_codex hosts ?service ?r)"
    unfolding cli_run_codex_def cli_stack_def Let_def
    by (auto simp del: with_layers_simps dest!: stack_reached)
  then obtain res evs command where call: "?call = (res, evs, Some command)"
    by (cases ?call) (auto simp: native_codex_def is_some_iff)
  have turn: "xo_filesystem_authority (turn_options (req_body ?r)) = cli_authority c"
    "(turn_session (req_body ?r) = None) = (cli_session c = None)"
    by (simp_all add: agent_request_with_context_def cli_codex_turn_def cli_turn_def turn_with_options_def)
  from call obtain t skills schema where command: "command = codex_command ?service t schema skills"
    and session: "pt_session t = map_option handle_value (turn_session (req_body ?r))"
    and options: "pt_filesystem_authority t = xo_filesystem_authority (turn_options (req_body ?r))"
    by (elim codex_executed) blast
  from options turn(1) have authority: "pt_filesystem_authority t = cli_authority c" by simp
  have "pt_session t = None \<longleftrightarrow> cli_session c = None" using session turn(2) by simp
  with policy call command authority codex_command_sandbox [where service = ?service and t = t and schema = schema and skills = skills] show ?thesis
    by (intro exI [of _ policy] exI [of _ command] exI [of _ res] exI [of _ evs])
      (auto simp: cli_authority_def split: option.split if_splits)
qed

text \<open>
  With a profile, \<open>--workspace-write\<close> never runs anything: the router of \<open>run_profile\<close> registers a Codex service
  whose policy is the read-only default, so the turn the flag asks for is refused before the CLI is started.
\<close>

theorem cli_profile_never_writes:
  assumes "cli_main load env hosts horizon op fresh cancellation now c = Some (CliCalled x reached)"
    and "cli_profile c = Some p" and "cli_workspace_write c"
  shows "\<not> reached"
proof
  assume reached
  let ?l = "\<lambda>saved. with_profile (layers_new (cli_explicit c)) saved"
  from assms obtain ctx where codex: "cli_provider c = CliCodex"
    and run: "cli_run_profile load env hosts c p ctx = Some (CliCalled x reached)"
    by (auto simp: cli_main_def split: if_splits option.splits)
  from run obtain saved ready where ready: "plan_prepare (?l saved) = Some (PreparedReady ready)"
    and call: "routed_call (cli_router env hosts) (agent_request_with_context ready ctx) = (x, reached)"
    by (auto simp: cli_run_profile_def split: sum.splits option.splits prepared.splits prod.splits)
  from ready prepare_represents obtain m where m: "resolve (?l saved) = Complete m" and faithful: "plan_represents m ready"
    by blast
  from cli_resolved [OF m] codex assms(3)
  have bound: "par_provider m = Some Codex" "pp_filesystem (par_permissions m) = Some ChooseWorkspaceWrite" by simp_all
  with faithful obtain t where t: "ready = ReadyCodex t" "xo_filesystem_authority (turn_options t) = WorkspaceWrite"
    by (cases ready) (simp_all add: plan_represents_def codex_represents_def)
  from call t(1) \<open>reached\<close> have "snd (routed_call (cli_router env hosts) (agent_request_with_context (ReadyCodex t) ctx))"
    by simp
  then have "xo_filesystem_authority (turn_options t) = ReadOnly" by (rule cli_router_read_only)
  with t(2) show False by simp
qed

text \<open>
  The provider flag has a default, so it always counts as an explicit request: a profile that names the other
  provider is reported as a mismatch, and no turn is routed.
\<close>

theorem cli_profile_provider_mismatch:
  assumes "load p = Inr saved" and "par_provider (prof_turn saved) = Some q" and "q \<noteq> cli_provider_id (cli_provider c)"
  shows "\<exists>lines. cli_run_profile load env hosts c p ctx = Some (CliReported lines)
    \<and> ''  provider-mismatch: profile '' @ prof_name saved @ '' selects provider '' @ provider_as_str q
        @ '' but the explicit request selects '' @ provider_as_str (cli_provider_id (cli_provider c)) @ '' (provider)''
        \<in> set lines"
proof -
  let ?l = "with_profile (layers_new (cli_explicit c)) saved"
  let ?d = "diagnostic_error provider_mismatch_code (Some ''provider'')
      (''profile '' @ prof_name saved @ '' selects provider '' @ provider_as_str q
        @ '' but the explicit request selects '' @ provider_as_str (cli_provider_id (cli_provider c)))"
  have "profile_mismatch ?l = [?d]"
    using assms(2,3) by (simp add: profile_mismatch_def with_profile_def layers_new_def cli_explicit_def)
  then obtain ds where "resolve ?l = Invalid (?d # ds)"
    by (simp add: resolve_def case_prod_unfold Let_def)
  then have "cli_run_profile load env hosts c p ctx =
      Some (CliReported ((''profile '' @ prof_name saved @ '' cannot be planned:'') # map diagnostic_line (?d # ds)))"
    by (simp add: cli_run_profile_def assms(1) plan_prepare_def)
  then show ?thesis
    by (simp add: diagnostic_line_def diagnostic_error_def provider_mismatch_code_def)
qed

text \<open>A profile run never looks at \<open>--session\<close>: what is resumed is what the profile says.\<close>

lemma cli_profile_ignores_session:
  fixes load :: "path \<Rightarrow> string + 'j profile"
  shows
  "cli_run_profile load env hosts (c\<lparr>cli_session := s\<rparr>) p ctx = cli_run_profile load env hosts c p ctx"
proof -
  have same: "cli_explicit (c\<lparr>cli_session := s\<rparr>) = (cli_explicit c :: 'j partial_turn)" by (simp add: cli_explicit_def)
  show ?thesis unfolding cli_run_profile_def same by (rule refl)
qed

section \<open>Sample runs\<close>

definition sample_cli :: cli where
  "sample_cli =
     \<lparr>cli_provider = CliCodex, cli_profile = None, cli_prompt = ''go'', cli_working_directory = Some ''/w'',
      cli_session = None, cli_model = None, cli_additional_directories = [''/w/sub''], cli_workspace_write = True,
      cli_timeout = 600\<rparr>"

definition sample_cli_env :: cli_env where
  "sample_cli_env =
     \<lparr>ce_join = (\<lambda>_. ''panicked''), ce_deadline = \<lparr>env_cancelled = [], env_now = 0, env_wake = InnerSettles\<rparr>\<rparr>"

definition sample_provider_hosts :: "(nat, unit, sample_event, unit, string) provider_hosts" where
  "sample_provider_hosts =
     \<lparr>hosts_claude = sample_host (Inl WJson), hosts_codex = sample_codex_host (Inl XTimeout), hosts_elapsed = 0,
      hosts_gone = (False, False, False)\<rparr>"

definition sample_saved :: "path \<Rightarrow> string + string profile" where
  "sample_saved p =
     (if p = ''saved.json''
      then Inr \<lparr>prof_name = ''saved'', prof_turn = unbound_turn\<lparr>par_provider := Some Codex, par_prompt := Some ''go''\<rparr>\<rparr>
      else Inl ''No such file or directory'')"

theorem cli_codex_confined_witness:
  "\<exists>policy command res evs.
    cli_policy (xe_canonicalize (xh_env (hosts_codex sample_provider_hosts))) sample_cli = Inr policy
    \<and> codex_call (hosts_codex sample_provider_hosts) (codex_with_authority_policy codex_service_new policy) False False
        False 0 (agent_request_with_context (cli_codex_turn sample_cli) (call_context_default 1 [0]))
      = (res :: agent_error + string turn_outcome, evs, Some command)
    \<and> XSandbox SandboxWorkspaceWrite \<in> set command"
proof -
  have reached: "snd (cli_run_codex sample_cli_env sample_provider_hosts sample_cli (call_context_default 1 [0]))"
    by code_simp
  have flags: "cli_session sample_cli = None" "cli_workspace_write sample_cli" "hosts_elapsed sample_provider_hosts = 0"
    "hosts_gone sample_provider_hosts = (False, False, False)"
    by (simp_all add: sample_cli_def sample_provider_hosts_def)
  from cli_codex_confined [OF reached] flags show ?thesis by simp blast
qed

theorem cli_profile_never_writes_witness:
  "\<exists>x reached. cli_main sample_saved sample_cli_env sample_provider_hosts 1000000000000 1 [0] [1] 0
       (sample_cli\<lparr>cli_profile := Some ''saved.json''\<rparr>) = Some (CliCalled x reached) \<and> \<not> reached"
proof -
  let ?run = "cli_main sample_saved sample_cli_env sample_provider_hosts 1000000000000 1 [0] [1] 0
       (sample_cli\<lparr>cli_profile := Some ''saved.json''\<rparr>)"
  let ?saved = "\<lparr>prof_name = ''saved'', prof_turn = unbound_turn\<lparr>par_provider := Some Codex, par_prompt := Some ''go''\<rparr>\<rparr>
      :: string profile"
  let ?c = "sample_cli\<lparr>cli_profile := Some ''saved.json''\<rparr>"
  have load: "sample_saved ''saved.json'' = Inr ?saved" by (simp add: sample_saved_def)
  have "case plan_prepare (with_profile (layers_new (cli_explicit ?c)) ?saved) of Some (PreparedReady _) \<Rightarrow> True | _ \<Rightarrow> False"
    by code_simp
  then obtain ready where ready: "plan_prepare (with_profile (layers_new (cli_explicit ?c)) ?saved) = Some (PreparedReady ready)"
    by (auto split: option.splits prepared.splits)
  have "cli_context 1000000000000 1 [0] [1] 0 ?c \<noteq> None" "cli_provider ?c = CliCodex" "cli_profile ?c = Some ''saved.json''"
    by (simp_all add: cli_context_def Let_def duration_from_secs_def sample_cli_def)
  with load ready obtain x reached where run: "?run = Some (CliCalled x reached)"
    by (auto simp: cli_main_def cli_run_profile_def case_prod_unfold)
  have "\<not> reached" by (rule cli_profile_never_writes [OF run]) (simp_all add: sample_cli_def)
  with run show ?thesis by blast
qed

theorem cli_profile_provider_mismatch_witness:
  "\<exists>lines. cli_run_profile sample_saved sample_cli_env sample_provider_hosts (sample_cli\<lparr>cli_provider := CliClaude\<rparr>)
       ''saved.json'' (call_context_default 1 [0]) = Some (CliReported lines)
     \<and> ''  provider-mismatch: profile saved selects provider codex but the explicit request selects claude (provider)'' \<in> set lines"
proof -
  let ?saved = "\<lparr>prof_name = ''saved'', prof_turn = unbound_turn\<lparr>par_provider := Some Codex, par_prompt := Some ''go''\<rparr>\<rparr> :: string profile"
  have "sample_saved ''saved.json'' = Inr ?saved" "par_provider (prof_turn ?saved) = Some Codex"
    "Codex \<noteq> cli_provider_id (cli_provider (sample_cli\<lparr>cli_provider := CliClaude\<rparr>))"
    "prof_name ?saved = ''saved''"
    by (simp_all add: sample_saved_def)
  from cli_profile_provider_mismatch [where load = sample_saved and p = "''saved.json''" and env = sample_cli_env
      and hosts = sample_provider_hosts and ctx = "call_context_default 1 [0]", OF this(1-3)] this(4)
  show ?thesis by simp
qed

end
