(* ===== verification/Resilience.thy ===== *)
theory Resilience
  imports Layered_Fake
begin

text \<open>
  Third-party resilience layers between the layers of the crate: the examples
  \<^verbatim>\<open>crates/tower-agent/examples/\<close> \<open>circuit_breaker.rs\<close>, \<open>health_gated_circuit.rs\<close>, \<open>bulkhead.rs\<close> and
  \<open>rate_limiter.rs\<close>. The layers of \<open>tower_resilience\<close> are not in the repository: whether one of them rejects a call is a
  decision of the environment, and of what it does otherwise only the documented wrapping is used (the
  inner service is called once and its error comes back as \<open>Inner\<close>). What the repository owns is the
  translation of every rejection into the error vocabulary of the crate, and the composition.
\<close>

section \<open>Rejections in the vocabulary of the crate\<close>

text \<open>
  A call through a resilience layer and \<open>map_err\<close>: either rejected, without a call, or made, with the inner
  error wrapped and mapped back.
\<close>

definition resilience_layer :: "('x \<Rightarrow> agent_error) \<Rightarrow> (agent_error \<Rightarrow> 'x) \<Rightarrow> 'x option \<Rightarrow> ('req, 'v) layer" where
  "resilience_layer mapped wrap rejection request =
     (case rejection of
        Some x \<Rightarrow> Refuse (mapped x)
      | None \<Rightarrow> Forward (on_settled (map_err (\<lambda>e. mapped (wrap e)))))"

locale resilience_errors =
  fixes mapped :: "'x \<Rightarrow> agent_error" and wrap :: "agent_error \<Rightarrow> 'x" and rejection :: "'d \<Rightarrow> 'x option"
    and ev :: "'v \<Rightarrow> failure_evidence"
  assumes inner_unchanged: "mapped (wrap e) = e"
    and rejected_at_admission: "rejection d = Some x \<Longrightarrow>
      err_effects (mapped x) = EffNone \<and> err_phase (mapped x) = Admission \<and> evidence_of (mapped x) = failure_evidence_default"
begin

text \<open>Above and below a resilience layer a settlement is the same.\<close>

lemma forwarded_unchanged:
  fixes svc :: "('req, 'v) service"
  assumes "rejection d = None"
  shows "apply_layer (resilience_layer mapped wrap (rejection d)) svc r = svc r"
proof -
  have "on_settled (map_err (\<lambda>e. mapped (wrap e))) x = x" for x :: "'v ending"
    by (cases x; rename_tac s; case_tac s) (simp_all add: inner_unchanged)
  then show ?thesis
    by (cases "svc r") (simp add: apply_layer_def resilience_layer_def assms)
qed

end

sublocale resilience_errors \<subseteq> honest_layer "\<lambda>d. resilience_layer mapped wrap (rejection d)" ev
proof
  fix d and r :: 'r and e
  assume "resilience_layer mapped wrap (rejection d) r = (Refuse e :: 'v call_plan)"
  then show "err_effects e = EffNone \<and> err_phase e \<in> {Admission, Validation} \<and> evidence_of e = failure_evidence_default"
    using rejected_at_admission by (auto simp: resilience_layer_def split: option.splits)
next
  fix d and r :: 'r and f :: "'v ending \<Rightarrow> 'v ending" and x
  assume "resilience_layer mapped wrap (rejection d) r = Forward f"
  then have f: "f = on_settled (map_err (\<lambda>e. e))"
    by (auto simp: resilience_layer_def inner_unchanged split: option.splits)
  have "f x = x" unfolding f by (cases x; rename_tac s; case_tac s) simp_all
  then show "admitted x \<le> admitted (f x)" "ending_evidence ev (f x) = ending_evidence ev x" by simp_all
qed

section \<open>The circuit breaker\<close>

datatype circuit_breaker_error = CircuitInner agent_error | OpenCircuit

fun map_breaker_error :: "circuit_breaker_error \<Rightarrow> agent_error" where
  "map_breaker_error (CircuitInner e) = e"
| "map_breaker_error OpenCircuit = unavailable ''agent provider circuit is open''"

text \<open>The results that count against the provider's health.\<close>

definition classify_provider_health :: "agent_error + 'j turn_outcome \<Rightarrow> bool" where
  "classify_provider_health result =
     (case result of Inl e \<Rightarrow> err_kind e = Provider \<or> err_kind e = Internal | Inr _ \<Rightarrow> False)"

definition open_circuit :: "bool \<Rightarrow> circuit_breaker_error option" where
  "open_circuit rejects = (if rejects then Some OpenCircuit else None)"

interpretation breaker: resilience_errors map_breaker_error CircuitInner open_circuit ev for ev :: "'v \<Rightarrow> failure_evidence"
  by unfold_locales (auto simp: open_circuit_def unavailable_def evidence_of_def split: if_splits)

definition breaker_request :: "string \<Rightarrow> string option \<Rightarrow> operation_id \<Rightarrow> token \<Rightarrow> 'j fake_options turn agent_request" where
  "breaker_request prompt failure op fresh =
     agent_request_with_context (turn_with_options (turn_new prompt) (fake_options_default\<lparr>fake_fail := failure\<rparr>))
       (call_context_default op fresh)"

text \<open>Supervision outside the breaker; panics, admission, deadlines and validation inside.\<close>

definition breaker_stack :: "local_env \<Rightarrow> ('o turn agent_request, 'j turn_outcome) service \<Rightarrow> ('o turn agent_request, 'j turn_outcome) service" where
  "breaker_stack env = with_layers [CatchPanic, AdmitOne True, EnforceDeadline (le_deadline env), ValidateTurn None]"

definition breaker_service ::
  "local_env \<Rightarrow> bool \<Rightarrow> ('o turn agent_request, 'j turn_outcome) service \<Rightarrow> ('o turn agent_request, 'j turn_outcome) service" where
  "breaker_service env rejects provider =
     with_layers [SuperviseCall (le_join env)]
       (apply_layer (resilience_layer map_breaker_error CircuitInner (open_circuit rejects)) (breaker_stack env provider))"

section \<open>The rate limiter\<close>

datatype rate_limiter_error = RateInner agent_error | RateLimited

fun map_rate_limiter_error :: "rate_limiter_error \<Rightarrow> agent_error" where
  "map_rate_limiter_error (RateInner e) = e"
| "map_rate_limiter_error RateLimited =
     with_retry_after (error_new Limit ''agent provider quota is exhausted'' Admission EffNone) (duration_from_secs 1)"

definition quota_spent :: "bool \<Rightarrow> rate_limiter_error option" where
  "quota_spent rejects = (if rejects then Some RateLimited else None)"

interpretation limiter: resilience_errors map_rate_limiter_error RateInner quota_spent ev for ev :: "'v \<Rightarrow> failure_evidence"
  by unfold_locales (auto simp: quota_spent_def error_new_def evidence_of_def split: if_splits)

definition plain_request :: "string \<Rightarrow> operation_id \<Rightarrow> token \<Rightarrow> 'j fake_options turn agent_request" where
  "plain_request prompt op fresh =
     agent_request_with_context (turn_with_options (turn_new prompt) fake_options_default) (call_context_default op fresh)"

text \<open>Validation before the quota is consumed.\<close>

definition limited_service ::
  "local_env \<Rightarrow> bool \<Rightarrow> ('o turn agent_request, 'j turn_outcome) service \<Rightarrow> ('o turn agent_request, 'j turn_outcome) service" where
  "limited_service env rejects provider =
     with_layers [SuperviseCall (le_join env), CatchPanic, EnforceDeadline (le_deadline env), ValidateTurn None]
       (apply_layer (resilience_layer map_rate_limiter_error RateInner (quota_spent rejects)) provider)"

section \<open>The bulkhead\<close>

datatype bulkhead_error = BulkheadFull | BulkheadTimeout | BulkheadClosed | BulkheadNotReady

datatype bulkhead_service_error = BulkheadInner agent_error | Bulkhead bulkhead_error

fun map_bulkhead_error :: "bulkhead_service_error \<Rightarrow> agent_error" where
  "map_bulkhead_error (BulkheadInner e) = e"
| "map_bulkhead_error (Bulkhead BulkheadFull) =
     error_new Busy ''agent provider partition is at capacity'' Admission EffNone"
| "map_bulkhead_error (Bulkhead BulkheadTimeout) =
     error_new Busy ''agent provider partition is at capacity'' Admission EffNone"
| "map_bulkhead_error (Bulkhead BulkheadClosed) =
     error_new Unavailable ''agent provider partition is closed'' Admission EffNone"
| "map_bulkhead_error (Bulkhead BulkheadNotReady) =
     error_new Internal ''bulkhead called without a readiness reservation'' Admission EffNone"

interpretation bulkhead: resilience_errors map_bulkhead_error BulkheadInner "map_option Bulkhead" ev
  for ev :: "'v \<Rightarrow> failure_evidence"
proof
  fix d :: "bulkhead_error option" and x
  assume "map_option Bulkhead d = Some x"
  then obtain b where "x = Bulkhead b" by auto
  then show "err_effects (map_bulkhead_error x) = EffNone \<and> err_phase (map_bulkhead_error x) = Admission
      \<and> evidence_of (map_bulkhead_error x) = failure_evidence_default"
    by (cases b) (simp_all add: evidence_of_def)
qed simp

definition partitioned_service ::
  "local_env \<Rightarrow> bulkhead_error option \<Rightarrow> ('o turn agent_request, 'j turn_outcome) service
     \<Rightarrow> ('o turn agent_request, 'j turn_outcome) service" where
  "partitioned_service env rejects provider =
     with_layers [SuperviseCall (le_join env), CatchPanic, EnforceDeadline (le_deadline env), ValidateTurn None]
       (apply_layer (resilience_layer map_bulkhead_error BulkheadInner (map_option Bulkhead rejects)) provider)"

section \<open>The example programs\<close>

text \<open>
  What \<open>main\<close> of an example ends with. The environment of the n-th call (host, operation id, token) and what
  the third-party layer decides for it are arguments.
\<close>

datatype demo_end = DemoPanicked | DemoFailed agent_error | DemoDone string

record demo_env =
  de_local :: "nat \<Rightarrow> local_env"
  de_operation :: "nat \<Rightarrow> operation_id"
  de_fresh :: "nat \<Rightarrow> token"

text \<open>\<open>expect_err\<close>, followed by the assertions on the error; \<open>?\<close> on the last result.\<close>

definition expect_refusal :: "'v ending \<Rightarrow> (agent_error \<Rightarrow> bool) \<Rightarrow> demo_end \<Rightarrow> demo_end" where
  "expect_refusal x asserts rest =
     (case x of ending.Settled (Inl e) \<Rightarrow> if asserts e then rest else DemoPanicked | _ \<Rightarrow> DemoPanicked)"

definition demo_result :: "'j turn_outcome ending \<Rightarrow> demo_end" where
  "demo_result x =
     (case x of ending.Settled (Inr out) \<Rightarrow> DemoDone (out_output out) | ending.Settled (Inl e) \<Rightarrow> DemoFailed e | _ \<Rightarrow> DemoPanicked)"

definition refused_at_admission :: "error_kind \<Rightarrow> agent_error \<Rightarrow> bool" where
  "refused_at_admission kind e \<longleftrightarrow> err_kind e = kind \<and> err_phase e = Admission \<and> err_effects e = EffNone"

definition breaker_call :: "demo_env \<Rightarrow> (nat \<Rightarrow> bool) \<Rightarrow> nat \<Rightarrow> string \<Rightarrow> string option \<Rightarrow> unit turn_outcome ending" where
  "breaker_call de rejects n prompt failure =
     fst (breaker_service (de_local de n) (rejects n) (named_fake (le_fake (de_local de n)) fake_provider)
       (breaker_request prompt failure (de_operation de n) (de_fresh de n)))"

definition breaker_main :: "demo_env \<Rightarrow> (nat \<Rightarrow> bool) \<Rightarrow> demo_end" where
  "breaker_main de rejects =
     (let call = breaker_call de rejects in
      expect_refusal (call 0 [] None) (\<lambda>_. True)
     (expect_refusal (call 1 ''run'' (Some ''provider unavailable'')) (\<lambda>_. True)
     (expect_refusal (call 2 ''run'' (Some ''provider unavailable'')) (\<lambda>_. True)
     (expect_refusal (call 3 ''healthy call'' None) (refused_at_admission Unavailable)
     (demo_result (call 4 ''healthy call'' None))))))"

definition limited_call :: "demo_env \<Rightarrow> (nat \<Rightarrow> bool) \<Rightarrow> nat \<Rightarrow> string \<Rightarrow> unit turn_outcome ending" where
  "limited_call de rejects n prompt =
     fst (limited_service (de_local de n) (rejects n) (named_fake (le_fake (de_local de n)) fake_provider)
       (plain_request prompt (de_operation de n) (de_fresh de n)))"

definition limiter_main :: "demo_env \<Rightarrow> (nat \<Rightarrow> bool) \<Rightarrow> demo_end" where
  "limiter_main de rejects =
     (case demo_result (limited_call de rejects 0 ''first call'') of
        DemoDone first \<Rightarrow>
          expect_refusal (limited_call de rejects 1 ''second call'') (refused_at_admission Limit) (DemoDone first)
      | stopped \<Rightarrow> stopped)"

text \<open>The slow call is on its way while the concurrent one is refused, and settles afterwards.\<close>

definition bulkhead_slow_request :: "operation_id \<Rightarrow> token \<Rightarrow> 'j fake_options turn agent_request" where
  "bulkhead_slow_request op fresh =
     agent_request_with_context
       (turn_with_options (turn_new ''slow call'') (fake_options_default\<lparr>fake_delay := Some (duration_from_millis 100)\<rparr>))
       (call_context_default op fresh)"

definition partitioned_call :: "demo_env \<Rightarrow> (nat \<Rightarrow> bulkhead_error option) \<Rightarrow> nat \<Rightarrow> unit fake_options turn agent_request \<Rightarrow> unit turn_outcome ending" where
  "partitioned_call de rejects n request =
     fst (partitioned_service (de_local de n) (rejects n) (named_fake (le_fake (de_local de n)) fake_provider) request)"

definition bulkhead_main :: "demo_env \<Rightarrow> (nat \<Rightarrow> bulkhead_error option) \<Rightarrow> demo_end" where
  "bulkhead_main de rejects =
     (let plain = (\<lambda>n prompt. partitioned_call de rejects n (plain_request prompt (de_operation de n) (de_fresh de n)));
          slow = partitioned_call de rejects 0 (bulkhead_slow_request (de_operation de 0) (de_fresh de 0))
      in expect_refusal (plain 1 ''concurrent call'') (refused_at_admission Busy)
           (case demo_result slow of
              DemoDone _ \<Rightarrow> demo_result (plain 2 ''after settlement'')
            | stopped \<Rightarrow> stopped))"

section \<open>Calls that nothing interferes with\<close>

definition calm_demo :: "demo_env \<Rightarrow> bool" where
  "calm_demo de \<longleftrightarrow> (\<forall>n. calm (de_local de n) (call_context_default (de_operation de n) (de_fresh de n)))"

lemmas demo_layers =
  apply_layer_def supervise_layer_def catch_panic_def admission_call_def deadline_layer_def deadline_call_def
  validate_turn_def agent_request_with_context_def turn_with_options_def turn_new_def

lemma fake_provider_named: "\<not> is_blank fake_provider"
  by (simp add: fake_provider_def not_blank leading_whitespace_def whitespace_encodings_def)

text \<open>What the fake answers to a turn without a session: its failure if one is prescribed, else its prompt.\<close>

lemma named_fake_plain:
  assumes "calm env (call_context_default op fresh)" and "\<not> is_blank prompt"
  shows "\<exists>out. out_output out = prompt \<and> named_fake (le_fake env) fake_provider
      (agent_request_with_context
        (turn_with_options (turn_new prompt) (fake_options_default\<lparr>fake_delay := delay\<rparr>)) (call_context_default op fresh)) =
      (ending.Settled (Inr out), True)"
  using assms fake_provider_named
  by (cases delay)
    (auto simp: named_fake_def call_fake_def fake_settle_def fake_validate_def calm_def wait_or_cancel_def
      agent_request_with_context_def call_context_default_def turn_with_options_def turn_new_def fake_options_default_def
      turn_outcome_new_def is_ok_def mint_fake_session_def Let_def)

lemma named_fake_failing:
  assumes "calm env (call_context_default op fresh)" and "\<not> is_blank prompt"
  shows "named_fake (le_fake env) fake_provider (breaker_request prompt (Some message) op fresh) =
      (ending.Settled (Inl (error_new Provider message Running EffPossible)), True)"
  using assms fake_provider_named
  by (auto simp: named_fake_def call_fake_def fake_settle_def fake_validate_def calm_def breaker_request_def
      agent_request_with_context_def call_context_default_def turn_with_options_def turn_new_def fake_options_default_def
      is_ok_def Let_def)

lemma quiet_layers:
  assumes "calm env ctx" and "\<not> is_blank (turn_prompt turn)" and "fst (svc (agent_request_with_context turn ctx)) = ending.Settled r"
  shows "fst (with_layers [SuperviseCall (le_join env), CatchPanic, EnforceDeadline (le_deadline env), ValidateTurn None] svc
      (agent_request_with_context turn ctx)) = ending.Settled r"
  using assms
  by (auto simp: apply_layer_def supervise_layer_def catch_panic_def deadline_layer_def deadline_call_def
      validate_turn_def calm_def agent_request_with_context_def Let_def case_prod_unfold split: option.splits)

lemma not_rejected:
  fixes svc :: "('req, 'v) service"
  shows "apply_layer (resilience_layer map_breaker_error CircuitInner (open_circuit False)) svc = svc"
    and "apply_layer (resilience_layer map_rate_limiter_error RateInner (quota_spent False)) svc = svc"
    and "apply_layer (resilience_layer map_bulkhead_error BulkheadInner (map_option Bulkhead None)) svc = svc"
  by (rule ext, rule breaker.forwarded_unchanged limiter.forwarded_unchanged bulkhead.forwarded_unchanged,
      simp add: open_circuit_def quota_spent_def)+

lemma limited_calm:
  assumes "calm env (call_context_default op fresh)" and "\<not> is_blank prompt"
  shows "\<exists>out :: unit turn_outcome. out_output out = prompt \<and> fst (limited_service env False (named_fake (le_fake env) fake_provider)
      (plain_request prompt op fresh)) = ending.Settled (Inr out)"
    and "fst (limited_service env True provider (plain_request prompt op fresh)) =
      ending.Settled (Inl (map_rate_limiter_error RateLimited))"
proof -
  have turn: "\<not> is_blank (turn_prompt (turn_with_options (turn_new prompt) options))" for options :: "'o"
    using assms(2) by (simp add: turn_with_options_def turn_new_def)
  obtain out :: "unit turn_outcome" where out: "out_output out = prompt" "named_fake (le_fake env) fake_provider (plain_request prompt op fresh)
      = (ending.Settled (Inr out), True)"
    using named_fake_plain [OF assms, of None] by (auto simp: plain_request_def fake_options_default_def)
  have "fst (limited_service env False (named_fake (le_fake env) fake_provider) (plain_request prompt op fresh))
      = ending.Settled (Inr out)"
    unfolding limited_service_def plain_request_def
    by (rule quiet_layers [OF assms(1) turn])
      (use out(2) in \<open>simp add: not_rejected plain_request_def\<close>)
  with out(1) show "\<exists>out :: unit turn_outcome. out_output out = prompt \<and> fst (limited_service env False (named_fake (le_fake env) fake_provider)
      (plain_request prompt op fresh)) = ending.Settled (Inr out)" by blast
  show "fst (limited_service env True provider (plain_request prompt op fresh)) =
      ending.Settled (Inl (map_rate_limiter_error RateLimited))"
    unfolding limited_service_def plain_request_def
    by (rule quiet_layers [OF assms(1) turn]) (simp add: apply_layer_def resilience_layer_def quota_spent_def)
qed

lemma partitioned_calm:
  assumes "calm env (call_context_default op fresh)" and "\<not> is_blank prompt"
  shows "\<exists>out :: unit turn_outcome. out_output out = prompt \<and> fst (partitioned_service env None (named_fake (le_fake env) fake_provider)
      (agent_request_with_context
        (turn_with_options (turn_new prompt) (fake_options_default\<lparr>fake_delay := delay\<rparr>)) (call_context_default op fresh)))
      = ending.Settled (Inr out)"
    and "fst (partitioned_service env (Some b) provider (plain_request prompt op fresh)) =
      ending.Settled (Inl (map_bulkhead_error (Bulkhead b)))"
proof -
  have turn: "\<not> is_blank (turn_prompt (turn_with_options (turn_new prompt) options))" for options :: "'o"
    using assms(2) by (simp add: turn_with_options_def turn_new_def)
  let ?r = "agent_request_with_context
        (turn_with_options (turn_new prompt) (fake_options_default\<lparr>fake_delay := delay\<rparr>)) (call_context_default op fresh)"
  obtain out :: "unit turn_outcome" where out: "out_output out = prompt" "named_fake (le_fake env) fake_provider ?r = (ending.Settled (Inr out), True)"
    using named_fake_plain [OF assms, of delay] by blast
  have "fst (partitioned_service env None (named_fake (le_fake env) fake_provider) ?r) = ending.Settled (Inr out)"
    unfolding partitioned_service_def
    by (rule quiet_layers [OF assms(1)]) (use out(2) assms(2) in \<open>simp_all only: not_rejected fst_conv, simp add: turn_with_options_def turn_new_def\<close>)
  with out(1) show "\<exists>out :: unit turn_outcome. out_output out = prompt \<and> fst (partitioned_service env None (named_fake (le_fake env) fake_provider) ?r)
      = ending.Settled (Inr out)" by blast
  show "fst (partitioned_service env (Some b) provider (plain_request prompt op fresh)) =
      ending.Settled (Inl (map_bulkhead_error (Bulkhead b)))"
    unfolding partitioned_service_def plain_request_def
    by (rule quiet_layers [OF assms(1)]) (use assms(2) in \<open>simp_all add: apply_layer_def resilience_layer_def turn_with_options_def turn_new_def\<close>)
qed

lemma breaker_calm:
  assumes "calm env (call_context_default op fresh)"
  shows "\<not> is_blank prompt \<Longrightarrow> \<exists>out :: unit turn_outcome. out_output out = prompt \<and>
      fst (breaker_service env False (named_fake (le_fake env) fake_provider) (breaker_request prompt None op fresh)) = ending.Settled (Inr out)"
    and "\<not> is_blank prompt \<Longrightarrow>
      fst (breaker_service env False (named_fake (le_fake env) fake_provider) (breaker_request prompt (Some message) op fresh)) =
        (ending.Settled (Inl (error_new Provider message Running EffPossible)) :: unit turn_outcome ending)"
    and "fst (breaker_service env False provider (breaker_request [] failure op fresh)) =
        ending.Settled (Inl (invalid_request ''prompt must not be empty''))"
    and "fst (breaker_service env True provider (breaker_request prompt failure op fresh)) =
        ending.Settled (Inl (map_breaker_error OpenCircuit))"
proof -
  have closed: "breaker_service env False (named_fake (le_fake env) fake_provider) (breaker_request prompt failure op fresh)
      = (named_fake (le_fake env) fake_provider (breaker_request prompt failure op fresh) :: unit turn_outcome ending \<times> bool)"
    if "\<not> is_blank prompt" for prompt failure
  proof -
    have "breaker_service env False (named_fake (le_fake env) fake_provider) = (layered_fake env fake_provider :: unit local_provider)"
      by (simp add: breaker_service_def breaker_stack_def layered_fake_def not_rejected)
    then show ?thesis
      using that by (simp add: layered_fake_calm [OF assms] breaker_request_def turn_with_options_def turn_new_def)
  qed
  show "\<exists>out :: unit turn_outcome. out_output out = prompt \<and>
      fst (breaker_service env False (named_fake (le_fake env) fake_provider) (breaker_request prompt None op fresh)) = ending.Settled (Inr out)"
    if "\<not> is_blank prompt"
    using closed [OF that, of None] named_fake_plain [OF assms that, of None]
    by (auto simp: breaker_request_def fake_options_default_def)
  show "fst (breaker_service env False (named_fake (le_fake env) fake_provider) (breaker_request prompt (Some message) op fresh)) =
        (ending.Settled (Inl (error_new Provider message Running EffPossible)) :: unit turn_outcome ending)" if "\<not> is_blank prompt"
    using closed [OF that, of "Some message"] by (simp add: named_fake_failing [OF assms that])
  show "fst (breaker_service env False provider (breaker_request [] failure op fresh)) =
        ending.Settled (Inl (invalid_request ''prompt must not be empty''))"
    using assms
    by (auto simp: breaker_service_def breaker_stack_def not_rejected breaker_request_def calm_def demo_layers Let_def
        split: option.splits)
  show "fst (breaker_service env True provider (breaker_request prompt failure op fresh)) =
        ending.Settled (Inl (map_breaker_error OpenCircuit))"
    by (simp add: breaker_service_def apply_layer_def supervise_layer_def resilience_layer_def open_circuit_def)
qed

section \<open>Theorems\<close>

text \<open>
  Whatever a resilience layer decides, and wherever the examples put it, a call that ends with a failure claiming no
  effects never reached the provider, and with the layer out of the way the stack is that of the crate alone.
\<close>

theorem resilience_keeps_honesty:
  assumes "honest provider"
  shows "honest (breaker_service env rejects provider) \<and> honest (limited_service env rejects' provider)
    \<and> honest (partitioned_service env rejects'' provider)
    \<and> breaker_service env False provider =
        with_layers [SuperviseCall (le_join env), CatchPanic, AdmitOne True, EnforceDeadline (le_deadline env), ValidateTurn None]
          provider"
proof (intro conjI)
  show "honest (breaker_service env rejects provider)"
    unfolding breaker_service_def breaker_stack_def
    by (intro with_layers_honest breaker.keeps_honest assms)
  show "honest (limited_service env rejects' provider)"
    unfolding limited_service_def by (intro with_layers_honest limiter.keeps_honest assms)
  show "honest (partitioned_service env rejects'' provider)"
    unfolding partitioned_service_def by (intro with_layers_honest bulkhead.keeps_honest assms)
  have closed: "apply_layer (resilience_layer map_breaker_error CircuitInner (open_circuit False)) svc = svc"
    for svc :: "('a turn agent_request, 'b turn_outcome) service"
    by (rule ext, rule breaker.forwarded_unchanged) (simp add: open_circuit_def)
  show "breaker_service env False provider =
        with_layers [SuperviseCall (le_join env), CatchPanic, AdmitOne True, EnforceDeadline (le_deadline env), ValidateTurn None]
          provider"
    unfolding breaker_service_def breaker_stack_def closed by simp
qed

text \<open>
  Only the provider trips the circuit: with the fake provider of the example, a settlement the
  classifier counts comes from a call that reached it. Refusals of the layers and of the fake's own
  validation are the caller's or the host's and do not count.
\<close>

theorem only_provider_failures_trip:
  assumes "fst (breaker_stack env (named_fake fe name) request) = ending.Settled result" and "classify_provider_health result"
  shows "snd (breaker_stack env (named_fake fe name) request)"
proof (rule ccontr)
  let ?layers = "[CatchPanic, AdmitOne True, EnforceDeadline (le_deadline env), ValidateTurn None]"
  assume unreached: "\<not> snd (breaker_stack env (named_fake fe name) request)"
  have fake: "\<exists>e. fst (named_fake fe name request) = ending.Settled (Inl e) \<and> err_kind e \<notin> {Provider, Internal}"
    if "\<not> snd (named_fake fe name request)"
    using that
    by (auto simp: named_fake_def call_fake_def fake_validate_def Let_def error_constructors is_ok_def
        split: if_splits option.splits sum.splits)
  have "\<exists>e. fst (breaker_stack env (named_fake fe name) request) = ending.Settled (Inl e) \<and> err_kind e \<notin> {Provider, Internal}"
    using unreached fake
    by (auto simp: breaker_stack_def apply_layer_def catch_panic_def admission_call_def deadline_layer_def deadline_call_def
        validate_turn_def case_prod_unfold Let_def invalid_request_def deadline_exceeded_def cancelled_def
        split: option.splits if_splits wake.splits)
  with assms show False by (auto simp: classify_provider_health_def)
qed

text \<open>
  The three programs. When nothing interferes and the third-party layer decides as it is configured to (the circuit
  rejects after two counted failures and admits the probe after its pause, the quota is spent by the
  first call, the partition is full while the slow call runs), no assertion of the example fails and
  the program ends with the last answer; the circuit's decision follows from the classification of
  the first three results.
\<close>

theorem resilience_examples_pass:
  assumes "calm_demo de"
  shows "breaker_main de (\<lambda>n. n = 3) = DemoDone ''healthy call''
    \<and> (\<exists>r0 r1 r2. breaker_call de (\<lambda>n. n = 3) 0 [] None = ending.Settled r0
        \<and> breaker_call de (\<lambda>n. n = 3) 1 ''run'' (Some ''provider unavailable'') = ending.Settled r1
        \<and> breaker_call de (\<lambda>n. n = 3) 2 ''run'' (Some ''provider unavailable'') = ending.Settled r2
        \<and> map classify_provider_health [r0, r1, r2] = [False, True, True])
    \<and> limiter_main de (\<lambda>n. n = 1) = DemoDone ''first call''
    \<and> bulkhead_main de (\<lambda>n. if n = 1 then Some BulkheadFull else None) = DemoDone ''after settlement''"
proof -
  have calm: "calm (de_local de n) (call_context_default (de_operation de n) (de_fresh de n))" for n
    using assms by (simp add: calm_demo_def)
  have prompts: "\<not> is_blank ''run''" "\<not> is_blank ''healthy call''" "\<not> is_blank ''first call''" "\<not> is_blank ''slow call''"
      "\<not> is_blank ''concurrent call''" "\<not> is_blank ''after settlement''" "\<not> is_blank ''second call''"
    by code_simp+
  let ?b = "breaker_call de (\<lambda>n. n = 3)"
  have b0: "?b 0 [] None = ending.Settled (Inl (invalid_request ''prompt must not be empty''))"
    by (simp add: breaker_call_def breaker_calm(3) [OF calm, of 0])
  have b12: "?b n ''run'' (Some m) = ending.Settled (Inl (error_new Provider m Running EffPossible))" if "n \<noteq> 3" for n m
    using breaker_calm(2) [OF calm prompts(1), of n m] that by (simp add: breaker_call_def)
  have b3: "?b 3 ''healthy call'' None = ending.Settled (Inl (map_breaker_error OpenCircuit))"
    by (simp add: breaker_call_def breaker_calm(4) [OF calm, of 3])
  obtain out where b4: "?b 4 ''healthy call'' None = ending.Settled (Inr out)" "out_output out = ''healthy call''"
    using breaker_calm(1) [OF calm prompts(2), of 4] by (auto simp: breaker_call_def)
  have "breaker_main de (\<lambda>n. n = 3) = DemoDone ''healthy call''"
    using b0 b12 b3 b4
    by (simp add: breaker_main_def Let_def expect_refusal_def demo_result_def refused_at_admission_def unavailable_def)
  moreover have "\<exists>r0 r1 r2. ?b 0 [] None = ending.Settled r0 \<and> ?b 1 ''run'' (Some ''provider unavailable'') = ending.Settled r1
        \<and> ?b 2 ''run'' (Some ''provider unavailable'') = ending.Settled r2
        \<and> map classify_provider_health [r0, r1, r2] = [False, True, True]"
    using b0 b12 by (simp add: classify_provider_health_def invalid_request_def)
  moreover have "limiter_main de (\<lambda>n. n = 1) = DemoDone ''first call''"
    using limited_calm(1) [OF calm prompts(3), of 0]
    by (auto simp: limiter_main_def limited_call_def demo_result_def expect_refusal_def refused_at_admission_def error_new_def
        limited_calm(2) [OF calm prompts(7), of 1, simplified])
  moreover have "bulkhead_main de (\<lambda>n. if n = 1 then Some BulkheadFull else None) = DemoDone ''after settlement''"
  proof -
    let ?p = "partitioned_call de (\<lambda>n. if n = 1 then Some BulkheadFull else None)"
    obtain slow where "?p 0 (bulkhead_slow_request (de_operation de 0) (de_fresh de 0)) = ending.Settled (Inr slow)"
      using partitioned_calm(1) [OF calm prompts(4), of 0] by (auto simp: partitioned_call_def bulkhead_slow_request_def)
    moreover have "?p 1 (plain_request ''concurrent call'' (de_operation de 1) (de_fresh de 1)) =
        ending.Settled (Inl (map_bulkhead_error (Bulkhead BulkheadFull)))"
      by (simp add: partitioned_call_def partitioned_calm(2) [OF calm prompts(5), of 1, simplified])
    moreover obtain later where "?p 2 (plain_request ''after settlement'' (de_operation de 2) (de_fresh de 2)) = ending.Settled (Inr later)"
        "out_output later = ''after settlement''"
      using partitioned_calm(1) [OF calm prompts(6), of 2 None]
      by (auto simp: partitioned_call_def plain_request_def fake_options_default_def)
    ultimately show ?thesis
      by (simp add: bulkhead_main_def Let_def expect_refusal_def demo_result_def refused_at_admission_def)
  qed
  ultimately show ?thesis by blast
qed

section \<open>Witnesses\<close>

definition quiet_demo :: demo_env where
  "quiet_demo = \<lparr>de_local = (\<lambda>_. quiet_env), de_operation = of_nat, de_fresh = (\<lambda>n. [n])\<rparr>"

theorem resilience_keeps_honesty_witness:
  "\<not> snd (breaker_service quiet_env True (refusing_provider :: (unit turn agent_request, nat turn_outcome) service)
       (agent_request_with_context (turn_new ''go'') (call_context_default 1 [0])))"
proof -
  let ?p = "refusing_provider :: (unit turn agent_request, nat turn_outcome) service"
  let ?r = "agent_request_with_context (turn_new ''go'') (call_context_default 1 [0])"
  have "fst (breaker_service quiet_env True ?p ?r) = ending.Settled (Inl (unavailable ''agent provider circuit is open''))"
    by code_simp
  then have "admitted (fst (breaker_service quiet_env True ?p ?r)) = EffNone" by (simp add: unavailable_def)
  with resilience_keeps_honesty [OF refusing_provider_honest] show ?thesis unfolding honest_def by blast
qed

theorem only_provider_failures_trip_witness:
  "\<exists>e. fst (breaker_stack quiet_env (named_fake (le_fake quiet_env) fake_provider)
       (breaker_request ''run'' (Some ''provider unavailable'') 1 [0])) = (ending.Settled (Inl e) :: unit turn_outcome ending)
     \<and> snd (breaker_stack quiet_env (named_fake (le_fake quiet_env) fake_provider :: unit local_provider)
         (breaker_request ''run'' (Some ''provider unavailable'') 1 [0]))"
proof -
  let ?s = "breaker_stack quiet_env (named_fake (le_fake quiet_env) fake_provider :: unit local_provider)
       (breaker_request ''run'' (Some ''provider unavailable'') 1 [0])"
  have "case fst ?s of ending.Settled r \<Rightarrow> classify_provider_health r | _ \<Rightarrow> False" by code_simp
  then obtain r where r: "fst ?s = ending.Settled r" "classify_provider_health r" by (auto split: ending.splits)
  then obtain e where "r = Inl e" by (cases r) (auto simp: classify_provider_health_def)
  with only_provider_failures_trip [OF r] r(1) show ?thesis by blast
qed

theorem resilience_examples_pass_witness:
  "breaker_main quiet_demo (\<lambda>n. n = 3) = DemoDone ''healthy call'' \<and> limiter_main quiet_demo (\<lambda>n. n = 1) = DemoDone ''first call''"
proof -
  have "calm_demo quiet_demo"
    by (simp add: calm_demo_def quiet_demo_def quiet_env_def calm_def call_context_default_def is_cancelled_def)
  from resilience_examples_pass [OF this] show ?thesis by blast
qed

end
