(* ===== verification/Health_Gate.thy ===== *)
theory Health_Gate
  imports Resilience
begin

text \<open>
  \<^verbatim>\<open>crates/tower-agent/examples/health_gated_circuit.rs\<close>: an effectful provider behind a circuit in manual mode, opened
  and closed by the host on an external health signal. The circuit is third-party code: its operations are the
  parameter \<open>ops\<close>, with the documented laws of manual mode as the locale \<open>manual_circuit\<close>. The state of the example is
  the circuit, the health flag and the count of launches.
\<close>

section \<open>The circuit\<close>

record 's circuit_ops =
  cc_force_open :: "'s \<Rightarrow> 's"
  cc_force_closed :: "'s \<Rightarrow> 's"
  cc_is_open :: "'s \<Rightarrow> bool"
  cc_rejects :: "'s \<Rightarrow> bool"
  cc_after_call :: "'s \<Rightarrow> unit turn_outcome ending \<Rightarrow> 's"

locale manual_circuit =
  fixes ops :: "'s circuit_ops"
  assumes opens: "cc_is_open ops (cc_force_open ops s)"
    and closes: "\<not> cc_is_open ops (cc_force_closed ops s)"
    and rejects_open: "cc_rejects ops s = cc_is_open ops s"
    and calls_keep: "cc_is_open ops (cc_after_call ops s x) = cc_is_open ops s"

fun map_gate_error :: "circuit_breaker_error \<Rightarrow> agent_error" where
  "map_gate_error (CircuitInner e) = e"
| "map_gate_error OpenCircuit = unavailable ''agent provider circuit is open pending a health signal''"

interpretation gate: resilience_errors map_gate_error CircuitInner open_circuit ev for ev :: "'v \<Rightarrow> failure_evidence"
  by unfold_locales (auto simp: open_circuit_def unavailable_def evidence_of_def split: if_splits)

section \<open>The host\<close>

record 's gated_host =
  gh_circuit :: 's
  gh_healthy :: bool
  gh_launches :: nat

definition effectful_provider :: "bool \<Rightarrow> (unit turn agent_request, unit turn_outcome) service" where
  "effectful_provider healthy request =
     (ending.Settled
        (if healthy then Inr (turn_outcome_new ''changelog edited'')
         else Inl (error_new Provider ''provider failed partway through the turn'' Running EffPossible)),
      True)"

definition gated_service :: "local_env \<Rightarrow> bool \<Rightarrow> bool \<Rightarrow> (unit turn agent_request, unit turn_outcome) service" where
  "gated_service env rejects healthy =
     with_layers [SuperviseCall (le_join env), CatchPanic]
       (apply_layer (resilience_layer map_gate_error CircuitInner (open_circuit rejects))
         (with_layers [AdmitOne True, EnforceDeadline (le_deadline env), ValidateTurn None] (effectful_provider healthy)))"

definition gate_request :: "operation_id \<Rightarrow> token \<Rightarrow> string \<Rightarrow> unit turn agent_request" where
  "gate_request op fresh prompt = agent_request_with_context (turn_new prompt) (call_context_default op fresh)"

definition gated_turn ::
  "'s circuit_ops \<Rightarrow> local_env \<Rightarrow> unit turn agent_request \<Rightarrow> 's gated_host \<Rightarrow> unit turn_outcome ending \<times> 's gated_host" where
  "gated_turn ops env request h =
     (case gated_service env (cc_rejects ops (gh_circuit h)) (gh_healthy h) request of
        (x, reached) \<Rightarrow>
          (x, h\<lparr>gh_circuit := cc_after_call ops (gh_circuit h) x,
                gh_launches := (if reached then gh_launches h + 1 else gh_launches h)\<rparr>))"

definition check_provider_health :: "'s gated_host \<Rightarrow> bool" where
  "check_provider_health h = gh_healthy h"

text \<open>What the host does, besides turns; \<open>Recover\<close> is the health check that closes the circuit.\<close>

datatype gate_act =
    Turn_call "unit turn agent_request"
  | Force_open
  | Recover
  | Provider_health bool

fun gate_act_step ::
  "'s circuit_ops \<Rightarrow> local_env \<Rightarrow> gate_act \<Rightarrow> 's gated_host \<Rightarrow> unit turn_outcome ending option \<times> 's gated_host" where
  "gate_act_step ops env (Turn_call request) h = (case gated_turn ops env request h of (x, h') \<Rightarrow> (Some x, h'))"
| "gate_act_step ops env Force_open h = (None, h\<lparr>gh_circuit := cc_force_open ops (gh_circuit h)\<rparr>)"
| "gate_act_step ops env Recover h =
     (None, if check_provider_health h then h\<lparr>gh_circuit := cc_force_closed ops (gh_circuit h)\<rparr> else h)"
| "gate_act_step ops env (Provider_health b) h = (None, h\<lparr>gh_healthy := b\<rparr>)"

fun gate_run ::
  "'s circuit_ops \<Rightarrow> local_env \<Rightarrow> gate_act list \<Rightarrow> 's gated_host \<Rightarrow> unit turn_outcome ending list \<times> 's gated_host" where
  "gate_run ops env [] h = ([], h)"
| "gate_run ops env (a # as) h =
     (case gate_act_step ops env a h of (x, h') \<Rightarrow>
        (case gate_run ops env as h' of (xs, h'') \<Rightarrow> ((case x of None \<Rightarrow> xs | Some y \<Rightarrow> y # xs), h'')))"

text \<open>The numbered steps of \<open>main\<close>.\<close>

fun refused_attempts ::
  "'s circuit_ops \<Rightarrow> local_env \<Rightarrow> unit turn agent_request list \<Rightarrow> 's gated_host \<Rightarrow> 's gated_host option" where
  "refused_attempts ops env [] h = Some h"
| "refused_attempts ops env (r # rs) h =
     (case gated_turn ops env r h of
        (ending.Settled (Inl e), h') \<Rightarrow>
          if refused_at_admission Unavailable e then refused_attempts ops env rs h' else None
      | _ \<Rightarrow> None)"

definition gated_main :: "'s circuit_ops \<Rightarrow> local_env \<Rightarrow> (nat \<Rightarrow> unit turn agent_request) \<Rightarrow> 's \<Rightarrow> demo_end" where
  "gated_main ops env request circuit =
     (case gated_turn ops env (request 0) \<lparr>gh_circuit = circuit, gh_healthy = False, gh_launches = 0\<rparr> of
        (ending.Settled (Inl failure), h1) \<Rightarrow>
          if err_kind failure \<noteq> Provider \<or> err_effects failure \<noteq> EffPossible then DemoPanicked
          else
            (let h2 = h1\<lparr>gh_circuit := cc_force_open ops (gh_circuit h1)\<rparr>;
                 launched_before = gh_launches h2
             in if \<not> cc_is_open ops (gh_circuit h2) then DemoPanicked
                else
                  (case refused_attempts ops env [request 1, request 2, request 3] h2 of
                     None \<Rightarrow> DemoPanicked
                   | Some h3 \<Rightarrow>
                       if gh_launches h3 \<noteq> launched_before \<or> check_provider_health h3 \<or> \<not> cc_is_open ops (gh_circuit h3)
                       then DemoPanicked
                       else
                         (let h4 = h3\<lparr>gh_healthy := True\<rparr>;
                              h5 = snd (gate_act_step ops env Recover h4)
                          in if cc_is_open ops (gh_circuit h5) then DemoPanicked
                             else
                               (case gated_turn ops env (request 4) h5 of
                                  (ending.Settled (Inr out), h6) \<Rightarrow>
                                    if gh_launches h6 \<noteq> launched_before + 1 then DemoPanicked else DemoDone (out_output out)
                                | (ending.Settled (Inl e), h6) \<Rightarrow> DemoFailed e
                                | _ \<Rightarrow> DemoPanicked))))
      | _ \<Rightarrow> DemoPanicked)"

section \<open>The specification\<close>

text \<open>All a client can tell: whether the gate is open, whether the provider is healthy, how often it was called.\<close>

record gate_view =
  gv_open :: bool
  gv_healthy :: bool
  gv_launches :: nat

definition gate_view_of :: "'s circuit_ops \<Rightarrow> 's gated_host \<Rightarrow> gate_view" where
  "gate_view_of ops h = \<lparr>gv_open = cc_is_open ops (gh_circuit h), gv_healthy = gh_healthy h, gv_launches = gh_launches h\<rparr>"

definition gate_refusal :: agent_error where
  "gate_refusal = unavailable ''agent provider circuit is open pending a health signal''"

fun gate_spec :: "gate_act \<Rightarrow> gate_view \<Rightarrow> (agent_error + unit turn_outcome) option \<times> gate_view" where
  "gate_spec (Turn_call request) v =
     (if gv_open v then (Some (Inl gate_refusal), v)
      else if is_blank (turn_prompt (req_body request)) then (Some (Inl (invalid_request ''prompt must not be empty'')), v)
      else (Some (if gv_healthy v then Inr (turn_outcome_new ''changelog edited'')
                  else Inl (error_new Provider ''provider failed partway through the turn'' Running EffPossible)),
            v\<lparr>gv_launches := gv_launches v + 1\<rparr>))"
| "gate_spec Force_open v = (None, v\<lparr>gv_open := True\<rparr>)"
| "gate_spec Recover v = (None, if gv_healthy v then v\<lparr>gv_open := False\<rparr> else v)"
| "gate_spec (Provider_health b) v = (None, v\<lparr>gv_healthy := b\<rparr>)"

fun gate_spec_run :: "gate_act list \<Rightarrow> gate_view \<Rightarrow> (agent_error + unit turn_outcome) list \<times> gate_view" where
  "gate_spec_run [] v = ([], v)"
| "gate_spec_run (a # as) v =
     (case gate_spec a v of (x, v') \<Rightarrow>
        (case gate_spec_run as v' of (xs, v'') \<Rightarrow> ((case x of None \<Rightarrow> xs | Some y \<Rightarrow> y # xs), v'')))"

text \<open>Every turn of a list of acts is undisturbed by tokens and deadlines.\<close>

definition calm_acts :: "local_env \<Rightarrow> gate_act list \<Rightarrow> bool" where
  "calm_acts env as \<longleftrightarrow> list_all (\<lambda>a. case a of Turn_call r \<Rightarrow> calm env (req_context r) | _ \<Rightarrow> True) as"

section \<open>Lemmas\<close>

lemma gated_service_open: "gated_service env True healthy request = (ending.Settled (Inl gate_refusal), False)"
  by (simp add: gated_service_def apply_layer_def supervise_layer_def catch_panic_def resilience_layer_def open_circuit_def
      gate_refusal_def)

lemma gated_service_closed:
  assumes "calm env (req_context request)"
  shows "gated_service env False healthy request =
    (if is_blank (turn_prompt (req_body request)) then (ending.Settled (Inl (invalid_request ''prompt must not be empty'')), False)
     else effectful_provider healthy request)"
proof -
  have "apply_layer (resilience_layer map_gate_error CircuitInner (open_circuit False)) svc = svc"
    for svc :: "(unit turn agent_request, unit turn_outcome) service"
    by (rule ext, rule gate.forwarded_unchanged) (simp add: open_circuit_def)
  then show ?thesis
    using assms
    by (auto simp: gated_service_def calm_def apply_layer_def supervise_layer_def catch_panic_def admission_call_def
        deadline_layer_def deadline_call_def validate_turn_def effectful_provider_def Let_def split: option.splits)
qed

context manual_circuit
begin

text \<open>One act of the host against the circuit is one act of the specification.\<close>

lemma act_refines:
  assumes "calm_acts env [a]"
  shows "(map_option (\<lambda>r. ending.Settled r) (fst (gate_spec a (gate_view_of ops h))), snd (gate_spec a (gate_view_of ops h)))
    = (fst (gate_act_step ops env a h), gate_view_of ops (snd (gate_act_step ops env a h)))"
proof (cases a)
  case (Turn_call request)
  then have "calm env (req_context request)" using assms by (simp add: calm_acts_def)
  then show ?thesis
    using Turn_call calls_keep
    by (simp add: gated_turn_def gate_view_of_def rejects_open gated_service_open gated_service_closed effectful_provider_def)
qed (simp_all add: gate_view_of_def opens closes check_provider_health_def)

lemma run_refines:
  "calm_acts env as \<Longrightarrow>
     (map (\<lambda>r. ending.Settled r) (fst (gate_spec_run as (gate_view_of ops h))), snd (gate_spec_run as (gate_view_of ops h)))
     = (fst (gate_run ops env as h), gate_view_of ops (snd (gate_run ops env as h)))"
proof (induction as arbitrary: h)
  case Nil
  then show ?case by simp
next
  case (Cons a as)
  have calm: "calm_acts env [a]" "calm_acts env as" using Cons.prems by (simp_all add: calm_acts_def)
  from act_refines [OF calm(1), of h] have step:
    "fst (gate_act_step ops env a h) = map_option (\<lambda>r. ending.Settled r) (fst (gate_spec a (gate_view_of ops h)))"
    "gate_view_of ops (snd (gate_act_step ops env a h)) = snd (gate_spec a (gate_view_of ops h))"
    by simp_all
  from Cons.IH [OF calm(2), of "snd (gate_act_step ops env a h)"] show ?case
    by (simp add: case_prod_unfold step split: option.split)
qed

lemma turn_open: "cc_is_open ops (gh_circuit h) \<Longrightarrow>
    fst (gated_turn ops env request h) = ending.Settled (Inl gate_refusal)
    \<and> cc_is_open ops (gh_circuit (snd (gated_turn ops env request h)))
    \<and> gh_launches (snd (gated_turn ops env request h)) = gh_launches h
    \<and> gh_healthy (snd (gated_turn ops env request h)) = gh_healthy h"
  by (simp add: gated_turn_def rejects_open gated_service_open calls_keep)

lemma open_run:
  assumes "cc_is_open ops (gh_circuit h)" and "\<not> gh_healthy h" and "Provider_health True \<notin> set as"
  shows "set (fst (gate_run ops env as h)) \<subseteq> {ending.Settled (Inl gate_refusal)}
    \<and> gh_launches (snd (gate_run ops env as h)) = gh_launches h \<and> cc_is_open ops (gh_circuit (snd (gate_run ops env as h)))"
  using assms
proof (induction as arbitrary: h)
  case Nil
  then show ?case by simp
next
  case (Cons a as)
  let ?h = "snd (gate_act_step ops env a h)"
  have "cc_is_open ops (gh_circuit ?h) \<and> \<not> gh_healthy ?h \<and> gh_launches ?h = gh_launches h
      \<and> fst (gate_act_step ops env a h) \<in> {None, Some (ending.Settled (Inl gate_refusal))}"
    using Cons.prems turn_open [OF Cons.prems(1), of env]
    by (cases a) (auto simp: opens check_provider_health_def case_prod_unfold)
  with Cons.IH [of ?h] Cons.prems(3) show ?case
    by (auto simp: case_prod_unfold split: option.splits)
qed

end

lemma gate_refusal_facts: "refused_at_admission Unavailable gate_refusal"
  by (simp add: refused_at_admission_def gate_refusal_def unavailable_def)

section \<open>Theorems\<close>

text \<open>
  Behind any circuit that keeps the laws of manual mode the example is its specification: turns never open or close
  the gate, an open gate refuses them without a launch, a closed one launches each valid turn exactly once,
  and only the host's acts change the gate.
\<close>

theorem gate_implements_spec:
  assumes "manual_circuit ops" and "calm_acts env as"
  shows "fst (gate_run ops env as h) = map (\<lambda>r. ending.Settled r) (fst (gate_spec_run as (gate_view_of ops h)))
    \<and> gate_view_of ops (snd (gate_run ops env as h)) = snd (gate_spec_run as (gate_view_of ops h))"
  using manual_circuit.run_refines [OF assms, of h] by simp

text \<open>
  While the gate is open and the provider has not recovered, no sequence of turns, health checks and host acts, under any
  interference, launches anything or closes the gate: health is asked without risking a turn.
\<close>

theorem open_gate_costs_nothing:
  assumes "manual_circuit ops" and "cc_is_open ops (gh_circuit h)" and "\<not> gh_healthy h" and "Provider_health True \<notin> set as"
  shows "set (fst (gate_run ops env as h)) \<subseteq> {ending.Settled (Inl gate_refusal)}
    \<and> gh_launches (snd (gate_run ops env as h)) = gh_launches h
    \<and> cc_is_open ops (gh_circuit (snd (gate_run ops env as h)))
    \<and> err_kind gate_refusal = Unavailable \<and> err_phase gate_refusal = Admission \<and> err_effects gate_refusal = EffNone"
  using manual_circuit.open_run [OF assms(1), of h as env] assms(2-4) by (simp add: gate_refusal_def unavailable_def)

text \<open>The program of the example passes all its assertions, for every such circuit that starts closed.\<close>

theorem gated_main_passes:
  assumes ops: "manual_circuit ops" and closed: "\<not> cc_is_open ops circuit"
    and calm: "\<forall>n. calm env (req_context (request n))"
    and prompt: "\<forall>n. turn_prompt (req_body (request n)) = ''edit the changelog''"
  shows "gated_main ops env request circuit = DemoDone ''changelog edited''"
proof -
  let ?h0 = "\<lparr>gh_circuit = circuit, gh_healthy = False, gh_launches = 0\<rparr>"
  have not_blank: "\<not> is_blank ''edit the changelog''" by code_simp
  have closed_turn: "gated_turn ops env (request n) h =
      (fst (effectful_provider (gh_healthy h) (request n)),
       h\<lparr>gh_circuit := cc_after_call ops (gh_circuit h) (fst (effectful_provider (gh_healthy h) (request n))),
         gh_launches := gh_launches h + 1\<rparr>)"
    if "\<not> cc_is_open ops (gh_circuit h)" for h n
    using that calm prompt not_blank
    by (simp add: gated_turn_def manual_circuit.rejects_open [OF ops] gated_service_closed effectful_provider_def)
  have attempts: "\<exists>h'. refused_attempts ops env rs h = Some h' \<and> cc_is_open ops (gh_circuit h')
      \<and> gh_launches h' = gh_launches h \<and> gh_healthy h' = gh_healthy h" if "cc_is_open ops (gh_circuit h)" for h rs
    using that
  proof (induction rs arbitrary: h)
    case Nil
    then show ?case by simp
  next
    case (Cons r rs)
    from manual_circuit.turn_open [OF ops Cons.prems, of env r] Cons.IH [of "snd (gated_turn ops env r h)"] show ?case
      by (cases "gated_turn ops env r h") (simp add: gate_refusal_facts)
  qed
  let ?h2 = "(snd (gated_turn ops env (request 0) ?h0))\<lparr>gh_circuit := cc_force_open ops (gh_circuit (snd (gated_turn ops env (request 0) ?h0)))\<rparr>"
  have opened: "cc_is_open ops (gh_circuit ?h2)" by (simp add: manual_circuit.opens [OF ops])
  obtain h3 where h3: "refused_attempts ops env [request 1, request 2, request 3] ?h2 = Some h3" "cc_is_open ops (gh_circuit h3)"
      "gh_launches h3 = gh_launches ?h2" "gh_healthy h3 = gh_healthy ?h2"
    using attempts [OF opened, of "[request 1, request 2, request 3]"] by blast
  let ?h5 = "h3\<lparr>gh_healthy := True, gh_circuit := cc_force_closed ops (gh_circuit h3)\<rparr>"
  have reclosed: "\<not> cc_is_open ops (gh_circuit ?h5)" by (simp add: manual_circuit.closes [OF ops])
  show ?thesis
    using h3 opened closed_turn [of ?h0 0] closed_turn [OF reclosed, of 4] closed manual_circuit.closes [OF ops, of "gh_circuit h3"]
    by (simp add: gated_main_def Let_def effectful_provider_def check_provider_health_def turn_outcome_new_def)
qed

section \<open>Witnesses\<close>

text \<open>A switch is a circuit in manual mode.\<close>

definition switch_circuit :: "bool circuit_ops" where
  "switch_circuit =
     \<lparr>cc_force_open = (\<lambda>_. True), cc_force_closed = (\<lambda>_. False), cc_is_open = (\<lambda>s. s), cc_rejects = (\<lambda>s. s),
      cc_after_call = (\<lambda>s _. s)\<rparr>"

interpretation switch: manual_circuit switch_circuit
  by unfold_locales (simp_all add: switch_circuit_def)

definition sample_gate_acts :: "gate_act list" where
  "sample_gate_acts =
     [Turn_call (gate_request 1 [1] ''edit the changelog''), Force_open, Recover, Turn_call (gate_request 2 [2] ''edit the changelog'')]"

lemma sample_gate_calm: "calm quiet_env (call_context_default op fresh)"
  by (simp add: quiet_env_def calm_def call_context_default_def is_cancelled_def)

theorem gate_implements_spec_witness:
  "gate_view_of switch_circuit (snd (gate_run switch_circuit quiet_env sample_gate_acts
       \<lparr>gh_circuit = False, gh_healthy = False, gh_launches = 0\<rparr>))
   = \<lparr>gv_open = True, gv_healthy = False, gv_launches = 1\<rparr>"
proof -
  have "calm_acts quiet_env sample_gate_acts"
    by (simp add: calm_acts_def sample_gate_acts_def gate_request_def agent_request_with_context_def sample_gate_calm)
  moreover have "snd (gate_spec_run sample_gate_acts (gate_view_of switch_circuit \<lparr>gh_circuit = False, gh_healthy = False, gh_launches = 0\<rparr>))
      = \<lparr>gv_open = True, gv_healthy = False, gv_launches = 1\<rparr>" by code_simp
  ultimately show ?thesis using gate_implements_spec [OF switch.manual_circuit_axioms] by metis
qed

theorem open_gate_costs_nothing_witness:
  "gh_launches (snd (gate_run switch_circuit quiet_env [Recover, Turn_call (gate_request 2 [2] ''edit the changelog'')]
       \<lparr>gh_circuit = True, gh_healthy = False, gh_launches = 7\<rparr>)) = 7"
  using open_gate_costs_nothing [OF switch.manual_circuit_axioms, where env = quiet_env
      and as = "[Recover, Turn_call (gate_request 2 [2] ''edit the changelog'')]"
      and h = "\<lparr>gh_circuit = True, gh_healthy = False, gh_launches = 7\<rparr>"]
  by (simp add: switch_circuit_def)

theorem gated_main_passes_witness:
  "gated_main switch_circuit quiet_env (\<lambda>n. gate_request (of_nat n) [n] ''edit the changelog'') False = DemoDone ''changelog edited''"
  by (rule gated_main_passes [OF switch.manual_circuit_axioms])
    (simp_all add: switch_circuit_def gate_request_def agent_request_with_context_def turn_new_def sample_gate_calm)

end
