(* ===== verification/Workflow_Dataflow.thy ===== *)
theory Workflow_Dataflow
  imports Workflow_Runs
begin

text \<open>
  What a run computes. The reference is the definition read as a dataflow program: the value of a step is what
  its job settles with on the values of its direct needs, and \<open>sequential\<close> evaluates the steps one after the
  other in the compiled order. The theorems say that every run of the concurrent scheduler computes exactly
  these values, whatever its concurrency and schedule: each output of any run is the value of its step, and
  a run that returns an outcome returns the result of the sequential evaluation.
\<close>

section \<open>The reference\<close>

text \<open>
  \<open>answers call s\<close> says that the dispatcher may settle \<open>call\<close> with \<open>s\<close>. A run settles by it when every settled call
  settled so.
\<close>

definition settles_by :: "(('i, 'j, 'o) step_call \<Rightarrow> 'e + 'o \<Rightarrow> bool) \<Rightarrow> ('i, 'j, 'o, 'e) action list \<Rightarrow> bool" where
  "settles_by answers acts \<longleftrightarrow>
     (\<forall>call \<in> set (calls acts). \<forall>s. (call_step_id call, Settled s) \<in> set (takes acts) \<longrightarrow> answers call s)"

text \<open>The calls a step may receive in a run of the request: its job, and values for exactly its needs.\<close>

definition call_for ::
  "('i, 'j) workflow_request \<Rightarrow> step_id \<Rightarrow> 'j step_definition \<Rightarrow> ('i, 'j, 'o) step_call \<Rightarrow> bool" where
  "call_for req k step call \<longleftrightarrow>
     call_step_id call = k \<and> call_job call = def_job step \<and> call_input call = wreq_input req
     \<and> call_run_id call = wctx_run_id (wreq_context req)
     \<and> call_workflow_id call = wf_id (wreq_definition req) \<and> call_workflow_version call = wf_version (wreq_definition req)
     \<and> call_deadline call = wctx_deadline (wreq_context req)
     \<and> bt_keys (call_dependencies call) = def_needs step"

inductive computes ::
  "(('i, 'j, 'o) step_call \<Rightarrow> 'e + 'o \<Rightarrow> bool) \<Rightarrow> ('i, 'j) workflow_request \<Rightarrow> step_id \<Rightarrow> 'o \<Rightarrow> bool"
  for answers req where
  step_value: "wf_step (wreq_definition req) k = Some step \<Longrightarrow> call_for req k step call \<Longrightarrow>
    (\<And>n w. map_of (call_dependencies call) n = Some w \<Longrightarrow> computes answers req n w) \<Longrightarrow>
    answers call (Inr v) \<Longrightarrow> computes answers req k v"

text \<open>One step after the other; \<open>None\<close> when a step is unknown, lacks a value it needs, or fails.\<close>

fun sequential ::
  "(step_id \<Rightarrow> 'j \<Rightarrow> (step_id, 'o) btree_map \<Rightarrow> 'e + 'o) \<Rightarrow> 'j workflow_definition \<Rightarrow> step_id list
     \<Rightarrow> (step_id, 'o) btree_map \<Rightarrow> (step_id, 'o) btree_map option" where
  "sequential f d [] outputs = Some outputs"
| "sequential f d (k # ks) outputs =
     (case wf_step d k of
        None \<Rightarrow> None
      | Some step \<Rightarrow>
          (case gather_dependencies outputs (def_needs step) of
             None \<Rightarrow> None
           | Some deps \<Rightarrow>
               (case f k (def_job step) deps of
                  Inl _ \<Rightarrow> None
                | Inr v \<Rightarrow> sequential f d ks (bt_insert k v outputs))))"

text \<open>A dispatcher whose answer is a function of the step, its job and the values of its needs.\<close>

definition functional_answers ::
  "(step_id \<Rightarrow> 'j \<Rightarrow> (step_id, 'o) btree_map \<Rightarrow> 'e + 'o) \<Rightarrow> ('i, 'j, 'o) step_call \<Rightarrow> 'e + 'o \<Rightarrow> bool" where
  "functional_answers f call s \<longleftrightarrow> s = f (call_step_id call) (call_job call) (call_dependencies call)"

section \<open>Outputs come from calls\<close>

text \<open>A flight that is past its call, and every output that was taken, has a call in the history.\<close>

definition flight_called :: "('i, 'j, 'o, 'e) action list \<Rightarrow> ('i, 'j, 'o, 'e) flight \<Rightarrow> bool" where
  "flight_called acts fl \<longleftrightarrow>
     (case fl_state fl of Called \<Rightarrow> fl_step fl \<in> call_step_id ` set (calls acts)
      | Completed (Settled (Inr _)) \<Rightarrow> fl_step fl \<in> call_step_id ` set (calls acts)
      | _ \<Rightarrow> True)"

definition outputs_called :: "('i, 'j, 'o, 'e) run_state \<Rightarrow> ('i, 'j, 'o, 'e) action list \<Rightarrow> bool" where
  "outputs_called st acts \<longleftrightarrow>
     (\<forall>fl \<in> set (rs_in_flight st). flight_called acts fl)
     \<and> (\<forall>k v. (k, Settled (Inr v)) \<in> set (takes acts) \<longrightarrow> k \<in> call_step_id ` set (calls acts))"

lemma flight_called_append: "flight_called acts fl \<Longrightarrow> flight_called (acts @ acts') fl"
  by (auto simp: flight_called_def split: flight_state.splits step_settlement.splits sum.splits)

lemma stop_actions_history [simp]: "calls (stop_actions st st') = []" "takes (stop_actions st st') = []"
  by (auto simp: stop_actions_def split: option.splits)

lemma outputs_called_same:
  "outputs_called st acts \<Longrightarrow> calls acts' = [] \<Longrightarrow> takes acts' = [] \<Longrightarrow> set (rs_in_flight st') \<subseteq> set (rs_in_flight st) \<Longrightarrow>
     outputs_called st' (acts @ acts')"
  by (auto simp: outputs_called_def dest: flight_called_append)

lemma outputs_called_set:
  assumes "outputs_called st acts" and "find_flight st sid = Some fl"
    and "flight_called (acts @ acts') (fl\<lparr>fl_state := s\<rparr>)" and "takes acts' = []" and dist: "distinct (flying st)"
  shows "outputs_called (set_flight st sid s) (acts @ acts')"
proof -
  have fl: "fl \<in> set (rs_in_flight st)" "fl_step fl = sid" using find_flight_Some [OF assms(2)] by auto
  have "flight_called (acts @ acts') g" if "g \<in> set (rs_in_flight (set_flight st sid s))" for g
  proof -
    from that obtain g' where g': "g' \<in> set (rs_in_flight st)" "g = (if fl_step g' = sid then g'\<lparr>fl_state := s\<rparr> else g')"
      by (auto simp: in_flight_set_flight)
    show ?thesis
    proof (cases "fl_step g' = sid")
      case True
      then have "g' = fl" using flying_unique [OF dist g'(1) fl(1)] fl(2) by simp
      then show ?thesis using g'(2) True assms(3) by simp
    next
      case False
      then show ?thesis using g' assms(1) by (auto simp: outputs_called_def intro: flight_called_append)
    qed
  qed
  then show ?thesis using assms(1,4) by (auto simp: outputs_called_def)
qed

lemma fill_iteration_flights:
  "fill_iteration req m now st = FillBreak st' \<Longrightarrow> rs_in_flight st' = rs_in_flight st"
  "fill_iteration req m now st = FillContinue st' sid \<Longrightarrow>
     \<exists>call. rs_in_flight st' = rs_in_flight st @ [\<lparr>fl_step = sid, fl_call = call, fl_state = Readying\<rparr>]"
  by (auto simp: fill_iteration_def stop_run_def Let_def split: if_splits list.splits option.splits)

lemma exec_step_called:
  fixes st :: "('i, 'j, 'o, 'e) run_state"
  assumes ok: "run_ok req m (pc, now, st) acts" and called: "outputs_called st acts"
    and step: "exec_step req m outgoing (pc, now, st) x = Some ((pc', now', st'), acts')"
  shows "outputs_called st' (acts @ acts')"
proof -
  have sched: "sched_ok req m (pc, now, st) (lost_of acts)" using ok by (simp add: run_ok_def)
  have dist: "distinct (flying st)" using sched by (simp add: sched_ok_def partition_ok_def)
  have same: "outputs_called st' (acts @ acts')"
    if "rs_in_flight st' = rs_in_flight st" "calls acts' = []" "takes acts' = []"
    using outputs_called_same [OF called that(2,3)] that(1) by simp
  show ?thesis
  proof (cases x)
    case SchedulerStep
    show ?thesis
    proof (cases pc)
      case Filling
      show ?thesis
      proof (cases "fill_iteration req m now st")
        case (FillBreak st1)
        then show ?thesis
          using same step SchedulerStep Filling fill_iteration_flights(1) [OF FillBreak] by (auto simp: scheduler_step_def)
      next
        case (FillContinue st1 sid)
        then have st': "st' = st1" "acts' = [Launched sid]" using step SchedulerStep Filling by (simp_all add: scheduler_step_def)
        obtain call where "rs_in_flight st1 = rs_in_flight st @ [\<lparr>fl_step = sid, fl_call = call, fl_state = Readying\<rparr>]"
          using fill_iteration_flights(2) [OF FillContinue] by blast
        then show ?thesis
          using called by (auto simp: st' outputs_called_def intro: flight_called_append) (simp add: flight_called_def)
      next
        case FillPanic
        then show ?thesis using same step SchedulerStep Filling by (auto simp: scheduler_step_def)
      qed
    next
      case Waiting
      then show ?thesis
        using same step SchedulerStep by (auto simp: scheduler_step_def stop_run_def split: if_splits)
    qed (use step SchedulerStep in \<open>simp_all add: scheduler_step_def\<close>)
  next
    case (DispatcherReady sid r)
    then obtain fl where fl: "find_flight st sid = Some fl"
      and st': "st' = set_flight st sid (poll_ready_arm (rs_cancelled st) (call_cancellation (fl_call fl)) r)" "acts' = []"
      using step by (auto simp: poll_flight_def split: if_splits option.splits)
    have "flight_called acts (fl\<lparr>fl_state := poll_ready_arm (rs_cancelled st) (call_cancellation (fl_call fl)) r\<rparr>)"
      by (auto simp: flight_called_def poll_ready_arm_def split: readiness.split)
    then show ?thesis using outputs_called_set [OF called fl _ _ dist, of "[]"] by (simp add: st')
  next
    case (CrossBoundary sid)
    then obtain fl where fl: "find_flight st sid = Some fl"
      and st': "st' = set_flight st sid (cross_call_boundary (rs_cancelled st) (call_cancellation (fl_call fl)))"
        "acts' = (if cross_call_boundary (rs_cancelled st) (call_cancellation (fl_call fl)) = (Called :: ('o, 'e) flight_state)
                  then [Call (fl_call fl)] else [])"
      using step by (auto simp: Let_def split: if_splits option.splits)
    have "call_of_step req st (fl_step fl) (fl_call fl)"
      using sched find_flight_Some [OF fl] by (auto simp: sched_ok_def calls_ok_def)
    then have "call_step_id (fl_call fl) = fl_step fl" by (auto simp: call_of_step_def make_call_def)
    then have "flight_called (acts @ acts') (fl\<lparr>fl_state := cross_call_boundary (rs_cancelled st) (call_cancellation (fl_call fl))\<rparr>)"
      by (auto simp: flight_called_def cross_call_boundary_def st' split: if_splits)
    then show ?thesis
      unfolding st'(1) by (rule outputs_called_set [OF called fl _ _ dist]) (simp add: st'(2))
  next
    case (CallSettles sid r)
    then obtain fl where fl: "find_flight st sid = Some fl" "fl_state fl = Called"
      and st': "st' = set_flight st sid (Completed (Settled r))" "acts' = []"
      using step by (auto simp: poll_flight_def split: if_splits option.splits)
    have "fl_step fl \<in> call_step_id ` set (calls acts)"
      using called find_flight_Some [OF fl(1)] fl(2) by (auto simp: outputs_called_def flight_called_def)
    then have "flight_called acts (fl\<lparr>fl_state := Completed (Settled r)\<rparr>)"
      by (simp add: flight_called_def split: sum.split)
    then show ?thesis using outputs_called_set [OF called fl(1) _ _ dist, of "[]"] by (simp add: st')
  next
    case (TakeCompleted sid)
    then obtain fl s where fl: "find_flight st sid = Some fl" "fl_state fl = Completed s"
      and taken: "take_completed req outgoing now st sid = Some ((pc', now', st'), acts')"
      using step by (auto simp: take_completed_def split: if_splits option.splits flight_state.splits)
    have past: "fl_step fl \<in> call_step_id ` set (calls acts)" if "s = Settled (Inr v)" for v
      using called find_flight_Some [OF fl(1)] fl(2) that by (auto simp: outputs_called_def flight_called_def)
    show ?thesis
    proof (cases "settle req outgoing (drop_flight st sid) sid s")
      case None
      then show ?thesis using same taken fl by (simp add: take_completed_def)
    next
      case (Some st1)
      then have st': "st' = st1" "acts' = Taken sid s # stop_actions st st1"
        using taken fl by (auto simp: take_completed_def)
      have "set (rs_in_flight st1) \<subseteq> set (rs_in_flight st)"
        using settle_shape(1) [OF Some] by (auto simp: in_flight_drop_flight)
      then show ?thesis
        using called past find_flight_Some [OF fl(1)]
        by (auto simp: st' outputs_called_def intro: flight_called_append)
    qed
  qed (use same step in \<open>auto simp: stop_run_def split: if_splits\<close>)
qed

lemma execution_called:
  assumes d: "compiled (wreq_definition req)" and m: "0 < m" and "execution req m c acts"
  shows "outputs_called (snd (snd c)) acts"
  using assms(3)
proof (induction rule: execution.induct)
  case (step c acts outgoing x c' acts')
  from execution_ok [OF d m step.hyps(1)] step.IH step.hyps(3) show ?case
    by (cases c; cases c') (auto dest: exec_step_called)
qed (simp_all add: outputs_called_def execute_start_def stop_run_def Let_def)

text \<open>What a call in the history received, and where an output comes from.\<close>

lemma call_received:
  assumes d: "compiled (wreq_definition req)" and m: "0 < m" and e: "execution req m (pc, now, st) acts"
    and call: "call \<in> set (calls acts)"
  obtains step where "wf_step (wreq_definition req) (call_step_id call) = Some step"
    and "call_for req (call_step_id call) step call"
    and "gather_dependencies (rs_outputs st) (def_needs step) = Some (call_dependencies call)"
proof -
  have "call_of_step req st (call_step_id call) call"
    using execution_parts(7) [OF d m e] call unfolding crossings_ok_def by blast
  then obtain step deps n where step: "wf_step (wreq_definition req) (call_step_id call) = Some step"
    and deps: "gather_dependencies (rs_outputs st) (def_needs step) = Some deps"
    and c: "call = make_call req (call_step_id call) (def_job step) deps (child_token (run_token req) n)"
    unfolding call_of_step_def by blast
  have "call_dependencies call = deps" using arg_cong [OF c, of call_dependencies] by (simp add: make_call_def)
  moreover have "call_for req (call_step_id call) step call"
    using gathered_keys [OF d step deps] \<open>call_dependencies call = deps\<close>
      arg_cong [OF c, of call_job] arg_cong [OF c, of call_input] arg_cong [OF c, of call_run_id]
      arg_cong [OF c, of call_workflow_id] arg_cong [OF c, of call_workflow_version] arg_cong [OF c, of call_deadline]
    by (simp add: call_for_def make_call_def)
  ultimately show ?thesis using step deps that by blast
qed

lemma output_call:
  assumes "compiled (wreq_definition req)" and "0 < m" and "execution req m (pc, now, st) acts"
    and "settles_by answers acts" and "map_of (rs_outputs st) k = Some v"
  obtains call where "call \<in> set (calls acts)" and "call_step_id call = k" and "answers call (Inr v)"
proof -
  have taken: "(k, Settled (Inr v)) \<in> set (takes acts)"
    using execution_parts(6) [OF assms(1-3)] assms(5) by (simp add: flows_ok_def)
  then obtain call where "call \<in> set (calls acts)" "call_step_id call = k"
    using execution_called [OF assms(1-3)] by (fastforce simp: outputs_called_def)
  with taken assms(4) that show ?thesis by (auto simp: settles_by_def)
qed

lemma nodes_have_steps: "k \<in> set (graph_nodes d) \<longleftrightarrow> wf_step d k \<noteq> None"
  by (simp add: graph_nodes_def bt_keys_eq_dom wf_step_def domIff)

lemma graph_needs_step: "wf_step d k = Some step \<Longrightarrow> graph_needs d k = def_needs step"
  by (simp add: graph_needs_def needs_of_def wf_step_def)

lemma output_computed:
  assumes d: "compiled (wreq_definition req)" and "0 < m" and e: "execution req m (pc, now, st) acts"
    and "settles_by answers acts" and "map_of (rs_outputs st) k = Some v"
  shows "computes answers req k v"
proof -
  let ?order = "wf_order (wreq_definition req)"
  have by_position: "computes answers req (?order ! i) v" if "i < length ?order" "map_of (rs_outputs st) (?order ! i) = Some v" for i v
    using that
  proof (induction i arbitrary: v rule: less_induct)
    case (less i)
    obtain call where call: "call \<in> set (calls acts)" "call_step_id call = ?order ! i" "answers call (Inr v)"
      by (rule output_call [OF assms(1-4) less.prems(2)])
    obtain step where step: "wf_step (wreq_definition req) (?order ! i) = Some step" "call_for req (?order ! i) step call"
      and deps: "gather_dependencies (rs_outputs st) (def_needs step) = Some (call_dependencies call)"
      using call_received [OF assms(1-3) call(1)] call(2) by metis
    show ?case
    proof (rule computes.step_value [where answers = answers and call = call, OF step])
      show "answers call (Inr v)" by (rule call(3))
      fix n w
      assume "map_of (call_dependencies call) n = Some w"
      then have n: "n \<in> set (def_needs step)" "map_of (rs_outputs st) n = Some w"
        using gather_Some [OF deps] by (auto split: if_splits)
      have "n \<in> set (take i ?order)"
        using graph.order_needs [OF d less.prems(1)] n(1) graph_needs_step [OF step(1)] by auto
      then obtain j where "j < i" "?order ! j = n" "j < length ?order"
        by (auto simp: in_set_conv_nth)
      with less.IH [of j w] n(2) show "computes answers req n w" by simp
    qed
  qed
  obtain call where "call \<in> set (calls acts)" "call_step_id call = k" by (rule output_call [OF assms(1-5)])
  then obtain step where "wf_step (wreq_definition req) k = Some step" using call_received [OF assms(1-3)] by metis
  then have "k \<in> set ?order" using graph.order_nodes [OF d] nodes_have_steps [of k "wreq_definition req"] by simp
  then obtain i where "i < length ?order" "?order ! i = k" by (auto simp: in_set_conv_nth)
  with by_position assms(5) show ?thesis by blast
qed

section \<open>Every run computes the reference\<close>

lemma sequential_matches:
  fixes f :: "step_id \<Rightarrow> 'j \<Rightarrow> (step_id, 'o) btree_map \<Rightarrow> 'e + 'o" and req :: "('i, 'j) workflow_request"
  assumes d: "compiled (wreq_definition req)" and "0 < m" and "execution req m (pc, now, st) acts"
    and by_f: "settles_by (functional_answers f) acts" and bt: "bt_wf (rs_outputs st)"
    and all: "set (graph_nodes (wreq_definition req)) = set (bt_keys (rs_outputs st))"
    and "wf_order (wreq_definition req) = pre @ ks" and "bt_wf outs"
    and "\<And>k. map_of outs k = (if k \<in> set pre then map_of (rs_outputs st) k else None)"
  shows "sequential f (wreq_definition req) ks outs = Some (rs_outputs st)"
  using assms(7-)
proof (induction ks arbitrary: pre outs)
  case Nil
  have "map_of outs = map_of (rs_outputs st)"
  proof
    fix k
    show "map_of outs k = map_of (rs_outputs st) k"
      using Nil(1,3) graph.order_nodes [OF d] all by (auto simp: bt_keys_eq_dom)
  qed
  with bt_eqI [OF Nil.prems(2) bt] show ?case by simp
next
  case (Cons k ks)
  have "k \<in> set (graph_nodes (wreq_definition req))" using Cons.prems(1) graph.order_nodes [OF d] by auto
  then obtain v where v: "map_of (rs_outputs st) k = Some v" using all by (auto simp: bt_keys_eq_dom)
  obtain call where call: "call \<in> set (calls acts)" "call_step_id call = k" "functional_answers f call (Inr v)"
    by (rule output_call [OF assms(1-4) v])
  obtain step where step: "wf_step (wreq_definition req) k = Some step" "call_for req k step call"
    and deps: "gather_dependencies (rs_outputs st) (def_needs step) = Some (call_dependencies call)"
    using call_received [OF assms(1-3) call(1)] call(2) by metis
  have "set (def_needs step) \<subseteq> set pre"
    using graph.order_needs [OF d, of "length pre"] Cons.prems(1) graph_needs_step [OF step(1)] by simp
  then have gathered: "gather_dependencies outs (def_needs step) = Some (call_dependencies call)"
    unfolding deps [symmetric] by (intro gather_cong) (auto simp: Cons.prems(3))
  have "f k (def_job step) (call_dependencies call) = Inr v"
    using call(2,3) step(2) by (simp add: functional_answers_def call_for_def)
  moreover have "sequential f (wreq_definition req) ks (bt_insert k v outs) = Some (rs_outputs st)"
    using Cons.prems v by (intro Cons.IH [of "pre @ [k]"]) (auto simp: bt_wf_insert map_of_bt_insert)
  ultimately show ?case by (simp add: step gathered)
qed

lemma returned_sequential:
  fixes f :: "step_id \<Rightarrow> 'j \<Rightarrow> (step_id, 'o) btree_map \<Rightarrow> 'e + 'o" and req :: "('i, 'j) workflow_request"
  assumes "compiled (wreq_definition req)" and "0 < m" and "execution req m (Returned (Inr out), now, st) acts"
    and "settles_by (functional_answers f) acts"
  shows "sequential f (wreq_definition req) (wf_order (wreq_definition req)) [] = Some (wo_outputs out)"
proof -
  note facts = returned_outcome [OF assms(1-3)]
  have bt: "bt_wf (rs_outputs st)" using execution_parts(1) [OF assms(1-3)] by (simp add: partition_ok_def)
  show ?thesis
    unfolding facts(3) using facts(2)
    by (intro sequential_matches [OF assms bt, where pre = "[]"]) simp_all
qed

text \<open>Every output a run takes, at any moment and whether or not the run succeeds, is the value the
  definition gives its step: the step was called with its own job and with the values its direct needs
  have, and the dispatcher answered that call with it.\<close>

theorem outputs_are_computed:
  assumes "compiled (wreq_definition req)" and "0 < m" and "execution req m (pc, now, st) acts"
    and "settles_by answers acts" and "(k, Settled (Inr v)) \<in> set (takes acts)"
  shows "computes answers req k v"
  using output_computed [OF assms(1-4)] taken_outputs [OF execution_parts(6) [OF assms(1-3)]] assms(5) by blast

text \<open>A dispatcher that multiplies the job by ten, and a run of the diamond that settles by it.\<close>

definition tenfold :: "step_id \<Rightarrow> nat \<Rightarrow> (step_id, nat) btree_map \<Rightarrow> string + nat" where
  "tenfold k job deps = Inr (10 * job)"

lemma diamond_tenfold:
  "\<exists>(st :: diamond_state) acts. execution diamond_request 2 (Returned (Inr diamond_outcome), 0, st) acts
     \<and> settles_by (functional_answers tenfold) acts \<and> (''d'', Settled (Inr 40)) \<in> set (takes acts)"
proof -
  have "\<exists>(st :: diamond_state) acts. execution diamond_request 2 (Returned (Inr diamond_outcome), 0, st) acts \<and> rs_in_flight st = []
     \<and> (map (\<lambda>c. (call_step_id c, call_job c)) (calls acts), takes acts)
      = ([(''a'', 1), (''b'', 2), (''c'', 3), (''d'', 4)],
         [(''a'', Settled (Inr 10)), (''c'', Settled (Inr 30)), (''b'', Settled (Inr 20)), (''d'', Settled (Inr 40))])"
    by (rule diamond_run [of _ diamond_success]) code_simp
  then obtain st :: diamond_state and acts where e: "execution diamond_request 2 (Returned (Inr diamond_outcome), 0, st) acts"
    and seen: "map (\<lambda>c. (call_step_id c, call_job c)) (calls acts) = [(''a'', 1), (''b'', 2), (''c'', 3), (''d'', 4)]"
      "takes acts = [(''a'', Settled (Inr 10)), (''c'', Settled (Inr 30)), (''b'', Settled (Inr 20)), (''d'', Settled (Inr 40))]"
    by auto
  have "(call_step_id c, call_job c) \<in> {(''a'', 1), (''b'', 2), (''c'', 3), (''d'', 4)}" if "c \<in> set (calls acts)" for c
    using image_eqI [of _ "\<lambda>c. (call_step_id c, call_job c)" c "set (calls acts)"] that
    unfolding set_map [symmetric] seen(1) by auto
  then have "settles_by (functional_answers tenfold) acts"
    using seen by (fastforce simp: settles_by_def functional_answers_def tenfold_def)
  moreover have "(''d'', Settled (Inr 40)) \<in> set (takes acts)" by (simp add: seen(2))
  ultimately show ?thesis using e by blast
qed

theorem outputs_are_computed_witness:
  "computes (functional_answers tenfold) diamond_request ''d'' 40"
proof -
  obtain st :: diamond_state and acts where e: "execution diamond_request 2 (Returned (Inr diamond_outcome), 0, st) acts"
    and s: "settles_by (functional_answers tenfold) acts" "(''d'', Settled (Inr 40)) \<in> set (takes acts)"
    using diamond_tenfold by blast
  show ?thesis by (rule outputs_are_computed [OF diamond_compiled zero_less_numeral e s])
qed

text \<open>C40: a run that returns an outcome, whatever its concurrency, schedule and clock, returns the outputs of
  evaluating the steps one after the other in the compiled order, when what the dispatcher answers is a
  function of the step, its job and the values of its needs.\<close>

theorem run_is_sequential:
  fixes f :: "step_id \<Rightarrow> 'j \<Rightarrow> (step_id, 'o) btree_map \<Rightarrow> 'e + 'o" and req :: "('i, 'j) workflow_request"
  assumes "compiled (wreq_definition req)" and "0 < m" and "execution req m (Returned (Inr out), now, st) acts"
    and "settles_by (functional_answers f) acts"
  shows "sequential f (wreq_definition req) (wf_order (wreq_definition req)) [] = Some (wo_outputs out)"
  by (rule returned_sequential [OF assms])

theorem run_is_sequential_witness:
  "sequential tenfold (wreq_definition diamond_request) (wf_order (wreq_definition diamond_request)) []
     = Some [(''a'', 10), (''b'', 20), (''c'', 30), (''d'', 40)]"
proof -
  obtain st :: diamond_state and acts where e: "execution diamond_request 2 (Returned (Inr diamond_outcome), 0, st) acts"
    and s: "settles_by (functional_answers tenfold) acts"
    using diamond_tenfold by blast
  from run_is_sequential [OF diamond_compiled zero_less_numeral e s] show ?thesis by (simp add: diamond_outcome_def)
qed

text \<open>Two runs of one request with different concurrency, schedules and clocks agree.\<close>

corollary schedules_agree:
  fixes f :: "step_id \<Rightarrow> 'j \<Rightarrow> (step_id, 'o) btree_map \<Rightarrow> 'e + 'o" and req :: "('i, 'j) workflow_request"
  assumes "compiled (wreq_definition req)" and "0 < m" and "0 < m'"
    and "execution req m (Returned (Inr out), now, st) acts" and "settles_by (functional_answers f) acts"
    and "execution req m' (Returned (Inr out'), now', st') acts'" and "settles_by (functional_answers f) acts'"
  shows "wo_outputs out = wo_outputs out'"
  using returned_sequential [OF assms(1,2,4,5)] returned_sequential [OF assms(1,3,6,7)] by simp

end
