(* ===== verification/Review_Shape.thy ===== *)
theory Review_Shape
  imports Workflow_Authored Workflow_Dataflow
begin

text \<open>
  The shape both reviews of the repository have (\<^verbatim>\<open>fake_fanout.rs\<close> and \<^verbatim>\<open>apalis-local/src/main.rs\<close>): two
  independent steps and a step that needs both. The definition the compiler makes of it, for any three jobs, and a
  run of it that the examples instantiate.
\<close>

section \<open>The compiled definition\<close>

definition join_definition :: "'j \<Rightarrow> 'j \<Rightarrow> 'j \<Rightarrow> 'j workflow_definition" where
  "join_definition ja jv js =
     \<lparr>wf_id = ''repository-review'', wf_version = ''v1'',
      wf_steps = [(''architecture'', \<lparr>def_id = ''architecture'', def_needs = [], def_job = ja\<rparr>),
        (''synthesize'', \<lparr>def_id = ''synthesize'', def_needs = [''architecture'', ''verification''], def_job = js\<rparr>),
        (''verification'', \<lparr>def_id = ''verification'', def_needs = [], def_job = jv\<rparr>)],
      wf_order = [''architecture'', ''verification'', ''synthesize'']\<rparr>"

lemma join_compiled:
  fixes ja jv js :: "'j :: equal"
  shows "compile ''repository-review'' ''v1'' [step_spec_new ''architecture'' ja, step_spec_new ''verification'' jv,
    step_spec_needs (step_spec_new ''synthesize'' js) [''architecture'', ''verification'']] = Some (Inr (join_definition ja jv js))"
  by code_simp

section \<open>A run\<close>

text \<open>Both roots in flight together, the second one first to settle.\<close>

definition join_schedule :: "'o \<Rightarrow> 'o \<Rightarrow> 'o \<Rightarrow> ('o, 'e) choice list" where
  "join_schedule a v s =
     [SchedulerStep, SchedulerStep, SchedulerStep, SchedulerStep,
      DispatcherReady ''architecture'' ReadyOk, DispatcherReady ''verification'' ReadyOk,
      CrossBoundary ''architecture'', CrossBoundary ''verification'',
      CallSettles ''verification'' (Inr v), TakeCompleted ''verification'', SchedulerStep, SchedulerStep,
      CallSettles ''architecture'' (Inr a), TakeCompleted ''architecture'', SchedulerStep, SchedulerStep, SchedulerStep,
      DispatcherReady ''synthesize'' ReadyOk, CrossBoundary ''synthesize'', CallSettles ''synthesize'' (Inr s),
      TakeCompleted ''synthesize'', SchedulerStep]"

text \<open>The request at instant 0, with a deadline in the future or none.\<close>

definition join_request :: "run_id \<Rightarrow> nat option \<Rightarrow> 'i \<Rightarrow> 'j \<Rightarrow> 'j \<Rightarrow> 'j \<Rightarrow> ('i, 'j) workflow_request" where
  "join_request run soon i ja jv js =
     \<lparr>wreq_context = (workflow_context_new run [7])\<lparr>wctx_deadline := map_option Suc soon\<rparr>,
      wreq_definition = join_definition ja jv js, wreq_input = i\<rparr>"

definition join_outgoing :: "(step_id, step_id list) btree_map" where
  "join_outgoing = [(''architecture'', [''synthesize'']), (''synthesize'', []), (''verification'', [''synthesize''])]"

lemma join_outgoing: "execute_outgoing (join_definition ja jv js) = Some join_outgoing"
  by code_simp

definition join_start :: "run_id \<Rightarrow> nat option \<Rightarrow> 'i \<Rightarrow> 'j \<Rightarrow> 'j \<Rightarrow> 'j \<Rightarrow> ('i, 'j, 'o, 'e) config" where
  "join_start run soon i ja jv js = (Filling, 0, execute_start (join_request run soon i ja jv js) [] 0)"


lemma join_run:
  fixes run :: run_id and soon :: "nat option" and i :: "'i :: equal" and ja jv js :: "'j :: equal" and a v s :: "'o :: equal"
  shows "map_option (\<lambda>((pc, now, st), acts). (pc, now, map (\<lambda>c. (call_step_id c, call_job c, call_dependencies c)) (calls acts), takes acts))
     (exec_run (join_request run soon i ja jv js) 2 join_outgoing (join_schedule a v s) (join_start run soon i ja jv js :: ('i, 'j, 'o, 'e :: equal) config)) =
   Some (Returned (Inr \<lparr>wo_run_id = run, wo_workflow_id = ''repository-review'', wo_workflow_version = ''v1'',
       wo_outputs = [(''architecture'', a), (''synthesize'', s), (''verification'', v)], wo_leaf_outputs = [(''synthesize'', s)]\<rparr>), 0,
     [(''architecture'', ja, []), (''verification'', jv, []), (''synthesize'', js, [(''architecture'', a), (''verification'', v)])],
     [(''verification'', Settled (Inr v)), (''architecture'', Settled (Inr a)), (''synthesize'', Settled (Inr s))])"
  by (induct soon; code_simp)

lemma join_execution:
  fixes run :: run_id and soon :: "nat option" and i :: "'i :: equal" and ja jv js :: "'j :: equal" and a v s :: "'o :: equal"
  shows "\<exists>(st :: ('i, 'j, 'o, 'e :: equal) run_state) acts outcome.
     execution (join_request run soon i ja jv js) 2 (Returned (Inr outcome), 0, st) acts
     \<and> map (\<lambda>c. (call_step_id c, call_job c, call_dependencies c)) (calls acts) =
         [(''architecture'', ja, []), (''verification'', jv, []), (''synthesize'', js, [(''architecture'', a), (''verification'', v)])]
     \<and> takes acts = [(''verification'', Settled (Inr v)), (''architecture'', Settled (Inr a)), (''synthesize'', Settled (Inr s))]"
proof -
  let ?start = "execute_start (join_request run soon i ja jv js) [] 0 :: ('i, 'j, 'o, 'e :: equal) run_state"
  have out: "execute_outgoing (wreq_definition (join_request run soon i ja jv js)) = Some join_outgoing"
    by (simp add: join_request_def join_outgoing)
  have "execution (join_request run soon i ja jv js) 2 (join_start run soon i ja jv js) (stop_actions (?start\<lparr>rs_stop := None\<rparr>) ?start)"
    unfolding join_start_def by (rule execution.start) (simp_all add: out)
  moreover have "stop_actions (?start\<lparr>rs_stop := None\<rparr>) ?start = []" by (induct soon; code_simp)
  ultimately have start: "execution (join_request run soon i ja jv js) 2 (join_start run soon i ja jv js :: ('i, 'j, 'o, 'e :: equal) config) []" by simp
  obtain pc now st acts where ran: "exec_run (join_request run soon i ja jv js) 2 join_outgoing (join_schedule a v s)
      (join_start run soon i ja jv js :: ('i, 'j, 'o, 'e :: equal) config) = Some ((pc, now, st), acts)"
    using join_run [where 'e = 'e, of run soon i ja jv js a v s] by auto
  note facts = join_run [where 'e = 'e, of run soon i ja jv js a v s, unfolded ran option.map prod.case option.inject prod.inject]
  have "execution (join_request run soon i ja jv js) 2 (pc, now, st) acts" using execution_exec_run [OF start out ran] by simp
  note e = this [unfolded facts [THEN conjunct1] facts [THEN conjunct2, THEN conjunct1]]
  show ?thesis
    by (intro exI conjI, rule e)
      (rule facts [THEN conjunct2, THEN conjunct2, THEN conjunct1] facts [THEN conjunct2, THEN conjunct2, THEN conjunct2])+
qed

section \<open>What a returned run has\<close>

lemma join_leaves: "map def_id (wf_leaves (join_definition ja jv js)) = [''synthesize'']"
  by code_simp

lemma join_returned:
  assumes "compiled (wreq_definition req)" and d: "wreq_definition req = join_definition ja jv js" and "0 < m"
    and e: "execution req m (Returned (Inr out), now, st) acts"
  obtains a s v where "wo_outputs out = [(''architecture'', a), (''synthesize'', s), (''verification'', v)]"
    and "wo_leaf_outputs out = [(''synthesize'', s)]" and "rs_outputs st = wo_outputs out"
    and "wo_run_id out = wctx_run_id (wreq_context req)" and "wo_workflow_id out = ''repository-review''"
    and "wo_workflow_version out = ''v1''"
proof -
  note facts = returned_outcome [OF assms(1,3) e]
  have "map fst (wo_outputs out) = [''architecture'', ''synthesize'', ''verification'']"
    using facts(2) by (simp add: facts(3) d bt_keys_def graph_nodes_def join_definition_def)
  then obtain a s v where outs: "wo_outputs out = [(''architecture'', a), (''synthesize'', s), (''verification'', v)]"
    by (auto simp: map_eq_Cons_conv)
  have "gather_dependencies (wo_outputs out) [''synthesize''] = Some (wo_leaf_outputs out)"
    using facts(4) by (simp add: facts(3) d join_leaves)
  then have "wo_leaf_outputs out = [(''synthesize'', s)]" by (simp add: outs)
  moreover have "execute_finish req st = Some (Inr out)"
    using execution_parts(5) [OF assms(1,3) e] by (simp add: pc_ok_def)
  then have "wo_run_id out = wctx_run_id (wreq_context req) \<and> wo_workflow_id out = wf_id (wreq_definition req)
      \<and> wo_workflow_version out = wf_version (wreq_definition req)"
    by (auto simp: execute_finish_def Let_def facts(1) split: option.splits if_splits)
  ultimately show ?thesis using that outs facts(3) by (simp add: d join_definition_def)
qed

end
