(* ===== verification/Fanout.thy ===== *)
theory Fanout
  imports Layered_Fake Review_Shape
begin

text \<open>
  \<^verbatim>\<open>crates/tower-agent-workflow/examples/fake_fanout.rs\<close>: a repository review fanned out to two fake providers
  behind their layers, and a synthesis that resumes the architect's session on both results. The fakes'
  environments are arguments; the workflow runner is that of \<open>Workflow_Execution\<close>, and what the program prints
  follows from \<open>Workflow_Dataflow\<close> for every schedule.
\<close>

section \<open>The program\<close>

definition architect_name :: string where
  "architect_name = ''fake-architect''"

definition verifier_name :: string where
  "verifier_name = ''fake-verifier''"

record fanout_input =
  fr_repository :: string
  fr_objective :: string

datatype 'v fanout_job = Architecture "'v fake_options" | Verification "'v fake_options" | Synthesize

type_synonym 'v fanout_call = "(fanout_input, 'v fanout_job, 'v turn_outcome) step_call"

text \<open>The cost literals as bit patterns: 0.012, 0.009 and 0.004.\<close>

definition cost_12_milli :: f64 where
  "cost_12_milli = 4578071150808694522"

definition cost_9_milli :: f64 where
  "cost_9_milli = 4576341768551784251"

definition cost_4_milli :: f64 where
  "cost_4_milli = 4571261708172110332"

definition review_outcome :: "string \<Rightarrow> string \<Rightarrow> string \<Rightarrow> u64 \<Rightarrow> f64 \<Rightarrow> 'v turn_outcome" where
  "review_outcome provider session output tokens usd =
     (turn_outcome_new output)
       \<lparr>out_session := Some (session_handle_new provider session),
        out_usage := Some (token_usage_default\<lparr>usage_output := Some tokens\<rparr>),
        out_cost := Some (cost_usd usd), out_provider_turns := Some 1\<rparr>"

definition architecture_review :: "'v turn_outcome" where
  "architecture_review =
     review_outcome architect_name ''architecture-session''
       ''The worker boundary is clean; keep orchestration outside provider adapters.'' 240 cost_12_milli"

definition verification_review :: "'v turn_outcome" where
  "verification_review =
     review_outcome verifier_name ''verification-session''
       ''Add cancellation, deadline, dependency, and typed-routing conformance tests.'' 180 cost_9_milli"

definition fanout_workflow :: "(workflow_definition_error + 'v fanout_job workflow_definition) option" where
  "fanout_workflow =
     dag_build (builder_push (builder_push (builder_push (builder_new ''repository-review'' ''v1'')
       (step_spec_new ''architecture'' (Architecture
         (fake_with_script (fake_succeed architecture_review) [FakeDelay (duration_from_millis 30)]))))
       (step_spec_new ''verification'' (Verification
         (fake_with_script (fake_succeed verification_review) [FakeDelay (duration_from_millis 20)]))))
       (step_spec_needs (step_spec_new ''synthesize'' Synthesize) [''architecture'', ''verification'']))"

definition fanout_dependency :: "'v fanout_call \<Rightarrow> string \<Rightarrow> agent_error + 'v turn_outcome" where
  "fanout_dependency call i =
     ok_or (invalid_request (''missing `'' @ i @ ''` dependency output'')) (map_of (call_dependencies call) i)"

text \<open>The provider a job goes to, and its turn.\<close>

definition fanout_turn :: "'v fanout_call \<Rightarrow> agent_error + (string \<times> 'v fake_options turn)" where
  "fanout_turn call =
     (case call_job call of
        Architecture options \<Rightarrow>
          Inr (architect_name, turn_with_options (turn_new
            (''Review the architecture of '' @ fr_repository (call_input call) @ '' for: '' @ fr_objective (call_input call))) options)
      | Verification options \<Rightarrow>
          Inr (verifier_name, turn_with_options (turn_new
            (''Design a verification plan for '' @ fr_repository (call_input call) @ '' covering: '' @ fr_objective (call_input call)))
            options)
      | Synthesize \<Rightarrow>
          and_then (fanout_dependency call ''architecture'') (\<lambda>architecture.
          and_then (fanout_dependency call ''verification'') (\<lambda>verification.
          and_then (ok_or (invalid_request ''architecture output did not include a session'') (out_session architecture)) (\<lambda>session.
            let prompt = ''Synthesize the two reviews.'' @ [CHR 0x0A, CHR 0x0A] @ ''Architecture:'' @ [CHR 0x0A] @ out_output architecture
                  @ [CHR 0x0A, CHR 0x0A] @ ''Verification:'' @ [CHR 0x0A] @ out_output verification;
                options = fake_options_default
                  \<lparr>fake_output := Some (''Recommendation: incubate the workflow crate in-tree.'' @ [CHR 0x0A, CHR 0x0A]
                      @ out_output architecture @ [CHR 0x0A] @ out_output verification),
                   fake_simulated_tokens := Some 90, fake_simulated_cost_usd := Some cost_4_milli\<rparr>
            in Inr (architect_name, turn_resume (turn_with_options (turn_new prompt) options) session)))))"

definition fanout_dispatch :: "local_env \<Rightarrow> operation_id \<Rightarrow> token \<Rightarrow> 'v fanout_call \<Rightarrow> 'v turn_outcome ending \<times> bool" where
  "fanout_dispatch env op fresh call =
     (let context = agent_context op fresh call
      in case fanout_turn call of
           Inl e \<Rightarrow> (ending.Settled (Inl e), False)
         | Inr (provider, turn) \<Rightarrow> layered_fake env provider (agent_request_with_context turn context))"

definition fanout_request :: "'v fanout_job workflow_definition \<Rightarrow> token \<Rightarrow> (fanout_input, 'v fanout_job) workflow_request" where
  "fanout_request d fresh =
     \<lparr>wreq_context = workflow_context_new ''review-run-1'' fresh, wreq_definition = d,
      wreq_input = \<lparr>fr_repository = ''tower-agent'', fr_objective = ''generic multi-stage agent composition''\<rparr>\<rparr>"

text \<open>The lines \<open>main\<close> prints of an outcome; the index panics when the step is missing.\<close>

definition fanout_report :: "'v turn_outcome workflow_outcome \<Rightarrow> string list option" where
  "fanout_report outcome =
     map_option (\<lambda>synthesis.
       out_output synthesis #
         (case out_session synthesis of
            None \<Rightarrow> []
          | Some session \<Rightarrow> [[CHR 0x0A] @ ''resumed provider: '' @ handle_provider session]))
       (map_of (wo_outputs outcome) ''synthesize'')"

section \<open>The workflow\<close>

definition fanout_specs :: "'v fanout_job step_spec list" where
  "fanout_specs =
     [step_spec_new ''architecture'' (Architecture
        (fake_with_script (fake_succeed architecture_review) [FakeDelay (duration_from_millis 30)])),
      step_spec_new ''verification'' (Verification
        (fake_with_script (fake_succeed verification_review) [FakeDelay (duration_from_millis 20)])),
      step_spec_needs (step_spec_new ''synthesize'' Synthesize) [''architecture'', ''verification'']]"

lemma fanout_build: "fanout_workflow = compile ''repository-review'' ''v1'' fanout_specs"
  by (simp add: fanout_workflow_def fanout_specs_def dag_build_def builder_push_def builder_new_def)

lemma fanout_well_formed: "well_formed ''repository-review'' ''v1'' fanout_specs"
proof -
  have ids: "valid_id ''repository-review''" "valid_id ''v1''" "valid_id ''architecture''" "valid_id ''verification''" "valid_id ''synthesize''"
    by code_simp+
  have "authored_order fanout_specs [''architecture'', ''verification'', ''synthesize'']"
    by (auto simp: authored_order_def fanout_specs_def step_spec_new_def step_spec_needs_def less_Suc_eq nth_Cons')
  then show ?thesis
    using ids by (auto simp: well_formed_def spec_ok_def fanout_specs_def step_spec_new_def step_spec_needs_def)
qed

lemma fanout_compiles: "\<exists>d. fanout_workflow = Some (Inr d)"
  using fanout_well_formed by (auto simp: fanout_build compile_Inr)

lemma fanout_steps:
  assumes "fanout_workflow = Some (Inr d)"
  shows "compiled d" and "wf_step d = map_of (map spec_entry fanout_specs)"
proof -
  have c: "compile ''repository-review'' ''v1'' fanout_specs = Some (Inr d)"
    using assms by (simp add: fanout_build)
  then show "compiled d" by (rule compile_compiled)
  have "distinct (map spec_id (fanout_specs :: 'a fanout_job step_spec list))"
    by (simp add: fanout_specs_def step_spec_new_def step_spec_needs_def)
  then show "wf_step d = map_of (map spec_entry fanout_specs)"
    using c map_of_insert_all [of "[]" fanout_specs]
    by (auto simp: compile_Inr wf_step_def bt_wf_def bt_keys_def fun_eq_iff)
qed

section \<open>Calls that nothing interferes with\<close>

text \<open>How the dispatcher may settle a call, in any environment that lets it run.\<close>

definition fanout_answers :: "'v fanout_call \<Rightarrow> agent_error + 'v turn_outcome \<Rightarrow> bool" where
  "fanout_answers call s \<longleftrightarrow>
     (\<exists>env op fresh. undisturbed env call \<and> fst (fanout_dispatch env op fresh call) = ending.Settled s)"

lemma fanout_names: "\<not> is_blank architect_name" "\<not> is_blank verifier_name"
  by (simp_all add: architect_name_def verifier_name_def not_blank leading_whitespace_def whitespace_encodings_def)

lemma fanout_prompts: "\<not> is_blank (''Review the architecture of '' @ s)" "\<not> is_blank (''Design a verification plan for '' @ s)"
    "\<not> is_blank (''Synthesize the two reviews.'' @ s)"
  by (rule not_blank; simp add: leading_whitespace_def whitespace_encodings_def)+

lemmas fanout_prompts_text [simp] = fanout_prompts [unfolded append_Cons append_Nil]

lemma fanout_called:
  assumes "undisturbed env call" and "fanout_turn call = Inr (provider, turn)" and "\<not> is_blank (turn_prompt turn)"
  shows "fst (fanout_dispatch env op fresh call) = ending.Settled
    (fst (call_fake (le_fake env) provider (agent_request_with_context turn (agent_context op fresh call))))"
  using layered_fake_undisturbed [OF assms(1,3)] by (simp add: fanout_dispatch_def assms(2) Let_def)

lemma fanout_validated:
  assumes "\<not> is_blank name" and "\<not> is_blank (turn_prompt turn)"
    and "\<And>s. turn_session turn = Some s \<Longrightarrow> handle_provider s = name"
  shows "fake_validate False name (agent_request_with_context turn (agent_context op fresh call)) = Inr ()"
  using assms by (simp add: fake_validate_Inr agent_request_with_context_def context_parts option_or_def split: option.split)

lemma fanout_root:
  assumes quiet: "undisturbed env call"
    and job: "call_job call = Architecture (fake_with_script (fake_succeed out) script)
      \<or> call_job call = Verification (fake_with_script (fake_succeed out) script)"
  shows "fst (fanout_dispatch env op fresh call) = ending.Settled (Inr out)"
proof -
  obtain name turn where turn: "fanout_turn call = Inr (name, turn)" "\<not> is_blank name" "\<not> is_blank (turn_prompt turn)"
    "turn_session turn = None" "turn_options turn = fake_with_script (fake_succeed out) script"
    using job fanout_names by (auto simp: fanout_turn_def turn_with_options_def turn_new_def)
  have "fst (call_fake (le_fake env) name (agent_request_with_context turn (agent_context op fresh call))) = Inr out"
    by (rule call_fake_succeed [OF _ _ fanout_validated turn(5)]) (use quiet turn in \<open>auto simp: undisturbed_def\<close>)
  then show ?thesis by (simp add: fanout_called [OF quiet turn(1,3)])
qed

lemma fanout_join:
  assumes quiet: "undisturbed env call" and "call_job call = Synthesize"
    and "map_of (call_dependencies call) ''architecture'' = Some oa" and "map_of (call_dependencies call) ''verification'' = Some ov"
    and session: "out_session oa = Some s" "handle_provider s = architect_name"
  shows "\<exists>out. fst (fanout_dispatch env op fresh call) = ending.Settled (Inr out) \<and> out_session out = Some s
    \<and> out_output out = ''Recommendation: incubate the workflow crate in-tree.'' @ [CHR 0x0A, CHR 0x0A] @ out_output oa @ [CHR 0x0A] @ out_output ov"
proof -
  let ?answer = "''Recommendation: incubate the workflow crate in-tree.'' @ [CHR 0x0A, CHR 0x0A] @ out_output oa @ [CHR 0x0A] @ out_output ov"
  obtain turn where turn: "fanout_turn call = Inr (architect_name, turn)" "\<not> is_blank (turn_prompt turn)" "turn_session turn = Some s"
    and options: "turn_options turn = fake_options_default\<lparr>fake_delay := None, fake_output := Some ?answer,
      fake_simulated_tokens := Some 90, fake_simulated_cost_usd := Some cost_4_milli\<rparr>"
    using assms
    by (simp add: fanout_turn_def fanout_dependency_def Let_def turn_with_options_def turn_new_def turn_resume_def fake_options_default_def)
  let ?request = "agent_request_with_context turn (agent_context op fresh call)"
  obtain out where out: "fst (call_fake (le_fake env) architect_name ?request) = Inr out" "out_output out = ?answer"
    by (rule call_fake_output [where env = "le_fake env" and name = architect_name and ctx = "agent_context op fresh call",
          OF _ _ fanout_names(1) turn(2) options])
      (use quiet turn session in \<open>auto simp: undisturbed_def context_parts\<close>)
  have "out_session out = Some s"
    using call_fake_session [OF out(1)] turn(3) options
    by (simp add: agent_request_with_context_def option_or_def fake_options_default_def)
  with out show ?thesis by (simp add: fanout_called [OF quiet turn(1,2)])
qed

section \<open>What the review computes\<close>

inductive_cases computesE: "computes answers req k v"

lemma fanout_jobs:
  assumes "fanout_workflow = Some (Inr d)" and "wf_step d k = Some step"
  shows "k = ''architecture'' \<Longrightarrow> def_job step =
      Architecture (fake_with_script (fake_succeed architecture_review) [FakeDelay (duration_from_millis 30)])"
    and "k = ''verification'' \<Longrightarrow> def_job step =
      Verification (fake_with_script (fake_succeed verification_review) [FakeDelay (duration_from_millis 20)])"
    and "k = ''synthesize'' \<Longrightarrow> def_job step = Synthesize \<and> set (def_needs step) = {''architecture'', ''verification''}"
    and "k \<in> {''architecture'', ''verification'', ''synthesize''}"
  using assms(2) unfolding fanout_steps(2) [OF assms(1)]
  by (auto simp: fanout_specs_def spec_entry_def spec_definition_def step_spec_new_def step_spec_needs_def split: if_splits)

text \<open>A root answers its review, whoever calls it with its job.\<close>

lemma root_answers:
  assumes "fanout_workflow = Some (Inr d)" and "wf_step d k = Some step" and "call_for req k step call" and "fanout_answers call s"
  shows "k = ''architecture'' \<Longrightarrow> s = Inr architecture_review" and "k = ''verification'' \<Longrightarrow> s = Inr verification_review"
  using assms(3,4) fanout_jobs [OF assms(1,2)]
  by (auto simp: fanout_answers_def call_for_def fanout_root)

lemma root_computes:
  assumes "fanout_workflow = Some (Inr d)" and "wreq_definition req = d" and "computes fanout_answers req k v"
  shows "k = ''architecture'' \<Longrightarrow> v = architecture_review" and "k = ''verification'' \<Longrightarrow> v = verification_review"
proof -
  obtain step call where step: "wf_step d k = Some step" "call_for req k step call" "fanout_answers call (Inr v)"
    using assms(3) unfolding assms(2) [symmetric] by (auto elim: computesE)
  show "k = ''architecture'' \<Longrightarrow> v = architecture_review" and "k = ''verification'' \<Longrightarrow> v = verification_review"
    using root_answers [OF assms(1) step] by simp_all
qed

text \<open>The synthesis answers once its dependencies are the two reviews.\<close>

lemma join_answers:
  assumes "call_job call = Synthesize" and "fanout_answers call s"
    and "map_of (call_dependencies call) ''architecture'' = Some architecture_review"
    and "map_of (call_dependencies call) ''verification'' = Some verification_review"
  obtains out where "s = Inr out" and "out_session out = Some (session_handle_new architect_name ''architecture-session'')"
    and "out_output out = ''Recommendation: incubate the workflow crate in-tree.'' @ [CHR 0x0A, CHR 0x0A]
      @ ''The worker boundary is clean; keep orchestration outside provider adapters.'' @ [CHR 0x0A]
      @ ''Add cancellation, deadline, dependency, and typed-routing conformance tests.''"
proof -
  obtain env op fresh where quiet: "undisturbed env call" and settled: "fst (fanout_dispatch env op fresh call) = ending.Settled s"
    using assms(2) by (auto simp: fanout_answers_def)
  have session: "out_session architecture_review = Some (session_handle_new architect_name ''architecture-session'')"
      "handle_provider (session_handle_new architect_name ''architecture-session'') = architect_name"
    by (simp_all add: architecture_review_def review_outcome_def session_handle_new_def)
  have texts: "out_output architecture_review = ''The worker boundary is clean; keep orchestration outside provider adapters.''"
      "out_output verification_review = ''Add cancellation, deadline, dependency, and typed-routing conformance tests.''"
    by (simp_all add: architecture_review_def verification_review_def review_outcome_def turn_outcome_new_def)
  show ?thesis
    using fanout_join [OF quiet assms(1,3,4) session, of op fresh] that unfolding settled texts by auto
qed

lemma join_needs:
  assumes w: "fanout_workflow = Some (Inr d)" and "wreq_definition req = d" and "wf_step d ''synthesize'' = Some step"
    and call: "call_for req ''synthesize'' step call"
    and deps: "\<And>n w. map_of (call_dependencies call) n = Some w \<Longrightarrow> computes fanout_answers req n w"
  shows "call_job call = Synthesize" and "map_of (call_dependencies call) ''architecture'' = Some architecture_review"
    and "map_of (call_dependencies call) ''verification'' = Some verification_review"
proof -
  note jobs = fanout_jobs(3) [OF w assms(3) refl]
  show "call_job call = Synthesize" using jobs call by (simp add: call_for_def)
  have "n \<in> dom (map_of (call_dependencies call))" if "n \<in> {''architecture'', ''verification''}" for n
    using call jobs that unfolding bt_keys_eq_dom [symmetric] by (simp add: call_for_def)
  from this [of "''architecture''"] this [of "''verification''"]
  obtain a b where ab: "map_of (call_dependencies call) ''architecture'' = Some a" "map_of (call_dependencies call) ''verification'' = Some b"
    by (simp add: domIff) metis
  have "a = architecture_review" by (rule root_computes(1) [OF w assms(2) deps [OF ab(1)] refl])
  moreover have "b = verification_review" by (rule root_computes(2) [OF w assms(2) deps [OF ab(2)] refl])
  ultimately show "map_of (call_dependencies call) ''architecture'' = Some architecture_review"
    and "map_of (call_dependencies call) ''verification'' = Some verification_review" using ab by simp_all
qed

lemma call_answers:
  assumes w: "fanout_workflow = Some (Inr d)" and "wreq_definition req = d" and step: "wf_step d k = Some step"
    and call: "call_for req k step call" and "fanout_answers call s"
    and deps: "\<And>n w. map_of (call_dependencies call) n = Some w \<Longrightarrow> computes fanout_answers req n w"
  obtains out where "s = Inr out"
    and "k = ''synthesize'' \<Longrightarrow> out_session out = Some (session_handle_new architect_name ''architecture-session'')"
    and "k = ''synthesize'' \<Longrightarrow> out_output out = ''Recommendation: incubate the workflow crate in-tree.'' @ [CHR 0x0A, CHR 0x0A]
      @ ''The worker boundary is clean; keep orchestration outside provider adapters.'' @ [CHR 0x0A]
      @ ''Add cancellation, deadline, dependency, and typed-routing conformance tests.''"
proof (cases "k = ''synthesize''")
  case True
  note needs = join_needs [OF w assms(2) step [unfolded True] call [unfolded True] deps]
  show ?thesis by (rule join_answers [OF needs(1) assms(5) needs(2,3)]) (use that in auto)
next
  case False
  then show ?thesis
    using fanout_jobs(4) [OF w step] root_answers [OF w step call assms(5)] that by auto
qed

section \<open>Theorems\<close>

text \<open>
  In every run of the example, whatever the schedule of the two reviews, no step fails: what the dispatcher
  answers to a call of the run is an outcome. And a run that returns an outcome reports the fixed
  recommendation, with both reviews in it, in the architect's session.
\<close>

theorem fanout_recommends:
  fixes d :: "'v fanout_job workflow_definition"
  assumes "fanout_workflow = Some (Inr d)" and "0 < m"
    and "execution (fanout_request d fresh) m (pc, now, st) acts" and "settles_by fanout_answers acts"
  shows "(\<forall>call \<in> set (calls acts). \<forall>s. fanout_answers call s \<longrightarrow> (\<exists>out. s = Inr out))
    \<and> (case pc of
         Returned (Inr outcome) \<Rightarrow> fanout_report outcome =
           Some [''Recommendation: incubate the workflow crate in-tree.'' @ [CHR 0x0A, CHR 0x0A]
               @ ''The worker boundary is clean; keep orchestration outside provider adapters.'' @ [CHR 0x0A]
               @ ''Add cancellation, deadline, dependency, and typed-routing conformance tests.'',
             [CHR 0x0A] @ ''resumed provider: fake-architect'']
       | _ \<Rightarrow> True)"
proof -
  have def: "wreq_definition (fanout_request d fresh) = d" by (simp add: fanout_request_def)
  have compiled: "compiled (wreq_definition (fanout_request d fresh))" using fanout_steps(1) [OF assms(1)] by (simp add: def)
  have "\<exists>out. s = Inr out" if call: "call \<in> set (calls acts)" and s: "fanout_answers call s" for call s
  proof -
    obtain step where step: "wf_step d (call_step_id call) = Some step" "call_for (fanout_request d fresh) (call_step_id call) step call"
      and deps: "gather_dependencies (rs_outputs st) (def_needs step) = Some (call_dependencies call)"
      using call_received [OF compiled assms(2,3) call] unfolding def by blast
    have "computes fanout_answers (fanout_request d fresh) n w" if "map_of (call_dependencies call) n = Some w" for n w
      using that gather_Some [OF deps] output_computed [OF compiled assms(2-4), of n w] by (simp split: if_splits)
    then show ?thesis using call_answers [OF assms(1) def step s] by metis
  qed
  moreover have "case pc of Returned (Inr outcome) \<Rightarrow> fanout_report outcome =
           Some [''Recommendation: incubate the workflow crate in-tree.'' @ [CHR 0x0A, CHR 0x0A]
               @ ''The worker boundary is clean; keep orchestration outside provider adapters.'' @ [CHR 0x0A]
               @ ''Add cancellation, deadline, dependency, and typed-routing conformance tests.'',
             [CHR 0x0A] @ ''resumed provider: fake-architect'']
       | _ \<Rightarrow> True"
  proof (cases "\<exists>outcome. pc = Returned (Inr outcome)")
    case True
    then obtain outcome where pc: "pc = Returned (Inr outcome)" by blast
    note facts = returned_outcome [OF compiled assms(2) assms(3) [unfolded pc]]
    have "''synthesize'' \<in> set (bt_keys (rs_outputs st))"
      unfolding facts(2) nodes_have_steps def fanout_steps(2) [OF assms(1)]
      by (simp add: fanout_specs_def spec_entry_def step_spec_new_def step_spec_needs_def)
    then obtain v where v: "map_of (rs_outputs st) ''synthesize'' = Some v" by (auto simp: bt_keys_eq_dom)
    have computed: "computes fanout_answers (fanout_request d fresh) ''synthesize'' v"
      by (rule output_computed [OF compiled assms(2-4) v])
    obtain step call where step: "wf_step d ''synthesize'' = Some step" "call_for (fanout_request d fresh) ''synthesize'' step call"
      and a: "fanout_answers call (Inr v)"
      and deps: "\<And>n w. map_of (call_dependencies call) n = Some w \<Longrightarrow> computes fanout_answers (fanout_request d fresh) n w"
      by (rule computesE [OF computed]) (use def that in auto)
    obtain out where "Inr v = (Inr out :: agent_error + 'v turn_outcome)"
      and "out_session out = Some (session_handle_new architect_name ''architecture-session'')"
      and "out_output out = ''Recommendation: incubate the workflow crate in-tree.'' @ [CHR 0x0A, CHR 0x0A]
        @ ''The worker boundary is clean; keep orchestration outside provider adapters.'' @ [CHR 0x0A]
        @ ''Add cancellation, deadline, dependency, and typed-routing conformance tests.''"
      by (rule call_answers [OF assms(1) def step a deps]) auto
    then show ?thesis
      by (simp add: pc fanout_report_def facts(3) v session_handle_new_def architect_name_def)
  qed (auto split: program_point.split sum.split)
  ultimately show ?thesis by blast
qed

section \<open>Witness\<close>

text \<open>What the synthesis of the two reviews settles with in the quiet environment.\<close>

definition quiet_synthesis :: "'v turn_outcome" where
  "quiet_synthesis =
     (turn_outcome_new (''Recommendation: incubate the workflow crate in-tree.'' @ [CHR 0x0A, CHR 0x0A]
        @ out_output (architecture_review :: 'v turn_outcome) @ [CHR 0x0A] @ out_output (verification_review :: 'v turn_outcome)))
       \<lparr>out_session := out_session (architecture_review :: 'v turn_outcome),
        out_usage := Some (token_usage_default\<lparr>usage_output := Some 90\<rparr>), out_cost := Some (cost_usd cost_4_milli),
        out_duration := Some 5, out_provider_turns := Some 1\<rparr>"

lemma quiet_join:
  fixes call :: "'v fanout_call"
  assumes "undisturbed quiet_env call" and "call_job call = Synthesize"
    and "call_dependencies call = [(''architecture'', architecture_review), (''verification'', verification_review)]"
  shows "fst (fanout_dispatch quiet_env op fresh call) = ending.Settled (Inr quiet_synthesis)"
proof -
  let ?session = "session_handle_new architect_name ''architecture-session''"
  have session: "out_session (architecture_review :: 'v turn_outcome) = Some ?session" "handle_provider ?session = architect_name"
    by (simp_all add: architecture_review_def review_outcome_def session_handle_new_def)
  obtain turn where turn: "fanout_turn call = Inr (architect_name, turn)" "\<not> is_blank (turn_prompt turn)" "turn_session turn = Some ?session"
    and options: "turn_options turn = fake_options_default
      \<lparr>fake_output := Some (''Recommendation: incubate the workflow crate in-tree.'' @ [CHR 0x0A, CHR 0x0A]
        @ out_output (architecture_review :: 'v turn_outcome) @ [CHR 0x0A] @ out_output (verification_review :: 'v turn_outcome)),
       fake_simulated_tokens := Some 90, fake_simulated_cost_usd := Some cost_4_milli\<rparr>"
    using assms(2,3) session(1)
    by (simp add: fanout_turn_def fanout_dependency_def Let_def turn_with_options_def turn_new_def turn_resume_def)
  have "fake_validate False architect_name (agent_request_with_context turn (agent_context op fresh call)) = Inr ()"
    by (rule fanout_validated [OF fanout_names(1) turn(2)]) (use turn(3) session(2) in auto)
  then have "fst (call_fake (le_fake quiet_env) architect_name (agent_request_with_context turn (agent_context op fresh call))) = Inr quiet_synthesis"
    using turn(3) options
    by (simp add: call_fake_def fake_settle_def quiet_env_def fake_options_default_def agent_request_with_context_def option_or_def
        context_parts Let_def quiet_synthesis_def session(1))
  then show ?thesis by (simp add: fanout_called [OF assms(1) turn(1,2)])
qed

theorem fanout_recommends_witness:
  "\<exists>(d :: unit fanout_job workflow_definition) outcome now st acts.
     execution (fanout_request d [7]) 2 (Returned (Inr outcome), now, st :: (_, _, unit turn_outcome, agent_error) run_state) acts
     \<and> map call_step_id (calls acts) = [''architecture'', ''verification'', ''synthesize'']
     \<and> map_option (map (take 14)) (fanout_report outcome) = Some [''Recommendation'', [CHR 0x0A] @ ''resumed provi'']"
proof -
  let ?ja = "Architecture (fake_with_script (fake_succeed architecture_review) [FakeDelay (duration_from_millis 30)]) :: unit fanout_job"
  let ?jv = "Verification (fake_with_script (fake_succeed verification_review) [FakeDelay (duration_from_millis 20)]) :: unit fanout_job"
  let ?i = "\<lparr>fr_repository = ''tower-agent'', fr_objective = ''generic multi-stage agent composition''\<rparr>"
  let ?d = "join_definition ?ja ?jv Synthesize"
  have w: "fanout_workflow = Some (Inr ?d)" unfolding fanout_build fanout_specs_def by (rule join_compiled)
  have req: "join_request ''review-run-1'' None ?i ?ja ?jv Synthesize = fanout_request ?d [7]" by (simp add: join_request_def fanout_request_def workflow_context_new_def)
  obtain st :: "(fanout_input, unit fanout_job, unit turn_outcome, agent_error) run_state" and acts outcome
    where e: "execution (fanout_request ?d [7]) 2 (Returned (Inr outcome), 0, st) acts"
      and called: "map (\<lambda>c. (call_step_id c, call_job c, call_dependencies c)) (calls acts) =
        [(''architecture'', ?ja, []), (''verification'', ?jv, []),
         (''synthesize'', Synthesize, [(''architecture'', architecture_review), (''verification'', verification_review)])]"
      and taken: "takes acts = [(''verification'', Settled (Inr verification_review)), (''architecture'', Settled (Inr architecture_review)),
        (''synthesize'', Settled (Inr quiet_synthesis))]"
    using join_execution [of "''review-run-1''" None ?i ?ja ?jv Synthesize architecture_review verification_review quiet_synthesis] unfolding req by (elim exE conjE) (rule that)
  have compiled: "compiled (wreq_definition (fanout_request ?d [7]))"
    using fanout_steps(1) [OF w] by (simp add: fanout_request_def)
  have answers: "fanout_answers c s" if c: "c \<in> set (calls acts)" and s: "(call_step_id c, Settled s) \<in> set (takes acts)" for c s
  proof -
    have "call_deadline c = None"
      by (rule call_received [OF compiled zero_less_numeral e c])
        (simp add: call_for_def fanout_request_def workflow_context_new_def)
    then have quiet: "undisturbed quiet_env c" by (simp add: undisturbed_def quiet_env_def is_cancelled_def)
    have "(call_step_id c, call_job c, call_dependencies c) \<in> set (map (\<lambda>c. (call_step_id c, call_job c, call_dependencies c)) (calls acts))"
      using c by auto
    then consider "call_step_id c = ''architecture''" "call_job c = ?ja" | "call_step_id c = ''verification''" "call_job c = ?jv"
      | "call_step_id c = ''synthesize''" "call_job c = Synthesize"
        "call_dependencies c = [(''architecture'', architecture_review), (''verification'', verification_review)]"
      unfolding called by auto
    then have "fst (fanout_dispatch quiet_env 1 [0] c) = ending.Settled s"
    proof cases
      case 1
      then show ?thesis using s fanout_root [OF quiet, of architecture_review] by (auto simp: taken)
    next
      case 2
      then show ?thesis using s fanout_root [OF quiet, of verification_review] by (auto simp: taken)
    next
      case 3
      then show ?thesis using s quiet_join [OF quiet 3(2,3)] by (simp add: taken)
    qed
    with quiet show ?thesis unfolding fanout_answers_def by blast
  qed
  then have "settles_by fanout_answers acts" by (simp add: settles_by_def)
  from fanout_recommends [OF w zero_less_numeral e this]
  have "map_option (map (take 14)) (fanout_report outcome) = Some [''Recommendation'', [CHR 0x0A] @ ''resumed provi'']" by simp
  moreover have "map fst (map (\<lambda>c. (call_step_id c, call_job c, call_dependencies c)) (calls acts)) = [''architecture'', ''verification'', ''synthesize'']"
    unfolding called by simp
  then have "map call_step_id (calls acts) = [''architecture'', ''verification'', ''synthesize'']" by (simp add: comp_def)
  ultimately have "execution (fanout_request ?d [7]) 2 (Returned (Inr outcome), 0, st) acts
     \<and> map call_step_id (calls acts) = [''architecture'', ''verification'', ''synthesize'']
     \<and> map_option (map (take 14)) (fanout_report outcome) = Some [''Recommendation'', [CHR 0x0A] @ ''resumed provi'']"
    using e by simp
  then show ?thesis by (rule exI [of _ ?d, OF exI [of _ outcome, OF exI [of _ 0, OF exI [of _ st, OF exI [of _ acts]]]]])
qed

end
