(* ===== verification/Elicitation.thy ===== *)
theory Elicitation
  imports Plan_Compile
begin

text \<open>
  \<^verbatim>\<open>crates/tower-agent-plan/examples/elicitation_loop.rs\<close>: an application that resolves a partly specified turn,
  asks for what is missing, and prepares again with the answers. The fragment the user typed, what it answers and
  the baseline are arguments of the two passes, so that the theorem covers applications other than the example
  itself; \<open>elicitation_main\<close> is the example.
\<close>

section \<open>The program\<close>

definition elicitation_baseline :: "'j partial_turn" where
  "elicitation_baseline =
     unbound_turn
       \<lparr>par_model := \<lparr>pm_name = Some ''claude-opus-5''\<rparr>,
        par_provider_options := \<lparr>ppo_claude = Some (unbound_claude_options\<lparr>pco_max_turns := Some 8\<rparr>), ppo_codex = None\<rparr>\<rparr>"

definition elicitation_application :: "'j partial_turn" where
  "elicitation_application = unbound_turn\<lparr>par_context := unbound_context\<lparr>pc_cwd := Some ''.''\<rparr>\<rparr>"

text \<open>The derived \<open>Debug\<close> of a unit variant is its name.\<close>

fun value_kind_debug :: "value_kind \<Rightarrow> string" where
  "value_kind_debug ProviderValue = ''Provider''"
| "value_kind_debug TextValue = ''Text''"

fun requirement_reason_debug :: "requirement_reason \<Rightarrow> string" where
  "requirement_reason_debug ProviderSelection = ''ProviderSelection''"
| "requirement_reason_debug ProviderInput = ''ProviderInput''"

definition render :: "requirement \<Rightarrow> string" where
  "render r =
     rq_label r @ '' ('' @ value_kind_debug (rq_kind r) @ '') at '' @ rq_path r @ '' because ''
       @ requirement_reason_debug (rq_reason r)"

definition elicitation_layers :: "'j provider_defaults \<Rightarrow> 'j partial_turn \<Rightarrow> 'j partial_turn \<Rightarrow> 'j plan_layers" where
  "elicitation_layers baselines application fragment =
     with_application_defaults (with_provider_defaults (layers_new fragment) baselines) application"

text \<open>The answers are keyed by the id of the first requirement (an index: \<open>None\<close> panics) and by a fixed one.\<close>

definition elicited_answers :: "requirement list \<Rightarrow> string \<Rightarrow> string \<Rightarrow> answer list option" where
  "elicited_answers requirements provider prompt =
     (case requirements of
        [] \<Rightarrow> None
      | first # _ \<Rightarrow> Some [\<lparr>an_id = rq_id first, an_value = provider\<rparr>, \<lparr>an_id = ''prompt'', an_value = prompt\<rparr>])"

text \<open>Both passes: what was reported missing, and the turn; \<open>None\<close> when a pass panics on another result.\<close>

definition elicitation_passes :: "'j plan_layers \<Rightarrow> string \<Rightarrow> string \<Rightarrow> (string list \<times> 'j claude_options turn) option" where
  "elicitation_passes layers provider prompt =
     (case plan_prepare layers of
        Some (PreparedMissing _ requirements) \<Rightarrow>
          (case elicited_answers requirements provider prompt of
             None \<Rightarrow> None
           | Some answers \<Rightarrow>
               (case plan_prepare (with_answers layers answers) of
                  Some (PreparedReady (ReadyClaude turn)) \<Rightarrow> Some (map render requirements, turn)
                | _ \<Rightarrow> None))
      | _ \<Rightarrow> None)"

definition diagnostic_report :: "diagnostic \<Rightarrow> string" where
  "diagnostic_report d =
     ''  ['' @ diag_code d @ ''] '' @ diag_message d @ (case diag_path d of None \<Rightarrow> [] | Some p \<Rightarrow> '' (at '' @ p @ '')'')"

definition bad_answer_report :: "'j partial_turn \<Rightarrow> string list option" where
  "bad_answer_report fragment =
     (case plan_prepare (with_answers (layers_new fragment) [\<lparr>an_id = ''provider'', an_value = ''not-a-provider''\<rparr>]) of
        Some (PreparedInvalid diagnostics) \<Rightarrow> Some (map diagnostic_report diagnostics)
      | _ \<Rightarrow> None)"

definition elicitation_main :: "((string list \<times> 'j claude_options turn) \<times> string list) option" where
  "elicitation_main =
     (let provider_defaults = snd (defaults_insert [] Claude elicitation_baseline);
          explicit = (unbound_turn :: 'j partial_turn);
          layers = elicitation_layers provider_defaults elicitation_application explicit
      in Option.bind (elicitation_passes layers ''claude'' ''summarize the open issues'')
           (\<lambda>passes. map_option (\<lambda>refused. (passes, refused)) (bad_answer_report explicit)))"

section \<open>Theorem\<close>

text \<open>
  No pass of the example panics. The first reports the provider and the prompt as missing, the second is ready with the answered
  prompt, the application's directory, and the model and turn limit of the baseline, which applies only once the answer has
  selected its provider; an answer that names no provider is refused with its diagnostic.
\<close>

theorem elicitation_loop_completes:
  "\<exists>turn :: 'j claude_options turn.
     elicitation_main = Some
       (([''Provider (Provider) at provider because ProviderSelection'', ''Prompt (Text) at prompt because ProviderInput''], turn),
        [''  [invalid-provider-answer] the provider answer does not name a known provider (at provider)''])
     \<and> turn_prompt turn = ''summarize the open issues'' \<and> turn_working_directory turn = Some ''.''
     \<and> co_model (turn_options turn) = Some ''claude-opus-5'' \<and> co_max_turns (turn_options turn) = Some 8"
proof -
  have "map_option (\<lambda>((missing, turn), refused).
      (missing, refused, turn_prompt turn, turn_working_directory turn, co_model (turn_options turn), co_max_turns (turn_options turn)))
      (elicitation_main :: ((string list \<times> 'j claude_options turn) \<times> string list) option) =
    Some ([''Provider (Provider) at provider because ProviderSelection'', ''Prompt (Text) at prompt because ProviderInput''],
      [''  [invalid-provider-answer] the provider answer does not name a known provider (at provider)''],
      ''summarize the open issues'', Some ''.'', Some ''claude-opus-5'', Some 8)"
    by code_simp
  then show ?thesis by (auto split: prod.splits)
qed

end
