(* ===== verification/Local_Proof.thy ===== *)
theory Local_Proof
  imports Local_Worker Review_Shape
begin

text \<open>
  The driver of the local queue host (\<^verbatim>\<open>examples/apalis-local/src/main.rs\<close>): \<open>wait_for_stats\<close>, which the
  driver parks on while coordinators and workers change the store, the end of a worker, the proof that \<open>main\<close> runs, and
  the workflow it runs twice.
\<close>

section \<open>Waiting for the statistics\<close>

text \<open>
  A method of the store changes the statistics under the mutex and changes the revision after it released it, so a
  notification is a step of its own: \<open>wt_owed\<close> counts those still to come, \<open>wt_version\<close> the ones sent. The watch
  channel compares versions, not the \<open>u64\<close> it holds; the store owns a sender, so \<open>changed\<close> never fails.
\<close>

record 'v watched =
  wt_system :: "'v local_system"
  wt_owed :: nat
  wt_version :: nat

datatype waiter = Unsubscribed | Reading nat | Parked nat | Satisfied store_stats

definition current_stats :: "'v watched \<Rightarrow> store_stats" where
  "current_stats w = rs_stats (sys_store (wt_system w))"

text \<open>One poll of \<open>wait_for_stats\<close> up to its next await; \<open>None\<close> stays parked.\<close>

fun wait_for_stats :: "(store_stats \<Rightarrow> bool) \<Rightarrow> 'v watched \<Rightarrow> waiter \<Rightarrow> waiter option" where
  "wait_for_stats p w Unsubscribed = Some (Reading (wt_version w))"
| "wait_for_stats p w (Reading seen) = Some (if p (current_stats w) then Satisfied (current_stats w) else Parked seen)"
| "wait_for_stats p w (Parked seen) = (if wt_version w \<noteq> seen then Some (Reading (wt_version w)) else None)"
| "wait_for_stats p w (Satisfied t) = None"

text \<open>The notifications a method sends after it released the mutex.\<close>

fun owes :: "'v run_event \<Rightarrow> 'v local_system \<Rightarrow> nat" where
  "owes (Do_register call) y = (if find_record (sys_store y) (for_call call) = None then 1 else 0)"
| "owes (Do_claim r) y = (if is_ok (fst (local_claim r (sys_store y))) then 1 else 0)"
| "owes (Do_launch c) y = (if is_ok (fst (local_launch c (sys_store y))) then 1 else 0)"
| "owes (Do_note c) y = (if is_ok (fst (note_provider_call c (sys_store y))) then 1 else 0)"
| "owes (Do_commit c result) y = (if is_ok (fst (commit_result c (sys_store y))) then 1 else 0)"
| "owes (Do_publish n) y = 0"
| "owes Do_notify y = 0"
| "owes Do_sweep y = (let found = fst (sweep (sys_store y)) in if wl_retryable found \<noteq> [] \<or> wl_uncertain found \<noteq> [] then 1 else 0)"

datatype 'v wait_event = Method "'v run_event" | Announce | Waiter_polled

fun wait_event_step :: "(store_stats \<Rightarrow> bool) \<Rightarrow> 'v wait_event \<Rightarrow> 'v watched \<times> waiter \<Rightarrow> 'v watched \<times> waiter" where
  "wait_event_step p (Method e) (w, t) =
     (w\<lparr>wt_system := store_event e (wt_system w), wt_owed := wt_owed w + owes e (wt_system w)\<rparr>, t)"
| "wait_event_step p Announce (w, t) =
     (if wt_owed w = 0 then w else w\<lparr>wt_owed := wt_owed w - 1, wt_version := wt_version w + 1\<rparr>, t)"
| "wait_event_step p Waiter_polled (w, t) = (w, unwrap_or (wait_for_stats p w t) t)"

definition wait_events :: "(store_stats \<Rightarrow> bool) \<Rightarrow> 'v wait_event list \<Rightarrow> 'v watched \<times> waiter" where
  "wait_events p es = fold (wait_event_step p) es (\<lparr>wt_system = system_new, wt_owed = 0, wt_version = 0\<rparr>, Unsubscribed)"

section \<open>No wakeup is lost\<close>

text \<open>Whoever changes the statistics owes a notification, except a claim that runs out of epochs.\<close>

lemma stats_owed:
  assumes "owes e y = 0" and "rs_next_epoch (sys_store y) \<noteq> - 1"
  shows "rs_stats (sys_store (store_event e y)) = rs_stats (sys_store y)"
proof (cases e)
  case (Do_register call)
  then show ?thesis using assms(1) by (auto simp: local_register_def split: option.splits if_splits)
next
  case (Do_claim r)
  then show ?thesis using assms by (auto simp: local_claim_def is_ok_def Let_def split: option.splits if_splits)
next
  case (Do_launch c)
  then show ?thesis using assms(1) by (auto simp: local_launch_def is_ok_def split: option.splits if_splits)
next
  case (Do_note c)
  then show ?thesis using assms(1) by (auto simp: note_provider_call_def is_ok_def split: option.splits if_splits)
next
  case (Do_commit c result)
  then show ?thesis using assms(1) by (auto simp: commit_result_def is_ok_def split: option.splits if_splits)
next
  case (Do_publish n)
  then show ?thesis by (auto simp: publish_def put_record_def split: option.splits)
next
  case Do_notify
  then show ?thesis by (simp add: notify_def)
next
  case Do_sweep
  then show ?thesis using assms(1) by (auto simp: sweep_def tally_def Let_def case_prod_unfold split: if_splits)
qed

text \<open>Epochs are drawn one at a time, so a history shorter than \<open>2 ^ 64 - 1\<close> never runs out of them.\<close>

lemma epoch_step: "unat (rs_next_epoch (sys_store (store_event e y))) \<le> unat (rs_next_epoch (sys_store y)) + 1"
proof -
  have next_epoch: "unat (x + 1) \<le> Suc (unat x)" for x :: u64
    by (simp add: unat_word_ariths)
  show ?thesis
    by (cases e)
      (auto simp: local_register_def local_claim_def local_launch_def note_provider_call_def commit_result_def publish_def
        put_record_def tally_def notify_def sweep_def Let_def next_epoch case_prod_unfold split: option.splits if_splits sum.splits)
qed

lemma wait_events_snoc: "wait_events p (es @ [e]) = wait_event_step p e (wait_events p es)"
  by (simp add: wait_events_def)

lemma epoch_bound: "unat (rs_next_epoch (sys_store (wt_system (fst (wait_events p es))))) \<le> length es"
proof (induction es rule: rev_induct)
  case Nil
  show ?case by (simp add: wait_events_def system_new_def run_store_new_def)
next
  case (snoc e es)
  obtain w t where w: "wait_events p es = (w, t)" by (cases "wait_events p es")
  show ?case
  proof (cases e)
    case (Method x)
    then show ?thesis using snoc.IH epoch_step [of x "wt_system w"] by (simp add: wait_events_snoc w)
  qed (use snoc.IH in \<open>auto simp: wait_events_snoc w\<close>)
qed

text \<open>What a waiter knows: parked on the last version with nothing owed, it has seen the current statistics.\<close>

definition waiter_ok :: "(store_stats \<Rightarrow> bool) \<Rightarrow> 'v watched \<times> waiter \<Rightarrow> bool" where
  "waiter_ok p = (\<lambda>(w, t).
     case t of
       Unsubscribed \<Rightarrow> True
     | Reading seen \<Rightarrow> seen \<le> wt_version w
     | Parked seen \<Rightarrow> seen \<le> wt_version w \<and> (\<not> p (current_stats w) \<or> seen < wt_version w \<or> 0 < wt_owed w)
     | Satisfied stats \<Rightarrow> p stats)"

lemma waiter_ok_step:
  assumes "waiter_ok p (w, t)" and "rs_next_epoch (sys_store (wt_system w)) \<noteq> - 1"
  shows "waiter_ok p (wait_event_step p e (w, t))"
proof (cases e)
  case (Method x)
  have "owes x (wt_system w) = 0 \<Longrightarrow> current_stats (w\<lparr>wt_system := store_event x (wt_system w)\<rparr>) = current_stats w"
    using stats_owed [OF _ assms(2)] by (simp add: current_stats_def)
  then show ?thesis using assms(1) Method by (cases "owes x (wt_system w) = 0") (auto simp: waiter_ok_def split: waiter.splits)
next
  case Announce
  have "current_stats (w\<lparr>wt_owed := a, wt_version := b\<rparr>) = current_stats w" for a b by (simp add: current_stats_def)
  then show ?thesis using assms(1) Announce by (auto simp: waiter_ok_def split: waiter.splits)
next
  case Waiter_polled
  then show ?thesis using assms(1) by (cases t) (auto simp: waiter_ok_def unwrap_or_def split: option.splits)
qed

lemma waiter_ok_run: "length es < 2 ^ 64 \<Longrightarrow> waiter_ok p (wait_events p es)"
proof (induction es rule: rev_induct)
  case Nil
  show ?case by (simp add: wait_events_def waiter_ok_def)
next
  case (snoc e es)
  obtain w t where w: "wait_events p es = (w, t)" by (cases "wait_events p es")
  have "unat (rs_next_epoch (sys_store (wt_system w))) < 2 ^ 64 - 1"
    using epoch_bound [of p es] snoc.prems by (simp add: w)
  then have "rs_next_epoch (sys_store (wt_system w)) \<noteq> - 1"
    by (auto simp: unsigned_minus_1_eq_mask mask_eq_exp_minus_1)
  moreover have "waiter_ok p (w, t)" using snoc by (simp add: w)
  ultimately show ?case unfolding wait_events_snoc w by (intro waiter_ok_step)
qed

text \<open>
  No wakeup is lost. In any interleaving of coordinators, workers, recovery, late notifications and polls, a waiter that is
  parked and has been sent every notification waits for statistics that are not there yet; it answers only with statistics
  that satisfy its predicate; and once they do and the notifications are out, two more polls at most end the wait.
\<close>

theorem no_lost_wakeup:
  assumes "length es < 2 ^ 64" and "wait_events p es = (w, t)" and "wt_owed w = 0"
  shows "(t = Parked (wt_version w) \<longrightarrow> \<not> p (current_stats w))
    \<and> (case t of Satisfied stats \<Rightarrow> p stats | _ \<Rightarrow> True)
    \<and> (p (current_stats w) \<longrightarrow>
         (\<exists>stats. snd (wait_event_step p Waiter_polled (wait_event_step p Waiter_polled (w, t))) = Satisfied stats \<and> p stats))"
proof -
  have ok: "waiter_ok p (w, t)" using waiter_ok_run [OF assms(1), of p] assms(2) by simp
  then show ?thesis
    using assms(3) by (cases t) (auto simp: waiter_ok_def unwrap_or_def)
qed

text \<open>
  The exception. A claim counts its delivery before it finds that no epoch is left, and returns without a notification:
  a waiter for that delivery stays parked although its statistics are there.
\<close>

lemma overflow_unannounced:
  assumes "find_record (sys_store y) r = Some rec" and "sr_state rec = Pending" and "rs_next_epoch (sys_store y) = - 1"
  shows "deliveries (rs_stats (sys_store (store_event (Do_claim r) y))) = deliveries (rs_stats (sys_store y)) + 1"
    and "owes (Do_claim r) y = 0"
  using assms by (simp_all add: local_claim_def tally_def is_ok_def Let_def)

theorem no_lost_wakeup_witness:
  "\<exists>w stats. wait_events (\<lambda>t. deliveries t = 1)
       [Waiter_polled, Method (Do_register (sample_local_call ''s'')), Announce, Waiter_polled, Method (Do_claim (sample_ref ''s'')),
        Waiter_polled, Waiter_polled, Announce] = (w, Satisfied stats) \<and> deliveries stats = 1"
proof -
  let ?p = "\<lambda>t. deliveries t = 1"
  let ?es = "[Waiter_polled, Method (Do_register (sample_local_call ''s'')), Announce, Waiter_polled,
    Method (Do_claim (sample_ref ''s'')), Waiter_polled, Waiter_polled, Announce]"
  obtain w t where run: "wait_events ?p ?es = (w, t)" by (cases "wait_events ?p ?es")
  have "case wait_events ?p ?es of (w, t) \<Rightarrow> wt_owed w = 0 \<and> (\<exists>stats. t = Satisfied stats)"
    by (simp add: wait_events_def system_new_def run_store_new_def local_register_def local_claim_def find_record_def
        sample_local_call_def for_call_def local_schema_version_def tally_def notify_def put_record_def current_stats_def
        unwrap_or_def is_ok_def Let_def)
  then obtain stats where "wt_owed w = 0" "t = Satisfied stats" unfolding run by auto
  with no_lost_wakeup [OF _ run] run show ?thesis by simp
qed

section \<open>The rendezvous of the roots\<close>

text \<open>
  \<open>RootControl::wait\<close>, one poll: what the tokens say, whether both roots have met at the barrier, and whether the roots are
  released. The flag of \<open>Root_through\<close> says whether the step's token is cancelled when the wait is over.
\<close>

datatype root_wait = Root_waiting | Root_held | Root_through bool

fun root_held :: "bool \<Rightarrow> bool \<Rightarrow> bool \<Rightarrow> root_wait" where
  "root_held shutdown step_cancelled released =
     (if shutdown then Root_through True else if step_cancelled then Root_through True
      else if released then Root_through False else Root_held)"

fun root_poll :: "bool \<Rightarrow> bool \<Rightarrow> bool \<Rightarrow> bool \<Rightarrow> root_wait \<Rightarrow> root_wait" where
  "root_poll shutdown step_cancelled met released Root_waiting =
     (if shutdown then Root_through True else if step_cancelled then Root_through True
      else if met then root_held shutdown step_cancelled released else Root_waiting)"
| "root_poll shutdown step_cancelled met released Root_held = root_held shutdown step_cancelled released"
| "root_poll shutdown step_cancelled met released (Root_through c) = Root_through c"

text \<open>The polls of one wait, each with what it observes; a met barrier stays met.\<close>

definition root_polls :: "(bool \<times> bool \<times> bool \<times> bool) list \<Rightarrow> root_wait" where
  "root_polls = foldl (\<lambda>x (shutdown, step_cancelled, met, released). root_poll shutdown step_cancelled met released x) Root_waiting"

text \<open>A root goes on to its provider with a live token only after both roots met and the release, and is never held back after those
  unless it is shut down.\<close>

lemma root_passes_history:
  "(root_polls os = Root_held \<longrightarrow> (\<exists>(shutdown, step_cancelled, met, released) \<in> set os. met))
   \<and> (root_polls os = Root_through False \<longrightarrow>
       (\<exists>(shutdown, step_cancelled, met, released) \<in> set os. met)
       \<and> (\<exists>(shutdown, step_cancelled, met, released) \<in> set os. released \<and> \<not> shutdown \<and> \<not> step_cancelled))"
proof (induction os rule: rev_induct)
  case Nil
  show ?case by (simp add: root_polls_def)
next
  case (snoc ob os)
  obtain shutdown step_cancelled met released where ob: "ob = (shutdown, step_cancelled, met, released)" by (cases ob)
  have "root_polls (os @ [ob]) = root_poll shutdown step_cancelled met released (root_polls os)" by (simp add: root_polls_def ob)
  with snoc.IH show ?case by (cases "root_polls os") (auto simp: ob split: if_splits)
qed

lemmas root_passes = root_passes_history [THEN conjunct2, rule_format]

text \<open>Whoever is neither shut down nor cancelled is not held back after the meeting and the release.\<close>

lemma root_not_held_back: "x \<noteq> Root_through True \<Longrightarrow> root_poll False False True True x = Root_through False"
  by (cases x) auto

section \<open>The end of a worker\<close>

text \<open>What joining a task within two seconds gives; errors carry their rendering.\<close>

datatype task_join = Join_elapsed | Join_panicked string | Join_cancelled string | Task_ok | Task_err string

fun worker_stop :: "task_join \<Rightarrow> string + unit" where
  "worker_stop Join_elapsed = Inl ''local Apalis worker did not stop''"
| "worker_stop (Join_panicked e) = Inl ''local Apalis worker task panicked''"
| "worker_stop (Join_cancelled e) = Inl ''local Apalis worker task panicked''"
| "worker_stop (Task_err e) = Inl e"
| "worker_stop Task_ok = Inr ()"

fun worker_abort :: "task_join \<Rightarrow> string + unit" where
  "worker_abort Join_elapsed = Inl ''aborted local Apalis worker did not join''"
| "worker_abort (Join_panicked e) = Inl (''worker abort returned '' @ e)"
| "worker_abort (Join_cancelled e) = Inr ()"
| "worker_abort Task_ok = Inl ''aborted local Apalis worker returned normally''"
| "worker_abort (Task_err e) = Inl (''aborted local Apalis worker failed: '' @ e)"

section \<open>The proof \<open>main\<close> runs\<close>

text \<open>
  What the driver observes, in order: the join of the aborted first coordinator, whether the roots reached their launch
  boundary in time, the statistics once both settled, the outcome of the second coordinator, whether the join settled,
  the last statistics and the end of the worker. \<open>None\<close> is an elapsed timeout.
\<close>

record 'v proof_run =
  ob_coordinator :: task_join
  ob_roots_ready :: "store_stats option"
  ob_before_replay :: "store_stats option"
  ob_outcome :: "((agent_error, 'v turn_outcome) workflow_failure + 'v turn_outcome workflow_outcome) option"
  ob_join_settled :: "store_stats option"
  ob_stats :: store_stats
  ob_worker :: task_join

record proof_summary =
  ps_output :: string
  ps_before_replay :: store_stats
  ps_stats :: store_stats

text \<open>The block before the worker is stopped: \<open>None\<close> panics, as \<open>expect_err\<close> and the index of \<open>validate_outcome\<close> do.
  The text of a failed \<open>ensure!\<close> is the argument \<open>condition\<close>.\<close>

definition replay_block ::
  "((agent_error, 'v turn_outcome) workflow_failure \<Rightarrow> string) \<Rightarrow> string \<Rightarrow> 'v proof_run \<Rightarrow> (string + proof_summary) option" where
  "replay_block show_failure condition ob =
     (case ob_coordinator ob of
        Join_elapsed \<Rightarrow> Some (Inl ''lost coordinator did not join'')
      | Task_ok \<Rightarrow> None
      | Task_err e \<Rightarrow> None
      | Join_panicked e \<Rightarrow> Some (Inl (''first coordinator abort returned '' @ e))
      | Join_cancelled e \<Rightarrow>
          (case ob_roots_ready ob of
             None \<Rightarrow> Some (Inl ''root steps did not reach their launch boundary'')
           | Some _ \<Rightarrow>
               (case ob_before_replay ob of
                  None \<Rightarrow> Some (Inl ''root steps did not settle after coordinator loss'')
                | Some before \<Rightarrow>
                    if \<not> validate_root_snapshot before then Some (Inl condition)
                    else
                      (case ob_outcome ob of
                         None \<Rightarrow> Some (Inl ''replayed coordinator did not settle'')
                       | Some (Inl failure) \<Rightarrow> Some (Inl (show_failure failure))
                       | Some (Inr outcome) \<Rightarrow>
                           (case ob_join_settled ob of
                              None \<Rightarrow> Some (Inl ''replayed join did not settle'')
                            | Some _ \<Rightarrow>
                                (case validate_outcome outcome ''apalis-replay-run'' of
                                   None \<Rightarrow> None
                                 | Some None \<Rightarrow> Some (Inl condition)
                                 | Some (Some synthesis) \<Rightarrow>
                                     if \<not> validate_final_snapshot (ob_stats ob) then Some (Inl condition)
                                     else Some (Inr \<lparr>ps_output = out_output synthesis, ps_before_replay = before,
                                                     ps_stats = ob_stats ob\<rparr>)))))))"

definition run_replay_proof ::
  "((agent_error, 'v turn_outcome) workflow_failure \<Rightarrow> string) \<Rightarrow> string \<Rightarrow> 'v proof_run \<Rightarrow> (string + proof_summary) option" where
  "run_replay_proof show_failure condition ob =
     (case replay_block show_failure condition ob of
        None \<Rightarrow> None
      | Some r \<Rightarrow> Some (and_then (worker_stop (ob_worker ob)) (\<lambda>_. r)))"

text \<open>The lines \<open>main\<close> prints of a summary.\<close>

definition proof_lines :: "proof_summary \<Rightarrow> string list" where
  "proof_lines proof =
     [[], ps_output proof, [],
      ''before replay: '' @ show_nat (deliveries (ps_before_replay proof)) @ '' deliveries, ''
        @ show_nat (terminal_records (ps_before_replay proof)) @ '' terminal records'',
      ''after replay: '' @ show_nat (deliveries (ps_stats proof)) @ '' deliveries, ''
        @ show_nat (claims (ps_stats proof)) @ '' claim wins, '' @ show_nat (store_stats.launches (ps_stats proof)) @ '' launches, ''
        @ show_nat (duplicate_skips (ps_stats proof)) @ '' duplicate skips, ''
        @ show_nat (terminal_records (ps_stats proof)) @ '' terminal records, ''
        @ show_nat (uncertain_records (ps_stats proof)) @ '' uncertain records'']"

text \<open>
  What a printed proof proves: the first coordinator was lost before it had an answer, each root ran once and was delivered
  twice before the replay, the replayed coordinator got a validated outcome of three steps, in the end every step was claimed,
  launched and settled once for two deliveries, and the worker stopped.
\<close>

theorem replay_proof_means:
  assumes "run_replay_proof show_failure condition ob = Some (Inr summary)"
  shows "(\<exists>e. ob_coordinator ob = Join_cancelled e) \<and> ob_worker ob = Task_ok
    \<and> ob_before_replay ob = Some (ps_before_replay summary) \<and> validate_root_snapshot (ps_before_replay summary)
    \<and> (\<exists>outcome synthesis. ob_outcome ob = Some (Inr outcome)
         \<and> validate_outcome outcome ''apalis-replay-run'' = Some (Some synthesis) \<and> ps_output summary = out_output synthesis)
    \<and> validate_final_snapshot (ps_stats summary)
    \<and> drop 3 (proof_lines summary) =
        [''before replay: 4 deliveries, 2 terminal records'',
         ''after replay: 6 deliveries, 3 claim wins, 3 launches, 3 duplicate skips, 3 terminal records, 0 uncertain records'']"
proof -
  obtain r where block: "replay_block show_failure condition ob = Some (Inr summary)" and worker: "ob_worker ob = Task_ok"
    using assms by (cases "ob_worker ob") (auto simp: run_replay_proof_def and_then_def split: option.splits)
  have main: "(\<exists>e. ob_coordinator ob = Join_cancelled e)
    \<and> ob_before_replay ob = Some (ps_before_replay summary) \<and> validate_root_snapshot (ps_before_replay summary)
    \<and> (\<exists>outcome synthesis. ob_outcome ob = Some (Inr outcome)
         \<and> validate_outcome outcome ''apalis-replay-run'' = Some (Some synthesis) \<and> ps_output summary = out_output synthesis)
    \<and> validate_final_snapshot (ps_stats summary)"
    using block by (auto simp: replay_block_def split: task_join.splits option.splits sum.splits if_splits)
  have digits: "show_nat 0 = ''0''" "show_nat 2 = ''2''" "show_nat 3 = ''3''" "show_nat 4 = ''4''" "show_nat 6 = ''6''"
    by code_simp+
  from main have "drop 3 (proof_lines summary) =
        [''before replay: 4 deliveries, 2 terminal records'',
         ''after replay: 6 deliveries, 3 claim wins, 3 launches, 3 duplicate skips, 3 terminal records, 0 uncertain records'']"
    by (simp add: proof_lines_def digits validate_root_snapshot_def validate_final_snapshot_def expected_deliveries_def
        expected_logical_steps_def)
  with main worker show ?thesis by blast
qed

section \<open>The workflow it runs\<close>

text \<open>\<open>execute_workflow\<close>: the request, for a valid run id, at the instant \<open>now\<close>; it runs with two steps in flight.\<close>

definition local_request ::
  "string \<Rightarrow> 'v review_job workflow_definition \<Rightarrow> token \<Rightarrow> instant \<Rightarrow> (review_request, 'v review_job) workflow_request" where
  "local_request run d fresh now =
     \<lparr>wreq_context = wctx_with_deadline (workflow_context_new run fresh) (now + duration_from_secs 4), wreq_definition = d,
      wreq_input = \<lparr>rr_repository = ''tower-agent'', rr_objective = ''keep graph semantics above queue transport''\<rparr>\<rparr>"

text \<open>
  How the host may settle a call of the workflow: with what executing the registered call settled with, which is a call of the
  same frozen data, in any environment that lets it run.
\<close>

definition review_answers :: "'v local_call \<Rightarrow> 'v terminal_result \<Rightarrow> bool" where
  "review_answers call s \<longleftrightarrow>
     (\<exists>env op fresh registered. frozen_for_call registered = frozen_for_call call \<and> undisturbed env registered
        \<and> fst (execute_agent_step op fresh (layered_fake env architect_provider) (layered_fake env verifier_provider) registered)
            = ending.Settled s)"

inductive_cases review_computesE: "computes review_answers req k v"

abbreviation review_definition :: "'v review_job workflow_definition" where
  "review_definition \<equiv> join_definition (Architecture architecture_options) (Verification verification_options) Synthesize"

lemma review_is_join:
  fixes d :: "('v :: equal) review_job workflow_definition"
  assumes "review_workflow = Some (Inr d)"
  shows "d = review_definition"
  using assms unfolding review_build review_specs_def join_compiled by simp

lemma review_roots:
  assumes d: "wreq_definition req = review_definition" and "computes review_answers req k v"
  shows "k = ''architecture'' \<Longrightarrow> out_output v = ''architecture kept transport thin''
      \<and> (\<exists>s. out_session v = Some s \<and> handle_provider s = architect_provider)"
    and "k = ''verification'' \<Longrightarrow> out_output v = ''verification covered duplicate delivery''"
proof -
  obtain step call where step: "wf_step (wreq_definition req) k = Some step" "call_for req k step call" "review_answers call (Inr v)"
    by (rule review_computesE [OF assms(2)]) (use that in auto)
  obtain env op fresh registered where frozen: "frozen_for_call registered = frozen_for_call call" and quiet: "undisturbed env registered"
    and run: "fst (execute_agent_step op fresh (layered_fake env architect_provider) (layered_fake env verifier_provider) registered)
      = ending.Settled (Inr v)"
    using step(3) by (auto simp: review_answers_def)
  have job: "call_job registered = def_job step" using frozen step(2) by (simp add: frozen_for_call_def call_for_def)
  show "out_output v = ''architecture kept transport thin''
      \<and> (\<exists>s. out_session v = Some s \<and> handle_provider s = architect_provider)" if "k = ''architecture''"
    using root_output(1) [OF quiet, of op fresh] run job step(1) that by (auto simp: d wf_step_def join_definition_def)
  show "out_output v = ''verification covered duplicate delivery''" if "k = ''verification''"
    using root_output(2) [OF quiet, of op fresh] run job step(1) that by (auto simp: d wf_step_def join_definition_def)
qed

lemma review_join:
  assumes d: "wreq_definition req = review_definition" and "computes review_answers req ''synthesize'' v"
  shows "out_output v = ''joined: architecture kept transport thin | verification covered duplicate delivery''
      \<and> (\<exists>s. out_session v = Some s \<and> handle_provider s = architect_provider)"
proof -
  obtain step call where step: "wf_step (wreq_definition req) ''synthesize'' = Some step" "call_for req ''synthesize'' step call"
      "review_answers call (Inr v)" and deps: "\<And>n w. map_of (call_dependencies call) n = Some w \<Longrightarrow> computes review_answers req n w"
    by (rule review_computesE [OF assms(2)]) (use that in auto)
  obtain env op fresh registered where frozen: "frozen_for_call registered = frozen_for_call call" and quiet: "undisturbed env registered"
    and run: "fst (execute_agent_step op fresh (layered_fake env architect_provider) (layered_fake env verifier_provider) registered)
      = ending.Settled (Inr v)"
    using step(3) by (auto simp: review_answers_def)
  have job: "call_job registered = Synthesize" "map fst (call_dependencies call) = [''architecture'', ''verification'']"
    using frozen step(1,2) by (auto simp: frozen_for_call_def call_for_def bt_keys_def d wf_step_def join_definition_def)
  then obtain a b where ab: "call_dependencies call = [(''architecture'', a), (''verification'', b)]"
    by (auto simp: map_eq_Cons_conv)
  have registered: "call_dependencies registered = [(''architecture'', a), (''verification'', b)]"
    using frozen ab by (simp add: frozen_for_call_def)
  have "computes review_answers req ''architecture'' a" "computes review_answers req ''verification'' b"
    by (rule deps, simp add: ab)+
  then obtain s where out: "out_output a = ''architecture kept transport thin''" "out_session a = Some s"
      "handle_provider s = architect_provider" "out_output b = ''verification covered duplicate delivery''"
    using review_roots [OF d] by blast
  from join_output [OF quiet job(1) registered out(2,3), of op fresh] run out(1,4) show ?thesis by auto
qed

text \<open>
  Every run of the review, whatever the interleaving of its two roots, that returns an outcome returns one that passes the
  program's validation, when each step is answered with what its registered call settled with.
\<close>

theorem review_validates:
  fixes d :: "('v :: equal) review_job workflow_definition"
  assumes "review_workflow = Some (Inr d)" and "0 < m"
    and e: "execution (local_request run d fresh started) m (Returned (Inr outcome), now, st) acts"
    and "settles_by review_answers acts"
  shows "\<exists>synthesis. validate_outcome outcome run = Some (Some synthesis)"
proof -
  let ?req = "local_request run d fresh started"
  have d: "wreq_definition ?req = review_definition" using review_is_join [OF assms(1)] by (simp add: local_request_def)
  have "compile ''repository-review'' ''v1'' review_specs = Some (Inr d)" using assms(1) by (simp add: review_build)
  then have compiled: "compiled (wreq_definition ?req)" by (simp add: local_request_def compile_compiled)
  obtain a s v where outs: "wo_outputs outcome = [(''architecture'', a), (''synthesize'', s), (''verification'', v)]"
      "wo_leaf_outputs outcome = [(''synthesize'', s)]" "rs_outputs st = wo_outputs outcome"
    and ids: "wo_run_id outcome = wctx_run_id (wreq_context ?req)" "wo_workflow_id outcome = ''repository-review''"
      "wo_workflow_version outcome = ''v1''"
    by (rule join_returned [OF compiled d assms(2) e])
  have "computes review_answers ?req ''synthesize'' s"
    by (rule output_computed [OF compiled assms(2) e assms(4)]) (simp add: outs)
  from review_join [OF d this] show ?thesis
    using ids by (auto simp: validate_outcome_def outs(1,2) expected_logical_steps_def local_request_def wctx_with_deadline_def
        workflow_context_new_def)
qed

text \<open>A registered call of the review with the given job and dependencies, under a quiet environment.\<close>

definition quiet_call :: "'v review_job \<Rightarrow> (step_id, 'v turn_outcome) btree_map \<Rightarrow> 'v local_call" where
  "quiet_call job deps =
     \<lparr>call_run_id = ''apalis-replay-run'', call_workflow_id = ''repository-review'', call_workflow_version = ''v1'',
      call_step_id = ''step'',
      call_input = \<lparr>rr_repository = ''tower-agent'', rr_objective = ''keep graph semantics above queue transport''\<rparr>,
      call_job = job, call_dependencies = deps, call_cancellation = [7], call_deadline = None\<rparr>"

theorem review_validates_witness:
  "\<exists>(d :: unit review_job workflow_definition) outcome now st acts synthesis.
     execution (local_request ''apalis-replay-run'' d [7] 0) 2
       (Returned (Inr outcome), now, st :: (_, _, unit turn_outcome, agent_error) run_state) acts
     \<and> map call_step_id (calls acts) = [''architecture'', ''verification'', ''synthesize'']
     \<and> validate_outcome outcome ''apalis-replay-run'' = Some (Some synthesis)"
proof -
  let ?ja = "Architecture architecture_options :: unit review_job"
  let ?jv = "Verification verification_options :: unit review_job"
  let ?d = "review_definition :: unit review_job workflow_definition"
  let ?i = "\<lparr>rr_repository = ''tower-agent'', rr_objective = ''keep graph semantics above queue transport''\<rparr>"
  let ?run = "\<lambda>job deps. fst (execute_agent_step 1 [0] (layered_fake quiet_env architect_provider)
      (layered_fake quiet_env verifier_provider) (quiet_call job deps :: unit local_call))"
  have quiet: "undisturbed quiet_env (quiet_call job deps)" for job and deps :: "(step_id, unit turn_outcome) btree_map"
    by (simp add: undisturbed_def quiet_env_def quiet_call_def is_cancelled_def)
  obtain a sess where a: "?run ?ja [] = ending.Settled (Inr a)" "out_session a = Some sess" "handle_provider sess = architect_provider"
    using root_output(1) [OF quiet [of ?ja "[]"], of 1 "[0]"] by (auto simp: quiet_call_def)
  obtain v where v: "?run ?jv [] = ending.Settled (Inr v)"
    using root_output(2) [OF quiet [of ?jv "[]"], of 1 "[0]"] by (auto simp: quiet_call_def)
  let ?deps = "[(''architecture'', a), (''verification'', v)]"
  obtain s where s: "?run Synthesize ?deps = ending.Settled (Inr s)"
    using join_output [OF quiet [of Synthesize ?deps] _ _ a(2,3), of v 1 "[0]"] by (auto simp: quiet_call_def)
  have w: "review_workflow = Some (Inr ?d)" unfolding review_build review_specs_def by (rule join_compiled)
  have req: "join_request ''apalis-replay-run'' (Some (duration_from_secs 4 - 1)) ?i ?ja ?jv Synthesize
      = local_request ''apalis-replay-run'' ?d [7] 0"
    by (simp add: join_request_def local_request_def wctx_with_deadline_def duration_from_secs_def)
  obtain st :: "(review_request, unit review_job, unit turn_outcome, agent_error) run_state" and acts outcome
    where e: "execution (local_request ''apalis-replay-run'' ?d [7] 0) 2 (Returned (Inr outcome), 0, st) acts"
      and called: "map (\<lambda>c. (call_step_id c, call_job c, call_dependencies c)) (calls acts) =
        [(''architecture'', ?ja, []), (''verification'', ?jv, []), (''synthesize'', Synthesize, ?deps)]"
      and taken: "takes acts = [(''verification'', step_settlement.Settled (Inr v)), (''architecture'', step_settlement.Settled (Inr a)), (''synthesize'', step_settlement.Settled (Inr s))]"
    using join_execution [of "''apalis-replay-run''" "Some (duration_from_secs 4 - 1)" ?i ?ja ?jv Synthesize a v s]
    unfolding req by (elim exE conjE) (rule that)
  have compiled: "compiled (wreq_definition (local_request ''apalis-replay-run'' ?d [7] 0))"
    using w by (simp add: local_request_def review_build compile_compiled)
  have answers: "review_answers c x" if c: "c \<in> set (calls acts)" and x: "(call_step_id c, step_settlement.Settled x) \<in> set (takes acts)" for c x
  proof -
    have input: "call_input c = ?i"
      by (rule call_received [OF compiled zero_less_numeral e c]) (simp add: call_for_def local_request_def)
    have "(call_step_id c, call_job c, call_dependencies c) \<in> set (map (\<lambda>c. (call_step_id c, call_job c, call_dependencies c)) (calls acts))"
      using c by auto
    then have "?run (call_job c) (call_dependencies c) = ending.Settled x"
      unfolding called using x a(1) v s by (auto simp: taken)
    moreover have "frozen_for_call (quiet_call (call_job c) (call_dependencies c)) = frozen_for_call c"
      using input by (simp add: frozen_for_call_def quiet_call_def)
    ultimately show ?thesis using quiet unfolding review_answers_def by blast
  qed
  then have "settles_by review_answers acts" by (simp add: settles_by_def)
  from review_validates [OF w zero_less_numeral e this]
  obtain synthesis where "validate_outcome outcome ''apalis-replay-run'' = Some (Some synthesis)" by blast
  moreover have "map fst (map (\<lambda>c. (call_step_id c, call_job c, call_dependencies c)) (calls acts)) = [''architecture'', ''verification'', ''synthesize'']"
    unfolding called by simp
  then have "map call_step_id (calls acts) = [''architecture'', ''verification'', ''synthesize'']" by (simp add: comp_def)
  ultimately have "execution (local_request ''apalis-replay-run'' ?d [7] 0) 2 (Returned (Inr outcome), 0, st) acts
     \<and> map call_step_id (calls acts) = [''architecture'', ''verification'', ''synthesize'']
     \<and> validate_outcome outcome ''apalis-replay-run'' = Some (Some synthesis)"
    using e by simp
  then show ?thesis by (rule exI [of _ ?d, OF exI [of _ outcome, OF exI [of _ 0, OF exI [of _ st, OF exI [of _ acts, OF exI [of _ synthesis]]]]]])
qed

end
