(* ===== verification/Options_Debug.thy ===== *)
theory Options_Debug
  imports Claude_Query Codex_Command
begin

text \<open>
  The \<open>Debug\<close> of the per-turn options of both adapters, which is what ends up in logs: every field is rendered except
  the content of a JSON schema, which describes the caller's private data. Rendering a string (with its escapes) and an
  \<open>f64\<close> is the standard library's and a parameter.
\<close>

section \<open>Rendering\<close>

record debug_ops =
  dbg_str :: "string \<Rightarrow> string"
  dbg_f64 :: "f64 \<Rightarrow> string"

definition debug_option :: "('a \<Rightarrow> string) \<Rightarrow> 'a option \<Rightarrow> string" where
  "debug_option show_value x = (case x of None \<Rightarrow> ''None'' | Some v \<Rightarrow> ''Some('' @ show_value v @ '')'')"

definition debug_list :: "('a \<Rightarrow> string) \<Rightarrow> 'a list \<Rightarrow> string" where
  "debug_list show_value xs = ''['' @ join_strings '', '' (map show_value xs) @ '']''"

definition debug_bool :: "bool \<Rightarrow> string" where
  "debug_bool b = (if b then ''true'' else ''false'')"

text \<open>The derived renderings of the enums.\<close>

fun claude_effort_debug :: "claude_effort \<Rightarrow> string" where
  "claude_effort_debug EffortLow = ''Low''"
| "claude_effort_debug EffortMedium = ''Medium''"
| "claude_effort_debug EffortHigh = ''High''"

fun permission_mode_debug :: "claude_permission_mode \<Rightarrow> string" where
  "permission_mode_debug ModeDefault = ''Default''"
| "permission_mode_debug ModeAcceptEdits = ''AcceptEdits''"
| "permission_mode_debug ModeDontAsk = ''DontAsk''"
| "permission_mode_debug ModePlan = ''Plan''"
| "permission_mode_debug ModeAuto = ''Auto''"

fun ambient_context_debug :: "claude_ambient_context \<Rightarrow> string" where
  "ambient_context_debug AmbientInherit = ''Inherit''"
| "ambient_context_debug (AmbientHermetic HermeticFull) = ''Hermetic(Full)''"
| "ambient_context_debug (AmbientHermetic HermeticProject) = ''Hermetic(Project)''"
| "ambient_context_debug AmbientSafe = ''Safe''"
| "ambient_context_debug AmbientBare = ''Bare''"

fun authority_debug :: "filesystem_authority \<Rightarrow> string" where
  "authority_debug ReadOnly = ''ReadOnly''"
| "authority_debug WorkspaceWrite = ''WorkspaceWrite''"
| "authority_debug FullAccess = ''FullAccess''"

section \<open>The options\<close>

definition redacted_schema :: "debug_ops \<Rightarrow> 'j option \<Rightarrow> string" where
  "redacted_schema ops schema = debug_option (dbg_str ops) (map_option (\<lambda>_. ''<redacted>'') schema)"

definition claude_options_debug :: "debug_ops \<Rightarrow> 'j claude_options \<Rightarrow> debug_struct" where
  "claude_options_debug ops o1 =
     (let text = debug_option (dbg_str ops); texts = debug_list (dbg_str ops)
      in (''ClaudeOptions'',
          [(''system_prompt'', text (co_system_prompt o1)),
           (''append_system_prompt'', text (co_append_system_prompt o1)),
           (''model'', text (co_model o1)),
           (''fallback_model'', text (co_fallback_model o1)),
           (''effort'', debug_option claude_effort_debug (co_effort o1)),
           (''allowed_tools'', texts (co_allowed_tools o1)),
           (''disallowed_tools'', texts (co_disallowed_tools o1)),
           (''additional_directories'', texts (co_additional_directories o1)),
           (''max_turns'', debug_option (\<lambda>n. show_nat (unat n)) (co_max_turns o1)),
           (''max_budget_usd'', debug_option (dbg_f64 ops) (co_max_budget_usd o1)),
           (''permission_mode'', debug_option permission_mode_debug (co_permission_mode o1)),
           (''json_schema'', redacted_schema ops (co_json_schema o1)),
           (''strict_mcp_config'', debug_bool (co_strict_mcp_config o1)),
           (''ambient_context'', ambient_context_debug (co_ambient_context o1))]))"

definition codex_options_debug :: "debug_ops \<Rightarrow> 'j codex_options \<Rightarrow> debug_struct" where
  "codex_options_debug ops o1 =
     (''CodexOptions'',
      [(''system_prompt'', debug_option (dbg_str ops) (xo_system_prompt o1)),
       (''model'', debug_option (dbg_str ops) (xo_model o1)),
       (''additional_directories'', debug_list (dbg_str ops) (xo_additional_directories o1)),
       (''output_schema'', redacted_schema ops (xo_output_schema o1)),
       (''filesystem_authority'', authority_debug (xo_filesystem_authority o1)),
       (''ephemeral'', debug_bool (xo_ephemeral o1))])"

section \<open>Theorem\<close>

text \<open>
  Nothing of a schema but its presence is rendered, whatever the rendering of strings, and the presence is: a reader of the
  log can tell that a turn asked for structured output and not in which shape.
\<close>

theorem options_debug_redacts:
  "claude_options_debug ops c = claude_options_debug ops (c\<lparr>co_json_schema := map_option f (co_json_schema c)\<rparr>)
   \<and> codex_options_debug ops x = codex_options_debug ops (x\<lparr>xo_output_schema := map_option g (xo_output_schema x)\<rparr>)
   \<and> map_of (snd (claude_options_debug ops c)) ''json_schema'' =
       Some (if co_json_schema c = None then ''None'' else ''Some('' @ dbg_str ops ''<redacted>'' @ '')'')
   \<and> map_of (snd (codex_options_debug ops x)) ''output_schema'' =
       Some (if xo_output_schema x = None then ''None'' else ''Some('' @ dbg_str ops ''<redacted>'' @ '')'')"
  by (auto simp: claude_options_debug_def codex_options_debug_def redacted_schema_def debug_option_def Let_def
      option.map_comp comp_def split: option.split)

end
