(* ===== verification/Receipt_Channel.thy ===== *)
theory Receipt_Channel
  imports Layer_Stack Event_Channel "HOL-Library.Sublist" "HOL-Library.Multiset"
begin

text \<open>
  The receipt sinks of \<^verbatim>\<open>layer/observe.rs\<close> and the observed calls that share one observer: any number of calls, polled,
  settled, unwound or dropped in any order, and a consumer that takes receipts or goes away. \<open>tokio::sync::mpsc\<close> is a
  parameter with its documented behaviour (\<open>receipt_mpsc_laws\<close>).
\<close>

section \<open>The channel below\<close>

record 'q receipt_mpsc =
  rq_channel :: "nat \<Rightarrow> 'q"
  rq_try_send :: "'q \<Rightarrow> receipt \<Rightarrow> try_send_error + 'q"
  rq_recv :: "'q \<Rightarrow> (receipt \<times> 'q) option"
  rq_drop_receiver :: "'q \<Rightarrow> 'q"
  rq_contents :: "'q \<Rightarrow> receipt list"
  rq_capacity :: "'q \<Rightarrow> nat"
  rq_receiver_alive :: "'q \<Rightarrow> bool"

text \<open>A send is refused as full only with \<open>capacity\<close> receipts queued and as closed only without a receiver.\<close>

definition receipt_mpsc_laws :: "'q receipt_mpsc \<Rightarrow> bool" where
  "receipt_mpsc_laws ops \<longleftrightarrow>
     (\<forall>n. let q = rq_channel ops n in rq_contents ops q = [] \<and> rq_capacity ops q = n \<and> rq_receiver_alive ops q)
     \<and> (\<forall>q r q'. rq_try_send ops q r = Inr q' \<longrightarrow> rq_contents ops q' = rq_contents ops q @ [r]
          \<and> rq_capacity ops q' = rq_capacity ops q \<and> rq_receiver_alive ops q' \<and> rq_receiver_alive ops q)
     \<and> (\<forall>q r. rq_try_send ops q r = Inl SendFull \<longrightarrow> rq_capacity ops q \<le> length (rq_contents ops q))
     \<and> (\<forall>q r. rq_try_send ops q r = Inl SendClosed \<longrightarrow> \<not> rq_receiver_alive ops q)
     \<and> (\<forall>q r q'. rq_recv ops q = Some (r, q') \<longrightarrow> rq_contents ops q = r # rq_contents ops q'
          \<and> rq_capacity ops q' = rq_capacity ops q \<and> rq_receiver_alive ops q' = rq_receiver_alive ops q)
     \<and> (\<forall>q. rq_contents ops (rq_drop_receiver ops q) = [] \<and> \<not> rq_receiver_alive ops (rq_drop_receiver ops q)
          \<and> rq_capacity ops (rq_drop_receiver ops q) = rq_capacity ops q)"

lemma receipt_mpsc_lawsD:
  assumes "receipt_mpsc_laws ops"
  shows "rq_contents ops (rq_channel ops n) = []" "rq_capacity ops (rq_channel ops n) = n"
    and "rq_receiver_alive ops (rq_channel ops n)"
    and "rq_try_send ops q r = Inr q' \<Longrightarrow> rq_contents ops q' = rq_contents ops q @ [r]
          \<and> rq_capacity ops q' = rq_capacity ops q \<and> rq_receiver_alive ops q' \<and> rq_receiver_alive ops q"
    and "rq_try_send ops q r = Inl SendFull \<Longrightarrow> rq_capacity ops q \<le> length (rq_contents ops q)"
    and "rq_try_send ops q r = Inl SendClosed \<Longrightarrow> \<not> rq_receiver_alive ops q"
    and "rq_recv ops q = Some (r, q') \<Longrightarrow> rq_contents ops q = r # rq_contents ops q'
          \<and> rq_capacity ops q' = rq_capacity ops q \<and> rq_receiver_alive ops q' = rq_receiver_alive ops q"
    and "rq_contents ops (rq_drop_receiver ops q) = []" "\<not> rq_receiver_alive ops (rq_drop_receiver ops q)"
    and "rq_capacity ops (rq_drop_receiver ops q) = rq_capacity ops q"
  using assms unfolding receipt_mpsc_laws_def Let_def by blast+

section \<open>Sinks\<close>

definition channel_try_record :: "'q receipt_mpsc \<Rightarrow> 'q \<Rightarrow> receipt \<Rightarrow> receipt_send_error + 'q" where
  "channel_try_record ops q r =
     map_err (\<lambda>error. case error of SendFull \<Rightarrow> ReceiptFull | SendClosed \<Rightarrow> ReceiptClosed) (rq_try_send ops q r)"

text \<open>An observer is a handle to its sink; the default one is \<open>Noop_sink\<close>.\<close>

datatype 'q receipt_sink = Noop_sink | Channel_sink 'q

fun try_record :: "'q receipt_mpsc \<Rightarrow> 'q receipt_sink \<Rightarrow> receipt \<Rightarrow> receipt_send_error + 'q receipt_sink" where
  "try_record ops Noop_sink r = Inr Noop_sink"
| "try_record ops (Channel_sink q) r = map_sum id Channel_sink (channel_try_record ops q r)"

text \<open>\<open>ReceiptObserver::channel\<close>; \<open>mpsc::channel\<close> panics for the capacity zero.\<close>

definition receipt_channel :: "'q receipt_mpsc \<Rightarrow> nat \<Rightarrow> 'q receipt_sink option" where
  "receipt_channel ops capacity = (if capacity = 0 then None else Some (Channel_sink (rq_channel ops capacity)))"

definition observer_default :: "'q receipt_sink" where
  "observer_default = Noop_sink"

definition observer_debug :: "'q receipt_sink \<Rightarrow> (string \<Rightarrow> string) \<Rightarrow> string" where
  "observer_debug sink show_str = ''ReceiptObserver('' @ show_str ''..'' @ '')''"

section \<open>Calls that share an observer\<close>

text \<open>
  The sink, what the consumer received, and as a history what was recorded (with the call), what was refused, and what was
  in the channel when the receiver went away.
\<close>

record ('q, 'v) observed_calls =
  oc_calls :: "'v observed list"
  oc_sink :: "'q receipt_sink"
  oc_received :: "receipt list"
  oc_recorded :: "(nat \<times> receipt) list"
  oc_refused :: "(receipt \<times> receipt_send_error) list"
  oc_abandoned :: "receipt list"

definition observed_calls_new :: "'q receipt_sink \<Rightarrow> ('q, 'v) observed_calls" where
  "observed_calls_new sink =
     \<lparr>oc_calls = [], oc_sink = sink, oc_received = [], oc_recorded = [], oc_refused = [], oc_abandoned = []\<rparr>"

text \<open>The guard records and ignores the answer of the sink.\<close>

definition record_receipt ::
  "'q receipt_mpsc \<Rightarrow> nat \<Rightarrow> receipt \<Rightarrow> ('q, 'v) observed_calls \<Rightarrow> ('q, 'v) observed_calls" where
  "record_receipt ops i r y =
     (let y' = y\<lparr>oc_recorded := oc_recorded y @ [(i, r)]\<rparr>
      in case try_record ops (oc_sink y) r of
           Inl error \<Rightarrow> y'\<lparr>oc_refused := oc_refused y @ [(r, error)]\<rparr>
         | Inr sink \<Rightarrow> y'\<lparr>oc_sink := sink\<rparr>)"

datatype 'v calls_event = Call_made instant operation_id | Call_goes_on nat instant "'v future_event" | Receipt_taken | Receiver_gone

definition calls_step :: "'q receipt_mpsc \<Rightarrow> ('q, 'v) observed_calls \<Rightarrow> 'v calls_event \<Rightarrow> ('q, 'v) observed_calls option" where
  "calls_step ops y e =
     (case e of
        Call_made now i \<Rightarrow> Some (y\<lparr>oc_calls := oc_calls y @ [ObserveCreated (receipt_guard_new i now)]\<rparr>)
      | Call_goes_on k now ev \<Rightarrow>
          if k < length (oc_calls y)
          then map_option (\<lambda>(x, rs). fold (record_receipt ops k) rs (y\<lparr>oc_calls := (oc_calls y)[k := x]\<rparr>))
                 (observe_step (oc_calls y ! k) (now, ev))
          else None
      | Receipt_taken \<Rightarrow>
          (case oc_sink y of
             Noop_sink \<Rightarrow> None
           | Channel_sink q \<Rightarrow>
               map_option (\<lambda>(r, q'). y\<lparr>oc_sink := Channel_sink q', oc_received := oc_received y @ [r]\<rparr>) (rq_recv ops q))
      | Receiver_gone \<Rightarrow>
          (case oc_sink y of
             Noop_sink \<Rightarrow> None
           | Channel_sink q \<Rightarrow>
               Some (y\<lparr>oc_sink := Channel_sink (rq_drop_receiver ops q),
                       oc_abandoned := oc_abandoned y @ rq_contents ops q\<rparr>)))"

fun calls_run :: "'q receipt_mpsc \<Rightarrow> ('q, 'v) observed_calls \<Rightarrow> 'v calls_event list \<Rightarrow> ('q, 'v) observed_calls option" where
  "calls_run ops y [] = Some y"
| "calls_run ops y (e # es) = (case calls_step ops y e of None \<Rightarrow> None | Some y' \<Rightarrow> calls_run ops y' es)"

section \<open>Invariant\<close>

fun call_open :: "'v observed \<Rightarrow> bool" where
  "call_open (ObserveGone x) = False"
| "call_open x = True"

fun guard_open :: "'v observed \<Rightarrow> bool" where
  "guard_open (ObserveCreated g) = (\<not> guard_finished g)"
| "guard_open (ObserveAwaiting g) = (\<not> guard_finished g)"
| "guard_open (ObserveGone x) = True"

text \<open>A step of a call that ends it records one receipt, any other step none.\<close>

lemma observe_step_receipts:
  assumes "observe_step x (now, ev) = Some (x', rs)" and "guard_open x"
  shows "guard_open x' \<and> call_open x \<and> length rs = (if call_open x' then 0 else 1)"
  using assms
  by (cases "(x, (now, ev))" rule: observe_step.cases)
    (auto simp: guard_mark_launched_def guard_drop_def guard_finish_def)

definition receipts_of :: "nat \<Rightarrow> ('q, 'v) observed_calls \<Rightarrow> receipt list" where
  "receipts_of k y = map snd (filter (\<lambda>(j, r). j = k) (oc_recorded y))"

definition calls_ok :: "('q, 'v) observed_calls \<Rightarrow> bool" where
  "calls_ok y \<longleftrightarrow> (\<forall>x \<in> set (oc_calls y). guard_open x)
     \<and> (\<forall>k. length (receipts_of k y) = (if k < length (oc_calls y) \<and> \<not> call_open (oc_calls y ! k) then 1 else 0))
     \<and> length (oc_recorded y) = length (filter (\<lambda>x. \<not> call_open x) (oc_calls y))"

text \<open>Where the receipts are, for a sink that is a channel of the capacity \<open>n\<close>.\<close>

definition channel_ok :: "'q receipt_mpsc \<Rightarrow> nat \<Rightarrow> ('q, 'v) observed_calls \<Rightarrow> bool" where
  "channel_ok ops n y \<longleftrightarrow>
     (\<exists>q. oc_sink y = Channel_sink q \<and> rq_capacity ops q = n
        \<and> mset (map snd (oc_recorded y))
            = mset (oc_received y) + mset (rq_contents ops q) + mset (oc_abandoned y) + mset (map fst (oc_refused y))
        \<and> (rq_receiver_alive ops q \<longrightarrow> oc_abandoned y = [] \<and> ReceiptClosed \<notin> snd ` set (oc_refused y)
             \<and> subseq (oc_received y @ rq_contents ops q) (map snd (oc_recorded y)))
        \<and> (ReceiptFull \<in> snd ` set (oc_refused y) \<longrightarrow> n < length (oc_recorded y)))"

lemma channel_ok_record:
  assumes "receipt_mpsc_laws ops" and "channel_ok ops n y"
  shows "channel_ok ops n (record_receipt ops i r y)"
proof -
  note laws = receipt_mpsc_lawsD [OF assms(1)]
  obtain q where q: "oc_sink y = Channel_sink q" "rq_capacity ops q = n"
      and total: "mset (map snd (oc_recorded y))
            = mset (oc_received y) + mset (rq_contents ops q) + mset (oc_abandoned y) + mset (map fst (oc_refused y))"
      and alive: "rq_receiver_alive ops q \<longrightarrow> oc_abandoned y = [] \<and> ReceiptClosed \<notin> snd ` set (oc_refused y)
             \<and> subseq (oc_received y @ rq_contents ops q) (map snd (oc_recorded y))"
      and full: "ReceiptFull \<in> snd ` set (oc_refused y) \<longrightarrow> n < length (oc_recorded y)"
    using assms(2) unfolding channel_ok_def by blast
  have "size (mset (map snd (oc_recorded y))) \<ge> length (rq_contents ops q)" unfolding total by simp
  then have held: "length (rq_contents ops q) \<le> length (oc_recorded y)" by simp
  have grows: "subseq xs ys \<Longrightarrow> subseq xs (ys @ [r])" for xs ys :: "receipt list"
    by (metis append_Nil2 list_emb_append_mono list_emb_Nil)
  show ?thesis
  proof (cases "rq_try_send ops q r")
    case (Inl e)
    show ?thesis
    proof (cases e)
      case SendFull
      then show ?thesis using Inl laws(5) [of q r] q total alive held grows
        by (auto simp: channel_ok_def record_receipt_def Let_def channel_try_record_def map_err_def)
    next
      case SendClosed
      then show ?thesis using Inl laws(6) [of q r] q total full
        by (auto simp: channel_ok_def record_receipt_def Let_def channel_try_record_def map_err_def)
    qed
  next
    case (Inr q')
    have sent: "rq_contents ops q' = rq_contents ops q @ [r]" "rq_capacity ops q' = n" "rq_receiver_alive ops q"
      using laws(4) [OF Inr] q(2) by auto
    have "subseq ((oc_received y @ rq_contents ops q) @ [r]) (map snd (oc_recorded y) @ [r])"
      using alive sent(3) by (intro list_emb_append_mono) auto
    then show ?thesis using Inr sent q total alive full
      by (auto simp: channel_ok_def record_receipt_def Let_def channel_try_record_def map_err_def)
  qed
qed

lemma record_receipt_parts:
  "oc_calls (record_receipt ops i r y) = oc_calls y"
  "oc_recorded (record_receipt ops i r y) = oc_recorded y @ [(i, r)]"
  by (simp_all add: record_receipt_def Let_def split: sum.split)

text \<open>A call that ends.\<close>

lemma length_filter_update:
  assumes "k < length xs" and "\<not> P (xs ! k)"
  shows "length (filter P (xs[k := x])) = length (filter P xs) + (if P x then 1 else 0)"
proof -
  have xs: "xs = take k xs @ xs ! k # drop (Suc k) xs" using assms(1) by (rule id_take_nth_drop)
  have "filter P xs = filter P (take k xs) @ filter P (drop (Suc k) xs)"
    by (subst xs) (simp add: assms(2))
  then show ?thesis using assms(1) by (simp add: upd_conv_take_nth_drop)
qed

lemma calls_ok_goes_on:
  assumes ok: "calls_ok y" and k: "k < length (oc_calls y)"
    and step: "observe_step (oc_calls y ! k) (now, ev) = Some (x, rs)"
  shows "calls_ok (fold (record_receipt ops k) rs (y\<lparr>oc_calls := (oc_calls y)[k := x]\<rparr>))"
proof -
  have "guard_open (oc_calls y ! k)" using ok k by (auto simp: calls_ok_def)
  from observe_step_receipts [OF step this]
  have x: "guard_open x" "call_open (oc_calls y ! k)" "length rs = (if call_open x then 0 else 1)" by auto
  have guards: "\<forall>z \<in> set ((oc_calls y)[k := x]). guard_open z"
    using ok x(1) set_update_subset_insert [of "oc_calls y" k x] by (auto simp: calls_ok_def)
  have ended: "length (filter (\<lambda>x. \<not> call_open x) ((oc_calls y)[k := x]))
      = length (filter (\<lambda>x. \<not> call_open x) (oc_calls y)) + length rs"
    using length_filter_update [of k "oc_calls y" "\<lambda>x. \<not> call_open x" x] k x(2,3) by simp
  show ?thesis
  proof (cases "call_open x")
    case True
    then have "rs = []" using x(3) by simp
    then show ?thesis using ok guards ended x(2) True k
      by (auto simp: calls_ok_def receipts_of_def nth_list_update)
  next
    case False
    then obtain r where "rs = [r]" using x(3) by (auto simp: length_Suc_conv)
    then show ?thesis using ok guards ended x(2) False k
      by (auto simp: calls_ok_def receipts_of_def nth_list_update record_receipt_parts)
  qed
qed

lemma calls_ok_made:
  assumes "calls_ok y"
  shows "calls_ok (y\<lparr>oc_calls := oc_calls y @ [ObserveCreated (receipt_guard_new i now)]\<rparr>)"
  using assms by (auto simp: calls_ok_def receipts_of_def nth_append receipt_guard_new_def)

lemma calls_step_ok:
  assumes laws: "receipt_mpsc_laws ops" and ok: "calls_ok y" "channel_ok ops n y" and step: "calls_step ops y e = Some y'"
  shows "calls_ok y' \<and> channel_ok ops n y'"
proof (cases e)
  case (Call_made now i)
  then have y': "y' = y\<lparr>oc_calls := oc_calls y @ [ObserveCreated (receipt_guard_new i now)]\<rparr>"
    using step by (simp add: calls_step_def)
  show ?thesis using calls_ok_made [OF ok(1)] ok(2) unfolding y' by (simp add: channel_ok_def)
next
  case (Call_goes_on k now ev)
  then obtain x rs where k: "k < length (oc_calls y)" "observe_step (oc_calls y ! k) (now, ev) = Some (x, rs)"
      and y': "y' = fold (record_receipt ops k) rs (y\<lparr>oc_calls := (oc_calls y)[k := x]\<rparr>)"
    using step by (auto simp: calls_step_def split: if_splits)
  have "channel_ok ops n (fold (record_receipt ops k) rs z)" if "channel_ok ops n z" for z
    using that by (induction rs arbitrary: z) (auto intro: channel_ok_record [OF laws])
  moreover have "channel_ok ops n (y\<lparr>oc_calls := (oc_calls y)[k := x]\<rparr>)" using ok(2) by (simp add: channel_ok_def)
  ultimately show ?thesis using calls_ok_goes_on [OF ok(1) k] unfolding y' by blast
next
  case Receipt_taken
  then obtain q r q' where q: "oc_sink y = Channel_sink q" "rq_recv ops q = Some (r, q')"
      and y': "y' = y\<lparr>oc_sink := Channel_sink q', oc_received := oc_received y @ [r]\<rparr>"
    using step by (auto simp: calls_step_def split: receipt_sink.splits)
  have "calls_ok y'" using ok(1) unfolding y' by (simp add: calls_ok_def receipts_of_def)
  moreover have "channel_ok ops n y'"
    using ok(2) receipt_mpsc_lawsD(7) [OF laws q(2)] q(1) unfolding y' by (auto simp: channel_ok_def)
  ultimately show ?thesis ..
next
  case Receiver_gone
  then obtain q where q: "oc_sink y = Channel_sink q"
      and y': "y' = y\<lparr>oc_sink := Channel_sink (rq_drop_receiver ops q), oc_abandoned := oc_abandoned y @ rq_contents ops q\<rparr>"
    using step by (auto simp: calls_step_def split: receipt_sink.splits)
  have "calls_ok y'" using ok(1) unfolding y' by (simp add: calls_ok_def receipts_of_def)
  moreover have "channel_ok ops n y'"
    using ok(2) receipt_mpsc_lawsD(8-10) [OF laws] q unfolding y' by (auto simp: channel_ok_def)
  ultimately show ?thesis ..
qed

lemma calls_run_ok:
  "receipt_mpsc_laws ops \<Longrightarrow> calls_ok y \<Longrightarrow> channel_ok ops n y \<Longrightarrow> calls_run ops y es = Some y' \<Longrightarrow> calls_ok y' \<and> channel_ok ops n y'"
  by (induction es arbitrary: y) (auto split: option.splits dest: calls_step_ok)

section \<open>No receipt goes missing silently\<close>

text \<open>
  In any interleaving of calls and consumer, every call that is over has recorded exactly one receipt and no other call any;
  each is received, still queued, refused or was queued when the receiver went away. What the consumer gets comes in the
  order of recording, and it gets everything while it listens to no more calls than the capacity it chose.
\<close>

theorem receipts_accounted:
  assumes laws: "receipt_mpsc_laws ops" and "receipt_channel ops n = Some sink"
    and "calls_run ops (observed_calls_new sink) es = Some y"
  shows "(\<forall>k < length (oc_calls y). length (receipts_of k y) = (if call_open (oc_calls y ! k) then 0 else 1))
    \<and> (\<exists>q. oc_sink y = Channel_sink q
        \<and> mset (map snd (oc_recorded y))
            = mset (oc_received y) + mset (rq_contents ops q) + mset (oc_abandoned y) + mset (map fst (oc_refused y))
        \<and> (rq_receiver_alive ops q \<longrightarrow> subseq (oc_received y @ rq_contents ops q) (map snd (oc_recorded y)))
        \<and> (rq_receiver_alive ops q \<and> length (oc_calls y) \<le> n \<longrightarrow>
             oc_received y @ rq_contents ops q = map snd (oc_recorded y)))"
proof -
  have sink: "sink = Channel_sink (rq_channel ops n)" using assms(2) by (simp add: receipt_channel_def split: if_splits)
  have "calls_ok (observed_calls_new sink)" by (simp add: calls_ok_def receipts_of_def observed_calls_new_def)
  moreover have "channel_ok ops n (observed_calls_new sink)"
    using receipt_mpsc_lawsD(1-3) [OF laws] by (simp add: channel_ok_def sink observed_calls_new_def)
  ultimately have calls: "calls_ok y" and "channel_ok ops n y" using calls_run_ok [OF laws _ _ assms(3)] by blast+
  then obtain q where q: "oc_sink y = Channel_sink q"
      and total: "mset (map snd (oc_recorded y))
            = mset (oc_received y) + mset (rq_contents ops q) + mset (oc_abandoned y) + mset (map fst (oc_refused y))"
      and alive: "rq_receiver_alive ops q \<longrightarrow> oc_abandoned y = [] \<and> ReceiptClosed \<notin> snd ` set (oc_refused y)
             \<and> subseq (oc_received y @ rq_contents ops q) (map snd (oc_recorded y))"
      and full: "ReceiptFull \<in> snd ` set (oc_refused y) \<longrightarrow> n < length (oc_recorded y)"
    unfolding channel_ok_def by blast
  have few: "length (oc_recorded y) \<le> length (oc_calls y)"
    using calls length_filter_le [of "\<lambda>x. \<not> call_open x" "oc_calls y"] by (simp add: calls_ok_def)
  have "oc_received y @ rq_contents ops q = map snd (oc_recorded y)"
    if "rq_receiver_alive ops q" "length (oc_calls y) \<le> n"
  proof (rule subseq_same_length)
    show "subseq (oc_received y @ rq_contents ops q) (map snd (oc_recorded y))" using alive that by blast
    have "e \<notin> snd ` set (oc_refused y)" for e using alive full few that by (cases e) auto
    then have "oc_refused y = []" by (metis image_is_empty equals0I set_empty)
    with total alive that have "mset (map snd (oc_recorded y)) = mset (oc_received y @ rq_contents ops q)" by simp
    then show "length (oc_received y @ rq_contents ops q) = length (map snd (oc_recorded y))" by (metis size_mset)
  qed
  then show ?thesis using calls q total alive by (auto simp: calls_ok_def)
qed

text \<open>A channel as a list, and two calls over a capacity of one: the second receipt is refused.\<close>

definition list_receipts :: "(nat \<times> receipt list \<times> bool) receipt_mpsc" where
  "list_receipts =
     \<lparr>rq_channel = (\<lambda>n. (n, [], True)),
      rq_try_send = (\<lambda>(n, rs, alive) r.
        if \<not> alive then Inl SendClosed else if n \<le> length rs then Inl SendFull else Inr (n, rs @ [r], alive)),
      rq_recv = (\<lambda>(n, rs, alive). case rs of [] \<Rightarrow> None | r # rs' \<Rightarrow> Some (r, (n, rs', alive))),
      rq_drop_receiver = (\<lambda>(n, rs, alive). (n, [], False)),
      rq_contents = (\<lambda>(n, rs, alive). rs), rq_capacity = (\<lambda>(n, rs, alive). n), rq_receiver_alive = (\<lambda>(n, rs, alive). alive)\<rparr>"

lemma list_receipts_laws: "receipt_mpsc_laws list_receipts"
  by (auto simp: receipt_mpsc_laws_def list_receipts_def Let_def split: list.splits if_splits)

theorem receipts_accounted_witness:
  "\<exists>y. calls_run list_receipts (observed_calls_new (Channel_sink (1, [], True)) :: (_, unit) observed_calls)
      [Call_made 10 3, Call_made 11 4, Call_goes_on 0 12 Polled, Call_goes_on 0 15 FutureDropped, Call_goes_on 1 16 FutureDropped]
      = Some y
    \<and> receipts_of 0 y = [\<lparr>rc_operation_id = 3, rc_elapsed = 5, rc_status = Abandoned EffPossible\<rparr>]
    \<and> length (receipts_of 1 y) = 1 \<and> map snd (oc_refused y) = [ReceiptFull]
    \<and> size (mset (map snd (oc_recorded y))) = 2"
proof -
  let ?es = "[Call_made 10 3, Call_made 11 4, Call_goes_on 0 12 Polled, Call_goes_on 0 15 FutureDropped,
    Call_goes_on 1 16 FutureDropped] :: unit calls_event list"
  let ?run = "calls_run list_receipts (observed_calls_new (Channel_sink (1, [], True))) ?es"
  have run: "case ?run of None \<Rightarrow> False | Some y \<Rightarrow>
      receipts_of 0 y = [\<lparr>rc_operation_id = 3, rc_elapsed = 5, rc_status = Abandoned EffPossible\<rparr>]
      \<and> map snd (oc_refused y) = [ReceiptFull] \<and> length (oc_calls y) = 2 \<and> \<not> call_open (oc_calls y ! 1)
      \<and> length (oc_recorded y) = 2"
    by (simp add: calls_step_def observed_calls_new_def receipt_guard_new_def guard_mark_launched_def guard_drop_def
        record_receipt_def list_receipts_def channel_try_record_def map_err_def Let_def receipts_of_def)
  then obtain y where y: "?run = Some y" by (cases ?run) auto
  have sink: "receipt_channel list_receipts 1 = Some (Channel_sink (1, [], True))"
    by (simp add: receipt_channel_def list_receipts_def)
  from receipts_accounted [OF list_receipts_laws sink y] run show ?thesis unfolding y by auto
qed

end
