(* ===== verification/Repository_Run.thy ===== *)
theory Repository_Run
  imports Repository_Worker Review_Shape "HOL-Library.Product_Lexorder"
begin

text \<open>
  The host of the repository worker (\<^verbatim>\<open>examples/repository-worker/src/main.rs\<close>, \<open>run\<close>): a file is compiled, the
  workflow runs over the dispatcher of \<open>Repository_Worker\<close>, and its outputs are listed. What a returned run reports is
  determined by the file.
\<close>

section \<open>The run\<close>

definition worker_input :: run_input where
  "worker_input = \<lparr>ri_repository = ''joshrotenberg/tower-agent'', ri_branch = ''main''\<rparr>"

text \<open>The request of \<open>run\<close>; the token is the fresh one of \<open>WorkflowContext::new\<close>.\<close>

definition worker_request :: "job workflow_definition \<Rightarrow> token \<Rightarrow> (run_input, job) workflow_request" where
  "worker_request d fresh =
     \<lparr>wreq_context = workflow_context_new ''local-run'' fresh, wreq_definition = d, wreq_input = worker_input\<rparr>"

definition worker_results :: "step_output workflow_outcome \<Rightarrow> (string \<times> string) list" where
  "worker_results outcome = sort (map (\<lambda>(k, out). (k, so_text out)) (wo_outputs outcome))"

text \<open>\<open>run\<close> with the call of the workflow service as an argument; \<open>None\<close> is a panic of the compiler.\<close>

definition worker_run ::
  "(string \<Rightarrow> string + workflow_file) \<Rightarrow> (step_id list \<Rightarrow> string)
   \<Rightarrow> ((agent_error, step_output) workflow_failure \<Rightarrow> string)
   \<Rightarrow> (job workflow_definition \<Rightarrow> (agent_error, step_output) workflow_failure + step_output workflow_outcome)
   \<Rightarrow> string \<Rightarrow> string \<Rightarrow> 'j profile_catalog \<Rightarrow> (string + (string \<times> string) list) option" where
  "worker_run parse show_ids show_failure oneshot fname document catalog =
     (case config_compile parse show_ids fname document catalog of
        None \<Rightarrow> None
      | Some (Inl ds) \<Rightarrow> Some (Inl (run_refusal ds))
      | Some (Inr d) \<Rightarrow> Some (map_sum show_failure worker_results (oneshot d)))"

text \<open>What \<open>main\<close> prints for one file.\<close>

definition worker_lines :: "string \<Rightarrow> string + (string \<times> string) list \<Rightarrow> string list" where
  "worker_lines label result =
     (''== '' @ label @ '' =='')
     # (case result of
          Inr results \<Rightarrow> map (\<lambda>(i, shown). ''  '' @ i @ '': '' @ shown) results
        | Inl refusal \<Rightarrow> [''  refused:'' @ [CHR 0x0A] @ refusal])"

section \<open>What a step answers\<close>

definition worker_answers :: "('j, 'v) repository_worker \<Rightarrow> worker_step \<Rightarrow> agent_error + step_output \<Rightarrow> bool" where
  "worker_answers w call s \<longleftrightarrow> (\<exists>op fresh reached. worker_call w op fresh call = Some (ending.Settled s, reached))"

text \<open>The value of a step by its job and the outputs of its direct needs.\<close>

definition worker_value :: "step_id \<Rightarrow> job \<Rightarrow> (step_id, step_output) btree_map \<Rightarrow> agent_error + step_output" where
  "worker_value k j deps = Inr (case j of
       MechanicalJob m args \<Rightarrow> run_mechanical m args
         \<lparr>call_run_id = [], call_workflow_id = [], call_workflow_version = [], call_step_id = k, call_input = worker_input,
          call_job = j, call_dependencies = deps, call_cancellation = [], call_deadline = None\<rparr>
     | AgentJob profile prompt p \<Rightarrow> \<lparr>so_text = provider_as_str p @ '' answered: '' @ prompt\<rparr>)"

lemma worker_answers_value:
  assumes comp: "config_compile parse show_ids fname document (catalog_example :: 'j profile_catalog) = Some (Inr d)"
    and step: "wf_step d (call_step_id call) = Some def" and job: "call_job call = def_job def" and input: "call_input call = worker_input"
    and "worker_answers (example_worker :: ('j, 'v) repository_worker) call s"
  shows "functional_answers worker_value call s"
proof -
  obtain op fresh reached where run: "worker_call (example_worker :: ('j, 'v) repository_worker) op fresh call = Some (ending.Settled s, reached)"
    using assms(5) by (auto simp: worker_answers_def)
  show ?thesis
    using run example_steps_answer [OF comp step job, where 'v = 'v, of op fresh] job input
    by (auto simp: functional_answers_def worker_value_def run_mechanical_def split: job.splits mechanical_op.splits)
qed

text \<open>A map in order has its entries in the order of pairs.\<close>

lemma sort_entries: "bt_wf m \<Longrightarrow> sort (map (\<lambda>(k, v). (k, f v)) m) = map (\<lambda>(k, v). (k, f v)) m"
proof (rule sorted_sort_id)
  assume "bt_wf m"
  then have "sorted_wrt (\<lambda>a b. fst a < fst b) m" by (simp add: bt_wf_def sorted_wrt_map)
  then show "sorted (map (\<lambda>(k, v). (k, f v)) m)"
    unfolding sorted_wrt_map by (rule sorted_wrt_mono_rel [rotated]) (auto simp: less_eq_prod_def)
qed

section \<open>The report\<close>

text \<open>
  A run of an accepted file fails no step: whatever the schedule and however many steps run at once, every provider and
  every mechanical step answers, and a run that returns an outcome reports, in order of step names, what evaluating the
  steps one after the other gives, an agent step answering its own prompt from the provider compilation recorded.
\<close>

theorem worker_reports_file:
  assumes comp: "config_compile parse show_ids fname document (catalog_example :: 'j profile_catalog) = Some (Inr d)" and m: "0 < m"
    and e: "execution (worker_request d fresh) m (Returned (Inr outcome), now, st) acts"
    and settled: "settles_by (worker_answers (example_worker :: ('j, 'v) repository_worker)) acts"
    and oneshot: "oneshot d = Inr outcome"
  shows "\<exists>outs. sequential worker_value d (wf_order d) [] = Some outs
    \<and> worker_run parse show_ids show_failure oneshot fname document (catalog_example :: 'j profile_catalog)
        = Some (Inr (map (\<lambda>(k, out). (k, so_text out)) outs))
    \<and> map fst outs = bt_keys (wf_steps d)
    \<and> (\<forall>k def profile prompt p. wf_step d k = Some def \<and> def_job def = AgentJob profile prompt p \<longrightarrow>
         map_of outs k = Some \<lparr>so_text = provider_as_str p @ '' answered: '' @ prompt\<rparr>)"
proof -
  obtain f where "parse document = Inr f" and c: "compile (hdr_id (file_workflow f)) (hdr_version (file_workflow f))
      (map (entry_spec (catalog_example :: 'j profile_catalog)) (flat_entries f)) = Some (Inr d)"
    using comp by (cases rule: config_compile_facts [of parse show_ids fname document "catalog_example :: 'j profile_catalog"]) auto
  have def: "wreq_definition (worker_request d fresh) = d" by (simp add: worker_request_def)
  have d: "compiled (wreq_definition (worker_request d fresh))" unfolding def by (rule compile_compiled [OF c])
  have answers: "functional_answers worker_value call s"
    if call: "call \<in> set (calls acts)" and s: "worker_answers (example_worker :: ('j, 'v) repository_worker) call s" for call s
  proof -
    obtain step where step: "wf_step d (call_step_id call) = Some step"
        "call_for (worker_request d fresh) (call_step_id call) step call"
      using call_received [OF d m e call] unfolding def by metis
    then show ?thesis
      by (intro worker_answers_value [OF comp step(1) _ _ s]) (simp_all add: call_for_def worker_request_def)
  qed
  then have functional: "settles_by (functional_answers worker_value) acts" using settled by (auto simp: settles_by_def)
  note facts = returned_outcome [OF d m e]
  have outs: "sequential worker_value d (wf_order d) [] = Some (wo_outputs outcome)"
    using returned_sequential [OF d m e functional] by (simp add: def)
  have bt: "bt_wf (wo_outputs outcome)"
    using execution_parts(1) [OF d m e] by (simp add: partition_ok_def facts(3))
  have keys: "map fst (wo_outputs outcome) = bt_keys (wf_steps d)"
    using facts(2) by (simp add: facts(3) def graph_nodes_def bt_keys_def)
  have "map_of (wo_outputs outcome) k = Some \<lparr>so_text = provider_as_str p @ '' answered: '' @ prompt\<rparr>"
    if step: "wf_step d k = Some def" and job: "def_job def = AgentJob profile prompt p" for k def profile prompt p
  proof -
    have "k \<in> set (bt_keys (wf_steps d))" using step by (auto simp: wf_step_def bt_keys_eq_dom)
    then obtain v where v: "map_of (wo_outputs outcome) k = Some v" unfolding keys [symmetric] by (metis map_of_eq_None_iff option.exhaust list.set_map)
    obtain call where call: "call \<in> set (calls acts)" "call_step_id call = k" "functional_answers worker_value call (Inr v)"
      by (rule output_call [OF d m e functional v [unfolded facts(3)]])
    obtain def' where "wf_step d k = Some def'" "call_job call = def_job def'"
      using call_received [OF d m e call(1)] call(2) by (metis def call_for_def)
    with call(3) v step job show ?thesis by (simp add: functional_answers_def worker_value_def)
  qed
  then show ?thesis
    using outs keys comp oneshot sort_entries [OF bt, of so_text] by (auto simp: worker_run_def worker_results_def)
qed

section \<open>Witness\<close>

definition review_file :: workflow_file where
  "review_file =
     \<lparr>file_schema_version = 1, file_workflow = \<lparr>hdr_id = ''repository-review'', hdr_version = ''v1''\<rparr>,
      file_step =
        [sample_entry ''architecture'' [] (AgentEntry ''reviewer'' ''look''),
         sample_entry ''verification'' [] (MechanicalEntry ''read_branch'' []),
         sample_entry ''synthesize'' [''architecture'', ''verification''] (MechanicalEntry ''collect'' [])],
      file_phase = []\<rparr>"

abbreviation review_file_definition :: "job workflow_definition" where
  "review_file_definition \<equiv>
     join_definition (AgentJob ''reviewer'' ''look'' Claude) (MechanicalJob ReadBranch []) (MechanicalJob Collect [])"

lemma review_file_compiles:
  "config_compile (\<lambda>_. Inr review_file) (\<lambda>_. []) ''f'' [] (catalog_example :: nat profile_catalog) = Some (Inr review_file_definition)"
  by code_simp

theorem worker_reports_file_witness:
  "\<exists>outcome now st acts. execution (worker_request review_file_definition [7]) 2
       (Returned (Inr outcome), now, st :: (_, _, step_output, agent_error) run_state) acts
     \<and> worker_run (\<lambda>_. Inr review_file) (\<lambda>_. []) (\<lambda>_. []) (\<lambda>_. Inr outcome) ''f'' [] (catalog_example :: nat profile_catalog)
        = Some (Inr [(''architecture'', ''claude answered: look''),
            (''synthesize'', ''collected [claude answered: look | joshrotenberg/tower-agent@main]''),
            (''verification'', ''joshrotenberg/tower-agent@main'')])"
proof -
  let ?d = review_file_definition
  let ?a = "\<lparr>so_text = ''claude answered: look''\<rparr>" and ?v = "\<lparr>so_text = ''joshrotenberg/tower-agent@main''\<rparr>"
    and ?s = "\<lparr>so_text = ''collected [claude answered: look | joshrotenberg/tower-agent@main]''\<rparr>"
  let ?ja = "AgentJob ''reviewer'' ''look'' Claude" and ?jv = "MechanicalJob ReadBranch []" and ?js = "MechanicalJob Collect []"
  have req: "join_request ''local-run'' None worker_input ?ja ?jv ?js = worker_request ?d [7]"
    by (simp add: join_request_def worker_request_def workflow_context_new_def)
  obtain st :: "(run_input, job, step_output, agent_error) run_state" and acts outcome
    where e: "execution (worker_request ?d [7]) 2 (Returned (Inr outcome), 0, st) acts"
      and called: "map (\<lambda>c. (call_step_id c, call_job c, call_dependencies c)) (calls acts) =
        [(''architecture'', ?ja, []), (''verification'', ?jv, []), (''synthesize'', ?js, [(''architecture'', ?a), (''verification'', ?v)])]"
      and taken: "takes acts = [(''verification'', step_settlement.Settled (Inr ?v)), (''architecture'', step_settlement.Settled (Inr ?a)),
        (''synthesize'', step_settlement.Settled (Inr ?s))]"
    using join_execution [of "''local-run''" None worker_input ?ja ?jv ?js ?a ?v ?s] unfolding req by (elim exE conjE) (rule that)
  have compiled: "compiled (wreq_definition (worker_request ?d [7]))"
    using compile_compiled [OF join_compiled [of ?ja ?jv ?js]] by (simp add: worker_request_def)
  have answers: "worker_answers (example_worker :: (nat, unit) repository_worker) c x"
    if c: "c \<in> set (calls acts)" and x: "(call_step_id c, step_settlement.Settled x) \<in> set (takes acts)" for c x
  proof -
    obtain step where step: "wf_step ?d (call_step_id c) = Some step" "call_for (worker_request ?d [7]) (call_step_id c) step c"
      by (rule call_received [OF compiled zero_less_numeral e c]) (simp add: worker_request_def)
    have input: "call_input c = worker_input" "call_job c = def_job step" using step(2) by (simp_all add: call_for_def worker_request_def)
    have "(call_step_id c, call_job c, call_dependencies c) \<in> set (map (\<lambda>c. (call_step_id c, call_job c, call_dependencies c)) (calls acts))"
      using c by auto
    then have "\<exists>reached. worker_call (example_worker :: (nat, unit) repository_worker) 1 [0] c = Some (ending.Settled x, reached)"
      using example_steps_answer [OF review_file_compiles step(1) input(2), where 'v = unit, of 1 "[0]"] x input
      unfolding called by (auto simp: taken worker_input_def run_mechanical_def bt_values_def)
    then show ?thesis unfolding worker_answers_def by blast
  qed
  then have settled: "settles_by (worker_answers (example_worker :: (nat, unit) repository_worker)) acts" by (simp add: settles_by_def)
  have "sequential worker_value ?d (wf_order ?d) [] = Some [(''architecture'', ?a), (''synthesize'', ?s), (''verification'', ?v)]"
    by code_simp
  with worker_reports_file [OF review_file_compiles zero_less_numeral e settled refl, of "\<lambda>_. []"] e show ?thesis by auto
qed

end
