(* ===== verification/Spec2Isabelle.thy ===== *)
theory Spec2Isabelle
  imports Workflow_Runs Agent_Step Layer_Stack Event_Channel Fake Codex_Adapter Mcp_Plan Durable_Host Repository_Worker Local_Worker
    Agent_Cli Health_Gate Fanout Elicitation Local_Proof Options_Debug
    Receipt_Channel Repository_Run
begin

text \<open>
  A verification library for \<^verbatim>\<open>tower-agent\<close>, a family of Rust crates that run coding-agent CLIs
  as Tower services. A request (\<open>AgentRequest\<close>: a call context and a turn) goes through a stack of
  layers to a service; a provider service launches a CLI and settles it into a \<open>TurnOutcome\<close> or an
  \<open>AgentError\<close> that says what kind of failure it was, in which phase, and what is known of external
  effects. The planner folds layers of partial turns into a turn for one provider, the workflow
  runner schedules turns as a DAG of steps, and the MCP adapter exposes both as tools. This root
  theory imports everything; the theories and the code they model are the following.

  \<^bold>\<open>Shared vocabulary.\<close> \<open>Prelude\<close>: machine integers as words, UTF-8 strings as byte lists,
  \<open>str::trim\<close>, \<open>Result\<close> combinators, \<open>BTreeMap\<close> as a sorted association list, decimal rendering.
  \<open>Layering\<close>: the locale of overlays (an upper value wins where it is bound), interpreted by failure
  evidence, effect states, and all the groups of partial turns.

  \<^bold>\<open>Core crate\<close> (\<^verbatim>\<open>crates/tower-agent/src\<close>). \<open>Response\<close>: \<^verbatim>\<open>session.rs\<close>, \<^verbatim>\<open>response.rs\<close>;
  \<open>Agent_Error\<close>: \<^verbatim>\<open>error.rs\<close>; \<open>Request\<close>: \<^verbatim>\<open>request.rs\<close>; \<open>Authority\<close>: \<^verbatim>\<open>authority.rs\<close>;
  \<open>Environment\<close>: \<^verbatim>\<open>environment.rs\<close> and \<^verbatim>\<open>process.rs\<close>; \<open>Event_Channel\<close>: \<^verbatim>\<open>event.rs\<close>, with the
  byte accounting of a bounded channel as interleaved atomic steps over a channel of which only the
  documented laws are assumed (\<open>mpsc_laws\<close>); \<open>Fake\<close>: \<^verbatim>\<open>fake.rs\<close>. \<open>Service\<close> says what a service and
  a layer are here: a service maps a request to how its call ends and to whether the provider was
  called; a layer refuses or forwards and transforms how the call below ended. The locale
  \<open>honest_layer\<close> is the contract every layer keeps. \<open>Guard_Layers\<close>, \<open>Admission\<close>, \<open>Deadline_Layer\<close> and
  \<open>Observe\<close> model \<^verbatim>\<open>layer/\<close> (validate, authority, limit, catch_panic, fault; admission over a
  semaphore with its documented laws; deadline; observe and supervise as step machines; \<open>Receipt_Channel\<close>:
  the sinks behind an observer that many calls share), and
  \<open>Layer_Stack\<close> composes them: effects and evidence survive any stack.

  \<^bold>\<open>Workflow crate\<close> (\<^verbatim>\<open>crates/tower-agent-workflow/src\<close>). \<open>Workflow_Definition\<close>, \<open>Workflow_Compile\<close>,
  \<open>Workflow_Authored\<close> and \<open>Dependency_Graph\<close>: \<^verbatim>\<open>id.rs\<close> and \<^verbatim>\<open>definition.rs\<close>, identifiers, builders, and
  the compiler (Kahn's algorithm on ordered maps, with every \<open>expect\<close> as a panic branch).
  \<open>Workflow_Execution\<close>: \<^verbatim>\<open>execution.rs\<close> as a transition system whose choices (which future is ready,
  whether a timer or a cancellation fired) are the environment's; \<open>Workflow_Scheduling\<close> proves its
  invariants, \<open>Workflow_Runs\<close> the properties of whole runs and their termination by a measure, and
  \<open>Workflow_Dataflow\<close> that every run computes what evaluating the steps one after the other computes.
  \<open>Agent_Step\<close>: \<^verbatim>\<open>agent.rs\<close>.

  \<^bold>\<open>Provider adapters.\<close> \<open>Claude_Query\<close> and \<open>Claude_Adapter\<close>: \<^verbatim>\<open>crates/tower-agent-claude/src/lib.rs\<close>;
  \<open>Codex_Command\<close> and \<open>Codex_Adapter\<close>: \<^verbatim>\<open>crates/tower-agent-codex/src/lib.rs\<close>. The CLI wrapper crates
  are not in the repository: a wrapper builder is the list of calls made on it, its execution and
  its event accessors are parameters (\<open>claude_host\<close>, \<open>codex_host\<close>), and so are UUID parsing, JSON
  Schema validation, the environment, and the file system. \<open>Options_Debug\<close>: what the options of both render in a log.

  \<^bold>\<open>Planner\<close> (\<^verbatim>\<open>crates/tower-agent-plan/src\<close>). \<open>Plan_Partial\<close>: \<^verbatim>\<open>provider.rs\<close>, \<^verbatim>\<open>partial.rs\<close> and the
  option groups of \<^verbatim>\<open>claude.rs\<close> and \<^verbatim>\<open>codex.rs\<close>; \<open>Plan_Resolve\<close>: \<^verbatim>\<open>diagnostic.rs\<close>, \<^verbatim>\<open>requirement.rs\<close>,
  \<^verbatim>\<open>resolve.rs\<close>; \<open>Plan_Compile\<close>: both planners, \<^verbatim>\<open>ready.rs\<close>, \<^verbatim>\<open>router.rs\<close>.

  \<^bold>\<open>MCP adapter\<close> (\<^verbatim>\<open>crates/tower-agent-mcp/src\<close>). \<open>Mcp_Continuation\<close>: \<^verbatim>\<open>continuation.rs\<close>, with the
  trait as the locale \<open>continuation_store\<close>, the in-process store as its interpretation, and a bounded
  queue as its abstract specification; \<open>Mcp_Projection\<close>: \<^verbatim>\<open>projection.rs\<close> and \<^verbatim>\<open>progress.rs\<close>;
  \<open>Mcp_Tool\<close>: \<^verbatim>\<open>tool.rs\<close>, one call and any interleaving of calls of many clients; \<open>Mcp_Plan\<close>:
  \<^verbatim>\<open>plan.rs\<close>, the elicitation loop over the planner's \<open>prepare\<close>.

  \<^bold>\<open>Hosts\<close> (\<^verbatim>\<open>examples\<close>). \<open>Durable_Store\<close>, \<open>Durable_Replay\<close>, \<open>Durable_Worker\<close> and \<open>Durable_Host\<close>:
  \<^verbatim>\<open>apalis-durable/src\<close>, the append-only store as a fold over its records and as text on disk, its
  recovery, admission and execution, and any sequence of commands and restarts of the host (locale
  \<open>append_invariant\<close>, one interpretation per invariant). \<open>Local_Run_Store\<close> and \<open>Local_Worker\<close>:
  \<^verbatim>\<open>apalis-local/src/main.rs\<close>, the in-memory store as critical sections that interleave, refined to the
  life of one step (\<open>life_step\<close>, locale \<open>life_invariant\<close>), and the dispatcher, the tasks and the review
  workflow around it. \<open>Local_Proof\<close> is the driver of that host: waiting for the statistics without a lost wakeup, the
  rendezvous of the roots, what a printed proof means, and that every run of the review workflow that returns without a
  failure, over workers that let the fake providers run, passes the driver's validation of its outcome. \<open>Repository_Compile\<close> and \<open>Repository_Worker\<close>: \<^verbatim>\<open>repository-worker/src\<close>, a
  configuration compiler over the workflow crate and the planner, and the dispatcher of its steps; \<open>Repository_Run\<close>:
  what a returned run of a compiled file reports, whatever the schedule.
  \<open>Agent_Cli\<close>: \<^verbatim>\<open>agent/src/main.rs\<close>, one turn from flags or a saved profile through a stack of layers over
  the native adapters.

  \<^bold>\<open>Examples of the crates.\<close> \<open>Layered_Fake\<close>: the fake provider under the layers, as several examples compose it.
  \<open>Resilience\<close> (locale \<open>resilience_errors\<close>, one interpretation per example) and \<open>Health_Gate\<close> (locale
  \<open>manual_circuit\<close>): \<^verbatim>\<open>circuit_breaker.rs\<close>, \<^verbatim>\<open>rate_limiter.rs\<close>, \<^verbatim>\<open>bulkhead.rs\<close> and \<^verbatim>\<open>health_gated_circuit.rs\<close> of
  \<^verbatim>\<open>crates/tower-agent/examples\<close>, third-party resilience between the layers; the gate is refined to its specification
  \<open>gate_spec\<close>. \<open>Fanout\<close>: \<^verbatim>\<open>crates/tower-agent-workflow/examples/fake_fanout.rs\<close>, whose report follows from
  \<open>Workflow_Dataflow\<close> for every schedule (\<open>Review_Shape\<close>: workflows of two roots and a join, which the local host runs too). \<open>Elicitation\<close>: \<^verbatim>\<open>crates/tower-agent-plan/examples/elicitation_loop.rs\<close>.

  \<^bold>\<open>What the properties show.\<close> Workflow: compilation decides well-formedness, orders steps, reports real
  cycles and is independent of authoring order; runs stay within their concurrency, carry exactly the
  settled dependencies, start nothing after a stop, classify every failure, terminate when the
  dispatcher cooperates, and return the outputs of the sequential evaluation whatever the schedule. Core: authorization is containment under the ceiling, the child environment
  holds only what its policy names, permits and event bytes are conserved, receipts are one per
  observed call, and no stack of layers hides effects or evidence. Adapters: preflight decides
  validity, effects are claimed absent only when nothing ran, a preassigned session pins success and is
  carried by every failure but those listed, sandboxes match the authorized authority. Planner:
  precedence of layers at every path, soundness of complete resolutions, one round of answers settles a
  pass (and when a baseline then refuses it), prepared turns are faithful in every option and routed only
  to their provider. MCP: names
  resolve only in their scope, stores are bounded, conversations are resumed only by their owner,
  nothing private is published while classifications are, and every call refuses purely or answers
  with its settlement. Hosts: on a log without a torn tail, a committed result is the answer through restarts and failed writes
  (\<open>lasting\<close>, under the law \<open>reads_apart\<close> of the record codec), launched work is called again at most
  under claims handed out before; superseded or lost claims commit nothing, a step runs and answers once however often it is
  delivered, the log restores the store, and configuration is accepted exactly when it is a workflow
  whose steps then run on the provider it was compiled for.

  \<^bold>\<open>Conventions.\<close> A panic is a \<open>None\<close> (or an unwinding ending) and theorems say when it cannot happen.
  Time, readiness and scheduling are arguments or choices of the environment. Loops are structural
  recursion on what bounds them in the code (the list they walk, the passes of the elicitation
  loop, the order queue of the eviction loop), so no fuel is needed; the run loop of the workflow is a
  step relation with a termination measure. Text of \<open>Debug\<close> and \<open>Display\<close> is modelled where it carries
  redaction or is part of a message.

  \<^bold>\<open>Not modelled.\<close> The layers of \<^verbatim>\<open>tower_resilience\<close> (whether one rejects a call is a choice of the
  environment) and the server of \<^verbatim>\<open>stdio_server.rs\<close>; the apalis queues and their workers
  (a delivery is a choice of the environment); derives and serialisation (the record codec of the durable
  log and the TOML parser are parameters), wakers and executors, the wrapped CLIs and the
  \<^verbatim>\<open>tower_mcp\<close> transport, and the JSON Schema of tool inputs. \<open>u64\<close> sums of token buckets wrap as in a
  release build; the counters of the local store are natural numbers. Where the code and its
  documentation disagree, the lemma that shows it stands next to the model
  (\<open>Mcp_Plan.unknown_provider_defaulted\<close>, \<open>Plan_Resolve.elicited_prompt_refused\<close>, the second half of
  \<open>Mcp_Plan.one_form_completes\<close>, \<open>Durable_Replay.append_after_torn_tail\<close>,
  \<open>Durable_Host.superseded_launch_invisible\<close>, \<open>Repository_Compile.empty_phase_forgets\<close>,
  \<open>Repository_Worker.compiled_step_runs\<close>, \<open>Local_Run_Store.final_snapshot_decided\<close>,
  \<open>Agent_Cli.cli_profile_never_writes\<close>, \<open>Agent_Cli.cli_profile_ignores_session\<close>).
\<close>

end
